(* ===== verification/Forge_Prelude.thy ===== *)
theory Forge_Prelude
  imports Complex_Main "HOL-Library.Word" "HOL-Library.AList" "HOL-Library.Char_ord"
    "HOL-Library.List_Lexorder" "HOL-Library.Product_Lexorder"
begin

text \<open>
  Shared vocabulary of the development: Python exceptions as values and the combinators that
  sequence \<^verbatim>\<open>if ...: raise ...\<close> guards in source order, the fragment of Python's
  \<^verbatim>\<open>str\<close>, \<^verbatim>\<open>dict\<close>, \<^verbatim>\<open>datetime\<close> and \<^verbatim>\<open>UUID\<close> the
  domain layer uses, and the generic lemmas the component theories rely on.

  A Python string is a HOL \<^typ>\<open>string\<close>: a list of characters whose codes are the code points
  0 to 255. A UUID is its 128-bit integer. An aware \<^verbatim>\<open>datetime\<close> is the instant it
  denotes in microseconds; a naive one is kept apart, because the code rejects it. A dict is an
  insertion-ordered association list, updated in place as Python does.
  \<^verbatim>\<open>isinstance\<close> guards whose failure the HOL type of the argument already excludes
  have no counterpart in the model.
\<close>

section \<open>Collections of facts\<close>

named_theorems guard_simps \<open>rules that open a sequence of guards\<close>
named_theorems forge_defs \<open>definitions that are unfolded together in component proofs\<close>

section \<open>Exceptions and guards\<close>

datatype py_exn =
    TypeError string
  | ValueError string
  | KeyError string

type_synonym 'a result = "py_exn + 'a"

definition when_raise :: "bool \<Rightarrow> 'e \<Rightarrow> 'e option" where
  "when_raise c e = (if c then Some e else None)"

text \<open>A block of statements each of which may raise: the first exception wins.\<close>

fun seq_raise :: "'e option list \<Rightarrow> 'e option" where
  "seq_raise [] = None"
| "seq_raise (None # gs) = seq_raise gs"
| "seq_raise (Some e # gs) = Some e"

text \<open>A \<^verbatim>\<open>for\<close> loop whose body may raise.\<close>

definition each_raise :: "'a list \<Rightarrow> ('a \<Rightarrow> 'e option) \<Rightarrow> 'e option" where
  "each_raise xs f = seq_raise (map f xs)"

text \<open>A check of an optional value, skipped on \<^verbatim>\<open>None\<close>.\<close>

definition opt_raise :: "'a option \<Rightarrow> ('a \<Rightarrow> 'e option) \<Rightarrow> 'e option" where
  "opt_raise v f = (case v of None \<Rightarrow> None | Some x \<Rightarrow> f x)"

text \<open>Return a value unless the guards raise.\<close>

definition raising :: "'e option \<Rightarrow> 'a \<Rightarrow> 'e + 'a" where
  "raising g x = (case g of None \<Rightarrow> Inr x | Some e \<Rightarrow> Inl e)"

definition ebind :: "'e + 'a \<Rightarrow> ('a \<Rightarrow> 'e + 'b) \<Rightarrow> 'e + 'b" where
  "ebind m f = (case m of Inl e \<Rightarrow> Inl e | Inr x \<Rightarrow> f x)"

definition exn_of :: "'e + 'a \<Rightarrow> 'e option" where
  "exn_of m = (case m of Inl e \<Rightarrow> Some e | Inr _ \<Rightarrow> None)"

fun emap :: "('a \<Rightarrow> 'e + 'b) \<Rightarrow> 'a list \<Rightarrow> 'e + 'b list" where
  "emap f [] = Inr []"
| "emap f (x # xs) = ebind (f x) (\<lambda>y. ebind (emap f xs) (\<lambda>ys. Inr (y # ys)))"

section \<open>Python strings\<close>

definition is_py_space :: "char \<Rightarrow> bool" where
  "is_py_space c = (let n = (of_char c :: nat) in
     (9 \<le> n \<and> n \<le> 13) \<or> (28 \<le> n \<and> n \<le> 32) \<or> n = 133 \<or> n = 160)"

definition py_lstrip :: "string \<Rightarrow> string" where
  "py_lstrip s = dropWhile is_py_space s"

definition rstrip_by :: "(char \<Rightarrow> bool) \<Rightarrow> string \<Rightarrow> string" where
  "rstrip_by p s = rev (dropWhile p (rev s))"

definition py_strip :: "string \<Rightarrow> string" where
  "py_strip s = rstrip_by is_py_space (py_lstrip s)"

definition blank :: "string \<Rightarrow> bool" where
  "blank s = (py_strip s = [])"

fun split_on :: "char \<Rightarrow> string \<Rightarrow> string list" where
  "split_on c [] = [[]]"
| "split_on c (x # xs) =
     (if x = c then [] # split_on c xs
      else (case split_on c xs of [] \<Rightarrow> [[x]] | y # ys \<Rightarrow> (x # y) # ys))"

fun join_with :: "string \<Rightarrow> string list \<Rightarrow> string" where
  "join_with sep [] = []"
| "join_with sep [x] = x"
| "join_with sep (x # y # ys) = x @ sep @ join_with sep (y # ys)"

fun starts_with :: "string \<Rightarrow> string \<Rightarrow> bool" where
  "starts_with s [] = True"
| "starts_with [] (p # ps) = False"
| "starts_with (x # xs) (p # ps) = (x = p \<and> starts_with xs ps)"

definition ends_with :: "string \<Rightarrow> string \<Rightarrow> bool" where
  "ends_with s t = starts_with (rev s) (rev t)"

fun contains_str :: "string \<Rightarrow> string \<Rightarrow> bool" where
  "contains_str [] t = (t = [])"
| "contains_str (x # xs) t = (starts_with (x # xs) t \<or> contains_str xs t)"

definition char_lower :: "char \<Rightarrow> char" where
  "char_lower c = (let n = (of_char c :: nat) in
     if (65 \<le> n \<and> n \<le> 90) \<or> (192 \<le> n \<and> n \<le> 222 \<and> n \<noteq> 215) then char_of (n + 32) else c)"

definition py_lower :: "string \<Rightarrow> string" where
  "py_lower s = map char_lower s"

definition py_casefold :: "string \<Rightarrow> string" where
  "py_casefold s = concat (map (\<lambda>c. if c = CHR 0xDF then ''ss'' else [char_lower c]) s)"

definition utf8_length :: "string \<Rightarrow> nat" where
  "utf8_length s = sum_list (map (\<lambda>c. if (of_char c :: nat) < 128 then 1 else 2) s)"

section \<open>Character classes of the regular expressions\<close>

definition is_digit :: "char \<Rightarrow> bool" where
  "is_digit c = (CHR ''0'' \<le> c \<and> c \<le> CHR ''9'')"

definition is_lower_az :: "char \<Rightarrow> bool" where
  "is_lower_az c = (CHR ''a'' \<le> c \<and> c \<le> CHR ''z'')"

definition is_upper_az :: "char \<Rightarrow> bool" where
  "is_upper_az c = (CHR ''A'' \<le> c \<and> c \<le> CHR ''Z'')"

definition is_alnum :: "char \<Rightarrow> bool" where
  "is_alnum c = (is_digit c \<or> is_lower_az c \<or> is_upper_az c)"

definition is_hex_lower :: "char \<Rightarrow> bool" where
  "is_hex_lower c = (is_digit c \<or> (CHR ''a'' \<le> c \<and> c \<le> CHR ''f''))"

definition is_hex_any :: "char \<Rightarrow> bool" where
  "is_hex_any c = (is_hex_lower c \<or> (CHR ''A'' \<le> c \<and> c \<le> CHR ''F''))"

text \<open>\<^verbatim>\<open>[0-9a-f]{64}\<close>, \<^verbatim>\<open>[0-9a-f]{40}\<close> and their case-insensitive forms.\<close>

definition is_digest64 :: "string \<Rightarrow> bool" where
  "is_digest64 s = (length s = 64 \<and> list_all is_hex_lower s)"

definition is_sha40 :: "string \<Rightarrow> bool" where
  "is_sha40 s = (length s = 40 \<and> list_all is_hex_lower s)"

definition is_digest64_any :: "string \<Rightarrow> bool" where
  "is_digest64_any s = (length s = 64 \<and> list_all is_hex_any s)"

definition is_sha40_any :: "string \<Rightarrow> bool" where
  "is_sha40_any s = (length s = 40 \<and> list_all is_hex_any s)"

section \<open>Numbers, identifiers and times\<close>

type_synonym uuid = "128 word"

definition hex_digit :: "nat \<Rightarrow> char" where
  "hex_digit n = ''0123456789abcdef'' ! (n mod 16)"

definition uuid_hex :: "uuid \<Rightarrow> string" where
  "uuid_hex u = map (\<lambda>i. hex_digit (unat u div 16 ^ (31 - i))) [0..<32]"

definition uuid_str :: "uuid \<Rightarrow> string" where
  "uuid_str u = (let h = uuid_hex u in
     take 8 h @ ''-'' @ take 4 (drop 8 h) @ ''-'' @ take 4 (drop 12 h) @ ''-'' @
     take 4 (drop 16 h) @ ''-'' @ drop 20 h)"

datatype datetime = Naive int | Aware int

fun is_aware :: "datetime \<Rightarrow> bool" where
  "is_aware (Aware _) = True"
| "is_aware (Naive _) = False"

abbreviation max_signed_bigint :: int where
  "max_signed_bigint \<equiv> 2 ^ 63 - 1"

section \<open>Dictionaries\<close>

type_synonym ('k, 'v) dict = "('k \<times> 'v) list"

abbreviation dict_set :: "'k \<Rightarrow> 'v \<Rightarrow> ('k, 'v) dict \<Rightarrow> ('k, 'v) dict" where
  "dict_set \<equiv> AList.update"

text \<open>\<^verbatim>\<open>d[k]\<close> raises \<^verbatim>\<open>KeyError\<close> on a missing key.\<close>

definition dict_at :: "('k, 'v) dict \<Rightarrow> 'k \<Rightarrow> 'v result" where
  "dict_at d k = (case map_of d k of None \<Rightarrow> Inl (KeyError ''missing key'') | Some v \<Rightarrow> Inr v)"

text \<open>A dict comprehension: later bindings of a key overwrite earlier ones in place.\<close>

fun dict_build :: "('x \<Rightarrow> 'k) \<Rightarrow> ('x \<Rightarrow> 'v) \<Rightarrow> 'x list \<Rightarrow> ('k, 'v) dict \<Rightarrow> ('k, 'v) dict" where
  "dict_build k v [] d = d"
| "dict_build k v (x # xs) d = dict_build k v xs (dict_set (k x) (v x) d)"

section \<open>Lemmas on guards\<close>

lemma when_raise_None [simp, guard_simps]: "when_raise c e = None \<longleftrightarrow> \<not> c"
  by (simp add: when_raise_def)

lemma when_raise_Some [simp, guard_simps]: "when_raise c e = Some e' \<longleftrightarrow> c \<and> e' = e"
  by (auto simp: when_raise_def)

lemma seq_raise_Cons [guard_simps]:
  "seq_raise (g # gs) = (case g of None \<Rightarrow> seq_raise gs | Some e \<Rightarrow> Some e)"
  by (cases g) auto

lemma seq_raise_None [simp]: "seq_raise gs = None \<longleftrightarrow> (\<forall>g\<in>set gs. g = None)"
  by (induction gs rule: seq_raise.induct) auto

lemma seq_raise_Cons_None [simp]:
  "seq_raise (g # gs) = None \<longleftrightarrow> g = None \<and> seq_raise gs = None"
  by simp

lemma seq_raise_ex [simp]: "(\<exists>e. seq_raise gs = Some e) \<longleftrightarrow> (\<exists>g\<in>set gs. g \<noteq> None)"
  by (induction gs rule: seq_raise.induct) auto

lemma seq_raise_Some_in: "seq_raise gs = Some e \<Longrightarrow> Some e \<in> set gs"
  by (induction gs rule: seq_raise.induct) auto

lemma each_raise_None [simp]: "each_raise xs f = None \<longleftrightarrow> (\<forall>x\<in>set xs. f x = None)"
  by (simp add: each_raise_def)

lemma each_raise_cong [fundef_cong]:
  "xs = ys \<Longrightarrow> (\<And>x. x \<in> set ys \<Longrightarrow> f x = g x) \<Longrightarrow> each_raise xs f = each_raise ys g"
  by (auto simp: each_raise_def intro!: arg_cong [where f = seq_raise])

lemma each_raise_Some_in: "each_raise xs f = Some e \<Longrightarrow> \<exists>x \<in> set xs. f x = Some e"
  unfolding each_raise_def by (drule seq_raise_Some_in) force

lemma each_raise_when: "each_raise xs (\<lambda>x. when_raise (P x) e) = when_raise (\<exists>x \<in> set xs. P x) e"
  unfolding each_raise_def when_raise_def by (induction xs) auto

lemma seq_raise_pair: "seq_raise [a, b] = (case a of None \<Rightarrow> b | Some e \<Rightarrow> Some e)"
  by (cases a; cases b) auto

lemma opt_raise_None [simp]: "opt_raise v f = None \<longleftrightarrow> (\<forall>x. v = Some x \<longrightarrow> f x = None)"
  by (cases v) (auto simp: opt_raise_def)

lemma opt_raise_simps [simp]: "opt_raise None f = None" "opt_raise (Some x) f = f x"
  by (simp_all add: opt_raise_def)

lemma raising_Inr [simp]: "raising g x = Inr y \<longleftrightarrow> g = None \<and> y = x"
  by (cases g) (auto simp: raising_def)

lemma raising_Inl [simp]: "raising g x = Inl e \<longleftrightarrow> g = Some e"
  by (cases g) (auto simp: raising_def)

lemma raising_simps [simp]: "raising None x = Inr x" "raising (Some e) x = Inl e"
  by (simp_all add: raising_def)

lemma when_raise_simps [simp]: "when_raise False e = None" "when_raise True e = Some e"
  by (simp_all add: when_raise_def)

lemma ebind_simps [simp]: "ebind (Inl e) f = Inl e" "ebind (Inr x) f = f x"
  by (simp_all add: ebind_def)

lemma ebind_Inr: "ebind m f = Inr y \<longleftrightarrow> (\<exists>x. m = Inr x \<and> f x = Inr y)"
  by (cases m) auto

lemma ebind_cong [fundef_cong]:
  "m = m' \<Longrightarrow> (\<And>x. m' = Inr x \<Longrightarrow> f x = g x) \<Longrightarrow> ebind m f = ebind m' g"
  by (cases m') auto

lemma exn_of_None [simp]: "exn_of m = None \<longleftrightarrow> (\<exists>x. m = Inr x)"
  by (cases m) (auto simp: exn_of_def)

lemma exn_of_simps [simp]: "exn_of (Inl e) = Some e" "exn_of (Inr x) = None"
  by (simp_all add: exn_of_def)

lemma emap_Inr_iff: "emap f xs = Inr ys \<longleftrightarrow> list_all2 (\<lambda>x y. f x = Inr y) xs ys"
proof (induction xs arbitrary: ys)
  case Nil
  then show ?case by auto
next
  case (Cons x xs)
  then show ?case by (auto simp: ebind_Inr list_all2_Cons1)
qed

section \<open>Lemmas on strings\<close>

lemma blank_iff: "blank s \<longleftrightarrow> (\<forall>c\<in>set s. is_py_space c)"
proof -
  have "blank s \<longleftrightarrow> (\<forall>c\<in>set (dropWhile is_py_space s). is_py_space c)"
    by (simp add: blank_def py_strip_def rstrip_by_def py_lstrip_def dropWhile_eq_Nil_conv)
  also have "\<dots> \<longleftrightarrow> (\<forall>c\<in>set s. is_py_space c)"
    by (metis dropWhile_eq_Nil_conv dropWhile_idem)
  finally show ?thesis .
qed

lemma not_blank_nonempty: "\<not> blank s \<Longrightarrow> s \<noteq> []"
  by (auto simp: blank_iff)

lemma split_on_nonempty [simp]: "split_on c s \<noteq> []"
  by (induction s) (auto split: list.splits)

lemma join_split [simp]: "join_with [c] (split_on c s) = s"
proof (induction s)
  case Nil
  then show ?case by simp
next
  case (Cons x xs)
  then show ?case
    by (cases "split_on c xs"; cases "tl (split_on c xs)") (auto split: list.splits)
qed

lemma split_on_no_sep: "p \<in> set (split_on c s) \<Longrightarrow> c \<notin> set p"
proof (induction s arbitrary: p)
  case Nil
  then show ?case by simp
next
  case (Cons x xs)
  then show ?case by (cases "split_on c xs") (auto split: if_splits)
qed

lemma set_split_on: "\<Union> (set ` set (split_on c s)) = set s - {c}"
proof (induction s)
  case Nil
  then show ?case by simp
next
  case (Cons x xs)
  then show ?case by (cases "split_on c xs") auto
qed

lemma starts_with_iff: "starts_with s t \<longleftrightarrow> (\<exists>r. s = t @ r)"
  by (induction s t rule: starts_with.induct) auto

lemma starts_with_refl [simp]: "starts_with s s"
  by (simp add: starts_with_iff)

lemma starts_with_append [simp]: "starts_with (t @ r) t"
  by (simp add: starts_with_iff)

lemma starts_with_trans: "starts_with a b \<Longrightarrow> starts_with b c \<Longrightarrow> starts_with a c"
  by (auto simp: starts_with_iff)

lemma ends_with_iff: "ends_with s t \<longleftrightarrow> (\<exists>r. s = r @ t)"
proof -
  have "ends_with s t \<longleftrightarrow> (\<exists>r. rev s = rev t @ r)" by (simp add: ends_with_def starts_with_iff)
  also have "\<dots> \<longleftrightarrow> (\<exists>r. s = r @ t)"
    by (metis rev_append rev_rev_ident)
  finally show ?thesis .
qed

lemma hex_digit_lower: "is_hex_lower (hex_digit n)"
proof -
  have "n mod 16 < 16" by simp
  then have "hex_digit n \<in> set ''0123456789abcdef''"
    unfolding hex_digit_def by (intro nth_mem) simp
  then show ?thesis by (auto simp: is_hex_lower_def is_digit_def less_eq_char_def)
qed

lemma length_uuid_hex [simp]: "length (uuid_hex u) = 32"
  by (simp add: uuid_hex_def)

lemma uuid_hex_lower: "list_all is_hex_lower (uuid_hex u)"
  by (simp add: uuid_hex_def list_all_iff hex_digit_lower)

lemma digits_determine:
  "(\<And>k. k < m \<Longrightarrow> n div 16 ^ k mod 16 = n' div 16 ^ k mod (16::nat)) \<Longrightarrow> n mod 16 ^ m = n' mod 16 ^ m"
proof (induction m)
  case 0
  then show ?case by simp
next
  case (Suc m)
  then have "n mod 16 ^ m = n' mod 16 ^ m" and "n div 16 ^ m mod 16 = n' div 16 ^ m mod 16"
    by simp_all
  then show ?case by (simp add: power_Suc2 mod_mult2_eq del: power_Suc)
qed

lemma hex_digit_inject: "hex_digit a = hex_digit b \<Longrightarrow> a mod 16 = b mod 16"
proof -
  assume "hex_digit a = hex_digit b"
  moreover have "distinct ''0123456789abcdef''" by simp
  moreover have "a mod 16 < length ''0123456789abcdef''" "b mod 16 < length ''0123456789abcdef''"
    by simp_all
  ultimately show ?thesis unfolding hex_digit_def by (metis nth_eq_iff_index_eq)
qed

lemma uuid_hex_inject [simp]: "uuid_hex u = uuid_hex v \<longleftrightarrow> u = v"
proof
  assume eq: "uuid_hex u = uuid_hex v"
  have "unat u div 16 ^ k mod 16 = unat v div 16 ^ k mod 16" if "k < 32" for k
  proof -
    have "uuid_hex u ! (31 - k) = uuid_hex v ! (31 - k)" by (simp add: eq)
    moreover have "[0..<32] ! (31 - k) = 31 - k" using that nth_upt [of 0 "31 - k" 32] by simp
    ultimately have "hex_digit (unat u div 16 ^ k) = hex_digit (unat v div 16 ^ k)"
      using that by (simp add: uuid_hex_def)
    then show ?thesis by (rule hex_digit_inject)
  qed
  then have "unat u mod 16 ^ 32 = unat v mod 16 ^ 32" by (rule digits_determine)
  moreover have "unat u < 16 ^ 32" "unat v < 16 ^ 32"
    using unsigned_less [of u, where 'a = nat] unsigned_less [of v, where 'a = nat] by simp_all
  ultimately show "u = v" by (simp add: word_unat_eq_iff)
qed simp

lemma uuid_str_inject [simp]: "uuid_str u = uuid_str v \<longleftrightarrow> u = v"
proof
  assume "uuid_str u = uuid_str v"
  then have "take 8 (uuid_hex u) @ take 4 (drop 8 (uuid_hex u)) @ take 4 (drop 12 (uuid_hex u)) @ take 4 (drop 16 (uuid_hex u)) @ drop 20 (uuid_hex u) =
    take 8 (uuid_hex v) @ take 4 (drop 8 (uuid_hex v)) @ take 4 (drop 12 (uuid_hex v)) @ take 4 (drop 16 (uuid_hex v)) @ drop 20 (uuid_hex v)"
    by (simp add: uuid_str_def Let_def)
  moreover have "take 8 h @ take 4 (drop 8 h) @ take 4 (drop 12 h) @ take 4 (drop 16 h) @ drop 20 h = h" for h :: string
    using append_take_drop_id [of 4 "drop 16 h"] append_take_drop_id [of 4 "drop 12 h"]
      append_take_drop_id [of 4 "drop 8 h"] append_take_drop_id [of 8 h] by simp
  ultimately have "uuid_hex u = uuid_hex v" by simp
  then show "u = v" by simp
qed simp

section \<open>Lemmas on dictionaries\<close>

lemma dict_at_Inr [simp]: "dict_at d k = Inr v \<longleftrightarrow> map_of d k = Some v"
  by (simp add: dict_at_def split: option.splits)

lemma dict_at_Inl: "dict_at d k = Inl e \<Longrightarrow> map_of d k = None"
  by (auto simp: dict_at_def split: option.splits)

lemma map_of_dict_build:
  "map_of (dict_build k v xs d) j =
     (case filter (\<lambda>x. k x = j) xs of [] \<Rightarrow> map_of d j | ys \<Rightarrow> Some (v (last (filter (\<lambda>x. k x = j) xs))))"
proof (induction xs arbitrary: d)
  case Nil
  then show ?case by simp
next
  case (Cons x xs)
  then show ?case by (cases "filter (\<lambda>x. k x = j) xs") (auto simp: update_conv')
qed

lemma dict_build_dom:
  "set (map fst (dict_build k v xs d)) = set (map fst d) \<union> k ` set xs"
  by (induction xs arbitrary: d) (auto simp: dom_update)

lemma dict_build_distinct_keys:
  "distinct (map fst d) \<Longrightarrow> distinct (map fst (dict_build k v xs d))"
  by (induction xs arbitrary: d) (auto simp: distinct_update)

lemma dict_set_fresh: "k \<notin> set (map fst d) \<Longrightarrow> dict_set k v d = d @ [(k, v)]"
  by (induction d) auto

lemma length_dict_set_le: "length (dict_set k v d) \<le> Suc (length d)"
  by (induction d) auto

lemma dict_build_fresh:
  assumes "distinct (map k xs)" and "k ` set xs \<inter> set (map fst d) = {}"
  shows "dict_build k v xs d = d @ map (\<lambda>x. (k x, v x)) xs"
  using assms
proof (induction xs arbitrary: d)
  case Nil
  then show ?case by simp
next
  case (Cons x xs)
  have "dict_set (k x) (v x) d = d @ [(k x, v x)]"
    using Cons.prems(2) by (intro dict_set_fresh) auto
  with Cons show ?case by auto
qed

lemma length_dict_build_le: "length (dict_build k v xs d) \<le> length d + length xs"
proof (induction xs arbitrary: d)
  case Nil
  then show ?case by simp
next
  case (Cons x xs)
  have "length (dict_set (k x) (v x) d) \<le> Suc (length d)" by (rule length_dict_set_le)
  with Cons.IH [of "dict_set (k x) (v x) d"] show ?case by simp
qed

section \<open>Interfaces: machines with an invariant and a version fence\<close>

text \<open>A component whose operations all preserve an invariant: it holds along every run.\<close>

locale invariant_machine =
  fixes init :: "'s \<Rightarrow> bool"
    and step :: "'s \<Rightarrow> 's \<Rightarrow> bool"
    and inv :: "'s \<Rightarrow> bool"
  assumes init_inv: "init s \<Longrightarrow> inv s"
    and step_inv: "step s t \<Longrightarrow> inv s \<Longrightarrow> inv t"
begin

lemma steps_inv: "step\<^sup>*\<^sup>* s t \<Longrightarrow> inv s \<Longrightarrow> inv t"
  by (induction rule: rtranclp_induct) (auto intro: step_inv)

lemma run_inv_from_init: "init s \<Longrightarrow> step\<^sup>*\<^sup>* s t \<Longrightarrow> inv t"
  using steps_inv init_inv by blast

end

text \<open>A component whose every operation increments an optimistic version: the version counts the
  operations, so no snapshot ever recurs and a version fence identifies a point of the run.\<close>

locale versioned_machine =
  fixes step :: "'s \<Rightarrow> 's \<Rightarrow> bool"
    and version :: "'s \<Rightarrow> int"
  assumes step_version: "step s t \<Longrightarrow> version t = version s + 1"
begin

lemma steps_version: "(step ^^ n) s t \<Longrightarrow> version t = version s + int n"
proof (induction n arbitrary: t)
  case 0
  then show ?case by simp
next
  case (Suc n)
  then obtain u where "(step ^^ n) s u" and "step u t" by auto
  with Suc.IH step_version show ?case by fastforce
qed

lemma version_counts_steps: "step\<^sup>*\<^sup>* s t \<Longrightarrow> \<exists>n. (step ^^ n) s t \<and> version t = version s + int n"
  using steps_version by (metis rtranclp_power)

lemma never_returns: "step\<^sup>+\<^sup>+ s t \<Longrightarrow> version s < version t"
proof -
  assume "step\<^sup>+\<^sup>+ s t"
  then obtain n where "0 < n" and "(step ^^ n) s t" by (auto simp: tranclp_power)
  with steps_version show ?thesis by fastforce
qed

lemma same_version_same_depth:
  assumes "step\<^sup>*\<^sup>* s t" and "step\<^sup>*\<^sup>* t u" and "version t = version u"
  shows "t = u"
proof -
  obtain n where n: "(step ^^ n) t u" "version u = version t + int n"
    using version_counts_steps [OF assms(2)] by blast
  with assms(3) have "n = 0" by simp
  with n show ?thesis by simp
qed

end

end
