(* ===== verification/Forge_Graph.thy ===== *)
theory Forge_Graph
  imports Forge_Prelude "HOL-Library.Multiset"
begin

text \<open>
  The two work-list loops the program runs over dependency graphs, shared by
  \<^verbatim>\<open>domain/epic_items.py\<close> and \<^verbatim>\<open>domain/subscription.py\<close>: the topological count
  (Kahn's algorithm with a stack, \<^verbatim>\<open>list.pop()\<close> taking the last element) and the transitive
  search from a set of dependencies. Both work on dictionaries that the callers build, so a missing
  key is a \<open>KeyError\<close>; that none occurs is part of what is proved. The interface between a caller's
  dictionaries and the loop is the locale \<open>dependency_graph\<close>.
\<close>

section \<open>Counting in topological order\<close>

text \<open>\<^verbatim>\<open>for d in dependents[node]: remaining[d] -= 1; if remaining[d] == 0: ready.append(d)\<close>\<close>

fun relax :: "'k list \<Rightarrow> ('k, int) dict \<Rightarrow> 'k list \<Rightarrow> (('k, int) dict \<times> 'k list) result" where
  "relax [] remaining ready = Inr (remaining, ready)"
| "relax (d # ds) remaining ready = ebind (dict_at remaining d) (\<lambda>c.
     relax ds (dict_set d (c - 1) remaining) (if c - 1 = 0 then ready @ [d] else ready))"

definition positive :: "('k, int) dict \<Rightarrow> nat" where
  "positive d = length (filter (\<lambda>kc. 0 < snd kc) d)"

lemma positive_set:
  "map_of d k = Some c \<Longrightarrow>
   positive (dict_set k c' d) + (if 0 < c then 1 else 0) = positive d + (if 0 < c' then 1 else 0)"
  by (induction d) (auto simp: positive_def split: if_splits)

lemma relax_measure:
  "relax ds remaining ready = Inr (remaining', ready') \<Longrightarrow>
   length ready' + positive remaining' \<le> length ready + positive remaining"
proof (induction ds remaining ready rule: relax.induct)
  case (1 remaining ready)
  then show ?case by simp
next
  case (2 d ds remaining ready)
  then obtain c where c: "map_of remaining d = Some c"
    "relax ds (dict_set d (c - 1) remaining) (if c - 1 = 0 then ready @ [d] else ready) = Inr (remaining', ready')"
    by (auto simp: ebind_Inr)
  from c have at: "dict_at remaining d = Inr c" by simp
  from "2.IH" [OF at c(2)] positive_set [OF c(1), of "c - 1"] show ?case by (auto split: if_splits)
qed

function kahn_loop :: "('k, 'k list) dict \<Rightarrow> 'k list \<Rightarrow> ('k, int) dict \<Rightarrow> nat \<Rightarrow> nat result" where
  "kahn_loop dependents ready remaining visited = (if ready = [] then Inr visited
     else ebind (dict_at dependents (last ready)) (\<lambda>ds.
       ebind (relax ds remaining (butlast ready)) (\<lambda>(remaining', ready').
         kahn_loop dependents ready' remaining' (visited + 1))))"
  by pat_completeness auto

termination kahn_loop
proof (relation "measure (\<lambda>(dependents, ready, remaining, visited). length ready + positive remaining)")
  fix dependents :: "('k, 'k list) dict" and ready ready' :: "'k list" and remaining remaining' :: "('k, int) dict"
    and visited :: nat and ds p
  assume "ready \<noteq> []" and "relax ds remaining (butlast ready) = Inr p" and "(remaining', ready') = p"
  then have "length ready' + positive remaining' \<le> length (butlast ready) + positive remaining" and "0 < length ready"
    using relax_measure [of ds remaining "butlast ready" remaining' ready'] by auto
  then show "((dependents, ready', remaining', visited + 1), dependents, ready, remaining, visited)
      \<in> measure (\<lambda>(dependents, ready, remaining, visited). length ready + positive remaining)"
    by (simp del: length_greater_0_conv)
qed simp

declare kahn_loop.simps [simp del]

definition zero_keys :: "('k, int) dict \<Rightarrow> 'k list" where
  "zero_keys remaining = map fst (filter (\<lambda>kc. snd kc = 0) remaining)"

text \<open>What one relaxation does: every count drops by its multiplicity, and exactly the keys that reach
  zero are appended, once each.\<close>

lemma relax_result:
  assumes "set ds \<subseteq> dom (map_of remaining)"
  shows "\<exists>remaining' zs. relax ds remaining ready = Inr (remaining', ready @ zs) \<and>
     (\<forall>k. map_of remaining' k = map_option (\<lambda>c. c - int (count_list ds k)) (map_of remaining k)) \<and>
     distinct zs \<and> set zs = {d \<in> set ds. \<exists>c. map_of remaining d = Some c \<and> 1 \<le> c \<and> c \<le> int (count_list ds d)}"
  using assms
proof (induction ds arbitrary: remaining ready)
  case Nil
  then show ?case by (auto simp: option.map_ident)
next
  case (Cons d ds)
  then obtain c where c: "map_of remaining d = Some c" by auto
  let ?rem = "dict_set d (c - 1) remaining"
  let ?ready = "if c - 1 = 0 then ready @ [d] else ready"
  have "set ds \<subseteq> dom (map_of ?rem)" using Cons.prems by (fastforce simp: update_conv')
  from Cons.IH [OF this, of ?ready] obtain remaining' zs where
    r: "relax ds ?rem ?ready = Inr (remaining', ?ready @ zs)"
    and m: "\<forall>k. map_of remaining' k = map_option (\<lambda>c. c - int (count_list ds k)) (map_of ?rem k)"
    and z: "distinct zs" "set zs = {e \<in> set ds. \<exists>c. map_of ?rem e = Some c \<and> 1 \<le> c \<and> c \<le> int (count_list ds e)}"
    by blast
  let ?zs = "if c - 1 = 0 then d # zs else zs"
  have "relax (d # ds) remaining ready = Inr (remaining', ready @ ?zs)"
    using c r by (simp add: dict_at_def)
  moreover have "\<forall>k. map_of remaining' k = map_option (\<lambda>c. c - int (count_list (d # ds) k)) (map_of remaining k)"
    using m c by (auto simp: update_conv' split: option.splits)
  moreover have "distinct ?zs" using z by (auto simp: update_conv')
  moreover have "set ?zs = {e \<in> set (d # ds). \<exists>c. map_of remaining e = Some c \<and> 1 \<le> c \<and> c \<le> int (count_list (d # ds) e)}"
  proof -
    have "e \<in> set ?zs \<longleftrightarrow> e \<in> set (d # ds) \<and> (\<exists>c. map_of remaining e = Some c \<and> 1 \<le> c \<and> c \<le> int (count_list (d # ds) e))" for e
    proof (cases "e = d")
      case True
      have "count_list ds d = 0 \<longleftrightarrow> d \<notin> set ds" by (rule count_list_0_iff)
      with True c z(2) show ?thesis by (auto simp: update_conv')
    next
      case False
      with z(2) show ?thesis by (auto simp: update_conv')
    qed
    then show ?thesis by blast
  qed
  ultimately show ?case by blast
qed

section \<open>Graphs\<close>

text \<open>A graph given by its nodes and the dependencies of each; edges lead from a dependency to what
  depends on it.\<close>

definition edges :: "'k list \<Rightarrow> ('k \<Rightarrow> 'k list) \<Rightarrow> ('k \<times> 'k) set" where
  "edges nodes deps = {(d, n). n \<in> set nodes \<and> d \<in> set (deps n)}"

definition tables_ok :: "'k list \<Rightarrow> ('k \<Rightarrow> 'k list) \<Rightarrow> ('k, 'k list) dict \<Rightarrow> ('k, int) dict \<Rightarrow> bool" where
  "tables_ok nodes deps dependents remaining \<longleftrightarrow> distinct nodes \<and> (\<forall>n \<in> set nodes. set (deps n) \<subseteq> set nodes) \<and>
     distinct (map fst remaining) \<and> dom (map_of remaining) = set nodes \<and>
     (\<forall>n \<in> set nodes. map_of remaining n = Some (int (length (deps n)))) \<and>
     (\<forall>d \<in> set nodes. \<exists>ds. map_of dependents d = Some ds \<and> set ds \<subseteq> set nodes \<and>
        (\<forall>n \<in> set nodes. count_list ds n = count_list (deps n) d))"

text \<open>The invariant of the loop after the nodes \<open>V\<close> have been taken.\<close>

definition kahn_inv :: "'k list \<Rightarrow> ('k \<Rightarrow> 'k list) \<Rightarrow> 'k set \<Rightarrow> 'k list \<Rightarrow> ('k, int) dict \<Rightarrow> bool" where
  "kahn_inv nodes deps V ready remaining \<longleftrightarrow> V \<subseteq> set nodes \<and> distinct ready \<and>
     dom (map_of remaining) = set nodes \<and>
     (\<forall>n \<in> set nodes. map_of remaining n = Some (int (length (filter (\<lambda>d. d \<notin> V) (deps n))))) \<and>
     set ready = {n \<in> set nodes - V. set (deps n) \<subseteq> V} \<and> (\<forall>n \<in> V. set (deps n) \<subseteq> V) \<and>
     acyclic {(d, n). n \<in> V \<and> d \<in> set (deps n)}"

lemma filter_take_node:
  "v \<notin> V \<Longrightarrow> length (filter (\<lambda>d. d \<notin> insert v V) ds) + count_list ds v = length (filter (\<lambda>d. d \<notin> V) ds)"
  by (induction ds) auto

lemma acyclic_extend:
  assumes "acyclic {(d, n). n \<in> V \<and> d \<in> D n}" and "v \<notin> V" and "\<forall>n \<in> insert v V. D n \<subseteq> V"
  shows "acyclic {(d, n). n \<in> insert v V \<and> d \<in> D n}"
proof -
  let ?r = "{(d, n). n \<in> V \<and> d \<in> D n}" and ?s = "{(d, n). n \<in> insert v V \<and> d \<in> D n}"
  have from_V: "d \<in> V" if "(d, n) \<in> ?s" for d n using that assms(3) by auto
  have path: "(a, b) \<in> ?s\<^sup>+ \<Longrightarrow> a \<in> V \<and> (b \<in> V \<longrightarrow> (a, b) \<in> ?r\<^sup>+)" for a b
  proof (induction rule: trancl.induct)
    case (r_into_trancl a b)
    have "b \<in> V \<Longrightarrow> (a, b) \<in> ?r" using r_into_trancl by simp
    with from_V [OF r_into_trancl] show ?case by blast
  next
    case (trancl_into_trancl a b c)
    have "c \<in> V \<Longrightarrow> (b, c) \<in> ?r" using trancl_into_trancl.hyps(2) by simp
    with trancl_into_trancl.IH from_V [OF trancl_into_trancl.hyps(2)] show ?case by (blast intro: trancl.trancl_into_trancl)
  qed
  show ?thesis
    using assms(1) path unfolding acyclic_def by blast
qed

lemma kahn_step:
  assumes tab: "tables_ok nodes deps dependents rem0" and inv: "kahn_inv nodes deps V ready remaining" and ne: "ready \<noteq> []"
  shows "\<exists>ds remaining' ready'. map_of dependents (last ready) = Some ds \<and>
     relax ds remaining (butlast ready) = Inr (remaining', ready') \<and>
     last ready \<in> set nodes - V \<and> kahn_inv nodes deps (insert (last ready) V) ready' remaining'"
proof -
  define v where "v = last ready"
  have v: "v \<in> set ready" using ne by (simp add: v_def)
  with inv have vn: "v \<in> set nodes" "v \<notin> V" "set (deps v) \<subseteq> V" by (auto simp: kahn_inv_def)
  from tab vn(1) obtain ds where ds: "map_of dependents v = Some ds" "set ds \<subseteq> set nodes"
    and cnt: "\<forall>n \<in> set nodes. count_list ds n = count_list (deps n) v" by (auto simp: tables_ok_def)
  have dom: "dom (map_of remaining) = set nodes" using inv by (simp add: kahn_inv_def)
  with ds(2) have "set ds \<subseteq> dom (map_of remaining)" by simp
  from relax_result [OF this, of "butlast ready"] obtain remaining' zs where
    r: "relax ds remaining (butlast ready) = Inr (remaining', butlast ready @ zs)"
    and m: "\<forall>k. map_of remaining' k = map_option (\<lambda>c. c - int (count_list ds k)) (map_of remaining k)"
    and z: "distinct zs" "set zs = {d \<in> set ds. \<exists>c. map_of remaining d = Some c \<and> 1 \<le> c \<and> c \<le> int (count_list ds d)}"
    by blast
  have rem: "\<forall>n \<in> set nodes. map_of remaining n = Some (int (length (filter (\<lambda>d. d \<notin> V) (deps n))))"
    using inv by (simp add: kahn_inv_def)
  have rem': "map_of remaining' n = Some (int (length (filter (\<lambda>d. d \<notin> insert v V) (deps n))))" if "n \<in> set nodes" for n
    using m rem cnt that filter_take_node [OF vn(2), of "deps n"] by (simp add: algebra_simps del: insert_iff)
  have dom': "dom (map_of remaining') = set nodes" using m dom by (auto simp: dom_def)
  have zs: "set zs = {n \<in> set nodes. v \<in> set (deps n) \<and> set (deps n) \<subseteq> insert v V}"
  proof -
    have "n \<in> set zs \<longleftrightarrow> v \<in> set (deps n) \<and> set (deps n) \<subseteq> insert v V" if n: "n \<in> set nodes" for n
    proof -
      have f: "length (filter (\<lambda>d. d \<notin> insert v V) (deps n)) + count_list (deps n) v = length (filter (\<lambda>d. d \<notin> V) (deps n))"
        by (rule filter_take_node [OF vn(2)])
      have "n \<in> set ds \<longleftrightarrow> v \<in> set (deps n)" using cnt n count_list_0_iff by metis
      moreover have "length (filter (\<lambda>d. d \<notin> insert v V) (deps n)) = 0 \<longleftrightarrow> set (deps n) \<subseteq> insert v V"
        by (auto simp: filter_empty_conv)
      moreover have "0 < count_list (deps n) v \<longleftrightarrow> v \<in> set (deps n)" by (metis count_list_0_iff neq0_conv)
      moreover have "n \<in> set zs \<longleftrightarrow> n \<in> set ds \<and> 1 \<le> length (filter (\<lambda>d. d \<notin> V) (deps n)) \<and>
          length (filter (\<lambda>d. d \<notin> V) (deps n)) \<le> count_list (deps n) v"
        using z(2) rem cnt n by simp
      ultimately show ?thesis using f by linarith
    qed
    moreover have "set zs \<subseteq> set nodes" using z(2) ds(2) by auto
    ultimately show ?thesis by blast
  qed
  have rd: "set ready = {n \<in> set nodes - V. set (deps n) \<subseteq> V}" "distinct ready" using inv by (auto simp: kahn_inv_def)
  have split: "ready = butlast ready @ [v]" using ne by (simp add: v_def)
  have bl: "set (butlast ready) = set ready - {v}" "distinct (butlast ready)"
  proof -
    have "distinct (butlast ready @ [v])" and "set ready = set (butlast ready @ [v])" using rd(2) split by simp_all
    then show "set (butlast ready) = set ready - {v}" "distinct (butlast ready)" by auto
  qed
  have "distinct (butlast ready @ zs)" using bl rd(1) z(1) zs vn(2) by auto
  moreover have "set (butlast ready @ zs) = {n \<in> set nodes - insert v V. set (deps n) \<subseteq> insert v V}"
  proof -
    have "v \<notin> set (deps v)" using vn by auto
    moreover have "n \<notin> V" if "n \<in> set zs" for n
      using that zs vn(2) inv by (auto simp: kahn_inv_def)
    ultimately show ?thesis using bl(1) rd(1) zs by (auto simp: subset_insert_iff)
  qed
  moreover have "\<forall>n \<in> insert v V. set (deps n) \<subseteq> V" using inv vn(3) by (auto simp: kahn_inv_def)
  moreover from this have "acyclic {(d, n). n \<in> insert v V \<and> d \<in> set (deps n)}"
    using inv vn(2) by (intro acyclic_extend) (auto simp: kahn_inv_def)
  ultimately have "kahn_inv nodes deps (insert v V) (butlast ready @ zs) remaining'"
    using inv vn(1) rem' dom' by (auto simp: kahn_inv_def)
  with ds(1) r vn show ?thesis unfolding v_def by blast
qed

lemma kahn_loop_result:
  assumes "tables_ok nodes deps dependents rem0" and "kahn_inv nodes deps V ready remaining"
  shows "\<exists>W remaining'. kahn_loop dependents ready remaining (card V) = Inr (card W) \<and>
     kahn_inv nodes deps W [] remaining'"
  using assms(2)
proof (induction "card (set nodes - V)" arbitrary: V ready remaining)
  case 0
  then have "V = set nodes" by (auto simp: kahn_inv_def)
  with 0 have "ready = []" by (auto simp: kahn_inv_def)
  with 0 show ?case by (subst kahn_loop.simps) auto
next
  case (Suc m)
  show ?case
  proof (cases "ready = []")
    case True
    with Suc.prems show ?thesis by (subst kahn_loop.simps) auto
  next
    case False
    from kahn_step [OF assms(1) Suc.prems False] obtain ds remaining' ready' where
      k: "map_of dependents (last ready) = Some ds" "relax ds remaining (butlast ready) = Inr (remaining', ready')"
      "last ready \<in> set nodes - V" "kahn_inv nodes deps (insert (last ready) V) ready' remaining'" by blast
    have fin: "finite V" using Suc.prems by (auto simp: kahn_inv_def intro: finite_subset)
    have "set nodes - insert (last ready) V = (set nodes - V) - {last ready}" by auto
    then have "m = card (set nodes - insert (last ready) V)" using Suc.hyps(2) k(3) by simp
    from Suc.hyps(1) [OF this k(4)] obtain W rem' where
      W: "kahn_loop dependents ready' remaining' (card (insert (last ready) V)) = Inr (card W)" "kahn_inv nodes deps W [] rem'"
      by blast
    have "kahn_loop dependents ready remaining (card V) = kahn_loop dependents ready' remaining' (card V + 1)"
      using False k(1,2) by (subst kahn_loop.simps) (simp add: dict_at_def)
    with W k(3) fin show ?thesis by auto
  qed
qed

lemma kahn_counts_acyclic:
  assumes tab: "tables_ok nodes deps dependents remaining"
  shows "\<exists>n. kahn_loop dependents (zero_keys remaining) remaining 0 = Inr n \<and>
     (n = length nodes \<longleftrightarrow> acyclic (edges nodes deps))"
proof -
  have zk: "set (zero_keys remaining) = {n \<in> set nodes. deps n = []}" "distinct (zero_keys remaining)"
  proof -
    have d: "distinct (map fst remaining)" and dm: "dom (map_of remaining) = set nodes"
      and l: "\<forall>n \<in> set nodes. map_of remaining n = Some (int (length (deps n)))" using tab by (auto simp: tables_ok_def)
    have "k \<in> set (zero_keys remaining) \<longleftrightarrow> map_of remaining k = Some 0" for k
      using d by (force simp: zero_keys_def)
    moreover have "map_of remaining k = Some 0 \<longleftrightarrow> k \<in> set nodes \<and> deps k = []" for k
      using l dm by (cases "k \<in> set nodes") auto
    ultimately show "set (zero_keys remaining) = {n \<in> set nodes. deps n = []}" by blast
    have "map fst (filter p xs) = filter (\<lambda>k. k \<in> fst ` set (filter p xs)) (map fst xs)" if "distinct (map fst xs)"
      for p and xs :: "('a \<times> int) list" using that by (induction xs) (auto simp: filter_id_conv intro!: filter_cong)
    then show "distinct (zero_keys remaining)" using d by (metis distinct_filter zero_keys_def)
  qed
  have "kahn_inv nodes deps {} (zero_keys remaining) remaining"
    using tab zk by (auto simp: kahn_inv_def tables_ok_def acyclic_def)
  from kahn_loop_result [OF tab this] obtain W rem' where
    W: "kahn_loop dependents (zero_keys remaining) remaining 0 = Inr (card W)" "kahn_inv nodes deps W [] rem'" by auto
  have sub: "W \<subseteq> set nodes" and dist: "distinct nodes" and cl: "\<forall>n \<in> set nodes. set (deps n) \<subseteq> set nodes"
    and stuck: "{n \<in> set nodes - W. set (deps n) \<subseteq> W} = {}"
    using W(2) tab by (auto simp: kahn_inv_def tables_ok_def)
  have "card W = length nodes \<longleftrightarrow> W = set nodes"
    using sub dist by (metis card_subset_eq distinct_card finite_set)
  also have "W = set nodes \<longleftrightarrow> acyclic (edges nodes deps)"
  proof
    assume "W = set nodes"
    with W(2) show "acyclic (edges nodes deps)" by (simp add: kahn_inv_def edges_def)
  next
    assume ac: "acyclic (edges nodes deps)"
    have "edges nodes deps \<subseteq> set nodes \<times> set nodes" using cl by (auto simp: edges_def)
    then have "wf (edges nodes deps)" using ac finite_acyclic_wf finite_subset by blast
    show "W = set nodes"
    proof (rule ccontr)
      assume "W \<noteq> set nodes"
      with sub obtain x where "x \<in> set nodes - W" by blast
      with \<open>wf (edges nodes deps)\<close> obtain n where n: "n \<in> set nodes - W" "\<forall>d. (d, n) \<in> edges nodes deps \<longrightarrow> d \<notin> set nodes - W"
        by (metis wfE_min)
      then have "set (deps n) \<subseteq> W" using cl by (auto simp: edges_def)
      with n stuck show False by blast
    qed
  qed
  finally show ?thesis using W(1) by blast
qed

section \<open>Building the tables\<close>

text \<open>\<^verbatim>\<open>for item in items: for dep in item.deps: dependents[dep].append(item.key)\<close>\<close>

fun link_deps :: "'k list \<Rightarrow> 'k \<Rightarrow> ('k, 'k list) dict \<Rightarrow> ('k, 'k list) dict result" where
  "link_deps [] n dependents = Inr dependents"
| "link_deps (d # ds) n dependents = ebind (dict_at dependents d) (\<lambda>l. link_deps ds n (dict_set d (l @ [n]) dependents))"

fun link_items :: "('a \<Rightarrow> 'k) \<Rightarrow> ('a \<Rightarrow> 'k list) \<Rightarrow> 'a list \<Rightarrow> ('k, 'k list) dict \<Rightarrow> ('k, 'k list) dict result" where
  "link_items key deps [] dependents = Inr dependents"
| "link_items key deps (x # xs) dependents =
     ebind (link_deps (deps x) (key x) dependents) (\<lambda>dependents'. link_items key deps xs dependents')"

text \<open>Every node appears in its own list of dependents as often as it names the dependency.\<close>

lemma link_deps_result:
  assumes "set ds \<subseteq> dom (map_of dependents)"
  shows "\<exists>dependents'. link_deps ds n dependents = Inr dependents' \<and>
     (\<forall>k. map_of dependents' k = map_option (\<lambda>l. l @ replicate (count_list ds k) n) (map_of dependents k))"
  using assms
proof (induction ds arbitrary: dependents)
  case Nil
  then show ?case by (auto simp: option.map_ident)
next
  case (Cons d ds)
  then obtain l where l: "map_of dependents d = Some l" by auto
  have "set ds \<subseteq> dom (map_of (dict_set d (l @ [n]) dependents))" using Cons.prems by (fastforce simp: update_conv')
  from Cons.IH [OF this] obtain dependents' where
    r: "link_deps ds n (dict_set d (l @ [n]) dependents) = Inr dependents'"
    and m: "\<forall>k. map_of dependents' k = map_option (\<lambda>l. l @ replicate (count_list ds k) n) (map_of (dict_set d (l @ [n]) dependents) k)"
    by blast
  have "map_of dependents' k = map_option (\<lambda>l. l @ replicate (count_list (d # ds) k) n) (map_of dependents k)" for k
    using m l by (cases "k = d") (auto simp: update_conv')
  with l r show ?case by (auto simp: dict_at_def)
qed

lemma link_items_result:
  assumes "\<forall>x \<in> set xs. set (deps x) \<subseteq> dom (map_of dependents)"
  shows "\<exists>dependents'. link_items key deps xs dependents = Inr dependents' \<and>
     (\<forall>k. map_of dependents' k =
        map_option (\<lambda>l. l @ concat (map (\<lambda>x. replicate (count_list (deps x) k) (key x)) xs)) (map_of dependents k))"
  using assms
proof (induction xs arbitrary: dependents)
  case Nil
  then show ?case by (auto simp: option.map_ident)
next
  case (Cons x xs)
  from Cons.prems link_deps_result [of "deps x" dependents "key x"] obtain d1 where
    d1: "link_deps (deps x) (key x) dependents = Inr d1"
    "\<forall>k. map_of d1 k = map_option (\<lambda>l. l @ replicate (count_list (deps x) k) (key x)) (map_of dependents k)" by auto
  then have "dom (map_of d1) = dom (map_of dependents)" by (auto simp: dom_def)
  with Cons.IH [of d1] Cons.prems obtain d2 where
    d2: "link_items key deps xs d1 = Inr d2"
    "\<forall>k. map_of d2 k = map_option (\<lambda>l. l @ concat (map (\<lambda>x. replicate (count_list (deps x) k) (key x)) xs)) (map_of d1 k)" by auto
  have "map_of d2 k = map_option (\<lambda>l. l @ concat (map (\<lambda>x. replicate (count_list (deps x) k) (key x)) (x # xs))) (map_of dependents k)" for k
    using d1(2) d2(2) by (simp add: option.map_comp comp_def)
  with d1(1) d2(1) show ?case by auto
qed

definition graph_shape :: "('a \<Rightarrow> 'k) \<Rightarrow> ('a \<Rightarrow> 'k list) \<Rightarrow> 'a list \<Rightarrow> bool" where
  "graph_shape key deps xs = (distinct (map key xs) \<and> (\<forall>x \<in> set xs. set (deps x) \<subseteq> set (map key xs)))"

definition deps_of :: "('a \<Rightarrow> 'k) \<Rightarrow> ('a \<Rightarrow> 'k list) \<Rightarrow> 'a list \<Rightarrow> 'k \<Rightarrow> 'k list" where
  "deps_of key deps xs k = (case map_of (map (\<lambda>x. (key x, deps x)) xs) k of Some ds \<Rightarrow> ds | None \<Rightarrow> [])"

definition item_edges :: "('a \<Rightarrow> 'k) \<Rightarrow> ('a \<Rightarrow> 'k list) \<Rightarrow> 'a list \<Rightarrow> ('k \<times> 'k) set" where
  "item_edges key deps xs = {(d, n). \<exists>x \<in> set xs. n = key x \<and> d \<in> set (deps x)}"

lemma deps_of_key: "distinct (map key xs) \<Longrightarrow> x \<in> set xs \<Longrightarrow> deps_of key deps xs (key x) = deps x"
proof -
  assume d: "distinct (map key xs)" and x: "x \<in> set xs"
  have "map_of (map (\<lambda>x. (key x, deps x)) xs) (key x) = Some (deps x)"
    using d x by (intro map_of_is_SomeI) (auto simp: comp_def)
  then show ?thesis by (simp add: deps_of_def)
qed

lemma edges_items: "distinct (map key xs) \<Longrightarrow> edges (map key xs) (deps_of key deps xs) = item_edges key deps xs"
  by (auto simp: edges_def item_edges_def deps_of_key)

lemma count_list_replicate: "count_list (replicate m a) b = (if a = b then m else 0)"
  by (induction m) auto

lemma count_linked:
  assumes "distinct (map key xs)" and "y \<in> set xs"
  shows "count_list (concat (map (\<lambda>x. replicate (f x) (key x)) xs)) (key y) = f y"
  using assms
proof (induction xs)
  case Nil
  then show ?case by simp
next
  case (Cons x xs)
  show ?case
  proof (cases "y = x")
    case True
    with Cons.prems(1) have "key y \<notin> set (concat (map (\<lambda>x. replicate (f x) (key x)) xs))" by auto
    then have "count_list (concat (map (\<lambda>x. replicate (f x) (key x)) xs)) (key y) = 0" by (simp add: count_list_0_iff)
    with True show ?thesis by (simp add: count_list_replicate)
  next
    case False
    with Cons show ?thesis by (auto simp: count_list_replicate)
  qed
qed

text \<open>Tables built from empty lists and exact counts are right.\<close>

lemma tables_from_links:
  assumes shape: "graph_shape key deps xs"
    and dp: "\<forall>k. map_of dp k = (if k \<in> set (map key xs)
       then Some (concat (map (\<lambda>x. replicate (count_list (deps x) k) (key x)) xs)) else None)"
    and rm: "distinct (map fst rm)" "dom (map_of rm) = set (map key xs)"
      "\<forall>x \<in> set xs. map_of rm (key x) = Some (int (length (deps x)))"
  shows "tables_ok (map key xs) (deps_of key deps xs) dp rm"
proof -
  have dist: "distinct (map key xs)" using shape by (simp add: graph_shape_def)
  have "\<exists>ds. map_of dp (key z) = Some ds \<and> set ds \<subseteq> set (map key xs) \<and>
      (\<forall>n \<in> set (map key xs). count_list ds n = count_list (deps_of key deps xs n) (key z))" if "z \<in> set xs" for z
  proof (intro exI conjI)
    show "map_of dp (key z) = Some (concat (map (\<lambda>x. replicate (count_list (deps x) (key z)) (key x)) xs))"
      using dp that by simp
    show "\<forall>n \<in> set (map key xs). count_list (concat (map (\<lambda>x. replicate (count_list (deps x) (key z)) (key x)) xs)) n =
        count_list (deps_of key deps xs n) (key z)"
      using dist count_linked [OF dist, where f = "\<lambda>x. count_list (deps x) (key z)"] by (auto simp: deps_of_key)
  qed auto
  then show ?thesis
    using shape dist rm by (auto simp: tables_ok_def graph_shape_def deps_of_key)
qed

section \<open>The interface\<close>

text \<open>A client provides items with keys and dependencies and the way it builds the two dictionaries;
  the law is that well-shaped items get correct tables. The count then decides acyclicity.\<close>

locale dependency_graph =
  fixes key :: "'a \<Rightarrow> 'k"
    and deps :: "'a \<Rightarrow> 'k list"
    and build :: "'a list \<Rightarrow> (('k, 'k list) dict \<times> ('k, int) dict) result"
  assumes build_tables: "graph_shape key deps xs \<Longrightarrow>
    \<exists>dp rm. build xs = Inr (dp, rm) \<and> tables_ok (map key xs) (deps_of key deps xs) dp rm"
begin

lemma topological_count:
  assumes "graph_shape key deps xs"
  shows "\<exists>dp rm n. build xs = Inr (dp, rm) \<and> kahn_loop dp (zero_keys rm) rm 0 = Inr n \<and>
     (n = length xs \<longleftrightarrow> acyclic (item_edges key deps xs))"
proof -
  from build_tables [OF assms] obtain dp rm where b: "build xs = Inr (dp, rm)"
    "tables_ok (map key xs) (deps_of key deps xs) dp rm" by blast
  have "distinct (map key xs)" using assms by (simp add: graph_shape_def)
  with kahn_counts_acyclic [OF b(2)] b(1) show ?thesis by (auto simp: edges_items)
qed

end

section \<open>Transitive search\<close>

lemma search_shrinks:
  assumes "k \<notin> set seen" and "map_of indexed k = Some t"
  shows "card (dom (map_of indexed) - insert k (set seen)) < card (dom (map_of indexed) - set seen)"
  using assms by (intro psubset_card_mono) (auto simp: finite_dom_map_of)

text \<open>\<^verbatim>\<open>while pending: dep = pending.pop(); if dep in seen: continue; ...; pending.extend(target.deps)\<close>,
  raising on the first target the caller rejects.\<close>

function reach_search ::
  "('k, 'a) dict \<Rightarrow> ('a \<Rightarrow> 'k list) \<Rightarrow> ('a \<Rightarrow> bool) \<Rightarrow> py_exn \<Rightarrow> 'k list \<Rightarrow> 'k list \<Rightarrow> py_exn option" where
  "reach_search indexed deps bad err seen pending = (if pending = [] then None
     else if last pending \<in> set seen then reach_search indexed deps bad err seen (butlast pending)
     else case map_of indexed (last pending) of
        None \<Rightarrow> Some (KeyError ''missing key'')
      | Some target \<Rightarrow> if bad target then Some err
          else reach_search indexed deps bad err (last pending # seen) (butlast pending @ deps target))"
  by pat_completeness auto

termination reach_search
  by (relation "measures [\<lambda>(indexed, deps, bad, err, seen, pending). card (dom (map_of indexed) - set seen),
    \<lambda>(indexed, deps, bad, err, seen, pending). length pending]") (auto simp: search_shrinks)

declare reach_search.simps [simp del]

definition dep_rel :: "('k, 'a) dict \<Rightarrow> ('a \<Rightarrow> 'k list) \<Rightarrow> ('k \<times> 'k) set" where
  "dep_rel indexed deps = {(k, d). \<exists>t. map_of indexed k = Some t \<and> d \<in> set (deps t)}"

definition hits :: "('k, 'a) dict \<Rightarrow> ('a \<Rightarrow> 'k list) \<Rightarrow> ('a \<Rightarrow> bool) \<Rightarrow> 'k set \<Rightarrow> bool" where
  "hits indexed deps bad P = (\<exists>p \<in> P. \<exists>k t. (p, k) \<in> (dep_rel indexed deps)\<^sup>* \<and> map_of indexed k = Some t \<and> bad t)"

lemma reach_from_seen:
  assumes "(s, k) \<in> (dep_rel indexed deps)\<^sup>*" and "s \<in> S"
    and "\<forall>s \<in> S. \<forall>d. (s, d) \<in> dep_rel indexed deps \<longrightarrow> d \<in> S \<union> P"
  shows "k \<in> S \<or> (\<exists>p \<in> P. (p, k) \<in> (dep_rel indexed deps)\<^sup>*)"
  using assms(1)
proof (induction rule: rtrancl_induct)
  case base
  then show ?case using assms(2) by simp
next
  case (step y z)
  then show ?case using assms(3) by (auto intro: rtrancl.rtrancl_into_rtrancl)
qed

lemma hits_mono: "P \<subseteq> Q \<Longrightarrow> hits indexed deps bad P \<Longrightarrow> hits indexed deps bad Q"
  by (auto simp: hits_def)

lemma reach_search_hits:
  assumes closed: "\<forall>k d. (k, d) \<in> dep_rel indexed deps \<longrightarrow> d \<in> dom (map_of indexed)"
    and "set pending \<subseteq> dom (map_of indexed)"
    and "\<forall>s \<in> set seen. \<exists>t. map_of indexed s = Some t \<and> \<not> bad t"
    and "\<forall>s \<in> set seen. \<forall>d. (s, d) \<in> dep_rel indexed deps \<longrightarrow> d \<in> set seen \<union> set pending"
  shows "reach_search indexed deps bad err seen pending = (if hits indexed deps bad (set pending) then Some err else None)"
  using assms
proof (induction indexed deps bad err seen pending rule: reach_search.induct)
  case (1 indexed deps bad err seen pending)
  note closed = "1.prems"(1)
  show ?case
  proof (cases "pending = []")
    case True
    then show ?thesis by (subst reach_search.simps) (simp add: hits_def)
  next
    case ne: False
    let ?p = "last pending" and ?rest = "butlast pending"
    have split: "set pending = insert ?p (set ?rest)"
      using ne by (metis append_butlast_last_id list.simps(15) rotate1.simps(2) set_rotate1)
    show ?thesis
    proof (cases "?p \<in> set seen")
      case True
      have cl: "\<forall>s \<in> set seen. \<forall>d. (s, d) \<in> dep_rel indexed deps \<longrightarrow> d \<in> set seen \<union> set ?rest"
        using "1.prems"(4) split True by auto
      have "hits indexed deps bad (set pending) \<longleftrightarrow> hits indexed deps bad (set ?rest)"
      proof
        assume "hits indexed deps bad (set pending)"
        then obtain q k t where q: "q \<in> set pending" "(q, k) \<in> (dep_rel indexed deps)\<^sup>*" "map_of indexed k = Some t" "bad t"
          by (auto simp: hits_def)
        show "hits indexed deps bad (set ?rest)"
        proof (cases "q = ?p")
          case True
          with reach_from_seen [OF q(2) _ cl] \<open>?p \<in> set seen\<close> have "k \<in> set seen \<or> (\<exists>p \<in> set ?rest. (p, k) \<in> (dep_rel indexed deps)\<^sup>*)" by auto
          with q(3,4) "1.prems"(3) show ?thesis by (auto simp: hits_def)
        next
          case False
          with q split show ?thesis by (auto simp: hits_def)
        qed
      qed (use split in \<open>auto intro: hits_mono [rotated]\<close>)
      moreover have "reach_search indexed deps bad err seen ?rest = (if hits indexed deps bad (set ?rest) then Some err else None)"
        using "1.IH"(1) [OF ne True] "1.prems"(1-3) cl split by auto
      ultimately show ?thesis using ne True by (subst reach_search.simps) simp
    next
      case new: False
      from "1.prems"(2) split obtain t where t: "map_of indexed ?p = Some t" by auto
      show ?thesis
      proof (cases "bad t")
        case True
        with t split have "hits indexed deps bad (set pending)" by (auto simp: hits_def)
        with True t ne new show ?thesis by (subst reach_search.simps) simp
      next
        case False
        have succ: "(?p, d) \<in> dep_rel indexed deps \<longleftrightarrow> d \<in> set (deps t)" for d using t by (simp add: dep_rel_def)
        have "hits indexed deps bad (set pending) \<longleftrightarrow> hits indexed deps bad (set (?rest @ deps t))"
        proof
          assume "hits indexed deps bad (set pending)"
          then obtain q k u where q: "q \<in> set pending" "(q, k) \<in> (dep_rel indexed deps)\<^sup>*" "map_of indexed k = Some u" "bad u"
            by (auto simp: hits_def)
          show "hits indexed deps bad (set (?rest @ deps t))"
          proof (cases "q = ?p")
            case True
            with q False t have "(?p, k) \<in> (dep_rel indexed deps)\<^sup>*" "?p \<noteq> k" by auto
            then obtain d where "d \<in> set (deps t)" "(d, k) \<in> (dep_rel indexed deps)\<^sup>*"
              using succ by (auto elim: converse_rtranclE)
            with q(3,4) show ?thesis by (auto simp: hits_def)
          next
            case False
            with q split show ?thesis by (auto simp: hits_def)
          qed
        next
          assume "hits indexed deps bad (set (?rest @ deps t))"
          then show "hits indexed deps bad (set pending)"
            using succ split by (auto simp: hits_def intro: converse_rtrancl_into_rtrancl)
        qed
        moreover have "reach_search indexed deps bad err (?p # seen) (?rest @ deps t) =
            (if hits indexed deps bad (set (?rest @ deps t)) then Some err else None)"
        proof (rule "1.IH"(2) [OF ne new t False closed])
          have "set (deps t) \<subseteq> dom (map_of indexed)" using closed succ by blast
          then show "set (?rest @ deps t) \<subseteq> dom (map_of indexed)" using "1.prems"(2) split by auto
          show "\<forall>s \<in> set (?p # seen). \<exists>t. map_of indexed s = Some t \<and> \<not> bad t" using "1.prems"(3) t False by auto
          show "\<forall>s \<in> set (?p # seen). \<forall>d. (s, d) \<in> dep_rel indexed deps \<longrightarrow> d \<in> set (?p # seen) \<union> set (?rest @ deps t)"
            using "1.prems"(4) split succ by auto
        qed
        ultimately show ?thesis using ne new t False by (subst reach_search.simps) simp
      qed
    qed
  qed
qed

end
