(* ===== verification/Forge_Regex.thy ===== *)
theory Forge_Regex
  imports Forge_Prelude
begin

text \<open>
  The part of Python's \<^verbatim>\<open>re\<close> module the payload scanner uses, as a backtracking
  matcher: \<open>rx_ends r s i\<close> lists the positions where a match of \<open>r\<close> that starts at \<open>i\<close> can
  end, in the order Python tries them, so its head is the match Python reports. Repetition is
  over single characters, greedy or lazy, which is all the patterns need; a lower bound
  \<^verbatim>\<open>{n,}\<close> is \<open>n\<close> copies before the repetition. Character codes are below 256, where
  \<^verbatim>\<open>re.IGNORECASE\<close> relates only the two cases of an ASCII letter in the patterns' classes.
\<close>

section \<open>Patterns\<close>

datatype rx =
    RClass "char \<Rightarrow> bool"
  | REps
  | RSeq rx rx
  | RAlt rx rx
  | RStar "char \<Rightarrow> bool"
  | RLazy "char \<Rightarrow> bool"
  | RBound

text \<open>\<^verbatim>\<open>\b\<close>: exactly one side is a word character (alphanumeric or underscore; the Latin-1
  letters, superscripts and fractions count as alphanumeric).\<close>

definition is_word_char :: "char \<Rightarrow> bool" where
  "is_word_char c = (let n = (of_char c :: nat) in is_alnum c \<or> c = CHR ''_'' \<or>
     n \<in> {170, 178, 179, 181, 185, 186, 188, 189, 190} \<or> (192 \<le> n \<and> n \<noteq> 215 \<and> n \<noteq> 247))"

definition at_boundary :: "string \<Rightarrow> nat \<Rightarrow> bool" where
  "at_boundary s i = ((0 < i \<and> i \<le> length s \<and> is_word_char (s ! (i - 1))) \<noteq> (i < length s \<and> is_word_char (s ! i)))"

fun rx_ends :: "rx \<Rightarrow> string \<Rightarrow> nat \<Rightarrow> nat list" where
  "rx_ends (RClass p) s i = (if i < length s \<and> p (s ! i) then [Suc i] else [])"
| "rx_ends REps s i = [i]"
| "rx_ends (RSeq a b) s i = concat (map (rx_ends b s) (rx_ends a s i))"
| "rx_ends (RAlt a b) s i = rx_ends a s i @ rx_ends b s i"
| "rx_ends (RStar p) s i = rev [i ..< Suc (i + length (takeWhile p (drop i s)))]"
| "rx_ends (RLazy p) s i = [i ..< Suc (i + length (takeWhile p (drop i s)))]"
| "rx_ends RBound s i = (if at_boundary s i then [i] else [])"

section \<open>Building patterns\<close>

fun rx_seq :: "rx list \<Rightarrow> rx" where
  "rx_seq [] = REps"
| "rx_seq [r] = r"
| "rx_seq (r # q # rs) = RSeq r (rx_seq (q # rs))"

fun rx_alts :: "rx list \<Rightarrow> rx" where
  "rx_alts [] = RClass (\<lambda>_. False)"
| "rx_alts [r] = r"
| "rx_alts (r # q # rs) = RAlt r (rx_alts (q # rs))"

definition rx_opt :: "rx \<Rightarrow> rx" where
  "rx_opt r = RAlt r REps"

definition rx_plus :: "(char \<Rightarrow> bool) \<Rightarrow> rx" where
  "rx_plus p = RSeq (RClass p) (RStar p)"

definition rx_atleast :: "nat \<Rightarrow> (char \<Rightarrow> bool) \<Rightarrow> rx" where
  "rx_atleast n p = rx_seq (replicate n (RClass p) @ [RStar p])"

text \<open>Literals: exact, and with \<^verbatim>\<open>re.IGNORECASE\<close>.\<close>

definition rx_lit :: "string \<Rightarrow> rx" where
  "rx_lit t = rx_seq (map (\<lambda>c. RClass (\<lambda>x. x = c)) t)"

definition eq_ci :: "char \<Rightarrow> char \<Rightarrow> bool" where
  "eq_ci c x = (x = c \<or> (is_alnum c \<and> is_alnum x \<and> char_lower x = char_lower c))"

definition rx_ci :: "string \<Rightarrow> rx" where
  "rx_ci t = rx_seq (map (\<lambda>c. RClass (eq_ci c)) t)"

definition one_of :: "string \<Rightarrow> char \<Rightarrow> bool" where
  "one_of t c = (c \<in> set t)"

section \<open>Searching\<close>

type_synonym span = "nat \<times> nat"

definition rx_match_at :: "rx \<Rightarrow> string \<Rightarrow> nat \<Rightarrow> span option" where
  "rx_match_at r s i = (case rx_ends r s i of [] \<Rightarrow> None | e # _ \<Rightarrow> Some (i, e))"

text \<open>\<^verbatim>\<open>pattern.match\<close>, \<^verbatim>\<open>pattern.search\<close>, \<^verbatim>\<open>pattern.fullmatch\<close> and
  \<^verbatim>\<open>pattern.finditer\<close>. After an empty match the scan moves on by one character; none of
  the patterns of the program matches empty text.\<close>

definition rx_match :: "rx \<Rightarrow> string \<Rightarrow> span option" where
  "rx_match r s = rx_match_at r s 0"

function rx_search_from :: "rx \<Rightarrow> string \<Rightarrow> nat \<Rightarrow> span option" where
  "rx_search_from r s i = (if length s < i then None else
     (case rx_match_at r s i of Some m \<Rightarrow> Some m | None \<Rightarrow> rx_search_from r s (Suc i)))"
  by pat_completeness auto

termination rx_search_from
  by (relation "measure (\<lambda>(r, s, i). Suc (length s) - i)") auto

declare rx_search_from.simps [simp del]

definition rx_search :: "rx \<Rightarrow> string \<Rightarrow> span option" where
  "rx_search r s = rx_search_from r s 0"

definition rx_fullmatch :: "rx \<Rightarrow> string \<Rightarrow> bool" where
  "rx_fullmatch r s = (length s \<in> set (rx_ends r s 0))"

lemma rx_match_at_Some: "rx_match_at r s i = Some (a, e) \<longleftrightarrow> a = i \<and> (\<exists>es. rx_ends r s i = e # es)"
  by (auto simp: rx_match_at_def split: list.splits)

lemma rx_search_from_Some:
  "rx_search_from r s i = Some (a, e) \<Longrightarrow> i \<le> a \<and> a \<le> length s \<and> rx_match_at r s a = Some (a, e)"
proof (induction r s i rule: rx_search_from.induct)
  case (1 r s i)
  from "1.prems" have le: "i \<le> length s"
    by (subst (asm) rx_search_from.simps) (auto split: if_splits)
  show ?case
  proof (cases "rx_match_at r s i")
    case None
    with "1.prems" le have "rx_search_from r s (Suc i) = Some (a, e)"
      by (subst (asm) rx_search_from.simps) auto
    with 1 le None show ?thesis by auto
  next
    case (Some m)
    with "1.prems" le have "m = (a, e)" by (subst (asm) rx_search_from.simps) auto
    with Some le show ?thesis by (auto simp: rx_match_at_Some)
  qed
qed

lemma rx_ends_bounds: "e \<in> set (rx_ends r s i) \<Longrightarrow> i \<le> length s \<Longrightarrow> i \<le> e \<and> e \<le> length s"
proof (induction r arbitrary: i e)
  case (RSeq a b)
  then obtain m where "m \<in> set (rx_ends a s i)" "e \<in> set (rx_ends b s m)" by auto
  with RSeq.IH RSeq.prems(2) show ?case by (meson le_trans)
next
  case (RStar p)
  then have "e \<le> i + length (takeWhile p (drop i s))" "i \<le> e" by auto
  moreover have "length (takeWhile p (drop i s)) \<le> length s - i"
    using length_takeWhile_le [of p "drop i s"] by simp
  ultimately show ?case using RStar.prems(2) by linarith
next
  case (RLazy p)
  then have "e \<le> i + length (takeWhile p (drop i s))" "i \<le> e" by auto
  moreover have "length (takeWhile p (drop i s)) \<le> length s - i"
    using length_takeWhile_le [of p "drop i s"] by simp
  ultimately show ?case using RLazy.prems(2) by linarith
qed (auto split: if_splits)

lemma rx_match_at_bounds:
  "rx_match_at r s i = Some (a, e) \<Longrightarrow> i \<le> length s \<Longrightarrow> a = i \<and> i \<le> e \<and> e \<le> length s"
  using rx_ends_bounds [of e r s i] by (auto simp: rx_match_at_Some)

lemma rx_search_bounds:
  "rx_search_from r s i = Some (a, e) \<Longrightarrow> i \<le> a \<and> a \<le> e \<and> e \<le> length s"
  using rx_search_from_Some [of r s i a e] rx_match_at_bounds by blast

function rx_finditer_from :: "rx \<Rightarrow> string \<Rightarrow> nat \<Rightarrow> span list" where
  "rx_finditer_from r s i = (case rx_search_from r s i of
       None \<Rightarrow> []
     | Some (a, e) \<Rightarrow> (a, e) # rx_finditer_from r s (if a < e then e else Suc a))"
  by pat_completeness auto

termination rx_finditer_from
proof (relation "measure (\<lambda>(r, s, i). Suc (length s) - i)")
  fix r s i x a e
  assume "rx_search_from r s i = Some x" and "(a, e) = x"
  then have b: "i \<le> a \<and> a \<le> e \<and> e \<le> length s" using rx_search_bounds [of r s i a e] by auto
  show "((r, s, if a < e then e else Suc a), r, s, i) \<in> measure (\<lambda>(r, s, i). Suc (length s) - i)"
    using b by (auto split: if_splits)
qed simp

declare rx_finditer_from.simps [simp del]

definition rx_finditer :: "rx \<Rightarrow> string \<Rightarrow> span list" where
  "rx_finditer r s = rx_finditer_from r s 0"

definition span_text :: "string \<Rightarrow> span \<Rightarrow> string" where
  "span_text s m = (case m of (a, e) \<Rightarrow> take (e - a) (drop a s))"

text \<open>\<^verbatim>\<open>pattern.sub(f, s)\<close>: the matches replaced, the text between them kept.\<close>

fun splice :: "(string \<Rightarrow> string) \<Rightarrow> string \<Rightarrow> nat \<Rightarrow> span list \<Rightarrow> string" where
  "splice f s i [] = drop i s"
| "splice f s i ((a, e) # ms) = take (a - i) (drop i s) @ f (span_text s (a, e)) @ splice f s e ms"

definition rx_sub :: "rx \<Rightarrow> (string \<Rightarrow> string) \<Rightarrow> string \<Rightarrow> string" where
  "rx_sub r f s = splice f s 0 (rx_finditer r s)"

section \<open>Lemmas\<close>

lemma finditer_span:
  "(a, e) \<in> set (rx_finditer_from r s i) \<Longrightarrow> i \<le> a \<and> a \<le> e \<and> e \<le> length s \<and> rx_match_at r s a = Some (a, e)"
proof (induction r s i rule: rx_finditer_from.induct)
  case (1 r s i)
  have "rx_search_from r s i \<noteq> None"
    using "1.prems" rx_finditer_from.simps [of r s i] by (cases "rx_search_from r s i") auto
  then obtain b f where m: "rx_search_from r s i = Some (b, f)" by force
  then have b: "i \<le> b \<and> b \<le> f \<and> f \<le> length s" by (rule rx_search_bounds)
  from "1.prems" m consider "(a, e) = (b, f)" | "(a, e) \<in> set (rx_finditer_from r s (if b < f then f else Suc b))"
    by (subst (asm) rx_finditer_from.simps) auto
  then show ?case
  proof cases
    case 1
    with b m rx_search_from_Some [OF m] show ?thesis by auto
  next
    case 2
    from "1.IH" [OF m refl 2] b show ?thesis by (auto split: if_splits)
  qed
qed

lemmas finditer_bounds = finditer_span [of _ _ _ _ 0, folded rx_finditer_def, simplified]

lemma search_from_first:
  assumes "i \<le> j" and "j \<le> length s" and "rx_match_at r s j = Some m"
  shows "\<exists>a e. rx_search_from r s i = Some (a, e) \<and> a \<le> j"
  using assms
proof (induction r s i rule: rx_search_from.induct)
  case (1 r s i)
  show ?case
  proof (cases "rx_match_at r s i")
    case None
    with 1 have "i \<noteq> j" by auto
    with 1 None show ?thesis by (subst rx_search_from.simps) auto
  next
    case (Some m')
    then obtain e where "m' = (i, e)" by (auto simp: rx_match_at_def split: list.splits)
    with 1 Some show ?thesis by (subst rx_search_from.simps) auto
  qed
qed

lemma search_None_iff:
  "rx_search r s = None \<longleftrightarrow> (\<forall>i \<le> length s. rx_ends r s i = [])"
proof
  assume none: "rx_search r s = None"
  show "\<forall>i \<le> length s. rx_ends r s i = []"
  proof (intro allI impI)
    fix i assume "i \<le> length s"
    show "rx_ends r s i = []"
    proof (rule ccontr)
      assume "rx_ends r s i \<noteq> []"
      then obtain m where "rx_match_at r s i = Some m"
        by (cases "rx_ends r s i") (auto simp: rx_match_at_def)
      from search_from_first [OF _ \<open>i \<le> length s\<close> this, of 0] none show False by (auto simp: rx_search_def)
    qed
  qed
next
  assume "\<forall>i \<le> length s. rx_ends r s i = []"
  then show "rx_search r s = None"
    using rx_search_from_Some [of r s 0] by (cases "rx_search r s") (auto simp: rx_search_def rx_match_at_def)
qed

lemma finditer_Nil_iff: "rx_finditer r s = [] \<longleftrightarrow> rx_search r s = None"
  unfolding rx_finditer_def rx_search_def by (subst rx_finditer_from.simps) (auto split: option.splits)

end
