(* ===== verification/Forge_Sha256.thy ===== *)
theory Forge_Sha256
  imports Forge_Prelude
begin

unbundle bit_operations_syntax

text \<open>
  The two functions of Python's standard library that give content its identity in the program:
  \<^verbatim>\<open>str.encode("utf-8")\<close> and \<^verbatim>\<open>hashlib.sha256(...).hexdigest()\<close>, the latter
  computed on 32-bit words as FIPS 180-4 describes it. The rest of the development needs the
  shape of a digest, 64 lowercase hexadecimal digits for every input, and that the encoding is
  injective.
\<close>

section \<open>UTF-8\<close>

type_synonym byte = "8 word"
type_synonym w32 = "32 word"

definition utf8_char :: "char \<Rightarrow> byte list" where
  "utf8_char c = (let n = (of_char c :: nat) in
     if n < 128 then [of_nat n] else [of_nat (192 + n div 64), of_nat (128 + n mod 64)])"

definition utf8_encode :: "string \<Rightarrow> byte list" where
  "utf8_encode s = concat (map utf8_char s)"

section \<open>SHA-256\<close>

definition sha_k :: "w32 list" where
  "sha_k = [
    1116352408, 1899447441, 3049323471, 3921009573, 961987163, 1508970993,
    2453635748, 2870763221, 3624381080, 310598401, 607225278, 1426881987,
    1925078388, 2162078206, 2614888103, 3248222580, 3835390401, 4022224774,
    264347078, 604807628, 770255983, 1249150122, 1555081692, 1996064986,
    2554220882, 2821834349, 2952996808, 3210313671, 3336571891, 3584528711,
    113926993, 338241895, 666307205, 773529912, 1294757372, 1396182291,
    1695183700, 1986661051, 2177026350, 2456956037, 2730485921, 2820302411,
    3259730800, 3345764771, 3516065817, 3600352804, 4094571909, 275423344,
    430227734, 506948616, 659060556, 883997877, 958139571, 1322822218,
    1537002063, 1747873779, 1955562222, 2024104815, 2227730452, 2361852424,
    2428436474, 2756734187, 3204031479, 3329325298]"

definition sha_h0 :: "w32 list" where
  "sha_h0 = [
    1779033703, 3144134277, 1013904242, 2773480762, 1359893119, 2600822924,
    528734635, 1541459225]"

definition sha_pad :: "byte list \<Rightarrow> byte list" where
  "sha_pad m = (let n = length m; z = (119 - n mod 64) mod 64 in
     m @ [0x80] @ replicate z 0 @ map (\<lambda>i. of_nat (8 * n div 256 ^ (7 - i))) [0..<8])"

definition be_word :: "byte list \<Rightarrow> w32" where
  "be_word bs = of_nat (foldl (\<lambda>a b. 256 * a + unat b) 0 bs)"

fun chunks :: "nat \<Rightarrow> 'a list \<Rightarrow> 'a list list" where
  "chunks k [] = []"
| "chunks k (x # xs) = take (Suc k) (x # xs) # chunks k (drop k xs)"

definition small_sigma0 :: "w32 \<Rightarrow> w32" where
  "small_sigma0 x = word_rotr 7 x XOR word_rotr 18 x XOR drop_bit 3 x"

definition small_sigma1 :: "w32 \<Rightarrow> w32" where
  "small_sigma1 x = word_rotr 17 x XOR word_rotr 19 x XOR drop_bit 10 x"

definition big_sigma0 :: "w32 \<Rightarrow> w32" where
  "big_sigma0 x = word_rotr 2 x XOR word_rotr 13 x XOR word_rotr 22 x"

definition big_sigma1 :: "w32 \<Rightarrow> w32" where
  "big_sigma1 x = word_rotr 6 x XOR word_rotr 11 x XOR word_rotr 25 x"

fun sha_extend :: "nat \<Rightarrow> w32 list \<Rightarrow> w32 list" where
  "sha_extend 0 w = w"
| "sha_extend (Suc n) w = (let t = length w in
     sha_extend n (w @ [small_sigma1 (w ! (t - 2)) + w ! (t - 7) + small_sigma0 (w ! (t - 15)) + w ! (t - 16)]))"

fun sha_round :: "w32 list \<Rightarrow> w32 \<times> w32 \<Rightarrow> w32 list" where
  "sha_round [a, b, c, d, e, f, g, h] (k, w) =
     (let t1 = h + big_sigma1 e + ((e AND f) XOR (NOT e AND g)) + k + w;
          t2 = big_sigma0 a + ((a AND b) XOR (a AND c) XOR (b AND c))
      in [t1 + t2, a, b, c, d + t1, e, f, g])"
| "sha_round st kw = st"

definition sha_block :: "w32 list \<Rightarrow> byte list \<Rightarrow> w32 list" where
  "sha_block st block =
     map2 (+) st (foldl sha_round st (zip sha_k (sha_extend 48 (map be_word (chunks 3 block)))))"

definition sha_digest :: "byte list \<Rightarrow> w32 list" where
  "sha_digest m = foldl sha_block sha_h0 (chunks 63 (sha_pad m))"

definition word_hex :: "w32 \<Rightarrow> string" where
  "word_hex w = map (\<lambda>i. hex_digit (unat w div 16 ^ (7 - i))) [0..<8]"

definition sha256_hexdigest :: "byte list \<Rightarrow> string" where
  "sha256_hexdigest m = concat (map word_hex (sha_digest m))"

section \<open>The shape of a digest\<close>

lemma length_sha_round [simp]: "length (sha_round st kw) = length st"
  by (induction st kw rule: sha_round.induct) (auto simp: Let_def)

lemma length_foldl_sha_round [simp]: "length (foldl sha_round st kws) = length st"
  by (induction kws arbitrary: st) auto

lemma length_sha_block [simp]: "length (sha_block st block) = length st"
  by (simp add: sha_block_def)

lemma length_sha_digest: "length (sha_digest m) = 8"
proof -
  have "length (foldl sha_block st bs) = length st" for st bs
    by (induction bs arbitrary: st) auto
  then show ?thesis by (simp add: sha_digest_def sha_h0_def)
qed

lemma word_hex_shape: "length (word_hex w) = 8 \<and> list_all is_hex_lower (word_hex w)"
  by (simp add: word_hex_def list_all_iff hex_digit_lower)

lemma sha256_hexdigest_shape [simp]: "is_digest64 (sha256_hexdigest m)"
proof -
  have "length (concat (map word_hex ws)) = 8 * length ws" for ws
    by (induction ws) (simp_all add: word_hex_shape)
  moreover have "list_all is_hex_lower (concat (map word_hex ws))" for ws
    by (induction ws) (simp_all add: word_hex_shape)
  ultimately show ?thesis
    by (simp add: is_digest64_def sha256_hexdigest_def length_sha_digest)
qed

lemma length_sha256_hexdigest [simp]: "length (sha256_hexdigest m) = 64"
  using sha256_hexdigest_shape [of m] by (simp add: is_digest64_def)

lemma utf8_length_encode: "length (utf8_encode s) = utf8_length s"
  by (induction s) (auto simp: utf8_encode_def utf8_length_def utf8_char_def Let_def)

text \<open>UTF-8 loses nothing.\<close>

fun utf8_next :: "byte list \<Rightarrow> (char \<times> byte list) option" where
  "utf8_next [] = None"
| "utf8_next (b # bs) = (if unat b < 128 then Some (char_of (unat b), bs)
     else Some (char_of ((unat b - 192) * 64 + (unat (hd bs) - 128)), tl bs))"

lemma utf8_next_char: "utf8_next (utf8_char c @ r) = Some (c, r)"
proof -
  let ?n = "of_char c :: nat"
  have n: "?n < 256" by simp
  have small: "unat (of_nat k :: byte) = k" if "k < 256" for k
    using that by (simp add: unat_of_nat)
  show ?thesis
  proof (cases "?n < 128")
    case True
    with small [OF n] show ?thesis by (simp add: utf8_char_def)
  next
    case False
    have "?n div 64 < 4" using n by (simp only: less_mult_imp_div_less)
    then have hi: "unat (of_nat (192 + ?n div 64) :: byte) = 192 + ?n div 64" by (intro small) simp
    have "?n mod 64 < 64" by simp
    then have lo: "unat (of_nat (128 + ?n mod 64) :: byte) = 128 + ?n mod 64" by (intro small) simp
    have "?n div 64 * 64 + ?n mod 64 = ?n" by simp
    then have "char_of (?n div 64 * 64 + ?n mod 64) = c" by simp
    with False hi lo show ?thesis by (simp add: utf8_char_def Let_def del: of_nat_add)
  qed
qed

lemma utf8_encode_inj: "utf8_encode s = utf8_encode t \<Longrightarrow> s = t"
proof (induction s arbitrary: t)
  case Nil
  then show ?case by (cases t) (auto simp: utf8_encode_def utf8_char_def Let_def split: if_splits)
next
  case (Cons c s)
  show ?case
  proof (cases t)
    case Nil
    with Cons.prems show ?thesis by (auto simp: utf8_encode_def utf8_char_def Let_def split: if_splits)
  next
    case t: (Cons d t')
    from Cons.prems t have "utf8_next (utf8_char c @ utf8_encode s) = utf8_next (utf8_char d @ utf8_encode t')"
      by (simp add: utf8_encode_def)
    with Cons.IH t show ?thesis by (simp add: utf8_next_char del: utf8_next.simps)
  qed
qed

end
