(* ===== verification/Forge_Json.thy ===== *)
theory Forge_Json
  imports Forge_Sha256 "HOL-Library.Multiset"
begin

text \<open>
  JSON-compatible Python values, the freeze/thaw pair the domain modules use to hand out immutable
  payloads, and the canonical serialisation \<^verbatim>\<open>json.dumps(..., sort_keys=True,
  separators=(",", ":"))\<close> that idempotency and evidence digests are computed from. Dictionary
  keys are strings (the validators reject any other key). The encoder settings are a record: whether
  \<^verbatim>\<open>ensure_ascii\<close> is set, and the text of a finite float, because Python's
  \<^verbatim>\<open>float.__repr__\<close> is the only standard library function of the development that is not
  defined. The last section shows that the text determines the value.
\<close>

section \<open>Values\<close>

datatype pyfloat = Finite rat | PosInf | NegInf | NaN

datatype pyval =
    PNone
  | PBool bool
  | PInt int
  | PFloat pyfloat
  | PStr string
  | PList "pyval list"
  | PTuple "pyval list"
  | PDict "(string \<times> pyval) list"

text \<open>\<^verbatim>\<open>d.get(k, default)\<close>\<close>

definition dict_get :: "(string, pyval) dict \<Rightarrow> string \<Rightarrow> pyval \<Rightarrow> pyval" where
  "dict_get d k dflt = (case map_of d k of None \<Rightarrow> dflt | Some v \<Rightarrow> v)"

section \<open>Freezing and thawing\<close>

text \<open>A frozen mapping is a \<^verbatim>\<open>MappingProxyType\<close> over the same items: reading it is
  reading the dict, so it is the same value; lists become tuples.\<close>

fun freeze :: "pyval \<Rightarrow> pyval" where
  "freeze (PDict kvs) = PDict (map (\<lambda>(k, v). (k, freeze v)) kvs)"
| "freeze (PList xs) = PTuple (map freeze xs)"
| "freeze (PTuple xs) = PTuple (map freeze xs)"
| "freeze v = v"

fun thaw_payload :: "pyval \<Rightarrow> pyval" where
  "thaw_payload (PDict kvs) = PDict (map (\<lambda>(k, v). (k, thaw_payload v)) kvs)"
| "thaw_payload (PTuple xs) = PList (map thaw_payload xs)"
| "thaw_payload (PList xs) = PList (map thaw_payload xs)"
| "thaw_payload v = v"

section \<open>json.dumps\<close>

record json_enc =
  enc_ascii :: bool
  enc_float :: "rat \<Rightarrow> string"

definition json_escape_char :: "bool \<Rightarrow> char \<Rightarrow> string" where
  "json_escape_char ascii c = (let n = (of_char c :: nat) in
     if c = CHR 0x22 then [CHR 0x5C, CHR 0x22]
     else if c = CHR 0x5C then [CHR 0x5C, CHR 0x5C]
     else if n = 10 then [CHR 0x5C, CHR ''n'']
     else if n = 13 then [CHR 0x5C, CHR ''r'']
     else if n = 9 then [CHR 0x5C, CHR ''t'']
     else if n = 12 then [CHR 0x5C, CHR ''f'']
     else if n = 8 then [CHR 0x5C, CHR ''b'']
     else if n < 32 \<or> (ascii \<and> 126 < n) then
       [CHR 0x5C, CHR ''u'', CHR ''0'', CHR ''0'', hex_digit (n div 16), hex_digit n]
     else [c])"

definition json_string :: "bool \<Rightarrow> string \<Rightarrow> string" where
  "json_string ascii s = [CHR 0x22] @ concat (map (json_escape_char ascii) s) @ [CHR 0x22]"

fun nat_digits :: "nat \<Rightarrow> string" where
  "nat_digits n = (if n < 10 then [hex_digit n] else nat_digits (n div 10) @ [hex_digit (n mod 10)])"

declare nat_digits.simps [simp del]

definition int_str :: "int \<Rightarrow> string" where
  "int_str i = (if i < 0 then CHR ''-'' # nat_digits (nat (- i)) else nat_digits (nat i))"

definition float_str :: "json_enc \<Rightarrow> pyfloat \<Rightarrow> string" where
  "float_str enc f = (case f of Finite r \<Rightarrow> enc_float enc r | PosInf \<Rightarrow> ''Infinity''
     | NegInf \<Rightarrow> ''-Infinity'' | NaN \<Rightarrow> ''NaN'')"

text \<open>Printing with sorted keys and compact separators.\<close>

function dumps :: "json_enc \<Rightarrow> pyval \<Rightarrow> string" where
  "dumps enc PNone = ''null''"
| "dumps enc (PBool b) = (if b then ''true'' else ''false'')"
| "dumps enc (PInt i) = int_str i"
| "dumps enc (PFloat f) = float_str enc f"
| "dumps enc (PStr s) = json_string (enc_ascii enc) s"
| "dumps enc (PList xs) = ''['' @ join_with '','' (map (dumps enc) xs) @ '']''"
| "dumps enc (PTuple xs) = ''['' @ join_with '','' (map (dumps enc) xs) @ '']''"
| "dumps enc (PDict kvs) =
     CHR 0x7B # join_with '','' (map (\<lambda>(k, v). json_string (enc_ascii enc) k @ '':'' @ dumps enc v) (sort_key fst kvs)) @ [CHR 0x7D]"
  by pat_completeness auto
termination
proof (relation "measure (size \<circ> snd)")
  fix enc :: json_enc and kvs :: "(string \<times> pyval) list"
    and x :: "string \<times> pyval" and a :: string and b :: pyval
  assume "x \<in> set (sort_key fst kvs)" and "(a, b) = x"
  then have "x \<in> set kvs" by simp
  with \<open>(a, b) = x\<close> show "((enc, b), enc, PDict kvs) \<in> measure (size \<circ> snd)"
    by (induction kvs) auto
qed (auto simp: less_Suc_eq_le size_list_estimation')

section \<open>Lemmas\<close>

lemma thaw_freeze [simp]: "thaw_payload (freeze v) = thaw_payload v"
  by (induction v rule: freeze.induct) auto

lemma freeze_idem [simp]: "freeze (freeze v) = freeze v"
  by (induction v rule: freeze.induct) auto

lemma thaw_idem [simp]: "thaw_payload (thaw_payload v) = thaw_payload v"
  by (induction v rule: thaw_payload.induct) auto

lemma freeze_thaw [simp]: "freeze (thaw_payload v) = freeze v"
  by (induction v rule: thaw_payload.induct) auto

lemma sort_key_perm:
  assumes "mset xs = mset ys" and "distinct (map k xs)"
  shows "sort_key k xs = sort_key k ys"
proof (rule properties_for_sort_key [symmetric])
  show "mset (sort_key k xs) = mset ys" using assms(1) by simp
  show "sorted (map k (sort_key k xs))" by (rule sorted_sort_key)
  fix j assume j: "j \<in> set (sort_key k xs)"
  have inj: "inj_on k (set xs)" using assms(2) by (simp add: distinct_map)
  have "filter (\<lambda>x. k j = k x) zs = filter (\<lambda>x. x = j) zs" if "set zs = set xs" for zs
    using inj j that by (intro filter_cong) (auto dest: inj_onD)
  moreover have "set ys = set xs" using assms(1) by (metis set_mset_mset)
  moreover have "filter (\<lambda>x. x = j) zs = replicate (count (mset zs) j) j" for zs
    by (induction zs) auto
  ultimately show "filter (\<lambda>x. k j = k x) (sort_key k xs) = filter (\<lambda>x. k j = k x) ys"
    using assms(1) by simp
qed

lemma dumps_key_order:
  "mset kvs = mset kvs' \<Longrightarrow> distinct (map fst kvs) \<Longrightarrow> dumps enc (PDict kvs) = dumps enc (PDict kvs')"
  by (simp add: sort_key_perm)

lemma set_map_snd: "(k, v) \<in> set kvs \<Longrightarrow> v \<in> snd ` set kvs"
  by force

lemma sort_key_map_snd: "sort_key fst (map (\<lambda>(k, v). (k, f v)) kvs) = map (\<lambda>(k, v). (k, f v)) (sort_key fst kvs)"
proof (induction kvs)
  case Nil
  then show ?case by simp
next
  case (Cons kv kvs)
  have "insort_key fst (k, f v) (map (\<lambda>(k, v). (k, f v)) xs) = map (\<lambda>(k, v). (k, f v)) (insort_key fst (k, v) xs)"
    for k v xs by (induction xs) auto
  with Cons show ?case by (cases kv) simp
qed

lemma dumps_thaw [simp]: "dumps enc (thaw_payload v) = dumps enc v"
proof (induction v rule: thaw_payload.induct)
  case (1 kvs)
  have "\<And>k v. (k, v) \<in> set (sort_key fst kvs) \<Longrightarrow> dumps enc (thaw_payload v) = dumps enc v"
    using "1" by force
  then have "map (\<lambda>(k, v). json_string (enc_ascii enc) k @ '':'' @ dumps enc (thaw_payload v)) (sort_key fst kvs) =
        map (\<lambda>(k, v). json_string (enc_ascii enc) k @ '':'' @ dumps enc v) (sort_key fst kvs)"
    by (intro map_cong) auto
  moreover have "(\<lambda>(k, v). json_string (enc_ascii enc) k @ '':'' @ dumps enc v) \<circ> (\<lambda>(k, v). (k, thaw_payload v)) =
        (\<lambda>(k, v). json_string (enc_ascii enc) k @ '':'' @ dumps enc (thaw_payload v))" by (simp add: fun_eq_iff)
  ultimately show ?case unfolding thaw_payload.simps dumps.simps sort_key_map_snd map_map by (simp only:)
next
  case (2 xs)
  then have "map (\<lambda>x. dumps enc (thaw_payload x)) xs = map (dumps enc) xs" by simp
  then show ?case by (simp only: thaw_payload.simps dumps.simps map_map comp_def)
next
  case (3 xs)
  then have "map (\<lambda>x. dumps enc (thaw_payload x)) xs = map (dumps enc) xs" by simp
  then show ?case by (simp only: thaw_payload.simps dumps.simps map_map comp_def)
qed simp_all

lemma dumps_freeze [simp]: "dumps enc (freeze v) = dumps enc v"
  by (metis dumps_thaw thaw_freeze)

section \<open>The text determines the value\<close>

text \<open>Reading back one escaped character.\<close>

definition hex_val :: "char \<Rightarrow> nat" where
  "hex_val c = (let n = (of_char c :: nat) in if n < 58 then n - 48 else n - 87)"

fun unescape :: "string \<Rightarrow> (char \<times> string) option" where
  "unescape [] = None"
| "unescape (c # cs) = (if c \<noteq> CHR 0x5C then Some (c, cs) else (case cs of
       [] \<Rightarrow> None
     | d # ds \<Rightarrow>
         if d = CHR ''n'' then Some (CHR 0x0A, ds) else if d = CHR ''r'' then Some (CHR 0x0D, ds)
         else if d = CHR ''t'' then Some (CHR 0x09, ds) else if d = CHR ''f'' then Some (CHR 0x0C, ds)
         else if d = CHR ''b'' then Some (CHR 0x08, ds)
         else if d = CHR ''u'' then Some (char_of (16 * hex_val (ds ! 2) + hex_val (ds ! 3)), drop 4 ds)
         else Some (d, ds)))"

lemma hex_digit_cases: "n < 16 \<Longrightarrow> hex_val (hex_digit n) = n"
proof -
  assume "n < 16"
  then have "n \<in> set [0..<16]" by simp
  moreover have "list_all (\<lambda>n. hex_val (hex_digit n) = n) [0..<16]" by code_simp
  ultimately show ?thesis by (simp only: list_all_iff)
qed

lemma hex_val_digit: "hex_val (hex_digit n) = n mod 16"
proof -
  have "hex_digit n = hex_digit (n mod 16)" by (simp add: hex_digit_def)
  then show ?thesis using hex_digit_cases [of "n mod 16"] by simp
qed

lemma char_eqI: "(of_char c :: nat) = n \<Longrightarrow> c = char_of n"
  by auto

lemma unescape_escape: "unescape (json_escape_char a c @ r) = Some (c, r)"
proof -
  let ?n = "of_char c :: nat"
  have n: "?n < 256" by simp
  have "?n div 16 < 16" using n by (simp only: less_mult_imp_div_less)
  then have "16 * (?n div 16 mod 16) + ?n mod 16 = ?n" by simp
  then have "char_of (16 * (?n div 16 mod 16) + ?n mod 16) = c" by simp
  moreover have "CHR 0x08 = char_of (8 :: nat)" "CHR 0x0C = char_of (12 :: nat)" "CHR 0x09 = char_of (9 :: nat)"
    "CHR 0x0D = char_of (13 :: nat)" "CHR 0x0A = char_of (10 :: nat)" by (rule char_eqI, simp)+
  ultimately show ?thesis
    by (auto simp: json_escape_char_def Let_def hex_val_digit dest: char_eqI)
qed

lemma escape_hd: "json_escape_char a c \<noteq> [] \<and> hd (json_escape_char a c) \<noteq> CHR 0x22"
  by (auto simp: json_escape_char_def Let_def)

lemma json_string_prefix:
  "json_string a s @ r = json_string a t @ u \<Longrightarrow> s = t \<and> r = u"
proof -
  have "concat (map (json_escape_char a) s) @ CHR 0x22 # r = concat (map (json_escape_char a) t) @ CHR 0x22 # u \<Longrightarrow>
      s = t \<and> r = u"
  proof (induction s arbitrary: t)
    case Nil
    show ?case
    proof (cases t)
      case Nil
      with Nil.prems show ?thesis by simp
    next
      case (Cons d t')
      with Nil.prems escape_hd [of a d] show ?thesis by (cases "json_escape_char a d") auto
    qed
  next
    case (Cons c s)
    show ?case
    proof (cases t)
      case Nil
      with Cons.prems escape_hd [of a c] show ?thesis by (cases "json_escape_char a c") auto
    next
      case t: (Cons d t')
      from Cons.prems t have "unescape (json_escape_char a c @ concat (map (json_escape_char a) s) @ CHR 0x22 # r) =
          unescape (json_escape_char a d @ concat (map (json_escape_char a) t') @ CHR 0x22 # u)" by simp
      then have "c = d" and "concat (map (json_escape_char a) s) @ CHR 0x22 # r = concat (map (json_escape_char a) t') @ CHR 0x22 # u"
        by (simp_all add: unescape_escape del: unescape.simps)
      with Cons.IH t show ?thesis by blast
    qed
  qed
  then show "json_string a s @ r = json_string a t @ u \<Longrightarrow> s = t \<and> r = u"
    by (simp add: json_string_def)
qed

definition digits_value :: "string \<Rightarrow> nat" where
  "digits_value s = foldl (\<lambda>a d. 10 * a + hex_val d) 0 s"

lemma digits_value_nat: "digits_value (nat_digits n) = n"
proof (induction n rule: nat_digits.induct)
  case (1 n)
  show ?case
  proof (cases "n < 10")
    case True
    then show ?thesis by (subst nat_digits.simps) (simp add: digits_value_def hex_val_digit)
  next
    case False
    with 1 have IH: "digits_value (nat_digits (n div 10)) = n div 10" by simp
    have "n mod 10 mod 16 = n mod 10" by (rule mod_less) (use mod_less_divisor [of 10 n] in linarith)
    with False IH show ?thesis by (subst nat_digits.simps) (simp add: digits_value_def hex_val_digit)
  qed
qed

lemma hex_digit_decimal: "n < 10 \<Longrightarrow> is_digit (hex_digit n)"
proof -
  assume "n < 10"
  then have "n \<in> set [0..<10]" by simp
  moreover have "list_all (\<lambda>n. is_digit (hex_digit n)) [0..<10]" by code_simp
  ultimately show ?thesis by (simp only: list_all_iff)
qed

lemma nat_digits_digits: "nat_digits n \<noteq> [] \<and> (\<forall>c \<in> set (nat_digits n). is_digit c)"
proof (induction n rule: nat_digits.induct)
  case (1 n)
  then show ?case by (subst (1 2) nat_digits.simps) (auto simp: hex_digit_decimal)
qed

lemma int_str_chars: "int_str i \<noteq> [] \<and> (\<forall>c \<in> set (int_str i). is_digit c \<or> c = CHR ''-'')"
  using nat_digits_digits by (auto simp: int_str_def)

lemma int_str_inj: "int_str i = int_str j \<Longrightarrow> i = j"
proof -
  have nd: "nat_digits n \<noteq> CHR ''-'' # s" for n s
  proof
    assume "nat_digits n = CHR ''-'' # s"
    then have "is_digit (CHR ''-'')" using nat_digits_digits [of n] by simp
    then show False by (simp add: is_digit_def less_eq_char_def)
  qed
  then have nd': "CHR ''-'' # s \<noteq> nat_digits n" for n s by metis
  have inj: "nat_digits m = nat_digits n \<Longrightarrow> m = n" for m n by (metis digits_value_nat)
  show "int_str i = int_str j \<Longrightarrow> i = j"
    using nd [of "nat i"] nd' [of _ "nat j"] inj [of "nat i" "nat j"] inj [of "nat (- i)" "nat (- j)"]
    by (auto simp: int_str_def split: if_splits)
qed

definition json_delim :: "string \<Rightarrow> bool" where
  "json_delim r = (r = [] \<or> hd r \<in> {CHR '','', CHR '']'', CHR 0x7D})"

lemma digits_prefix:
  assumes "s @ r = t @ u" and "\<forall>c \<in> set s. p c" and "\<forall>c \<in> set t. p c" and "r = [] \<or> \<not> p (hd r)" and "u = [] \<or> \<not> p (hd u)"
  shows "s = t \<and> r = u"
proof -
  have "takeWhile p (s @ r) = s" using assms(2,4) by (cases r) (auto simp: takeWhile_append)
  moreover have "takeWhile p (t @ u) = t" using assms(3,5) by (cases u) (auto simp: takeWhile_append)
  ultimately show ?thesis using assms(1) by auto
qed

lemma int_str_prefix:
  assumes "int_str i @ r = int_str j @ u" and "json_delim r" and "json_delim u"
  shows "i = j \<and> r = u"
proof -
  have "\<not> is_digit (CHR '','')" "\<not> is_digit (CHR '']'')" "\<not> is_digit (CHR 0x7D)"
    by (simp_all add: is_digit_def less_eq_char_def)
  then have nd: "x = [] \<or> \<not> (is_digit (hd x) \<or> hd x = CHR ''-'')" if "json_delim x" for x
    using that by (auto simp: json_delim_def)
  have "int_str i = int_str j \<and> r = u"
    by (rule digits_prefix [OF assms(1), where p = "\<lambda>c. is_digit c \<or> c = CHR ''-''"])
       (use int_str_chars nd assms in auto)
  then show ?thesis using int_str_inj by blast
qed

text \<open>Separated sequences of self-json_delimiting items.\<close>

lemma join_tail: "join_with [c] (x # xs) = x @ concat (map (\<lambda>y. c # y) xs)"
  by (induction xs arbitrary: x) auto

lemma items_prefix:
  assumes "close \<in> {CHR '']'', CHR 0x7D}"
    and step: "\<And>x y r u. x \<in> set xs \<Longrightarrow> y \<in> set ys \<Longrightarrow> E x @ r = E y @ u \<Longrightarrow> json_delim r \<Longrightarrow> json_delim u \<Longrightarrow> x = y \<and> r = u"
    and "concat (map (\<lambda>x. CHR '','' # E x) xs) @ close # r = concat (map (\<lambda>x. CHR '','' # E x) ys) @ close # u"
  shows "xs = ys \<and> r = u"
  using assms(2,3)
proof (induction xs arbitrary: ys)
  case Nil
  then show ?case using assms(1) by (cases ys) auto
next
  case (Cons x xs)
  show ?case
  proof (cases ys)
    case Nil
    with Cons.prems(2) assms(1) show ?thesis by auto
  next
    case ys: (Cons y ys')
    let ?r = "concat (map (\<lambda>x. CHR '','' # E x) xs) @ close # r"
    let ?u = "concat (map (\<lambda>x. CHR '','' # E x) ys') @ close # u"
    have dl: "json_delim (concat (map (\<lambda>x. CHR '','' # E x) zs) @ close # w)" for zs w
      using assms(1) by (cases zs) (auto simp: json_delim_def)
    have d: "json_delim ?r" "json_delim ?u" by (rule dl)+
    have "E x @ ?r = E y @ ?u" using Cons.prems(2) ys by simp
    with Cons.prems(1) [of x y ?r ?u] ys d have "x = y" and rest: "?r = ?u" by simp_all
    moreover have "xs = ys' \<and> r = u"
      by (rule Cons.IH [OF _ rest]) (use Cons.prems(1) ys in auto)
    ultimately show ?thesis using ys by simp
  qed
qed

text \<open>A list in brackets.\<close>

lemma sequence_prefix:
  assumes "close \<in> {CHR '']'', CHR 0x7D}"
    and step: "\<And>x y r u. x \<in> set xs \<Longrightarrow> y \<in> set ys \<Longrightarrow> E x @ r = E y @ u \<Longrightarrow> json_delim r \<Longrightarrow> json_delim u \<Longrightarrow> x = y \<and> r = u"
    and first: "\<And>x. x \<in> set xs \<union> set ys \<Longrightarrow> E x \<noteq> [] \<and> hd (E x) \<noteq> close"
    and eq: "join_with '','' (map E xs) @ close # r = join_with '','' (map E ys) @ close # u"
  shows "xs = ys \<and> r = u"
proof (cases xs)
  case Nil
  show ?thesis
  proof (cases ys)
    case Nil
    with eq \<open>xs = []\<close> show ?thesis by simp
  next
    case (Cons y ys')
    then show ?thesis using eq \<open>xs = []\<close> first [of y] by (cases "E y") (auto simp: join_tail)
  qed
next
  case xs: (Cons x xs')
  show ?thesis
  proof (cases ys)
    case Nil
    then show ?thesis using eq xs first [of x] by (cases "E x") (auto simp: join_tail)
  next
    case (Cons y ys')
    have "concat (map (\<lambda>x. CHR '','' # E x) xs) @ close # r = concat (map (\<lambda>x. CHR '','' # E x) ys) @ close # u"
      using eq xs Cons by (simp add: join_tail comp_def)
    then show ?thesis using items_prefix [OF assms(1) step] by blast
  qed
qed

text \<open>Canonical values: no floats, no tuples, sorted distinct keys.\<close>

fun canonical_json :: "pyval \<Rightarrow> bool" where
  "canonical_json (PDict kvs) = (sorted (map fst kvs) \<and> distinct (map fst kvs) \<and> (\<forall>kv \<in> set kvs. canonical_json (snd kv)))"
| "canonical_json (PList xs) = (\<forall>x \<in> set xs. canonical_json x)"
| "canonical_json (PTuple xs) = False"
| "canonical_json (PFloat f) = False"
| "canonical_json v = True"

fun head_kind :: "pyval \<Rightarrow> char \<Rightarrow> bool" where
  "head_kind PNone c = (c = CHR ''n'')"
| "head_kind (PBool b) c = (c = (if b then CHR ''t'' else CHR ''f''))"
| "head_kind (PInt i) c = (is_digit c \<or> c = CHR ''-'')"
| "head_kind (PStr s) c = (c = CHR 0x22)"
| "head_kind (PDict kvs) c = (c = CHR 0x7B)"
| "head_kind v c = (c = CHR ''['')"

lemma int_str_hd: "is_digit (hd (int_str i)) \<or> hd (int_str i) = CHR ''-''"
  using int_str_chars [of i] hd_in_set by blast

lemma head_kind_dumps: "canonical_json v \<Longrightarrow> dumps enc v \<noteq> [] \<and> head_kind v (hd (dumps enc v))"
  using int_str_chars int_str_hd by (cases v) (auto simp: json_string_def)

lemma is_digit_code: "is_digit c \<longleftrightarrow> 48 \<le> (of_char c :: nat) \<and> (of_char c :: nat) \<le> 57"
  by (simp add: is_digit_def less_eq_char_def)

lemma head_kind_not_close: "head_kind v c \<Longrightarrow> c \<notin> {CHR '']'', CHR 0x7D, CHR '',''}"
  by (cases v) (auto simp: is_digit_code split: if_splits)

text \<open>The two values begin alike only when they are of the same kind.\<close>

fun same_kind :: "pyval \<Rightarrow> pyval \<Rightarrow> bool" where
  "same_kind PNone w = (w = PNone)"
| "same_kind (PBool b) w = (w = PBool b)"
| "same_kind (PInt i) w = (\<exists>j. w = PInt j)"
| "same_kind (PStr s) w = (\<exists>t. w = PStr t)"
| "same_kind (PDict kvs) w = (\<exists>kvs'. w = PDict kvs')"
| "same_kind (PList xs) w = (\<exists>ys. w = PList ys)"
| "same_kind v w = False"

lemma head_kind_same: "canonical_json v \<Longrightarrow> canonical_json w \<Longrightarrow> head_kind v c \<Longrightarrow> head_kind w c \<Longrightarrow> same_kind v w"
  by (cases v; cases w) (auto simp: is_digit_code split: if_splits)

lemma dumps_same_kind:
  assumes "dumps enc v @ r = dumps enc w @ u" and "canonical_json v" and "canonical_json w"
  shows "same_kind v w"
proof (rule head_kind_same [OF assms(2,3)])
  show "head_kind v (hd (dumps enc v))" using head_kind_dumps [OF assms(2)] by simp
  show "head_kind w (hd (dumps enc v))"
    using head_kind_dumps [OF assms(2)] head_kind_dumps [OF assms(3)] assms(1) by (metis hd_append2)
qed

lemma dumps_prefix:
  assumes "dumps enc v @ r = dumps enc w @ u" and "canonical_json v" and "canonical_json w" and "json_delim r" and "json_delim u"
  shows "v = w \<and> r = u"
  using assms
proof (induction v arbitrary: w r u rule: canonical_json.induct [case_names dict list tuple float none bool int str])
  case (dict kvs)
  obtain kvs' where w: "w = PDict kvs'" using dumps_same_kind [OF dict.prems(1-3)] by auto
  let ?E = "\<lambda>kv. json_string (enc_ascii enc) (fst kv) @ '':'' @ dumps enc (snd kv)"
  have sk: "sort_key fst xs = xs" if "sorted (map fst xs)" for xs :: "(string \<times> pyval) list"
    using that by (rule sort_key_id_if_sorted)
  have D: "dumps enc (PDict xs) = CHR 0x7B # join_with '','' (map ?E xs) @ [CHR 0x7D]" if "canonical_json (PDict xs)" for xs
    using that sk by (simp add: split_def)
  have "kvs = kvs' \<and> r = u"
  proof (rule sequence_prefix)
    show "join_with '','' (map ?E kvs) @ CHR 0x7D # r = join_with '','' (map ?E kvs') @ CHR 0x7D # u"
      using dict.prems(1) D [OF dict.prems(2)] D [of kvs'] dict.prems(3) w by simp
    fix x y r' u'
    assume x: "x \<in> set kvs" and y: "y \<in> set kvs'" and e: "?E x @ r' = ?E y @ u'" and d: "json_delim r'" "json_delim u'"
    from e have "json_string (enc_ascii enc) (fst x) @ ('':'' @ dumps enc (snd x) @ r') =
        json_string (enc_ascii enc) (fst y) @ ('':'' @ dumps enc (snd y) @ u')" by simp
    from json_string_prefix [OF this] have k: "fst x = fst y" "dumps enc (snd x) @ r' = dumps enc (snd y) @ u'" by simp_all
    have "canonical_json (snd x)" "canonical_json (snd y)" using x y w dict.prems(2,3) by auto
    from dict.IH [OF x k(2) this d] k(1) show "x = y \<and> r' = u'" by (auto intro: prod_eqI)
  qed (auto simp: json_string_def)
  with w show ?case by simp
next
  case (list xs)
  obtain ys where w: "w = PList ys" using dumps_same_kind [OF list.prems(1-3)] by auto
  have "xs = ys \<and> r = u"
  proof (rule sequence_prefix)
    show "join_with '','' (map (dumps enc) xs) @ CHR '']'' # r = join_with '','' (map (dumps enc) ys) @ CHR '']'' # u"
      using list.prems(1) w by simp
    fix x y r' u'
    assume "x \<in> set xs" "y \<in> set ys" "dumps enc x @ r' = dumps enc y @ u'" "json_delim r'" "json_delim u'"
    then show "x = y \<and> r' = u'" using list.IH list.prems(2,3) w by auto
  next
    fix x assume "x \<in> set xs \<union> set ys"
    then have "canonical_json x" using list.prems(2,3) w by auto
    from head_kind_dumps [OF this, of enc] head_kind_not_close show "dumps enc x \<noteq> [] \<and> hd (dumps enc x) \<noteq> CHR '']''" by blast
  qed simp
  with w show ?case by simp
next
  case none
  from dumps_same_kind [OF none(1-3)] none show ?case by simp
next
  case (bool b)
  from dumps_same_kind [OF bool(1-3)] bool show ?case by simp
next
  case (int i)
  obtain j where "w = PInt j" using dumps_same_kind [OF int(1-3)] by auto
  then show ?case using int_str_prefix [of i r j u] int by simp
next
  case (str s)
  obtain t where "w = PStr t" using dumps_same_kind [OF str(1-3)] by auto
  then show ?case using json_string_prefix [of "enc_ascii enc" s r t u] str by simp
qed simp_all

lemma dumps_inj: "dumps enc v = dumps enc w \<Longrightarrow> canonical_json v \<Longrightarrow> canonical_json w \<Longrightarrow> v = w"
  using dumps_prefix [of enc v "[]" w "[]"] by (simp add: json_delim_def)

text \<open>Key order and tuples aside, the text determines every float-free value.\<close>

fun canonicalize :: "pyval \<Rightarrow> pyval" where
  "canonicalize (PDict kvs) = PDict (sort_key fst (map (\<lambda>kv. (fst kv, canonicalize (snd kv))) kvs))"
| "canonicalize (PTuple xs) = PList (map canonicalize xs)"
| "canonicalize (PList xs) = PList (map canonicalize xs)"
| "canonicalize v = v"

fun plain_json :: "pyval \<Rightarrow> bool" where
  "plain_json (PDict kvs) = (distinct (map fst kvs) \<and> (\<forall>kv \<in> set kvs. plain_json (snd kv)))"
| "plain_json (PList xs) = (\<forall>x \<in> set xs. plain_json x)"
| "plain_json (PTuple xs) = (\<forall>x \<in> set xs. plain_json x)"
| "plain_json (PFloat f) = False"
| "plain_json v = True"

lemma canonicalize_canonical: "plain_json v \<Longrightarrow> canonical_json (canonicalize v)"
proof (induction v rule: canonicalize.induct)
  case (1 kvs)
  let ?m = "map (\<lambda>kv. (fst kv, canonicalize (snd kv))) kvs"
  have "distinct (map fst ?m)" using "1.prems" by (simp add: comp_def)
  moreover have "distinct (map fst zs) \<Longrightarrow> distinct (map fst (sort_key fst zs))" for zs :: "(string \<times> pyval) list"
    by (simp add: distinct_map)
  ultimately have "distinct (map fst (sort_key fst ?m))" by blast
  moreover have "canonical_json (snd kv)" if "kv \<in> set (sort_key fst ?m)" for kv
    using that "1.IH" "1.prems" by auto
  ultimately show ?case by simp
qed simp_all

text \<open>Equal canonical objects have equal fields.\<close>

lemma map_of_sort_key: "distinct (map fst xs) \<Longrightarrow> map_of (sort_key fst xs) = map_of xs"
  by (intro map_of_eqI) (auto simp: distinct_map map_of_eq_Some_iff map_of_eq_None_iff)

lemma canonicalize_fields:
  assumes "canonicalize (PDict a) = canonicalize (PDict b)" and "distinct (map fst a)" and "distinct (map fst b)"
  shows "map_option canonicalize (map_of a k) = map_option canonicalize (map_of b k)"
proof -
  have m: "map_of (sort_key fst (map (\<lambda>kv. (fst kv, canonicalize (snd kv))) xs)) k = map_option canonicalize (map_of xs k)"
    if "distinct (map fst xs)" for xs
  proof -
    have "distinct (map fst (map (\<lambda>kv. (fst kv, canonicalize (snd kv))) xs))" using that by (simp add: comp_def)
    then have "map_of (sort_key fst (map (\<lambda>kv. (fst kv, canonicalize (snd kv))) xs)) =
        map_of (map (\<lambda>kv. (fst kv, canonicalize (snd kv))) xs)" by (rule map_of_sort_key)
    moreover have "map_of (map (\<lambda>kv. (fst kv, canonicalize (snd kv))) xs) k = map_option canonicalize (map_of xs k)"
      by (induction xs) auto
    ultimately show ?thesis by simp
  qed
  from assms(1) have "sort_key fst (map (\<lambda>kv. (fst kv, canonicalize (snd kv))) a) =
      sort_key fst (map (\<lambda>kv. (fst kv, canonicalize (snd kv))) b)" by simp
  with m [OF assms(2)] m [OF assms(3)] show ?thesis by metis
qed

lemma dumps_canonicalize_inj:
  assumes "dumps enc (canonicalize v) = dumps enc (canonicalize w)" and "plain_json v" and "plain_json w"
  shows "canonicalize v = canonicalize w"
  using dumps_inj [OF assms(1)] canonicalize_canonical assms(2,3) by blast

end
