(* ===== verification/Forge_Paths.thy ===== *)
theory Forge_Paths
  imports Forge_Prelude
begin

text \<open>
  \<^verbatim>\<open>domain/paths.py\<close>: the validation every repository path of a policy, a task scope or a
  schedule goes through. The platform (\<^verbatim>\<open>os.name == "nt"\<close>) is the argument \<open>nt\<close>.
\<close>

section \<open>Components\<close>

definition windows_device_names :: "string list" where
  "windows_device_names = [''aux'', ''clock$'', ''con'', ''com1'', ''com2'', ''com3'', ''com4'', ''com5'',
     ''com6'', ''com7'', ''com8'', ''com9'', ''lpt1'', ''lpt2'', ''lpt3'', ''lpt4'', ''lpt5'', ''lpt6'',
     ''lpt7'', ''lpt8'', ''lpt9'', ''nul'', ''prn'']"

definition RESERVED_REPOSITORY_COMPONENTS :: "string list" where
  "RESERVED_REPOSITORY_COMPONENTS = [''.git'', ''.worktrees'', ''.forge'', ''.forge-acceptance'',
     ''.forge-worktrees'', ''node_modules'', ''.venv'', ''venv'', ''env'']"

definition policy_path_key :: "bool \<Rightarrow> string \<Rightarrow> string" where
  "policy_path_key nt v = (if nt then py_casefold v else v)"

definition unsafe_windows_component :: "string \<Rightarrow> bool" where
  "unsafe_windows_component v =
     (if CHR '':'' \<in> set v \<or> (v \<noteq> [] \<and> last v \<in> {CHR ''.'', CHR '' ''}) then True
      else let stem = py_casefold (takeWhile (\<lambda>c. c \<noteq> CHR ''.'')
                 (rstrip_by (\<lambda>c. c \<in> {CHR '' '', CHR ''.''}) v))
           in stem \<in> set windows_device_names)"

definition drive_prefix :: "string \<Rightarrow> bool" where
  "drive_prefix v = (case v of a # b # _ \<Rightarrow> (is_lower_az a \<or> is_upper_az a) \<and> b = CHR '':'' | _ \<Rightarrow> False)"

section \<open>Paths\<close>

definition normalize_policy_path :: "bool \<Rightarrow> string \<Rightarrow> string result" where
  "normalize_policy_path nt v = (let parts = split_on (CHR ''/'') v;
     reserved = map (policy_path_key nt) RESERVED_REPOSITORY_COMPONENTS in
     raising (seq_raise [
       when_raise (v = [] \<or> blank v) (ValueError ''policy paths must be nonblank canonical repository paths''),
       when_raise (CHR 0x00 \<in> set v \<or> CHR 0x5C \<in> set v) (ValueError ''policy paths must use canonical forward slashes''),
       when_raise (starts_with v ''/'' \<or> drive_prefix v) (ValueError ''policy paths must be relative''),
       when_raise (\<exists>p \<in> set parts. p = [] \<or> p \<in> {''.'', ''..''})
         (ValueError ''policy paths must not contain traversal or empty components''),
       when_raise (v \<noteq> join_with ''/'' parts) (ValueError ''policy paths must use canonical spelling''),
       when_raise (\<exists>p \<in> set parts. unsafe_windows_component p)
         (ValueError ''policy paths contain an unsafe Windows component''),
       when_raise (\<exists>p \<in> set parts. policy_path_key nt p \<in> set reserved)
         (ValueError ''policy paths contain a reserved repository component'')]) v)"

fun normalize_paths_loop :: "bool \<Rightarrow> string list \<Rightarrow> string list \<Rightarrow> string list \<Rightarrow> string list result" where
  "normalize_paths_loop nt [] seen normalized = Inr normalized"
| "normalize_paths_loop nt (v # vs) seen normalized =
     ebind (normalize_policy_path nt v) (\<lambda>path. let key = policy_path_key nt path in
       if key \<in> set seen then Inl (ValueError ''policy paths must not contain duplicates'')
       else normalize_paths_loop nt vs (key # seen) (normalized @ [path]))"

definition normalize_policy_paths :: "bool \<Rightarrow> string list \<Rightarrow> string list result" where
  "normalize_policy_paths nt vs = normalize_paths_loop nt vs [] []"

fun union_paths_loop :: "bool \<Rightarrow> string list \<Rightarrow> (string, string) dict \<Rightarrow> string list \<Rightarrow> string list result" where
  "union_paths_loop nt [] seen acc = Inr acc"
| "union_paths_loop nt (v # vs) seen acc =
     ebind (normalize_policy_path nt v) (\<lambda>path. let key = policy_path_key nt path in
       case map_of seen key of
         Some previous \<Rightarrow>
           if previous \<noteq> path then Inl (ValueError ''policy paths contain a platform alias'')
           else union_paths_loop nt vs seen acc
       | None \<Rightarrow> union_paths_loop nt vs (dict_set key path seen) (acc @ [path]))"

definition union_policy_paths :: "bool \<Rightarrow> string list list \<Rightarrow> string list result" where
  "union_policy_paths nt groups = union_paths_loop nt (concat groups) [] []"

section \<open>What an accepted path denotes\<close>

text \<open>Lexical resolution of a relative path below a root: \<open>..\<close> leaves a directory, and leaving the
  root is a failure.\<close>

fun resolve_parts :: "string list \<Rightarrow> string list \<Rightarrow> string list option" where
  "resolve_parts dir [] = Some dir"
| "resolve_parts dir (p # ps) =
     (if p = [] \<or> p = ''.'' then resolve_parts dir ps
      else if p = ''..'' then (if dir = [] then None else resolve_parts (butlast dir) ps)
      else resolve_parts (dir @ [p]) ps)"

definition path_ok :: "bool \<Rightarrow> string \<Rightarrow> bool" where
  "path_ok nt v = (normalize_policy_path nt v = Inr v)"

lemma normalize_policy_path_Inr: "normalize_policy_path nt v = Inr w \<longleftrightarrow> w = v \<and> path_ok nt v"
  by (auto simp: path_ok_def normalize_policy_path_def Let_def)

lemma path_ok_iff:
  "path_ok nt v \<longleftrightarrow> \<not> blank v \<and> CHR 0x00 \<notin> set v \<and> CHR 0x5C \<notin> set v \<and> \<not> starts_with v ''/'' \<and>
     \<not> drive_prefix v \<and>
     (\<forall>p \<in> set (split_on (CHR ''/'') v). p \<notin> {[], ''.'', ''..''} \<and> \<not> unsafe_windows_component p \<and>
        policy_path_key nt p \<notin> set (map (policy_path_key nt) RESERVED_REPOSITORY_COMPONENTS))"
  by (auto simp: path_ok_def normalize_policy_path_def Let_def blank_iff)

lemma resolve_plain:
  assumes "\<forall>p \<in> set ps. p \<notin> {[], ''.'', ''..''}"
  shows "resolve_parts dir ps = Some (dir @ ps)"
  using assms by (induction dir ps rule: resolve_parts.induct) auto

lemma normalize_paths_loop_Inr:
  "normalize_paths_loop nt vs seen acc = Inr ws \<longleftrightarrow>
     ws = acc @ vs \<and> (\<forall>v \<in> set vs. path_ok nt v) \<and> distinct (map (policy_path_key nt) vs) \<and>
     set (map (policy_path_key nt) vs) \<inter> set seen = {}"
proof (induction nt vs seen acc rule: normalize_paths_loop.induct)
  case (1 nt seen normalized)
  then show ?case by auto
next
  case (2 nt v vs seen normalized)
  show ?case
  proof (cases "path_ok nt v")
    case True
    then have n: "normalize_policy_path nt v = Inr v" by (simp add: path_ok_def)
    show ?thesis
    proof (cases "policy_path_key nt v \<in> set seen")
      case False
      with 2 [OF n refl False] n True show ?thesis by (auto simp: Let_def)
    qed (use n in \<open>auto simp: Let_def\<close>)
  next
    case False
    then show ?thesis by (cases "normalize_policy_path nt v") (auto simp: normalize_policy_path_Inr)
  qed
qed

text \<open>The union keeps, in order, the first occurrence of every path.\<close>

definition seen_ok :: "bool \<Rightarrow> (string, string) dict \<Rightarrow> string list \<Rightarrow> bool" where
  "seen_ok nt seen acc = (\<forall>k p. map_of seen k = Some p \<longleftrightarrow> p \<in> set acc \<and> policy_path_key nt p = k)"

lemma union_paths_loop_Inr:
  assumes "union_paths_loop nt vs seen acc = Inr ws" and "seen_ok nt seen acc"
    and "distinct acc" and "inj_on (policy_path_key nt) (set acc)"
  shows "distinct ws \<and> set ws = set acc \<union> set vs \<and> inj_on (policy_path_key nt) (set ws) \<and>
     (\<forall>v \<in> set vs. path_ok nt v)"
  using assms
proof (induction nt vs seen acc rule: union_paths_loop.induct)
  case (1 nt seen acc)
  then show ?case by auto
next
  case (2 nt v vs seen acc)
  from "2.prems"(1) obtain w where "normalize_policy_path nt v = Inr w" by (auto simp: ebind_Inr)
  then have n: "normalize_policy_path nt v = Inr v" and ok: "path_ok nt v" by (auto simp: normalize_policy_path_Inr)
  show ?case
  proof (cases "map_of seen (policy_path_key nt v)")
    case None
    with "2.prems"(2) have fresh: "\<forall>p \<in> set acc. policy_path_key nt p \<noteq> policy_path_key nt v"
      by (metis option.distinct(1) seen_ok_def)
    have "seen_ok nt (dict_set (policy_path_key nt v) v seen) (acc @ [v])"
      using "2.prems"(2) fresh None by (auto simp: seen_ok_def update_conv')
    moreover have "distinct (acc @ [v])" "inj_on (policy_path_key nt) (set (acc @ [v]))"
      using "2.prems"(3,4) fresh by (auto simp: inj_on_def)
    moreover have "union_paths_loop nt vs (dict_set (policy_path_key nt v) v seen) (acc @ [v]) = Inr ws"
      using "2.prems"(1) n None by (simp add: Let_def)
    ultimately show ?thesis using "2.IH"(1) [OF n refl None] ok by auto
  next
    case (Some q)
    with "2.prems"(1) n have q: "q = v" by (auto simp: Let_def split: if_splits)
    with Some "2.prems"(2) have "v \<in> set acc" by (auto simp: seen_ok_def)
    moreover have "union_paths_loop nt vs seen acc = Inr ws" using "2.prems"(1) n Some q by (simp add: Let_def)
    ultimately show ?thesis using "2.IH"(2) [OF n refl Some] "2.prems" ok q by auto
  qed
qed

lemma union_paths_loop_posix:
  assumes "\<forall>v \<in> set vs. path_ok False v" and "seen_ok False seen acc"
  shows "\<exists>ws. union_paths_loop False vs seen acc = Inr ws"
  using assms
proof (induction "False" vs seen acc rule: union_paths_loop.induct)
  case (1 seen acc)
  then show ?case by simp
next
  case (2 v vs seen acc)
  then have n: "normalize_policy_path False v = Inr v" by (simp add: path_ok_def)
  show ?case
  proof (cases "map_of seen v")
    case None
    have "seen_ok False (dict_set v v seen) (acc @ [v])"
      using "2.prems"(2) None by (auto simp: seen_ok_def update_conv' policy_path_key_def)
    with 2 n None show ?thesis by (auto simp: Let_def policy_path_key_def)
  next
    case (Some q)
    with "2.prems"(2) have "q = v" by (auto simp: seen_ok_def policy_path_key_def)
    with 2 n Some show ?thesis by (auto simp: Let_def policy_path_key_def)
  qed
qed

lemma seen_ok_empty [simp]: "seen_ok nt [] []"
  by (simp add: seen_ok_def)

section \<open>Properties\<close>

text \<open>An accepted policy path stays inside the repository: resolved component by component from any
  directory it denotes exactly the concatenation of that directory with its own components, it is
  relative on POSIX and Windows alike, and none of its components is a reserved repository
  component, compared without case on Windows.\<close>

theorem policy_path_confined:
  assumes "normalize_policy_path nt v = Inr w"
  shows "w = v \<and> resolve_parts base (split_on (CHR ''/'') v) = Some (base @ split_on (CHR ''/'') v) \<and>
     \<not> starts_with v ''/'' \<and> \<not> drive_prefix v \<and>
     (\<forall>p \<in> set (split_on (CHR ''/'') v). p \<notin> set RESERVED_REPOSITORY_COMPONENTS \<and>
        (nt \<longrightarrow> py_casefold p \<notin> set RESERVED_REPOSITORY_COMPONENTS))"
proof -
  have w: "w = v" and ok: "path_ok nt v" using assms by (auto simp: normalize_policy_path_Inr)
  have fold: "map py_casefold RESERVED_REPOSITORY_COMPONENTS = RESERVED_REPOSITORY_COMPONENTS"
    by code_simp
  have "p \<notin> set RESERVED_REPOSITORY_COMPONENTS \<and> (nt \<longrightarrow> py_casefold p \<notin> set RESERVED_REPOSITORY_COMPONENTS)"
    if "p \<in> set (split_on (CHR ''/'') v)" for p
  proof -
    have "policy_path_key nt p \<notin> set (map (policy_path_key nt) RESERVED_REPOSITORY_COMPONENTS)"
      using ok that by (simp add: path_ok_iff)
    moreover have "policy_path_key nt ` set RESERVED_REPOSITORY_COMPONENTS = set RESERVED_REPOSITORY_COMPONENTS"
      using arg_cong [OF fold, of set] by (auto simp: policy_path_key_def)
    ultimately have "policy_path_key nt p \<notin> set RESERVED_REPOSITORY_COMPONENTS"
      and "p \<in> set RESERVED_REPOSITORY_COMPONENTS \<Longrightarrow> policy_path_key nt p \<in> set RESERVED_REPOSITORY_COMPONENTS"
      by auto
    then show ?thesis by (auto simp: policy_path_key_def)
  qed
  with w ok show ?thesis using resolve_plain by (simp add: path_ok_iff)
qed

theorem policy_path_confined_witness:
  "\<exists>w. normalize_policy_path True ''src/app.py'' = Inr w \<and>
     resolve_parts [''repo''] (split_on (CHR ''/'') ''src/app.py'') = Some [''repo'', ''src'', ''app.py'']"
proof -
  have n: "normalize_policy_path True ''src/app.py'' = Inr ''src/app.py''" by code_simp
  have "split_on (CHR ''/'') ''src/app.py'' = [''src'', ''app.py'']" by code_simp
  with n policy_path_confined [OF n, of "[''repo'']"] show ?thesis by simp
qed

text \<open>Normalising a list of paths accepts it exactly when every path is acceptable and no two have the
  same platform key, and returns it unchanged.\<close>

theorem normalize_policy_paths_exact:
  "normalize_policy_paths nt vs = Inr ws \<longleftrightarrow>
     ws = vs \<and> (\<forall>v \<in> set vs. path_ok nt v) \<and> distinct (map (policy_path_key nt) vs)"
  by (auto simp: normalize_policy_paths_def normalize_paths_loop_Inr)

theorem normalize_policy_paths_exact_witness:
  "normalize_policy_paths True [''src/a'', ''src/b''] = Inr [''src/a'', ''src/b''] \<and>
   (\<forall>ws. normalize_policy_paths True [''src/a'', ''SRC/A''] \<noteq> Inr ws)"
proof -
  have "\<forall>v \<in> set [''src/a'', ''src/b'']. path_ok True v" "distinct (map (policy_path_key True) [''src/a'', ''src/b''])"
    "\<not> distinct (map (policy_path_key True) [''src/a'', ''SRC/A''])" by code_simp+
  then show ?thesis unfolding normalize_policy_paths_exact by blast
qed

text \<open>The union of path groups contains exactly the paths of the groups, each once and no two with the
  same platform key; off Windows it never fails on acceptable paths.\<close>

theorem union_policy_paths_exact:
  "(union_policy_paths nt groups = Inr ws \<longrightarrow>
      set ws = \<Union> (set ` set groups) \<and> distinct ws \<and> inj_on (policy_path_key nt) (set ws)) \<and>
   ((\<forall>v \<in> set (concat groups). path_ok False v) \<longrightarrow> (\<exists>us. union_policy_paths False groups = Inr us))"
  using union_paths_loop_Inr [of nt "concat groups" "[]" "[]" ws] union_paths_loop_posix [of "concat groups" "[]" "[]"]
  by (auto simp: union_policy_paths_def)

theorem union_policy_paths_exact_witness:
  "\<exists>ws. union_policy_paths False [[''.env'', ''a/b''], [''a/b'', ''c'']] = Inr ws \<and> set ws = {''.env'', ''a/b'', ''c''}"
proof -
  have "union_policy_paths False [[''.env'', ''a/b''], [''a/b'', ''c'']] = Inr [''.env'', ''a/b'', ''c'']" by code_simp
  with union_policy_paths_exact [of False "[[''.env'', ''a/b''], [''a/b'', ''c'']]" "[''.env'', ''a/b'', ''c'']"]
  show ?thesis by auto
qed

end
