(* ===== verification/Forge_Policy.thy ===== *)
theory Forge_Policy
  imports Forge_Paths Forge_Json
begin

text \<open>
  \<^verbatim>\<open>domain/policy.py\<close>, \<^verbatim>\<open>domain/review.py\<close>, \<^verbatim>\<open>domain/reasoning.py\<close> and
  \<^verbatim>\<open>domain/validation.py\<close>: the versioned project policy, its command registry, focused
  checks derived from path scopes, model limits and runner image references.

  The pydantic models are records with a validation function. Pydantic reports every failing field
  in one \<^verbatim>\<open>ValidationError\<close>; the model reports the first in declaration order, so it
  accepts and rejects the same values. A violated \<^verbatim>\<open>Field\<close> constraint is a
  \<open>ValueError\<close> that carries the field's name. Repository paths follow
  \<^verbatim>\<open>pathlib.PurePosixPath\<close>.
\<close>

section \<open>Review findings\<close>

datatype finding_severity = BLOCKER | MAJOR | MINOR | SUGGESTION

record review_finding =
  rf_finding_id :: string
  rf_severity :: finding_severity
  rf_path :: string
  rf_start_line :: int
  rf_summary :: string
  rf_evidence :: string
  rf_proposed_resolution :: "string option"
  rf_resolved_at :: "datetime option"

definition required_text :: "string \<Rightarrow> string \<Rightarrow> py_exn option" where
  "required_text v msg = when_raise (v = [] \<or> blank v) (ValueError msg)"

definition review_finding_validate :: "review_finding \<Rightarrow> py_exn option" where
  "review_finding_validate f = seq_raise [
     required_text (rf_finding_id f) ''text fields must not be blank'',
     required_text (rf_path f) ''text fields must not be blank'',
     when_raise (rf_start_line f < 1) (ValueError ''start_line''),
     required_text (rf_summary f) ''text fields must not be blank'',
     required_text (rf_evidence f) ''text fields must not be blank'']"

definition is_resolved :: "review_finding \<Rightarrow> bool" where
  "is_resolved f = (rf_resolved_at f \<noteq> None)"

section \<open>Reasoning efforts\<close>

definition BUDGET_REASONING_MODELS :: "string list" where
  "BUDGET_REASONING_MODELS = [''gemini-2.5-flash'', ''gemini-2.5-pro'']"

definition LEVEL_REASONING_MODELS :: "string list" where
  "LEVEL_REASONING_MODELS = [''gemini-3.5-flash'', ''gemini-3.8-flash'', ''gemini-3.1-pro-preview'',
     ''gemini-3.1-pro-preview-customtools'']"

definition SUPPORTED_EFFORTS :: "string list" where
  "SUPPORTED_EFFORTS = [''low'', ''medium'', ''high'']"

definition RESERVED_CLI_EFFORTS :: "string list" where
  "RESERVED_CLI_EFFORTS = [''low'', ''medium'', ''high'', ''xhigh'', ''max'', ''maximum'', ''ultra'',
     ''minimal'', ''none'', ''auto'']"

text \<open>\<^verbatim>\<open>str.rpartition\<close>, \<open>None\<close> where the separator is missing, and \<^verbatim>\<open>repr\<close> of a string.\<close>

definition rpartition :: "char \<Rightarrow> string \<Rightarrow> (string \<times> string) option" where
  "rpartition c s = (if c \<in> set s
     then Some (rev (tl (dropWhile (\<lambda>x. x \<noteq> c) (rev s))), rev (takeWhile (\<lambda>x. x \<noteq> c) (rev s))) else None)"

definition py_repr :: "string \<Rightarrow> string" where
  "py_repr s = (let q = (if CHR 0x27 \<in> set s \<and> CHR 0x22 \<notin> set s then CHR 0x22 else CHR 0x27) in
     [q] @ concat (map (\<lambda>c. let n = (of_char c :: nat) in
       if c = q \<or> c = CHR 0x5C then [CHR 0x5C, c]
       else if n = 9 then [CHR 0x5C, CHR ''t''] else if n = 10 then [CHR 0x5C, CHR ''n'']
       else if n = 13 then [CHR 0x5C, CHR ''r'']
       else if n < 32 \<or> (127 \<le> n \<and> n \<le> 160) \<or> n = 173
         then [CHR 0x5C, CHR ''x'', hex_digit (n div 16), hex_digit n]
       else [c]) s) @ [q])"

definition parse_gemini_cli_composite_id :: "string \<Rightarrow> (string \<times> string) option" where
  "parse_gemini_cli_composite_id model = (case rpartition (CHR ''-'') model of
       None \<Rightarrow> None
     | Some (prefix, suffix) \<Rightarrow>
         if \<not> starts_with prefix ''gemini-'' then None
         else if py_lower suffix \<in> set RESERVED_CLI_EFFORTS then Some (prefix, suffix) else None)"

definition gemini_cli_composite_error :: "string \<Rightarrow> string option" where
  "gemini_cli_composite_error model = (case parse_gemini_cli_composite_id model of
       None \<Rightarrow> None
     | Some (base_model, _) \<Rightarrow> Some (''Model '' @ py_repr model @ '' is a CLI composite identity; use base API model ''
         @ py_repr base_model @ '' with separately selected reasoning instead''))"

definition reasoning_model_family :: "string \<Rightarrow> string \<Rightarrow> (string \<times> string list) option" where
  "reasoning_model_family provider model =
     (if provider \<noteq> ''google'' then None
      else if model \<in> set BUDGET_REASONING_MODELS then Some (''gemini_2_5'', SUPPORTED_EFFORTS)
      else if model \<in> set LEVEL_REASONING_MODELS then Some (''gemini_3_levels'', SUPPORTED_EFFORTS)
      else None)"

definition reasoning_effort_error :: "string \<Rightarrow> string \<Rightarrow> string \<Rightarrow> string option" where
  "reasoning_effort_error provider model effort = (case gemini_cli_composite_error model of
       Some e \<Rightarrow> Some e
     | None \<Rightarrow> (case reasoning_model_family provider model of
         None \<Rightarrow> Some (''Reasoning effort is not supported for provider/model '' @ py_repr provider @ ''/'' @ py_repr model)
       | Some (_, efforts) \<Rightarrow>
           if effort \<notin> set efforts then Some (''Reasoning effort '' @ py_repr effort @ '' is not supported for '' @
             py_repr model @ ''; supported choices: '' @ join_with '', '' efforts)
           else None))"

section \<open>Commands\<close>

datatype runner_mode = DOCKER | TRUSTED_HOST

datatype step_kind = BOOTSTRAP | INSTALL | MIGRATION | SEED | TEST | LINT | TYPECHECK | BUILD | CUSTOM

fun step_kind_str :: "step_kind \<Rightarrow> string" where
  "step_kind_str BOOTSTRAP = ''bootstrap''"
| "step_kind_str INSTALL = ''install''"
| "step_kind_str MIGRATION = ''migration''"
| "step_kind_str SEED = ''seed''"
| "step_kind_str TEST = ''test''"
| "step_kind_str LINT = ''lint''"
| "step_kind_str TYPECHECK = ''typecheck''"
| "step_kind_str BUILD = ''build''"
| "step_kind_str CUSTOM = ''custom_named''"

definition is_shell_meta :: "char \<Rightarrow> bool" where
  "is_shell_meta c = (c \<in> set [CHR 0x0D, CHR 0x0A, CHR '';'', CHR ''&'', CHR ''|'', CHR ''$'', CHR 0x60,
     CHR ''('', CHR '')'', CHR ''<'', CHR ''>''])"

definition shell_wrappers :: "string list" where
  "shell_wrappers = [''bash'', ''cmd'', ''cmd.exe'', ''dash'', ''fish'', ''ksh'', ''powershell'',
     ''powershell.exe'', ''pwsh'', ''pwsh.exe'', ''sh'', ''zsh'']"

definition shell_wrapper_flags :: "string list" where
  "shell_wrapper_flags = [''-c'', ''--command'', ''-command'', ''/c'', ''/k'', ''/command'',
     ''/encodedcommand'', ''-encodedcommand'']"

definition reject_shell_text :: "string \<Rightarrow> string \<Rightarrow> py_exn option" where
  "reject_shell_text v field_name =
     when_raise (\<exists>c \<in> set v. is_shell_meta c) (ValueError (field_name @ '' must not contain shell metacharacters''))"

definition environment_key_fullmatch :: "string \<Rightarrow> bool" where
  "environment_key_fullmatch s = (case s of [] \<Rightarrow> False
     | c # cs \<Rightarrow> (is_alnum c \<and> \<not> is_digit c \<or> c = CHR ''_'') \<and> list_all (\<lambda>x. is_alnum x \<or> x = CHR ''_'') cs)"

definition scoped_path_fullmatch :: "string \<Rightarrow> bool" where
  "scoped_path_fullmatch s = (case s of [] \<Rightarrow> False
     | c # cs \<Rightarrow> (is_alnum c \<or> c \<in> {CHR ''_'', CHR ''.''}) \<and>
         list_all (\<lambda>x. is_alnum x \<or> x \<in> {CHR ''_'', CHR ''.'', CHR ''/'', CHR ''-''}) cs)"

definition safe_relative_path :: "string \<Rightarrow> bool" where
  "safe_relative_path v = (v \<noteq> [] \<and> scoped_path_fullmatch v \<and>
     \<not> (starts_with v ''/'' \<or> starts_with v ''-'' \<or> starts_with v ''./'') \<and>
     ''..'' \<notin> set (split_on (CHR ''/'') v) \<and> \<not> contains_str v ''//'')"

record command_path_scope =
  ps_prefixes :: "string list"
  ps_max_paths :: int

definition command_path_scope_make :: "string list \<Rightarrow> int \<Rightarrow> command_path_scope result" where
  "command_path_scope_make prefixes max_paths =
     (let normalized = map (\<lambda>p. rstrip_by (\<lambda>c. c = CHR ''/'') p @ ''/'') prefixes in
      raising (seq_raise [
        when_raise (length prefixes < 1 \<or> 16 < length prefixes) (ValueError ''prefixes''),
        when_raise (\<exists>p \<in> set prefixes. \<not> safe_relative_path (rstrip_by (\<lambda>c. c = CHR ''/'') p))
          (ValueError ''path scope prefixes must be safe relative directories''),
        when_raise (\<not> distinct normalized) (ValueError ''path scope prefixes must be unique''),
        when_raise (max_paths < 1 \<or> 256 < max_paths) (ValueError ''max_paths'')])
      \<lparr> ps_prefixes = normalized, ps_max_paths = max_paths \<rparr>)"

definition covers :: "command_path_scope \<Rightarrow> string \<Rightarrow> bool" where
  "covers scope path = (safe_relative_path path \<and>
     (\<exists>prefix \<in> set (ps_prefixes scope). starts_with path prefix \<or> path @ ''/'' = prefix))"

record command_spec =
  cs_kind :: step_kind
  cs_name :: string
  cs_argv :: "string list"
  cs_timeout_seconds :: int
  cs_required :: bool
  cs_network_enabled :: bool
  cs_environment_keys :: "string list"
  cs_path_scope :: "command_path_scope option"

definition command_executable :: "string \<Rightarrow> string" where
  "command_executable a0 = py_casefold (last (split_on (CHR ''/'') (map (\<lambda>c. if c = CHR 0x5C then CHR ''/'' else c) a0)))"

definition argv_validate :: "string list \<Rightarrow> py_exn option" where
  "argv_validate argv = (if argv = [] then Some (ValueError ''argv must not be empty'') else seq_raise [
     when_raise (\<exists>a \<in> set argv. a = [] \<or> blank a) (ValueError ''argv entries must not be blank''),
     when_raise (\<exists>a \<in> set argv. \<exists>c \<in> set a. is_shell_meta c) (ValueError ''argv must not contain shell metacharacters''),
     when_raise (command_executable (hd argv) \<in> set shell_wrappers) (ValueError ''shell wrapper commands are not permitted''),
     when_raise (\<exists>a \<in> set (tl argv). py_casefold a \<in> set shell_wrapper_flags)
       (ValueError ''shell wrapper flags are not permitted'')])"

definition MAX_COMMAND_TIMEOUT_SECONDS :: int where
  "MAX_COMMAND_TIMEOUT_SECONDS = 7200"

definition command_spec_validate :: "command_spec \<Rightarrow> py_exn option" where
  "command_spec_validate c = seq_raise [
     required_text (cs_name c) ''command name must not be blank'',
     reject_shell_text (cs_name c) ''command name'',
     argv_validate (cs_argv c),
     when_raise (cs_timeout_seconds c < 1 \<or> MAX_COMMAND_TIMEOUT_SECONDS < cs_timeout_seconds c) (ValueError ''timeout_seconds''),
     when_raise (\<not> distinct (cs_environment_keys c)) (ValueError ''environment_keys must not contain duplicates''),
     when_raise (\<exists>k \<in> set (cs_environment_keys c). \<not> environment_key_fullmatch k)
       (ValueError ''environment_keys must contain environment variable names'')]"

definition command_spec_make :: "command_spec \<Rightarrow> command_spec result" where
  "command_spec_make c = raising (command_spec_validate c) c"

definition scoped_check_paths :: "command_spec \<Rightarrow> string list \<Rightarrow> string list result" where
  "scoped_check_paths command owned_paths = (case cs_path_scope command of
       None \<Rightarrow> Inl (ValueError ''command has no path scope'')
     | Some scope \<Rightarrow> let selected = sort (remdups (filter (covers scope) owned_paths)) in
         if ps_max_paths scope < int (length selected)
         then Inl (ValueError ''focused check covers more owned paths than its scope allows'')
         else Inr selected)"

definition scoped_command :: "command_spec \<Rightarrow> string list \<Rightarrow> command_spec result" where
  "scoped_command command selected = (case cs_path_scope command of
       None \<Rightarrow> Inl (ValueError ''focused check paths are outside its scope'')
     | Some scope \<Rightarrow>
         if selected = [] \<or> ps_max_paths scope < int (length selected) \<or> \<not> distinct selected \<or>
            selected \<noteq> sort selected \<or> \<not> (\<forall>path \<in> set selected. covers scope path)
         then Inl (ValueError ''focused check paths are outside its scope'')
         else command_spec_make (command\<lparr> cs_argv := cs_argv command @ selected, cs_path_scope := None \<rparr>))"

section \<open>Model, database and Jev limits\<close>

datatype reasoning_effort = Effort_low | Effort_medium | Effort_high

fun effort_str :: "reasoning_effort \<Rightarrow> string" where
  "effort_str Effort_low = ''low''"
| "effort_str Effort_medium = ''medium''"
| "effort_str Effort_high = ''high''"

record agent_model_policy =
  am_provider :: string
  am_model :: string
  am_max_input_tokens :: "int option"
  am_max_output_tokens :: "int option"
  am_max_tool_calls :: int
  am_max_duration_seconds :: int
  am_max_cost_minor :: int
  am_reasoning_effort :: "reasoning_effort option"

definition agent_model_policy_validate :: "agent_model_policy \<Rightarrow> py_exn option" where
  "agent_model_policy_validate p = seq_raise [
     required_text (am_provider p) ''model policy text must not be blank'',
     required_text (am_model p) ''model policy text must not be blank'',
     (if am_provider p = ''google'' then map_option ValueError (gemini_cli_composite_error (am_model p)) else None),
     opt_raise (am_max_input_tokens p) (\<lambda>n. when_raise (n < 1 \<or> max_signed_bigint < n) (ValueError ''max_input_tokens'')),
     opt_raise (am_max_output_tokens p) (\<lambda>n. when_raise (n < 1 \<or> max_signed_bigint < n) (ValueError ''max_output_tokens'')),
     when_raise (am_max_tool_calls p < 0) (ValueError ''max_tool_calls''),
     when_raise (am_max_duration_seconds p < 1) (ValueError ''max_duration_seconds''),
     when_raise (am_max_cost_minor p < 0) (ValueError ''max_cost_minor''),
     opt_raise (am_reasoning_effort p) (\<lambda>e.
       map_option ValueError (reasoning_effort_error (am_provider p) (am_model p) (effort_str e)))]"

record database_provisioning_policy =
  db_enabled :: bool
  db_admin_url_secret_reference :: "string option"
  db_injected_environment_key :: string

definition secret_reference_fullmatch :: "string \<Rightarrow> bool" where
  "secret_reference_fullmatch s = (starts_with s ''secret://'' \<and> (case drop 9 s of [] \<Rightarrow> False
     | c # cs \<Rightarrow> is_alnum c \<and> list_all (\<lambda>x. is_alnum x \<or> x \<in> {CHR ''.'', CHR ''_'', CHR ''/'', CHR ''-''}) cs))"

definition database_policy_validate :: "database_provisioning_policy \<Rightarrow> py_exn option" where
  "database_policy_validate d = seq_raise [
     opt_raise (db_admin_url_secret_reference d) (\<lambda>r. when_raise (\<not> secret_reference_fullmatch r)
       (ValueError ''admin_url_secret_reference must be a secret:// reference'')),
     when_raise (\<not> environment_key_fullmatch (db_injected_environment_key d))
       (ValueError ''injected_environment_key must be an environment variable name''),
     when_raise (db_enabled d \<and> db_admin_url_secret_reference d = None)
       (ValueError ''enabled database provisioning requires an admin secret reference''),
     when_raise (\<not> db_enabled d \<and> db_admin_url_secret_reference d \<noteq> None)
       (ValueError ''database secret reference requires enabled provisioning'')]"

datatype jev_mode = Jev_off | Jev_shadow | Jev_on

record jev_policy =
  jp_mode :: jev_mode
  jp_allow_remote :: bool
  jp_model :: string
  jp_semantic_search :: bool
  jp_review_focus :: bool
  jp_top_k :: int
  jp_max_requests_per_run :: int
  jp_max_input_units_per_run :: int
  jp_max_candidates :: int
  jp_max_result_chars :: int
  jp_timeout_seconds :: pyfloat
  jp_cache_ttl_seconds :: int

definition out_of :: "int \<Rightarrow> int \<Rightarrow> int \<Rightarrow> bool" where
  "out_of lo hi n = (n < lo \<or> hi < n)"

definition jev_policy_validate :: "jev_policy \<Rightarrow> py_exn option" where
  "jev_policy_validate j = seq_raise [
     when_raise (jp_model j = [] \<or> 128 < length (jp_model j)) (ValueError ''model''),
     when_raise (blank (jp_model j) \<or> jp_model j \<noteq> py_strip (jp_model j))
       (ValueError ''Jev model must be a nonblank alias without surrounding whitespace''),
     when_raise (out_of 1 100 (jp_top_k j)) (ValueError ''top_k''),
     when_raise (out_of 1 1000 (jp_max_requests_per_run j)) (ValueError ''max_requests_per_run''),
     when_raise (out_of 1 10000000 (jp_max_input_units_per_run j)) (ValueError ''max_input_units_per_run''),
     when_raise (out_of 1 100 (jp_max_candidates j)) (ValueError ''max_candidates''),
     when_raise (out_of 1 100000 (jp_max_result_chars j)) (ValueError ''max_result_chars''),
     when_raise (case jp_timeout_seconds j of Finite q \<Rightarrow> q < 1 \<or> 60 < q | _ \<Rightarrow> True) (ValueError ''timeout_seconds''),
     when_raise (out_of 0 86400 (jp_cache_ttl_seconds j)) (ValueError ''cache_ttl_seconds'')]"

section \<open>Project policies\<close>

record project_policy =
  pp_id :: uuid
  pp_version :: int
  pp_repository_path :: string
  pp_github_repository :: string
  pp_default_branch :: string
  pp_runner_mode :: runner_mode
  pp_trusted_project :: bool
  pp_local_remediation_limit :: int
  pp_remote_remediation_limit :: int
  pp_planner_model :: agent_model_policy
  pp_developer_model :: agent_model_policy
  pp_reviewer_model :: agent_model_policy
  pp_database :: database_provisioning_policy
  pp_jev :: "jev_policy option"
  pp_commands :: "command_spec list"
  pp_allowed_environment_files :: "string list"
  pp_secret_paths :: "string list"
  pp_allowed_merge_methods :: "string list"
  pp_publication_blocking_severities :: "finding_severity list"
  pp_merge_blocking_severities :: "finding_severity list"

text \<open>\<^verbatim>\<open>str(Path(value))\<close> on POSIX: empty and dot components dropped, exactly two leading
  slashes kept.\<close>

definition posix_path_str :: "string \<Rightarrow> string" where
  "posix_path_str v = (let
     root = (if starts_with v ''//'' \<and> \<not> starts_with v ''///'' then ''//''
             else if starts_with v ''/'' then ''/'' else []);
     parts = filter (\<lambda>p. p \<noteq> [] \<and> p \<noteq> ''.'') (split_on (CHR ''/'') v)
     in if root = [] \<and> parts = [] then ''.'' else root @ join_with ''/'' parts)"

definition known_merge_methods :: "string list" where
  "known_merge_methods = [''merge'', ''squash'', ''rebase'']"

definition merge_methods_validate :: "string list \<Rightarrow> py_exn option" where
  "merge_methods_validate ms = seq_raise [
     when_raise (ms = []) (ValueError ''at least one merge method must be allowed''),
     when_raise (\<not> distinct ms) (ValueError ''allowed merge methods must not contain duplicates''),
     when_raise (\<exists>m \<in> set ms. m \<notin> set known_merge_methods)
       (ValueError ''allowed_merge_methods contains an unlisted merge method'')]"

definition validate_trust_and_commands :: "bool \<Rightarrow> project_policy \<Rightarrow> py_exn option" where
  "validate_trust_and_commands nt p = seq_raise [
     when_raise (pp_runner_mode p = TRUSTED_HOST \<and> \<not> pp_trusted_project p)
       (ValueError ''trusted_host runner requires trusted_project''),
     when_raise (\<not> distinct (map cs_name (pp_commands p))) (ValueError ''duplicate command names are not permitted''),
     exn_of (union_policy_paths nt [pp_secret_paths p, pp_allowed_environment_files p])]"

definition project_policy_make :: "bool \<Rightarrow> project_policy \<Rightarrow> project_policy result" where
  "project_policy_make nt p = raising (seq_raise [
     when_raise (pp_version p < 1) (ValueError ''version''),
     when_raise (pp_repository_path p = []) (ValueError ''repository_path''),
     when_raise (\<not> starts_with (pp_repository_path p) ''/'') (ValueError ''repository_path must be absolute''),
     required_text (pp_github_repository p) ''policy identity fields must not be blank'',
     required_text (pp_default_branch p) ''policy identity fields must not be blank'',
     when_raise (out_of 0 20 (pp_local_remediation_limit p)) (ValueError ''local_remediation_limit''),
     when_raise (out_of 0 20 (pp_remote_remediation_limit p)) (ValueError ''remote_remediation_limit''),
     agent_model_policy_validate (pp_planner_model p),
     agent_model_policy_validate (pp_developer_model p),
     agent_model_policy_validate (pp_reviewer_model p),
     database_policy_validate (pp_database p),
     opt_raise (pp_jev p) jev_policy_validate,
     each_raise (pp_commands p) command_spec_validate,
     exn_of (normalize_policy_paths nt (pp_allowed_environment_files p)),
     exn_of (normalize_policy_paths nt (pp_secret_paths p)),
     merge_methods_validate (pp_allowed_merge_methods p),
     validate_trust_and_commands nt p])
     (p\<lparr> pp_repository_path := posix_path_str (pp_repository_path p) \<rparr>)"

definition commands_for :: "project_policy \<Rightarrow> step_kind \<Rightarrow> command_spec list" where
  "commands_for p kind = filter (\<lambda>c. cs_kind c = kind) (pp_commands p)"

definition validation_kinds :: "step_kind list" where
  "validation_kinds = [TEST, LINT, TYPECHECK, BUILD, CUSTOM]"

definition required_checks :: "project_policy \<Rightarrow> command_spec list" where
  "required_checks p = filter (\<lambda>c. cs_required c \<and> cs_kind c \<in> set validation_kinds) (pp_commands p)"

definition effective_secret_paths :: "bool \<Rightarrow> project_policy \<Rightarrow> string list result" where
  "effective_secret_paths nt p = union_policy_paths nt [pp_secret_paths p, pp_allowed_environment_files p]"

definition blocks :: "review_finding list \<Rightarrow> finding_severity list \<Rightarrow> bool" where
  "blocks findings severities = (\<exists>f \<in> set findings. \<not> is_resolved f \<and> rf_severity f \<in> set severities)"

definition blocks_publication :: "project_policy \<Rightarrow> review_finding list \<Rightarrow> bool" where
  "blocks_publication p findings = blocks findings (pp_publication_blocking_severities p)"

definition blocks_merge :: "project_policy \<Rightarrow> review_finding list \<Rightarrow> bool" where
  "blocks_merge p findings = blocks findings (pp_merge_blocking_severities p)"

section \<open>Legacy documents\<close>

text \<open>One stored role whose model is a composite identity of the command-line client: the base model
  replaces it, and the suffix becomes the effort where that is supported and none is set.\<close>

definition normalize_legacy_role :: "pyval \<Rightarrow> pyval option" where
  "normalize_legacy_role role = (case role of
       PDict r \<Rightarrow>
         if dict_get r ''provider'' (PStr ''google'') \<noteq> PStr ''google'' then None
         else (case dict_get r ''model'' PNone of
             PStr model \<Rightarrow> (case parse_gemini_cli_composite_id model of
                 None \<Rightarrow> None
               | Some (base_model, suffix) \<Rightarrow>
                   let repaired = dict_set ''model'' (PStr base_model) r; effort = py_lower suffix in
                   Some (PDict (if dict_get repaired ''reasoning_effort'' PNone = PNone \<and>
                       effort \<in> set SUPPORTED_EFFORTS \<and> reasoning_effort_error ''google'' base_model effort = None
                     then dict_set ''reasoning_effort'' (PStr effort) repaired else repaired)))
           | _ \<Rightarrow> None)
     | _ \<Rightarrow> None)"

definition normalize_legacy_cli_composite_models :: "pyval \<Rightarrow> pyval" where
  "normalize_legacy_cli_composite_models data = (case data of
       PDict d \<Rightarrow> PDict (foldl (\<lambda>acc field. case normalize_legacy_role (dict_get d field PNone) of
           None \<Rightarrow> acc | Some role \<Rightarrow> dict_set field role acc) d
         [''planner_model'', ''developer_model'', ''reviewer_model''])
     | v \<Rightarrow> v)"

section \<open>Validation evidence\<close>

definition image_repository_fullmatch :: "string \<Rightarrow> bool" where
  "image_repository_fullmatch s = (case s of [] \<Rightarrow> False
     | c # cs \<Rightarrow> (is_lower_az c \<or> is_digit c) \<and>
         list_all (\<lambda>x. is_lower_az x \<or> is_digit x \<or> x \<in> {CHR ''.'', CHR ''_'', CHR '':'', CHR ''/'', CHR ''-''}) cs)"

abbreviation image_error :: py_exn where
  "image_error \<equiv> ValueError ''runner image must use an immutable digest reference''"

definition is_image_digest :: "string \<Rightarrow> bool" where
  "is_image_digest d = (starts_with d ''sha256:'' \<and> is_digest64 (drop 7 d))"

definition validate_runner_image_reference :: "string \<Rightarrow> string result" where
  "validate_runner_image_reference v =
     (if v = [] then Inr v
      else if v \<noteq> py_strip v \<or> CHR 0x00 \<in> set v \<or> 1 < length (filter (\<lambda>c. c = CHR ''@'') v) then Inl image_error
      else case rpartition (CHR ''@'') v of
        Some (repository, digest) \<Rightarrow>
          if repository = [] \<or> \<not> image_repository_fullmatch repository then Inl image_error
          else if \<not> is_image_digest digest then Inl image_error else Inr v
      | None \<Rightarrow> if \<not> is_image_digest v then Inl image_error else Inr v)"

definition runner_image_digest :: "string \<Rightarrow> string result" where
  "runner_image_digest reference = ebind (validate_runner_image_reference reference) (\<lambda>validated.
     if validated = [] then Inl (ValueError ''runner image digest is not configured'')
     else Inr (case rpartition (CHR ''@'') validated of Some (_, digest) \<Rightarrow> digest | None \<Rightarrow> validated))"

definition path_scope_json :: "command_path_scope \<Rightarrow> pyval" where
  "path_scope_json s = PDict [(''prefixes'', PList (map PStr (ps_prefixes s))), (''max_paths'', PInt (ps_max_paths s))]"

text \<open>\<^verbatim>\<open>spec.model_dump(mode="json")\<close> without an absent path scope.\<close>

definition command_spec_json :: "command_spec \<Rightarrow> pyval" where
  "command_spec_json c = PDict ([
     (''kind'', PStr (step_kind_str (cs_kind c))), (''name'', PStr (cs_name c)),
     (''argv'', PList (map PStr (cs_argv c))), (''timeout_seconds'', PInt (cs_timeout_seconds c)),
     (''required'', PBool (cs_required c)), (''network_enabled'', PBool (cs_network_enabled c)),
     (''environment_keys'', PList (map PStr (cs_environment_keys c)))] @
     (case cs_path_scope c of None \<Rightarrow> [] | Some s \<Rightarrow> [(''path_scope'', path_scope_json s)]))"

definition utf8_json :: json_enc where
  "utf8_json = \<lparr> enc_ascii = False, enc_float = (\<lambda>_. []) \<rparr>"

definition command_spec_digest :: "command_spec \<Rightarrow> string" where
  "command_spec_digest c = sha256_hexdigest (utf8_encode (dumps utf8_json (command_spec_json c)))"

definition effective_network_enabled :: "runner_mode \<Rightarrow> bool \<Rightarrow> bool" where
  "effective_network_enabled mode requested = (mode = TRUSTED_HOST \<or> requested)"

definition require_evidence_digest :: "string \<Rightarrow> string \<Rightarrow> string result" where
  "require_evidence_digest v field_name =
     (if is_digest64 v then Inr v else Inl (ValueError (field_name @ '' must be a lowercase SHA-256 digest'')))"

section \<open>Lemmas on focused checks\<close>

lemma alnum_not_meta: "is_alnum c \<Longrightarrow> \<not> is_shell_meta c"
proof
  assume a: "is_alnum c" and "is_shell_meta c"
  then have "c \<in> set [CHR 0x0D, CHR 0x0A, CHR '';'', CHR ''&'', CHR ''|'', CHR ''$'', CHR 0x60,
     CHR ''('', CHR '')'', CHR ''<'', CHR ''>'']" by (simp add: is_shell_meta_def)
  moreover have "list_all (\<lambda>c. \<not> is_alnum c) [CHR 0x0D, CHR 0x0A, CHR '';'', CHR ''&'', CHR ''|'', CHR ''$'', CHR 0x60,
     CHR ''('', CHR '')'', CHR ''<'', CHR ''>'']" by code_simp
  ultimately show False using a by (auto simp: list_all_iff)
qed

lemma scoped_char_not_meta:
  "is_alnum c \<or> c \<in> {CHR ''_'', CHR ''.'', CHR ''/'', CHR ''-''} \<Longrightarrow> \<not> is_shell_meta c"
proof -
  assume c: "is_alnum c \<or> c \<in> {CHR ''_'', CHR ''.'', CHR ''/'', CHR ''-''}"
  have "list_all (\<lambda>c. \<not> is_shell_meta c) [CHR ''_'', CHR ''.'', CHR ''/'', CHR ''-'']" by code_simp
  then have "c \<in> {CHR ''_'', CHR ''.'', CHR ''/'', CHR ''-''} \<Longrightarrow> \<not> is_shell_meta c"
    by (auto simp only: list_all_iff list.set insert_iff empty_iff)
  with c alnum_not_meta show ?thesis by blast
qed

lemma is_alnum_code:
  "is_alnum c \<longleftrightarrow> (let n = (of_char c :: nat) in (48 \<le> n \<and> n \<le> 57) \<or> (97 \<le> n \<and> n \<le> 122) \<or> (65 \<le> n \<and> n \<le> 90))"
  by (auto simp: is_alnum_def is_digit_def is_lower_az_def is_upper_az_def less_eq_char_def Let_def)

lemma char_lower_code:
  "(of_char (char_lower c) :: nat) = (let n = (of_char c :: nat) in
     if (65 \<le> n \<and> n \<le> 90) \<or> (192 \<le> n \<and> n \<le> 222 \<and> n \<noteq> 215) then n + 32 else n)"
  by (auto simp: char_lower_def Let_def)

lemma scoped_path_first':
  assumes "is_alnum c \<or> c \<in> {CHR ''_'', CHR ''.''}"
  shows "\<not> is_py_space c" and "c \<noteq> CHR 0xDF" and "char_lower c \<notin> {CHR ''-'', CHR ''/''}"
proof -
  have n: "(48 \<le> (of_char c :: nat) \<and> (of_char c :: nat) \<le> 57) \<or> (97 \<le> (of_char c :: nat) \<and> (of_char c :: nat) \<le> 122) \<or>
      (65 \<le> (of_char c :: nat) \<and> (of_char c :: nat) \<le> 90) \<or> (of_char c :: nat) = 95 \<or> (of_char c :: nat) = 46"
    using assms by (auto simp: is_alnum_code Let_def)
  then show "\<not> is_py_space c" by (auto simp: is_py_space_def Let_def)
  show "c \<noteq> CHR 0xDF" using n by auto
  have "(of_char (char_lower c) :: nat) \<notin> {45, 47}" using n unfolding char_lower_code Let_def by auto
  then show "char_lower c \<notin> {CHR ''-'', CHR ''/''}" by auto
qed

lemma safe_path_argument:
  assumes "safe_relative_path v"
  shows "v \<noteq> []" "\<not> blank v" "\<forall>c \<in> set v. \<not> is_shell_meta c" "py_casefold v \<notin> set shell_wrapper_flags"
proof -
  from assms obtain c cs where v: "v = c # cs" and c: "is_alnum c \<or> c \<in> {CHR ''_'', CHR ''.''}"
    and cs: "list_all (\<lambda>x. is_alnum x \<or> x \<in> {CHR ''_'', CHR ''.'', CHR ''/'', CHR ''-''}) cs"
    by (cases v) (auto simp: safe_relative_path_def scoped_path_fullmatch_def)
  show "v \<noteq> []" using v by simp
  show "\<not> blank v" using v scoped_path_first'(1) [OF c] by (simp add: blank_iff)
  show "\<forall>c \<in> set v. \<not> is_shell_meta c"
    using v c cs scoped_char_not_meta by (auto simp: list_all_iff)
  have "hd (py_casefold v) = char_lower c"
    using v scoped_path_first'(2) [OF c] by (simp add: py_casefold_def)
  moreover have "\<forall>f \<in> set shell_wrapper_flags. hd f = CHR ''-'' \<or> hd f = CHR ''/''"
    by (simp add: shell_wrapper_flags_def)
  ultimately show "py_casefold v \<notin> set shell_wrapper_flags"
    using scoped_path_first'(3) [OF c] by auto
qed

lemma argv_append:
  assumes "argv_validate argv = None" and "\<forall>v \<in> set vs. safe_relative_path v"
  shows "argv_validate (argv @ vs) = None"
proof -
  have ne: "argv \<noteq> []" using assms(1) by (auto simp: argv_validate_def)
  with assms(1) have "\<forall>a \<in> set argv. a \<noteq> [] \<and> \<not> blank a" "\<forall>a \<in> set argv. \<forall>c \<in> set a. \<not> is_shell_meta c"
    "command_executable (hd argv) \<notin> set shell_wrappers" "\<forall>a \<in> set (tl argv). py_casefold a \<notin> set shell_wrapper_flags"
    by (auto simp: argv_validate_def)
  moreover have "\<forall>a \<in> set vs. a \<noteq> [] \<and> \<not> blank a" "\<forall>a \<in> set vs. \<forall>c \<in> set a. \<not> is_shell_meta c"
    "\<forall>a \<in> set vs. py_casefold a \<notin> set shell_wrapper_flags"
    using assms(2) safe_path_argument by blast+
  ultimately show ?thesis using ne by (auto simp: argv_validate_def)
qed

lemma split_on_absent: "c \<notin> set s \<Longrightarrow> split_on c s = [s]"
  by (induction s) auto

lemma rpartition_Some: "rpartition c s = Some (a, b) \<Longrightarrow> s = a @ c # b \<and> c \<notin> set b"
proof -
  assume r: "rpartition c s = Some (a, b)"
  then have mem: "c \<in> set (rev s)" by (auto simp: rpartition_def split: if_splits)
  then obtain ys zs where s: "rev s = ys @ c # zs" "c \<notin> set ys" by (metis split_list_first)
  have "takeWhile (\<lambda>x. x \<noteq> c) (ys @ c # zs) = ys" "dropWhile (\<lambda>x. x \<noteq> c) (ys @ c # zs) = c # zs"
    using s(2) by (induction ys) auto
  then have "a = rev zs" "b = rev ys" using r s(1) by (auto simp: rpartition_def split: if_splits)
  moreover have "s = rev (ys @ c # zs)" using s(1) by (metis rev_rev_ident)
  ultimately show ?thesis using s(2) by simp
qed

section \<open>Properties\<close>

text \<open>A focused check derived from a valid command always builds, and builds exactly the same command with
  the selected owned paths appended: if the selection of owned paths succeeds and is not empty, the
  derived command passes the full command validation, keeps every other setting, and every appended
  path is owned, safe and under a prefix of the scope, sorted and without repetition.\<close>

theorem focused_check_builds:
  assumes "command_spec_validate command = None" and "cs_path_scope command = Some scope"
    and "scoped_check_paths command owned = Inr selected" and "selected \<noteq> []"
  shows "scoped_command command selected = Inr (command\<lparr> cs_argv := cs_argv command @ selected, cs_path_scope := None \<rparr>) \<and>
     command_spec_validate (command\<lparr> cs_argv := cs_argv command @ selected, cs_path_scope := None \<rparr>) = None \<and>
     set selected = {path \<in> set owned. covers scope path} \<and> sorted selected \<and> distinct selected"
proof -
  from assms(2,3) have sel: "selected = sort (remdups (filter (covers scope) owned))"
    and len: "int (length selected) \<le> ps_max_paths scope"
    by (auto simp: scoped_check_paths_def Let_def split: if_splits)
  have cov: "\<forall>p \<in> set selected. covers scope p" using sel by auto
  then have "argv_validate (cs_argv command @ selected) = None"
    using assms(1) by (intro argv_append) (auto simp: command_spec_validate_def covers_def)
  then have ok: "command_spec_validate (command\<lparr> cs_argv := cs_argv command @ selected, cs_path_scope := None \<rparr>) = None"
    using assms(1) by (simp add: command_spec_validate_def)
  moreover have s: "sorted selected" "distinct selected" using sel by simp_all
  moreover have "sort selected = selected" using s(1) by (rule sorted_sort_id)
  moreover have "set selected = {path \<in> set owned. covers scope path}" using sel by auto
  ultimately show ?thesis
    using assms(2,4) len cov by (simp add: scoped_command_def command_spec_make_def)
qed

definition sample_scope :: command_path_scope where
  "sample_scope = \<lparr> ps_prefixes = [''src/''], ps_max_paths = 64 \<rparr>"

definition sample_command :: command_spec where
  "sample_command = \<lparr> cs_kind = TEST, cs_name = ''tests'', cs_argv = [''pytest'', ''-q''], cs_timeout_seconds = 60,
     cs_required = True, cs_network_enabled = False, cs_environment_keys = [], cs_path_scope = Some sample_scope \<rparr>"

theorem focused_check_builds_witness:
  "scoped_command sample_command [''src/a.py''] =
     Inr (sample_command\<lparr> cs_argv := [''pytest'', ''-q'', ''src/a.py''], cs_path_scope := None \<rparr>)"
proof -
  have v: "command_spec_validate sample_command = None" by code_simp
  have sc: "cs_path_scope sample_command = Some sample_scope" by (simp add: sample_command_def)
  have "scoped_check_paths sample_command [''docs/x'', ''src/a.py''] = Inr [''src/a.py'']" by code_simp
  from focused_check_builds [OF v sc this] show ?thesis by (simp add: sample_command_def)
qed

text \<open>A constructed policy keeps its promises: a trusted-host runner only with a trusted project, unique
  command names, and a total list of effective secret paths that contains every configured secret
  path and every allowed environment file; reading it never raises.\<close>

theorem constructed_policy_secrets:
  assumes "project_policy_make nt p = Inr q"
  shows "(pp_runner_mode q = TRUSTED_HOST \<longrightarrow> pp_trusted_project q) \<and> distinct (map cs_name (pp_commands q)) \<and>
     (\<exists>ws. effective_secret_paths nt q = Inr ws \<and> distinct ws \<and>
        set ws = set (pp_secret_paths q) \<union> set (pp_allowed_environment_files q))"
proof -
  from assms have t: "validate_trust_and_commands nt p = None" and q: "q = p\<lparr> pp_repository_path := posix_path_str (pp_repository_path p) \<rparr>"
    by (auto simp: project_policy_make_def)
  from t obtain ws where ws: "union_policy_paths nt [pp_secret_paths p, pp_allowed_environment_files p] = Inr ws"
    by (auto simp: validate_trust_and_commands_def)
  then have "distinct ws \<and> set ws = set (pp_secret_paths p) \<union> set (pp_allowed_environment_files p)"
    using union_paths_loop_Inr [of nt "concat [pp_secret_paths p, pp_allowed_environment_files p]" "[]" "[]" ws]
    by (auto simp: union_policy_paths_def)
  with t q ws show ?thesis by (auto simp: validate_trust_and_commands_def effective_secret_paths_def)
qed

definition sample_model :: agent_model_policy where
  "sample_model = \<lparr> am_provider = ''google'', am_model = ''gemini-3.5-flash'', am_max_input_tokens = None,
     am_max_output_tokens = None, am_max_tool_calls = 100, am_max_duration_seconds = 1800, am_max_cost_minor = 1000,
     am_reasoning_effort = None \<rparr>"

definition sample_policy :: project_policy where
  "sample_policy = \<lparr> pp_id = 1, pp_version = 1, pp_repository_path = ''/srv/repo'', pp_github_repository = ''o/r'',
     pp_default_branch = ''main'', pp_runner_mode = DOCKER, pp_trusted_project = False,
     pp_local_remediation_limit = 3, pp_remote_remediation_limit = 3, pp_planner_model = sample_model,
     pp_developer_model = sample_model, pp_reviewer_model = sample_model,
     pp_database = \<lparr> db_enabled = False, db_admin_url_secret_reference = None, db_injected_environment_key = ''DATABASE_URL'' \<rparr>,
     pp_jev = None, pp_commands = [sample_command], pp_allowed_environment_files = [''.env.test''],
     pp_secret_paths = [''.env'', ''.env.local''], pp_allowed_merge_methods = [''squash''],
     pp_publication_blocking_severities = [BLOCKER, MAJOR], pp_merge_blocking_severities = [BLOCKER, MAJOR] \<rparr>"

theorem constructed_policy_secrets_witness:
  "\<exists>q ws. project_policy_make False sample_policy = Inr q \<and> effective_secret_paths False q = Inr ws \<and>
     set ws = {''.env'', ''.env.local'', ''.env.test''}"
proof -
  have "exn_of (project_policy_make False sample_policy) = None" by code_simp
  then obtain q where q: "project_policy_make False sample_policy = Inr q" by auto
  then have "pp_secret_paths q = [''.env'', ''.env.local'']" "pp_allowed_environment_files q = [''.env.test'']"
    by (auto simp: project_policy_make_def sample_policy_def)
  with q constructed_policy_secrets [OF q] show ?thesis by auto
qed

text \<open>A runner image reference is only ever used by its immutable digest: whenever a digest is returned it is
  \<open>sha256:\<close> followed by 64 lowercase hexadecimal characters, and the reference is that digest alone or
  a well-formed repository followed by it.\<close>

theorem runner_image_digest_immutable:
  assumes "runner_image_digest reference = Inr d"
  shows "(\<exists>h. d = ''sha256:'' @ h \<and> is_digest64 h) \<and>
     (reference = d \<or> (\<exists>r. reference = r @ ''@'' @ d \<and> image_repository_fullmatch r))"
proof -
  from assms have v: "validate_runner_image_reference reference = Inr reference" and ne: "reference \<noteq> []"
    and d: "d = (case rpartition (CHR ''@'') reference of Some (_, digest) \<Rightarrow> digest | None \<Rightarrow> reference)"
    by (auto simp: runner_image_digest_def ebind_Inr validate_runner_image_reference_def split: if_splits option.splits)
  have dg: "\<exists>h. x = ''sha256:'' @ h \<and> is_digest64 h" if "is_image_digest x" for x
    using that by (auto simp: is_image_digest_def starts_with_iff)
  show ?thesis
  proof (cases "rpartition (CHR ''@'') reference")
    case None
    with v ne d show ?thesis using dg by (auto simp: validate_runner_image_reference_def split: if_splits)
  next
    case (Some ab)
    then obtain a b where ab: "rpartition (CHR ''@'') reference = Some (a, b)" by (cases ab) auto
    with v ne d have "is_image_digest d" "image_repository_fullmatch a" "d = b"
      by (auto simp: validate_runner_image_reference_def split: if_splits)
    with rpartition_Some [OF ab] dg show ?thesis by auto
  qed
qed

theorem runner_image_digest_immutable_witness:
  "\<exists>d h. runner_image_digest (''ghcr.io/forge/runner@sha256:'' @ replicate 64 (CHR ''0'')) = Inr d \<and>
     d = ''sha256:'' @ h \<and> is_digest64 h"
proof -
  have "exn_of (runner_image_digest (''ghcr.io/forge/runner@sha256:'' @ replicate 64 (CHR ''0''))) = None" by code_simp
  then obtain d where "runner_image_digest (''ghcr.io/forge/runner@sha256:'' @ replicate 64 (CHR ''0'')) = Inr d" by auto
  with runner_image_digest_immutable [OF this] show ?thesis by auto
qed

end
