(* ===== verification/Forge_Approval.thy ===== *)
theory Forge_Approval
  imports Forge_Policy
begin

text \<open>
  \<^verbatim>\<open>domain/approval.py\<close>: the content-bound evidence behind the three human gates and the
  approval records that authorise it. Evidence classes that inherit from one another are record
  extensions. A required-checks mapping is an association list with distinct keys; enums and UUIDs
  appear in a dump by their text, as \<^verbatim>\<open>_canonicalize\<close> leaves them. The JSON text of the
  evidence is computed exactly, so that two pieces of evidence with one digest are the same evidence
  or a collision of SHA-256.

  Parsing (\<^verbatim>\<open>decode_*\<close>) is left to pydantic's coercions and is not modelled.
\<close>

section \<open>Evidence\<close>

datatype approval_gate = Gate_PLAN | Gate_PR | Gate_MERGE

fun runner_mode_str :: "runner_mode \<Rightarrow> string" where
  "runner_mode_str DOCKER = ''docker''"
| "runner_mode_str TRUSTED_HOST = ''trusted_host''"

record plan_approval_evidence =
  pe_task_version :: int
  pe_plan_attempt :: int
  pe_task_digest :: string
  pe_plan_digest :: string
  pe_repository :: string
  pe_base_ref :: string
  pe_base_sha :: string
  pe_policy_version :: int
  pe_dependency_changes :: "string list"
  pe_required_checks :: "(string, string) dict"
  pe_runner_mode :: runner_mode
  pe_local_remediation_limit :: int
  pe_token_budget :: "int option"
  pe_cost_budget_minor :: int
  pe_duration_budget_seconds :: int

record subscription_plan_producer =
  sp_schema_version :: int
  sp_producer_kind :: string
  sp_attempt_id :: uuid
  sp_run_id :: uuid
  sp_task_id :: uuid
  sp_plan_attempt :: int
  sp_plan_digest :: string
  sp_task_digest :: string
  sp_envelope_digest :: string
  sp_budget_digest :: string
  sp_route_digest :: string
  sp_telemetry :: "(string, int option) dict"

record subscription_plan_approval_evidence = plan_approval_evidence +
  spe_schema_version :: int
  spe_producer :: subscription_plan_producer
  spe_result_digest :: string

record pr_candidate_evidence =
  pr_candidate_commit :: string
  pr_diff_digest :: string
  pr_validation_digest :: string
  pr_repository :: string
  pr_base_ref :: string
  pr_base_sha :: string
  pr_title :: string
  pr_body_digest :: string
  pr_runner_mode :: runner_mode
  pr_runner_evidence_digest :: string
  pr_remote_remediation_limit :: int

record pr_approval_evidence = pr_candidate_evidence +
  pra_review_digest :: string

record subscription_pr_approval_evidence = pr_candidate_evidence +
  spr_schema_version :: int
  spr_acceptance_digest :: string
  spr_candidate_tree_digest :: string

record merge_candidate_evidence =
  me_repository :: string
  me_pull_request_number :: int
  me_head_sha :: string
  me_base_ref :: string
  me_base_sha :: string
  me_required_checks :: "(string, string) dict"
  me_unresolved_blocking_findings :: int
  me_validation_digest :: string
  me_runner_mode :: runner_mode
  me_runner_evidence_digest :: string
  me_protection_digest :: string
  me_merge_method :: string
  me_policy_version :: int

record merge_approval_evidence = merge_candidate_evidence +
  mea_review_digest :: string

record subscription_merge_approval_evidence = merge_candidate_evidence +
  sme_schema_version :: int
  sme_acceptance_digest :: string
  sme_candidate_tree_digest :: string

section \<open>Validation\<close>

definition require_sha :: "string \<Rightarrow> string \<Rightarrow> py_exn option" where
  "require_sha v field_name =
     when_raise (\<not> is_sha40_any v) (ValueError (field_name @ '' must be a 40-character hexadecimal SHA''))"

definition require_digest :: "string \<Rightarrow> string \<Rightarrow> py_exn option" where
  "require_digest v field_name =
     when_raise (\<not> is_digest64_any v) (ValueError (field_name @ '' must be a 64-character hexadecimal digest''))"

definition freeze_checks :: "(string, string) dict \<Rightarrow> py_exn option" where
  "freeze_checks checks = when_raise (\<exists>(key, status) \<in> set checks. blank key \<or> blank status)
     (ValueError ''required check names and statuses must not be blank'')"

text \<open>A set of dependency changes is given as a list of its members, in any order.\<close>

datatype dependency_input = Dep_sequence "string list" | Dep_set "string list"

fun normalize_dependency_changes :: "dependency_input \<Rightarrow> string list" where
  "normalize_dependency_changes (Dep_set xs) = sort (remdups xs)"
| "normalize_dependency_changes (Dep_sequence xs) = xs"

definition plan_evidence_validate :: "'a plan_approval_evidence_scheme \<Rightarrow> py_exn option" where
  "plan_evidence_validate e = seq_raise [
     when_raise (pe_task_version e < 1) (ValueError ''task_version''),
     when_raise (pe_plan_attempt e < 1) (ValueError ''plan_attempt''),
     require_digest (pe_task_digest e) ''evidence digest'',
     require_digest (pe_plan_digest e) ''evidence digest'',
     when_raise (pe_repository e = []) (ValueError ''repository''),
     when_raise (pe_base_ref e = []) (ValueError ''base_ref''),
     require_sha (pe_base_sha e) ''base_sha'',
     when_raise (pe_policy_version e < 1) (ValueError ''policy_version''),
     freeze_checks (pe_required_checks e),
     when_raise (pe_local_remediation_limit e < 0) (ValueError ''local_remediation_limit''),
     opt_raise (pe_token_budget e) (\<lambda>n. when_raise (out_of 0 max_signed_bigint n) (ValueError ''token_budget'')),
     when_raise (pe_cost_budget_minor e < 0) (ValueError ''cost_budget_minor''),
     when_raise (pe_duration_budget_seconds e < 1) (ValueError ''duration_budget_seconds'')]"

definition telemetry_is_bounded :: "(string, int option) dict \<Rightarrow> py_exn option" where
  "telemetry_is_bounded t = when_raise
     (set (map fst t) \<noteq> {''input_tokens'', ''output_tokens'', ''duration_ms''} \<or>
      (\<exists>(k, v) \<in> set t. case v of None \<Rightarrow> False | Some n \<Rightarrow> n < 0))
     (ValueError ''subscription producer telemetry is invalid'')"

definition identifier_non_nil :: "uuid \<Rightarrow> py_exn option" where
  "identifier_non_nil u = when_raise (u = 0) (ValueError ''subscription producer identifiers must not be nil'')"

definition plan_producer_validate :: "subscription_plan_producer \<Rightarrow> py_exn option" where
  "plan_producer_validate p = seq_raise [
     when_raise (sp_schema_version p \<noteq> 1) (ValueError ''schema_version''),
     when_raise (sp_producer_kind p \<noteq> ''subscription_plan'') (ValueError ''producer_kind''),
     identifier_non_nil (sp_attempt_id p), identifier_non_nil (sp_run_id p), identifier_non_nil (sp_task_id p),
     when_raise (sp_plan_attempt p < 1) (ValueError ''plan_attempt''),
     require_digest (sp_plan_digest p) ''producer digest'',
     require_digest (sp_task_digest p) ''producer digest'',
     require_digest (sp_envelope_digest p) ''producer digest'',
     require_digest (sp_budget_digest p) ''producer digest'',
     require_digest (sp_route_digest p) ''producer digest'',
     telemetry_is_bounded (sp_telemetry p)]"

definition subscription_plan_evidence_validate :: "subscription_plan_approval_evidence \<Rightarrow> py_exn option" where
  "subscription_plan_evidence_validate e = seq_raise [
     plan_evidence_validate e,
     when_raise (spe_schema_version e \<noteq> 2) (ValueError ''schema_version''),
     plan_producer_validate (spe_producer e),
     require_digest (spe_result_digest e) ''settled result digest'',
     when_raise (sp_plan_digest (spe_producer e) \<noteq> pe_plan_digest e \<or>
        sp_plan_attempt (spe_producer e) \<noteq> pe_plan_attempt e)
       (ValueError ''subscription producer differs from the plan evidence'')]"

definition pr_candidate_validate :: "'a pr_candidate_evidence_scheme \<Rightarrow> py_exn option" where
  "pr_candidate_validate e = seq_raise [
     require_sha (pr_candidate_commit e) ''candidate_commit'',
     require_digest (pr_diff_digest e) ''evidence digest'',
     require_digest (pr_validation_digest e) ''evidence digest'',
     when_raise (pr_repository e = []) (ValueError ''repository''),
     when_raise (pr_base_ref e = []) (ValueError ''base_ref''),
     require_sha (pr_base_sha e) ''base_sha'',
     when_raise (pr_title e = []) (ValueError ''title''),
     require_digest (pr_body_digest e) ''evidence digest'',
     require_digest (pr_runner_evidence_digest e) ''evidence digest'',
     when_raise (pr_remote_remediation_limit e < 0) (ValueError ''remote_remediation_limit'')]"

definition pr_approval_evidence_validate :: "pr_approval_evidence \<Rightarrow> py_exn option" where
  "pr_approval_evidence_validate e = seq_raise [pr_candidate_validate e, require_digest (pra_review_digest e) ''review digest'']"

definition subscription_pr_evidence_validate :: "subscription_pr_approval_evidence \<Rightarrow> py_exn option" where
  "subscription_pr_evidence_validate e = seq_raise [
     pr_candidate_validate e,
     when_raise (spr_schema_version e \<noteq> 2) (ValueError ''schema_version''),
     require_digest (spr_acceptance_digest e) ''acceptance digest'',
     require_digest (spr_candidate_tree_digest e) ''acceptance digest'']"

definition merge_candidate_validate :: "'a merge_candidate_evidence_scheme \<Rightarrow> py_exn option" where
  "merge_candidate_validate e = seq_raise [
     when_raise (me_repository e = []) (ValueError ''repository''),
     when_raise (me_pull_request_number e < 1) (ValueError ''pull_request_number''),
     require_sha (me_head_sha e) ''head_sha'',
     when_raise (me_base_ref e = []) (ValueError ''base_ref''),
     require_sha (me_base_sha e) ''base_sha'',
     freeze_checks (me_required_checks e),
     when_raise (me_unresolved_blocking_findings e < 0) (ValueError ''unresolved_blocking_findings''),
     require_digest (me_validation_digest e) ''evidence digest'',
     require_digest (me_runner_evidence_digest e) ''evidence digest'',
     require_digest (me_protection_digest e) ''evidence digest'',
     when_raise (me_merge_method e = []) (ValueError ''merge_method''),
     when_raise (me_policy_version e < 1) (ValueError ''policy_version'')]"

definition merge_approval_evidence_validate :: "merge_approval_evidence \<Rightarrow> py_exn option" where
  "merge_approval_evidence_validate e = seq_raise [merge_candidate_validate e, require_digest (mea_review_digest e) ''review digest'']"

definition subscription_merge_evidence_validate :: "subscription_merge_approval_evidence \<Rightarrow> py_exn option" where
  "subscription_merge_evidence_validate e = seq_raise [
     merge_candidate_validate e,
     when_raise (sme_schema_version e \<noteq> 2) (ValueError ''schema_version''),
     require_digest (sme_acceptance_digest e) ''acceptance digest'',
     require_digest (sme_candidate_tree_digest e) ''acceptance digest'']"

section \<open>Dumps and digests\<close>

definition checks_json :: "(string, string) dict \<Rightarrow> pyval" where
  "checks_json checks = PDict (map (\<lambda>kv. (fst kv, PStr (snd kv))) checks)"

definition opt_int_json :: "int option \<Rightarrow> pyval" where
  "opt_int_json v = (case v of None \<Rightarrow> PNone | Some n \<Rightarrow> PInt n)"

definition plan_evidence_fields :: "'a plan_approval_evidence_scheme \<Rightarrow> (string \<times> pyval) list" where
  "plan_evidence_fields e = [
     (''task_version'', PInt (pe_task_version e)), (''plan_attempt'', PInt (pe_plan_attempt e)),
     (''task_digest'', PStr (pe_task_digest e)), (''plan_digest'', PStr (pe_plan_digest e)),
     (''repository'', PStr (pe_repository e)), (''base_ref'', PStr (pe_base_ref e)),
     (''base_sha'', PStr (pe_base_sha e)), (''policy_version'', PInt (pe_policy_version e)),
     (''dependency_changes'', PTuple (map PStr (pe_dependency_changes e))),
     (''required_checks'', checks_json (pe_required_checks e)),
     (''runner_mode'', PStr (runner_mode_str (pe_runner_mode e))),
     (''local_remediation_limit'', PInt (pe_local_remediation_limit e)),
     (''token_budget'', opt_int_json (pe_token_budget e)),
     (''cost_budget_minor'', PInt (pe_cost_budget_minor e)),
     (''duration_budget_seconds'', PInt (pe_duration_budget_seconds e))]"

definition plan_producer_json :: "subscription_plan_producer \<Rightarrow> pyval" where
  "plan_producer_json p = PDict [
     (''schema_version'', PInt (sp_schema_version p)), (''producer_kind'', PStr (sp_producer_kind p)),
     (''attempt_id'', PStr (uuid_str (sp_attempt_id p))), (''run_id'', PStr (uuid_str (sp_run_id p))),
     (''task_id'', PStr (uuid_str (sp_task_id p))), (''plan_attempt'', PInt (sp_plan_attempt p)),
     (''plan_digest'', PStr (sp_plan_digest p)), (''task_digest'', PStr (sp_task_digest p)),
     (''envelope_digest'', PStr (sp_envelope_digest p)), (''budget_digest'', PStr (sp_budget_digest p)),
     (''route_digest'', PStr (sp_route_digest p)),
     (''telemetry'', PDict (map (\<lambda>kv. (fst kv, opt_int_json (snd kv))) (sp_telemetry p)))]"

definition subscription_plan_evidence_fields :: "subscription_plan_approval_evidence \<Rightarrow> (string \<times> pyval) list" where
  "subscription_plan_evidence_fields e = plan_evidence_fields e @ [
     (''schema_version'', PInt (spe_schema_version e)), (''producer'', plan_producer_json (spe_producer e)),
     (''result_digest'', PStr (spe_result_digest e))]"

definition pr_candidate_fields :: "'a pr_candidate_evidence_scheme \<Rightarrow> (string \<times> pyval) list" where
  "pr_candidate_fields e = [
     (''candidate_commit'', PStr (pr_candidate_commit e)), (''diff_digest'', PStr (pr_diff_digest e)),
     (''validation_digest'', PStr (pr_validation_digest e)), (''repository'', PStr (pr_repository e)),
     (''base_ref'', PStr (pr_base_ref e)), (''base_sha'', PStr (pr_base_sha e)), (''title'', PStr (pr_title e)),
     (''body_digest'', PStr (pr_body_digest e)), (''runner_mode'', PStr (runner_mode_str (pr_runner_mode e))),
     (''runner_evidence_digest'', PStr (pr_runner_evidence_digest e)),
     (''remote_remediation_limit'', PInt (pr_remote_remediation_limit e))]"

definition pr_approval_fields :: "pr_approval_evidence \<Rightarrow> (string \<times> pyval) list" where
  "pr_approval_fields e = pr_candidate_fields e @ [(''review_digest'', PStr (pra_review_digest e))]"

definition subscription_pr_fields :: "subscription_pr_approval_evidence \<Rightarrow> (string \<times> pyval) list" where
  "subscription_pr_fields e = pr_candidate_fields e @ [
     (''schema_version'', PInt (spr_schema_version e)), (''acceptance_digest'', PStr (spr_acceptance_digest e)),
     (''candidate_tree_digest'', PStr (spr_candidate_tree_digest e))]"

definition merge_candidate_fields :: "'a merge_candidate_evidence_scheme \<Rightarrow> (string \<times> pyval) list" where
  "merge_candidate_fields e = [
     (''repository'', PStr (me_repository e)), (''pull_request_number'', PInt (me_pull_request_number e)),
     (''head_sha'', PStr (me_head_sha e)), (''base_ref'', PStr (me_base_ref e)), (''base_sha'', PStr (me_base_sha e)),
     (''required_checks'', checks_json (me_required_checks e)),
     (''unresolved_blocking_findings'', PInt (me_unresolved_blocking_findings e)),
     (''validation_digest'', PStr (me_validation_digest e)), (''runner_mode'', PStr (runner_mode_str (me_runner_mode e))),
     (''runner_evidence_digest'', PStr (me_runner_evidence_digest e)),
     (''protection_digest'', PStr (me_protection_digest e)), (''merge_method'', PStr (me_merge_method e)),
     (''policy_version'', PInt (me_policy_version e))]"

definition merge_approval_fields :: "merge_approval_evidence \<Rightarrow> (string \<times> pyval) list" where
  "merge_approval_fields e = merge_candidate_fields e @ [(''review_digest'', PStr (mea_review_digest e))]"

definition subscription_merge_fields :: "subscription_merge_approval_evidence \<Rightarrow> (string \<times> pyval) list" where
  "subscription_merge_fields e = merge_candidate_fields e @ [
     (''schema_version'', PInt (sme_schema_version e)), (''acceptance_digest'', PStr (sme_acceptance_digest e)),
     (''candidate_tree_digest'', PStr (sme_candidate_tree_digest e))]"

text \<open>The canonical bytes of a dump, and their digest.\<close>

definition canonical_bytes :: "(string \<times> pyval) list \<Rightarrow> byte list" where
  "canonical_bytes kvs = utf8_encode (dumps utf8_json (canonicalize (PDict kvs)))"

definition canonical_evidence_digest :: "(string \<times> pyval) list \<Rightarrow> string" where
  "canonical_evidence_digest kvs = sha256_hexdigest (canonical_bytes kvs)"

section \<open>Decisions and records\<close>

datatype publication_evidence =
    Pr_legacy pr_approval_evidence
  | Pr_subscription subscription_pr_approval_evidence
  | Merge_legacy merge_approval_evidence
  | Merge_subscription subscription_merge_approval_evidence

fun decision_evidence_fields :: "publication_evidence \<Rightarrow> (string, string) dict" where
  "decision_evidence_fields (Pr_subscription e) =
     [(''acceptance_digest'', spr_acceptance_digest e), (''candidate_tree_digest'', spr_candidate_tree_digest e)]"
| "decision_evidence_fields (Merge_subscription e) =
     [(''acceptance_digest'', sme_acceptance_digest e), (''candidate_tree_digest'', sme_candidate_tree_digest e)]"
| "decision_evidence_fields (Pr_legacy e) = [(''review_digest'', pra_review_digest e)]"
| "decision_evidence_fields (Merge_legacy e) = [(''review_digest'', mea_review_digest e)]"

fun decision_evidence_digest :: "publication_evidence \<Rightarrow> string" where
  "decision_evidence_digest (Pr_subscription e) = spr_acceptance_digest e"
| "decision_evidence_digest (Merge_subscription e) = sme_acceptance_digest e"
| "decision_evidence_digest (Pr_legacy e) = pra_review_digest e"
| "decision_evidence_digest (Merge_legacy e) = mea_review_digest e"

record approval_record =
  ar_id :: "uuid option"
  ar_gate :: approval_gate
  ar_evidence_digest :: string
  ar_run_id :: uuid
  ar_run_version :: int
  ar_policy_version :: int
  ar_authenticated_actor_id :: string
  ar_created_at :: datetime
  ar_invalidated_at :: "datetime option"

definition approval_record_validate :: "approval_record \<Rightarrow> py_exn option" where
  "approval_record_validate r = seq_raise [
     require_digest (ar_evidence_digest r) ''canonical_evidence_digest'',
     when_raise (ar_run_version r < 0) (ValueError ''run_version''),
     when_raise (ar_policy_version r < 1) (ValueError ''policy_version''),
     required_text (ar_authenticated_actor_id r) ''authenticated_actor_id must not be blank'',
     when_raise (\<not> is_aware (ar_created_at r)) (ValueError ''approval timestamps must be timezone-aware''),
     opt_raise (ar_invalidated_at r) (\<lambda>t. when_raise (\<not> is_aware t)
       (ValueError ''approval timestamps must be timezone-aware''))]"

text \<open>\<^verbatim>\<open>hmac.compare_digest\<close> on strings refuses non-ASCII text.\<close>

definition is_ascii :: "string \<Rightarrow> bool" where
  "is_ascii s = (\<forall>c \<in> set s. (of_char c :: nat) < 128)"

definition compare_digest :: "string \<Rightarrow> string \<Rightarrow> bool result" where
  "compare_digest a b = (if is_ascii a \<and> is_ascii b then Inr (a = b)
     else Inl (TypeError ''comparing strings with non-ASCII characters is not supported''))"

definition is_valid_for ::
  "approval_record \<Rightarrow> approval_gate \<Rightarrow> string \<Rightarrow> uuid \<Rightarrow> int \<Rightarrow> int \<Rightarrow> string \<Rightarrow> bool result" where
  "is_valid_for r gate digest run_id run_version policy_version actor_id =
     (if ar_invalidated_at r \<noteq> None then Inr False
      else if ar_gate r \<noteq> gate then Inr False
      else ebind (compare_digest (ar_evidence_digest r) digest) (\<lambda>same. Inr (same \<and> ar_run_id r = run_id \<and>
        ar_run_version r = run_version \<and> ar_policy_version r = policy_version \<and>
        ar_authenticated_actor_id r = actor_id)))"

definition invalidate :: "approval_record \<Rightarrow> datetime \<Rightarrow> approval_record result" where
  "invalidate r t = (if \<not> is_aware t then Inl (ValueError ''approval invalidation timestamp must be timezone-aware'')
     else Inr (r\<lparr> ar_invalidated_at := Some t \<rparr>))"

section \<open>Equal bytes are equal evidence\<close>

lemma canonical_bytes_fields:
  assumes "canonical_bytes a = canonical_bytes b" and "plain_json (PDict a)" and "plain_json (PDict b)"
  shows "map_option canonicalize (map_of a k) = map_option canonicalize (map_of b k)"
proof -
  have "dumps utf8_json (canonicalize (PDict a)) = dumps utf8_json (canonicalize (PDict b))"
    using assms(1) utf8_encode_inj by (auto simp: canonical_bytes_def)
  then have "canonicalize (PDict a) = canonicalize (PDict b)"
    using assms(2,3) by (rule dumps_canonicalize_inj)
  then show ?thesis by (rule canonicalize_fields) (use assms(2,3) in simp_all)
qed

lemma checks_json_inj:
  assumes "canonicalize (checks_json a) = canonicalize (checks_json b)" and "distinct (map fst a)" and "distinct (map fst b)"
  shows "map_of a = map_of b"
proof
  fix k
  have m: "map_of (map (\<lambda>kv. (fst kv, PStr (snd kv))) xs) k = map_option PStr (map_of xs k)" for xs :: "(string, string) dict"
    by (induction xs) auto
  have "map_option canonicalize (map_of (map (\<lambda>kv. (fst kv, PStr (snd kv))) a) k) =
      map_option canonicalize (map_of (map (\<lambda>kv. (fst kv, PStr (snd kv))) b) k)"
    by (rule canonicalize_fields [OF assms(1) [unfolded checks_json_def]]) (use assms(2,3) in \<open>simp_all add: comp_def\<close>)
  then show "map_of a k = map_of b k"
    by (cases "map_of a k"; cases "map_of b k") (simp_all add: m)
qed

lemma runner_mode_str_inj [simp]: "runner_mode_str a = runner_mode_str b \<longleftrightarrow> a = b"
  by (cases a; cases b) auto

lemma opt_int_json_inj [simp]: "canonicalize (opt_int_json a) = canonicalize (opt_int_json b) \<longleftrightarrow> a = b"
  by (cases a; cases b) (auto simp: opt_int_json_def)

lemma plain_checks [simp]: "plain_json (checks_json c) \<longleftrightarrow> distinct (map fst c)"
  by (auto simp: checks_json_def comp_def)

lemma plain_opt_int [simp]: "plain_json (opt_int_json n)"
  by (cases n) (auto simp: opt_int_json_def)

lemma plain_plan_fields: "distinct (map fst (pe_required_checks e)) \<Longrightarrow> plain_json (PDict (plan_evidence_fields e))"
  by (simp add: plan_evidence_fields_def)

lemma plain_merge_fields: "distinct (map fst (me_required_checks e)) \<Longrightarrow> plain_json (PDict (subscription_merge_fields e))"
  by (simp add: subscription_merge_fields_def merge_candidate_fields_def)

lemma map_PStr_inj [simp]: "map PStr a = map PStr b \<longleftrightarrow> a = b"
  by (rule inj_map_eq_map) (simp add: inj_def)

definition same_plan_evidence :: "plan_approval_evidence \<Rightarrow> plan_approval_evidence \<Rightarrow> bool" where
  "same_plan_evidence a b = (a\<lparr> pe_required_checks := [] \<rparr> = b\<lparr> pe_required_checks := [] \<rparr> \<and>
     map_of (pe_required_checks a) = map_of (pe_required_checks b))"

definition same_merge_evidence ::
  "subscription_merge_approval_evidence \<Rightarrow> subscription_merge_approval_evidence \<Rightarrow> bool" where
  "same_merge_evidence a b = (a\<lparr> me_required_checks := [] \<rparr> = b\<lparr> me_required_checks := [] \<rparr> \<and>
     map_of (me_required_checks a) = map_of (me_required_checks b))"

lemma plan_bytes_inj:
  assumes "canonical_bytes (plan_evidence_fields a) = canonical_bytes (plan_evidence_fields b)"
    and "distinct (map fst (pe_required_checks a))" and "distinct (map fst (pe_required_checks b))"
  shows "same_plan_evidence a b"
proof -
  note f = canonical_bytes_fields [OF assms(1) plain_plan_fields [OF assms(2)] plain_plan_fields [OF assms(3)]]
  have "map_of (pe_required_checks a) = map_of (pe_required_checks b)"
    using f [of "''required_checks''"] assms(2,3) by (intro checks_json_inj) (simp_all add: plan_evidence_fields_def)
  moreover have "a\<lparr> pe_required_checks := [] \<rparr> = b\<lparr> pe_required_checks := [] \<rparr>"
    using f [of "''task_version''"] f [of "''plan_attempt''"] f [of "''task_digest''"] f [of "''plan_digest''"]
      f [of "''repository''"] f [of "''base_ref''"] f [of "''base_sha''"] f [of "''policy_version''"]
      f [of "''dependency_changes''"] f [of "''runner_mode''"] f [of "''local_remediation_limit''"]
      f [of "''token_budget''"] f [of "''cost_budget_minor''"] f [of "''duration_budget_seconds''"]
    by (simp add: plan_evidence_fields_def comp_def)
  ultimately show ?thesis by (simp add: same_plan_evidence_def)
qed

lemma merge_bytes_inj:
  assumes "canonical_bytes (subscription_merge_fields a) = canonical_bytes (subscription_merge_fields b)"
    and "distinct (map fst (me_required_checks a))" and "distinct (map fst (me_required_checks b))"
  shows "same_merge_evidence a b"
proof -
  note f = canonical_bytes_fields [OF assms(1) plain_merge_fields [OF assms(2)] plain_merge_fields [OF assms(3)]]
  note fs = subscription_merge_fields_def merge_candidate_fields_def
  have "map_of (me_required_checks a) = map_of (me_required_checks b)"
    using f [of "''required_checks''"] assms(2,3) by (intro checks_json_inj) (simp_all add: fs)
  moreover have "a\<lparr> me_required_checks := [] \<rparr> = b\<lparr> me_required_checks := [] \<rparr>"
    using f [of "''repository''"] f [of "''pull_request_number''"] f [of "''head_sha''"] f [of "''base_ref''"]
      f [of "''base_sha''"] f [of "''unresolved_blocking_findings''"] f [of "''validation_digest''"]
      f [of "''runner_mode''"] f [of "''runner_evidence_digest''"] f [of "''protection_digest''"]
      f [of "''merge_method''"] f [of "''policy_version''"] f [of "''schema_version''"]
      f [of "''acceptance_digest''"] f [of "''candidate_tree_digest''"]
    by (simp add: fs)
  ultimately show ?thesis by (simp add: same_merge_evidence_def)
qed

lemma is_digest64_any_ascii: "is_digest64_any s \<Longrightarrow> is_ascii s"
  by (auto simp: is_digest64_any_def is_ascii_def list_all_iff is_hex_any_def is_hex_lower_def is_digit_def less_eq_char_def)

section \<open>Properties\<close>

text \<open>The digest shown at the plan gate binds every field of the evidence: two pieces of plan evidence with the
  same digest agree in every field (the required checks as a mapping), or their canonical bytes are
  two different inputs on which SHA-256 collides.\<close>

theorem plan_digest_binds_evidence:
  assumes "canonical_evidence_digest (plan_evidence_fields a) = canonical_evidence_digest (plan_evidence_fields b)"
    and "distinct (map fst (pe_required_checks a))" and "distinct (map fst (pe_required_checks b))"
  shows "same_plan_evidence a b \<or>
     (canonical_bytes (plan_evidence_fields a) \<noteq> canonical_bytes (plan_evidence_fields b) \<and>
      sha256_hexdigest (canonical_bytes (plan_evidence_fields a)) = sha256_hexdigest (canonical_bytes (plan_evidence_fields b)))"
  using assms plan_bytes_inj by (auto simp: canonical_evidence_digest_def)

definition sample_plan :: plan_approval_evidence where
  "sample_plan = \<lparr> pe_task_version = 1, pe_plan_attempt = 1, pe_task_digest = replicate 64 (CHR ''a''),
     pe_plan_digest = replicate 64 (CHR ''b''), pe_repository = ''o/r'', pe_base_ref = ''main'',
     pe_base_sha = replicate 40 (CHR ''c''), pe_policy_version = 1, pe_dependency_changes = [],
     pe_required_checks = [(''lint'', ''required''), (''test'', ''required'')], pe_runner_mode = DOCKER,
     pe_local_remediation_limit = 3, pe_token_budget = None, pe_cost_budget_minor = 0, pe_duration_budget_seconds = 60 \<rparr>"

theorem plan_digest_binds_evidence_witness:
  "canonical_evidence_digest (plan_evidence_fields sample_plan) =
     canonical_evidence_digest (plan_evidence_fields (sample_plan\<lparr> pe_required_checks := [(''test'', ''required''), (''lint'', ''required'')] \<rparr>)) \<and>
   same_plan_evidence sample_plan (sample_plan\<lparr> pe_required_checks := [(''test'', ''required''), (''lint'', ''required'')] \<rparr>)"
proof -
  let ?b = "sample_plan\<lparr> pe_required_checks := [(''test'', ''required''), (''lint'', ''required'')] \<rparr>"
  have bytes: "canonical_bytes (plan_evidence_fields sample_plan) = canonical_bytes (plan_evidence_fields ?b)"
    by (simp add: canonical_bytes_def plan_evidence_fields_def sample_plan_def checks_json_def)
  then have dig: "canonical_evidence_digest (plan_evidence_fields sample_plan) = canonical_evidence_digest (plan_evidence_fields ?b)"
    by (simp add: canonical_evidence_digest_def)
  have "distinct (map fst (pe_required_checks sample_plan))" "distinct (map fst (pe_required_checks ?b))"
    by (simp_all add: sample_plan_def)
  from plan_digest_binds_evidence [OF dig this] bytes dig show ?thesis by blast
qed

text \<open>The digest shown at the merge gate binds every field of subscription merge evidence: equal digests mean the
  same evidence (the required checks as a mapping), or the canonical bytes are a SHA-256 collision; the acceptance and candidate tree digests
  are part of what is bound.\<close>

theorem merge_digest_binds_evidence:
  assumes "canonical_evidence_digest (subscription_merge_fields a) = canonical_evidence_digest (subscription_merge_fields b)"
    and "distinct (map fst (me_required_checks a))" and "distinct (map fst (me_required_checks b))"
  shows "same_merge_evidence a b \<or>
     (canonical_bytes (subscription_merge_fields a) \<noteq> canonical_bytes (subscription_merge_fields b) \<and>
      sha256_hexdigest (canonical_bytes (subscription_merge_fields a)) = sha256_hexdigest (canonical_bytes (subscription_merge_fields b)))"
  using assms merge_bytes_inj by (auto simp: canonical_evidence_digest_def)

definition sample_merge :: subscription_merge_approval_evidence where
  "sample_merge = \<lparr> me_repository = ''o/r'', me_pull_request_number = 7, me_head_sha = replicate 40 (CHR ''a''),
     me_base_ref = ''main'', me_base_sha = replicate 40 (CHR ''b''), me_required_checks = [(''ci'', ''success'')],
     me_unresolved_blocking_findings = 0, me_validation_digest = replicate 64 (CHR ''c''), me_runner_mode = DOCKER,
     me_runner_evidence_digest = replicate 64 (CHR ''d''), me_protection_digest = replicate 64 (CHR ''e''),
     me_merge_method = ''squash'', me_policy_version = 1, sme_schema_version = 2,
     sme_acceptance_digest = replicate 64 (CHR ''f''), sme_candidate_tree_digest = replicate 64 (CHR ''0'') \<rparr>"

theorem merge_digest_binds_evidence_witness: "same_merge_evidence sample_merge sample_merge"
proof -
  have d: "distinct (map fst (me_required_checks sample_merge))" by (simp add: sample_merge_def)
  from merge_digest_binds_evidence [OF refl d d] show ?thesis by blast
qed


definition sample_approval :: approval_record where
  "sample_approval = \<lparr> ar_id = None, ar_gate = Gate_MERGE, ar_evidence_digest = replicate 64 (CHR ''a''), ar_run_id = 1,
     ar_run_version = 5, ar_policy_version = 2, ar_authenticated_actor_id = ''operator'', ar_created_at = Aware 0,
     ar_invalidated_at = None \<rparr>"


end
