(* ===== verification/Forge_Operation.thy ===== *)
theory Forge_Operation
  imports Forge_Payload Forge_Approval
begin

text \<open>
  The durable values of the execution layer: \<^verbatim>\<open>domain/event.py\<close>,
  \<^verbatim>\<open>domain/command.py\<close>, \<^verbatim>\<open>domain/operation.py\<close>, \<^verbatim>\<open>domain/lease.py\<close>
  and \<^verbatim>\<open>domain/scheduling.py\<close>. Each constructor validates in source order and stores a
  frozen payload, so it is a function from the given values to a result. The call
  \<^verbatim>\<open>json.dumps(thaw_payload(payload))\<close> that follows a payload validation cannot raise on a
  validated payload and has no counterpart. The iteration order of the redaction markers is the
  argument \<open>sq\<close> of the payload scanner.
\<close>

section \<open>Events\<close>

definition ACTOR_CLASSES :: "string list" where
  "ACTOR_CLASSES = [''system'', ''worker'', ''agent'', ''operator'', ''unauthenticated'']"

record run_event =
  ev_run_id :: uuid
  ev_run_version :: int
  ev_event_type :: string
  ev_payload :: "(string, pyval) dict"
  ev_event_id :: uuid
  ev_sequence :: "int option"
  ev_actor_class :: string
  ev_actor_id :: "uuid option"
  ev_payload_schema_version :: int
  ev_occurred_at :: datetime

definition freeze_dict :: "(string, pyval) dict \<Rightarrow> (string, pyval) dict" where
  "freeze_dict kvs = map (\<lambda>(k, v). (k, freeze v)) kvs"

definition run_event_make :: "run_event \<Rightarrow> run_event result" where
  "run_event_make e = raising (seq_raise [
     opt_raise (ev_sequence e) (\<lambda>n. when_raise (n < 1) (ValueError ''event sequence must be positive when assigned'')),
     when_raise (ev_run_version e < 0) (ValueError ''run version must be nonnegative''),
     when_raise (ev_event_type e = [] \<or> 96 < length (ev_event_type e)) (ValueError ''event type must contain 1-96 characters''),
     when_raise (ev_actor_class e \<notin> set ACTOR_CLASSES) (ValueError (''unsupported event actor class: '' @ py_repr (ev_actor_class e))),
     when_raise (ev_payload_schema_version e < 1) (ValueError ''payload schema version must be positive''),
     when_raise (\<not> is_aware (ev_occurred_at e)) (ValueError ''event timestamp must be timezone-aware'')])
     (e\<lparr> ev_payload := freeze_dict (ev_payload e) \<rparr>)"

section \<open>Commands\<close>

datatype command_status = Cmd_PENDING | Cmd_LEASED | Cmd_COMPLETED | Cmd_FAILED | Cmd_CANCELLED

record command_envelope =
  ce_id :: uuid
  ce_run_id :: uuid
  ce_command_type :: string
  ce_idempotency_key :: string
  ce_payload :: "(string, pyval) dict"
  ce_status :: command_status
  ce_expected_run_version :: int
  ce_actor_id :: "uuid option"
  ce_payload_schema_version :: int
  ce_attempt :: int
  ce_available_at :: datetime
  ce_lease_owner :: "string option"
  ce_lease_expires_at :: "datetime option"
  ce_created_at :: "datetime option"
  ce_completed_at :: "datetime option"
  ce_error_summary :: "string option"

definition aware :: "datetime \<Rightarrow> string \<Rightarrow> py_exn option" where
  "aware t name = when_raise (\<not> is_aware t) (ValueError (name @ '' must be timezone-aware''))"

abbreviation falsy :: "string option \<Rightarrow> bool" where
  "falsy s \<equiv> s = None \<or> s = Some []"

definition command_envelope_validate :: "bool \<Rightarrow> command_envelope \<Rightarrow> py_exn option" where
  "command_envelope_validate sq c = seq_raise [
     when_raise (ce_command_type c = [] \<or> 96 < length (ce_command_type c)) (ValueError ''command type must contain 1-96 characters''),
     when_raise (ce_idempotency_key c = [] \<or> 255 < length (ce_idempotency_key c)) (ValueError ''idempotency key must contain 1-255 characters''),
     when_raise (ce_expected_run_version c < 0 \<or> ce_attempt c < 0) (ValueError ''command versions and attempts must be nonnegative''),
     when_raise (ce_payload_schema_version c \<noteq> 1)
       (ValueError (''unsupported command payload schema: '' @ int_str (ce_payload_schema_version c))),
     validate_durable_payload sq (PDict (ce_payload c)),
     aware (ce_available_at c) ''command availability'',
     opt_raise (ce_created_at c) (\<lambda>t. aware t ''command creation time''),
     opt_raise (ce_completed_at c) (\<lambda>t. aware t ''command completion time''),
     (if ce_status c = Cmd_LEASED then seq_raise [
        when_raise (falsy (ce_lease_owner c) \<or> ce_lease_expires_at c = None) (ValueError ''leased commands require an owner and expiry''),
        opt_raise (ce_lease_expires_at c) (\<lambda>t. aware t ''command lease expiry'')]
      else when_raise (ce_lease_owner c \<noteq> None \<or> ce_lease_expires_at c \<noteq> None) (ValueError ''non-leased commands cannot retain a lease'')),
     when_raise (ce_status c \<in> {Cmd_COMPLETED, Cmd_FAILED, Cmd_CANCELLED} \<and> ce_completed_at c = None)
       (ValueError ''terminal commands require a completion time''),
     when_raise (ce_status c \<in> {Cmd_PENDING, Cmd_LEASED} \<and> ce_completed_at c \<noteq> None)
       (ValueError ''non-terminal commands cannot have a completion time''),
     validate_durable_error sq (ce_error_summary c) ''command error summary'']"

definition command_envelope_make :: "bool \<Rightarrow> command_envelope \<Rightarrow> command_envelope result" where
  "command_envelope_make sq c = raising (command_envelope_validate sq c) (c\<lparr> ce_payload := freeze_dict (ce_payload c) \<rparr>)"

section \<open>Operations\<close>

datatype operation_status = Op_PENDING | Op_SUCCEEDED | Op_FAILED | Op_NEEDS_RECONCILIATION

definition canonical_payload :: "bool \<Rightarrow> (rat \<Rightarrow> string) \<Rightarrow> (string, pyval) dict \<Rightarrow> string result" where
  "canonical_payload sq frepr v = raising (validate_durable_payload sq (PDict v))
     (dumps \<lparr> enc_ascii = True, enc_float = frepr \<rparr> (thaw_payload (PDict v)))"

definition canonical_digest :: "bool \<Rightarrow> (rat \<Rightarrow> string) \<Rightarrow> (string, pyval) dict \<Rightarrow> string result" where
  "canonical_digest sq frepr v = ebind (canonical_payload sq frepr v) (\<lambda>t. Inr (sha256_hexdigest (utf8_encode t)))"

record operation_request =
  or_run_id :: uuid
  or_kind :: string
  or_idempotency_key :: string
  or_request_digest :: string
  or_request_payload :: "(string, pyval) dict"
  or_request_schema_version :: int

definition operation_request_validate :: "bool \<Rightarrow> operation_request \<Rightarrow> py_exn option" where
  "operation_request_validate sq r = seq_raise [
     when_raise (or_kind r = [] \<or> 96 < length (or_kind r)) (ValueError ''operation kind must contain 1-96 characters''),
     when_raise (or_idempotency_key r = [] \<or> 255 < length (or_idempotency_key r)) (ValueError ''idempotency key must contain 1-255 characters''),
     when_raise (\<not> is_digest64 (or_request_digest r)) (ValueError ''request digest must be lowercase hexadecimal SHA-256''),
     when_raise (or_request_schema_version r \<noteq> 1)
       (ValueError (''unsupported operation request schema: '' @ int_str (or_request_schema_version r))),
     validate_durable_payload sq (PDict (or_request_payload r))]"

definition operation_request_make :: "bool \<Rightarrow> operation_request \<Rightarrow> operation_request result" where
  "operation_request_make sq r = raising (operation_request_validate sq r)
     (r\<lparr> or_request_payload := freeze_dict (or_request_payload r) \<rparr>)"

record operation_outcome =
  oo_remote_resource_id :: "string option"
  oo_payload :: "(string, pyval) dict"
  oo_status :: operation_status
  oo_error :: "string option"
  oo_outcome_schema_version :: int

definition operation_outcome_make :: "bool \<Rightarrow> operation_outcome \<Rightarrow> operation_outcome result" where
  "operation_outcome_make sq o' = raising (seq_raise [
     when_raise (oo_status o' = Op_PENDING) (ValueError ''operation outcomes cannot remain pending''),
     when_raise (oo_outcome_schema_version o' \<noteq> 1)
       (ValueError (''unsupported operation outcome schema: '' @ int_str (oo_outcome_schema_version o'))),
     validate_durable_payload sq (PDict (oo_payload o')),
     opt_raise (oo_remote_resource_id o') (\<lambda>s. when_raise (1024 < length s) (ValueError ''remote resource identifier is too long'')),
     validate_durable_error sq (oo_error o') ''operation outcome error''])
     (o'\<lparr> oo_payload := freeze_dict (oo_payload o') \<rparr>)"

record operation_intent =
  oi_id :: uuid
  oi_run_id :: uuid
  oi_kind :: string
  oi_idempotency_key :: string
  oi_request_digest :: string
  oi_request_payload :: "(string, pyval) dict"
  oi_status :: operation_status
  oi_remote_resource_id :: "string option"
  oi_attempt :: int
  oi_created_at :: "datetime option"
  oi_updated_at :: "datetime option"
  oi_started_at :: "datetime option"
  oi_completed_at :: "datetime option"
  oi_outcome :: "(string, pyval) dict option"
  oi_error :: "string option"
  oi_request_schema_version :: int
  oi_outcome_schema_version :: "int option"
  oi_execution_owner :: "string option"
  oi_execution_lease_expires_at :: "datetime option"

definition intent_request :: "operation_intent \<Rightarrow> operation_request" where
  "intent_request i = \<lparr> or_run_id = oi_run_id i, or_kind = oi_kind i, or_idempotency_key = oi_idempotency_key i,
     or_request_digest = oi_request_digest i, or_request_payload = oi_request_payload i,
     or_request_schema_version = oi_request_schema_version i \<rparr>"

definition intent_lease_guards :: "operation_intent \<Rightarrow> py_exn option" where
  "intent_lease_guards i = seq_raise [
     opt_raise (oi_execution_owner i) (\<lambda>s. when_raise (s = [] \<or> 255 < length s)
       (ValueError ''operation execution owner must contain 1-255 characters'')),
     when_raise (oi_execution_owner i = None \<and> oi_execution_lease_expires_at i \<noteq> None)
       (ValueError ''an execution lease expiry requires an owner''),
     when_raise (oi_execution_owner i \<noteq> None \<and> oi_execution_lease_expires_at i = None)
       (ValueError ''an execution owner requires a lease expiry'')]"

definition intent_outcome_guards :: "bool \<Rightarrow> operation_intent \<Rightarrow> py_exn option" where
  "intent_outcome_guards sq i = seq_raise [
     opt_raise (oi_outcome_schema_version i) (\<lambda>v. when_raise (v \<noteq> 1)
       (ValueError (''unsupported operation outcome schema: '' @ int_str v))),
     (case oi_outcome i of
        Some p \<Rightarrow> seq_raise [validate_durable_payload sq (PDict p),
          when_raise (oi_outcome_schema_version i = None) (ValueError ''an outcome requires its schema version'')]
      | None \<Rightarrow> when_raise (oi_outcome_schema_version i \<noteq> None) (ValueError ''an outcome schema requires an outcome'')),
     when_raise (oi_status i \<noteq> Op_SUCCEEDED \<and> (oi_outcome i \<noteq> None \<or> oi_outcome_schema_version i \<noteq> None))
       (ValueError ''only succeeded operation intents may contain an outcome'')]"

definition intent_time_guards :: "operation_intent \<Rightarrow> py_exn option" where
  "intent_time_guards i = each_raise [
     (oi_created_at i, ''operation creation time''), (oi_updated_at i, ''operation update time''),
     (oi_started_at i, ''operation start time''), (oi_completed_at i, ''operation completion time''),
     (oi_execution_lease_expires_at i, ''operation execution lease expiry'')]
     (\<lambda>(v, name). opt_raise v (\<lambda>t. aware t name))"

definition intent_status_guards :: "operation_intent \<Rightarrow> py_exn option" where
  "intent_status_guards i = seq_raise [
     when_raise (oi_status i = Op_SUCCEEDED \<and> oi_completed_at i = None) (ValueError ''succeeded operation intents require completion time''),
     when_raise (oi_status i = Op_SUCCEEDED \<and> oi_outcome i = None) (ValueError ''succeeded operation intents require an outcome''),
     when_raise (oi_status i \<in> {Op_SUCCEEDED, Op_FAILED} \<and>
        (oi_execution_owner i \<noteq> None \<or> oi_execution_lease_expires_at i \<noteq> None))
       (ValueError ''terminal operation intents cannot retain an execution lease''),
     when_raise (oi_status i = Op_FAILED \<and> oi_completed_at i = None) (ValueError ''failed operation intents require completion time''),
     when_raise (oi_status i = Op_FAILED \<and> falsy (oi_error i)) (ValueError ''failed operation intents require an error''),
     when_raise (oi_status i \<in> {Op_PENDING, Op_NEEDS_RECONCILIATION} \<and> oi_completed_at i \<noteq> None)
       (ValueError ''unresolved operation intents cannot be completed'')]"

definition operation_intent_validate :: "bool \<Rightarrow> operation_intent \<Rightarrow> py_exn option" where
  "operation_intent_validate sq i = seq_raise [
     operation_request_validate sq (intent_request i),
     when_raise (oi_attempt i < 0) (ValueError ''operation attempt must be nonnegative''),
     intent_lease_guards i,
     intent_outcome_guards sq i,
     validate_durable_error sq (oi_error i) ''operation error'',
     intent_time_guards i,
     intent_status_guards i]"

definition operation_intent_make :: "bool \<Rightarrow> operation_intent \<Rightarrow> operation_intent result" where
  "operation_intent_make sq i = raising (operation_intent_validate sq i)
     (i\<lparr> oi_request_payload := freeze_dict (oi_request_payload i), oi_outcome := map_option freeze_dict (oi_outcome i) \<rparr>)"

definition to_outcome :: "bool \<Rightarrow> operation_intent \<Rightarrow> operation_outcome result" where
  "to_outcome sq i = (if oi_status i \<noteq> Op_SUCCEEDED then Inl (ValueError ''only succeeded intents have outcomes'')
     else operation_outcome_make sq \<lparr> oo_remote_resource_id = oi_remote_resource_id i,
       oo_payload = (case oi_outcome i of None \<Rightarrow> [] | Some p \<Rightarrow> p), oo_status = oi_status i, oo_error = None,
       oo_outcome_schema_version = (case oi_outcome_schema_version i of None \<Rightarrow> 1 | Some v \<Rightarrow> if v = 0 then 1 else v) \<rparr>)"

section \<open>Leases and scheduling\<close>

definition validate_lease_seconds :: "pyval \<Rightarrow> py_exn option" where
  "validate_lease_seconds v = when_raise (case v of
       PInt n \<Rightarrow> n < 1 \<or> 86400 < n
     | PFloat (Finite q) \<Rightarrow> q < 1 \<or> 86400 < q
     | _ \<Rightarrow> True) (ValueError ''lease duration must be at least 1 second and at most 86400 seconds'')"

datatype task_schedule_state = Sched_QUEUED | Sched_LEASED | Sched_BLOCKED | Sched_RECONCILING | Sched_TERMINAL

record scheduler_capacity_policy =
  cap_version :: int
  cap_global_limit :: int
  cap_run_limit :: int
  cap_provider_limit :: int

definition scheduler_capacity_policy_make :: "scheduler_capacity_policy \<Rightarrow> scheduler_capacity_policy result" where
  "scheduler_capacity_policy_make p = raising (seq_raise [
     when_raise (cap_version p < 1) (ValueError ''capacity policy version must be an integer >= 1''),
     each_raise [cap_global_limit p, cap_run_limit p, cap_provider_limit p]
       (\<lambda>n. when_raise (n < 1) (ValueError ''capacity limits must be integers >= 1''))]) p"

record schedule_task =
  st_run_id :: uuid
  st_task_id :: uuid
  st_worktree_id :: string
  st_owned_paths :: "string list"
  st_parent_task_id :: "uuid option"
  st_dependency_task_ids :: "uuid list"
  st_read_only :: bool
  st_max_repairs :: int

definition schedule_task_make :: "bool \<Rightarrow> schedule_task \<Rightarrow> schedule_task result" where
  "schedule_task_make nt t = raising (seq_raise [
     when_raise (st_run_id t = 0 \<or> st_task_id t = 0) (ValueError ''run_id and task_id must not be nil''),
     when_raise (blank (st_worktree_id t)) (ValueError ''worktree_id must not be blank''),
     when_raise (st_max_repairs t < 0) (ValueError ''max_repairs must be non-negative'')])
     (t\<lparr> st_owned_paths := map (policy_path_key nt) (st_owned_paths t) \<rparr>)"

record task_lease =
  tl_run_id :: uuid
  tl_task_id :: uuid
  tl_owner :: string
  tl_generation :: int
  tl_expires_at :: datetime

definition task_lease_make :: "task_lease \<Rightarrow> task_lease result" where
  "task_lease_make l = raising (when_raise (blank (tl_owner l) \<or> tl_generation l < 1)
     (ValueError ''lease owner and generation are required'')) l"

record task_effect_lease =
  te_effect_id :: uuid
  te_task_lease :: task_lease
  te_candidate_epoch :: int

definition task_effect_lease_make :: "task_effect_lease \<Rightarrow> task_effect_lease result" where
  "task_effect_lease_make l = raising (when_raise (te_effect_id l = 0 \<or> te_candidate_epoch l < 0)
     (ValueError ''effect identity and candidate epoch are required'')) l"

section \<open>Lemmas\<close>

declare validate_durable_payload.simps [simp del]

lemma freeze_dict_PDict: "PDict (freeze_dict kvs) = freeze (PDict kvs)"
  by (simp add: freeze_dict_def)

lemma freeze_dict_idem [simp]: "freeze_dict (freeze_dict kvs) = freeze_dict kvs"
  by (metis freeze_dict_PDict freeze_idem pyval.inject(7))

lemma validate_freeze_dict [simp]:
  "validate_durable_payload sq (PDict (freeze_dict kvs)) = validate_durable_payload sq (PDict kvs)"
  by (simp only: freeze_dict_PDict validate_freeze)

lemma sort_key_canonicalize:
  "sort_key fst (map (\<lambda>kv. (fst kv, f (snd kv))) kvs) = map (\<lambda>kv. (fst kv, f (snd kv))) (sort_key fst kvs)"
  using sort_key_map_snd [of f kvs] by (simp add: split_def)

lemma dumps_canonicalize: "dumps enc (canonicalize v) = dumps enc v"
proof (induction v rule: canonicalize.induct)
  case (1 kvs)
  let ?f = "\<lambda>kv. (fst kv, canonicalize (snd kv))"
  have s: "sort_key fst (sort_key fst (map ?f kvs)) = map ?f (sort_key fst kvs)"
    by (simp add: sort_key_id_if_sorted sort_key_canonicalize)
  have "map (\<lambda>(k, v). json_string (enc_ascii enc) k @ '':'' @ dumps enc v) (map ?f (sort_key fst kvs)) =
      map (\<lambda>(k, v). json_string (enc_ascii enc) k @ '':'' @ dumps enc v) (sort_key fst kvs)"
    using 1 by (auto simp: split_def)
  with s show ?case by (simp only: canonicalize.simps dumps.simps)
next
  case (2 xs)
  then have "map (\<lambda>x. dumps enc (canonicalize x)) xs = map (dumps enc) xs" by simp
  then show ?case by (simp only: canonicalize.simps dumps.simps map_map comp_def)
next
  case (3 xs)
  then have "map (\<lambda>x. dumps enc (canonicalize x)) xs = map (dumps enc) xs" by simp
  then show ?case by (simp only: canonicalize.simps dumps.simps map_map comp_def)
qed simp_all

lemma canonical_payload_Inr:
  "canonical_payload sq frepr v = Inr t \<longleftrightarrow> validate_durable_payload sq (PDict v) = None \<and>
     t = dumps \<lparr> enc_ascii = True, enc_float = frepr \<rparr> (PDict v)"
  by (simp add: canonical_payload_def del: thaw_payload.simps dumps.simps)

lemma intent_make_valid:
  assumes "operation_intent_make sq i = Inr j"
  shows "operation_intent_validate sq j = None \<and> operation_intent_make sq j = Inr j"
proof -
  from assms have v: "operation_intent_validate sq i = None"
    and j: "j = i\<lparr> oi_request_payload := freeze_dict (oi_request_payload i), oi_outcome := map_option freeze_dict (oi_outcome i) \<rparr>"
    by (simp_all add: operation_intent_make_def)
  have r: "operation_request_validate sq (intent_request j) = operation_request_validate sq (intent_request i)"
    by (simp add: j operation_request_validate_def intent_request_def)
  have out: "intent_outcome_guards sq j = intent_outcome_guards sq i"
    by (cases "oi_outcome i") (simp_all add: j intent_outcome_guards_def)
  have "intent_lease_guards j = intent_lease_guards i" "intent_time_guards j = intent_time_guards i"
    "intent_status_guards j = intent_status_guards i"
    by (simp_all add: j intent_lease_guards_def intent_time_guards_def intent_status_guards_def)
  then have "operation_intent_validate sq j = operation_intent_validate sq i"
    unfolding operation_intent_validate_def r out by (simp add: j)
  with v have "operation_intent_validate sq j = None" by simp
  moreover have "j\<lparr> oi_request_payload := freeze_dict (oi_request_payload j), oi_outcome := map_option freeze_dict (oi_outcome j) \<rparr> = j"
    by (simp add: j option.map_comp comp_def)
  ultimately show ?thesis by (simp add: operation_intent_make_def)
qed

text \<open>The life cycle a validated intent is in.\<close>

definition intent_lifecycle :: "operation_intent \<Rightarrow> bool" where
  "intent_lifecycle i = (case oi_status i of
       Op_SUCCEEDED \<Rightarrow> oi_completed_at i \<noteq> None \<and> oi_outcome i \<noteq> None \<and> oi_outcome_schema_version i = Some 1 \<and>
         oi_execution_owner i = None \<and> oi_execution_lease_expires_at i = None
     | Op_FAILED \<Rightarrow> oi_completed_at i \<noteq> None \<and> oi_outcome i = None \<and> oi_outcome_schema_version i = None \<and>
         (\<exists>e. oi_error i = Some e \<and> e \<noteq> []) \<and> oi_execution_owner i = None \<and> oi_execution_lease_expires_at i = None
     | _ \<Rightarrow> oi_completed_at i = None \<and> oi_outcome i = None \<and> oi_outcome_schema_version i = None \<and>
         (oi_execution_owner i = None \<longleftrightarrow> oi_execution_lease_expires_at i = None))"

lemma intent_valid_lifecycle:
  assumes "operation_intent_validate sq i = None"
  shows "intent_lifecycle i"
proof -
  from assms have l: "intent_lease_guards i = None" and o: "intent_outcome_guards sq i = None"
    and s: "intent_status_guards i = None" by (simp_all add: operation_intent_validate_def)
  show ?thesis
    using l o s by (cases "oi_status i"; cases "oi_outcome i"; cases "oi_outcome_schema_version i")
      (auto simp: intent_lifecycle_def intent_lease_guards_def intent_outcome_guards_def intent_status_guards_def)
qed

lemma intent_to_outcome:
  assumes "operation_intent_validate sq i = None" and "oi_status i = Op_SUCCEEDED"
  shows "(\<exists>o'. to_outcome sq i = Inr o') \<longleftrightarrow> (\<forall>s. oi_remote_resource_id i = Some s \<longrightarrow> length s \<le> 1024)"
proof -
  from intent_valid_lifecycle [OF assms(1)] assms(2) obtain p where p: "oi_outcome i = Some p"
    "oi_outcome_schema_version i = Some 1" by (auto simp: intent_lifecycle_def)
  with assms(1) have "validate_durable_payload sq (PDict p) = None"
    by (auto simp: operation_intent_validate_def intent_outcome_guards_def)
  with p assms(2) show ?thesis
    by (auto simp: to_outcome_def operation_outcome_make_def validate_durable_error_def not_less)
qed

section \<open>Properties\<close>

text \<open>An operation intent that was constructed is in exactly one stage of its life cycle (a settled success with
  outcome and completion time and no lease, a failure with an error and no outcome, or an unresolved
  intent whose lease has both an owner and an expiry or neither); rebuilding it from its own fields
  gives it back; and a success yields its outcome exactly when its remote identifier has at most
  1024 characters.\<close>

theorem operation_intent_lifecycle:
  assumes "operation_intent_make sq i = Inr j"
  shows "intent_lifecycle j \<and> operation_intent_make sq j = Inr j \<and>
     (oi_status j = Op_SUCCEEDED \<longrightarrow> ((\<exists>o'. to_outcome sq j = Inr o') \<longleftrightarrow>
        (\<forall>s. oi_remote_resource_id j = Some s \<longrightarrow> length s \<le> 1024)))"
  using intent_make_valid [OF assms] intent_valid_lifecycle intent_to_outcome by blast

definition sample_intent :: operation_intent where
  "sample_intent = \<lparr> oi_id = 1, oi_run_id = 2, oi_kind = ''push'', oi_idempotency_key = ''k'',
     oi_request_digest = replicate 64 (CHR ''a''), oi_request_payload = [], oi_status = Op_SUCCEEDED,
     oi_remote_resource_id = None, oi_attempt = 1, oi_created_at = None, oi_updated_at = None, oi_started_at = None,
     oi_completed_at = Some (Aware 5), oi_outcome = Some [(''n'', PInt 3)], oi_error = None,
     oi_request_schema_version = 1, oi_outcome_schema_version = Some 1, oi_execution_owner = None,
     oi_execution_lease_expires_at = None \<rparr>"

theorem operation_intent_lifecycle_witness:
  "\<exists>j. operation_intent_make True sample_intent = Inr j \<and> (\<exists>o'. to_outcome True j = Inr o')"
proof -
  have "operation_intent_validate True sample_intent = None" by code_simp
  then obtain j where j: "operation_intent_make True sample_intent = Inr j" by (simp add: operation_intent_make_def)
  then have "oi_status j = Op_SUCCEEDED" "oi_remote_resource_id j = None"
    by (auto simp: operation_intent_make_def sample_intent_def)
  with j operation_intent_lifecycle [OF j] show ?thesis by auto
qed

text \<open>The idempotency digest of a request identifies its payload: payloads that differ only in key order or in
  list against tuple have the same digest, and float-free payloads with the same digest are equal up
  to that, or their canonical texts are a collision of SHA-256.\<close>

theorem request_digest_identifies_payload:
  assumes "canonical_digest sq frepr a = Inr d" and "canonical_digest sq frepr b = Inr d'"
    and "plain_json (PDict a)" and "plain_json (PDict b)"
  shows "(canonicalize (PDict a) = canonicalize (PDict b) \<longrightarrow> d = d') \<and>
     (d = d' \<longrightarrow> canonicalize (PDict a) = canonicalize (PDict b) \<or>
        (\<exists>x y. canonical_payload sq frepr a = Inr x \<and> canonical_payload sq frepr b = Inr y \<and> utf8_encode x \<noteq> utf8_encode y \<and>
           sha256_hexdigest (utf8_encode x) = sha256_hexdigest (utf8_encode y)))"
proof -
  let ?e = "\<lparr> enc_ascii = True, enc_float = frepr \<rparr>"
  obtain x y where x: "canonical_payload sq frepr a = Inr x" "d = sha256_hexdigest (utf8_encode x)"
    and y: "canonical_payload sq frepr b = Inr y" "d' = sha256_hexdigest (utf8_encode y)"
    using assms(1,2) by (auto simp: canonical_digest_def ebind_Inr)
  have xe: "x = dumps ?e (canonicalize (PDict a))" and ye: "y = dumps ?e (canonicalize (PDict b))"
    using x(1) y(1) unfolding canonical_payload_Inr by (simp_all only: dumps_canonicalize)
  have "canonicalize (PDict a) = canonicalize (PDict b)" if "utf8_encode x = utf8_encode y"
    using utf8_encode_inj [OF that] xe ye dumps_canonicalize_inj [OF _ assms(3,4)] by metis
  then show ?thesis using x y xe ye by metis
qed

theorem request_digest_identifies_payload_witness:
  "\<exists>d. canonical_digest True (\<lambda>_. []) [(''a'', PInt 1), (''b'', PTuple [PNone])] = Inr d \<and>
       canonical_digest True (\<lambda>_. []) [(''b'', PList [PNone]), (''a'', PInt 1)] = Inr d"
proof -
  let ?a = "[(''a'', PInt 1), (''b'', PTuple [PNone])]" and ?b = "[(''b'', PList [PNone]), (''a'', PInt 1)]"
  have "validate_durable_payload True (PDict ?a) = None" "validate_durable_payload True (PDict ?b) = None" by code_simp+
  then obtain d d' where d: "canonical_digest True (\<lambda>_. []) ?a = Inr d" "canonical_digest True (\<lambda>_. []) ?b = Inr d'"
    by (auto simp: canonical_digest_def canonical_payload_def)
  have "canonicalize (PDict ?a) = canonicalize (PDict ?b)" by code_simp
  with request_digest_identifies_payload [OF d] d show ?thesis by auto
qed

text \<open>A constructed command holds a lease exactly while it is leased and a completion time exactly once it is
  terminal, carries no credential in its payload or error summary, and rebuilding it gives it back.\<close>

theorem command_envelope_lifecycle:
  assumes "command_envelope_make sq c = Inr d"
  shows "(ce_status d = Cmd_LEASED \<longleftrightarrow> ce_lease_owner d \<noteq> None) \<and> (ce_status d = Cmd_LEASED \<longleftrightarrow> ce_lease_expires_at d \<noteq> None) \<and>
     (ce_status d \<in> {Cmd_COMPLETED, Cmd_FAILED, Cmd_CANCELLED} \<longleftrightarrow> ce_completed_at d \<noteq> None) \<and>
     payload_ok sq (PDict (ce_payload d)) \<and> (\<forall>e. ce_error_summary d = Some e \<longrightarrow> \<not> contains_credential sq e) \<and>
     command_envelope_make sq d = Inr d"
proof -
  from assms have v: "command_envelope_validate sq c = None" and d: "d = c\<lparr> ce_payload := freeze_dict (ce_payload c) \<rparr>"
    by (simp_all add: command_envelope_make_def)
  have "command_envelope_validate sq d = command_envelope_validate sq c"
    by (simp add: d command_envelope_validate_def)
  with v have "command_envelope_validate sq d = None" by simp
  moreover have "d\<lparr> ce_payload := freeze_dict (ce_payload d) \<rparr> = d" by (simp add: d)
  ultimately have make: "command_envelope_make sq d = Inr d" and vd: "command_envelope_validate sq d = None"
    by (simp_all add: command_envelope_make_def)
  have "payload_ok sq (PDict (ce_payload d))"
    using vd validate_payload_ok by (simp add: command_envelope_validate_def)
  moreover have "\<forall>e. ce_error_summary d = Some e \<longrightarrow> \<not> contains_credential sq e"
    using vd by (auto simp: command_envelope_validate_def validate_durable_error_def)
  moreover have "(ce_status d = Cmd_LEASED \<longleftrightarrow> ce_lease_owner d \<noteq> None) \<and> (ce_status d = Cmd_LEASED \<longleftrightarrow> ce_lease_expires_at d \<noteq> None) \<and>
     (ce_status d \<in> {Cmd_COMPLETED, Cmd_FAILED, Cmd_CANCELLED} \<longleftrightarrow> ce_completed_at d \<noteq> None)"
    using vd by (cases "ce_status d") (auto simp: command_envelope_validate_def)
  ultimately show ?thesis using make by blast
qed

definition sample_command_envelope :: command_envelope where
  "sample_command_envelope = \<lparr> ce_id = 1, ce_run_id = 2, ce_command_type = ''plan'', ce_idempotency_key = ''k'', ce_payload = [],
     ce_status = Cmd_LEASED, ce_expected_run_version = 0, ce_actor_id = None, ce_payload_schema_version = 1, ce_attempt = 1,
     ce_available_at = Aware 0, ce_lease_owner = Some ''w'', ce_lease_expires_at = Some (Aware 9), ce_created_at = None,
     ce_completed_at = None, ce_error_summary = None \<rparr>"

theorem command_envelope_lifecycle_witness:
  "\<exists>d. command_envelope_make True sample_command_envelope = Inr d \<and> ce_lease_owner d \<noteq> None \<and> command_envelope_make True d = Inr d"
proof -
  have "command_envelope_validate True sample_command_envelope = None" by code_simp
  then obtain d where d: "command_envelope_make True sample_command_envelope = Inr d" by (simp add: command_envelope_make_def)
  then have "ce_status d = Cmd_LEASED" by (auto simp: command_envelope_make_def sample_command_envelope_def)
  with d command_envelope_lifecycle [OF d] show ?thesis by blast
qed

end
