(* ===== verification/Forge_Epic.thy ===== *)
theory Forge_Epic
  imports Forge_Graph Forge_Operation
begin

text \<open>
  \<^verbatim>\<open>domain/epic_items.py\<close>: the work-item graphs of an epic. A graph revision is validated
  (acyclic, and for adoption with no required item behind a deferred one), snapshotted in a canonical
  order under a content digest, and projected to the structural readiness of its items.
  \<^verbatim>\<open>GraphValidationError\<close> is a \<^verbatim>\<open>ValueError\<close>. The digested content holds no
  floats, so the float text of the JSON encoder is immaterial there.
\<close>

section \<open>Items\<close>

datatype disposition = Required | Deferred

fun disposition_str :: "disposition \<Rightarrow> string" where
  "disposition_str Required = ''required''"
| "disposition_str Deferred = ''deferred''"

record item_input =
  ii_item_id :: uuid
  ii_disposition :: disposition
  ii_ordinal :: int
  ii_title :: string
  ii_outcome :: string
  ii_acceptance_criteria :: "string list"
  ii_source_requirement_ids :: "uuid list"
  ii_dependency_item_ids :: "uuid list"

record item_snapshot = item_input +
  is_graph_revision_id :: uuid
  is_item_digest :: string

definition graph_text :: "bool \<Rightarrow> string \<Rightarrow> nat \<Rightarrow> bool \<Rightarrow> py_exn option" where
  "graph_text sq v maximum bytes_limit = seq_raise [
     when_raise (blank v \<or> CHR 0x00 \<in> set v \<or> maximum < (if bytes_limit then utf8_length v else length v))
       (ValueError ''graph text is invalid''),
     validate_durable_payload sq (PStr v)]"

definition graph_digest_check :: "string \<Rightarrow> py_exn option" where
  "graph_digest_check v = when_raise (\<not> is_digest64 v) (ValueError ''graph digest is invalid'')"

definition item_input_validate :: "bool \<Rightarrow> 'a item_input_scheme \<Rightarrow> py_exn option" where
  "item_input_validate sq i = seq_raise [
     when_raise (ii_ordinal i < 0) (ValueError ''ordinal''),
     graph_text sq (ii_title i) 256 True,
     graph_text sq (ii_outcome i) 5000 False,
     when_raise (length (ii_acceptance_criteria i) < 1 \<or> 64 < length (ii_acceptance_criteria i)) (ValueError ''acceptance_criteria''),
     each_raise (ii_acceptance_criteria i) (\<lambda>c. graph_text sq c 5000 False),
     when_raise (length (ii_source_requirement_ids i) < 1 \<or> 64 < length (ii_source_requirement_ids i)) (ValueError ''source_requirement_ids''),
     when_raise (128 < length (ii_dependency_item_ids i)) (ValueError ''dependency_item_ids''),
     when_raise (\<not> distinct (ii_source_requirement_ids i) \<or> \<not> distinct (ii_dependency_item_ids i))
       (ValueError ''duplicate graph reference'')]"

section \<open>Requests and records\<close>

record graph_revision_create_request =
  gc_schema_version :: int
  gc_expected_epic_version :: int
  gc_brief_revision_id :: uuid
  gc_brief_digest :: string
  gc_items :: "item_input list"

definition graph_create_request_validate :: "bool \<Rightarrow> graph_revision_create_request \<Rightarrow> py_exn option" where
  "graph_create_request_validate sq r = seq_raise [
     when_raise (gc_schema_version r \<noteq> 1) (ValueError ''schema_version''),
     when_raise (gc_expected_epic_version r < 1) (ValueError ''expected_epic_version''),
     graph_digest_check (gc_brief_digest r),
     each_raise (gc_items r) (item_input_validate sq),
     when_raise (128 < length (gc_items r)) (ValueError ''items'')]"

record graph_adoption_request =
  ga_schema_version :: int
  ga_expected_epic_version :: int
  ga_graph_revision_id :: uuid
  ga_graph_digest :: string

definition graph_adoption_request_validate :: "graph_adoption_request \<Rightarrow> py_exn option" where
  "graph_adoption_request_validate r = seq_raise [
     when_raise (ga_schema_version r \<noteq> 1) (ValueError ''schema_version''),
     when_raise (ga_expected_epic_version r < 1) (ValueError ''expected_epic_version''),
     graph_digest_check (ga_graph_digest r)]"

definition item_snapshot_validate :: "bool \<Rightarrow> item_snapshot \<Rightarrow> py_exn option" where
  "item_snapshot_validate sq s = seq_raise [item_input_validate sq s, graph_digest_check (is_item_digest s)]"

record graph_revision_record =
  gr_schema_version :: int
  gr_graph_revision_id :: uuid
  gr_epic_id :: uuid
  gr_brief_revision_id :: uuid
  gr_brief_digest :: string
  gr_revision_number :: int
  gr_epic_version :: int
  gr_graph_digest :: string
  gr_items :: "item_snapshot list"
  gr_created_at :: datetime

definition graph_revision_record_validate :: "bool \<Rightarrow> graph_revision_record \<Rightarrow> py_exn option" where
  "graph_revision_record_validate sq r = seq_raise [
     when_raise (gr_schema_version r \<noteq> 1) (ValueError ''schema_version''),
     graph_digest_check (gr_brief_digest r),
     when_raise (gr_revision_number r < 1) (ValueError ''revision_number''),
     when_raise (gr_epic_version r < 1) (ValueError ''epic_version''),
     graph_digest_check (gr_graph_digest r),
     each_raise (gr_items r) (item_snapshot_validate sq)]"

record accepted_graph =
  ag_schema_version :: int
  ag_epic_id :: uuid
  ag_brief_revision_id :: uuid
  ag_brief_digest :: string
  ag_graph_revision_id :: uuid
  ag_graph_digest :: string
  ag_items :: "item_snapshot list"

definition accepted_graph_validate :: "bool \<Rightarrow> accepted_graph \<Rightarrow> py_exn option" where
  "accepted_graph_validate sq r = seq_raise [
     when_raise (ag_schema_version r \<noteq> 1) (ValueError ''schema_version''),
     each_raise (ag_items r) (item_snapshot_validate sq)]"

section \<open>Validation\<close>

abbreviation graph_error :: "string \<Rightarrow> py_exn" where
  "graph_error msg \<equiv> ValueError msg"

definition indexed_items :: "'a item_input_scheme list \<Rightarrow> (uuid, 'a item_input_scheme) dict" where
  "indexed_items items = dict_build ii_item_id (\<lambda>i. i) items []"

text \<open>The dictionaries \<^verbatim>\<open>dependents\<close> and \<^verbatim>\<open>remaining\<close> of the topological count.\<close>

definition graph_tables :: "'a item_input_scheme list \<Rightarrow> ((uuid, uuid list) dict \<times> (uuid, int) dict) result" where
  "graph_tables items = (let indexed = indexed_items items in
     ebind (link_items ii_item_id ii_dependency_item_ids items (map (\<lambda>kv. (fst kv, [])) indexed)) (\<lambda>dependents.
       Inr (dependents, map (\<lambda>kv. (fst kv, int (length (ii_dependency_item_ids (snd kv))))) indexed)))"

definition validate_acyclic :: "'a item_input_scheme list \<Rightarrow> py_exn option" where
  "validate_acyclic items = (case graph_tables items of
       Inl e \<Rightarrow> Some e
     | Inr (dependents, remaining) \<Rightarrow>
         (case kahn_loop dependents (zero_keys remaining) remaining 0 of
            Inl e \<Rightarrow> Some e
          | Inr visited \<Rightarrow> when_raise (visited \<noteq> length items) (graph_error ''graph contains cycle'')))"

definition validate_adoption :: "'a item_input_scheme list \<Rightarrow> py_exn option" where
  "validate_adoption items = each_raise items (\<lambda>item.
     if ii_disposition item \<noteq> Required then None
     else reach_search (indexed_items items) ii_dependency_item_ids (\<lambda>t. ii_disposition t = Deferred)
       (graph_error ''required item depends on deferred item'') [] (ii_dependency_item_ids item))"

definition validate_graph :: "'a item_input_scheme list \<Rightarrow> bool \<Rightarrow> py_exn option" where
  "validate_graph items adoption = seq_raise [
     when_raise (128 < length items \<or> (adoption \<and> items = [])) (graph_error ''graph item count is invalid''),
     when_raise (length (indexed_items items) \<noteq> length items) (graph_error ''duplicate graph item''),
     each_raise items (\<lambda>item. when_raise
       (ii_item_id item \<in> set (ii_dependency_item_ids item) \<or>
        (\<exists>dep \<in> set (ii_dependency_item_ids item). dep \<notin> set (map fst (indexed_items items))))
       (graph_error ''graph edge is invalid'')),
     validate_acyclic items,
     (if adoption then validate_adoption items else None)]"

section \<open>Snapshots and readiness\<close>

definition item_order :: "'a item_input_scheme \<Rightarrow> int \<times> string" where
  "item_order i = (ii_ordinal i, uuid_str (ii_item_id i))"

definition item_payload :: "item_input \<Rightarrow> (string, pyval) dict" where
  "item_payload i = [
     (''schema_version'', PInt 1), (''item_id'', PStr (uuid_str (ii_item_id i))),
     (''disposition'', PStr (disposition_str (ii_disposition i))), (''ordinal'', PInt (ii_ordinal i)),
     (''title'', PStr (ii_title i)), (''outcome'', PStr (ii_outcome i)),
     (''acceptance_criteria'', PList (map PStr (ii_acceptance_criteria i))),
     (''source_requirement_ids'', PList (map PStr (sort (map uuid_str (ii_source_requirement_ids i))))),
     (''dependency_item_ids'', PList (map PStr (sort (map uuid_str (ii_dependency_item_ids i)))))]"

definition snapshot_json :: "item_snapshot \<Rightarrow> pyval" where
  "snapshot_json i = PDict [
     (''item_id'', PStr (uuid_str (ii_item_id i))), (''disposition'', PStr (disposition_str (ii_disposition i))),
     (''ordinal'', PInt (ii_ordinal i)), (''title'', PStr (ii_title i)), (''outcome'', PStr (ii_outcome i)),
     (''acceptance_criteria'', PList (map PStr (ii_acceptance_criteria i))),
     (''source_requirement_ids'', PList (map (\<lambda>u. PStr (uuid_str u)) (ii_source_requirement_ids i))),
     (''dependency_item_ids'', PList (map (\<lambda>u. PStr (uuid_str u)) (ii_dependency_item_ids i))),
     (''graph_revision_id'', PStr (uuid_str (is_graph_revision_id i))), (''item_digest'', PStr (is_item_digest i))]"

definition item_snapshot_make :: "bool \<Rightarrow> uuid \<Rightarrow> item_input \<Rightarrow> item_snapshot result" where
  "item_snapshot_make sq graph_revision_id i = ebind (canonical_digest sq (\<lambda>_. []) (item_payload i)) (\<lambda>digest.
     let s = item_input.extend (i\<lparr> ii_source_requirement_ids := sort_key uuid_str (ii_source_requirement_ids i),
               ii_dependency_item_ids := sort_key uuid_str (ii_dependency_item_ids i) \<rparr>)
             (item_snapshot.fields graph_revision_id digest)
     in raising (item_snapshot_validate sq s) s)"

definition make_snapshot ::
  "bool \<Rightarrow> uuid \<Rightarrow> item_input list \<Rightarrow> uuid \<Rightarrow> string \<Rightarrow> (item_snapshot list \<times> string) result" where
  "make_snapshot sq graph_revision_id items brief_revision_id brief_digest =
     (case validate_graph items False of
        Some e \<Rightarrow> Inl e
      | None \<Rightarrow> ebind (emap (item_snapshot_make sq graph_revision_id) (sort_key item_order items)) (\<lambda>snapshots.
          let content = [(''schema_version'', PInt 1), (''brief_revision_id'', PStr (uuid_str brief_revision_id)),
                (''brief_digest'', PStr brief_digest), (''items'', PList (map snapshot_json snapshots))] in
          (case validate_durable_payload sq (PDict content) of
             Some e \<Rightarrow> Inl e
           | None \<Rightarrow>
               if 262144 < length (utf8_encode (dumps utf8_json (PDict content)))
               then Inl (graph_error ''graph snapshot is too large'')
               else ebind (canonical_digest sq (\<lambda>_. []) content) (\<lambda>digest. Inr (snapshots, digest)))))"

datatype readiness_status = Ready | Blocked | Status_deferred

record item_readiness =
  ir_item_id :: uuid
  ir_status :: readiness_status
  ir_reason :: string
  ir_dependency_item_ids :: "uuid list"

definition readiness_of :: "'a item_input_scheme \<Rightarrow> item_readiness" where
  "readiness_of item = (let (status, reason) =
       (if ii_disposition item = Deferred then (Status_deferred, ''Explicitly deferred'')
        else if ii_dependency_item_ids item \<noteq> [] then (Blocked, ''Pending verified prerequisite integration'')
        else (Ready, ''Structurally ready; execution eligibility is checked separately''))
     in \<lparr> ir_item_id = ii_item_id item, ir_status = status, ir_reason = reason,
          ir_dependency_item_ids = ii_dependency_item_ids item \<rparr>)"

definition project_readiness :: "'a item_input_scheme list \<Rightarrow> item_readiness list" where
  "project_readiness items = map readiness_of (sort_key item_order items)"

section \<open>The graph component meets the interface\<close>

lemma length_dict_build_iff: "length (dict_build k v xs []) = length xs \<longleftrightarrow> distinct (map k xs)"
proof -
  have "distinct (map fst (dict_build k v xs []))" by (rule dict_build_distinct_keys) simp
  then have "length (dict_build k v xs []) = card (set (map fst (dict_build k v xs [])))"
    by (metis distinct_card length_map)
  also have "\<dots> = card (set (map k xs))" using dict_build_dom [of k v xs "[]"] by simp
  finally show ?thesis by (metis card_distinct distinct_card length_map)
qed

lemma indexed_items_distinct:
  "distinct (map ii_item_id items) \<Longrightarrow> indexed_items items = map (\<lambda>i. (ii_item_id i, i)) items"
  unfolding indexed_items_def by (subst dict_build_fresh) auto

lemma indexed_keys: "set (map fst (indexed_items items)) = ii_item_id ` set items"
  using dict_build_dom [of ii_item_id "\<lambda>i. i" items "[]"] by (simp add: indexed_items_def)

lemma map_of_indexed:
  assumes "distinct (map ii_item_id items)"
  shows "map_of (indexed_items items) k = Some t \<longleftrightarrow> t \<in> set items \<and> ii_item_id t = k"
proof -
  have "distinct (map fst (map (\<lambda>i. (ii_item_id i, i)) items))" using assms by (simp add: comp_def)
  then show ?thesis unfolding indexed_items_distinct [OF assms] by (auto simp: map_of_eq_Some_iff)
qed

lemma graph_tables_ok:
  assumes shape: "graph_shape ii_item_id ii_dependency_item_ids items"
  shows "\<exists>dp rm. graph_tables items = Inr (dp, rm) \<and>
     tables_ok (map ii_item_id items) (deps_of ii_item_id ii_dependency_item_ids items) dp rm"
proof -
  have dist: "distinct (map ii_item_id items)" using shape by (simp add: graph_shape_def)
  note idx = indexed_items_distinct [OF dist]
  let ?empty = "map (\<lambda>kv. (fst kv, [])) (indexed_items items) :: (uuid, uuid list) dict"
  have emp: "map_of ?empty k = (if k \<in> set (map ii_item_id items) then Some [] else None)" for k
    unfolding idx by (induction items) auto
  then have "dom (map_of ?empty) = set (map ii_item_id items)" by (auto simp: dom_def)
  with shape link_items_result [of items ii_dependency_item_ids ?empty ii_item_id] obtain dp where
    dp: "link_items ii_item_id ii_dependency_item_ids items ?empty = Inr dp"
    and m: "\<forall>k. map_of dp k = map_option (\<lambda>l. l @ concat (map (\<lambda>x. replicate (count_list (ii_dependency_item_ids x) k) (ii_item_id x)) items)) (map_of ?empty k)"
    by (auto simp: graph_shape_def)
  let ?rm = "map (\<lambda>kv. (fst kv, int (length (ii_dependency_item_ids (snd kv))))) (indexed_items items)"
  have "tables_ok (map ii_item_id items) (deps_of ii_item_id ii_dependency_item_ids items) dp ?rm"
  proof (rule tables_from_links [OF shape])
    show "\<forall>k. map_of dp k = (if k \<in> set (map ii_item_id items)
       then Some (concat (map (\<lambda>x. replicate (count_list (ii_dependency_item_ids x) k) (ii_item_id x)) items)) else None)"
      using m emp by simp
    show d: "distinct (map fst ?rm)" using dist by (simp add: idx comp_def)
    show "dom (map_of ?rm) = set (map ii_item_id items)" by (simp add: dom_map_of_conv_image_fst idx image_image)
    show "\<forall>x \<in> set items. map_of ?rm (ii_item_id x) = Some (int (length (ii_dependency_item_ids x)))"
      using d by (auto simp: map_of_eq_Some_iff idx)
  qed
  with dp show ?thesis by (simp add: graph_tables_def)
qed

interpretation epic_graph: dependency_graph ii_item_id ii_dependency_item_ids graph_tables
  by unfold_locales (rule graph_tables_ok)

section \<open>What validation accepts\<close>

abbreviation graph_edges :: "'a item_input_scheme list \<Rightarrow> (uuid \<times> uuid) set" where
  "graph_edges items \<equiv> item_edges ii_item_id ii_dependency_item_ids items"

text \<open>The specification: at most 128 items with distinct identifiers, closed under dependencies and
  acyclic; for adoption also non-empty, and no required item has a deferred one upstream.\<close>

definition acceptable_graph :: "'a item_input_scheme list \<Rightarrow> bool \<Rightarrow> bool" where
  "acceptable_graph items adoption \<longleftrightarrow> length items \<le> 128 \<and> (adoption \<longrightarrow> items \<noteq> []) \<and>
     graph_shape ii_item_id ii_dependency_item_ids items \<and> acyclic (graph_edges items) \<and>
     (adoption \<longrightarrow> (\<forall>r \<in> set items. \<forall>d \<in> set items. ii_disposition r = Required \<longrightarrow> ii_disposition d = Deferred \<longrightarrow>
        (ii_item_id d, ii_item_id r) \<notin> (graph_edges items)\<^sup>+))"

lemma validate_acyclic_exact:
  "graph_shape ii_item_id ii_dependency_item_ids items \<Longrightarrow>
   validate_acyclic items = when_raise (\<not> acyclic (graph_edges items)) (graph_error ''graph contains cycle'')"
  using epic_graph.topological_count [of items] by (auto simp: validate_acyclic_def)

lemma dep_rel_edges:
  assumes "distinct (map ii_item_id items)"
  shows "dep_rel (indexed_items items) ii_dependency_item_ids = (graph_edges items)\<inverse>"
  by (auto simp: dep_rel_def item_edges_def map_of_indexed [OF assms])

lemma hits_upstream:
  assumes "graph_shape ii_item_id ii_dependency_item_ids items" and "r \<in> set items"
  shows "hits (indexed_items items) ii_dependency_item_ids bad (set (ii_dependency_item_ids r)) \<longleftrightarrow>
    (\<exists>t \<in> set items. bad t \<and> (ii_item_id t, ii_item_id r) \<in> (graph_edges items)\<^sup>+)"
proof -
  have d: "distinct (map ii_item_id items)" using assms(1) by (simp add: graph_shape_def)
  have inj: "inj_on ii_item_id (set items)" using d by (simp add: distinct_map)
  have "p \<in> set (ii_dependency_item_ids r) \<longleftrightarrow> (p, ii_item_id r) \<in> graph_edges items" for p
    using inj assms(2) by (auto simp: item_edges_def dest: inj_onD)
  moreover have "(t, ii_item_id r) \<in> (graph_edges items)\<^sup>+ \<longleftrightarrow>
      (\<exists>p. (t, p) \<in> (graph_edges items)\<^sup>* \<and> (p, ii_item_id r) \<in> graph_edges items)" for t
    by (meson rtrancl_into_trancl1 tranclD2)
  ultimately show ?thesis
    unfolding hits_def dep_rel_edges [OF d] rtrancl_converse map_of_indexed [OF d] converse_iff by blast
qed

lemma validate_adoption_exact:
  assumes "graph_shape ii_item_id ii_dependency_item_ids items"
  shows "validate_adoption items = when_raise
    (\<exists>r \<in> set items. \<exists>d \<in> set items. ii_disposition r = Required \<and> ii_disposition d = Deferred \<and>
       (ii_item_id d, ii_item_id r) \<in> (graph_edges items)\<^sup>+)
    (graph_error ''required item depends on deferred item'')" (is "_ = when_raise ?bad ?err")
proof -
  have d: "distinct (map ii_item_id items)" using assms by (simp add: graph_shape_def)
  have dm: "dom (map_of (indexed_items items)) = set (map ii_item_id items)"
    using map_of_indexed [OF d] by (auto simp: dom_def)
  have each: "reach_search (indexed_items items) ii_dependency_item_ids (\<lambda>t. ii_disposition t = Deferred) ?err [] (ii_dependency_item_ids r) =
      when_raise (\<exists>t \<in> set items. ii_disposition t = Deferred \<and> (ii_item_id t, ii_item_id r) \<in> (graph_edges items)\<^sup>+) ?err"
    if "r \<in> set items" for r
  proof -
    have "\<forall>k e. (k, e) \<in> dep_rel (indexed_items items) ii_dependency_item_ids \<longrightarrow> e \<in> dom (map_of (indexed_items items))"
      using assms unfolding dm dep_rel_edges [OF d] by (auto simp: item_edges_def graph_shape_def)
    moreover have "set (ii_dependency_item_ids r) \<subseteq> dom (map_of (indexed_items items))"
      using assms that unfolding dm by (auto simp: graph_shape_def)
    ultimately show ?thesis
      by (subst reach_search_hits) (simp_all add: hits_upstream [OF assms that] when_raise_def)
  qed
  have one: "(if ii_disposition r \<noteq> Required then None else reach_search (indexed_items items) ii_dependency_item_ids
      (\<lambda>t. ii_disposition t = Deferred) ?err [] (ii_dependency_item_ids r)) =
      when_raise (ii_disposition r = Required \<and> (\<exists>t \<in> set items. ii_disposition t = Deferred \<and> (ii_item_id t, ii_item_id r) \<in> (graph_edges items)\<^sup>+)) ?err"
    if "r \<in> set items" for r using each [OF that] by (simp add: when_raise_def)
  have "validate_adoption items = each_raise items (\<lambda>r. when_raise (ii_disposition r = Required \<and>
      (\<exists>t \<in> set items. ii_disposition t = Deferred \<and> (ii_item_id t, ii_item_id r) \<in> (graph_edges items)\<^sup>+)) ?err)"
    unfolding validate_adoption_def using one by (rule each_raise_cong [OF refl])
  also have "\<dots> = when_raise ?bad ?err" unfolding each_raise_when by (rule arg_cong [where f = "\<lambda>b. when_raise b ?err"]) blast
  finally show ?thesis .
qed

text \<open>The whole validation as a sequence of order-independent conditions.\<close>

lemma validate_graph_conditions:
  "validate_graph items adoption = seq_raise [
     when_raise (128 < length items \<or> (adoption \<and> items = [])) (graph_error ''graph item count is invalid''),
     when_raise (\<not> distinct (map ii_item_id items)) (graph_error ''duplicate graph item''),
     when_raise (\<exists>i \<in> set items. ii_item_id i \<in> set (ii_dependency_item_ids i) \<or>
        \<not> set (ii_dependency_item_ids i) \<subseteq> ii_item_id ` set items) (graph_error ''graph edge is invalid''),
     when_raise (\<not> acyclic (graph_edges items)) (graph_error ''graph contains cycle''),
     when_raise (adoption \<and> (\<exists>r \<in> set items. \<exists>d \<in> set items. ii_disposition r = Required \<and> ii_disposition d = Deferred \<and>
        (ii_item_id d, ii_item_id r) \<in> (graph_edges items)\<^sup>+)) (graph_error ''required item depends on deferred item'')]"
  (is "_ = seq_raise [?count, ?dup, ?edge, ?cyc, ?ado]")
proof -
  have dup: "when_raise (length (indexed_items items) \<noteq> length items) (graph_error ''duplicate graph item'') = ?dup"
    by (simp add: indexed_items_def length_dict_build_iff)
  have edge: "each_raise items (\<lambda>item. when_raise
       (ii_item_id item \<in> set (ii_dependency_item_ids item) \<or>
        (\<exists>dep \<in> set (ii_dependency_item_ids item). dep \<notin> set (map fst (indexed_items items))))
       (graph_error ''graph edge is invalid'')) = ?edge"
    unfolding each_raise_when indexed_keys by (rule arg_cong [where f = "\<lambda>b. when_raise b _"]) blast
  show ?thesis
  proof (cases "?dup = None \<and> ?edge = None")
    case True
    then have shape: "graph_shape ii_item_id ii_dependency_item_ids items" by (auto simp: graph_shape_def)
    have "(if adoption then validate_adoption items else None) = ?ado"
      by (simp add: validate_adoption_exact [OF shape])
    then show ?thesis unfolding validate_graph_def dup edge validate_acyclic_exact [OF shape] by simp
  next
    case False
    then show ?thesis unfolding validate_graph_def dup edge by (auto simp: seq_raise_Cons when_raise_def)
  qed
qed

text \<open>C24. Validation of an epic's work-item graph accepts exactly the acceptable graphs: at most 128 items,
  distinct identifiers, dependencies inside the graph, no cycle, and for adoption at least one item and
  no required item that depends, directly or through others, on a deferred one. The loops never look
  up a missing key.\<close>

theorem graph_validation_exact:
  "(validate_graph items adoption = None \<longleftrightarrow> acceptable_graph items adoption) \<and>
   validate_graph items adoption \<noteq> Some (KeyError k)"
proof -
  have "acyclic (graph_edges items) \<Longrightarrow> i \<in> set items \<Longrightarrow> ii_item_id i \<notin> set (ii_dependency_item_ids i)" for i
    by (auto simp: acyclic_def item_edges_def)
  then have "validate_graph items adoption = None \<longleftrightarrow> acceptable_graph items adoption"
    unfolding validate_graph_conditions acceptable_graph_def graph_shape_def by auto
  moreover have "validate_graph items adoption \<noteq> Some (KeyError k)"
    unfolding validate_graph_conditions by (auto simp: when_raise_def dest!: seq_raise_Some_in split: if_splits)
  ultimately show ?thesis by blast
qed

lemma validate_graph_perm: "mset items = mset items' \<Longrightarrow> validate_graph items adoption = validate_graph items' adoption"
proof -
  assume m: "mset items = mset items'"
  then have s: "set items = set items'" "length items = length items'" "items = [] \<longleftrightarrow> items' = []"
    by (metis set_mset_mset, metis size_mset, metis mset_zero_iff_right)
  have "distinct (map ii_item_id items) \<longleftrightarrow> distinct (map ii_item_id items')"
    using m by (metis mset_eq_imp_distinct_iff mset_map)
  then show ?thesis unfolding validate_graph_conditions item_edges_def s by simp
qed

text \<open>A snapshot does not depend on the order in which the items were submitted: the stored item
  sequence, the item digests and the graph digest are the same for every permutation.\<close>

theorem snapshot_order_independent:
  assumes "mset items = mset items'"
  shows "make_snapshot sq revision items brief digest = make_snapshot sq revision items' brief digest"
proof (cases "validate_graph items False")
  case None
  then have "distinct (map ii_item_id items)" by (simp add: validate_graph_conditions)
  then have "distinct (map item_order items)" by (auto simp: distinct_map inj_on_def item_order_def)
  then have order: "sort_key item_order items = sort_key item_order items'" by (rule sort_key_perm [OF assms])
  show ?thesis unfolding make_snapshot_def validate_graph_perm [OF assms] order ..
next
  case (Some e)
  then show ?thesis using validate_graph_perm [OF assms] by (simp add: make_snapshot_def)
qed

definition sample_item :: "uuid \<Rightarrow> uuid list \<Rightarrow> item_input" where
  "sample_item i deps = \<lparr> ii_item_id = i, ii_disposition = Required, ii_ordinal = 0, ii_title = ''t'', ii_outcome = ''o'',
     ii_acceptance_criteria = [''c''], ii_source_requirement_ids = [9], ii_dependency_item_ids = deps \<rparr>"

theorem snapshot_order_independent_witness:
  "mset [sample_item 1 [], sample_item 2 [1]] = mset [sample_item 2 [1], sample_item 1 []] \<and>
   validate_graph [sample_item 1 [], sample_item 2 [1]] False = None \<and>
   make_snapshot True 7 [sample_item 1 [], sample_item 2 [1]] 8 [] = make_snapshot True 7 [sample_item 2 [1], sample_item 1 []] 8 []"
proof (intro conjI)
  show "mset [sample_item 1 [], sample_item 2 [1]] = mset [sample_item 2 [1], sample_item 1 []]" by simp
  then show "make_snapshot True 7 [sample_item 1 [], sample_item 2 [1]] 8 [] = make_snapshot True 7 [sample_item 2 [1], sample_item 1 []] 8 []"
    by (rule snapshot_order_independent)
  show "validate_graph [sample_item 1 [], sample_item 2 [1]] False = None" by code_simp
qed

text \<open>An adopted graph can start: when validation for adoption passes and some item is required, the
  readiness projection, which lists every item once, marks at least one required item ready.\<close>

theorem adopted_graph_can_start:
  assumes "validate_graph items True = None" and "i \<in> set items" and "ii_disposition i = Required"
  shows "(\<exists>r \<in> set (project_readiness items). ir_status r = Ready \<and>
      (\<exists>j \<in> set items. ir_item_id r = ii_item_id j \<and> ii_disposition j = Required \<and> ii_dependency_item_ids j = [])) \<and>
    mset (map ir_item_id (project_readiness items)) = mset (map ii_item_id items)"
proof -
  have shape: "graph_shape ii_item_id ii_dependency_item_ids items" and ac: "acyclic (graph_edges items)"
    and up: "\<And>r d. r \<in> set items \<Longrightarrow> d \<in> set items \<Longrightarrow> ii_disposition r = Required \<Longrightarrow> ii_disposition d = Deferred \<Longrightarrow>
        (ii_item_id d, ii_item_id r) \<notin> (graph_edges items)\<^sup>+"
    using assms(1) by (auto simp: validate_graph_conditions graph_shape_def)
  have "graph_edges items \<subseteq> ii_item_id ` set items \<times> ii_item_id ` set items"
    using shape by (auto simp: item_edges_def graph_shape_def)
  then have "finite (graph_edges items)" by (rule finite_subset) simp
  with ac have wf: "wf (graph_edges items)" by (simp add: finite_acyclic_wf)
  have "\<forall>i \<in> set items. ii_item_id i = k \<longrightarrow> ii_disposition i = Required \<longrightarrow>
      (\<exists>j \<in> set items. ii_disposition j = Required \<and> ii_dependency_item_ids j = [])" for k
    using wf
  proof (induction k rule: wf_induct_rule)
    case (less k)
    show ?case
    proof (intro ballI impI)
      fix i assume i: "i \<in> set items" "ii_item_id i = k" "ii_disposition i = Required"
      show "\<exists>j \<in> set items. ii_disposition j = Required \<and> ii_dependency_item_ids j = []"
      proof (cases "ii_dependency_item_ids i")
        case (Cons d ds)
        then obtain t where t: "t \<in> set items" "ii_item_id t = d" using shape i(1) by (fastforce simp: graph_shape_def)
        have e: "(d, k) \<in> graph_edges items" using i Cons by (auto simp: item_edges_def)
        then have "ii_disposition t = Required" using up [OF i(1) t(1) i(3)] t(2) i(2) by (cases "ii_disposition t") auto
        with less.IH [OF e] t show ?thesis by blast
      qed (use i in blast)
    qed
  qed
  then obtain j where "j \<in> set items" "ii_disposition j = Required" "ii_dependency_item_ids j = []" using assms(2,3) by blast
  moreover from this have "ir_status (readiness_of j) = Ready \<and> ir_item_id (readiness_of j) = ii_item_id j"
    by (simp add: readiness_of_def)
  moreover have "readiness_of j \<in> set (project_readiness items)"
    using \<open>j \<in> set items\<close> by (simp add: project_readiness_def)
  moreover have "map ir_item_id (project_readiness items) = map ii_item_id (sort_key item_order items)"
    by (simp add: project_readiness_def readiness_of_def Let_def case_prod_beta)
  moreover have "mset (map ii_item_id (sort_key item_order items)) = mset (map ii_item_id items)" by simp
  ultimately show ?thesis by metis
qed

theorem adopted_graph_can_start_witness:
  "validate_graph [sample_item 1 [], sample_item 2 [1]] True = None \<and>
   (\<exists>r \<in> set (project_readiness [sample_item 1 [], sample_item 2 [1]]). ir_status r = Ready)"
proof
  show v: "validate_graph [sample_item 1 [], sample_item 2 [1]] True = None" by code_simp
  show "\<exists>r \<in> set (project_readiness [sample_item 1 [], sample_item 2 [1]]). ir_status r = Ready"
    using adopted_graph_can_start [OF v, of "sample_item 1 []"] by (auto simp: sample_item_def)
qed

end
