(* ===== verification/Forge_Resource.thy ===== *)
theory Forge_Resource
  imports Forge_Prelude Forge_Sha256
begin

text \<open>
  \<^verbatim>\<open>domain/resource.py\<close>: the names of a run's isolated resources (worktree, database,
  database role, secret) and the shape the persisted resource columns must have. The lemmas show
  that the derived identities always pass their own validation and that the names separate runs.
\<close>

section \<open>Data\<close>

datatype resource_state = Res_DISABLED | Res_PROVISIONING | Res_ACTIVE | Res_FAILED | Res_REMOVED

record worktree_identity =
  wi_project_id :: uuid
  wi_run_id :: "uuid option"
  wi_branch :: string
  wi_worktree_name :: string
  wi_database_name :: "string option"
  wi_database_role :: "string option"

section \<open>Validation\<close>

definition identifier_fullmatch :: "string \<Rightarrow> bool" where
  "identifier_fullmatch s = (case s of [] \<Rightarrow> False
     | c # cs \<Rightarrow> (is_lower_az c \<or> c = CHR ''_'') \<and>
                list_all (\<lambda>d. is_lower_az d \<or> is_digit d \<or> d = CHR ''_'') cs)"

definition is_slug_edge :: "char \<Rightarrow> bool" where
  "is_slug_edge c = (is_lower_az c \<or> is_digit c)"

definition worktree_name_fullmatch :: "string \<Rightarrow> bool" where
  "worktree_name_fullmatch s =
     (s \<noteq> [] \<and> is_slug_edge (hd s) \<and> is_slug_edge (last s) \<and>
      list_all (\<lambda>c. is_slug_edge c \<or> c = CHR ''-'') s)"

definition validate_branch :: "string \<Rightarrow> py_exn option" where
  "validate_branch value = seq_raise [
     when_raise (value = [] \<or> blank value \<or> value \<noteq> py_strip value)
       (ValueError ''branch must be nonblank and trimmed''),
     when_raise (CHR 0x00 \<in> set value \<or> CHR 0x0D \<in> set value \<or> CHR 0x0A \<in> set value)
       (ValueError ''branch contains forbidden control characters''),
     when_raise (length value > 512)
       (ValueError ''branch must contain at most 512 characters'')]"

definition validate_worktree_name :: "string \<Rightarrow> py_exn option" where
  "validate_worktree_name value = seq_raise [
     when_raise (value = [] \<or> value \<noteq> py_strip value)
       (ValueError ''worktree name must be nonblank and trimmed''),
     when_raise (CHR 0x00 \<in> set value \<or> length value > 128)
       (ValueError ''worktree name must contain at most 128 characters''),
     when_raise (\<not> worktree_name_fullmatch value)
       (ValueError ''worktree name must be one safe lowercase filename component'')]"

definition validate_postgres_identifier :: "string \<Rightarrow> string \<Rightarrow> py_exn option" where
  "validate_postgres_identifier value name = seq_raise [
     when_raise (value = [] \<or> value \<noteq> py_strip value)
       (ValueError (name @ '' must be a nonblank PostgreSQL identifier'')),
     when_raise (length (utf8_encode value) > 63)
       (ValueError (name @ '' must be at most 63 bytes'')),
     when_raise (\<not> identifier_fullmatch value)
       (ValueError (name @ '' is not a safe PostgreSQL identifier''))]"

definition worktree_identity_post_init :: "worktree_identity \<Rightarrow> py_exn option" where
  "worktree_identity_post_init i = seq_raise [
     validate_branch (wi_branch i),
     validate_worktree_name (wi_worktree_name i),
     when_raise ((wi_database_name i = None) \<noteq> (wi_database_role i = None))
       (ValueError ''database name and role must be present together''),
     opt_raise (wi_database_name i) (\<lambda>n. seq_raise [
       validate_postgres_identifier n ''database name'',
       validate_postgres_identifier
         (case wi_database_role i of None \<Rightarrow> [] | Some r \<Rightarrow> r) ''database role''])]"

definition validate_resource_shape ::
  "resource_state \<Rightarrow> string option \<Rightarrow> string option \<Rightarrow> string option \<Rightarrow> py_exn option" where
  "validate_resource_shape database_state database_name database_role secret_id = seq_raise [
     opt_raise database_name (\<lambda>v. validate_postgres_identifier v ''database name''),
     opt_raise database_role (\<lambda>v. validate_postgres_identifier v ''database role''),
     opt_raise secret_id (\<lambda>s. seq_raise [
       when_raise (s = [] \<or> s \<noteq> py_strip s \<or> CHR 0x00 \<in> set s)
         (ValueError ''secret id must be nonblank and trimmed''),
       when_raise (length s > 512)
         (ValueError ''secret id must contain at most 512 characters'')]),
     (if database_state = Res_DISABLED \<or> database_state = Res_REMOVED then
        when_raise (database_name \<noteq> None \<or> database_role \<noteq> None \<or> secret_id \<noteq> None)
          (ValueError (''resource state '' @
             (if database_state = Res_DISABLED then ''DISABLED'' else ''REMOVED'') @
             '' requires a null resource''))
      else when_raise (database_state = Res_ACTIVE \<and>
          (database_name = None \<or> database_role = None \<or> secret_id = None))
          (ValueError ''resource state ACTIVE requires database name, role, and secret id''))]"

section \<open>Derived identities\<close>

definition worktree_for_run :: "uuid \<Rightarrow> uuid \<Rightarrow> string \<Rightarrow> bool \<Rightarrow> worktree_identity result" where
  "worktree_for_run project_id run_id branch database_enabled =
     ebind (raising (validate_branch branch) ()) (\<lambda>_.
       let project_key = take 12 (uuid_hex project_id);
           run_key = take 12 (uuid_hex run_id);
           i = \<lparr> wi_project_id = project_id, wi_run_id = Some run_id, wi_branch = branch,
                 wi_worktree_name = ''forge-'' @ project_key @ ''-'' @ run_key,
                 wi_database_name = (if database_enabled
                   then Some (''forge_'' @ project_key @ ''_'' @ run_key) else None),
                 wi_database_role = (if database_enabled
                   then Some (''forge_run_'' @ run_key) else None) \<rparr>
       in raising (worktree_identity_post_init i) i)"

text \<open>\<^verbatim>\<open>re.sub(r"[^a-z0-9]+", "-", s)\<close>\<close>

function collapse_separators :: "string \<Rightarrow> string" where
  "collapse_separators [] = []"
| "collapse_separators (c # cs) =
     (if is_slug_edge c then c # collapse_separators cs
      else CHR ''-'' # collapse_separators (dropWhile (\<lambda>d. \<not> is_slug_edge d) cs))"
  by pat_completeness auto
termination
  by (relation "measure length") (auto simp: le_imp_less_Suc length_dropWhile_le)

definition strip_dashes :: "string \<Rightarrow> string" where
  "strip_dashes s = rstrip_by (\<lambda>c. c = CHR ''-'') (dropWhile (\<lambda>c. c = CHR ''-'') s)"

definition sanitize_branch :: "string \<Rightarrow> string" where
  "sanitize_branch branch =
     (let slug = strip_dashes (collapse_separators (py_casefold branch))
      in take 24 (if slug = [] then ''branch'' else slug))"

definition worktree_for_developer :: "uuid \<Rightarrow> string \<Rightarrow> bool \<Rightarrow> worktree_identity result" where
  "worktree_for_developer project_id branch database_enabled =
     ebind (raising (validate_branch branch) ()) (\<lambda>_.
       let project_key = take 12 (uuid_hex project_id);
           branch_key = drop 52 (sha256_hexdigest (utf8_encode branch));
           branch_slug = sanitize_branch branch;
           database_slug = map (\<lambda>c. if c = CHR ''-'' then CHR ''_'' else c) branch_slug;
           i = \<lparr> wi_project_id = project_id, wi_run_id = None, wi_branch = branch,
                 wi_worktree_name = ''forge-'' @ project_key @ ''-'' @ branch_slug @ ''-'' @ branch_key,
                 wi_database_name = (if database_enabled then
                   Some (''forge_'' @ project_key @ ''_'' @ database_slug @ ''_'' @ branch_key) else None),
                 wi_database_role = (if database_enabled then
                   Some (''forge_run_'' @ project_key @ ''_'' @ database_slug @ ''_'' @ branch_key) else None) \<rparr>
       in raising (worktree_identity_post_init i) i)"

definition database_secret_id :: "worktree_identity \<Rightarrow> string" where
  "database_secret_id i = (case wi_run_id i of
       Some r \<Rightarrow> ''forge_db_'' @ uuid_hex (wi_project_id i) @ ''_'' @ uuid_hex r
     | None \<Rightarrow> ''forge_db_dev_'' @ uuid_hex (wi_project_id i) @ ''_'' @
               sha256_hexdigest (utf8_encode (wi_branch i)))"

section \<open>Characters of the derived names\<close>

definition ident_char :: "char \<Rightarrow> bool" where
  "ident_char d = (is_lower_az d \<or> is_digit d \<or> d = CHR ''_'')"

lemma hex_is_slug_edge: "is_hex_lower c \<Longrightarrow> is_slug_edge c"
  by (auto simp: is_hex_lower_def is_slug_edge_def is_lower_az_def is_digit_def less_eq_char_def)

lemma slug_edge_ident: "is_slug_edge c \<Longrightarrow> ident_char c"
  by (auto simp: is_slug_edge_def ident_char_def)

lemma slug_edge_plain: "is_slug_edge c \<Longrightarrow> \<not> is_py_space c \<and> (of_char c :: nat) < 128 \<and> c \<noteq> CHR 0x00"
  by (auto simp: is_slug_edge_def is_lower_az_def is_digit_def less_eq_char_def is_py_space_def Let_def)

lemma ident_char_plain: "ident_char c \<Longrightarrow> \<not> is_py_space c \<and> (of_char c :: nat) < 128 \<and> c \<noteq> CHR 0x00"
  using slug_edge_plain [of c]
  by (auto simp: ident_char_def is_slug_edge_def is_py_space_def Let_def)

lemma py_strip_id: "list_all (\<lambda>c. \<not> is_py_space c) s \<Longrightarrow> py_strip s = s"
proof -
  assume *: "list_all (\<lambda>c. \<not> is_py_space c) s"
  have "dropWhile is_py_space t = t" if "list_all (\<lambda>c. \<not> is_py_space c) t" for t
    using that by (cases t) auto
  from this [of s] this [of "rev s"] * show ?thesis
    by (simp add: py_strip_def py_lstrip_def rstrip_by_def list_all_iff)
qed

lemma utf8_length_ascii: "list_all (\<lambda>c. (of_char c :: nat) < 128) s \<Longrightarrow> utf8_length s = length s"
  by (induction s) (auto simp: utf8_length_def)

lemma ident_valid:
  assumes "s = c # cs" and "is_lower_az c" and "list_all ident_char cs" and "length s \<le> 63"
  shows "validate_postgres_identifier s name = None"
proof -
  have all: "list_all ident_char s" using assms by (simp add: ident_char_def)
  then have "list_all (\<lambda>c. \<not> is_py_space c) s" "list_all (\<lambda>c. (of_char c :: nat) < 128) s"
    using ident_char_plain by (auto simp: list_all_iff)
  then have "py_strip s = s" "length (utf8_encode s) = length s"
    by (simp_all add: py_strip_id utf8_length_encode utf8_length_ascii)
  moreover have "identifier_fullmatch s"
    using assms by (auto simp: identifier_fullmatch_def ident_char_def list_all_iff)
  ultimately show ?thesis using assms by (auto simp: validate_postgres_identifier_def)
qed

lemma worktree_name_valid:
  assumes "s \<noteq> []" and "is_slug_edge (hd s)" and "is_slug_edge (last s)"
    and "list_all (\<lambda>c. is_slug_edge c \<or> c = CHR ''-'') s" and "length s \<le> 128"
  shows "validate_worktree_name s = None"
proof -
  have dash: "\<not> is_py_space (CHR ''-'')" by (simp add: is_py_space_def)
  have plain: "\<not> is_py_space c \<and> c \<noteq> CHR 0x00" if "c \<in> set s" for c
  proof (cases "is_slug_edge c")
    case True
    then show ?thesis using slug_edge_plain by blast
  next
    case False
    with assms(4) that have "c = CHR ''-''" by (auto simp: list_all_iff)
    with dash show ?thesis by simp
  qed
  have "py_strip s = s" by (rule py_strip_id) (use plain in \<open>auto simp: list_all_iff\<close>)
  moreover have "CHR 0x00 \<notin> set s" using plain by blast
  ultimately show ?thesis
    using assms by (simp add: validate_worktree_name_def worktree_name_fullmatch_def)
qed

lemma uuid_hex_nonempty [simp]: "uuid_hex u \<noteq> []"
  by (metis length_uuid_hex list.size(3) zero_neq_numeral)

lemma uuid_key: "length (take 12 (uuid_hex u)) = 12 \<and> list_all is_slug_edge (take 12 (uuid_hex u))"
  using uuid_hex_lower [of u] hex_is_slug_edge by (auto simp: list_all_iff dest: in_set_takeD)

lemma branch_key: "length (drop 52 (sha256_hexdigest m)) = 12 \<and> list_all is_slug_edge (drop 52 (sha256_hexdigest m))"
  using sha256_hexdigest_shape [of m] hex_is_slug_edge
  by (auto simp: is_digest64_def list_all_iff dest: in_set_dropD)

lemma set_collapse: "c \<in> set (collapse_separators s) \<Longrightarrow> is_slug_edge c \<or> c = CHR ''-''"
  by (induction s rule: collapse_separators.induct) (auto split: if_splits)

lemma set_rstrip_by: "set (rstrip_by p s) \<subseteq> set s"
  by (auto simp: rstrip_by_def dest: set_dropWhileD)

lemma sanitize_branch_shape:
  "length (sanitize_branch b) \<le> 24 \<and> list_all (\<lambda>c. is_slug_edge c \<or> c = CHR ''-'') (sanitize_branch b)"
proof -
  let ?slug = "strip_dashes (collapse_separators (py_casefold b))"
  have "set ?slug \<subseteq> set (collapse_separators (py_casefold b))"
    using set_rstrip_by by (force simp: strip_dashes_def dest: set_dropWhileD)
  then have "\<forall>c\<in>set ?slug. is_slug_edge c \<or> c = CHR ''-''" using set_collapse by blast
  moreover have "\<forall>c\<in>set ''branch''. is_slug_edge c"
    by (simp add: is_slug_edge_def is_lower_az_def less_eq_char_def)
  ultimately show ?thesis
    by (auto simp: sanitize_branch_def Let_def list_all_iff dest!: in_set_takeD split: if_splits)
qed

section \<open>Derived identities are valid\<close>

lemma lower_f: "is_lower_az (CHR ''f'')" "is_slug_edge (CHR ''f'')"
  by (simp_all add: is_slug_edge_def is_lower_az_def less_eq_char_def)

lemma list_all_ident_edge: "list_all is_slug_edge s \<Longrightarrow> list_all ident_char s"
  by (auto simp: list_all_iff slug_edge_ident)

lemma ident_literals:
  "list_all ident_char ''orge_''" "list_all ident_char ''orge_run_''" "ident_char (CHR ''_'')"
  by (simp_all add: ident_char_def is_lower_az_def less_eq_char_def)

lemma forge_name_valid:
  assumes "list_all ident_char k" and "length k \<le> 53"
  shows "validate_postgres_identifier (''forge_'' @ k) name = None"
    and "validate_postgres_identifier (''forge_run_'' @ k) name = None"
  using assms ident_literals lower_f
  by (auto intro!: ident_valid [where c = "CHR ''f''"])

lemma ident_forge_secret:
  "ident_char c \<Longrightarrow> \<not> is_py_space c \<and> c \<noteq> CHR 0x00"
  using ident_char_plain by blast

lemma database_secret_id_valid:
  "py_strip (database_secret_id i) = database_secret_id i \<and> database_secret_id i \<noteq> [] \<and>
   CHR 0x00 \<notin> set (database_secret_id i) \<and> length (database_secret_id i) \<le> 512"
proof -
  have hex: "list_all ident_char (uuid_hex u)" for u
    using uuid_hex_lower hex_is_slug_edge slug_edge_ident by (auto simp: list_all_iff)
  have sha: "list_all ident_char (sha256_hexdigest m)" for m
    using sha256_hexdigest_shape [of m] hex_is_slug_edge slug_edge_ident
    by (auto simp: is_digest64_def list_all_iff)
  have lit: "list_all ident_char ''forge_db_''" "list_all ident_char ''forge_db_dev_''"
    by (simp_all add: ident_char_def is_lower_az_def less_eq_char_def)
  have all: "list_all ident_char (database_secret_id i)"
    using hex sha lit ident_literals(3)
    by (simp add: database_secret_id_def split: option.splits)
  have "py_strip (database_secret_id i) = database_secret_id i"
    by (rule py_strip_id) (use all ident_forge_secret in \<open>auto simp: list_all_iff\<close>)
  moreover have "CHR 0x00 \<notin> set (database_secret_id i)"
    using all ident_forge_secret by (auto simp: list_all_iff)
  moreover have "database_secret_id i \<noteq> [] \<and> length (database_secret_id i) \<le> 512"
    by (simp add: database_secret_id_def split: option.splits)
  ultimately show ?thesis by blast
qed

lemma forge_worktree_name_valid:
  assumes "list_all (\<lambda>c. is_slug_edge c \<or> c = CHR ''-'') k" and "length k \<le> 100"
    and "e \<noteq> []" and "list_all is_slug_edge e" and "length e \<le> 12"
  shows "validate_worktree_name (''forge-'' @ k @ e) = None"
proof (rule worktree_name_valid)
  show "is_slug_edge (last (''forge-'' @ k @ e))"
    using assms(3,4) last_in_set [of e] by (simp add: list_all_iff)
  show "list_all (\<lambda>c. is_slug_edge c \<or> c = CHR ''-'') (''forge-'' @ k @ e)"
    using assms(1,4) by (auto simp: list_all_iff is_slug_edge_def is_lower_az_def less_eq_char_def)
qed (use assms lower_f in auto)

lemma worktree_for_run_eq:
  "worktree_for_run p r b db = Inr i \<longleftrightarrow> validate_branch b = None \<and>
     i = \<lparr> wi_project_id = p, wi_run_id = Some r, wi_branch = b,
           wi_worktree_name = ''forge-'' @ take 12 (uuid_hex p) @ ''-'' @ take 12 (uuid_hex r),
           wi_database_name = (if db then Some (''forge_'' @ take 12 (uuid_hex p) @ ''_'' @ take 12 (uuid_hex r)) else None),
           wi_database_role = (if db then Some (''forge_run_'' @ take 12 (uuid_hex r)) else None) \<rparr>"
proof -
  have "validate_worktree_name (''forge-'' @ (take 12 (uuid_hex p) @ ''-'') @ take 12 (uuid_hex r)) = None"
    using uuid_key [of p] uuid_key [of r]
    by (intro forge_worktree_name_valid) (auto simp: list_all_iff)
  moreover have "validate_postgres_identifier (''forge_'' @ (take 12 (uuid_hex p) @ ''_'' @ take 12 (uuid_hex r))) n = None" for n
    using uuid_key [of p] uuid_key [of r] ident_literals
    by (intro forge_name_valid) (auto simp: list_all_ident_edge)
  moreover have "validate_postgres_identifier (''forge_run_'' @ take 12 (uuid_hex r)) n = None" for n
    using uuid_key [of r] by (intro forge_name_valid) (auto simp: list_all_ident_edge)
  ultimately show ?thesis
    by (auto simp: worktree_for_run_def ebind_Inr worktree_identity_post_init_def Let_def)
qed

lemma worktree_for_developer_eq:
  assumes "validate_branch b = None"
  shows "\<exists>i. worktree_for_developer p b db = Inr i \<and> wi_project_id i = p \<and> wi_run_id i = None \<and>
     wi_branch i = b \<and> (wi_database_name i \<noteq> None \<longleftrightarrow> db) \<and> (wi_database_role i \<noteq> None \<longleftrightarrow> db) \<and>
     worktree_identity_post_init i = None"
proof -
  let ?k = "take 12 (uuid_hex p)" and ?e = "drop 52 (sha256_hexdigest (utf8_encode b))"
  let ?d = "map (\<lambda>c. if c = CHR ''-'' then CHR ''_'' else c) (sanitize_branch b)"
  note shapes = uuid_key [of p] branch_key [of "utf8_encode b"] sanitize_branch_shape [of b]
  have "validate_worktree_name (''forge-'' @ (?k @ ''-'' @ sanitize_branch b @ ''-'') @ ?e) = None"
    using shapes by (intro forge_worktree_name_valid) (auto simp: list_all_iff)
  moreover have "list_all ident_char ?d"
    using shapes(3) slug_edge_ident by (auto simp: list_all_iff ident_char_def)
  then have "list_all ident_char (?k @ ''_'' @ ?d @ ''_'' @ ?e)"
    using shapes(1,2) ident_literals(3) by (simp add: list_all_ident_edge)
  then have "validate_postgres_identifier (''forge_'' @ (?k @ ''_'' @ ?d @ ''_'' @ ?e)) n = None"
     and "validate_postgres_identifier (''forge_run_'' @ (?k @ ''_'' @ ?d @ ''_'' @ ?e)) n = None" for n
    by (rule forge_name_valid; use shapes in simp)+
  ultimately show ?thesis
    using assms by (simp add: worktree_for_developer_def worktree_identity_post_init_def Let_def)
qed

section \<open>Properties\<close>

text \<open>The identity derived for a persisted run is total on valid branch names: it passes its
  own validation, names the run, and, when a database is enabled, its database name, role and
  secret id always form a valid ACTIVE resource shape (every name within PostgreSQL's 63 bytes).\<close>

theorem worktree_for_run_valid:
  assumes "validate_branch branch = None"
  shows "\<exists>i. worktree_for_run project_id run_id branch db = Inr i \<and>
     wi_project_id i = project_id \<and> wi_run_id i = Some run_id \<and> wi_branch i = branch \<and>
     worktree_identity_post_init i = None \<and>
     validate_resource_shape (if db then Res_ACTIVE else Res_DISABLED) (wi_database_name i)
       (wi_database_role i) (if db then Some (database_secret_id i) else None) = None"
proof -
  obtain i where i: "worktree_for_run project_id run_id branch db = Inr i"
    using assms worktree_for_run_eq by blast
  then have valid: "worktree_identity_post_init i = None"
    by (auto simp: worktree_for_run_def ebind_Inr Let_def)
  from i have shape: "wi_project_id i = project_id" "wi_run_id i = Some run_id" "wi_branch i = branch"
      "wi_database_name i \<noteq> None \<longleftrightarrow> db" "wi_database_role i \<noteq> None \<longleftrightarrow> db"
    by (auto simp: worktree_for_run_eq)
  have "validate_resource_shape (if db then Res_ACTIVE else Res_DISABLED) (wi_database_name i)
       (wi_database_role i) (if db then Some (database_secret_id i) else None) = None"
    using valid shape(4,5) database_secret_id_valid [of i]
    by (cases db) (auto simp: worktree_identity_post_init_def validate_resource_shape_def)
  with i valid shape show ?thesis by blast
qed

theorem worktree_for_run_valid_witness:
  "validate_branch ''feature/x'' = None \<and>
   (\<exists>i. worktree_for_run 1 2 ''feature/x'' True = Inr i \<and> wi_run_id i = Some 2)"
proof -
  have "validate_branch ''feature/x'' = None" by code_simp
  with worktree_for_run_valid [of "''feature/x''" 1 2 True] show ?thesis by blast
qed

text \<open>The developer identity is total as well: for every valid branch name the sanitised slug
  and the branch hash give a worktree name and database names that pass validation, so
  construction never raises.\<close>

theorem worktree_for_developer_valid:
  assumes "validate_branch branch = None"
  shows "\<exists>i. worktree_for_developer project_id branch db = Inr i \<and> wi_run_id i = None \<and>
     wi_branch i = branch \<and> worktree_identity_post_init i = None \<and>
     validate_resource_shape (if db then Res_ACTIVE else Res_DISABLED) (wi_database_name i)
       (wi_database_role i) (if db then Some (database_secret_id i) else None) = None"
proof -
  obtain i where i: "worktree_for_developer project_id branch db = Inr i" "wi_run_id i = None"
      "wi_branch i = branch" "wi_database_name i \<noteq> None \<longleftrightarrow> db" "wi_database_role i \<noteq> None \<longleftrightarrow> db"
      "worktree_identity_post_init i = None"
    using worktree_for_developer_eq [OF assms] by blast
  moreover have "validate_resource_shape (if db then Res_ACTIVE else Res_DISABLED) (wi_database_name i)
       (wi_database_role i) (if db then Some (database_secret_id i) else None) = None"
    using i(4-6) database_secret_id_valid [of i]
    by (cases db) (auto simp: worktree_identity_post_init_def validate_resource_shape_def)
  ultimately show ?thesis by blast
qed

theorem worktree_for_developer_valid_witness:
  "validate_branch ''main'' = None \<and> (\<exists>i. worktree_for_developer 7 ''main'' True = Inr i)"
proof -
  have "validate_branch ''main'' = None" by code_simp
  with worktree_for_developer_valid [of "''main''" 7 True] show ?thesis by blast
qed

text \<open>Secret identifiers separate runs: two run identities share a secret id only if they are
  the same project and run, and no run shares one with a developer worktree.\<close>

theorem database_secret_id_separates:
  assumes i: "worktree_for_run p r b db = Inr i" and j: "worktree_for_run p' r' b' db' = Inr j"
    and k: "worktree_for_developer q c dc = Inr k"
  shows "(database_secret_id i = database_secret_id j \<longleftrightarrow> p = p' \<and> r = r') \<and>
     database_secret_id i \<noteq> database_secret_id k"
proof
  show "database_secret_id i = database_secret_id j \<longleftrightarrow> p = p' \<and> r = r'"
    using i j by (auto simp: worktree_for_run_eq database_secret_id_def append_eq_append_conv)
  have "is_hex_lower (uuid_hex p ! 2)" using uuid_hex_lower [of p] by (simp add: list_all_length)
  moreover have "\<not> is_hex_lower (CHR ''v'')" by (simp add: is_hex_lower_def is_digit_def less_eq_char_def)
  ultimately have "uuid_hex p ! 2 \<noteq> CHR ''v''" by metis
  moreover have "database_secret_id k ! 11 = CHR ''v''"
    using k by (auto simp: worktree_for_developer_def ebind_Inr Let_def database_secret_id_def)
  moreover have "database_secret_id i ! 11 = uuid_hex p ! 2"
    using i by (auto simp: worktree_for_run_eq database_secret_id_def nth_append)
  ultimately show "database_secret_id i \<noteq> database_secret_id k" by metis
qed

theorem database_secret_id_separates_witness:
  "\<exists>i j k. worktree_for_run 1 2 ''main'' True = Inr i \<and> worktree_for_run 1 3 ''main'' True = Inr j \<and>
     worktree_for_developer 1 ''main'' True = Inr k \<and>
     database_secret_id i \<noteq> database_secret_id j \<and> database_secret_id i \<noteq> database_secret_id k"
proof -
  have b: "validate_branch ''main'' = None" by code_simp
  have "\<exists>i. worktree_for_run 1 r ''main'' True = Inr i" for r using b by (simp add: worktree_for_run_eq)
  moreover have "\<exists>k. worktree_for_developer 1 ''main'' True = Inr k"
    using worktree_for_developer_eq [OF b] by metis
  ultimately obtain i j k where *: "worktree_for_run 1 2 ''main'' True = Inr i"
      "worktree_for_run 1 3 ''main'' True = Inr j" "worktree_for_developer 1 ''main'' True = Inr k"
    by metis
  show ?thesis using * database_secret_id_separates [OF *] by auto
qed

end
