(* ===== verification/Forge_Run.thy ===== *)
theory Forge_Run
  imports Forge_Resource Forge_Approval
begin

text \<open>
  \<^verbatim>\<open>domain/workflow.py\<close>, \<^verbatim>\<open>domain/run.py\<close> and \<^verbatim>\<open>domain/errors.py\<close>:
  per-run preferences, the run states, and the immutable run snapshot whose constructor validates
  every copy. Each \<^verbatim>\<open>with_*\<close> method builds a copy with \<^verbatim>\<open>dataclasses.replace\<close>
  and therefore runs the validation again, which the model keeps: the methods return a result.
\<close>

section \<open>Workflow preferences\<close>

datatype delegation_preference = Delegation_auto | Delegation_disabled | Delegation_requested
datatype optional_review_preference = Review_auto | Review_skip | Review_required

record workflow_preferences =
  wp_review_plan_first :: bool
  wp_delegation :: delegation_preference
  wp_optional_review :: optional_review_preference

definition delegation_str :: "delegation_preference \<Rightarrow> string" where
  "delegation_str d = (case d of Delegation_auto \<Rightarrow> ''auto'' | Delegation_disabled \<Rightarrow> ''disabled''
     | Delegation_requested \<Rightarrow> ''requested'')"

definition optional_review_str :: "optional_review_preference \<Rightarrow> string" where
  "optional_review_str r = (case r of Review_auto \<Rightarrow> ''auto'' | Review_skip \<Rightarrow> ''skip''
     | Review_required \<Rightarrow> ''required'')"

text \<open>Membership of an arbitrary value in a frozenset of strings: hashing a container raises.\<close>

definition str_lookup :: "(string \<times> 'a) list \<Rightarrow> pyval \<Rightarrow> string \<Rightarrow> 'a result" where
  "str_lookup table v msg = (case v of
       PStr s \<Rightarrow> (case map_of table s of Some x \<Rightarrow> Inr x | None \<Rightarrow> Inl (ValueError msg))
     | PList _ \<Rightarrow> Inl (TypeError ''unhashable type'')
     | PDict _ \<Rightarrow> Inl (TypeError ''unhashable type'')
     | _ \<Rightarrow> Inl (ValueError msg))"

definition delegation_table :: "(string \<times> delegation_preference) list" where
  "delegation_table = [(''auto'', Delegation_auto), (''disabled'', Delegation_disabled),
     (''requested'', Delegation_requested)]"

definition optional_review_table :: "(string \<times> optional_review_preference) list" where
  "optional_review_table = [(''auto'', Review_auto), (''skip'', Review_skip), (''required'', Review_required)]"

definition workflow_preferences_make :: "pyval \<Rightarrow> pyval \<Rightarrow> pyval \<Rightarrow> workflow_preferences result" where
  "workflow_preferences_make review_plan_first delegation optional_review =
     (case review_plan_first of
        PBool b \<Rightarrow>
          ebind (str_lookup delegation_table delegation ''delegation preference is invalid'') (\<lambda>d.
          ebind (str_lookup optional_review_table optional_review ''optional_review preference is invalid'') (\<lambda>r.
            Inr \<lparr> wp_review_plan_first = b, wp_delegation = d, wp_optional_review = r \<rparr>))
      | _ \<Rightarrow> Inl (TypeError ''review_plan_first must be a bool''))"

definition workflow_to_dict :: "workflow_preferences \<Rightarrow> (string, pyval) dict" where
  "workflow_to_dict w = [
     (''review_plan_first'', PBool (wp_review_plan_first w)),
     (''delegation'', PStr (delegation_str (wp_delegation w))),
     (''optional_review'', PStr (optional_review_str (wp_optional_review w)))]"

definition workflow_from_mapping :: "pyval \<Rightarrow> workflow_preferences option result" where
  "workflow_from_mapping value = (case value of
       PNone \<Rightarrow> Inr None
     | PDict d \<Rightarrow>
         if \<not> set (map fst d) \<subseteq> {''review_plan_first'', ''delegation'', ''optional_review''}
         then Inl (ValueError ''workflow preferences contain unknown fields'')
         else ebind (workflow_preferences_make (dict_get d ''review_plan_first'' (PBool False))
                (dict_get d ''delegation'' (PStr ''auto'')) (dict_get d ''optional_review'' (PStr ''auto'')))
              (\<lambda>w. Inr (Some w))
     | _ \<Rightarrow> Inl (TypeError ''workflow preferences must be a mapping''))"

section \<open>Run states and snapshots\<close>

datatype run_state =
    CREATED | PLANNING | AWAITING_PLAN_APPROVAL | PREPARING_WORKTREE | IMPLEMENTING | VALIDATING
  | REVIEWING | REMEDIATING | AWAITING_PR_APPROVAL | PUBLISHING_PR | MONITORING_PR
  | AWAITING_HUMAN_INTERVENTION | AWAITING_MERGE_APPROVAL | MERGING | PAUSED
  | COMPLETED | FAILED | CANCELLED

datatype suspension_kind = PAUSE | INTERVENTION

fun approval_state_by_gate :: "approval_gate \<Rightarrow> run_state" where
  "approval_state_by_gate Gate_PLAN = AWAITING_PLAN_APPROVAL"
| "approval_state_by_gate Gate_PR = AWAITING_PR_APPROVAL"
| "approval_state_by_gate Gate_MERGE = AWAITING_MERGE_APPROVAL"

definition approval_states :: "run_state list" where
  "approval_states = [AWAITING_PLAN_APPROVAL, AWAITING_PR_APPROVAL, AWAITING_MERGE_APPROVAL]"

record suspension_context =
  sc_state :: run_state
  sc_suspended_state :: "run_state option"
  sc_suspension_kind :: "suspension_kind option"
  sc_pending_gate :: "approval_gate option"
  sc_pending_evidence_digest :: "string option"

record run_snapshot =
  rs_id :: uuid
  rs_project_id :: uuid
  rs_task_id :: uuid
  rs_state :: run_state
  rs_version :: int
  rs_suspended_state :: "run_state option"
  rs_local_remediation_count :: int
  rs_remote_remediation_count :: int
  rs_suspension_kind :: "suspension_kind option"
  rs_suspension_context :: "suspension_context option"
  rs_policy_version :: "int option"
  rs_base_ref :: "string option"
  rs_base_sha :: "string option"
  rs_branch_name :: "string option"
  rs_worktree_path :: "string option"
  rs_database_state :: resource_state
  rs_database_name :: "string option"
  rs_database_role :: "string option"
  rs_secret_id :: "string option"
  rs_pending_gate :: "approval_gate option"
  rs_pending_evidence_digest :: "string option"
  rs_workflow :: "workflow_preferences option"

section \<open>Validation\<close>

definition validate_pending_metadata ::
  "run_state \<Rightarrow> approval_gate option \<Rightarrow> string option \<Rightarrow> string \<Rightarrow> py_exn option" where
  "validate_pending_metadata state pending_gate pending_evidence_digest field_name =
     (if state \<notin> set approval_states then
        when_raise (pending_gate \<noteq> None \<or> pending_evidence_digest \<noteq> None)
          (ValueError (field_name @ '' pending approval metadata is not allowed for this state''))
      else seq_raise [
        when_raise (map_option approval_state_by_gate pending_gate \<noteq> Some state)
          (ValueError (field_name @ '' pending gate does not match its approval state'')),
        when_raise (case pending_evidence_digest of None \<Rightarrow> True | Some d \<Rightarrow> \<not> is_digest64 d)
          (ValueError (field_name @ '' pending evidence digest must be lowercase SHA-256''))])"

definition suspension_context_post_init :: "suspension_context \<Rightarrow> py_exn option" where
  "suspension_context_post_init c =
     validate_pending_metadata (sc_state c) (sc_pending_gate c) (sc_pending_evidence_digest c)
       ''suspension context''"

definition suspension_context_make :: "suspension_context \<Rightarrow> suspension_context result" where
  "suspension_context_make c = raising (suspension_context_post_init c) c"

definition run_snapshot_post_init :: "run_snapshot \<Rightarrow> py_exn option" where
  "run_snapshot_post_init r = seq_raise [
     validate_resource_shape (rs_database_state r) (rs_database_name r) (rs_database_role r) (rs_secret_id r),
     validate_pending_metadata (rs_state r) (rs_pending_gate r) (rs_pending_evidence_digest r) ''run'']"

section \<open>Copies\<close>

definition with_state ::
  "run_snapshot \<Rightarrow> run_state \<Rightarrow> run_state option \<Rightarrow> suspension_kind option \<Rightarrow> suspension_context option
     \<Rightarrow> approval_gate option \<Rightarrow> string option \<Rightarrow> run_snapshot result" where
  "with_state r state suspended_state suspension_kind suspension_context pending_gate pending_evidence_digest =
     (let r' = r\<lparr> rs_state := state, rs_suspended_state := suspended_state,
        rs_suspension_kind := suspension_kind, rs_suspension_context := suspension_context,
        rs_pending_gate := pending_gate, rs_pending_evidence_digest := pending_evidence_digest,
        rs_version := rs_version r + 1 \<rparr>
      in raising (run_snapshot_post_init r') r')"

definition with_workflow :: "run_snapshot \<Rightarrow> workflow_preferences option \<Rightarrow> run_snapshot result" where
  "with_workflow r w = (let r' = r\<lparr> rs_workflow := w \<rparr> in raising (run_snapshot_post_init r') r')"

text \<open>An omitted keyword argument (\<^verbatim>\<open>_UNSET\<close>) is \<open>None\<close>; a given one is \<open>Some\<close> of its value.\<close>

definition with_resource ::
  "run_snapshot \<Rightarrow> string option option \<Rightarrow> resource_state option \<Rightarrow> string option option
     \<Rightarrow> string option option \<Rightarrow> string option option \<Rightarrow> run_snapshot result" where
  "with_resource r worktree_path database_state database_name database_role secret_id =
     (let keep = (\<lambda>arg old. case arg of None \<Rightarrow> old | Some v \<Rightarrow> v);
          r' = r\<lparr> rs_version := rs_version r + 1,
            rs_worktree_path := keep worktree_path (rs_worktree_path r),
            rs_database_state := (case database_state of None \<Rightarrow> rs_database_state r | Some v \<Rightarrow> v),
            rs_database_name := keep database_name (rs_database_name r),
            rs_database_role := keep database_role (rs_database_role r),
            rs_secret_id := keep secret_id (rs_secret_id r) \<rparr>
      in raising (run_snapshot_post_init r') r')"

text \<open>The snapshot of a run that has just been created: all defaults.\<close>

definition new_run :: "uuid \<Rightarrow> uuid \<Rightarrow> uuid \<Rightarrow> run_snapshot" where
  "new_run i p t = \<lparr> rs_id = i, rs_project_id = p, rs_task_id = t, rs_state = CREATED, rs_version = 0,
     rs_suspended_state = None, rs_local_remediation_count = 0, rs_remote_remediation_count = 0,
     rs_suspension_kind = None, rs_suspension_context = None, rs_policy_version = None,
     rs_base_ref = None, rs_base_sha = None, rs_branch_name = None, rs_worktree_path = None,
     rs_database_state = Res_DISABLED, rs_database_name = None, rs_database_role = None,
     rs_secret_id = None, rs_pending_gate = None, rs_pending_evidence_digest = None, rs_workflow = None \<rparr>"

section \<open>Lemmas\<close>

lemma approval_states_iff [simp]:
  "s \<in> set approval_states \<longleftrightarrow> s = AWAITING_PLAN_APPROVAL \<or> s = AWAITING_PR_APPROVAL \<or> s = AWAITING_MERGE_APPROVAL"
  by (auto simp: approval_states_def)

lemma approval_state_by_gate_in: "approval_state_by_gate g \<in> set approval_states"
  by (cases g) auto

lemma validate_pending_metadata_None:
  "validate_pending_metadata s g d n = None \<longleftrightarrow>
     (if s \<in> set approval_states
      then (\<exists>g' d'. g = Some g' \<and> d = Some d' \<and> approval_state_by_gate g' = s \<and> is_digest64 d')
      else g = None \<and> d = None)"
  by (cases g; cases d) (auto simp: validate_pending_metadata_def)

lemma new_run_valid: "run_snapshot_post_init (new_run i p t) = None"
  by (simp add: run_snapshot_post_init_def new_run_def validate_resource_shape_def validate_pending_metadata_None)

lemma with_state_Inr:
  "with_state r s ss sk sc g d = Inr r' \<longleftrightarrow>
     validate_resource_shape (rs_database_state r) (rs_database_name r) (rs_database_role r) (rs_secret_id r) = None \<and>
     validate_pending_metadata s g d ''run'' = None \<and>
     r' = r\<lparr> rs_state := s, rs_suspended_state := ss, rs_suspension_kind := sk, rs_suspension_context := sc,
             rs_pending_gate := g, rs_pending_evidence_digest := d, rs_version := rs_version r + 1 \<rparr>"
  by (auto simp: with_state_def Let_def run_snapshot_post_init_def)

lemma with_state_valid:
  "with_state r s ss sk sc g d = Inr r' \<Longrightarrow> run_snapshot_post_init r' = None"
  by (auto simp: with_state_def Let_def)

section \<open>Properties\<close>

text \<open>Workflow preferences survive their dictionary form, and every dictionary that decodes is
  made of known fields with a boolean and two listed literals: decoding the encoding of any
  preferences gives them back.\<close>

theorem workflow_roundtrip: "workflow_from_mapping (PDict (workflow_to_dict w)) = Inr (Some w)"
  by (cases "wp_delegation w"; cases "wp_optional_review w")
     (auto simp: workflow_from_mapping_def workflow_to_dict_def dict_get_def workflow_preferences_make_def
        str_lookup_def delegation_table_def optional_review_table_def delegation_str_def optional_review_str_def)

text \<open>A resource update changes nothing but the five resource fields and the version, which
  grows by one, and its result is again a valid snapshot.\<close>

theorem with_resource_frame:
  assumes "with_resource r w ds dn dr s = Inr r'"
  shows "run_snapshot_post_init r' = None \<and> rs_version r' = rs_version r + 1 \<and>
     r'\<lparr> rs_version := rs_version r, rs_worktree_path := rs_worktree_path r,
        rs_database_state := rs_database_state r, rs_database_name := rs_database_name r,
        rs_database_role := rs_database_role r, rs_secret_id := rs_secret_id r \<rparr> = r"
  using assms by (auto simp: with_resource_def Let_def)

theorem with_resource_frame_witness:
  "\<exists>r'. with_resource (new_run 1 2 3) (Some (Some ''/w'')) None None None None = Inr r' \<and> rs_version r' = 1"
proof -
  have "run_snapshot_post_init ((new_run 1 2 3)\<lparr> rs_version := 1, rs_worktree_path := Some ''/w'' \<rparr>) = None"
    by (simp add: run_snapshot_post_init_def new_run_def validate_resource_shape_def validate_pending_metadata_None)
  then obtain r' where "with_resource (new_run 1 2 3) (Some (Some ''/w'')) None None None None = Inr r'"
    by (simp add: with_resource_def new_run_def Let_def)
  with with_resource_frame [OF this] show ?thesis by (simp add: new_run_def)
qed

end
