(* ===== verification/Forge_Engine.thy ===== *)
theory Forge_Engine
  imports Forge_Run
begin

text \<open>
  \<^verbatim>\<open>application/services/state_engine.py\<close>: the deterministic run-state engine. One
  definition per method of \<^verbatim>\<open>StateEngine\<close>, each with its guards in source order;
  \<open>engine_step\<close> is the relation of all of them, from which reachability, the invariant of
  reachable runs and the approval-gate safety properties follow.
\<close>

section \<open>Transitions\<close>

datatype engine_error =
    InvalidTransition "run_state option" "run_state option" "string option"
  | Raised py_exn

type_synonym 'a engine_result = "engine_error + 'a"

fun LEGAL :: "run_state \<Rightarrow> run_state list" where
  "LEGAL CREATED = [PLANNING, CANCELLED]"
| "LEGAL PLANNING = [AWAITING_PLAN_APPROVAL, PREPARING_WORKTREE, AWAITING_HUMAN_INTERVENTION, FAILED, CANCELLED]"
| "LEGAL AWAITING_PLAN_APPROVAL = [PLANNING, PREPARING_WORKTREE, CANCELLED]"
| "LEGAL PREPARING_WORKTREE = [IMPLEMENTING, AWAITING_HUMAN_INTERVENTION, FAILED, CANCELLED]"
| "LEGAL IMPLEMENTING = [VALIDATING, AWAITING_HUMAN_INTERVENTION, FAILED, CANCELLED]"
| "LEGAL VALIDATING = [REVIEWING, AWAITING_PR_APPROVAL, MONITORING_PR, REMEDIATING,
     AWAITING_HUMAN_INTERVENTION, FAILED, CANCELLED]"
| "LEGAL REVIEWING = [REMEDIATING, AWAITING_PR_APPROVAL, MONITORING_PR, AWAITING_HUMAN_INTERVENTION,
     FAILED, CANCELLED]"
| "LEGAL REMEDIATING = [VALIDATING, AWAITING_HUMAN_INTERVENTION, FAILED, CANCELLED]"
| "LEGAL AWAITING_PR_APPROVAL = [REMEDIATING, PUBLISHING_PR, AWAITING_HUMAN_INTERVENTION, CANCELLED]"
| "LEGAL PUBLISHING_PR = [MONITORING_PR, AWAITING_HUMAN_INTERVENTION, FAILED, CANCELLED]"
| "LEGAL MONITORING_PR = [REMEDIATING, AWAITING_MERGE_APPROVAL, AWAITING_HUMAN_INTERVENTION, FAILED, CANCELLED]"
| "LEGAL AWAITING_HUMAN_INTERVENTION = [CANCELLED, FAILED]"
| "LEGAL AWAITING_MERGE_APPROVAL = [MONITORING_PR, MERGING, AWAITING_HUMAN_INTERVENTION, CANCELLED]"
| "LEGAL MERGING = [COMPLETED, MONITORING_PR, AWAITING_HUMAN_INTERVENTION, FAILED]"
| "LEGAL PAUSED = [CANCELLED]"
| "LEGAL COMPLETED = []"
| "LEGAL FAILED = []"
| "LEGAL CANCELLED = []"

definition terminal_states :: "run_state list" where
  "terminal_states = [COMPLETED, FAILED, CANCELLED]"

text \<open>An exception of the snapshot constructor passes through the engine unchanged.\<close>

definition lift_exn :: "'a result \<Rightarrow> 'a engine_result" where
  "lift_exn m = (case m of Inl e \<Rightarrow> Inl (Raised e) | Inr x \<Rightarrow> Inr x)"

definition invalid :: "run_state \<Rightarrow> run_state option \<Rightarrow> string \<Rightarrow> engine_error" where
  "invalid current target reason = InvalidTransition (Some current) target (Some reason)"

definition transition :: "run_snapshot \<Rightarrow> run_state \<Rightarrow> run_snapshot engine_result" where
  "transition run target =
     (if target \<in> set approval_states then
        Inl (invalid (rs_state run) (Some target) ''approval transitions require an evidence digest'')
      else if target \<notin> set (LEGAL (rs_state run)) then
        Inl (InvalidTransition (Some (rs_state run)) (Some target) None)
      else lift_exn (with_state run target None None None None None))"

definition await_approval :: "run_snapshot \<Rightarrow> approval_gate \<Rightarrow> string \<Rightarrow> run_snapshot engine_result" where
  "await_approval run gate evidence_digest =
     (if \<not> is_digest64 evidence_digest then
        Inl (Raised (ValueError ''approval evidence digest must be lowercase SHA-256''))
      else let target = approval_state_by_gate gate in
        if target \<notin> set (LEGAL (rs_state run)) then
          Inl (InvalidTransition (Some (rs_state run)) (Some target) None)
        else lift_exn (with_state run target None None None (Some gate) (Some evidence_digest)))"

definition pause :: "run_snapshot \<Rightarrow> run_snapshot engine_result" where
  "pause run =
     (if rs_state run \<in> set terminal_states \<or> rs_state run = PAUSED then
        Inl (invalid (rs_state run) (Some PAUSED) ''only an active, non-paused run can be paused'')
      else lift_exn (ebind (suspension_context_make
          \<lparr> sc_state = rs_state run, sc_suspended_state = rs_suspended_state run,
            sc_suspension_kind = rs_suspension_kind run, sc_pending_gate = rs_pending_gate run,
            sc_pending_evidence_digest = rs_pending_evidence_digest run \<rparr>) (\<lambda>c.
          with_state run PAUSED (Some (rs_state run)) (Some PAUSE) (Some c) None None)))"

definition resume :: "run_snapshot \<Rightarrow> run_snapshot engine_result" where
  "resume run =
     (if rs_state run \<noteq> PAUSED then
        Inl (invalid (rs_state run) (Some PAUSED) ''resume requires a paused run'')
      else case rs_suspended_state run of
        None \<Rightarrow> Inl (invalid (rs_state run) None ''paused run has no valid suspended state'')
      | Some suspended \<Rightarrow>
          if suspended = PAUSED then
            Inl (invalid (rs_state run) (Some suspended) ''paused run has no valid suspended state'')
          else if rs_suspension_kind run \<noteq> Some PAUSE then
            Inl (invalid (rs_state run) (Some suspended) ''paused run has invalid suspension kind'')
          else (case rs_suspension_context run of
              None \<Rightarrow>
                if suspended \<in> set approval_states then
                  Inl (invalid (rs_state run) (Some suspended) ''paused approval state has no retained evidence'')
                else lift_exn (with_state run suspended None None None None None)
            | Some context \<Rightarrow>
                if sc_state context \<noteq> suspended then
                  Inl (invalid (rs_state run) (Some suspended) ''paused run has inconsistent suspension context'')
                else lift_exn (with_state run (sc_state context) (sc_suspended_state context)
                  (sc_suspension_kind context) None (sc_pending_gate context)
                  (sc_pending_evidence_digest context))))"

definition intervene :: "run_snapshot \<Rightarrow> run_snapshot engine_result" where
  "intervene run =
     (if rs_state run \<in> set terminal_states \<or> rs_state run \<in> {PAUSED, AWAITING_HUMAN_INTERVENTION} \<or>
         AWAITING_HUMAN_INTERVENTION \<notin> set (LEGAL (rs_state run)) then
        Inl (invalid (rs_state run) (Some AWAITING_HUMAN_INTERVENTION) ''only an active run can enter intervention'')
      else lift_exn (with_state run AWAITING_HUMAN_INTERVENTION (Some (rs_state run)) (Some INTERVENTION) None None None))"

definition resume_interrupted_work :: "run_snapshot \<Rightarrow> run_snapshot engine_result" where
  "resume_interrupted_work run =
     (case rs_suspended_state run of
        Some suspended \<Rightarrow>
          if rs_state run \<noteq> AWAITING_HUMAN_INTERVENTION \<or> rs_suspension_kind run \<noteq> Some INTERVENTION \<or>
             suspended \<notin> {PLANNING, IMPLEMENTING, REMEDIATING} \<or> rs_pending_gate run \<noteq> None then
            Inl (invalid (rs_state run) (Some (rs_state run)) ''no interrupted execution to resume'')
          else lift_exn (with_state run suspended None None None None None)
      | None \<Rightarrow> Inl (invalid (rs_state run) (Some (rs_state run)) ''no interrupted execution to resume''))"

definition resolve_intervention :: "run_snapshot \<Rightarrow> run_state \<Rightarrow> run_snapshot engine_result" where
  "resolve_intervention run target =
     (if rs_state run \<noteq> AWAITING_HUMAN_INTERVENTION then
        Inl (invalid (rs_state run) (Some target) ''resolve_intervention requires an intervention state'')
      else case rs_suspended_state run of
        None \<Rightarrow> Inl (invalid (rs_state run) (Some target) ''intervention has no suspended state'')
      | Some suspended \<Rightarrow>
          if rs_suspension_kind run \<noteq> Some INTERVENTION then
            Inl (invalid (rs_state run) (Some target) ''intervention has invalid suspension kind'')
          else if target \<in> set approval_states then
            Inl (invalid suspended (Some target) ''approval transitions require an evidence digest'')
          else if target = AWAITING_HUMAN_INTERVENTION then
            Inl (invalid suspended (Some target) ''intervention cannot resolve to intervention'')
          else if suspended = AWAITING_MERGE_APPROVAL \<and> target = MERGING then
            Inl (invalid suspended (Some target) ''merging requires approval evidence'')
          else if suspended = MERGING \<and> target = COMPLETED then
            Inl (invalid suspended (Some target) ''merge completion requires a settled merge receipt'')
          else if suspended = AWAITING_PR_APPROVAL \<and> target = PUBLISHING_PR then
            Inl (invalid suspended (Some target) ''publication requires approval evidence'')
          else if target \<notin> set (LEGAL suspended) then
            Inl (InvalidTransition (Some suspended) (Some target) None)
          else lift_exn (with_state run target None None None None None))"

section \<open>The engine as a step relation\<close>

datatype engine_op =
    Transition run_state
  | AwaitApproval approval_gate string
  | Pause
  | Resume
  | Intervene
  | ResumeInterruptedWork
  | ResolveIntervention run_state

fun engine_apply :: "run_snapshot \<Rightarrow> engine_op \<Rightarrow> run_snapshot engine_result" where
  "engine_apply run (Transition target) = transition run target"
| "engine_apply run (AwaitApproval gate digest) = await_approval run gate digest"
| "engine_apply run Pause = pause run"
| "engine_apply run Resume = resume run"
| "engine_apply run Intervene = intervene run"
| "engine_apply run ResumeInterruptedWork = resume_interrupted_work run"
| "engine_apply run (ResolveIntervention target) = resolve_intervention run target"

inductive engine_step :: "run_snapshot \<Rightarrow> run_snapshot \<Rightarrow> bool" where
  op_step: "engine_apply r op = Inr r' \<Longrightarrow> engine_step r r'"
| resource_step: "with_resource r w ds dn dr s = Inr r' \<Longrightarrow> engine_step r r'"

inductive_cases engine_stepE: "engine_step r r'"

definition reachable :: "run_snapshot \<Rightarrow> bool" where
  "reachable r = (\<exists>i p t. engine_step\<^sup>*\<^sup>* (new_run i p t) r)"

text \<open>The states a run has gone through, newest first, starting from its creation.\<close>

inductive history :: "run_snapshot list \<Rightarrow> bool" where
  history_new: "history [new_run i p t]"
| history_step: "history (r # rs) \<Longrightarrow> engine_step r r' \<Longrightarrow> history (r' # r # rs)"

section \<open>The invariant of reachable runs\<close>

text \<open>What a suspension stores: a state of the active life cycle. An intervention can only be
  entered where \<open>LEGAL\<close> lists it: by \<open>intervene\<close>, which records the state it left, or by a plain
  \<open>transition\<close>, which records nothing.\<close>

definition intervention_ok :: "run_state option \<Rightarrow> suspension_kind option \<Rightarrow> bool" where
  "intervention_ok ss sk = (ss = None \<and> sk = None \<or> (\<exists>s. ss = Some s \<and> sk = Some INTERVENTION \<and> s \<notin> set terminal_states \<and> s \<noteq> PAUSED \<and>
     s \<noteq> AWAITING_HUMAN_INTERVENTION \<and> AWAITING_HUMAN_INTERVENTION \<in> set (LEGAL s)))"

definition context_ok :: "suspension_context \<Rightarrow> bool" where
  "context_ok c = (suspension_context_post_init c = None \<and> sc_state c \<notin> set terminal_states \<and> sc_state c \<noteq> PAUSED \<and>
     (if sc_state c = AWAITING_HUMAN_INTERVENTION
      then intervention_ok (sc_suspended_state c) (sc_suspension_kind c)
      else sc_suspended_state c = None \<and> sc_suspension_kind c = None))"

definition run_inv :: "run_snapshot \<Rightarrow> bool" where
  "run_inv r = (run_snapshot_post_init r = None \<and> 0 \<le> rs_version r \<and>
     (if rs_state r = PAUSED then
        rs_suspension_kind r = Some PAUSE \<and>
        (\<exists>c. rs_suspension_context r = Some c \<and> rs_suspended_state r = Some (sc_state c) \<and> context_ok c)
      else if rs_state r = AWAITING_HUMAN_INTERVENTION then
        intervention_ok (rs_suspended_state r) (rs_suspension_kind r) \<and> rs_suspension_context r = None
      else rs_suspended_state r = None \<and> rs_suspension_kind r = None \<and> rs_suspension_context r = None))"

lemma terminal_states_iff [simp]: "s \<in> set terminal_states \<longleftrightarrow> s = COMPLETED \<or> s = FAILED \<or> s = CANCELLED"
  by (auto simp: terminal_states_def)

lemma lift_exn_Inr [simp]: "lift_exn m = Inr x \<longleftrightarrow> m = Inr x"
  by (cases m) (auto simp: lift_exn_def)

lemma lift_exn_simps [simp]: "lift_exn (Inr x) = Inr x" "lift_exn (Inl e) = Inl (Raised e)"
  by (simp_all add: lift_exn_def)

lemma legal_never_paused: "PAUSED \<notin> set (LEGAL s)"
  by (cases s) auto

lemma legal_intervention: "AWAITING_HUMAN_INTERVENTION \<in> set (LEGAL s) \<Longrightarrow>
    s \<notin> set terminal_states \<and> s \<noteq> PAUSED \<and> s \<noteq> AWAITING_HUMAN_INTERVENTION"
  by (cases s) auto

text \<open>What each operation requires and produces, as equivalences over the fields it writes.\<close>

lemma transition_Inr:
  "transition r t = Inr r' \<longleftrightarrow> t \<notin> set approval_states \<and> t \<in> set (LEGAL (rs_state r)) \<and>
     with_state r t None None None None None = Inr r'"
  by (auto simp: transition_def)

lemma await_approval_Inr:
  "await_approval r g d = Inr r' \<longleftrightarrow> is_digest64 d \<and> approval_state_by_gate g \<in> set (LEGAL (rs_state r)) \<and>
     with_state r (approval_state_by_gate g) None None None (Some g) (Some d) = Inr r'"
  by (auto simp: await_approval_def Let_def)

lemma pause_Inr:
  "pause r = Inr r' \<longleftrightarrow> rs_state r \<notin> set terminal_states \<and> rs_state r \<noteq> PAUSED \<and>
     (let c = \<lparr> sc_state = rs_state r, sc_suspended_state = rs_suspended_state r,
            sc_suspension_kind = rs_suspension_kind r, sc_pending_gate = rs_pending_gate r,
            sc_pending_evidence_digest = rs_pending_evidence_digest r \<rparr>
      in suspension_context_post_init c = None \<and>
         with_state r PAUSED (Some (rs_state r)) (Some PAUSE) (Some c) None None = Inr r')"
  by (auto simp: pause_def ebind_Inr suspension_context_make_def Let_def)

lemma intervene_Inr:
  "intervene r = Inr r' \<longleftrightarrow> AWAITING_HUMAN_INTERVENTION \<in> set (LEGAL (rs_state r)) \<and>
     with_state r AWAITING_HUMAN_INTERVENTION (Some (rs_state r)) (Some INTERVENTION) None None None = Inr r'"
  using legal_intervention [of "rs_state r"] by (auto simp: intervene_def)

lemma resolve_intervention_Inr:
  "resolve_intervention r t = Inr r' \<longleftrightarrow> rs_state r = AWAITING_HUMAN_INTERVENTION \<and> rs_suspension_kind r = Some INTERVENTION \<and>
     (\<exists>s. rs_suspended_state r = Some s \<and> t \<notin> set approval_states \<and> t \<noteq> AWAITING_HUMAN_INTERVENTION \<and>
        \<not> (s = AWAITING_MERGE_APPROVAL \<and> t = MERGING) \<and> \<not> (s = MERGING \<and> t = COMPLETED) \<and>
        \<not> (s = AWAITING_PR_APPROVAL \<and> t = PUBLISHING_PR) \<and> t \<in> set (LEGAL s)) \<and>
     with_state r t None None None None None = Inr r'"
  by (auto simp: resolve_intervention_def split: option.splits if_splits)

lemma resume_interrupted_work_Inr:
  "resume_interrupted_work r = Inr r' \<longleftrightarrow> rs_state r = AWAITING_HUMAN_INTERVENTION \<and>
     rs_suspension_kind r = Some INTERVENTION \<and> rs_pending_gate r = None \<and>
     (\<exists>s \<in> {PLANNING, IMPLEMENTING, REMEDIATING}. rs_suspended_state r = Some s \<and>
        with_state r s None None None None None = Inr r')"
  by (auto simp: resume_interrupted_work_def split: option.splits if_splits)

lemma resume_Inr_context:
  assumes "rs_suspension_context r = Some c"
  shows "resume r = Inr r' \<longleftrightarrow> rs_state r = PAUSED \<and> rs_suspended_state r = Some (sc_state c) \<and>
     sc_state c \<noteq> PAUSED \<and> rs_suspension_kind r = Some PAUSE \<and>
     with_state r (sc_state c) (sc_suspended_state c) (sc_suspension_kind c) None (sc_pending_gate c)
       (sc_pending_evidence_digest c) = Inr r'"
  using assms by (auto simp: resume_def split: option.splits if_splits)

lemmas engine_op_simps = transition_Inr await_approval_Inr intervene_Inr resolve_intervention_Inr
  resume_interrupted_work_Inr

section \<open>Every operation preserves the invariant\<close>

lemma with_state_active_inv:
  assumes "with_state r s None None None g d = Inr r'" and "run_inv r" and "s \<noteq> PAUSED"
  shows "run_inv r'"
proof -
  have "run_snapshot_post_init r' = None" using assms(1) by (rule with_state_valid)
  with assms show ?thesis by (simp add: run_inv_def with_state_Inr intervention_ok_def)
qed

lemma transition_inv:
  assumes "transition r t = Inr r'" and "run_inv r"
  shows "run_inv r'"
  using assms legal_never_paused [of "rs_state r"]
  by (auto simp: transition_Inr intro: with_state_active_inv)

lemma await_approval_inv:
  assumes "await_approval r g d = Inr r'" and "run_inv r"
  shows "run_inv r'"
  using assms approval_state_by_gate_in [of g]
  by (auto simp: await_approval_Inr intro: with_state_active_inv)

lemma intervene_inv:
  assumes "intervene r = Inr r'" and "run_inv r"
  shows "run_inv r'"
proof -
  from assms(1) have legal: "AWAITING_HUMAN_INTERVENTION \<in> set (LEGAL (rs_state r))"
    and w: "with_state r AWAITING_HUMAN_INTERVENTION (Some (rs_state r)) (Some INTERVENTION) None None None = Inr r'"
    by (simp_all add: intervene_Inr)
  have "run_snapshot_post_init r' = None" using w by (rule with_state_valid)
  with w legal legal_intervention [OF legal] assms(2) show ?thesis
    by (auto simp: with_state_Inr run_inv_def intervention_ok_def)
qed

lemma pause_inv:
  assumes "pause r = Inr r'" and "run_inv r"
  shows "run_inv r'"
proof -
  have "run_snapshot_post_init r' = None"
    using assms(1) by (auto simp: pause_Inr Let_def dest: with_state_valid)
  with assms show ?thesis
    by (auto simp: pause_Inr Let_def with_state_Inr run_inv_def context_ok_def split: if_splits)
qed

lemma resume_inv:
  assumes "resume r = Inr r'" and "run_inv r"
  shows "run_inv r'"
proof -
  from assms(1) have "rs_state r = PAUSED" by (auto simp: resume_def split: if_splits)
  with assms(2) obtain c where c: "rs_suspension_context r = Some c" "context_ok c"
    by (auto simp: run_inv_def)
  from assms(1) have w: "with_state r (sc_state c) (sc_suspended_state c) (sc_suspension_kind c) None
      (sc_pending_gate c) (sc_pending_evidence_digest c) = Inr r'"
    by (simp add: resume_Inr_context [OF c(1)])
  have "run_snapshot_post_init r' = None" using w by (rule with_state_valid)
  with w c(2) assms(2) show ?thesis
    by (auto simp: with_state_Inr run_inv_def context_ok_def split: if_splits)
qed

lemma resolve_intervention_inv:
  assumes "resolve_intervention r t = Inr r'" and "run_inv r"
  shows "run_inv r'"
  using assms legal_never_paused
  by (auto simp: resolve_intervention_Inr intro: with_state_active_inv)

lemma resume_interrupted_work_inv:
  assumes "resume_interrupted_work r = Inr r'" and "run_inv r"
  shows "run_inv r'"
  using assms by (auto simp: resume_interrupted_work_Inr intro: with_state_active_inv)

lemmas engine_op_inv = transition_inv await_approval_inv intervene_inv pause_inv resume_inv
  resolve_intervention_inv resume_interrupted_work_inv

lemma engine_apply_inv:
  assumes "engine_apply r op = Inr r'" and "run_inv r"
  shows "run_inv r'"
  using assms by (cases op) (auto dest: engine_op_inv)

lemma with_resource_inv:
  assumes "with_resource r w ds dn dr s = Inr r'" and "run_inv r"
  shows "run_inv r'"
  using assms by (auto simp: with_resource_def Let_def run_inv_def)

lemma engine_step_inv: "run_inv r \<Longrightarrow> engine_step r r' \<Longrightarrow> run_inv r'"
  by (auto elim!: engine_stepE intro: engine_apply_inv with_resource_inv)

lemma with_state_version: "with_state r s ss sk sc g d = Inr r' \<Longrightarrow> rs_version r' = rs_version r + 1"
  by (simp add: with_state_Inr)

lemma engine_apply_version:
  assumes "engine_apply r op = Inr r'"
  shows "rs_version r' = rs_version r + 1"
  using assms
  by (cases op) (auto simp: engine_op_simps pause_Inr resume_def Let_def with_state_version
        split: option.splits if_splits)

lemma engine_step_version: "engine_step r r' \<Longrightarrow> rs_version r' = rs_version r + 1"
  by (auto elim!: engine_stepE simp: engine_apply_version) (auto simp: with_resource_def Let_def)

lemma new_run_inv: "run_inv (new_run i p t)"
  using new_run_valid [of i p t] by (simp add: run_inv_def) (simp add: new_run_def)

interpretation engine: invariant_machine "\<lambda>r. \<exists>i p t. r = new_run i p t" engine_step run_inv
  by unfold_locales (auto simp: new_run_inv intro: engine_step_inv)

interpretation engine_version: versioned_machine engine_step rs_version
  by unfold_locales (rule engine_step_version)

section \<open>When an operation is accepted\<close>

lemma validity_parts:
  "run_inv r \<Longrightarrow> validate_resource_shape (rs_database_state r) (rs_database_name r) (rs_database_role r) (rs_secret_id r) = None"
  "run_inv r \<Longrightarrow> validate_pending_metadata (rs_state r) (rs_pending_gate r) (rs_pending_evidence_digest r) ''run'' = None"
  by (simp_all add: run_inv_def run_snapshot_post_init_def)

text \<open>On a run that satisfies the invariant the constructor accepts every copy whose approval
  metadata fit its state.\<close>

lemma with_state_ok:
  assumes "run_inv r" and "validate_pending_metadata s g d ''run'' = None"
  shows "\<exists>r'. with_state r s ss sk sc g d = Inr r' \<and> rs_state r' = s"
  using validity_parts(1) [OF assms(1)] assms(2) by (simp add: with_state_Inr)

lemma plain_metadata [simp]:
  "s \<notin> set approval_states \<Longrightarrow> validate_pending_metadata s None None n = None"
  by (simp add: validate_pending_metadata_None)

lemma approval_metadata:
  "is_digest64 d \<Longrightarrow> validate_pending_metadata (approval_state_by_gate g) (Some g) (Some d) n = None"
  using approval_state_by_gate_in [of g] by (auto simp: validate_pending_metadata_None)

lemma metadata_name: "validate_pending_metadata s g d n = None \<longleftrightarrow> validate_pending_metadata s g d m = None"
  by (simp add: validate_pending_metadata_None)

text \<open>The current position of a run, looking through a pause.\<close>

definition active_state :: "run_snapshot \<Rightarrow> run_state" where
  "active_state r = (if rs_state r = PAUSED
     then case rs_suspended_state r of Some s \<Rightarrow> s | None \<Rightarrow> PAUSED else rs_state r)"

definition op_enabled :: "run_snapshot \<Rightarrow> engine_op \<Rightarrow> bool" where
  "op_enabled r op = (let s = rs_state r in case op of
       Transition t \<Rightarrow> t \<in> set (LEGAL s) \<and> t \<notin> set approval_states
     | AwaitApproval g d \<Rightarrow> approval_state_by_gate g \<in> set (LEGAL s) \<and> is_digest64 d
     | Pause \<Rightarrow> s \<notin> set terminal_states \<and> s \<noteq> PAUSED
     | Resume \<Rightarrow> s = PAUSED
     | Intervene \<Rightarrow> AWAITING_HUMAN_INTERVENTION \<in> set (LEGAL s)
     | ResumeInterruptedWork \<Rightarrow> s = AWAITING_HUMAN_INTERVENTION \<and>
         rs_suspended_state r \<in> {Some PLANNING, Some IMPLEMENTING, Some REMEDIATING}
     | ResolveIntervention t \<Rightarrow> s = AWAITING_HUMAN_INTERVENTION \<and>
         (\<exists>q. rs_suspended_state r = Some q \<and> t \<in> set (LEGAL q)) \<and>
         t \<notin> set approval_states \<and> t \<notin> {AWAITING_HUMAN_INTERVENTION, PUBLISHING_PR, MERGING, COMPLETED})"

lemma legal_sources:
  "PUBLISHING_PR \<in> set (LEGAL s) \<longleftrightarrow> s = AWAITING_PR_APPROVAL"
  "MERGING \<in> set (LEGAL s) \<longleftrightarrow> s = AWAITING_MERGE_APPROVAL"
  "COMPLETED \<in> set (LEGAL s) \<longleftrightarrow> s = MERGING"
  by (cases s; simp)+

lemma intervention_suspended:
  assumes "run_inv r" and "rs_state r = AWAITING_HUMAN_INTERVENTION" and "rs_suspended_state r = Some s"
  shows "rs_suspension_kind r = Some INTERVENTION" and "rs_pending_gate r = None"
  using assms validity_parts(2) [OF assms(1)]
  by (auto simp: run_inv_def intervention_ok_def validate_pending_metadata_None)

lemma paused_context:
  assumes "run_inv r" and "rs_state r = PAUSED"
  obtains c where "rs_suspension_context r = Some c" "rs_suspended_state r = Some (sc_state c)"
    "rs_suspension_kind r = Some PAUSE" "context_ok c"
  using assms by (auto simp: run_inv_def)

lemma pause_enabled:
  assumes "run_inv r"
  shows "(\<exists>r'. pause r = Inr r') \<longleftrightarrow> op_enabled r Pause"
  using validity_parts [OF assms] metadata_name [of "rs_state r" "rs_pending_gate r" "rs_pending_evidence_digest r" "''run''"]
  by (auto simp: pause_Inr op_enabled_def Let_def with_state_Inr suspension_context_post_init_def)

lemma resume_enabled:
  assumes "run_inv r"
  shows "(\<exists>r'. resume r = Inr r') \<longleftrightarrow> op_enabled r Resume"
proof (cases "rs_state r = PAUSED")
  case True
  with assms obtain c where c: "rs_suspension_context r = Some c" "rs_suspended_state r = Some (sc_state c)"
    "rs_suspension_kind r = Some PAUSE" "context_ok c" by (rule paused_context)
  have "validate_pending_metadata (sc_state c) (sc_pending_gate c) (sc_pending_evidence_digest c) ''run'' = None"
    using c(4) unfolding context_ok_def suspension_context_post_init_def by (metis metadata_name)
  with True c validity_parts(1) [OF assms] show ?thesis
    by (auto simp: resume_Inr_context [OF c(1)] with_state_Inr op_enabled_def context_ok_def)
next
  case False
  then show ?thesis by (simp add: resume_def op_enabled_def)
qed

lemma intervention_ops_enabled:
  assumes "run_inv r"
  shows "(\<exists>r'. intervene r = Inr r') \<longleftrightarrow> op_enabled r Intervene"
    and "(\<exists>r'. resume_interrupted_work r = Inr r') \<longleftrightarrow> op_enabled r ResumeInterruptedWork"
    and "(\<exists>r'. resolve_intervention r t = Inr r') \<longleftrightarrow> op_enabled r (ResolveIntervention t)"
  using validity_parts(1) [OF assms] intervention_suspended [OF assms] legal_sources
  by (auto simp: intervene_Inr resume_interrupted_work_Inr resolve_intervention_Inr with_state_Inr op_enabled_def)

lemma transition_ops_enabled:
  assumes "run_inv r"
  shows "(\<exists>r'. transition r t = Inr r') \<longleftrightarrow> op_enabled r (Transition t)"
    and "(\<exists>r'. await_approval r g d = Inr r') \<longleftrightarrow> op_enabled r (AwaitApproval g d)"
  using validity_parts(1) [OF assms] approval_metadata [of d g "''run''"]
  by (auto simp: transition_Inr await_approval_Inr with_state_Inr op_enabled_def)

lemma engine_enabled:
  assumes "run_inv r"
  shows "(\<exists>r'. engine_apply r op = Inr r') \<longleftrightarrow> op_enabled r op"
  using pause_enabled [OF assms] resume_enabled [OF assms] intervention_ops_enabled [OF assms]
    transition_ops_enabled [OF assms]
  by (cases op) simp_all

lemma reachable_run_inv: "reachable r \<Longrightarrow> run_inv r"
  unfolding reachable_def using engine.run_inv_from_init by blast

section \<open>Executable traces\<close>

fun engine_trace :: "run_snapshot list \<Rightarrow> engine_op list \<Rightarrow> run_snapshot list engine_result" where
  "engine_trace rs [] = Inr rs"
| "engine_trace rs (op # ops) = ebind (engine_apply (hd rs) op) (\<lambda>r. engine_trace (r # rs) ops)"

lemma engine_trace_history:
  assumes "engine_trace rs ops = Inr rs'" and "history rs"
  shows "history rs'"
  using assms
proof (induction rs ops rule: engine_trace.induct)
  case (1 rs)
  then show ?case by simp
next
  case (2 rs op ops)
  then obtain r where r: "engine_apply (hd rs) op = Inr r" "engine_trace (r # rs) ops = Inr rs'"
    by (auto simp: ebind_Inr)
  from \<open>history rs\<close> obtain q qs where "rs = q # qs" by (cases rule: history.cases) auto
  with r \<open>history rs\<close> have "history (r # rs)" by (auto intro: history_step op_step)
  with 2 r show ?case by blast
qed

lemma history_reachable: "history rs \<Longrightarrow> r \<in> set rs \<Longrightarrow> reachable r"
proof (induction arbitrary: r rule: history.induct)
  case (history_new i p t)
  then show ?case by (auto simp: reachable_def)
next
  case (history_step q qs q')
  have "reachable q" using history_step.IH by simp
  then have "reachable q'" using history_step.hyps(2) unfolding reachable_def by (meson rtranclp.rtrancl_into_rtrancl)
  with history_step show ?case by auto
qed

definition sample_digest :: string where
  "sample_digest = replicate 64 (CHR ''a'')"

text \<open>A delivery that stops while it publishes, and one that is paused at its PR gate.\<close>

definition publishing_ops :: "engine_op list" where
  "publishing_ops = [Transition PLANNING, Transition PREPARING_WORKTREE, Transition IMPLEMENTING,
     Transition VALIDATING, AwaitApproval Gate_PR sample_digest, Pause, Resume, Transition PUBLISHING_PR]"

definition trace_of :: "engine_op list \<Rightarrow> run_snapshot list" where
  "trace_of ops = (case engine_trace [new_run 1 2 3] ops of Inr rs \<Rightarrow> rs | Inl _ \<Rightarrow> [new_run 1 2 3])"

lemma trace_of_history: "history (trace_of ops)"
  by (cases "engine_trace [new_run 1 2 3] ops")
     (auto simp: trace_of_def intro: history_new engine_trace_history)

section \<open>Approval gates along a history\<close>

definition approved_at :: "approval_gate \<Rightarrow> run_snapshot \<Rightarrow> bool" where
  "approved_at g q = (rs_state q = approval_state_by_gate g \<and> rs_pending_gate q = Some g \<and>
     (\<exists>d. rs_pending_evidence_digest q = Some d \<and> is_digest64 d))"

lemma approved_atI:
  assumes "run_inv q" and "rs_state q = approval_state_by_gate g"
  shows "approved_at g q"
proof -
  have inj: "approval_state_by_gate g' = approval_state_by_gate g \<Longrightarrow> g' = g" for g'
    by (cases g; cases g') auto
  show ?thesis
    using validity_parts(2) [OF assms(1)] assms(2) approval_state_by_gate_in [of g] inj
    by (auto simp: approved_at_def validate_pending_metadata_None split: if_splits)
qed

lemma active_state_run: "rs_state r \<noteq> PAUSED \<Longrightarrow> active_state r = rs_state r"
  by (simp add: active_state_def)

lemma active_state_paused: "rs_state r = PAUSED \<Longrightarrow> rs_suspended_state r = Some s \<Longrightarrow> active_state r = s"
  by (simp add: active_state_def)

text \<open>An operation moves the active state along \<open>LEGAL\<close>, keeps it (pause, resume) or leaves an
  intervention for a state its origin could legally have reached.\<close>

lemma with_state_active: "with_state r s ss sk sc g d = Inr r' \<Longrightarrow> s \<noteq> PAUSED \<Longrightarrow> active_state r' = s"
  by (auto simp: with_state_Inr active_state_def)

lemma active_state_op:
  assumes "run_inv r" and "engine_apply r op = Inr r'"
  shows "active_state r' = active_state r \<or> active_state r' \<in> set (LEGAL (rs_state r)) \<or>
     (rs_state r = AWAITING_HUMAN_INTERVENTION \<and>
      active_state r' \<notin> set approval_states \<union> {PUBLISHING_PR, MERGING, COMPLETED})"
proof (cases op)
  case (Transition t)
  with assms have t: "t \<in> set (LEGAL (rs_state r))" "with_state r t None None None None None = Inr r'"
    by (simp_all add: transition_Inr)
  with legal_never_paused [of "rs_state r"] have "t \<noteq> PAUSED" by auto
  with t show ?thesis using with_state_active by blast
next
  case (AwaitApproval g d)
  with assms approval_state_by_gate_in [of g] show ?thesis
    by (auto simp: await_approval_Inr dest!: with_state_active)
next
  case Pause
  with assms show ?thesis
    by (auto simp: pause_Inr Let_def with_state_Inr active_state_def)
next
  case Resume
  with assms(2) have "rs_state r = PAUSED" by (auto simp: resume_def split: if_splits)
  with assms(1) obtain c where c: "rs_suspension_context r = Some c" "rs_suspended_state r = Some (sc_state c)"
    by (rule paused_context)
  with assms(2) Resume \<open>rs_state r = PAUSED\<close> show ?thesis
    by (auto simp: resume_Inr_context [OF c(1)] active_state_paused dest!: with_state_active)
next
  case Intervene
  with assms show ?thesis by (auto simp: intervene_Inr dest!: with_state_active)
next
  case ResumeInterruptedWork
  with assms show ?thesis by (auto simp: resume_interrupted_work_Inr dest!: with_state_active)
next
  case (ResolveIntervention t)
  with assms obtain q where s: "rs_state r = AWAITING_HUMAN_INTERVENTION" "t \<in> set (LEGAL q)"
    "with_state r t None None None None None = Inr r'" and n: "t \<notin> set approval_states"
    "\<not> (q = AWAITING_MERGE_APPROVAL \<and> t = MERGING)" "\<not> (q = MERGING \<and> t = COMPLETED)"
    "\<not> (q = AWAITING_PR_APPROVAL \<and> t = PUBLISHING_PR)"
    by (auto simp: resolve_intervention_Inr)
  have "t \<notin> set approval_states \<union> {PUBLISHING_PR, MERGING, COMPLETED}"
    using n s(2) legal_sources [of q] by auto
  moreover have "t \<noteq> PAUSED" using s(2) legal_never_paused [of q] by auto
  ultimately show ?thesis using s(1) with_state_active [OF s(3)] by simp
qed

lemma active_state_step:
  assumes "run_inv r" and "engine_step r r'"
  shows "active_state r' = active_state r \<or> active_state r' \<in> set (LEGAL (rs_state r)) \<or>
     (rs_state r = AWAITING_HUMAN_INTERVENTION \<and>
      active_state r' \<notin> set approval_states \<union> {PUBLISHING_PR, MERGING, COMPLETED})"
  using assms(2)
proof (cases rule: engine_step.cases)
  case (op_step op)
  with assms(1) show ?thesis by (auto dest: active_state_op)
next
  case (resource_step w ds dn dr s)
  then have "active_state r' = active_state r"
    by (auto simp: with_resource_def Let_def active_state_def)
  then show ?thesis by simp
qed

lemma history_run_inv: "history rs \<Longrightarrow> \<forall>r \<in> set rs. run_inv r"
  by (induction rule: history.induct) (auto simp: new_run_inv intro: engine_step_inv)

text \<open>The three gated states, and the gate each stands behind.\<close>

fun gate_of :: "run_state \<Rightarrow> approval_gate option" where
  "gate_of PUBLISHING_PR = Some Gate_PR"
| "gate_of MERGING = Some Gate_MERGE"
| "gate_of COMPLETED = Some Gate_MERGE"
| "gate_of _ = None"

lemma legal_gated:
  "t \<in> set (LEGAL s) \<Longrightarrow> gate_of t = Some g \<Longrightarrow> s = approval_state_by_gate g \<or> gate_of s = Some g"
  by (cases s) auto

lemma gated_active:
  assumes "history rs" and "rs = r # rest" and "gate_of (active_state r) = Some g"
  shows "\<exists>q \<in> set rest. approved_at g q"
  using assms
proof (induction arbitrary: r rest rule: history.induct)
  case (history_new i p t)
  then show ?case by (auto simp: new_run_def active_state_def)
next
  case (history_step q qs r' r rest)
  have inv: "run_inv q" using history_run_inv [OF history_step.hyps(1)] by simp
  have ng: "gate_of s \<noteq> Some g" if "s \<notin> {PUBLISHING_PR, MERGING, COMPLETED}" for s
    using that by (cases s) auto
  from active_state_step [OF inv history_step.hyps(2)] history_step.prems
  consider "gate_of (active_state q) = Some g" | "active_state r \<in> set (LEGAL (rs_state q))"
    using ng by auto
  then show ?case
  proof cases
    case 1
    then show ?thesis using history_step.IH [of q qs] history_step.prems(1) by auto
  next
    case 2
    with history_step.prems(2) have "rs_state q = approval_state_by_gate g \<or> gate_of (rs_state q) = Some g"
      using legal_gated by blast
    then show ?thesis
    proof
      assume "rs_state q = approval_state_by_gate g"
      with inv history_step.prems(1) show ?thesis by (auto intro: approved_atI)
    next
      assume g: "gate_of (rs_state q) = Some g"
      then have "rs_state q \<noteq> PAUSED" by auto
      with g show ?thesis
        using history_step.IH [of q qs] history_step.prems(1) by (auto simp: active_state_run)
    qed
  qed
qed

lemma history_prefix: "history (xs @ r # rest) \<Longrightarrow> history (r # rest)"
proof (induction xs)
  case Nil
  then show ?case by simp
next
  case (Cons x xs)
  have "history (x # ys) \<Longrightarrow> ys \<noteq> [] \<Longrightarrow> history ys" for x ys
    by (erule history.cases) auto
  with Cons show ?case by simp
qed

section \<open>Cancellation\<close>

lemma engine_op_step: "run_inv r \<Longrightarrow> op_enabled r op \<Longrightarrow> \<exists>r'. engine_apply r op = Inr r' \<and> engine_step r r'"
  using engine_enabled op_step by metis

lemma transition_step:
  assumes "run_inv r" and "t \<in> set (LEGAL (rs_state r))" and "t \<notin> set approval_states"
  shows "\<exists>r'. engine_step r r' \<and> rs_state r' = t"
proof -
  have "validate_pending_metadata t None None ''run'' = None" using assms(3) by (rule plain_metadata)
  then obtain r' where "with_state r t None None None None None = Inr r'" "rs_state r' = t"
    using with_state_ok [OF assms(1)] by blast
  with assms(2,3) have "engine_apply r (Transition t) = Inr r'" by (simp add: transition_Inr)
  with \<open>rs_state r' = t\<close> show ?thesis by (blast intro: op_step)
qed

lemma cancel_legal: "s \<notin> set terminal_states \<Longrightarrow> s \<noteq> MERGING \<Longrightarrow> CANCELLED \<in> set (LEGAL s)"
  by (cases s) auto

lemma cancel_step:
  assumes "run_inv r" and "rs_state r \<notin> set terminal_states" and "rs_state r \<noteq> MERGING"
  shows "\<exists>r'. engine_step r r' \<and> rs_state r' = CANCELLED"
  using assms by (intro transition_step cancel_legal) auto

section \<open>Properties of the engine\<close>



text \<open>C1. Approval gates cannot be bypassed. In any history of operations, resource updates, pauses and
  interventions, a snapshot that is publishing the pull request, merging or completed is preceded by
  a snapshot that waited at the PR gate (for publishing) or at the merge gate (for merging and
  completion) with a lowercase SHA-256 evidence digest frozen in it.\<close>

theorem gated_states_were_approved:
  assumes "history rs" and "rs = later @ r # earlier" and "gate_of (rs_state r) = Some g"
  shows "\<exists>q \<in> set earlier. rs_state q = approval_state_by_gate g \<and> rs_pending_gate q = Some g \<and>
     (\<exists>d. rs_pending_evidence_digest q = Some d \<and> is_digest64 d)"
proof -
  have "rs_state r \<noteq> PAUSED" using assms(3) by auto
  then have "gate_of (active_state r) = Some g" using assms(3) by (simp add: active_state_run)
  moreover have "history (r # earlier)" using assms(1,2) history_prefix by blast
  ultimately show ?thesis using gated_active [of "r # earlier" r earlier g] by (auto simp: approved_at_def)
qed

theorem gated_states_were_approved_witness:
  "rs_state (hd (trace_of publishing_ops)) = PUBLISHING_PR \<and>
   (\<exists>q \<in> set (tl (trace_of publishing_ops)). rs_state q = AWAITING_PR_APPROVAL)"
proof -
  let ?rs = "trace_of publishing_ops"
  have st: "rs_state (hd ?rs) = PUBLISHING_PR" and ne: "?rs \<noteq> []" by code_simp+
  from ne have split: "?rs = [] @ hd ?rs # tl ?rs" by simp
  from gated_states_were_approved [OF trace_of_history split, of Gate_PR] st show ?thesis by auto
qed

text \<open>C34. The engine accepts exactly the enabled operations of a reachable run: plain transitions along
  \<open>LEGAL\<close> that are not approval states, approvals along \<open>LEGAL\<close> with a lowercase SHA-256 digest,
  pausing anything active, resuming anything paused, intervening where \<open>LEGAL\<close> lists it, and leaving an
  intervention for a legal successor of the recorded state other than an approval, publication, merge
  or completion. In particular the snapshot constructor never rejects an accepted operation.\<close>

theorem engine_accepts_iff_enabled:
  assumes "reachable r"
  shows "(\<exists>r'. engine_apply r op = Inr r') \<longleftrightarrow> op_enabled r op"
  using engine_enabled [OF reachable_run_inv [OF assms]] .

theorem engine_accepts_iff_enabled_witness:
  "(\<exists>r'. engine_apply (new_run 1 2 3) (Transition PLANNING) = Inr r')"
proof -
  have "reachable (new_run 1 2 3)" by (auto simp: reachable_def)
  from engine_accepts_iff_enabled [OF this, of "Transition PLANNING"] show ?thesis
    by (simp add: op_enabled_def new_run_def)
qed

text \<open>C31. Pausing a reachable run and resuming it restores the snapshot exactly, approval gate, evidence
  digest and nested intervention included; only the version moved, by two.\<close>

theorem pause_resume_restores:
  assumes "reachable r" and "pause r = Inr p"
  shows "resume p = Inr (r\<lparr> rs_version := rs_version r + 2 \<rparr>)"
proof -
  have inv: "run_inv r" using assms(1) by (rule reachable_run_inv)
  have st: "rs_state r \<noteq> PAUSED" and ctx: "rs_suspension_context r = None"
    using assms(2) inv by (auto simp: pause_Inr run_inv_def split: if_splits)
  define c where "c = \<lparr> sc_state = rs_state r, sc_suspended_state = rs_suspended_state r,
     sc_suspension_kind = rs_suspension_kind r, sc_pending_gate = rs_pending_gate r,
     sc_pending_evidence_digest = rs_pending_evidence_digest r \<rparr>"
  from assms(2) have p: "p = r\<lparr> rs_state := PAUSED, rs_suspended_state := Some (rs_state r),
      rs_suspension_kind := Some PAUSE, rs_suspension_context := Some c, rs_pending_gate := None,
      rs_pending_evidence_digest := None, rs_version := rs_version r + 1 \<rparr>"
    by (simp add: pause_Inr Let_def with_state_Inr c_def)
  then have "rs_suspension_context p = Some c" by simp
  note res = resume_Inr_context [OF this]
  show ?thesis
    unfolding res using p st ctx validity_parts [OF inv] by (simp add: with_state_Inr c_def)
qed

theorem pause_resume_restores_witness:
  "\<exists>p. pause (hd (trace_of (take 5 publishing_ops))) = Inr p \<and>
     rs_pending_evidence_digest p = None \<and>
     resume p = Inr ((hd (trace_of (take 5 publishing_ops)))\<lparr> rs_version := 7 \<rparr>)"
proof -
  let ?r = "hd (trace_of (take 5 publishing_ops))"
  have "trace_of (take 5 publishing_ops) \<noteq> []" by code_simp
  then have "reachable ?r" using trace_of_history history_reachable list.set_sel(1) by blast
  moreover have "rs_state ?r = AWAITING_PR_APPROVAL" by code_simp
  then obtain p where p: "pause ?r = Inr p"
    using pause_enabled [OF reachable_run_inv [OF \<open>reachable ?r\<close>]] by (auto simp: op_enabled_def)
  moreover have "rs_version ?r + 2 = 7" by code_simp
  ultimately have "resume p = Inr (?r\<lparr> rs_version := 7 \<rparr>)" using pause_resume_restores by metis
  with p show ?thesis by (auto simp: pause_Inr with_state_Inr Let_def)
qed

text \<open>Completed, failed and cancelled are final: no operation is accepted, and whatever resource
  updates follow, the state stays.\<close>

theorem terminal_is_final:
  assumes "rs_state r \<in> set terminal_states"
  shows "(\<forall>op. \<exists>e. engine_apply r op = Inl e) \<and> (\<forall>r'. engine_step\<^sup>*\<^sup>* r r' \<longrightarrow> rs_state r' = rs_state r)"
proof (intro conjI allI impI)
  have rej: "engine_apply q op' \<noteq> Inr q'" if "rs_state q \<in> set terminal_states" for q op' q'
    using that by (cases op')
      (auto simp: engine_op_simps pause_Inr resume_def resume_interrupted_work_def split: option.splits)
  show "\<exists>e. engine_apply r op = Inl e" for op using rej [OF assms] by (cases "engine_apply r op") auto
  fix r'
  assume "engine_step\<^sup>*\<^sup>* r r'"
  then show "rs_state r' = rs_state r"
  proof (induction rule: rtranclp_induct)
    case base
    then show ?case by simp
  next
    case (step q q')
    with assms rej [of q] show ?case
      by (auto elim!: engine_stepE) (auto simp: with_resource_def Let_def)
  qed
qed

theorem terminal_is_final_witness:
  "\<exists>e. engine_apply ((new_run 1 2 3)\<lparr> rs_state := CANCELLED \<rparr>) (Transition PLANNING) = Inl e"
  by (rule terminal_is_final [THEN conjunct1, rule_format]) simp

text \<open>Every reachable run that is not finished can be cancelled: at once from every state but
  merging, and from merging after it falls back to monitoring.\<close>

theorem cancellation_always_possible:
  assumes "reachable r" and "rs_state r \<notin> set terminal_states"
  shows "\<exists>r'. rs_state r' = CANCELLED \<and>
    (if rs_state r = MERGING then (engine_step OO engine_step) r r' else engine_step r r')"
proof -
  have inv: "run_inv r" using assms(1) by (rule reachable_run_inv)
  show ?thesis
  proof (cases "rs_state r = MERGING")
    case True
    then obtain q where q: "engine_step r q" "rs_state q = MONITORING_PR"
      using transition_step [OF inv, of MONITORING_PR] by auto
    then obtain r' where "engine_step q r'" "rs_state r' = CANCELLED"
      using cancel_step [OF engine_step_inv [OF inv q(1)]] by auto
    with q True show ?thesis by auto
  next
    case False
    with cancel_step [OF inv assms(2)] show ?thesis by auto
  qed
qed

theorem cancellation_always_possible_witness:
  "\<exists>r'. rs_state r' = CANCELLED \<and> engine_step (new_run 1 2 3) r'"
proof -
  have "reachable (new_run 1 2 3)" by (auto simp: reachable_def)
  from cancellation_always_possible [OF this] show ?thesis by (simp add: new_run_def)
qed

text \<open>The version is a fence: between two snapshots of one run it counts the operations in between,
  so a snapshot seen again at the same version has not changed.\<close>

theorem version_is_a_fence:
  assumes "engine_step\<^sup>*\<^sup>* r r'"
  shows "(\<exists>n. (engine_step ^^ n) r r' \<and> rs_version r' = rs_version r + int n) \<and>
     (rs_version r' = rs_version r \<longrightarrow> r' = r)"
proof (intro conjI impI)
  show "\<exists>n. (engine_step ^^ n) r r' \<and> rs_version r' = rs_version r + int n"
    using assms by (rule engine_version.version_counts_steps)
  show "r' = r" if "rs_version r' = rs_version r"
    using engine_version.same_version_same_depth [OF rtranclp.rtrancl_refl assms] that by simp
qed

theorem version_is_a_fence_witness:
  "\<exists>r n. engine_step\<^sup>*\<^sup>* (new_run 1 2 3) r \<and> rs_state r = CANCELLED \<and>
     (engine_step ^^ n) (new_run 1 2 3) r \<and> rs_version r = int n"
proof -
  have "\<exists>r. engine_step (new_run 1 2 3) r \<and> rs_state r = CANCELLED"
    using cancel_step [OF new_run_inv] by (simp add: new_run_def)
  then obtain r where r: "engine_step\<^sup>*\<^sup>* (new_run 1 2 3) r" "rs_state r = CANCELLED" by blast
  with version_is_a_fence [OF r(1)] show ?thesis by (auto simp: new_run_def)
qed

text \<open>A plain transition into human intervention records no suspended state, so no resolution of the
  resulting intervention is ever accepted: only failure and cancellation remain.\<close>

theorem transition_to_intervention_unresolvable:
  assumes "transition r AWAITING_HUMAN_INTERVENTION = Inr r'"
  shows "rs_state r' = AWAITING_HUMAN_INTERVENTION \<and> (\<forall>t. resolve_intervention r' t =
     Inl (invalid AWAITING_HUMAN_INTERVENTION (Some t) ''intervention has no suspended state''))"
  using assms by (auto simp: transition_Inr with_state_Inr resolve_intervention_def)

theorem transition_to_intervention_unresolvable_witness:
  "\<exists>r'. transition (hd (trace_of (take 3 publishing_ops))) AWAITING_HUMAN_INTERVENTION = Inr r' \<and>
     resolve_intervention r' IMPLEMENTING =
       Inl (invalid AWAITING_HUMAN_INTERVENTION (Some IMPLEMENTING) ''intervention has no suspended state'')"
proof -
  let ?r = "hd (trace_of (take 3 publishing_ops))"
  have "trace_of (take 3 publishing_ops) \<noteq> []" by code_simp
  then have "run_inv ?r" using trace_of_history history_run_inv list.set_sel(1) by blast
  moreover have "rs_state ?r = IMPLEMENTING" by code_simp
  ultimately obtain r' where "transition ?r AWAITING_HUMAN_INTERVENTION = Inr r'"
    using transition_ops_enabled(1) [of ?r AWAITING_HUMAN_INTERVENTION] by (auto simp: op_enabled_def)
  with transition_to_intervention_unresolvable [OF this] show ?thesis by auto
qed

end
