(* ===== verification/Forge_Run_Store.thy ===== *)
theory Forge_Run_Store
  imports Forge_Engine Forge_Operation
begin

text \<open>
  The run repository: \<^verbatim>\<open>persistence/repositories/runs.py\<close> over the table of
  \<^verbatim>\<open>persistence/models/run.py\<close>, with the event log of \<^verbatim>\<open>persistence/repositories/events.py\<close>.
  A row keeps the columns as the database does, enums as their text; the repository decodes a row
  under its lock, applies one operation of the state engine, writes the row back and appends the
  causal event. A transaction that raises is rolled back: an operation returns either an error or a
  result with the new store. The check constraints of the table are evaluated in SQL's three-valued
  logic when the row is flushed.
\<close>

section \<open>Enumerations as text\<close>

fun run_state_str :: "run_state \<Rightarrow> string" where
  "run_state_str CREATED = ''CREATED''"
| "run_state_str PLANNING = ''PLANNING''"
| "run_state_str AWAITING_PLAN_APPROVAL = ''AWAITING_PLAN_APPROVAL''"
| "run_state_str PREPARING_WORKTREE = ''PREPARING_WORKTREE''"
| "run_state_str IMPLEMENTING = ''IMPLEMENTING''"
| "run_state_str VALIDATING = ''VALIDATING''"
| "run_state_str REVIEWING = ''REVIEWING''"
| "run_state_str REMEDIATING = ''REMEDIATING''"
| "run_state_str AWAITING_PR_APPROVAL = ''AWAITING_PR_APPROVAL''"
| "run_state_str PUBLISHING_PR = ''PUBLISHING_PR''"
| "run_state_str MONITORING_PR = ''MONITORING_PR''"
| "run_state_str AWAITING_HUMAN_INTERVENTION = ''AWAITING_HUMAN_INTERVENTION''"
| "run_state_str AWAITING_MERGE_APPROVAL = ''AWAITING_MERGE_APPROVAL''"
| "run_state_str MERGING = ''MERGING''"
| "run_state_str PAUSED = ''PAUSED''"
| "run_state_str COMPLETED = ''COMPLETED''"
| "run_state_str FAILED = ''FAILED''"
| "run_state_str CANCELLED = ''CANCELLED''"

definition run_states :: "run_state list" where
  "run_states = [CREATED, PLANNING, AWAITING_PLAN_APPROVAL, PREPARING_WORKTREE, IMPLEMENTING, VALIDATING, REVIEWING,
     REMEDIATING, AWAITING_PR_APPROVAL, PUBLISHING_PR, MONITORING_PR, AWAITING_HUMAN_INTERVENTION,
     AWAITING_MERGE_APPROVAL, MERGING, PAUSED, COMPLETED, FAILED, CANCELLED]"

fun suspension_kind_str :: "suspension_kind \<Rightarrow> string" where
  "suspension_kind_str PAUSE = ''PAUSE''"
| "suspension_kind_str INTERVENTION = ''INTERVENTION''"

fun gate_str :: "approval_gate \<Rightarrow> string" where
  "gate_str Gate_PLAN = ''plan''"
| "gate_str Gate_PR = ''pr''"
| "gate_str Gate_MERGE = ''merge''"

fun resource_state_str :: "resource_state \<Rightarrow> string" where
  "resource_state_str Res_DISABLED = ''DISABLED''"
| "resource_state_str Res_PROVISIONING = ''PROVISIONING''"
| "resource_state_str Res_ACTIVE = ''ACTIVE''"
| "resource_state_str Res_FAILED = ''FAILED''"
| "resource_state_str Res_REMOVED = ''REMOVED''"

text \<open>The enum call \<^verbatim>\<open>Enum(value)\<close>: the member with that value.\<close>

definition enum_of :: "('a \<Rightarrow> string) \<Rightarrow> 'a list \<Rightarrow> string \<Rightarrow> 'a option" where
  "enum_of name members s = find (\<lambda>m. name m = s) members"

section \<open>Rows\<close>

datatype store_error =
    PersistenceDataError string
  | PersistenceError string
  | RunNotFound uuid
  | ConcurrencyConflict uuid int int
  | RunCreationError string
  | Integrity
  | Engine engine_error
  | Event py_exn

record run_row =
  rw_id :: uuid
  rw_project_id :: uuid
  rw_task_id :: uuid
  rw_policy_version :: int
  rw_state :: string
  rw_version :: int
  rw_suspended_state :: "string option"
  rw_suspension_kind :: "string option"
  rw_context_schema_version :: "int option"
  rw_suspension_context :: "pyval option"
  rw_local_remediation_count :: int
  rw_remote_remediation_count :: int
  rw_token_budget :: "int option"
  rw_cost_budget_minor :: int
  rw_duration_budget_seconds :: int
  rw_worktree_path :: "string option"
  rw_branch_name :: "string option"
  rw_base_ref :: "string option"
  rw_base_sha :: "string option"
  rw_database_state :: string
  rw_database_name :: "string option"
  rw_database_role :: "string option"
  rw_secret_id :: "string option"
  rw_pending_gate :: "string option"
  rw_pending_evidence_digest :: "string option"
  rw_workflow :: "pyval option"

abbreviation data_error :: "string \<Rightarrow> store_error + 'a" where
  "data_error m \<equiv> Inl (PersistenceDataError m)"

definition decode_run_state :: "pyval \<Rightarrow> string \<Rightarrow> store_error + run_state" where
  "decode_run_state v field_name = (case v of
     PStr s \<Rightarrow> (case enum_of run_state_str run_states s of
       Some st \<Rightarrow> Inr st | None \<Rightarrow> data_error (field_name @ '' contains unknown state '' @ py_repr s))
   | _ \<Rightarrow> data_error (field_name @ '' is not a run-state string''))"

definition decode_suspension_kind :: "pyval \<Rightarrow> store_error + suspension_kind" where
  "decode_suspension_kind v = (case v of
     PStr s \<Rightarrow> (case enum_of suspension_kind_str [PAUSE, INTERVENTION] s of
       Some k \<Rightarrow> Inr k | None \<Rightarrow> data_error (''unknown suspension kind '' @ py_repr s))
   | _ \<Rightarrow> data_error ''suspension kind is not a string'')"

definition decode_resource_state :: "string \<Rightarrow> store_error + resource_state" where
  "decode_resource_state s = (case enum_of resource_state_str [Res_DISABLED, Res_PROVISIONING, Res_ACTIVE, Res_FAILED, Res_REMOVED] s of
     Some k \<Rightarrow> Inr k | None \<Rightarrow> data_error (''database_state contains unknown state '' @ py_repr s))"

definition decode_pending_gate :: "pyval \<Rightarrow> store_error + approval_gate option" where
  "decode_pending_gate v = (case v of
     PNone \<Rightarrow> Inr None
   | PStr s \<Rightarrow> (case enum_of gate_str [Gate_PLAN, Gate_PR, Gate_MERGE] s of
       Some g \<Rightarrow> Inr (Some g) | None \<Rightarrow> data_error ''pending gate is unknown'')
   | _ \<Rightarrow> data_error ''pending gate is not a string'')"

definition decode_pending_digest :: "pyval \<Rightarrow> store_error + string option" where
  "decode_pending_digest v = (case v of
     PNone \<Rightarrow> Inr None
   | PStr s \<Rightarrow> if is_digest64 s then Inr (Some s) else data_error ''pending evidence digest is not a lowercase SHA-256''
   | _ \<Rightarrow> data_error ''pending evidence digest is not a lowercase SHA-256'')"

definition decode_optional :: "(pyval \<Rightarrow> store_error + 'a) \<Rightarrow> pyval \<Rightarrow> store_error + 'a option" where
  "decode_optional f v = (if v = PNone then Inr None else ebind (f v) (\<lambda>x. Inr (Some x)))"

definition decode_nonnegative :: "int \<Rightarrow> string \<Rightarrow> store_error + int" where
  "decode_nonnegative n field_name = (if n < 0 then data_error (field_name @ '' must be a nonnegative integer'') else Inr n)"

definition column :: "string option \<Rightarrow> pyval" where
  "column v = (case v of None \<Rightarrow> PNone | Some s \<Rightarrow> PStr s)"

definition gate_by_state :: "run_state \<Rightarrow> approval_gate option" where
  "gate_by_state s = map_of [(AWAITING_PLAN_APPROVAL, Gate_PLAN), (AWAITING_PR_APPROVAL, Gate_PR),
     (AWAITING_MERGE_APPROVAL, Gate_MERGE)] s"

definition validate_pending_shape :: "run_state \<Rightarrow> approval_gate option \<Rightarrow> string option \<Rightarrow> store_error option" where
  "validate_pending_shape state gate digest = (case gate_by_state state of
     None \<Rightarrow> when_raise (gate \<noteq> None \<or> digest \<noteq> None) (PersistenceDataError ''non-approval run has pending approval metadata'')
   | Some expected \<Rightarrow> when_raise (gate \<noteq> Some expected \<or> digest = None)
       (PersistenceDataError ''approval run has mismatched pending approval metadata''))"

text \<open>The constructor of the domain value, its exceptions turned into a data error.\<close>

definition exn_text :: "py_exn \<Rightarrow> string" where
  "exn_text e = (case e of TypeError m \<Rightarrow> m | ValueError m \<Rightarrow> m | KeyError m \<Rightarrow> m)"

definition as_data_error :: "(py_exn \<Rightarrow> string) \<Rightarrow> 'a result \<Rightarrow> store_error + 'a" where
  "as_data_error message m = (case m of Inl e \<Rightarrow> data_error (message e) | Inr x \<Rightarrow> Inr x)"

definition context_keys :: "int \<Rightarrow> string list" where
  "context_keys schema_version = [''state'', ''suspended_state'', ''suspension_kind''] @
     (if schema_version = 1 then [] else [''pending_gate'', ''pending_evidence_digest''])"

definition json_at :: "(string, pyval) dict \<Rightarrow> string \<Rightarrow> pyval" where
  "json_at d k = (case map_of d k of Some v \<Rightarrow> v | None \<Rightarrow> PNone)"

definition context_from_json :: "(string, pyval) dict \<Rightarrow> int \<Rightarrow> store_error + suspension_context" where
  "context_from_json d schema_version =
     (if set (map fst d) \<noteq> set (context_keys schema_version)
      then data_error (''suspension context keys do not match schema version '' @ int_str schema_version)
      else ebind (decode_run_state (json_at d ''state'') ''suspension_context.state'') (\<lambda>state.
        ebind (decode_optional (\<lambda>v. decode_run_state v ''suspension_context.suspended_state'') (json_at d ''suspended_state'')) (\<lambda>suspended.
        ebind (decode_optional decode_suspension_kind (json_at d ''suspension_kind'')) (\<lambda>kind.
        ebind (if schema_version = 1 then Inr None else decode_pending_gate (json_at d ''pending_gate'')) (\<lambda>gate.
        ebind (if schema_version = 1 then Inr None else decode_pending_digest (json_at d ''pending_evidence_digest'')) (\<lambda>digest.
          as_data_error (\<lambda>_. ''suspension context approval metadata is malformed'')
            (suspension_context_make \<lparr> sc_state = state, sc_suspended_state = suspended, sc_suspension_kind = kind,
               sc_pending_gate = gate, sc_pending_evidence_digest = digest \<rparr>)))))))"

definition paused_context_guards :: "run_state \<Rightarrow> int \<Rightarrow> suspension_context \<Rightarrow> store_error option" where
  "paused_context_guards suspended schema_version c =
     (let has_pending = sc_pending_gate c \<noteq> None \<or> sc_pending_evidence_digest c \<noteq> None;
          raise = (\<lambda>cond m. when_raise cond (PersistenceDataError m)) in seq_raise [
     raise (sc_state c \<noteq> suspended) ''paused run context state does not match suspended state'',
     raise (schema_version = 1 \<and> has_pending) ''version-1 suspension context cannot contain approval metadata'',
     raise (schema_version = 2 \<and> \<not> has_pending) ''version-2 suspension context requires approval metadata'',
     raise ((sc_suspended_state c = None) \<noteq> (sc_suspension_kind c = None)) ''nested suspension context has inconsistent shape'',
     raise (sc_suspended_state c = Some PAUSED) ''suspension context cannot retain PAUSED'',
     raise (sc_suspension_kind c = Some PAUSE) ''nested pause context is not a supported state shape'',
     raise (gate_by_state (sc_state c) \<noteq> None \<and> (sc_suspended_state c \<noteq> None \<or> sc_suspension_kind c \<noteq> None))
       ''approval suspension context has nested suspension metadata'',
     raise (gate_by_state (sc_state c) = None \<and> has_pending) ''non-approval suspension context has approval metadata'',
     raise (sc_suspension_kind c = Some INTERVENTION \<and> (case sc_suspended_state c of None \<Rightarrow> True
         | Some s \<Rightarrow> sc_state c \<noteq> AWAITING_HUMAN_INTERVENTION \<or> AWAITING_HUMAN_INTERVENTION \<notin> set (LEGAL s)))
       ''nested intervention context is malformed'',
     raise (sc_suspension_kind c = None \<and> (sc_state c = AWAITING_HUMAN_INTERVENTION \<or> sc_state c \<in> set terminal_states))
       ''nested active context has an unsupported state''])"

definition decode_suspension_context ::
  "run_row \<Rightarrow> run_state \<Rightarrow> run_state option \<Rightarrow> suspension_kind option \<Rightarrow> store_error + suspension_context option" where
  "decode_suspension_context row state suspended kind =
     (if state = PAUSED then
        (if rw_pending_gate row \<noteq> None \<or> rw_pending_evidence_digest row \<noteq> None
         then data_error ''paused run cannot have top-level approval metadata''
         else case (suspended, rw_context_schema_version row, rw_suspension_context row) of
           (Some s, Some schema_version, Some (PDict d)) \<Rightarrow>
             if kind \<noteq> Some PAUSE \<or> schema_version \<notin> {1, 2} then data_error ''paused run has malformed suspension metadata''
             else if s \<in> set terminal_states \<or> s = PAUSED then data_error ''paused run has an unsupported suspended state''
             else ebind (context_from_json d schema_version) (\<lambda>c.
               raising (paused_context_guards s schema_version c) (Some c))
         | _ \<Rightarrow> data_error ''paused run has malformed suspension metadata'')
      else if state = AWAITING_HUMAN_INTERVENTION then
        (case suspended of
           Some s \<Rightarrow> if kind \<noteq> Some INTERVENTION \<or> rw_context_schema_version row \<noteq> None \<or> rw_suspension_context row \<noteq> None \<or>
               AWAITING_HUMAN_INTERVENTION \<notin> set (LEGAL s)
             then data_error ''intervention run has malformed suspension metadata'' else Inr None
         | None \<Rightarrow> data_error ''intervention run has malformed suspension metadata'')
      else if suspended \<noteq> None \<or> kind \<noteq> None then data_error ''non-suspended run has suspension metadata''
      else if rw_context_schema_version row \<noteq> None \<or> rw_suspension_context row \<noteq> None
      then data_error ''non-suspended run has suspension context''
      else Inr None)"

definition workflow_from_record :: "pyval option \<Rightarrow> store_error + workflow_preferences option" where
  "workflow_from_record v = as_data_error (\<lambda>e. ''run workflow is malformed: '' @ exn_text e)
     (workflow_from_mapping (case v of None \<Rightarrow> PNone | Some w \<Rightarrow> w))"

definition snapshot_from_record :: "run_row \<Rightarrow> store_error + run_snapshot" where
  "snapshot_from_record row =
     ebind (decode_run_state (PStr (rw_state row)) ''state'') (\<lambda>state.
     ebind (decode_nonnegative (rw_version row) ''version'') (\<lambda>version.
     ebind (decode_nonnegative (rw_local_remediation_count row) ''local_remediation_count'') (\<lambda>local_count.
     ebind (decode_nonnegative (rw_remote_remediation_count row) ''remote_remediation_count'') (\<lambda>remote_count.
     ebind (decode_optional (\<lambda>v. decode_run_state v ''suspended_state'') (column (rw_suspended_state row))) (\<lambda>suspended.
     ebind (decode_optional decode_suspension_kind (column (rw_suspension_kind row))) (\<lambda>kind.
     ebind (decode_pending_gate (column (rw_pending_gate row))) (\<lambda>gate.
     ebind (decode_pending_digest (column (rw_pending_evidence_digest row))) (\<lambda>digest.
     ebind (raising (validate_pending_shape state gate digest) ()) (\<lambda>_.
     ebind (decode_suspension_context row state suspended kind) (\<lambda>context.
     ebind (decode_resource_state (rw_database_state row)) (\<lambda>database_state.
     ebind (workflow_from_record (rw_workflow row)) (\<lambda>workflow.
       let r = \<lparr> rs_id = rw_id row, rs_project_id = rw_project_id row, rs_task_id = rw_task_id row, rs_state = state,
            rs_version = version, rs_suspended_state = suspended, rs_local_remediation_count = local_count,
            rs_remote_remediation_count = remote_count, rs_suspension_kind = kind, rs_suspension_context = context,
            rs_policy_version = Some (rw_policy_version row), rs_base_ref = rw_base_ref row, rs_base_sha = rw_base_sha row,
            rs_branch_name = rw_branch_name row, rs_worktree_path = rw_worktree_path row, rs_database_state = database_state,
            rs_database_name = rw_database_name row, rs_database_role = rw_database_role row, rs_secret_id = rw_secret_id row,
            rs_pending_gate = gate, rs_pending_evidence_digest = digest, rs_workflow = workflow \<rparr> in
       as_data_error (\<lambda>e. ''run fields are malformed: '' @ exn_text e) (raising (run_snapshot_post_init r) r)))))))))))))"

section \<open>Writing a row\<close>

definition has_pending :: "suspension_context \<Rightarrow> bool" where
  "has_pending c = (sc_pending_gate c \<noteq> None \<or> sc_pending_evidence_digest c \<noteq> None)"

definition context_json :: "suspension_context \<Rightarrow> (string, pyval) dict" where
  "context_json c = [(''state'', PStr (run_state_str (sc_state c))),
     (''suspended_state'', column (map_option run_state_str (sc_suspended_state c))),
     (''suspension_kind'', column (map_option suspension_kind_str (sc_suspension_kind c)))] @
     (if has_pending c then [(''pending_gate'', column (map_option gate_str (sc_pending_gate c))),
        (''pending_evidence_digest'', column (sc_pending_evidence_digest c))] else [])"

definition workflow_column :: "workflow_preferences option \<Rightarrow> pyval option" where
  "workflow_column w = map_option (\<lambda>p. PDict (workflow_to_dict p)) w"

definition apply_snapshot :: "run_row \<Rightarrow> run_snapshot \<Rightarrow> run_row" where
  "apply_snapshot row r = row\<lparr> rw_state := run_state_str (rs_state r), rw_version := rs_version r,
     rw_suspended_state := map_option run_state_str (rs_suspended_state r),
     rw_suspension_kind := map_option suspension_kind_str (rs_suspension_kind r),
     rw_pending_gate := map_option gate_str (rs_pending_gate r),
     rw_pending_evidence_digest := rs_pending_evidence_digest r,
     rw_local_remediation_count := rs_local_remediation_count r,
     rw_remote_remediation_count := rs_remote_remediation_count r,
     rw_worktree_path := rs_worktree_path r, rw_workflow := workflow_column (rs_workflow r),
     rw_branch_name := rs_branch_name r, rw_database_state := resource_state_str (rs_database_state r),
     rw_database_name := rs_database_name r, rw_database_role := rs_database_role r, rw_secret_id := rs_secret_id r,
     rw_context_schema_version := map_option (\<lambda>c. if has_pending c then 2 else 1) (rs_suspension_context r),
     rw_suspension_context := map_option (\<lambda>c. PDict (context_json c)) (rs_suspension_context r) \<rparr>"

section \<open>The constraints of the table\<close>

text \<open>SQL's three-valued logic: \<open>None\<close> is \<^verbatim>\<open>NULL\<close>. A check constraint rejects a row only when it is false.\<close>

type_synonym sql_bool = "bool option"

definition sql_and :: "sql_bool list \<Rightarrow> sql_bool" where
  "sql_and bs = (if Some False \<in> set bs then Some False else if None \<in> set bs then None else Some True)"

definition sql_or :: "sql_bool list \<Rightarrow> sql_bool" where
  "sql_or bs = (if Some True \<in> set bs then Some True else if None \<in> set bs then None else Some False)"

definition sql_in :: "'a option \<Rightarrow> 'a list \<Rightarrow> sql_bool" where
  "sql_in v xs = map_option (\<lambda>x. x \<in> set xs) v"

definition not_null :: "'a option \<Rightarrow> sql_bool" where
  "not_null v = Some (v \<noteq> None)"

definition is_null :: "'a option \<Rightarrow> sql_bool" where
  "is_null v = Some (v = None)"

definition sql_ge :: "int option \<Rightarrow> int \<Rightarrow> sql_bool" where
  "sql_ge v n = map_option (\<lambda>x. n \<le> x) v"

definition pause_source_states :: "run_state list" where
  "pause_source_states = filter (\<lambda>s. s \<notin> {PAUSED, COMPLETED, FAILED, CANCELLED}) run_states"

definition intervention_source_states :: "run_state list" where
  "intervention_source_states = [PLANNING, PREPARING_WORKTREE, IMPLEMENTING, VALIDATING, REVIEWING, REMEDIATING,
     AWAITING_PR_APPROVAL, PUBLISHING_PR, MONITORING_PR, AWAITING_MERGE_APPROVAL, MERGING]"

definition value_checks :: "run_row \<Rightarrow> sql_bool list" where
  "value_checks row = [
     sql_in (Some (rw_state row)) (map run_state_str run_states),
     Some (0 \<le> rw_version row),
     Some (0 \<le> rw_local_remediation_count row \<and> 0 \<le> rw_remote_remediation_count row),
     sql_and [sql_ge (rw_token_budget row) 0, Some (0 \<le> rw_cost_budget_minor row), Some (0 \<le> rw_duration_budget_seconds row)],
     sql_in (Some (rw_database_state row)) (map resource_state_str [Res_DISABLED, Res_PROVISIONING, Res_ACTIVE, Res_FAILED, Res_REMOVED])]"

definition database_resource_shape :: "run_row \<Rightarrow> sql_bool" where
  "database_resource_shape row = sql_or [
     sql_and [sql_in (Some (rw_database_state row)) [''DISABLED'', ''REMOVED''],
       is_null (rw_database_name row), is_null (rw_database_role row), is_null (rw_secret_id row)],
     sql_in (Some (rw_database_state row)) [''PROVISIONING'', ''FAILED''],
     sql_and [sql_in (Some (rw_database_state row)) [''ACTIVE''],
       not_null (rw_database_name row), not_null (rw_database_role row), not_null (rw_secret_id row)]]"

definition awaits :: "run_row \<Rightarrow> string \<Rightarrow> string \<Rightarrow> sql_bool" where
  "awaits row state gate = sql_and [sql_in (Some (rw_state row)) [state], sql_in (rw_pending_gate row) [gate],
     not_null (rw_pending_evidence_digest row)]"

definition pending_gate_shape :: "run_row \<Rightarrow> sql_bool" where
  "pending_gate_shape row = sql_or [
     sql_and [Some (rw_state row \<notin> {''AWAITING_PLAN_APPROVAL'', ''AWAITING_PR_APPROVAL'', ''AWAITING_MERGE_APPROVAL''}),
       is_null (rw_pending_gate row), is_null (rw_pending_evidence_digest row)],
     awaits row ''AWAITING_PLAN_APPROVAL'' ''plan'',
     awaits row ''AWAITING_PR_APPROVAL'' ''pr'',
     awaits row ''AWAITING_MERGE_APPROVAL'' ''merge'']"

definition suspension_state_shape :: "run_row \<Rightarrow> sql_bool" where
  "suspension_state_shape row = sql_or [
     sql_and [sql_in (Some (rw_state row)) [''PAUSED''], not_null (rw_suspended_state row),
       sql_in (rw_suspended_state row) (map run_state_str pause_source_states), not_null (rw_suspension_kind row),
       sql_in (rw_suspension_kind row) [''PAUSE''], not_null (rw_suspension_context row),
       not_null (rw_context_schema_version row), sql_ge (rw_context_schema_version row) 1],
     sql_and [sql_in (Some (rw_state row)) [''AWAITING_HUMAN_INTERVENTION''], not_null (rw_suspended_state row),
       sql_in (rw_suspended_state row) (map run_state_str intervention_source_states), not_null (rw_suspension_kind row),
       sql_in (rw_suspension_kind row) [''INTERVENTION''], is_null (rw_suspension_context row), is_null (rw_context_schema_version row)],
     sql_and [Some (rw_state row \<notin> {''PAUSED'', ''AWAITING_HUMAN_INTERVENTION''}), is_null (rw_suspended_state row),
       is_null (rw_suspension_kind row), is_null (rw_suspension_context row), is_null (rw_context_schema_version row)]]"

text \<open>The column types: 32-bit integers and bounded text.\<close>

definition int32 :: "int \<Rightarrow> bool" where
  "int32 n = (- (2 ^ 31) \<le> n \<and> n < 2 ^ 31)"

definition varchar :: "nat \<Rightarrow> string option \<Rightarrow> bool" where
  "varchar n v = (case v of None \<Rightarrow> True | Some s \<Rightarrow> length s \<le> n)"

definition columns_fit :: "run_row \<Rightarrow> bool" where
  "columns_fit row = (list_all int32 [rw_policy_version row, rw_version row, rw_local_remediation_count row,
       rw_remote_remediation_count row, rw_cost_budget_minor row, rw_duration_budget_seconds row] \<and>
     (case rw_token_budget row of None \<Rightarrow> True | Some n \<Rightarrow> n \<le> max_signed_bigint) \<and>
     varchar 512 (rw_branch_name row) \<and> varchar 512 (rw_base_ref row) \<and> varchar 40 (rw_base_sha row) \<and>
     varchar 63 (rw_database_name row) \<and> varchar 63 (rw_database_role row) \<and> varchar 512 (rw_secret_id row) \<and>
     varchar 64 (rw_pending_evidence_digest row))"

definition row_checks :: "run_row \<Rightarrow> bool" where
  "row_checks row = (Some False \<notin> set (value_checks row @
     [database_resource_shape row, pending_gate_shape row, suspension_state_shape row]))"

definition row_ok :: "run_row \<Rightarrow> bool" where
  "row_ok row = (columns_fit row \<and> row_checks row)"

section \<open>The event log\<close>

record project_row =
  pj_current_policy_version :: "int option"
  pj_policies :: "int list"

record run_store =
  st_runs :: "uuid \<Rightarrow> run_row option"
  st_events :: "run_event list"
  st_projects :: "uuid \<Rightarrow> project_row option"
  st_tasks :: "uuid \<Rightarrow> uuid option"

text \<open>The correlation context of the caller and the redactor the event repository was given.\<close>

record event_context =
  ec_run_id :: "uuid option"
  ec_correlation :: "(string, pyval) dict"
  ec_redact :: "(string, pyval) dict \<Rightarrow> (string, pyval) dict"

definition thaw_dict :: "(string, pyval) dict \<Rightarrow> (string, pyval) dict" where
  "thaw_dict d = map (\<lambda>(k, v). (k, thaw_payload v)) d"

definition correlated :: "event_context \<Rightarrow> (string, pyval) dict \<Rightarrow> (string, pyval) dict" where
  "correlated ctx payload = (if ec_correlation ctx = [] then payload
     else dict_set ''correlation'' (PDict (foldl (\<lambda>d (k, v). dict_set k v d)
       (case map_of payload ''correlation'' of Some (PDict d) \<Rightarrow> d | _ \<Rightarrow> []) (ec_correlation ctx))) payload)"

definition run_events :: "run_store \<Rightarrow> uuid \<Rightarrow> run_event list" where
  "run_events st run_id = filter (\<lambda>e. ev_run_id e = run_id) (st_events st)"

definition event_sequence :: "run_event \<Rightarrow> int" where
  "event_sequence e = (case ev_sequence e of None \<Rightarrow> 0 | Some n \<Rightarrow> n)"

definition next_sequence :: "run_store \<Rightarrow> uuid \<Rightarrow> int" where
  "next_sequence st run_id = foldr max (map event_sequence (run_events st run_id)) 0 + 1"

definition event_append :: "event_context \<Rightarrow> run_store \<Rightarrow> run_event \<Rightarrow> store_error + run_store" where
  "event_append ctx st e =
     (let payload = correlated ctx (thaw_dict (ev_payload e)) in
      if ec_run_id ctx \<noteq> None \<and> ec_run_id ctx \<noteq> Some (ev_run_id e)
      then data_error ''event run does not match the active correlation context''
      else if st_runs st (ev_run_id e) = None then Inl (RunNotFound (ev_run_id e))
      else let next = next_sequence st (ev_run_id e) in
        if ev_sequence e \<noteq> None \<and> ev_sequence e \<noteq> Some next
        then data_error (''event sequence '' @ int_str (event_sequence e) @ '' is not the next sequence '' @ int_str next)
        else case run_event_make (e\<lparr> ev_sequence := Some next, ev_payload := ec_redact ctx payload \<rparr>) of
            Inl x \<Rightarrow> Inl (Event x)
          | Inr stored \<Rightarrow>
              if ev_event_id e \<in> set (map ev_event_id (st_events st)) then Inl Integrity
              else Inr (st\<lparr> st_events := st_events st @ [stored\<lparr> ev_payload := thaw_dict (ev_payload stored) \<rparr>] \<rparr>))"

definition list_after :: "run_store \<Rightarrow> uuid \<Rightarrow> int \<Rightarrow> run_event list" where
  "list_after st run_id cursor = sort_key event_sequence (filter (\<lambda>e. cursor < event_sequence e) (run_events st run_id))"

section \<open>Operations\<close>

record event_args =
  ea_event_id :: uuid
  ea_event_type :: string
  ea_payload :: "(string, pyval) dict"
  ea_actor_class :: string
  ea_actor_id :: "uuid option"
  ea_payload_schema_version :: int
  ea_occurred_at :: datetime

definition causal_event :: "uuid \<Rightarrow> int \<Rightarrow> event_args \<Rightarrow> run_event" where
  "causal_event run_id version a = \<lparr> ev_run_id = run_id, ev_run_version = version, ev_event_type = ea_event_type a,
     ev_payload = ea_payload a, ev_event_id = ea_event_id a, ev_sequence = None, ev_actor_class = ea_actor_class a,
     ev_actor_id = ea_actor_id a, ev_payload_schema_version = ea_payload_schema_version a, ev_occurred_at = ea_occurred_at a \<rparr>"

text \<open>A flushed row must satisfy its checks and its foreign keys.\<close>

definition store_accepts :: "run_store \<Rightarrow> run_row \<Rightarrow> bool" where
  "store_accepts st row = (row_ok row \<and> st_tasks st (rw_task_id row) = Some (rw_project_id row) \<and>
     (case st_projects st (rw_project_id row) of None \<Rightarrow> False | Some p \<Rightarrow> rw_policy_version row \<in> set (pj_policies p)))"

text \<open>Every change of a run: lock and decode the row, fence its version, change the snapshot, write it and its
  event, flush. \<open>ctx = None\<close> is a repository without an event repository.\<close>

definition change_state :: "event_context option \<Rightarrow> run_store \<Rightarrow> uuid \<Rightarrow> int \<Rightarrow> (run_snapshot \<Rightarrow> store_error + run_snapshot) \<Rightarrow>
    event_args \<Rightarrow> (run_row \<Rightarrow> run_row) \<Rightarrow> store_error + (run_snapshot \<times> run_store)" where
  "change_state ctx st run_id expected_version change args record_update = (case st_runs st run_id of
     None \<Rightarrow> Inl (RunNotFound run_id)
   | Some row \<Rightarrow>
       if rw_version row \<noteq> expected_version then Inl (ConcurrencyConflict run_id expected_version (rw_version row))
       else ebind (snapshot_from_record row) (\<lambda>current.
         ebind (change current) (\<lambda>changed. case ctx of
           None \<Rightarrow> Inl (PersistenceError ''run repository is not bound to an event repository'')
         | Some events \<Rightarrow> (case run_event_make (causal_event run_id (rs_version changed) args) of
             Inl e \<Rightarrow> Inl (Event e)
           | Inr event \<Rightarrow>
               let row' = record_update (apply_snapshot row changed) in
               ebind (event_append events (st\<lparr> st_runs := (st_runs st)(run_id \<mapsto> row') \<rparr>) event) (\<lambda>st'.
                 if store_accepts st row' then Inr (changed, st') else Inl Integrity)))))"

definition by_engine :: "'a engine_result \<Rightarrow> store_error + 'a" where
  "by_engine m = (case m of Inl e \<Rightarrow> Inl (Engine e) | Inr x \<Rightarrow> Inr x)"

definition engine_change :: "engine_op \<Rightarrow> run_snapshot \<Rightarrow> store_error + run_snapshot" where
  "engine_change op current = by_engine (engine_apply current op)"

definition repo_transition where
  "repo_transition ctx st run_id version target args = change_state ctx st run_id version (engine_change (Transition target)) args id"

definition repo_await_approval where
  "repo_await_approval ctx st run_id version gate digest args =
     change_state ctx st run_id version (engine_change (AwaitApproval gate digest)) args id"

definition repo_intervene where
  "repo_intervene ctx st run_id version args = change_state ctx st run_id version (engine_change Intervene) args id"

definition repo_resume_interrupted_work where
  "repo_resume_interrupted_work ctx st run_id version args = change_state ctx st run_id version (engine_change ResumeInterruptedWork)
     (args\<lparr> ea_actor_class := ''operator'', ea_payload_schema_version := 1 \<rparr>) id"

definition repo_pause where
  "repo_pause ctx st run_id version args = change_state ctx st run_id version (engine_change Pause) args id"

definition repo_resume where
  "repo_resume ctx st run_id version args = change_state ctx st run_id version (engine_change Resume) args id"

text \<open>\<^verbatim>\<open>dataclasses.replace\<close> constructs, and so validates, the copy.\<close>

definition replaced :: "run_snapshot \<Rightarrow> store_error + run_snapshot" where
  "replaced r = by_engine (lift_exn (raising (run_snapshot_post_init r) r))"

definition local_remediation :: "bool \<Rightarrow> int \<Rightarrow> run_snapshot \<Rightarrow> store_error + run_snapshot" where
  "local_remediation automatic limit current =
     (if automatic then
        (if rs_state current \<notin> {VALIDATING, REVIEWING, AWAITING_PR_APPROVAL}
         then Inl (Engine (invalid (rs_state current) (Some REMEDIATING)
           ''automatic local remediation requires validation, review or PR approval''))
         else if limit \<le> rs_local_remediation_count current then by_engine (intervene current)
         else ebind (replaced (current\<lparr> rs_local_remediation_count := rs_local_remediation_count current + 1 \<rparr>)) (\<lambda>counted.
           by_engine (transition counted REMEDIATING)))
      else if rs_state current \<noteq> AWAITING_PR_APPROVAL
      then Inl (Engine (invalid (rs_state current) (Some REMEDIATING) ''human local remediation requires PR approval''))
      else by_engine (transition current REMEDIATING))"

definition begin_local_remediation where
  "begin_local_remediation ctx st run_id version automatic limit args =
     (if limit < 0 then Inl (PersistenceError ''local remediation limit must be a nonnegative integer'')
      else change_state ctx st run_id version (local_remediation automatic limit) args id)"

definition remote_remediation :: "int \<Rightarrow> run_snapshot \<Rightarrow> store_error + run_snapshot" where
  "remote_remediation limit current =
     (if rs_state current \<noteq> MONITORING_PR
      then Inl (Engine (invalid (rs_state current) (Some REMEDIATING) ''remote remediation requires PR monitoring''))
      else if limit \<le> rs_remote_remediation_count current then by_engine (intervene current)
      else ebind (replaced (current\<lparr> rs_remote_remediation_count := rs_remote_remediation_count current + 1 \<rparr>)) (\<lambda>counted.
        by_engine (transition counted REMEDIATING)))"

definition begin_remote_remediation where
  "begin_remote_remediation ctx st run_id version limit args =
     (if limit < 0 then Inl (PersistenceError ''remote remediation limit must be a nonnegative integer'')
      else change_state ctx st run_id version (remote_remediation limit) args id)"

datatype plan_evidence = Plan_legacy plan_approval_evidence | Plan_subscription subscription_plan_approval_evidence

fun plan_evidence_digest :: "plan_evidence \<Rightarrow> string" where
  "plan_evidence_digest (Plan_legacy e) = canonical_evidence_digest (plan_evidence_fields e)"
| "plan_evidence_digest (Plan_subscription e) = canonical_evidence_digest (subscription_plan_evidence_fields e)"

fun plan_evidence_base :: "plan_evidence \<Rightarrow> plan_approval_evidence" where
  "plan_evidence_base (Plan_legacy e) = e"
| "plan_evidence_base (Plan_subscription e) = plan_approval_evidence.truncate e"

definition set_budget :: "plan_evidence \<Rightarrow> run_row \<Rightarrow> run_row" where
  "set_budget evidence row = (let e = plan_evidence_base evidence in row\<lparr> rw_token_budget := pe_token_budget e,
     rw_cost_budget_minor := pe_cost_budget_minor e, rw_duration_budget_seconds := pe_duration_budget_seconds e \<rparr>)"

definition evidence_binds :: "plan_evidence \<Rightarrow> run_snapshot \<Rightarrow> bool" where
  "evidence_binds evidence r = (let e = plan_evidence_base evidence in
     rs_policy_version r = Some (pe_policy_version e) \<and> rs_base_ref r = Some (pe_base_ref e) \<and> rs_base_sha r = Some (pe_base_sha e))"

definition approved_change :: "plan_evidence \<Rightarrow> run_snapshot \<Rightarrow> store_error + run_snapshot" where
  "approved_change evidence current =
     (if rs_state current \<noteq> AWAITING_PLAN_APPROVAL \<or> rs_pending_gate current \<noteq> Some Gate_PLAN \<or>
         rs_pending_evidence_digest current \<noteq> Some (plan_evidence_digest evidence) \<or> \<not> evidence_binds evidence current
      then Inl (PersistenceError ''approved run budget evidence differs from the pending gate'')
      else by_engine (transition current PREPARING_WORKTREE))"

definition approve_plan where
  "approve_plan ctx st run_id version evidence args =
     change_state ctx st run_id version (approved_change evidence) args (set_budget evidence)"

definition prepared_change :: "plan_evidence \<Rightarrow> run_snapshot \<Rightarrow> store_error + run_snapshot" where
  "prepared_change evidence current =
     (if rs_state current \<noteq> PLANNING \<or> \<not> evidence_binds evidence current
      then Inl (PersistenceError ''prepared run budget evidence differs from current state'')
      else by_engine (transition current PREPARING_WORKTREE))"

definition prepare_plan_internally where
  "prepare_plan_internally ctx st run_id version evidence args =
     change_state ctx st run_id version (prepared_change evidence) args (set_budget evidence)"

definition restart_change :: "run_snapshot \<Rightarrow> store_error + run_snapshot" where
  "restart_change current = (if rs_state current \<noteq> AWAITING_PLAN_APPROVAL
     then Inl (PersistenceError ''planning restart requires plan approval state'')
     else by_engine (transition current PLANNING))"

definition rebind_planning :: "int \<Rightarrow> string \<Rightarrow> string \<Rightarrow> run_row \<Rightarrow> run_row" where
  "rebind_planning policy_version base_ref base_sha row = row\<lparr> rw_policy_version := policy_version, rw_base_ref := Some base_ref,
     rw_base_sha := Some base_sha, rw_token_budget := None, rw_cost_budget_minor := 0, rw_duration_budget_seconds := 0 \<rparr>"

definition restart_planning where
  "restart_planning ctx st run_id version policy_version base_ref base_sha args =
     (if policy_version < 1 \<or> base_ref = [] \<or> \<not> is_sha40 base_sha then Inl (PersistenceError ''planning bindings are invalid'')
      else ebind (change_state ctx st run_id version restart_change (args\<lparr> ea_payload_schema_version := 1 \<rparr>)
          (rebind_planning policy_version base_ref base_sha)) (\<lambda>(changed, st').
        ebind (replaced (changed\<lparr> rs_policy_version := Some policy_version, rs_base_ref := Some base_ref, rs_base_sha := Some base_sha \<rparr>))
          (\<lambda>r. Inr (r, st'))))"

definition update_resource where
  "update_resource ctx st run_id version worktree_path database_state database_name database_role secret_id args =
     change_state ctx st run_id version (\<lambda>current. by_engine (lift_exn (with_resource current (Some worktree_path)
       (Some database_state) (Some database_name) (Some database_role) (Some secret_id)))) args id"

definition branch_change :: "string \<Rightarrow> run_snapshot \<Rightarrow> store_error + run_snapshot" where
  "branch_change branch_name current =
     (if rs_state current \<noteq> PREPARING_WORKTREE then Inl (PersistenceError ''preparation branch requires worktree preparation state'')
      else if rs_branch_name current \<noteq> None then Inl (PersistenceError ''preparation branch is already bound'')
      else if rs_worktree_path current \<noteq> None \<or> rs_database_state current \<noteq> Res_DISABLED \<or> rs_database_name current \<noteq> None \<or>
        rs_database_role current \<noteq> None \<or> rs_secret_id current \<noteq> None
      then Inl (PersistenceError ''preparation branch requires no resource effects'')
      else replaced (current\<lparr> rs_branch_name := Some branch_name, rs_version := rs_version current + 1 \<rparr>))"

definition bind_preparation_branch where
  "bind_preparation_branch ctx st run_id version branch_name args =
     (if blank branch_name \<or> 512 < length branch_name then Inl (PersistenceError ''preparation branch name is invalid'')
      else change_state ctx st run_id version (branch_change branch_name) args id)"

definition update_workflow :: "run_store \<Rightarrow> uuid \<Rightarrow> int \<Rightarrow> workflow_preferences option \<Rightarrow> store_error + (run_snapshot \<times> run_store)" where
  "update_workflow st run_id version workflow = (case st_runs st run_id of
     None \<Rightarrow> Inl (RunNotFound run_id)
   | Some row \<Rightarrow>
       if rw_version row \<noteq> version then Inl (ConcurrencyConflict run_id version (rw_version row))
       else let row' = row\<lparr> rw_workflow := workflow_column workflow \<rparr> in
         if \<not> store_accepts st row' then Inl Integrity
         else ebind (snapshot_from_record row') (\<lambda>r. Inr (r, st\<lparr> st_runs := (st_runs st)(run_id \<mapsto> row') \<rparr>)))"

definition validate_new_snapshot :: "run_snapshot \<Rightarrow> store_error option" where
  "validate_new_snapshot r = (let raise = (\<lambda>cond m. when_raise cond (RunCreationError m)) in seq_raise [
     raise (rs_state r \<noteq> CREATED) ''new runs must start in CREATED'',
     raise (rs_version r \<noteq> 0) ''new runs must start at version 0'',
     raise (rs_suspended_state r \<noteq> None \<or> rs_suspension_kind r \<noteq> None) ''new runs cannot carry suspension metadata'',
     raise (rs_suspension_context r \<noteq> None) ''new runs cannot carry a suspension context'',
     raise (rs_worktree_path r \<noteq> None) ''new runs cannot carry a worktree path'',
     raise (rs_database_state r \<noteq> Res_DISABLED \<or> rs_database_name r \<noteq> None \<or> rs_database_role r \<noteq> None \<or> rs_secret_id r \<noteq> None)
       ''new runs must have a disabled database resource'',
     raise (rs_local_remediation_count r \<noteq> 0 \<or> rs_remote_remediation_count r \<noteq> 0) ''new runs must have zero remediation counts'',
     raise (case rs_policy_version r of None \<Rightarrow> False | Some v \<Rightarrow> v < 1) ''new run policy version must be positive'',
     raise ((rs_base_ref r = None) \<noteq> (rs_base_sha r = None)) ''new run base reference and SHA must be provided together'',
     raise (case rs_base_ref r of None \<Rightarrow> False | Some s \<Rightarrow> blank s) ''new run base reference must not be blank'',
     raise (case rs_base_sha r of None \<Rightarrow> False | Some s \<Rightarrow> \<not> is_sha40 s) ''new run base SHA must be a lowercase commit'',
     raise (case rs_branch_name r of None \<Rightarrow> False | Some s \<Rightarrow> blank s \<or> 512 < length s) ''new run branch name is invalid''])"

definition new_row :: "run_snapshot \<Rightarrow> int \<Rightarrow> run_row" where
  "new_row r policy_version = \<lparr> rw_id = rs_id r, rw_project_id = rs_project_id r, rw_task_id = rs_task_id r,
     rw_policy_version = policy_version, rw_state = run_state_str CREATED, rw_version = 0, rw_suspended_state = None,
     rw_suspension_kind = None, rw_context_schema_version = None, rw_suspension_context = None,
     rw_local_remediation_count = 0, rw_remote_remediation_count = 0, rw_token_budget = None, rw_cost_budget_minor = 0,
     rw_duration_budget_seconds = 0, rw_worktree_path = None, rw_branch_name = rs_branch_name r, rw_base_ref = rs_base_ref r,
     rw_base_sha = rs_base_sha r, rw_database_state = ''DISABLED'', rw_database_name = None, rw_database_role = None,
     rw_secret_id = None, rw_pending_gate = None, rw_pending_evidence_digest = None, rw_workflow = workflow_column (rs_workflow r) \<rparr>"

definition project_missing :: "uuid \<Rightarrow> string" where
  "project_missing p = ''project '' @ uuid_str p @ '' was not found''"

definition create :: "run_store \<Rightarrow> run_snapshot \<Rightarrow> store_error + run_store" where
  "create st r = (case validate_new_snapshot r of
     Some e \<Rightarrow> Inl e
   | None \<Rightarrow> (case st_projects st (rs_project_id r) of
       None \<Rightarrow> Inl (RunCreationError (project_missing (rs_project_id r)))
     | Some project \<Rightarrow> (case pj_current_policy_version project of
         None \<Rightarrow> Inl (RunCreationError (''project '' @ uuid_str (rs_project_id r) @ '' has no current policy version''))
       | Some current \<Rightarrow>
           let policy_version = (case rs_policy_version r of None \<Rightarrow> current | Some v \<Rightarrow> v); row = new_row r policy_version in
           (case seq_raise [
              when_raise (current < 1) (RunCreationError (''project '' @ uuid_str (rs_project_id r) @ '' has no current policy version'')),
              when_raise (policy_version \<noteq> current) (RunCreationError ''new run policy version is not the current project version''),
              when_raise (policy_version \<notin> set (pj_policies project))
                (RunCreationError (''current policy '' @ uuid_str (rs_project_id r) @ ''/'' @ int_str policy_version @ '' was not found'')),
              (case st_tasks st (rs_task_id r) of
                 None \<Rightarrow> Some (RunCreationError (''task '' @ uuid_str (rs_task_id r) @ '' was not found''))
               | Some p \<Rightarrow> when_raise (p \<noteq> rs_project_id r) (RunCreationError
                   (''task '' @ uuid_str (rs_task_id r) @ '' does not belong to project '' @ uuid_str (rs_project_id r)))),
              when_raise (st_runs st (rs_id r) \<noteq> None) (RunCreationError (''run '' @ uuid_str (rs_id r) @ '' already exists'')),
              when_raise (\<not> store_accepts st row) Integrity] of
              Some e \<Rightarrow> Inl e
            | None \<Rightarrow> Inr (st\<lparr> st_runs := (st_runs st)(rs_id r \<mapsto> row) \<rparr>)))))"

section \<open>Admission of subscription attempts\<close>

definition subscription_work_states :: "run_state list" where
  "subscription_work_states = [IMPLEMENTING, REMEDIATING]"

definition blocked_states :: "run_state list" where
  "blocked_states = [PAUSED, CANCELLED, FAILED, COMPLETED, AWAITING_PLAN_APPROVAL, AWAITING_PR_APPROVAL,
     AWAITING_HUMAN_INTERVENTION, AWAITING_MERGE_APPROVAL]"

definition run_allows_subscription_attempt :: "string \<Rightarrow> string option \<Rightarrow> bool" where
  "run_allows_subscription_attempt state pending_gate = (pending_gate = None \<and>
     state \<in> set (map run_state_str run_states) \<and> state \<notin> set (map run_state_str blocked_states))"

section \<open>Rows that decode are storable runs\<close>

text \<open>What a row can hold: a run of the engine's invariant whose interventions recorded the state they left.\<close>

definition resolvable :: "suspension_context option \<Rightarrow> bool" where
  "resolvable ctx \<longleftrightarrow> (\<forall>c. ctx = Some c \<longrightarrow> sc_state c = AWAITING_HUMAN_INTERVENTION \<longrightarrow> sc_suspended_state c \<noteq> None)"

definition storable :: "run_snapshot \<Rightarrow> bool" where
  "storable r \<longleftrightarrow> run_inv r \<and> 0 \<le> rs_local_remediation_count r \<and> 0 \<le> rs_remote_remediation_count r \<and>
     (rs_state r = AWAITING_HUMAN_INTERVENTION \<longrightarrow> rs_suspended_state r \<noteq> None) \<and>
     resolvable (rs_suspension_context r)"

lemma resolvable_simps [simp]:
  "resolvable None" "resolvable (Some c) \<longleftrightarrow> (sc_state c = AWAITING_HUMAN_INTERVENTION \<longrightarrow> sc_suspended_state c \<noteq> None)"
  by (auto simp: resolvable_def)

lemma enum_of_name: "enum_of name ms s = Some m \<Longrightarrow> name m = s"
  by (induction ms) (auto simp: enum_of_def split: if_splits)

lemma run_state_of_str [simp]: "enum_of run_state_str run_states (run_state_str s) = Some s"
  by (cases s) (simp_all add: enum_of_def run_states_def)

lemma suspension_kind_of_str [simp]: "enum_of suspension_kind_str [PAUSE, INTERVENTION] (suspension_kind_str k) = Some k"
  by (cases k) (simp_all add: enum_of_def)

lemma gate_of_str [simp]: "enum_of gate_str [Gate_PLAN, Gate_PR, Gate_MERGE] (gate_str g) = Some g"
  by (cases g) (simp_all add: enum_of_def)

lemma resource_of_str [simp]:
  "enum_of resource_state_str [Res_DISABLED, Res_PROVISIONING, Res_ACTIVE, Res_FAILED, Res_REMOVED] (resource_state_str k) = Some k"
  by (cases k) (simp_all add: enum_of_def)

lemma column_simps [simp]: "column None = PNone" "column (Some s) = PStr s"
  by (simp_all add: column_def)

lemma decode_encoded [simp]:
  "decode_run_state (PStr (run_state_str s)) name = Inr s"
  "decode_optional (\<lambda>v. decode_run_state v name) (column (map_option run_state_str ss)) = Inr ss"
  "decode_optional decode_suspension_kind (column (map_option suspension_kind_str sk)) = Inr sk"
  "decode_pending_gate (column (map_option gate_str g)) = Inr g"
  "decode_resource_state (resource_state_str d) = Inr d"
  by (auto simp: decode_run_state_def decode_optional_def decode_suspension_kind_def decode_pending_gate_def
    decode_resource_state_def option.map_sel split: option.splits)
   (cases ss; cases sk; cases g; simp add: decode_run_state_def decode_optional_def decode_suspension_kind_def decode_pending_gate_def)+

lemma decode_digest_column: "(\<forall>s. d = Some s \<longrightarrow> is_digest64 s) \<Longrightarrow> decode_pending_digest (column d) = Inr d"
  by (cases d) (auto simp: decode_pending_digest_def)

lemma workflow_column_decodes: "workflow_from_record (workflow_column w) = Inr w"
proof (cases w)
  case None
  then show ?thesis by (simp add: workflow_from_record_def workflow_column_def as_data_error_def workflow_from_mapping_def)
next
  case (Some p)
  then show ?thesis by (simp add: workflow_from_record_def workflow_column_def as_data_error_def workflow_roundtrip)
qed

lemma gate_by_state_iff: "gate_by_state s = Some g \<longleftrightarrow> approval_state_by_gate g = s"
  by (cases g; cases s) (simp_all add: gate_by_state_def)

lemma gate_by_state_None: "gate_by_state s = None \<longleftrightarrow> s \<notin> set approval_states"
  by (cases s) (simp_all add: gate_by_state_def)

lemma pending_shape_metadata:
  "validate_pending_metadata s g d n = None \<longleftrightarrow> validate_pending_shape s g d = None \<and> (\<forall>x. d = Some x \<longrightarrow> is_digest64 x)"
proof (cases "gate_by_state s")
  case None
  then have "s \<notin> set approval_states" using gate_by_state_None [of s] by blast
  then show ?thesis unfolding validate_pending_metadata_None validate_pending_shape_def None by auto
next
  case (Some g')
  then have "s \<in> set approval_states" using gate_by_state_None [of s] by auto
  moreover have "approval_state_by_gate h = s \<longleftrightarrow> h = g'" for h using Some gate_by_state_iff [of s h] by auto
  ultimately show ?thesis unfolding validate_pending_metadata_None validate_pending_shape_def Some
    by (cases g; cases d) auto
qed

lemma json_at_context:
  "json_at (context_json c) ''state'' = PStr (run_state_str (sc_state c))"
  "json_at (context_json c) ''suspended_state'' = column (map_option run_state_str (sc_suspended_state c))"
  "json_at (context_json c) ''suspension_kind'' = column (map_option suspension_kind_str (sc_suspension_kind c))"
  "has_pending c \<Longrightarrow> json_at (context_json c) ''pending_gate'' = column (map_option gate_str (sc_pending_gate c))"
  "has_pending c \<Longrightarrow> json_at (context_json c) ''pending_evidence_digest'' = column (sc_pending_evidence_digest c)"
  by (simp_all add: json_at_def context_json_def)

lemma context_decodes:
  assumes "suspension_context_post_init c = None"
  shows "context_from_json (context_json c) (if has_pending c then 2 else 1) = Inr c"
proof -
  have keys: "map fst (context_json c) = context_keys (if has_pending c then 2 else 1)"
    by (simp add: context_json_def context_keys_def)
  have d: "decode_pending_digest (column (sc_pending_evidence_digest c)) = Inr (sc_pending_evidence_digest c)"
    using assms by (intro decode_digest_column) (auto simp: suspension_context_post_init_def pending_shape_metadata)
  have eta: "\<lparr> sc_state = sc_state c, sc_suspended_state = sc_suspended_state c, sc_suspension_kind = sc_suspension_kind c,
      sc_pending_gate = sc_pending_gate c, sc_pending_evidence_digest = sc_pending_evidence_digest c \<rparr> = c" by simp
  show ?thesis
  proof (cases "has_pending c")
    case True
    with d assms show ?thesis unfolding context_from_json_def keys
      by (simp add: json_at_context suspension_context_make_def as_data_error_def eta)
  next
    case False
    then have "sc_pending_gate c = None" "sc_pending_evidence_digest c = None" by (auto simp: has_pending_def)
    note none = this
    with False assms show ?thesis unfolding context_from_json_def keys
      by (simp add: json_at_context suspension_context_make_def as_data_error_def none eta [unfolded none])
  qed
qed

lemma intervention_source: "AWAITING_HUMAN_INTERVENTION \<in> set (LEGAL s) \<longleftrightarrow> s \<in> set intervention_source_states"
  by (cases s) (simp_all add: intervention_source_states_def)

lemma paused_guards_None:
  "paused_context_guards s v c = None \<and> suspension_context_post_init c = None \<and> s \<notin> set terminal_states \<and> s \<noteq> PAUSED \<longleftrightarrow>
     sc_state c = s \<and> context_ok c \<and> (s = AWAITING_HUMAN_INTERVENTION \<longrightarrow> sc_suspended_state c \<noteq> None) \<and>
     (v = 1 \<longrightarrow> \<not> has_pending c) \<and> (v = 2 \<longrightarrow> has_pending c)"
proof -
  have i: "intervention_ok ss sk \<longleftrightarrow> ss = None \<and> sk = None \<or>
      (\<exists>s. ss = Some s \<and> sk = Some INTERVENTION \<and> AWAITING_HUMAN_INTERVENTION \<in> set (LEGAL s))" for ss sk
    by (auto simp: intervention_ok_def)
  have m: "suspension_context_post_init c = None \<longleftrightarrow> (if sc_state c \<in> set approval_states
      then (\<exists>g d. sc_pending_gate c = Some g \<and> sc_pending_evidence_digest c = Some d \<and> approval_state_by_gate g = sc_state c \<and> is_digest64 d)
      else sc_pending_gate c = None \<and> sc_pending_evidence_digest c = None)"
    by (simp add: suspension_context_post_init_def validate_pending_metadata_None)
  consider "sc_suspension_kind c = None" | "sc_suspension_kind c = Some PAUSE" | "sc_suspension_kind c = Some INTERVENTION"
    by (metis suspension_kind.exhaust option.exhaust)
  then show ?thesis
    unfolding paused_context_guards_def Let_def context_ok_def i m gate_by_state_None has_pending_def
    by cases (cases "sc_suspended_state c"; auto split: option.splits if_splits)+
qed

lemma decode_gate_column: "decode_pending_gate (column z) = Inr g \<Longrightarrow> z = map_option gate_str g"
proof (cases z)
  case (Some a)
  assume "decode_pending_gate (column z) = Inr g"
  with Some show ?thesis
    by (cases "enum_of gate_str [Gate_PLAN, Gate_PR, Gate_MERGE] a") (auto simp: decode_pending_gate_def dest: enum_of_name)
qed (simp add: decode_pending_gate_def)

text \<open>The suspension columns of a storable run, and that they are all a decoder accepts.\<close>

lemma suspension_decodes:
  assumes "storable r"
  shows "decode_suspension_context (apply_snapshot row r) (rs_state r) (rs_suspended_state r) (rs_suspension_kind r) = Inr (rs_suspension_context r)"
proof (cases "rs_state r = PAUSED")
  case True
  with assms obtain c where c: "rs_suspension_context r = Some c" "rs_suspended_state r = Some (sc_state c)" "context_ok c"
      "rs_suspension_kind r = Some PAUSE" and i: "sc_state c = AWAITING_HUMAN_INTERVENTION \<longrightarrow> sc_suspended_state c \<noteq> None"
    by (auto simp: storable_def run_inv_def)
  have g: "rs_pending_gate r = None" "rs_pending_evidence_digest r = None"
    using assms True by (auto simp: storable_def run_inv_def run_snapshot_post_init_def validate_pending_metadata_None)
  let ?v = "if has_pending c then 2 else (1 :: int)"
  have ok: "paused_context_guards (sc_state c) ?v c = None \<and> suspension_context_post_init c = None \<and>
      sc_state c \<notin> set terminal_states \<and> sc_state c \<noteq> PAUSED"
    using c(3) i unfolding paused_guards_None by (auto split: if_splits)
  then have "context_from_json (context_json c) ?v = Inr c" using context_decodes by blast
  with ok c g True show ?thesis by (simp add: decode_suspension_context_def apply_snapshot_def)
next
  case False
  with assms show ?thesis
    by (auto simp: decode_suspension_context_def apply_snapshot_def storable_def run_inv_def intervention_ok_def split: option.splits)
qed

lemma decoded_suspension:
  assumes "decode_suspension_context row s ss sk = Inr ctx"
  shows "if s = PAUSED then sk = Some PAUSE \<and> (\<exists>c. ctx = Some c \<and> ss = Some (sc_state c) \<and> context_ok c \<and>
         (sc_state c = AWAITING_HUMAN_INTERVENTION \<longrightarrow> sc_suspended_state c \<noteq> None))
     else if s = AWAITING_HUMAN_INTERVENTION then intervention_ok ss sk \<and> ss \<noteq> None \<and> ctx = None
     else ss = None \<and> sk = None \<and> ctx = None"
proof (cases "s = PAUSED")
  case True
  with assms obtain s' v d where p: "ss = Some s'" "sk = Some PAUSE" "s' \<notin> set terminal_states" "s' \<noteq> PAUSED"
      "ebind (context_from_json d v) (\<lambda>c. raising (paused_context_guards s' v c) (Some c)) = Inr ctx"
    by (auto simp: decode_suspension_context_def split: option.splits pyval.splits if_splits)
  then obtain c where c: "context_from_json d v = Inr c" "paused_context_guards s' v c = None" "ctx = Some c"
    by (auto simp: ebind_Inr)
  have "suspension_context_post_init c = None"
    using c(1) by (auto simp: context_from_json_def ebind_Inr as_data_error_def suspension_context_make_def split: if_splits sum.splits)
  with p c paused_guards_None [of s' v c] True show ?thesis by auto
next
  case False
  with assms show ?thesis
    by (auto simp: decode_suspension_context_def intervention_ok_def split: option.splits if_splits)
qed

lemma apply_columns [simp]:
  "rw_id (apply_snapshot row r) = rw_id row" "rw_project_id (apply_snapshot row r) = rw_project_id row"
  "rw_task_id (apply_snapshot row r) = rw_task_id row" "rw_policy_version (apply_snapshot row r) = rw_policy_version row"
  "rw_base_ref (apply_snapshot row r) = rw_base_ref row" "rw_base_sha (apply_snapshot row r) = rw_base_sha row"
  "rw_state (apply_snapshot row r) = run_state_str (rs_state r)" "rw_version (apply_snapshot row r) = rs_version r"
  "rw_suspended_state (apply_snapshot row r) = map_option run_state_str (rs_suspended_state r)"
  "rw_suspension_kind (apply_snapshot row r) = map_option suspension_kind_str (rs_suspension_kind r)"
  "rw_pending_gate (apply_snapshot row r) = map_option gate_str (rs_pending_gate r)"
  "rw_pending_evidence_digest (apply_snapshot row r) = rs_pending_evidence_digest r"
  "rw_local_remediation_count (apply_snapshot row r) = rs_local_remediation_count r"
  "rw_remote_remediation_count (apply_snapshot row r) = rs_remote_remediation_count r"
  "rw_worktree_path (apply_snapshot row r) = rs_worktree_path r" "rw_branch_name (apply_snapshot row r) = rs_branch_name r"
  "rw_workflow (apply_snapshot row r) = workflow_column (rs_workflow r)"
  "rw_database_state (apply_snapshot row r) = resource_state_str (rs_database_state r)"
  "rw_database_name (apply_snapshot row r) = rs_database_name r" "rw_database_role (apply_snapshot row r) = rs_database_role r"
  "rw_secret_id (apply_snapshot row r) = rs_secret_id r"
  by (simp_all add: apply_snapshot_def)

text \<open>The columns a snapshot does not write come from the row.\<close>

definition bound_to :: "run_row \<Rightarrow> run_snapshot \<Rightarrow> run_snapshot" where
  "bound_to row r = r\<lparr> rs_id := rw_id row, rs_project_id := rw_project_id row, rs_task_id := rw_task_id row,
     rs_policy_version := Some (rw_policy_version row), rs_base_ref := rw_base_ref row, rs_base_sha := rw_base_sha row \<rparr>"

lemma post_init_bound [simp]: "run_snapshot_post_init (bound_to row r) = run_snapshot_post_init r"
  by (simp add: run_snapshot_post_init_def bound_to_def)

lemma storable_bound [simp]: "storable (bound_to row r) \<longleftrightarrow> storable r"
  by (simp add: storable_def run_inv_def) (simp add: bound_to_def)

lemma snapshot_roundtrip:
  assumes "storable r"
  shows "snapshot_from_record (apply_snapshot row r) = Inr (bound_to row r)"
proof -
  have inv: "run_snapshot_post_init r = None" "0 \<le> rs_version r" "0 \<le> rs_local_remediation_count r" "0 \<le> rs_remote_remediation_count r"
    using assms by (auto simp: storable_def run_inv_def)
  then have m: "validate_pending_metadata (rs_state r) (rs_pending_gate r) (rs_pending_evidence_digest r) ''run'' = None"
    by (auto simp: run_snapshot_post_init_def)
  then have d: "decode_pending_digest (column (rs_pending_evidence_digest r)) = Inr (rs_pending_evidence_digest r)"
      and g: "validate_pending_shape (rs_state r) (rs_pending_gate r) (rs_pending_evidence_digest r) = None"
    unfolding pending_shape_metadata by (auto intro: decode_digest_column)
  have eta: "\<lparr> rs_id = rw_id row, rs_project_id = rw_project_id row, rs_task_id = rw_task_id row, rs_state = rs_state r,
      rs_version = rs_version r, rs_suspended_state = rs_suspended_state r, rs_local_remediation_count = rs_local_remediation_count r,
      rs_remote_remediation_count = rs_remote_remediation_count r, rs_suspension_kind = rs_suspension_kind r,
      rs_suspension_context = rs_suspension_context r, rs_policy_version = Some (rw_policy_version row), rs_base_ref = rw_base_ref row,
      rs_base_sha = rw_base_sha row, rs_branch_name = rs_branch_name r, rs_worktree_path = rs_worktree_path r,
      rs_database_state = rs_database_state r, rs_database_name = rs_database_name r, rs_database_role = rs_database_role r,
      rs_secret_id = rs_secret_id r, rs_pending_gate = rs_pending_gate r, rs_pending_evidence_digest = rs_pending_evidence_digest r,
      rs_workflow = rs_workflow r \<rparr> = bound_to row r" by (simp add: bound_to_def)
  show ?thesis unfolding snapshot_from_record_def
    using inv by (simp add: decode_nonnegative_def d g suspension_decodes [OF assms] workflow_column_decodes eta as_data_error_def)
qed

lemma decoded_storable:
  assumes "snapshot_from_record row = Inr r"
  shows "storable r" and "bound_to row r = r" and "rw_version row = rs_version r" and "run_state_str (rs_state r) = rw_state row"
    and "rw_pending_gate row = map_option gate_str (rs_pending_gate r)"
proof -
  from assms obtain ctx where ctx: "decode_suspension_context row (rs_state r) (rs_suspended_state r) (rs_suspension_kind r) = Inr ctx"
      and c: "rs_suspension_context r = ctx" "run_snapshot_post_init r = None" "0 \<le> rs_version r" "rw_version row = rs_version r"
        "0 \<le> rs_local_remediation_count r" "0 \<le> rs_remote_remediation_count r" "bound_to row r = r"
        "decode_run_state (PStr (rw_state row)) ''state'' = Inr (rs_state r)"
        "decode_pending_gate (column (rw_pending_gate row)) = Inr (rs_pending_gate r)"
    by (auto simp: snapshot_from_record_def ebind_Inr decode_nonnegative_def as_data_error_def Let_def bound_to_def
      split: if_splits sum.splits)
  from decoded_suspension [OF ctx] c show "storable r"
    by (auto simp: storable_def run_inv_def split: if_splits)
  from c show "bound_to row r = r" "rw_version row = rs_version r" by auto
  from c(8) show "run_state_str (rs_state r) = rw_state row"
    by (auto simp: decode_run_state_def split: option.splits dest: enum_of_name)
  from c(9) decode_gate_column show "rw_pending_gate row = map_option gate_str (rs_pending_gate r)" by blast
qed

section \<open>What a flushed row proves\<close>

lemma run_state_str_inject [simp]: "run_state_str a = run_state_str b \<longleftrightarrow> a = b"
  using run_state_of_str by (metis option.inject)

lemma run_state_text [simp]:
  "run_state_str s = ''PAUSED'' \<longleftrightarrow> s = PAUSED" "run_state_str s = ''AWAITING_HUMAN_INTERVENTION'' \<longleftrightarrow> s = AWAITING_HUMAN_INTERVENTION"
  "run_state_str s = ''AWAITING_PLAN_APPROVAL'' \<longleftrightarrow> s = AWAITING_PLAN_APPROVAL"
  "run_state_str s = ''AWAITING_PR_APPROVAL'' \<longleftrightarrow> s = AWAITING_PR_APPROVAL"
  "run_state_str s = ''AWAITING_MERGE_APPROVAL'' \<longleftrightarrow> s = AWAITING_MERGE_APPROVAL"
  by (cases s; simp)+

lemma suspension_checked:
  assumes "suspension_state_shape (apply_snapshot row r) \<noteq> Some False" and "rs_state r = AWAITING_HUMAN_INTERVENTION"
  shows "rs_suspended_state r \<noteq> None"
proof
  assume "rs_suspended_state r = None"
  with assms(2) have "suspension_state_shape (apply_snapshot row r) = Some False"
    by (simp add: suspension_state_shape_def sql_or_def sql_and_def not_null_def sql_in_def)
  with assms(1) show False by simp
qed

lemma suspension_shape_storable:
  assumes "storable r"
  shows "suspension_state_shape (apply_snapshot row r) = Some True"
proof -
  have p: "s \<in> set pause_source_states \<longleftrightarrow> s \<notin> set terminal_states \<and> s \<noteq> PAUSED" for s
    by (cases s) (simp_all add: pause_source_states_def run_states_def)
  show ?thesis
  proof (cases "rs_state r = PAUSED")
    case True
    with assms obtain c where c: "rs_suspension_context r = Some c" "rs_suspended_state r = Some (sc_state c)" "context_ok c"
        "rs_suspension_kind r = Some PAUSE" by (auto simp: storable_def run_inv_def)
    then have "sc_state c \<in> set pause_source_states" unfolding p by (simp add: context_ok_def)
    with c True show ?thesis
      by (cases "has_pending c")
        (simp_all add: suspension_state_shape_def sql_or_def sql_and_def not_null_def sql_in_def sql_ge_def apply_snapshot_def)
  next
    case False
    with assms show ?thesis
      by (auto simp: suspension_state_shape_def sql_or_def not_null_def is_null_def sql_in_def apply_snapshot_def storable_def run_inv_def
        intervention_ok_def intervention_source sql_and_def split: if_splits)
  qed
qed

lemma pending_shape_storable:
  assumes "storable r"
  shows "pending_gate_shape (apply_snapshot row r) = Some True"
proof -
  have "validate_pending_metadata (rs_state r) (rs_pending_gate r) (rs_pending_evidence_digest r) ''run'' = None"
    using assms by (auto simp: storable_def run_inv_def run_snapshot_post_init_def)
  then consider "rs_state r \<notin> set approval_states" "rs_pending_gate r = None" "rs_pending_evidence_digest r = None"
    | g d where "rs_pending_gate r = Some g" "rs_pending_evidence_digest r = Some d" "approval_state_by_gate g = rs_state r"
    unfolding validate_pending_metadata_None by (auto split: if_splits)
  then show ?thesis
  proof cases
    case 1
    then show ?thesis
      by (simp add: pending_gate_shape_def awaits_def sql_or_def sql_and_def sql_in_def is_null_def not_null_def)
  next
    case (2 g d)
    then show ?thesis
      by (cases g) (simp_all add: pending_gate_shape_def awaits_def sql_or_def sql_and_def sql_in_def is_null_def not_null_def flip: 2(3))
  qed
qed

lemma database_shape_storable:
  assumes "storable r"
  shows "database_resource_shape (apply_snapshot row r) = Some True"
proof -
  have "validate_resource_shape (rs_database_state r) (rs_database_name r) (rs_database_role r) (rs_secret_id r) = None"
    using assms by (auto simp: storable_def run_inv_def run_snapshot_post_init_def)
  then show ?thesis
    by (cases "rs_database_state r")
      (auto simp: validate_resource_shape_def database_resource_shape_def sql_or_def sql_and_def sql_in_def is_null_def not_null_def)
qed

lemma row_checks_storable:
  assumes "storable r" and "\<forall>n. rw_token_budget row = Some n \<longrightarrow> 0 \<le> n" "0 \<le> rw_cost_budget_minor row" "0 \<le> rw_duration_budget_seconds row"
  shows "row_checks (apply_snapshot row r)"
proof -
  have s: "rs_state r \<in> set run_states" by (cases "rs_state r") (simp_all add: run_states_def)
  have d: "resource_state_str (rs_database_state r) \<in> set (map resource_state_str [Res_DISABLED, Res_PROVISIONING, Res_ACTIVE, Res_FAILED, Res_REMOVED])"
    by (cases "rs_database_state r") simp_all
  have b: "rw_token_budget (apply_snapshot row r) = rw_token_budget row" "rw_cost_budget_minor (apply_snapshot row r) = rw_cost_budget_minor row"
    "rw_duration_budget_seconds (apply_snapshot row r) = rw_duration_budget_seconds row" by (simp_all add: apply_snapshot_def)
  have "Some False \<notin> set (value_checks (apply_snapshot row r))"
    using s d assms by (auto simp: value_checks_def b sql_in_def sql_and_def sql_ge_def storable_def run_inv_def)
  with suspension_shape_storable [OF assms(1)] pending_shape_storable [OF assms(1)] database_shape_storable [OF assms(1)]
  show ?thesis by (simp add: row_checks_def)
qed

section \<open>Operations on the store\<close>

datatype repo_op =
    Repo_transition run_state | Repo_await_approval approval_gate string | Repo_intervene | Repo_resume_interrupted_work
  | Repo_pause | Repo_resume | Repo_local_remediation bool int | Repo_remote_remediation int
  | Repo_approve_plan plan_evidence | Repo_prepare_plan plan_evidence | Repo_restart_planning int string string
  | Repo_update_resource "string option" resource_state "string option" "string option" "string option"
  | Repo_bind_branch string

fun repo_apply :: "event_context option \<Rightarrow> run_store \<Rightarrow> uuid \<Rightarrow> int \<Rightarrow> event_args \<Rightarrow> repo_op \<Rightarrow> store_error + (run_snapshot \<times> run_store)" where
  "repo_apply ctx st run_id v args (Repo_transition target) = repo_transition ctx st run_id v target args"
| "repo_apply ctx st run_id v args (Repo_await_approval gate digest) = repo_await_approval ctx st run_id v gate digest args"
| "repo_apply ctx st run_id v args Repo_intervene = repo_intervene ctx st run_id v args"
| "repo_apply ctx st run_id v args Repo_resume_interrupted_work = repo_resume_interrupted_work ctx st run_id v args"
| "repo_apply ctx st run_id v args Repo_pause = repo_pause ctx st run_id v args"
| "repo_apply ctx st run_id v args Repo_resume = repo_resume ctx st run_id v args"
| "repo_apply ctx st run_id v args (Repo_local_remediation automatic limit) = begin_local_remediation ctx st run_id v automatic limit args"
| "repo_apply ctx st run_id v args (Repo_remote_remediation limit) = begin_remote_remediation ctx st run_id v limit args"
| "repo_apply ctx st run_id v args (Repo_approve_plan evidence) = approve_plan ctx st run_id v evidence args"
| "repo_apply ctx st run_id v args (Repo_prepare_plan evidence) = prepare_plan_internally ctx st run_id v evidence args"
| "repo_apply ctx st run_id v args (Repo_restart_planning policy ref sha) = restart_planning ctx st run_id v policy ref sha args"
| "repo_apply ctx st run_id v args (Repo_update_resource path state name role secret) =
     update_resource ctx st run_id v path state name role secret args"
| "repo_apply ctx st run_id v args (Repo_bind_branch branch) = bind_preparation_branch ctx st run_id v branch args"

inductive store_step :: "run_store \<Rightarrow> run_store \<Rightarrow> bool" where
  step_op: "repo_apply ctx st run_id v args op = Inr (r, st') \<Longrightarrow> store_step st st'"
| step_workflow: "update_workflow st run_id v w = Inr (r, st') \<Longrightarrow> store_step st st'"
| step_create: "create st r = Inr st' \<Longrightarrow> store_step st st'"

inductive_cases store_stepE: "store_step st st'"

text \<open>What a change may do to a snapshot.\<close>

definition identity :: "run_snapshot \<Rightarrow> uuid \<times> uuid \<times> uuid \<times> int option \<times> string option \<times> string option" where
  "identity r = (rs_id r, rs_project_id r, rs_task_id r, rs_policy_version r, rs_base_ref r, rs_base_sha r)"

definition advances :: "run_snapshot \<Rightarrow> run_snapshot \<Rightarrow> bool" where
  "advances r r' \<longleftrightarrow> run_inv r' \<and> rs_version r' = rs_version r + 1 \<and> identity r' = identity r \<and>
     0 \<le> rs_local_remediation_count r' \<and> 0 \<le> rs_remote_remediation_count r' \<and>
     resolvable (rs_suspension_context r')"

lemma with_state_frame:
  assumes "with_state r s ss sk sc g d = Inr r'"
  shows "identity r' = identity r" "rs_local_remediation_count r' = rs_local_remediation_count r"
    "rs_remote_remediation_count r' = rs_remote_remediation_count r" "rs_suspension_context r' = sc" "rs_version r' = rs_version r + 1"
  using assms by (auto simp: with_state_Inr identity_def)

definition state_set :: "run_snapshot \<Rightarrow> run_snapshot \<Rightarrow> bool" where
  "state_set r r' \<longleftrightarrow> (\<exists>s ss sk ctx g d. with_state r s ss sk ctx g d = Inr r' \<and> resolvable ctx)"

lemma state_setI: "with_state r s ss sk ctx g d = Inr r' \<Longrightarrow> resolvable ctx \<Longrightarrow> state_set r r'"
  unfolding state_set_def by blast

lemma engine_apply_sets:
  assumes "engine_apply r op = Inr r'" and "storable r"
  shows "state_set r r'"
proof (cases op)
  case Pause
  with assms(1) have p: "pause r = Inr r'" by simp
  then obtain c where "with_state r PAUSED (Some (rs_state r)) (Some PAUSE) (Some c) None None = Inr r'"
      "sc_state c = rs_state r" "sc_suspended_state c = rs_suspended_state r"
    by (auto simp: pause_Inr Let_def split: if_splits)
  note c = this
  from c(2,3) assms(2) have "resolvable (Some c)" by (simp add: storable_def)
  with c(1) show ?thesis by (rule state_setI)
next
  case Resume
  with assms(1) have r: "resume r = Inr r'" by simp
  then have "rs_state r = PAUSED" by (auto simp: resume_def split: if_splits)
  with assms(2) obtain c where c: "rs_suspension_context r = Some c" by (auto simp: storable_def run_inv_def)
  from r have "with_state r (sc_state c) (sc_suspended_state c) (sc_suspension_kind c) None (sc_pending_gate c)
      (sc_pending_evidence_digest c) = Inr r'" by (simp add: resume_Inr_context [OF c])
  then show ?thesis by (rule state_setI) simp
qed (use assms(1) in \<open>auto simp: engine_op_simps intro: state_setI\<close>)

lemma engine_apply_advances:
  assumes "engine_apply r op = Inr r'" and "storable r"
  shows "advances r r'"
proof -
  from engine_apply_sets [OF assms] obtain s ss sk ctx g d where w: "with_state r s ss sk ctx g d = Inr r'" and "resolvable ctx"
    unfolding state_set_def by blast
  moreover have "run_inv r'" using assms engine_apply_inv by (auto simp: storable_def)
  ultimately show ?thesis using with_state_frame [OF w] assms(2) by (simp add: advances_def storable_def)
qed

lemma advances_storable:
  assumes "advances r r'" and "suspension_state_shape (apply_snapshot row r') \<noteq> Some False"
  shows "storable r'"
  using assms suspension_checked [of row r'] by (auto simp: advances_def storable_def)

lemma by_engine_Inr [simp]: "by_engine m = Inr x \<longleftrightarrow> m = Inr x"
  by (auto simp: by_engine_def split: sum.splits)

lemma replaced_Inr [simp]: "replaced r = Inr x \<longleftrightarrow> x = r \<and> run_snapshot_post_init r = None"
  by (auto simp: replaced_def)

lemma storable_counts:
  assumes "storable r" and "0 \<le> m" "0 \<le> n"
  shows "storable (r\<lparr> rs_local_remediation_count := m, rs_remote_remediation_count := n \<rparr>)"
  using assms by (simp add: storable_def run_inv_def run_snapshot_post_init_def)

lemma counted_transition:
  assumes "transition (r\<lparr> rs_local_remediation_count := m, rs_remote_remediation_count := n \<rparr>) s = Inr r'" and "storable r"
    and "0 \<le> m" "0 \<le> n"
  shows "advances r r'"
  using engine_apply_advances [of _ "Transition s" r', OF _ storable_counts [OF assms(2-)]] assms(1)
  by (simp add: advances_def identity_def)

lemma remediation_advances:
  assumes "storable r"
  shows "local_remediation automatic limit r = Inr r' \<Longrightarrow> advances r r'" "remote_remediation limit r = Inr r' \<Longrightarrow> advances r r'"
proof -
  have c: "0 \<le> rs_local_remediation_count r" "0 \<le> rs_remote_remediation_count r" using assms by (auto simp: storable_def)
  note t = counted_transition [OF _ assms]
  have l: "transition (r\<lparr> rs_local_remediation_count := rs_local_remediation_count r + 1 \<rparr>) REMEDIATING = Inr r' \<Longrightarrow> advances r r'"
    using t [where m = "rs_local_remediation_count r + 1" and n = "rs_remote_remediation_count r" and s = REMEDIATING and r' = r'] c by simp
  have m: "transition (r\<lparr> rs_remote_remediation_count := rs_remote_remediation_count r + 1 \<rparr>) REMEDIATING = Inr r' \<Longrightarrow> advances r r'"
    using t [where m = "rs_local_remediation_count r" and n = "rs_remote_remediation_count r + 1" and s = REMEDIATING and r' = r'] c by simp
  have e: "transition r s = Inr r' \<Longrightarrow> advances r r'" "intervene r = Inr r' \<Longrightarrow> advances r r'" for s
    using engine_apply_advances [of r "Transition s" r'] engine_apply_advances [of r Intervene r'] assms by auto
  show "local_remediation automatic limit r = Inr r' \<Longrightarrow> advances r r'"
    using l e by (auto simp: local_remediation_def ebind_Inr split: if_splits)
  show "remote_remediation limit r = Inr r' \<Longrightarrow> advances r r'"
    using m e by (auto simp: remote_remediation_def ebind_Inr split: if_splits)
qed

lemma plan_changes_advance:
  assumes "storable r"
  shows "approved_change evidence r = Inr r' \<Longrightarrow> advances r r'" "prepared_change evidence r = Inr r' \<Longrightarrow> advances r r'"
    "restart_change r = Inr r' \<Longrightarrow> advances r r'"
  using engine_apply_advances [of r "Transition PREPARING_WORKTREE" r'] engine_apply_advances [of r "Transition PLANNING" r'] assms
  by (auto simp: approved_change_def prepared_change_def restart_change_def split: if_splits)

lemma resource_changes_advance:
  assumes "storable r"
  shows "with_resource r a b c d e = Inr r' \<Longrightarrow> advances r r'" "branch_change name r = Inr r' \<Longrightarrow> advances r r'"
proof -
  show "with_resource r a b c d e = Inr r' \<Longrightarrow> advances r r'"
    using assms by (auto simp: with_resource_def Let_def advances_def storable_def run_inv_def identity_def)
  show "branch_change name r = Inr r' \<Longrightarrow> advances r r'"
    using assms by (auto simp: branch_change_def advances_def storable_def run_inv_def run_snapshot_post_init_def identity_def split: if_splits)
qed

lemma engine_change_advances: "storable q \<Longrightarrow> engine_change op q = Inr r' \<Longrightarrow> advances q r'"
  by (auto simp: engine_change_def intro: engine_apply_advances)

text \<open>Every operation is a change of state of this form.\<close>

definition commutes :: "(run_row \<Rightarrow> run_row) \<Rightarrow> bool" where
  "commutes upd \<longleftrightarrow> (\<forall>row r. upd (apply_snapshot row r) = apply_snapshot (upd row) r \<and> rw_id (upd row) = rw_id row)"

lemma updates_commute: "commutes id" "commutes (set_budget e)" "commutes (rebind_planning p a b)"
  by (simp_all add: commutes_def set_budget_def rebind_planning_def apply_snapshot_def Let_def)

lemma bound_to_iff: "bound_to row r = r \<longleftrightarrow> identity r =
    (rw_id row, rw_project_id row, rw_task_id row, Some (rw_policy_version row), rw_base_ref row, rw_base_sha row)"
  by (cases r) (auto simp: bound_to_def identity_def)

lemma set_budget_keeps: "bound_to (set_budget e row) r = bound_to row r"
  by (simp add: bound_to_def set_budget_def Let_def)

definition changes :: "event_context option \<Rightarrow> run_store \<Rightarrow> uuid \<Rightarrow> int \<Rightarrow> run_snapshot \<Rightarrow> run_store \<Rightarrow> bool" where
  "changes ctx st run_id v r st' \<longleftrightarrow> (\<exists>change args upd r'. change_state ctx st run_id v change args upd = Inr (r', st') \<and> commutes upd \<and>
     (\<forall>q. storable q \<longrightarrow> change q = Inr r' \<longrightarrow> advances q r') \<and> (\<forall>row. bound_to row r' = r' \<longrightarrow> bound_to (upd row) r' = r))"

lemma changesI:
  assumes "change_state ctx st run_id v change args upd = Inr (r', st')" and "commutes upd"
    and "\<And>q. storable q \<Longrightarrow> change q = Inr r' \<Longrightarrow> advances q r'" and "\<And>row. bound_to row r' = r' \<Longrightarrow> bound_to (upd row) r' = r"
  shows "changes ctx st run_id v r st'"
  unfolding changes_def using assms by blast

lemma engine_change_changes:
  assumes "change_state ctx st run_id v (engine_change op) args id = Inr (r, st')"
  shows "changes ctx st run_id v r st'"
  by (rule changesI [OF assms updates_commute(1)]) (auto dest: engine_change_advances)

lemma repo_apply_changes:
  assumes "repo_apply ctx st run_id v args op = Inr (r, st')"
  shows "changes ctx st run_id v r st'"
proof (cases op)
  case (Repo_restart_planning policy ref sha)
  with assms obtain r' where c: "change_state ctx st run_id v restart_change (args\<lparr> ea_payload_schema_version := 1 \<rparr>)
        (rebind_planning policy ref sha) = Inr (r', st')"
      "r = r'\<lparr> rs_policy_version := Some policy, rs_base_ref := Some ref, rs_base_sha := Some sha \<rparr>"
    by (auto simp: restart_planning_def ebind_Inr split: if_splits)
  from c(2) have b: "bound_to row r' = r' \<Longrightarrow> bound_to (rebind_planning policy ref sha row) r' = r" for row
    unfolding bound_to_iff by (cases r') (simp add: bound_to_def rebind_planning_def identity_def)
  show ?thesis by (rule changesI [OF c(1) updates_commute(3)]) (auto intro: plan_changes_advance(3) b)
next
  case (Repo_approve_plan e)
  with assms have c: "change_state ctx st run_id v (approved_change e) args (set_budget e) = Inr (r, st')" by (simp add: approve_plan_def)
  show ?thesis by (rule changesI [OF c updates_commute(2) plan_changes_advance(1)]) (auto simp: set_budget_keeps)
next
  case (Repo_prepare_plan e)
  with assms have c: "change_state ctx st run_id v (prepared_change e) args (set_budget e) = Inr (r, st')"
    by (simp add: prepare_plan_internally_def)
  show ?thesis by (rule changesI [OF c updates_commute(2) plan_changes_advance(2)]) (auto simp: set_budget_keeps)
next
  case (Repo_local_remediation a l)
  with assms have c: "change_state ctx st run_id v (local_remediation a l) args id = Inr (r, st')"
    by (auto simp: begin_local_remediation_def split: if_splits)
  show ?thesis by (rule changesI [OF c updates_commute(1) remediation_advances(1)]) auto
next
  case (Repo_remote_remediation l)
  with assms have c: "change_state ctx st run_id v (remote_remediation l) args id = Inr (r, st')"
    by (auto simp: begin_remote_remediation_def split: if_splits)
  show ?thesis by (rule changesI [OF c updates_commute(1) remediation_advances(2)]) auto
next
  case (Repo_update_resource p s n ro se)
  with assms have c: "change_state ctx st run_id v (\<lambda>current. by_engine (lift_exn (with_resource current (Some p)
       (Some s) (Some n) (Some ro) (Some se)))) args id = Inr (r, st')" by (simp add: update_resource_def)
  show ?thesis by (rule changesI [OF c updates_commute(1)]) (auto intro: resource_changes_advance(1))
next
  case (Repo_bind_branch b)
  with assms have c: "change_state ctx st run_id v (branch_change b) args id = Inr (r, st')"
    by (auto simp: bind_preparation_branch_def split: if_splits)
  show ?thesis by (rule changesI [OF c updates_commute(1) resource_changes_advance(2)]) auto
qed (use assms in \<open>auto simp: repo_transition_def repo_await_approval_def repo_intervene_def repo_resume_interrupted_work_def
    repo_pause_def repo_resume_def intro: engine_change_changes\<close>)

lemma event_append_Inr:
  assumes "event_append ctx st e = Inr st'"
  shows "\<exists>stored. st' = st\<lparr> st_events := st_events st @ [stored] \<rparr> \<and> ev_run_id stored = ev_run_id e \<and>
     ev_run_version stored = ev_run_version e \<and> ev_sequence stored = Some (next_sequence st (ev_run_id e))"
  using assms by (auto simp: event_append_def Let_def run_event_make_def split: if_splits sum.splits)

lemma change_state_Inr:
  assumes "change_state ctx st run_id v change args upd = Inr (r', st')"
  obtains row q events event where "st_runs st run_id = Some row" "rw_version row = v" "snapshot_from_record row = Inr q"
      "change q = Inr r'" "run_event_make (causal_event run_id (rs_version r') args) = Inr event"
      "event_append events (st\<lparr> st_runs := (st_runs st)(run_id \<mapsto> upd (apply_snapshot row r')) \<rparr>) event = Inr st'"
      "store_accepts st (upd (apply_snapshot row r'))"
proof -
  from assms obtain row where row: "st_runs st run_id = Some row" by (cases "st_runs st run_id") (auto simp: change_state_def)
  with assms have v: "rw_version row = v" by (auto simp: change_state_def split: if_splits)
  with assms row obtain q where q: "snapshot_from_record row = Inr q"
    by (cases "snapshot_from_record row") (auto simp: change_state_def)
  with assms row v obtain c where c: "change q = Inr c" by (cases "change q") (auto simp: change_state_def)
  with assms row v q obtain events where ctx: "ctx = Some events" by (cases ctx) (auto simp: change_state_def)
  with assms row v q c obtain event where event: "run_event_make (causal_event run_id (rs_version c) args) = Inr event"
    by (cases "run_event_make (causal_event run_id (rs_version c) args)") (auto simp: change_state_def)
  with assms row v q c ctx have "event_append events (st\<lparr> st_runs := (st_runs st)(run_id \<mapsto> upd (apply_snapshot row c)) \<rparr>) event = Inr st'"
      "store_accepts st (upd (apply_snapshot row c))" "c = r'"
    by (auto simp: change_state_def Let_def ebind_Inr split: if_splits)
  with row v q c event show thesis by (auto intro: that)
qed

text \<open>The effect of a change: the row decodes to the returned snapshot one version further, and one event
  is appended under the next sequence number.\<close>

lemma changes_result:
  assumes "changes ctx st run_id v r st'"
  obtains row row' q e where "st_runs st run_id = Some row" "rw_version row = v" "snapshot_from_record row = Inr q"
    "rs_version r = v + 1" "st_runs st' = (st_runs st)(run_id \<mapsto> row')" "store_accepts st row'" "snapshot_from_record row' = Inr r"
    "rw_id row' = rw_id row" "st_events st' = st_events st @ [e]" "ev_run_id e = run_id" "ev_run_version e = v + 1"
    "ev_sequence e = Some (next_sequence st run_id)" "st_projects st' = st_projects st" "st_tasks st' = st_tasks st"
proof -
  from assms obtain change args upd r' where ch: "change_state ctx st run_id v change args upd = Inr (r', st')" and com: "commutes upd"
      and adv: "\<And>q. storable q \<Longrightarrow> change q = Inr r' \<Longrightarrow> advances q r'" and bnd: "\<And>row. bound_to row r' = r' \<Longrightarrow> bound_to (upd row) r' = r"
    unfolding changes_def by blast
  from change_state_Inr [OF ch] obtain row q events event where s: "st_runs st run_id = Some row" "rw_version row = v" "snapshot_from_record row = Inr q"
      "change q = Inr r'" "run_event_make (causal_event run_id (rs_version r') args) = Inr event"
      "event_append events (st\<lparr> st_runs := (st_runs st)(run_id \<mapsto> upd (apply_snapshot row r')) \<rparr>) event = Inr st'"
      "store_accepts st (upd (apply_snapshot row r'))" .
  let ?row = "apply_snapshot (upd row) r'"
  have row': "upd (apply_snapshot row r') = ?row" and id: "rw_id (upd row) = rw_id row" using com by (auto simp: commutes_def)
  note q = decoded_storable [OF s(3)]
  have a: "advances q r'" using adv q(1) s(4) .
  have "storable r'" using advances_storable [OF a, of "upd row"] s(7) by (auto simp: row' store_accepts_def row_ok_def row_checks_def)
  moreover have "bound_to row r' = r'" using a q(2) by (simp add: bound_to_iff advances_def)
  ultimately have dec: "snapshot_from_record ?row = Inr r" using snapshot_roundtrip bnd by metis
  have ver: "rs_version r' = v + 1" using a q(3) s(2) by (simp add: advances_def)
  then have rv: "rs_version r = v + 1" using decoded_storable(3) [OF dec] by simp
  have ev: "ev_run_id event = run_id" "ev_run_version event = v + 1" using s(5) ver by (auto simp: run_event_make_def causal_event_def)
  have ns: "next_sequence (st\<lparr> st_runs := f \<rparr>) i = next_sequence st i" for f i by (simp add: next_sequence_def run_events_def)
  from event_append_Inr [OF s(6)] ev obtain e where e: "st' = st\<lparr> st_runs := (st_runs st)(run_id \<mapsto> ?row) \<rparr>\<lparr> st_events := st_events st @ [e] \<rparr>"
      "ev_run_id e = run_id" "ev_run_version e = v + 1" "ev_sequence e = Some (next_sequence st run_id)"
    by (auto simp: ns row')
  show thesis by (rule that [of row q ?row e]) (use s e dec rv row' id in auto)
qed

text \<open>The invariant of the store: every row is accepted by its constraints, decodes, and has one event for each
  version it went through, numbered without a gap.\<close>

definition log_complete :: "run_store \<Rightarrow> uuid \<Rightarrow> int \<Rightarrow> bool" where
  "log_complete st run_id n \<longleftrightarrow> map ev_run_version (run_events st run_id) = [1..n] \<and> map event_sequence (run_events st run_id) = [1..n]"

definition run_consistent :: "run_store \<Rightarrow> uuid \<Rightarrow> bool" where
  "run_consistent st run_id \<longleftrightarrow> (case st_runs st run_id of
     None \<Rightarrow> run_events st run_id = []
   | Some row \<Rightarrow> rw_id row = run_id \<and> store_accepts st row \<and> (\<exists>r. snapshot_from_record row = Inr r) \<and> log_complete st run_id (rw_version row))"

definition store_inv :: "run_store \<Rightarrow> bool" where
  "store_inv st \<longleftrightarrow> (\<forall>run_id. run_consistent st run_id)"

lemma run_consistent_frame:
  assumes "st_runs st' j = st_runs st j" "run_events st' j = run_events st j" "st_projects st' = st_projects st" "st_tasks st' = st_tasks st"
  shows "run_consistent st' j = run_consistent st j"
  using assms by (cases "st_runs st j") (simp_all add: run_consistent_def log_complete_def store_accepts_def)

lemma next_sequence_complete:
  assumes "log_complete st run_id n" and "0 \<le> n"
  shows "next_sequence st run_id = n + 1"
proof -
  have "foldr max [1..n] 0 = n" using assms(2)
  proof (induction n rule: int_ge_induct)
    case (step n)
    then have "[1..n + 1] = [1..n] @ [n + 1]" by (simp add: upto_rec2)
    moreover have "foldr max xs (n + 1) = max (n + 1) (foldr max xs 0)" for xs using step(1) by (induction xs) auto
    ultimately show ?case using step by simp
  qed simp
  then show ?thesis using assms(1) by (simp add: log_complete_def next_sequence_def)
qed

lemma changes_inv:
  assumes "changes ctx st run_id v r st'" and "store_inv st"
  shows "store_inv st'"
proof -
  from changes_result [OF assms(1)] obtain row row' q e where c: "st_runs st run_id = Some row" "rw_version row = v" "snapshot_from_record row = Inr q"
    "rs_version r = v + 1" "st_runs st' = (st_runs st)(run_id \<mapsto> row')" "store_accepts st row'" "snapshot_from_record row' = Inr r"
    "rw_id row' = rw_id row" "st_events st' = st_events st @ [e]" "ev_run_id e = run_id" "ev_run_version e = v + 1"
    "ev_sequence e = Some (next_sequence st run_id)" "st_projects st' = st_projects st" "st_tasks st' = st_tasks st" .
  from assms(2) have "run_consistent st run_id" by (simp add: store_inv_def)
  with c(1,2) have i: "rw_id row = run_id" "log_complete st run_id v" by (simp_all add: run_consistent_def)
  have v: "0 \<le> v" using decoded_storable [OF c(3)] c(2) by (auto simp: storable_def run_inv_def)
  then have up: "[1..v + 1] = [1..v] @ [v + 1]" by (simp add: upto_rec2)
  have own: "run_events st' run_id = run_events st run_id @ [e]" using c(9,10) by (simp add: run_events_def)
  have other: "run_events st' i = run_events st i" if "i \<noteq> run_id" for i using c(9,10) that by (simp add: run_events_def)
  have "log_complete st' run_id (v + 1)"
    using i(2) next_sequence_complete [OF i(2) v] c(11,12) by (simp add: log_complete_def own up event_sequence_def)
  moreover have "rw_version row' = v + 1" using decoded_storable(3) [OF c(7)] c(4) by simp
  moreover have "store_accepts st' row'" using c(6,13,14) by (simp add: store_accepts_def)
  ultimately have "run_consistent st' run_id" using c(5,7,8) i(1) by (simp add: run_consistent_def)
  moreover have "run_consistent st' j" if "j \<noteq> run_id" for j
    using run_consistent_frame [of st' j st] other [OF that] that c(5,13,14) assms(2) by (simp add: store_inv_def)
  ultimately show ?thesis unfolding store_inv_def by metis
qed

lemma workflow_inv:
  assumes "update_workflow st run_id v w = Inr (r, st')" and "store_inv st"
  shows "store_inv st'"
proof -
  from assms(1) obtain row where row: "st_runs st run_id = Some row" "rw_version row = v" and
      row': "store_accepts st (row\<lparr> rw_workflow := workflow_column w \<rparr>)" "snapshot_from_record (row\<lparr> rw_workflow := workflow_column w \<rparr>) = Inr r"
      "st' = st\<lparr> st_runs := (st_runs st)(run_id \<mapsto> row\<lparr> rw_workflow := workflow_column w \<rparr>) \<rparr>"
    by (auto simp: update_workflow_def Let_def ebind_Inr split: option.splits if_splits)
  have "run_consistent st run_id" using assms(2) by (simp add: store_inv_def)
  with row row' have "run_consistent st' run_id" by (simp add: run_consistent_def log_complete_def run_events_def store_accepts_def)
  moreover have "run_consistent st' j" if "j \<noteq> run_id" for j
    using run_consistent_frame [of st' j st] that row'(3) assms(2) by (simp add: store_inv_def run_events_def)
  ultimately show ?thesis unfolding store_inv_def by metis
qed

lemma new_row_apply:
  assumes "validate_new_snapshot r = None"
  shows "new_row r p = apply_snapshot (new_row r p) (r\<lparr> rs_pending_gate := None, rs_pending_evidence_digest := None \<rparr>) \<and>
    storable (r\<lparr> rs_pending_gate := None, rs_pending_evidence_digest := None \<rparr>)"
  using assms
  by (auto simp: validate_new_snapshot_def Let_def new_row_def apply_snapshot_def storable_def run_inv_def run_snapshot_post_init_def
    validate_resource_shape_def validate_pending_metadata_None)

lemma create_inv:
  assumes "create st r = Inr st'" and "store_inv st"
  shows "store_inv st'"
proof -
  from assms(1) obtain p where c: "validate_new_snapshot r = None" "st_runs st (rs_id r) = None" "store_accepts st (new_row r p)"
      "st' = st\<lparr> st_runs := (st_runs st)(rs_id r \<mapsto> new_row r p) \<rparr>"
    by (auto simp: create_def Let_def split: option.splits)
  have "\<exists>q. snapshot_from_record (new_row r p) = Inr q" using snapshot_roundtrip new_row_apply [OF c(1)] by metis
  moreover have "run_events st (rs_id r) = []" using assms(2) [unfolded store_inv_def, rule_format, of "rs_id r"] c(2) by (simp add: run_consistent_def)
  ultimately have "run_consistent st' (rs_id r)" using c(3,4)
    by (simp add: run_consistent_def log_complete_def run_events_def store_accepts_def new_row_def)
  moreover have "run_consistent st' j" if "j \<noteq> rs_id r" for j
    using run_consistent_frame [of st' j st] that c(4) assms(2) by (simp add: store_inv_def run_events_def)
  ultimately show ?thesis unfolding store_inv_def by metis
qed

lemma store_step_inv: "store_step st st' \<Longrightarrow> store_inv st \<Longrightarrow> store_inv st'"
  by (auto elim!: store_stepE intro: changes_inv [OF repo_apply_changes] workflow_inv create_inv)

lemma empty_store_inv: "st_runs st = Map.empty \<and> st_events st = [] \<Longrightarrow> store_inv st"
  by (simp add: store_inv_def run_consistent_def run_events_def)

interpretation store: invariant_machine "\<lambda>st. st_runs st = Map.empty \<and> st_events st = []" store_step store_inv
  by unfold_locales (use empty_store_inv store_step_inv in blast)+

section \<open>Properties\<close>

text \<open>C30. Runs and rows correspond exactly: a row that decodes holds a run of the engine's invariant whose
  interventions can be resolved, and conversely every such run, written to any row, is read back
  unchanged apart from the identity columns the row keeps, and passes every check constraint of the
  table once the row's budgets are nonnegative.\<close>

theorem run_rows_exact:
  "(snapshot_from_record row = Inr r \<longrightarrow> storable r \<and> run_inv r \<and> bound_to row r = r) \<and>
   (storable q \<longrightarrow> snapshot_from_record (apply_snapshot row q) = Inr (bound_to row q) \<and>
      ((\<forall>n. rw_token_budget row = Some n \<longrightarrow> 0 \<le> n) \<and> 0 \<le> rw_cost_budget_minor row \<and> 0 \<le> rw_duration_budget_seconds row \<longrightarrow>
        row_checks (apply_snapshot row q)))"
proof -
  have "storable r \<and> run_inv r \<and> bound_to row r = r" if "snapshot_from_record row = Inr r"
    using decoded_storable [OF that] by (simp add: storable_def)
  then show ?thesis using snapshot_roundtrip row_checks_storable by blast
qed

definition sample_row :: run_row where
  "sample_row = new_row (new_run 1 2 3) 1"

definition paused_run :: run_snapshot where
  "paused_run = (new_run 1 2 3)\<lparr> rs_state := PAUSED, rs_version := 1, rs_suspended_state := Some CREATED,
     rs_suspension_kind := Some PAUSE, rs_suspension_context := Some \<lparr> sc_state = CREATED, sc_suspended_state = None,
       sc_suspension_kind = None, sc_pending_gate = None, sc_pending_evidence_digest = None \<rparr>, rs_policy_version := Some 1 \<rparr>"

lemma paused_run_storable: "storable paused_run"
  by (simp add: storable_def run_inv_def paused_run_def new_run_def run_snapshot_post_init_def validate_resource_shape_def
    validate_pending_metadata_None context_ok_def suspension_context_post_init_def)

theorem run_rows_exact_witness:
  "snapshot_from_record (apply_snapshot sample_row paused_run) = Inr paused_run \<and> row_checks (apply_snapshot sample_row paused_run)"
proof -
  have "bound_to sample_row paused_run = paused_run"
    by (simp add: bound_to_iff identity_def sample_row_def new_row_def paused_run_def new_run_def)
  moreover have "rw_token_budget sample_row = None" "rw_cost_budget_minor sample_row = 0" "rw_duration_budget_seconds sample_row = 0"
    by (simp_all add: sample_row_def new_row_def)
  ultimately show ?thesis using run_rows_exact [of sample_row _ paused_run] paused_run_storable by auto
qed

text \<open>C2. The run store is consistent after any history of repository operations: every row satisfies its
  constraints and decodes to a run of the engine's invariant, its interventions can be resolved, and
  its events are exactly one for each version from one to the current, numbered in that order without
  a gap; a run that was never created has no events.\<close>

theorem run_store_consistent:
  assumes "store_step\<^sup>*\<^sup>* st0 st" and "st_runs st0 = Map.empty" and "st_events st0 = []"
  shows "(\<forall>row. st_runs st run_id = Some row \<longrightarrow> row_ok row \<and>
       (\<exists>r. snapshot_from_record row = Inr r \<and> run_inv r \<and>
          (rs_state r = AWAITING_HUMAN_INTERVENTION \<longrightarrow> rs_suspended_state r \<noteq> None)) \<and>
       map ev_run_version (run_events st run_id) = [1..rw_version row] \<and>
       map event_sequence (run_events st run_id) = [1..rw_version row]) \<and>
     (st_runs st run_id = None \<longrightarrow> run_events st run_id = [])"
proof -
  have "store_inv st" using store.run_inv_from_init assms by blast
  then have "run_consistent st run_id" by (simp add: store_inv_def)
  then show ?thesis using decoded_storable(1)
    by (cases "st_runs st run_id") (auto simp: run_consistent_def log_complete_def store_accepts_def storable_def)
qed

fun engine_op_of :: "repo_op \<Rightarrow> engine_op option" where
  "engine_op_of (Repo_transition t) = Some (Transition t)"
| "engine_op_of (Repo_await_approval g d) = Some (AwaitApproval g d)"
| "engine_op_of Repo_intervene = Some Intervene"
| "engine_op_of Repo_resume_interrupted_work = Some ResumeInterruptedWork"
| "engine_op_of Repo_pause = Some Pause"
| "engine_op_of Repo_resume = Some Resume"
| "engine_op_of _ = None"

lemma engine_op_change:
  assumes "engine_op_of op = Some eop" and "repo_apply ctx st run_id v args op = Inr x"
  shows "\<exists>a. change_state ctx st run_id v (engine_change eop) a id = Inr x"
  using assms by (cases op) (auto simp: repo_transition_def repo_await_approval_def repo_intervene_def
    repo_resume_interrupted_work_def repo_pause_def repo_resume_def)

lemma engine_change_result:
  assumes "change_state ctx st run_id v (engine_change eop) a upd = Inr (r, st')" and "st_runs st run_id = Some row"
    and "snapshot_from_record row = Inr q"
  shows "engine_apply q eop = Inr r"
proof -
  from change_state_Inr [OF assms(1)] obtain row' q' where "st_runs st run_id = Some row'" "snapshot_from_record row' = Inr q'"
      "engine_change eop q' = Inr r" by blast
  with assms(2,3) show ?thesis by (simp add: engine_change_def)
qed

text \<open>C5. A repository operation implements the engine under its version fence: an operation with a stale
  version, or on a missing run, fails; a successful one was given the stored version, returns exactly
  the snapshot a later read decodes, one version further, leaves every other run alone and appends
  exactly one event, the one for the new version; and for the operations of the state engine the new
  snapshot is the engine's own result on the stored one.\<close>

theorem repository_refines_engine:
  assumes "repo_apply ctx st run_id v args op = Inr (r, st')"
  shows "\<exists>row row' q e. st_runs st run_id = Some row \<and> rw_version row = v \<and> snapshot_from_record row = Inr q \<and>
     st_runs st' = (st_runs st)(run_id \<mapsto> row') \<and> snapshot_from_record row' = Inr r \<and> rs_version r = v + 1 \<and>
     st_events st' = st_events st @ [e] \<and> ev_run_id e = run_id \<and> ev_run_version e = v + 1 \<and>
     (\<forall>eop. engine_op_of op = Some eop \<longrightarrow> engine_apply q eop = Inr r)"
proof -
  from changes_result [OF repo_apply_changes [OF assms]] obtain row row' q e where c: "st_runs st run_id = Some row" "rw_version row = v"
    "snapshot_from_record row = Inr q" "rs_version r = v + 1" "st_runs st' = (st_runs st)(run_id \<mapsto> row')" "store_accepts st row'"
    "snapshot_from_record row' = Inr r" "rw_id row' = rw_id row" "st_events st' = st_events st @ [e]" "ev_run_id e = run_id"
    "ev_run_version e = v + 1" "ev_sequence e = Some (next_sequence st run_id)" "st_projects st' = st_projects st" "st_tasks st' = st_tasks st" .
  have eng: "engine_apply q eop = Inr r" if "engine_op_of op = Some eop" for eop
    using engine_op_change [OF that assms] c(1,3) by (blast intro: engine_change_result)
  show ?thesis by (intro exI [of _ row] exI [of _ row'] exI [of _ q] exI [of _ e] conjI allI impI) (use c eng in \<open>simp_all\<close>)
qed

text \<open>A change succeeds when its event is valid and the constraints accept the row.\<close>

lemma change_state_succeeds:
  assumes "st_runs st run_id = Some row" and "rw_version row = v" and "snapshot_from_record row = Inr q" and "change q = Inr r'"
    and "run_event_make (causal_event run_id (rs_version r') args) = Inr event" and "ec_run_id events \<in> {None, Some run_id}"
    and "ea_event_id args \<notin> set (map ev_event_id (st_events st))" and "store_accepts st (upd (apply_snapshot row r'))"
  shows "\<exists>st'. change_state (Some events) st run_id v change args upd = Inr (r', st')"
proof -
  let ?st = "st\<lparr> st_runs := (st_runs st)(run_id \<mapsto> upd (apply_snapshot row r')) \<rparr>"
  from assms(5) have e: "ev_run_id event = run_id" "ev_sequence event = None" "ev_event_id event = ea_event_id args"
      and g: "\<And>n p. 1 \<le> n \<Longrightarrow> \<exists>x. run_event_make (event\<lparr> ev_sequence := Some n, ev_payload := p \<rparr>) = Inr x"
    by (auto simp: run_event_make_def causal_event_def)
  have "foldr max xs (0 :: int) \<ge> 0" for xs by (induction xs) auto
  then have "1 \<le> next_sequence ?st run_id" by (simp add: next_sequence_def)
  from g [OF this] obtain x where
    "run_event_make (event\<lparr> ev_sequence := Some (next_sequence ?st run_id),
       ev_payload := ec_redact events (correlated events (thaw_dict (ev_payload event))) \<rparr>) = Inr x" by blast
  then have "\<exists>st'. event_append events ?st event = Inr st'"
    using e assms(6,7) by (auto simp: event_append_def Let_def)
  with assms show ?thesis by (auto simp: change_state_def)
qed

definition sample_store :: run_store where
  "sample_store = \<lparr> st_runs = Map.empty, st_events = [],
     st_projects = Map.empty(2 \<mapsto> \<lparr> pj_current_policy_version = Some 1, pj_policies = [1] \<rparr>), st_tasks = Map.empty(3 \<mapsto> 2) \<rparr>"

definition created_store :: run_store where
  "created_store = sample_store\<lparr> st_runs := Map.empty(1 \<mapsto> sample_row) \<rparr>"

lemma sample_row_apply: "sample_row = apply_snapshot sample_row (new_run 1 2 3) \<and> storable (new_run 1 2 3)"
proof -
  have "validate_new_snapshot (new_run 1 2 3) = None" by (simp add: validate_new_snapshot_def new_run_def)
  from new_row_apply [OF this, of 1] show ?thesis by (simp add: sample_row_def new_run_def)
qed

lemma sample_accepts:
  assumes "storable r" and "rs_version r < 1000" and "rs_local_remediation_count r < 1000" and "rs_remote_remediation_count r < 1000"
    and "rs_branch_name r = None" "rs_database_name r = None" "rs_database_role r = None" "rs_secret_id r = None"
    "rs_pending_evidence_digest r = None"
  shows "store_accepts sample_store (apply_snapshot sample_row r)"
proof -
  have "row_checks (apply_snapshot sample_row r)"
    by (rule row_checks_storable [OF assms(1)]) (simp_all add: sample_row_def new_row_def)
  moreover have "columns_fit (apply_snapshot sample_row r)"
    using assms by (simp add: columns_fit_def int32_def varchar_def storable_def run_inv_def) (simp add: sample_row_def new_row_def new_run_def apply_snapshot_def)
  ultimately show ?thesis by (simp add: store_accepts_def row_ok_def) (simp add: sample_row_def new_row_def new_run_def sample_store_def)
qed

lemma sample_create: "create sample_store (new_run 1 2 3) = Inr created_store"
proof -
  have "validate_new_snapshot (new_run 1 2 3) = None" by (simp add: validate_new_snapshot_def new_run_def)
  moreover have "store_accepts sample_store sample_row"
    using sample_accepts [of "new_run 1 2 3"] sample_row_apply by (simp add: new_run_def)
  ultimately show ?thesis
    by (simp add: create_def created_store_def sample_row_def) (simp add: new_run_def sample_store_def)
qed

theorem run_store_consistent_witness:
  "store_step\<^sup>*\<^sup>* sample_store created_store \<and> row_ok sample_row \<and> (\<exists>r. snapshot_from_record sample_row = Inr r)"
proof -
  have s: "store_step\<^sup>*\<^sup>* sample_store created_store" using sample_create by (auto intro: store_step.intros)
  have "st_runs created_store 1 = Some sample_row" by (simp add: created_store_def)
  with run_store_consistent [OF s, of 1] s show ?thesis by (auto simp: sample_store_def)
qed

definition sample_context :: event_context where
  "sample_context = \<lparr> ec_run_id = None, ec_correlation = [], ec_redact = (\<lambda>d. d) \<rparr>"

definition sample_args :: event_args where
  "sample_args = \<lparr> ea_event_id = 9, ea_event_type = ''run.planning'', ea_payload = [], ea_actor_class = ''system'', ea_actor_id = None,
     ea_payload_schema_version = 1, ea_occurred_at = Aware 0 \<rparr>"

theorem repository_refines_engine_witness:
  "\<exists>r st'. repo_apply (Some sample_context) created_store 1 0 sample_args (Repo_transition PLANNING) = Inr (r, st') \<and> rs_version r = 1"
proof -
  have row: "st_runs created_store 1 = Some sample_row" "rw_version sample_row = 0" by (simp_all add: created_store_def sample_row_def new_row_def)
  let ?q = "bound_to sample_row (new_run 1 2 3)"
  have q: "snapshot_from_record sample_row = Inr ?q" using snapshot_roundtrip sample_row_apply by metis
  let ?r = "?q\<lparr> rs_state := PLANNING, rs_version := 1 \<rparr>"
  have t: "engine_change (Transition PLANNING) ?q = Inr ?r"
    by (simp add: engine_change_def transition_Inr with_state_Inr)
      (simp add: bound_to_def new_run_def validate_resource_shape_def validate_pending_metadata_None)
  have "storable ?r"
    by (simp add: storable_def run_inv_def bound_to_def new_run_def run_snapshot_post_init_def validate_resource_shape_def validate_pending_metadata_None)
  then have "store_accepts sample_store (apply_snapshot sample_row ?r)"
    by (rule sample_accepts) (simp_all add: bound_to_def new_run_def)
  then have "store_accepts created_store (id (apply_snapshot sample_row ?r))" by (simp add: store_accepts_def created_store_def)
  moreover have "\<exists>ev. run_event_make (causal_event 1 (rs_version ?r) sample_args) = Inr ev"
    by (simp add: run_event_make_def causal_event_def sample_args_def ACTOR_CLASSES_def)
  ultimately obtain st' where
    "change_state (Some sample_context) created_store 1 0 (engine_change (Transition PLANNING)) sample_args id = Inr (?r, st')"
    using change_state_succeeds [where change = "engine_change (Transition PLANNING)" and args = sample_args and events = sample_context and upd = id,
      OF row q t]
    by (auto simp: sample_context_def created_store_def sample_store_def)
  then have a: "repo_apply (Some sample_context) created_store 1 0 sample_args (Repo_transition PLANNING) = Inr (?r, st')"
    by (simp add: repo_transition_def)
  with repository_refines_engine [OF a] show ?thesis by auto
qed


end
