(* ===== verification/Forge_Lease.thy ===== *)
theory Forge_Lease
  imports Forge_Prelude
begin

text \<open>
  Leases on the rows of a table, as the command queue and the operation log use them: a step is
  labelled with the worker that makes it and the time it reads, a row has at most one holder and
  the time its lease expires, and every new delivery of a row raises its attempt. Two interfaces
  give what the callers rely on: nobody but the holder changes a row under a live lease, and an
  unchanged attempt proves that the row was never delivered to another worker in between.
\<close>

section \<open>Histories\<close>

fun path :: "('l \<Rightarrow> 's \<Rightarrow> 's \<Rightarrow> bool) \<Rightarrow> 'l list \<Rightarrow> 's \<Rightarrow> 's \<Rightarrow> bool" where
  "path step [] s t = (s = t)"
| "path step (l # ls) s t = (\<exists>u. step l s u \<and> path step ls u t)"

lemma path_append: "path step (ls @ ms) s t \<longleftrightarrow> (\<exists>u. path step ls s u \<and> path step ms u t)"
  by (induction ls arbitrary: s) auto

section \<open>Interfaces\<close>

type_synonym lease_label = "string option \<times> int"

locale leased_rows =
  fixes row_of :: "'s \<Rightarrow> 'k \<Rightarrow> 'r option"
    and holder :: "'r \<Rightarrow> (string \<times> int) option"
    and step :: "lease_label \<Rightarrow> 's \<Rightarrow> 's \<Rightarrow> bool"
  assumes lease_fence: "step (a, now) s t \<Longrightarrow> row_of s k = Some r \<Longrightarrow> holder r = Some (w, e) \<Longrightarrow> now < e \<Longrightarrow>
      a \<noteq> Some w \<Longrightarrow> row_of t k = Some r"
begin

lemma lease_protects:
  assumes "path step ls s t" and "row_of s k = Some r" and "holder r = Some (w, e)"
    and "\<forall>(a, now) \<in> set ls. a \<noteq> Some w \<and> now < e"
  shows "row_of t k = Some r"
  using assms
proof (induction ls arbitrary: s)
  case (Cons l ls)
  then obtain a now u where "l = (a, now)" "step (a, now) s u" "path step ls u t" by (cases l) auto
  with Cons lease_fence show ?case by fastforce
qed simp

end

locale delivered_rows =
  fixes row_of :: "'s \<Rightarrow> 'k \<Rightarrow> 'r option"
    and owner :: "'r \<Rightarrow> string option"
    and attempt :: "'r \<Rightarrow> int"
    and step :: "lease_label \<Rightarrow> 's \<Rightarrow> 's \<Rightarrow> bool"
  assumes step_attempt: "step l s t \<Longrightarrow> row_of s k = Some r \<Longrightarrow> \<exists>r'. row_of t k = Some r' \<and>
      (attempt r < attempt r' \<or> attempt r = attempt r' \<and> owner r' \<in> {None, owner r})"
begin

lemma path_attempt:
  assumes "path step ls s t" and "row_of s k = Some r"
  shows "\<exists>r'. row_of t k = Some r' \<and> (attempt r < attempt r' \<or> attempt r = attempt r' \<and> owner r' \<in> {None, owner r})"
  using assms
proof (induction ls arbitrary: s r)
  case (Cons l ls)
  then obtain u where u: "step l s u" "path step ls u t" by auto
  from step_attempt [OF u(1) Cons.prems(2)] obtain q where q: "row_of u k = Some q"
    "attempt r < attempt q \<or> attempt r = attempt q \<and> owner q \<in> {None, owner r}" by blast
  from Cons.IH [OF u(2) q(1)] q(2) show ?case by fastforce
qed auto

lemma same_attempt_same_delivery:
  assumes "path step ls s u" and "path step ms u t" and "row_of s k = Some r" and "row_of t k = Some r'"
    and "attempt r' = attempt r" and "owner r' = Some w"
  shows "\<exists>q. row_of u k = Some q \<and> attempt q = attempt r \<and> owner q = Some w"
proof -
  from path_attempt [OF assms(1,3)] obtain q where q: "row_of u k = Some q" "attempt r \<le> attempt q" by auto
  from path_attempt [OF assms(2) q(1)] assms(4-6) q(2) have "attempt q = attempt r" "owner q = Some w" by auto
  with q(1) show ?thesis by blast
qed

end

section \<open>Tables\<close>

text \<open>A table is the list of its rows; a keyed row is written in place.\<close>

definition row_at :: "('r \<Rightarrow> 'k) \<Rightarrow> 'k \<Rightarrow> 'r list \<Rightarrow> 'r option" where
  "row_at key k rows = find (\<lambda>r. key r = k) rows"

definition put_row :: "('r \<Rightarrow> 'k) \<Rightarrow> 'r \<Rightarrow> 'r list \<Rightarrow> 'r list" where
  "put_row key r rows = map (\<lambda>x. if key x = key r then r else x) rows"

lemma row_at_Some: "row_at key k rows = Some r \<Longrightarrow> r \<in> set rows \<and> key r = k"
  by (auto simp: row_at_def find_Some_iff)

lemma row_at_None: "row_at key k rows = None \<longleftrightarrow> k \<notin> key ` set rows"
  by (auto simp: row_at_def find_None_iff)

lemma row_at_append: "row_at key k (rows @ [r]) =
    (case row_at key k rows of Some x \<Rightarrow> Some x | None \<Rightarrow> if key r = k then Some r else None)"
  by (induction rows) (auto simp: row_at_def)

lemma row_at_put: "row_at key k (put_row key r rows) =
    (if k = key r \<and> k \<in> key ` set rows then Some r else row_at key k rows)"
  by (induction rows) (auto simp: row_at_def put_row_def)

lemma row_at_in: "distinct (map key rows) \<Longrightarrow> r \<in> set rows \<Longrightarrow> row_at key (key r) rows = Some r"
  by (induction rows) (auto simp: row_at_def)

lemma map_put_row: "(\<And>x. x \<in> set rows \<Longrightarrow> key x = key r \<Longrightarrow> f x = f r) \<Longrightarrow> map f (put_row key r rows) = map f rows"
  by (auto simp: put_row_def)

lemma set_put_row: "set (put_row key r rows) \<subseteq> insert r (set rows)"
  by (auto simp: put_row_def)

lemma in_put_row: "x \<in> set (put_row key r rows) \<Longrightarrow> x = r \<or> x \<in> set rows \<and> key x \<noteq> key r"
  by (auto simp: put_row_def split: if_splits)

end
