(* ===== verification/Forge_Command_Store.thy ===== *)
theory Forge_Command_Store
  imports Forge_Run_Store Forge_Lease
begin

text \<open>
  The durable command queue: \<^verbatim>\<open>persistence/repositories/commands.py\<close>, its table in
  \<^verbatim>\<open>persistence/models/execution.py\<close> and the recovery predicates of
  \<^verbatim>\<open>persistence/queries/recovery.py\<close>. Workers claim commands under leases that expire; the
  queue keeps at most one live normal and one live control lease per run.

  The database is one record of tables. Each repository call is one atomic step on it: the source
  holds the row locks of a call to the end of its transaction, and a raise rolls the transaction
  back, so an error value carries no database. The rows other transactions hold locked, which
  \<^verbatim>\<open>SKIP LOCKED\<close> passes over, are an argument, and so are the clock a call reads, the clock of the
  database and fresh identifiers. A \<^verbatim>\<open>timestamptz\<close> column is an instant in microseconds.
\<close>

section \<open>Tables\<close>

record command_row =
  cr_id :: uuid
  cr_run_id :: uuid
  cr_idempotency_key :: string
  cr_command_type :: string
  cr_expected_run_version :: int
  cr_actor_id :: "uuid option"
  cr_payload_schema_version :: int
  cr_payload :: pyval
  cr_status :: string
  cr_available_at :: int
  cr_lease_owner :: "string option"
  cr_lease_expires_at :: "int option"
  cr_attempt_count :: int
  cr_completed_at :: "int option"
  cr_error_summary :: "string option"
  cr_created_at :: int

record intent_row =
  ir_id :: uuid
  ir_run_id :: uuid
  ir_operation_kind :: string
  ir_idempotency_key :: string
  ir_request_digest :: string
  ir_request_schema_version :: int
  ir_request_payload :: pyval
  ir_status :: string
  ir_remote_resource_id :: "string option"
  ir_execution_owner :: "string option"
  ir_execution_lease_expires_at :: "int option"
  ir_outcome_schema_version :: "int option"
  ir_outcome_payload :: "pyval option"
  ir_attempt_count :: int
  ir_last_error :: "string option"
  ir_started_at :: "int option"
  ir_completed_at :: "int option"
  ir_created_at :: int
  ir_updated_at :: int

text \<open>Steps, agent executions and tool calls appear with their run and status, usage checkpoints with
  the kind and identifier of their subject and their state. The barrier is the column
  \<^verbatim>\<open>required\<close> of the recovery singleton. Left out are the columns that no modelled operation reads or writes:
  \<^verbatim>\<open>provider_request_id\<close> and \<^verbatim>\<open>repository_id\<close> of an intent, \<^verbatim>\<open>updated_at\<close> of a command.\<close>

record exec_db =
  xd_store :: run_store
  xd_commands :: "command_row list"
  xd_intents :: "intent_row list"
  xd_barrier :: "bool option"
  xd_checkpoints :: "(string \<times> uuid \<times> string) list"
  xd_executions :: "(uuid \<times> string) list"
  xd_steps :: "(uuid \<times> string) list"
  xd_tool_calls :: "(uuid \<times> string) list"

definition status_checks :: "command_row \<Rightarrow> bool" where
  "status_checks r = (cr_status r \<in> {''PENDING'', ''LEASED'', ''COMPLETED'', ''FAILED'', ''CANCELLED''} \<and>
     0 \<le> cr_expected_run_version r \<and> 0 \<le> cr_attempt_count r \<and> 1 \<le> cr_payload_schema_version r)"

definition lease_shape :: "command_row \<Rightarrow> bool" where
  "lease_shape r = (cr_status r = ''LEASED'' \<and> cr_lease_owner r \<noteq> None \<and> cr_lease_expires_at r \<noteq> None \<or>
     cr_status r \<noteq> ''LEASED'' \<and> cr_lease_owner r = None \<and> cr_lease_expires_at r = None)"

definition terminal_timestamp_shape :: "command_row \<Rightarrow> bool" where
  "terminal_timestamp_shape r = (cr_status r \<in> {''COMPLETED'', ''FAILED'', ''CANCELLED''} \<and> cr_completed_at r \<noteq> None \<or>
     cr_status r \<in> {''PENDING'', ''LEASED''} \<and> cr_completed_at r = None)"

definition command_columns_fit :: "command_row \<Rightarrow> bool" where
  "command_columns_fit r = (varchar 255 (Some (cr_idempotency_key r)) \<and> varchar 96 (Some (cr_command_type r)) \<and>
     int32 (cr_expected_run_version r) \<and> int32 (cr_payload_schema_version r) \<and> int32 (cr_attempt_count r) \<and>
     varchar 24 (Some (cr_status r)) \<and> varchar 255 (cr_lease_owner r))"

definition command_row_ok :: "command_row \<Rightarrow> bool" where
  "command_row_ok r = (command_columns_fit r \<and> status_checks r \<and> lease_shape r \<and> terminal_timestamp_shape r)"

section \<open>Values\<close>

datatype command_error =
    CommandError string
  | CommandNotFound uuid
  | IdempotencyConflict string
  | CommandLeaseError string
  | CommandRecoveryRequired string
  | CommandStateConflict string
  | Command_data string
  | Command_invalid py_exn
  | Command_integrity

text \<open>The repository works in its own short transactions or inside the session of a unit of work.\<close>

datatype boundary = Session_factory | Session

datatype command_lane = NORMAL | CONTROL

definition MAX_ERROR_LENGTH :: nat where
  "MAX_ERROR_LENGTH = 1024"

definition CONTROL_COMMAND_TYPES :: "string list" where
  "CONTROL_COMMAND_TYPES = [''pause'', ''cancel'']"

definition command_statuses :: "(string \<times> command_status) list" where
  "command_statuses = [(''PENDING'', Cmd_PENDING), (''LEASED'', Cmd_LEASED), (''COMPLETED'', Cmd_COMPLETED),
     (''FAILED'', Cmd_FAILED), (''CANCELLED'', Cmd_CANCELLED)]"

definition row_envelope :: "command_row \<Rightarrow> command_status \<Rightarrow> (string, pyval) dict \<Rightarrow> command_envelope" where
  "row_envelope r status payload = \<lparr> ce_id = cr_id r, ce_run_id = cr_run_id r, ce_command_type = cr_command_type r,
     ce_idempotency_key = cr_idempotency_key r, ce_payload = payload, ce_status = status,
     ce_expected_run_version = cr_expected_run_version r, ce_actor_id = cr_actor_id r,
     ce_payload_schema_version = cr_payload_schema_version r, ce_attempt = cr_attempt_count r,
     ce_available_at = Aware (cr_available_at r), ce_lease_owner = cr_lease_owner r,
     ce_lease_expires_at = map_option Aware (cr_lease_expires_at r), ce_created_at = Some (Aware (cr_created_at r)),
     ce_completed_at = map_option Aware (cr_completed_at r), ce_error_summary = cr_error_summary r \<rparr>"

definition command_from_record :: "bool \<Rightarrow> command_row \<Rightarrow> command_error + command_envelope" where
  "command_from_record sq r = (case map_of command_statuses (cr_status r) of
     None \<Rightarrow> Inl (Command_data (''unknown stored command status '' @ py_repr (cr_status r)))
   | Some status \<Rightarrow> (case cr_payload r of
       PDict payload \<Rightarrow> (case command_envelope_make sq (row_envelope r status payload) of
           Inl _ \<Rightarrow> Inl (Command_data ''stored command is malformed'')
         | Inr c \<Rightarrow> Inr c)
     | _ \<Rightarrow> Inl (Command_data ''stored command payload is not an object'')))"

definition bounded_error :: "string \<Rightarrow> string" where
  "bounded_error error = take MAX_ERROR_LENGTH (redact_durable_text error)"

definition validate_worker_and_lease :: "string \<Rightarrow> pyval \<Rightarrow> py_exn option" where
  "validate_worker_and_lease worker_id lease_seconds = seq_raise [
     when_raise (worker_id = [] \<or> 255 < length worker_id) (ValueError ''worker id must contain 1-255 characters''),
     validate_lease_seconds lease_seconds]"

text \<open>\<^verbatim>\<open>timedelta(seconds=...)\<close> in microseconds, rounded half to even.\<close>

definition round_half_even :: "rat \<Rightarrow> int" where
  "round_half_even q = (let f = \<lfloor>q\<rfloor>; d = q - of_int f in
     if d < 1 / 2 then f else if 1 / 2 < d then f + 1 else if even f then f else f + 1)"

definition seconds_us :: "pyval \<Rightarrow> int" where
  "seconds_us v = (case v of PInt n \<Rightarrow> n * 1000000 | PFloat (Finite q) \<Rightarrow> round_half_even (q * 1000000) | _ \<Rightarrow> 0)"

definition owns_lease :: "command_row \<Rightarrow> string \<Rightarrow> int \<Rightarrow> bool" where
  "owns_lease r worker_id now = (cr_status r = ''LEASED'' \<and> cr_lease_owner r = Some worker_id \<and>
     (case cr_lease_expires_at r of None \<Rightarrow> False | Some e \<Rightarrow> now < e))"

definition require_owned_lease :: "command_row \<Rightarrow> string \<Rightarrow> int \<Rightarrow> command_error option" where
  "require_owned_lease r worker_id now = when_raise (\<not> owns_lease r worker_id now)
     (CommandLeaseError (''worker '' @ py_repr worker_id @ '' does not hold command '' @ uuid_str (cr_id r)))"

definition command_canonical :: "(rat \<Rightarrow> string) \<Rightarrow> (string, pyval) dict \<Rightarrow> string" where
  "command_canonical frepr payload = dumps \<lparr> enc_ascii = True, enc_float = frepr \<rparr> (thaw_payload (PDict payload))"

definition check_enqueue_match :: "(rat \<Rightarrow> string) \<Rightarrow> command_envelope \<Rightarrow> command_envelope \<Rightarrow> bool \<Rightarrow> command_error option" where
  "check_enqueue_match frepr expected actual compare_availability = when_raise (
     ce_run_id expected \<noteq> ce_run_id actual \<or> ce_command_type expected \<noteq> ce_command_type actual \<or>
     ce_expected_run_version expected \<noteq> ce_expected_run_version actual \<or> ce_actor_id expected \<noteq> ce_actor_id actual \<or>
     ce_payload_schema_version expected \<noteq> ce_payload_schema_version actual \<or>
     command_canonical frepr (ce_payload expected) \<noteq> command_canonical frepr (ce_payload actual) \<or>
     compare_availability \<and> ce_available_at expected \<noteq> ce_available_at actual)
     (IdempotencyConflict (''command idempotency key '' @ py_repr (ce_idempotency_key expected) @ '' has a different request''))"

text \<open>Equality of two \<^verbatim>\<open>jsonb\<close> values: key order does not count and numbers are compared by value.\<close>

fun jsonb_norm :: "pyval \<Rightarrow> pyval" where
  "jsonb_norm (PDict kvs) = PDict (sort_key fst (map (\<lambda>(k, v). (k, jsonb_norm v)) kvs))"
| "jsonb_norm (PList xs) = PList (map jsonb_norm xs)"
| "jsonb_norm (PTuple xs) = PList (map jsonb_norm xs)"
| "jsonb_norm (PFloat (Finite q)) = (if of_int \<lfloor>q\<rfloor> = q then PInt \<lfloor>q\<rfloor> else PFloat (Finite q))"
| "jsonb_norm v = v"

definition jsonb_eq :: "pyval \<Rightarrow> pyval \<Rightarrow> bool" where
  "jsonb_eq a b = (jsonb_norm a = jsonb_norm b)"

definition need_factory :: "boundary \<Rightarrow> command_error option" where
  "need_factory bd = when_raise (bd = Session) (CommandError ''command persistence boundary is not configured'')"

definition need_session :: "boundary \<Rightarrow> string \<Rightarrow> command_error option" where
  "need_session bd message = when_raise (bd = Session_factory) (CommandError message)"

definition checked :: "'e option \<Rightarrow> 'e + 'a \<Rightarrow> 'e + 'a" where
  "checked g m = (case g of None \<Rightarrow> m | Some e \<Rightarrow> Inl e)"

definition locked_command :: "exec_db \<Rightarrow> uuid \<Rightarrow> command_error + command_row" where
  "locked_command db command_id = (case row_at cr_id command_id (xd_commands db) of
     None \<Rightarrow> Inl (CommandNotFound command_id) | Some r \<Rightarrow> Inr r)"

text \<open>Write the row, flush it against its constraints and decode it.\<close>

definition flush_command :: "bool \<Rightarrow> exec_db \<Rightarrow> command_row \<Rightarrow> command_error + (command_envelope \<times> exec_db)" where
  "flush_command sq db r = (if \<not> command_row_ok r then Inl Command_integrity
     else ebind (command_from_record sq r) (\<lambda>c. Inr (c, db\<lparr> xd_commands := put_row cr_id r (xd_commands db) \<rparr>)))"

section \<open>Enqueueing\<close>

record enqueue_request =
  eq_run_id :: uuid
  eq_command_type :: string
  eq_idempotency_key :: string
  eq_payload :: "(string, pyval) dict"
  eq_expected_run_version :: int
  eq_actor_id :: "uuid option"
  eq_payload_schema_version :: int
  eq_available_at :: "datetime option"

definition enqueue_candidate :: "uuid \<Rightarrow> int \<Rightarrow> enqueue_request \<Rightarrow> command_envelope" where
  "enqueue_candidate new_id now q = \<lparr> ce_id = new_id, ce_run_id = eq_run_id q, ce_command_type = eq_command_type q,
     ce_idempotency_key = eq_idempotency_key q, ce_payload = eq_payload q, ce_status = Cmd_PENDING,
     ce_expected_run_version = eq_expected_run_version q, ce_actor_id = eq_actor_id q,
     ce_payload_schema_version = eq_payload_schema_version q, ce_attempt = 0,
     ce_available_at = (case eq_available_at q of None \<Rightarrow> Aware now | Some t \<Rightarrow> t),
     ce_lease_owner = None, ce_lease_expires_at = None, ce_created_at = None, ce_completed_at = None, ce_error_summary = None \<rparr>"

fun instant :: "datetime \<Rightarrow> int" where
  "instant (Aware t) = t"
| "instant (Naive t) = t"

definition inserted_command :: "int \<Rightarrow> command_envelope \<Rightarrow> command_row" where
  "inserted_command db_now c = \<lparr> cr_id = ce_id c, cr_run_id = ce_run_id c, cr_idempotency_key = ce_idempotency_key c,
     cr_command_type = ce_command_type c, cr_expected_run_version = ce_expected_run_version c, cr_actor_id = ce_actor_id c,
     cr_payload_schema_version = ce_payload_schema_version c, cr_payload = PDict (thaw_dict (ce_payload c)),
     cr_status = ''PENDING'', cr_available_at = instant (ce_available_at c), cr_lease_owner = None, cr_lease_expires_at = None,
     cr_attempt_count = 0, cr_completed_at = None, cr_error_summary = None, cr_created_at = db_now \<rparr>"

definition enqueue_core :: "bool \<Rightarrow> (rat \<Rightarrow> string) \<Rightarrow> exec_db \<Rightarrow> int \<Rightarrow> command_envelope \<Rightarrow> bool \<Rightarrow>
    command_error + (command_envelope \<times> exec_db)" where
  "enqueue_core sq frepr db db_now candidate compare_availability =
     (case row_at cr_idempotency_key (ce_idempotency_key candidate) (xd_commands db) of
        None \<Rightarrow> (let r = inserted_command db_now candidate in
          if cr_id r \<in> set (map cr_id (xd_commands db)) \<or> st_runs (xd_store db) (cr_run_id r) = None \<or> \<not> command_row_ok r
          then Inl Command_integrity
          else ebind (command_from_record sq r) (\<lambda>c. Inr (c, db\<lparr> xd_commands := xd_commands db @ [r] \<rparr>)))
      | Some existing \<Rightarrow>
          (let r = (case row_at cr_id (ce_id candidate) (xd_commands db) of Some x \<Rightarrow> x | None \<Rightarrow> existing) in
           ebind (command_from_record sq r) (\<lambda>actual.
             checked (check_enqueue_match frepr candidate actual compare_availability) (Inr (actual, db)))))"

definition enqueue :: "bool \<Rightarrow> (rat \<Rightarrow> string) \<Rightarrow> exec_db \<Rightarrow> int \<Rightarrow> int \<Rightarrow> uuid \<Rightarrow> enqueue_request \<Rightarrow>
    command_error + (command_envelope \<times> exec_db)" where
  "enqueue sq frepr db now db_now new_id q = (case command_envelope_make sq (enqueue_candidate new_id now q) of
     Inl e \<Rightarrow> Inl (Command_invalid e)
   | Inr candidate \<Rightarrow> enqueue_core sq frepr db db_now candidate (eq_available_at q \<noteq> None))"

section \<open>Claiming\<close>

definition is_control :: "command_row \<Rightarrow> bool" where
  "is_control r = (cr_command_type r \<in> set CONTROL_COMMAND_TYPES)"

definition in_lane :: "command_lane \<Rightarrow> command_row \<Rightarrow> bool" where
  "in_lane lane r = (case lane of CONTROL \<Rightarrow> is_control r | NORMAL \<Rightarrow> \<not> is_control r)"

definition expired :: "int \<Rightarrow> command_row \<Rightarrow> bool" where
  "expired now r = (case cr_lease_expires_at r of None \<Rightarrow> False | Some e \<Rightarrow> e \<le> now)"

definition live_lease :: "int \<Rightarrow> command_row \<Rightarrow> bool" where
  "live_lease now r = (cr_status r = ''LEASED'' \<and> (case cr_lease_expires_at r of None \<Rightarrow> False | Some e \<Rightarrow> now < e))"

definition eligible :: "command_lane \<Rightarrow> int \<Rightarrow> command_row \<Rightarrow> bool" where
  "eligible lane now r = (cr_available_at r \<le> now \<and>
     (cr_status r = ''PENDING'' \<or> cr_status r = ''LEASED'' \<and> expired now r) \<and> in_lane lane r)"

definition claim_order :: "command_row \<Rightarrow> int \<times> int \<times> uuid" where
  "claim_order r = (cr_available_at r, cr_created_at r, cr_id r)"

definition candidates :: "command_lane \<Rightarrow> int \<Rightarrow> uuid list \<Rightarrow> exec_db \<Rightarrow> uuid list \<Rightarrow> command_row list" where
  "candidates lane now locked db skipped = sort_key claim_order
     (filter (\<lambda>r. eligible lane now r \<and> cr_id r \<notin> set skipped \<and> cr_id r \<notin> set locked) (xd_commands db))"

definition unresolved_work :: "exec_db \<Rightarrow> uuid \<Rightarrow> bool" where
  "unresolved_work db run_id =
     ((\<exists>i \<in> set (xd_intents db). ir_run_id i = run_id \<and> ir_status i \<in> {''PENDING'', ''NEEDS_RECONCILIATION''}) \<or>
      (run_id, ''RUNNING'') \<in> set (xd_executions db) \<or> (run_id, ''RUNNING'') \<in> set (xd_steps db) \<or>
      (run_id, ''RUNNING'') \<in> set (xd_tool_calls db))"

definition startup_intervention_hold :: "exec_db \<Rightarrow> uuid \<Rightarrow> bool" where
  "startup_intervention_hold db run_id = (let events = run_events (xd_store db) run_id in
     unresolved_work db run_id \<and>
     (\<exists>e \<in> set events. ev_event_type e = ''run.recovery_intervention'' \<and>
        \<not> (\<exists>recovery \<in> set events.
            ev_event_type recovery \<in> {''run.interrupted_check_recovered'', ''run.interrupted_git_preparation_recovered''} \<and>
            event_sequence e < event_sequence recovery)))"

definition checkpoint_held :: "exec_db \<Rightarrow> uuid \<Rightarrow> bool" where
  "checkpoint_held db run_id = (\<exists>(kind, subject, state) \<in> set (xd_checkpoints db).
     kind = ''run'' \<and> subject = run_id \<and> state \<in> {''checkpoint_requested'', ''pausing'', ''paused''})"

definition state_excludes :: "string \<Rightarrow> command_row \<Rightarrow> bool" where
  "state_excludes run_state r = (run_state = ''PAUSED'' \<and> cr_command_type r \<noteq> ''resume'' \<or>
     run_state \<in> {''CANCELLED'', ''COMPLETED'', ''FAILED''} \<and> cr_command_type r \<noteq> ''teardown_run_resources'')"

definition others :: "exec_db \<Rightarrow> command_row \<Rightarrow> command_row list" where
  "others db r = filter (\<lambda>x. cr_run_id x = cr_run_id r \<and> cr_id x \<noteq> cr_id r) (xd_commands db)"

definition claim_blocked :: "command_lane \<Rightarrow> int \<Rightarrow> exec_db \<Rightarrow> command_row \<Rightarrow> bool" where
  "claim_blocked lane now db r =
     (let active_normal = length (filter (\<lambda>x. live_lease now x \<and> \<not> is_control x) (others db r));
          active_control = length (filter (\<lambda>x. live_lease now x \<and> is_control x) (others db r));
          pending_control = length (filter (\<lambda>x. cr_status x = ''PENDING'' \<and> cr_available_at x \<le> now \<and> is_control x) (others db r)) in
      case lane of CONTROL \<Rightarrow> active_control > 0 | NORMAL \<Rightarrow> active_normal > 0 \<or> active_control > 0 \<or> pending_control > 0)"

definition claim_skips :: "command_lane \<Rightarrow> int \<Rightarrow> exec_db \<Rightarrow> string \<Rightarrow> command_row \<Rightarrow> bool" where
  "claim_skips lane now db run_state r =
     (lane = NORMAL \<and> (checkpoint_held db (cr_run_id r) \<or> startup_intervention_hold db (cr_run_id r) \<or> state_excludes run_state r) \<or>
      claim_blocked lane now db r)"

text \<open>The loop \<^verbatim>\<open>while True\<close>: not returning is the value \<open>None\<close>.\<close>

partial_function (option) claim_loop :: "command_lane \<Rightarrow> int \<Rightarrow> uuid list \<Rightarrow> exec_db \<Rightarrow> uuid list \<Rightarrow> (command_error + command_row option) option" where
  "claim_loop lane now locked db skipped = (case candidates lane now locked db skipped of
     [] \<Rightarrow> Some (Inr None)
   | r # _ \<Rightarrow> (case st_runs (xd_store db) (cr_run_id r) of
       None \<Rightarrow> Some (Inl (Command_data (''command '' @ uuid_str (cr_id r) @ '' references a missing run'')))
     | Some run \<Rightarrow> if claim_skips lane now db (rw_state run) r then claim_loop lane now locked db (cr_id r # skipped)
         else Some (Inr (Some r))))"

declare claim_loop.simps [code]

definition leased_row :: "string \<Rightarrow> int \<Rightarrow> command_row \<Rightarrow> command_row" where
  "leased_row worker_id expiry r = r\<lparr> cr_status := ''LEASED'', cr_lease_owner := Some worker_id, cr_lease_expires_at := Some expiry,
     cr_attempt_count := cr_attempt_count r + 1, cr_completed_at := None \<rparr>"

definition claim_next :: "bool \<Rightarrow> boundary \<Rightarrow> exec_db \<Rightarrow> int \<Rightarrow> string \<Rightarrow> pyval \<Rightarrow> command_lane \<Rightarrow> uuid list \<Rightarrow>
    (command_error + (command_envelope option \<times> exec_db)) option" where
  "claim_next sq bd db now worker_id lease_seconds lane locked =
     (case seq_raise [map_option Command_invalid (validate_worker_and_lease worker_id lease_seconds), need_factory bd] of
        Some e \<Rightarrow> Some (Inl e)
      | None \<Rightarrow> (case xd_barrier db of
          None \<Rightarrow> Some (Inl (Command_data ''recovery singleton is missing''))
        | Some True \<Rightarrow> Some (Inr (None, db))
        | Some False \<Rightarrow> map_option (\<lambda>m. ebind m (\<lambda>found. case found of
            None \<Rightarrow> Inr (None, db)
          | Some r \<Rightarrow> ebind (flush_command sq db (leased_row worker_id (now + seconds_us lease_seconds) r))
              (\<lambda>(c, db'). Inr (Some c, db')))) (claim_loop lane now locked db [])))"

section \<open>Holding and settling a lease\<close>

text \<open>Every settlement locks the row, checks it and writes it back.\<close>

definition settle :: "bool \<Rightarrow> boundary \<Rightarrow> exec_db \<Rightarrow> uuid \<Rightarrow> (command_row \<Rightarrow> (command_error + command_row) option) \<Rightarrow>
    command_error + (command_envelope \<times> exec_db)" where
  "settle sq bd db command_id change = checked (need_factory bd) (ebind (locked_command db command_id) (\<lambda>r.
     case change r of
       None \<Rightarrow> ebind (command_from_record sq r) (\<lambda>c. Inr (c, db))
     | Some m \<Rightarrow> ebind m (flush_command sq db)))"

definition renew :: "bool \<Rightarrow> boundary \<Rightarrow> exec_db \<Rightarrow> int \<Rightarrow> uuid \<Rightarrow> string \<Rightarrow> pyval \<Rightarrow> command_error + (command_envelope \<times> exec_db)" where
  "renew sq bd db now command_id worker_id lease_seconds =
     checked (map_option Command_invalid (validate_worker_and_lease worker_id lease_seconds))
       (settle sq bd db command_id (\<lambda>r. Some (raising (require_owned_lease r worker_id now)
          (r\<lparr> cr_lease_expires_at := Some (now + seconds_us lease_seconds) \<rparr>))))"

definition assert_current_lease :: "bool \<Rightarrow> boundary \<Rightarrow> exec_db \<Rightarrow> int \<Rightarrow> command_envelope \<Rightarrow> bool \<Rightarrow> uuid list \<Rightarrow>
    command_error + command_envelope" where
  "assert_current_lease sq bd db now c wait locked = (case ce_lease_owner c of
     None \<Rightarrow> Inl (CommandLeaseError ''command delivery has no lease to fence'')
   | Some worker_id \<Rightarrow> checked (seq_raise [
       when_raise (ce_status c \<noteq> Cmd_LEASED) (CommandLeaseError ''command delivery has no lease to fence''),
       need_session bd ''lease fence requires an active unit of work'',
       when_raise (\<not> wait \<and> ce_id c \<in> set locked) (CommandRecoveryRequired ''command settlement fence is busy'')])
       (ebind (locked_command db (ce_id c)) (\<lambda>r. checked (seq_raise [
          require_owned_lease r worker_id now,
          when_raise (cr_attempt_count r \<noteq> ce_attempt c) (CommandLeaseError ''command lease delivery was reclaimed'')])
          (command_from_record sq r))))"

definition settled_row :: "string \<Rightarrow> int \<Rightarrow> string option \<Rightarrow> command_row \<Rightarrow> command_row" where
  "settled_row status time error r = r\<lparr> cr_status := status, cr_lease_owner := None, cr_lease_expires_at := None,
     cr_completed_at := Some time, cr_error_summary := error \<rparr>"

definition complete :: "bool \<Rightarrow> boundary \<Rightarrow> exec_db \<Rightarrow> int \<Rightarrow> uuid \<Rightarrow> string \<Rightarrow> command_error + (command_envelope \<times> exec_db)" where
  "complete sq bd db now command_id worker_id = settle sq bd db command_id (\<lambda>r.
     if cr_status r = ''COMPLETED'' then None
     else Some (raising (require_owned_lease r worker_id now) (settled_row ''COMPLETED'' now None r)))"

definition retry_delay :: "int \<Rightarrow> int" where
  "retry_delay attempt_count = min 300 (2 ^ nat (min (max (attempt_count - 1) 0) 8))"

definition retried_row :: "int \<Rightarrow> string \<Rightarrow> command_row \<Rightarrow> command_row" where
  "retried_row now error r = r\<lparr> cr_lease_owner := None, cr_lease_expires_at := None, cr_error_summary := Some error,
     cr_status := ''PENDING'', cr_completed_at := None, cr_available_at := now + retry_delay (cr_attempt_count r) * 1000000 \<rparr>"

definition fail :: "bool \<Rightarrow> boundary \<Rightarrow> exec_db \<Rightarrow> int \<Rightarrow> uuid \<Rightarrow> string \<Rightarrow> string \<Rightarrow> bool \<Rightarrow> command_error + (command_envelope \<times> exec_db)" where
  "fail sq bd db now command_id worker_id error transient = (let bounded = bounded_error error in
     settle sq bd db command_id (\<lambda>r.
       if cr_status r = ''FAILED'' \<and> \<not> transient then
         (if cr_error_summary r = Some bounded then None
          else Some (Inl (CommandStateConflict (''command '' @ uuid_str command_id @ '' already failed differently''))))
       else Some (raising (require_owned_lease r worker_id now)
         (if transient then retried_row now bounded r else settled_row ''FAILED'' now (Some bounded) r))))"

definition cancel :: "bool \<Rightarrow> boundary \<Rightarrow> exec_db \<Rightarrow> int \<Rightarrow> uuid \<Rightarrow> string \<Rightarrow> string \<Rightarrow> command_error + (command_envelope \<times> exec_db)" where
  "cancel sq bd db now command_id worker_id reason = settle sq bd db command_id (\<lambda>r.
     if cr_status r = ''CANCELLED'' then None
     else Some (raising (require_owned_lease r worker_id now) (settled_row ''CANCELLED'' now (Some (bounded_error reason)) r)))"

section \<open>Recovery\<close>

definition same_request :: "command_envelope \<Rightarrow> command_row \<Rightarrow> bool" where
  "same_request c r = (cr_id r = ce_id c \<and> cr_run_id r = ce_run_id c \<and> cr_command_type r = ce_command_type c \<and>
     cr_idempotency_key r = ce_idempotency_key c \<and> cr_expected_run_version r = ce_expected_run_version c \<and>
     cr_actor_id r = ce_actor_id c \<and> cr_payload_schema_version r = ce_payload_schema_version c \<and>
     jsonb_eq (cr_payload r) (PDict (thaw_dict (ce_payload c))))"

text \<open>A conditional update of at most one row, which returns the updated command when there was one.\<close>

definition update_where :: "bool \<Rightarrow> exec_db \<Rightarrow> (command_row \<Rightarrow> bool) \<Rightarrow> (command_row \<Rightarrow> command_row) \<Rightarrow>
    command_error + (command_envelope option \<times> exec_db)" where
  "update_where sq db condition change = (case find condition (xd_commands db) of
     None \<Rightarrow> Inr (None, db)
   | Some r \<Rightarrow> ebind (flush_command sq db (change r)) (\<lambda>(c, db'). Inr (Some c, db')))"

definition settle_expired_observed_lease :: "bool \<Rightarrow> boundary \<Rightarrow> exec_db \<Rightarrow> int \<Rightarrow> command_envelope \<Rightarrow> string \<Rightarrow> string option \<Rightarrow>
    command_error + (command_envelope option \<times> exec_db)" where
  "settle_expired_observed_lease sq bd db db_now c status reason =
     checked (seq_raise [need_session bd ''recovery settlement requires an active unit of work'',
       when_raise (ce_status c \<noteq> Cmd_LEASED \<or> ce_lease_owner c = None \<or> ce_lease_expires_at c = None)
         (CommandLeaseError ''recovery settlement requires an observed leased command'')])
       (update_where sq db (\<lambda>r. same_request c r \<and> cr_status r = ''LEASED'' \<and> cr_lease_owner r = ce_lease_owner c \<and>
            cr_attempt_count r = ce_attempt c \<and> map_option Aware (cr_lease_expires_at r) = ce_lease_expires_at c \<and>
            expired db_now r \<and> \<not> is_control r)
          (settled_row status db_now (map_option bounded_error reason)))"

definition cancel_expired_observed_lease :: "bool \<Rightarrow> boundary \<Rightarrow> exec_db \<Rightarrow> int \<Rightarrow> command_envelope \<Rightarrow> string \<Rightarrow>
    command_error + (command_envelope option \<times> exec_db)" where
  "cancel_expired_observed_lease sq bd db db_now c reason = settle_expired_observed_lease sq bd db db_now c ''CANCELLED'' (Some reason)"

definition complete_expired_observed_lease :: "bool \<Rightarrow> boundary \<Rightarrow> exec_db \<Rightarrow> int \<Rightarrow> command_envelope \<Rightarrow>
    command_error + (command_envelope option \<times> exec_db)" where
  "complete_expired_observed_lease sq bd db db_now c = settle_expired_observed_lease sq bd db db_now c ''COMPLETED'' None"

definition deferred_row :: "int \<Rightarrow> command_row \<Rightarrow> command_row" where
  "deferred_row db_now r = r\<lparr> cr_status := ''CANCELLED'', cr_completed_at := Some db_now,
     cr_error_summary := Some ''delivery deferred before admission during pause reconciliation'' \<rparr>"

definition cancel_pending_unstarted :: "bool \<Rightarrow> boundary \<Rightarrow> exec_db \<Rightarrow> int \<Rightarrow> command_envelope \<Rightarrow>
    command_error + (command_envelope option \<times> exec_db)" where
  "cancel_pending_unstarted sq bd db db_now c =
     checked (seq_raise [need_session bd ''deferred settlement requires an active unit of work'',
       when_raise (ce_status c \<noteq> Cmd_PENDING \<or> ce_attempt c \<noteq> 0 \<or> ce_lease_owner c \<noteq> None \<or> ce_lease_expires_at c \<noteq> None)
         (CommandLeaseError ''deferred settlement requires an unstarted pending command'')])
       (update_where sq db (\<lambda>r. same_request c r \<and> cr_status r = ''PENDING'' \<and> cr_attempt_count r = 0 \<and>
            cr_lease_owner r = None \<and> cr_lease_expires_at r = None \<and> \<not> is_control r)
          (deferred_row db_now))"

section \<open>Queries\<close>

definition get_command :: "bool \<Rightarrow> exec_db \<Rightarrow> uuid \<Rightarrow> command_error + command_envelope" where
  "get_command sq db command_id = ebind (locked_command db command_id) (command_from_record sq)"

definition get_by_idempotency_key :: "bool \<Rightarrow> exec_db \<Rightarrow> string \<Rightarrow> command_error + command_envelope option" where
  "get_by_idempotency_key sq db key = (case row_at cr_idempotency_key key (xd_commands db) of
     None \<Rightarrow> Inr None | Some r \<Rightarrow> ebind (command_from_record sq r) (\<lambda>c. Inr (Some c)))"

definition select_commands :: "bool \<Rightarrow> exec_db \<Rightarrow> (command_row \<Rightarrow> bool) \<Rightarrow> command_error + command_envelope list" where
  "select_commands sq db condition =
     emap (command_from_record sq) (sort_key (\<lambda>r. (cr_created_at r, cr_id r)) (filter condition (xd_commands db)))"

definition list_expired_terminal_commands :: "bool \<Rightarrow> boundary \<Rightarrow> exec_db \<Rightarrow> int \<Rightarrow> command_error + command_envelope list" where
  "list_expired_terminal_commands sq bd db db_now = checked (need_factory bd) (select_commands sq db (\<lambda>r.
     (case st_runs (xd_store db) (cr_run_id r) of None \<Rightarrow> False | Some run \<Rightarrow> rw_state run \<in> {''COMPLETED'', ''CANCELLED'', ''FAILED''}) \<and>
     cr_status r = ''LEASED'' \<and> expired db_now r))"

definition list_outstanding_normal :: "bool \<Rightarrow> boundary \<Rightarrow> exec_db \<Rightarrow> uuid \<Rightarrow> uuid \<Rightarrow> command_error + command_envelope list" where
  "list_outstanding_normal sq bd db run_id exclude =
     checked (need_session bd ''outstanding command inspection requires an active unit of work'') (select_commands sq db (\<lambda>r.
       cr_run_id r = run_id \<and> cr_id r \<noteq> exclude \<and> \<not> is_control r \<and> cr_status r \<in> {''PENDING'', ''LEASED''}))"

definition list_failed_normal :: "bool \<Rightarrow> boundary \<Rightarrow> exec_db \<Rightarrow> uuid \<Rightarrow> uuid \<Rightarrow> command_error + command_envelope list" where
  "list_failed_normal sq bd db run_id exclude =
     checked (need_session bd ''failed command inspection requires an active unit of work'') (select_commands sq db (\<lambda>r.
       cr_run_id r = run_id \<and> cr_id r \<noteq> exclude \<and> \<not> is_control r \<and> cr_status r = ''FAILED''))"

definition has_pending_current_control_stop :: "boundary \<Rightarrow> exec_db \<Rightarrow> uuid \<Rightarrow> int \<Rightarrow> command_error + bool" where
  "has_pending_current_control_stop bd db run_id expected_run_version =
     checked (need_session bd ''control-stop fence requires an active unit of work'') (Inr (\<exists>r \<in> set (xd_commands db).
       cr_run_id r = run_id \<and> cr_expected_run_version r = expected_run_version \<and> is_control r \<and>
       cr_status r \<in> {''PENDING'', ''LEASED''} \<and> cr_payload_schema_version r = 1 \<and> jsonb_eq (cr_payload r) (PDict []) \<and>
       cr_actor_id r \<noteq> None))"

section \<open>The queue as a labelled step relation\<close>

text \<open>The label is the worker that calls, if one does, and the clock that decides about leases: its own
  for a worker, that of the database for recovery.\<close>

inductive command_step :: "bool \<Rightarrow> (rat \<Rightarrow> string) \<Rightarrow> lease_label \<Rightarrow> exec_db \<Rightarrow> exec_db \<Rightarrow> bool" for sq frepr where
  step_enqueue: "enqueue sq frepr db now db_now new_id q = Inr (c, db') \<Longrightarrow> command_step sq frepr (None, now) db db'"
| step_claim: "claim_next sq bd db now w secs lane locked = Some (Inr (x, db')) \<Longrightarrow> command_step sq frepr (Some w, now) db db'"
| step_renew: "renew sq bd db now i w secs = Inr (c, db') \<Longrightarrow> command_step sq frepr (Some w, now) db db'"
| step_complete: "complete sq bd db now i w = Inr (c, db') \<Longrightarrow> command_step sq frepr (Some w, now) db db'"
| step_fail: "fail sq bd db now i w error transient = Inr (c, db') \<Longrightarrow> command_step sq frepr (Some w, now) db db'"
| step_cancel: "cancel sq bd db now i w reason = Inr (c, db') \<Longrightarrow> command_step sq frepr (Some w, now) db db'"
| step_cancel_expired: "cancel_expired_observed_lease sq bd db now d reason = Inr (x, db') \<Longrightarrow> command_step sq frepr (None, now) db db'"
| step_complete_expired: "complete_expired_observed_lease sq bd db now d = Inr (x, db') \<Longrightarrow> command_step sq frepr (None, now) db db'"
| step_cancel_unstarted: "cancel_pending_unstarted sq bd db now d = Inr (x, db') \<Longrightarrow> command_step sq frepr (None, now) db db'"

text \<open>What the operations do to one row.\<close>

definition unblocked :: "command_lane \<Rightarrow> int \<Rightarrow> exec_db \<Rightarrow> command_row \<Rightarrow> bool" where
  "unblocked lane now db r = (\<exists>run. st_runs (xd_store db) (cr_run_id r) = Some run \<and> \<not> claim_skips lane now db (rw_state run) r)"

inductive command_change :: "exec_db \<Rightarrow> lease_label \<Rightarrow> command_row \<Rightarrow> command_row \<Rightarrow> bool" where
  claimed: "eligible lane now r \<Longrightarrow> unblocked lane now db r \<Longrightarrow> xd_barrier db = Some False \<Longrightarrow> now < e \<Longrightarrow>
     command_change db (Some w, now) r (leased_row w e r)"
| renewed: "owns_lease r w now \<Longrightarrow> now < e \<Longrightarrow> command_change db (Some w, now) r (r\<lparr> cr_lease_expires_at := Some e \<rparr>)"
| settled: "owns_lease r w now \<Longrightarrow> status \<in> {''COMPLETED'', ''FAILED'', ''CANCELLED''} \<Longrightarrow>
     command_change db (Some w, now) r (settled_row status now error r)"
| retried: "owns_lease r w now \<Longrightarrow> command_change db (Some w, now) r (retried_row now error r)"
| recovered: "cr_status r = ''LEASED'' \<Longrightarrow> expired now r \<Longrightarrow> status \<in> {''COMPLETED'', ''CANCELLED''} \<Longrightarrow>
     command_change db (None, now) r (settled_row status now error r)"
| deferred: "cr_status r = ''PENDING'' \<Longrightarrow> cr_lease_owner r = None \<Longrightarrow> command_change db (None, now) r (deferred_row now r)"

lemma checked_Inr [simp]: "checked g m = Inr x \<longleftrightarrow> g = None \<and> m = Inr x"
  by (cases g) (simp_all add: checked_def)

lemma round_half_even_bounds: "of_int (round_half_even q) \<le> q + 1 / 2 \<and> q - 1 / 2 \<le> of_int (round_half_even q)"
  unfolding round_half_even_def Let_def by (auto simp: field_simps) linarith+

lemma lease_positive: "validate_lease_seconds v = None \<Longrightarrow> 0 < seconds_us v"
proof (cases v)
  case (PFloat f)
  assume "validate_lease_seconds v = None"
  with PFloat obtain q where q: "f = Finite q" "1 \<le> q"
    by (cases f) (auto simp: validate_lease_seconds_def not_less)
  then have "1000000 \<le> q * 1000000" by simp
  then have "(0::rat) < of_int (round_half_even (q * 1000000))" using round_half_even_bounds [of "q * 1000000"] by linarith
  then show ?thesis using PFloat q by (simp add: seconds_us_def)
qed (auto simp: validate_lease_seconds_def seconds_us_def)

lemma command_decoded: "command_from_record sq r = Inr c \<Longrightarrow> ce_id c = cr_id r \<and> ce_attempt c = cr_attempt_count r \<and>
    ce_lease_owner c = cr_lease_owner r"
  by (auto simp: command_from_record_def row_envelope_def command_envelope_make_def split: option.splits pyval.splits sum.splits)

lemma flush_command_Inr: "flush_command sq db r = Inr (c, db') \<longleftrightarrow> command_row_ok r \<and> command_from_record sq r = Inr c \<and>
    db' = db\<lparr> xd_commands := put_row cr_id r (xd_commands db) \<rparr>"
  by (auto simp: flush_command_def ebind_Inr)

text \<open>A settlement that changes a row.\<close>

definition writes :: "bool \<Rightarrow> exec_db \<Rightarrow> lease_label \<Rightarrow> exec_db \<Rightarrow> bool" where
  "writes sq db l db' \<longleftrightarrow> (\<exists>r r' c. r \<in> set (xd_commands db) \<and> row_at cr_id (cr_id r) (xd_commands db) = Some r \<and> cr_id r' = cr_id r \<and>
     command_change db l r r' \<and> command_row_ok r' \<and> command_from_record sq r' = Inr c \<and>
     db' = db\<lparr> xd_commands := put_row cr_id r' (xd_commands db) \<rparr>)"

lemma settle_writes:
  assumes "settle sq bd db i change = Inr (c, db')"
    and "\<And>r r'. change r = Some (Inr r') \<Longrightarrow> command_change db l r r' \<and> cr_id r' = cr_id r"
  shows "db' = db \<or> writes sq db l db'"
proof -
  from assms(1) obtain r where r: "row_at cr_id i (xd_commands db) = Some r"
    and m: "(case change r of None \<Rightarrow> ebind (command_from_record sq r) (\<lambda>c. Inr (c, db)) | Some m \<Rightarrow> ebind m (flush_command sq db)) = Inr (c, db')"
    by (auto simp: settle_def ebind_Inr locked_command_def split: option.splits)
  note ri = row_at_Some [OF r]
  show ?thesis
  proof (cases "change r")
    case None
    with m show ?thesis by (auto simp: ebind_Inr)
  next
    case (Some x)
    with m obtain r' where "x = Inr r'" and f: "flush_command sq db r' = Inr (c, db')" by (auto simp: ebind_Inr)
    with Some assms(2) have ch: "command_change db l r r'" "cr_id r' = cr_id r" by auto
    have "row_at cr_id (cr_id r) (xd_commands db) = Some r" using r ri by simp
    then have "writes sq db l db'" unfolding writes_def using ri ch f [unfolded flush_command_Inr]
      by (intro exI [of _ r] exI [of _ r'] exI [of _ c]) simp
    then show ?thesis ..
  qed
qed

lemma update_where_writes:
  assumes "update_where sq db condition change = Inr (x, db')" and "distinct (map cr_id (xd_commands db))"
    and "\<And>r. condition r \<Longrightarrow> command_change db l r (change r) \<and> cr_id (change r) = cr_id r"
  shows "db' = db \<or> writes sq db l db'"
proof (cases "find condition (xd_commands db)")
  case None
  then show ?thesis using assms(1) by (simp add: update_where_def)
next
  case (Some r)
  then have r: "r \<in> set (xd_commands db)" "condition r" by (auto simp: find_Some_iff)
  from Some assms(1) obtain c where "flush_command sq db (change r) = Inr (c, db')"
    by (auto simp: update_where_def ebind_Inr)
  then have "writes sq db l db'" unfolding writes_def using r assms(3) [OF r(2)] row_at_in [OF assms(2) r(1)]
    by (intro exI [of _ r] exI [of _ "change r"] exI [of _ c]) (simp add: flush_command_Inr)
  then show ?thesis ..
qed

lemma require_owned_lease_None [simp]: "require_owned_lease r w now = None \<longleftrightarrow> owns_lease r w now"
  by (simp add: require_owned_lease_def)

text \<open>The loop visits the candidates in claim order: it stops at the first one that is not skipped.\<close>

definition claim_first :: "command_lane \<Rightarrow> int \<Rightarrow> exec_db \<Rightarrow> command_row list \<Rightarrow> command_error + command_row option" where
  "claim_first lane now db rows =
     (case dropWhile (\<lambda>r. \<exists>run. st_runs (xd_store db) (cr_run_id r) = Some run \<and> claim_skips lane now db (rw_state run) r) rows of
        [] \<Rightarrow> Inr None
      | r # _ \<Rightarrow> if st_runs (xd_store db) (cr_run_id r) = None
          then Inl (Command_data (''command '' @ uuid_str (cr_id r) @ '' references a missing run'')) else Inr (Some r))"

lemma candidates_skip: "candidates lane now locked db (i # skipped) = filter (\<lambda>r. cr_id r \<noteq> i) (candidates lane now locked db skipped)"
  unfolding candidates_def filter_sort filter_filter by (rule arg_cong [where f = "sort_key claim_order"], rule filter_cong) auto

lemma set_candidates: "r \<in> set (candidates lane now locked db skipped) \<longleftrightarrow>
    r \<in> set (xd_commands db) \<and> eligible lane now r \<and> cr_id r \<notin> set skipped \<and> cr_id r \<notin> set locked"
  by (auto simp: candidates_def)

lemma distinct_candidates: "distinct (map cr_id (xd_commands db)) \<Longrightarrow> distinct (map cr_id (candidates lane now locked db skipped))"
  by (auto simp: candidates_def distinct_map distinct_sort intro: inj_on_subset)

lemma claim_loop_exact:
  assumes "distinct (map cr_id (xd_commands db))"
  shows "claim_loop lane now locked db skipped = Some (claim_first lane now db (candidates lane now locked db skipped))"
proof (induction "candidates lane now locked db skipped" arbitrary: skipped)
  case Nil
  then show ?case by (simp add: claim_loop.simps claim_first_def flip: Nil)
next
  case (Cons r rows)
  have "distinct (map cr_id (r # rows))" unfolding Cons(2) by (rule distinct_candidates [OF assms])
  then have "\<forall>x \<in> set rows. cr_id x \<noteq> cr_id r" by (simp add: image_iff) metis
  then have "candidates lane now locked db (cr_id r # skipped) = rows"
    unfolding candidates_skip Cons(2) [symmetric] by (simp add: filter_id_conv)
  with Cons(1) have "claim_loop lane now locked db (cr_id r # skipped) = Some (claim_first lane now db rows)" by metis
  then show ?case
    by (subst claim_loop.simps) (auto simp: claim_first_def simp flip: Cons(2) split: option.splits)
qed

lemma claim_loop_found:
  assumes "distinct (map cr_id (xd_commands db))" and "claim_loop lane now locked db skipped = Some (Inr (Some r))"
  shows "r \<in> set (xd_commands db) \<and> eligible lane now r \<and> unblocked lane now db r"
proof -
  let ?p = "\<lambda>r. \<exists>run. st_runs (xd_store db) (cr_run_id r) = Some run \<and> claim_skips lane now db (rw_state run) r"
  from assms obtain rs where rs: "dropWhile ?p (candidates lane now locked db skipped) = r # rs" "st_runs (xd_store db) (cr_run_id r) \<noteq> None"
    by (auto simp: claim_loop_exact claim_first_def split: list.splits if_splits)
  have "r \<in> set (dropWhile ?p (candidates lane now locked db skipped))" unfolding rs(1) by simp
  then have "r \<in> set (candidates lane now locked db skipped)" by (rule set_dropWhileD)
  moreover have "\<not> ?p r" using rs(1) unfolding dropWhile_eq_Cons_conv by blast
  ultimately show ?thesis using rs(2) by (auto simp: set_candidates unblocked_def)
qed

text \<open>Enqueueing either inserts a fresh pending row or finds the row of its key.\<close>

definition inserts :: "bool \<Rightarrow> exec_db \<Rightarrow> exec_db \<Rightarrow> bool" where
  "inserts sq db db' \<longleftrightarrow> (\<exists>r c. cr_id r \<notin> set (map cr_id (xd_commands db)) \<and>
     cr_idempotency_key r \<notin> set (map cr_idempotency_key (xd_commands db)) \<and> st_runs (xd_store db) (cr_run_id r) \<noteq> None \<and>
     command_row_ok r \<and> cr_status r = ''PENDING'' \<and> command_from_record sq r = Inr c \<and> db' = db\<lparr> xd_commands := xd_commands db @ [r] \<rparr>)"

lemma enqueue_core_effect:
  assumes "enqueue_core sq frepr db db_now candidate b = Inr (c, db')"
  shows "db' = db \<or> inserts sq db db'"
proof (cases "row_at cr_idempotency_key (ce_idempotency_key candidate) (xd_commands db)")
  case None
  let ?r = "inserted_command db_now candidate"
  from None assms have ok: "cr_id ?r \<notin> set (map cr_id (xd_commands db))" "st_runs (xd_store db) (cr_run_id ?r) \<noteq> None"
      "command_row_ok ?r" "command_from_record sq ?r = Inr c" "db' = db\<lparr> xd_commands := xd_commands db @ [?r] \<rparr>"
    by (auto simp: enqueue_core_def Let_def ebind_Inr split: if_splits)
  moreover have "cr_status ?r = ''PENDING''" "cr_idempotency_key ?r \<notin> set (map cr_idempotency_key (xd_commands db))"
    using None by (auto simp: inserted_command_def row_at_None)
  ultimately show ?thesis unfolding inserts_def by blast
next
  case (Some x)
  then show ?thesis using assms by (auto simp: enqueue_core_def Let_def ebind_Inr)
qed

lemma claim_next_effect:
  assumes "claim_next sq bd db now w secs lane locked = Some (Inr (x, db'))" and "distinct (map cr_id (xd_commands db))"
  shows "db' = db \<or> writes sq db (Some w, now) db'"
proof -
  from assms(1) have g: "validate_worker_and_lease w secs = None"
    by (auto simp: claim_next_def seq_raise_pair split: option.splits)
  then have pos: "now < now + seconds_us secs" using lease_positive by (auto simp: validate_worker_and_lease_def)
  from assms(1) consider "db' = db" | r c where "xd_barrier db = Some False" "claim_loop lane now locked db [] = Some (Inr (Some r))"
      "flush_command sq db (leased_row w (now + seconds_us secs) r) = Inr (c, db')"
    by (auto simp: claim_next_def ebind_Inr split: option.splits bool.splits)
  then show ?thesis
  proof cases
    case (2 r c)
    note f = claim_loop_found [OF assms(2) 2(2)]
    from f 2(1) pos have "command_change db (Some w, now) r (leased_row w (now + seconds_us secs) r)" by (blast intro: claimed)
    moreover have "cr_id (leased_row w (now + seconds_us secs) r) = cr_id r" by (simp add: leased_row_def)
    ultimately have "writes sq db (Some w, now) db'" unfolding writes_def
      using f 2(3) [unfolded flush_command_Inr] row_at_in [OF assms(2)] by blast
    then show ?thesis ..
  qed simp
qed

lemma changed_rows_keep [simp]:
  "cr_id (leased_row w e r) = cr_id r" "cr_id (settled_row status time error r) = cr_id r" "cr_id (retried_row now bounded r) = cr_id r"
  "cr_id (deferred_row now r) = cr_id r"
  by (simp_all add: leased_row_def settled_row_def retried_row_def deferred_row_def)

lemma settlement_effects:
  shows "renew sq bd db now i w secs = Inr (c, db') \<Longrightarrow> db' = db \<or> writes sq db (Some w, now) db'"
    and "complete sq bd db now i w = Inr (c, db') \<Longrightarrow> db' = db \<or> writes sq db (Some w, now) db'"
    and "fail sq bd db now i w error transient = Inr (c, db') \<Longrightarrow> db' = db \<or> writes sq db (Some w, now) db'"
    and "cancel sq bd db now i w reason = Inr (c, db') \<Longrightarrow> db' = db \<or> writes sq db (Some w, now) db'"
proof -
  show "db' = db \<or> writes sq db (Some w, now) db'" if "renew sq bd db now i w secs = Inr (c, db')"
  proof -
    from that have g: "validate_worker_and_lease w secs = None"
      and m: "settle sq bd db i (\<lambda>r. Some (raising (require_owned_lease r w now) (r\<lparr> cr_lease_expires_at := Some (now + seconds_us secs) \<rparr>))) = Inr (c, db')"
      by (auto simp: renew_def)
    from g have "now < now + seconds_us secs" using lease_positive by (auto simp: validate_worker_and_lease_def)
    then show ?thesis by (intro settle_writes [OF m]) (auto intro: renewed)
  qed
  show "db' = db \<or> writes sq db (Some w, now) db'" if "complete sq bd db now i w = Inr (c, db')"
    using that unfolding complete_def
    by (rule settle_writes) (auto intro: settled split: if_splits)
  show "db' = db \<or> writes sq db (Some w, now) db'" if "fail sq bd db now i w error transient = Inr (c, db')"
    using that unfolding fail_def Let_def
    by (rule settle_writes) (auto intro: settled retried split: if_splits)
  show "db' = db \<or> writes sq db (Some w, now) db'" if "cancel sq bd db now i w reason = Inr (c, db')"
    using that unfolding cancel_def
    by (rule settle_writes) (auto intro: settled split: if_splits)
qed

lemma recovery_effects:
  assumes d: "distinct (map cr_id (xd_commands db))"
  shows "settle_expired_observed_lease sq bd db now c status reason = Inr (x, db') \<Longrightarrow> status \<in> {''COMPLETED'', ''CANCELLED''} \<Longrightarrow>
      db' = db \<or> writes sq db (None, now) db'"
    and "cancel_pending_unstarted sq bd db now c = Inr (x, db') \<Longrightarrow> db' = db \<or> writes sq db (None, now) db'"
proof -
  show "db' = db \<or> writes sq db (None, now) db'" if "settle_expired_observed_lease sq bd db now c status reason = Inr (x, db')"
    and "status \<in> {''COMPLETED'', ''CANCELLED''}"
    using that(1) unfolding settle_expired_observed_lease_def checked_Inr
    by (rule update_where_writes [OF conjunct2 d]) (use that(2) in \<open>auto intro: recovered\<close>)
  show "db' = db \<or> writes sq db (None, now) db'" if "cancel_pending_unstarted sq bd db now c = Inr (x, db')"
    using that unfolding cancel_pending_unstarted_def checked_Inr
    by (rule update_where_writes [OF conjunct2 d]) (auto intro: deferred)
qed

lemma enqueue_effect: "enqueue sq frepr db now db_now new_id q = Inr (c, db') \<Longrightarrow> db' = db \<or> inserts sq db db'"
  by (auto simp: enqueue_def split: sum.splits dest: enqueue_core_effect)

lemma command_step_effect:
  assumes "command_step sq frepr l db db'" and "distinct (map cr_id (xd_commands db))"
  shows "db' = db \<or> writes sq db l db' \<or> inserts sq db db'"
  using assms(1)
proof cases
  case (step_cancel_expired bd now d reason x)
  then show ?thesis using recovery_effects(1) [OF assms(2)] by (simp add: cancel_expired_observed_lease_def) blast
next
  case (step_complete_expired bd now d x)
  then show ?thesis using recovery_effects(1) [OF assms(2)] by (simp add: complete_expired_observed_lease_def) blast
next
  case step_claim
  then show ?thesis using claim_next_effect assms(2) by blast
qed (auto dest: enqueue_effect settlement_effects recovery_effects(2) [OF assms(2)])

section \<open>The invariant of the queue\<close>

definition command_inv :: "bool \<Rightarrow> exec_db \<Rightarrow> bool" where
  "command_inv sq db \<longleftrightarrow> distinct (map cr_id (xd_commands db)) \<and> distinct (map cr_idempotency_key (xd_commands db)) \<and>
     (\<forall>r \<in> set (xd_commands db). command_row_ok r \<and> (\<exists>c. command_from_record sq r = Inr c) \<and> st_runs (xd_store db) (cr_run_id r) \<noteq> None)"

lemma command_change_keeps: "command_change db l r r' \<Longrightarrow> cr_id r' = cr_id r \<and> cr_idempotency_key r' = cr_idempotency_key r \<and>
    cr_run_id r' = cr_run_id r \<and> cr_command_type r' = cr_command_type r \<and> cr_expected_run_version r' = cr_expected_run_version r \<and>
    cr_actor_id r' = cr_actor_id r \<and> cr_payload_schema_version r' = cr_payload_schema_version r \<and> cr_payload r' = cr_payload r"
  by (induction rule: command_change.induct) (auto simp: leased_row_def settled_row_def retried_row_def deferred_row_def)

lemma command_inv_step:
  assumes "command_step sq frepr l db db'" and inv: "command_inv sq db"
  shows "command_inv sq db'"
proof -
  have d: "distinct (map cr_id (xd_commands db))" using inv by (simp add: command_inv_def)
  from command_step_effect [OF assms(1) d] consider "db' = db" | "writes sq db l db'" | "inserts sq db db'" by blast
  then show ?thesis
  proof cases
    case 2
    then obtain r r' c where w: "r \<in> set (xd_commands db)" "cr_id r' = cr_id r" "command_change db l r r'" "command_row_ok r'"
        "command_from_record sq r' = Inr c" "db' = db\<lparr> xd_commands := put_row cr_id r' (xd_commands db) \<rparr>"
      by (auto simp: writes_def)
    note k = command_change_keeps [OF w(3)]
    have same: "x = r" if "x \<in> set (xd_commands db)" "cr_id x = cr_id r'" for x
      using d that w(1,2) by (auto simp: distinct_map inj_on_def)
    have "map cr_id (put_row cr_id r' (xd_commands db)) = map cr_id (xd_commands db)"
      by (rule map_put_row) simp
    moreover have "map cr_idempotency_key (put_row cr_id r' (xd_commands db)) = map cr_idempotency_key (xd_commands db)"
      by (rule map_put_row) (use same k in auto)
    ultimately show ?thesis using inv w k by (auto simp: command_inv_def dest!: in_put_row)
  next
    case 3
    then show ?thesis using inv by (auto simp: inserts_def command_inv_def)
  qed (simp add: inv)
qed

section \<open>Leases\<close>

definition command_holder :: "command_row \<Rightarrow> (string \<times> int) option" where
  "command_holder r = (if cr_status r = ''LEASED'' then
     (case (cr_lease_owner r, cr_lease_expires_at r) of (Some w, Some e) \<Rightarrow> Some (w, e) | _ \<Rightarrow> None) else None)"

definition command_at :: "exec_db \<Rightarrow> uuid \<Rightarrow> command_row option" where
  "command_at db i = row_at cr_id i (xd_commands db)"

definition queue_step :: "bool \<Rightarrow> (rat \<Rightarrow> string) \<Rightarrow> lease_label \<Rightarrow> exec_db \<Rightarrow> exec_db \<Rightarrow> bool" where
  "queue_step sq frepr l db db' \<longleftrightarrow> command_inv sq db \<and> command_step sq frepr l db db'"

lemma queue_step_row:
  assumes "queue_step sq frepr l db db'" and "command_at db i = Some r"
  shows "command_at db' i = Some r \<or> (\<exists>r'. command_at db' i = Some r' \<and> command_change db l r r')"
proof -
  have d: "distinct (map cr_id (xd_commands db))" and st: "command_step sq frepr l db db'"
    using assms(1) by (auto simp: queue_step_def command_inv_def)
  from command_step_effect [OF st d] consider "db' = db" | "writes sq db l db'" | "inserts sq db db'" by blast
  then show ?thesis
  proof cases
    case 2
    then obtain q q' where q: "command_at db (cr_id q) = Some q" "cr_id q' = cr_id q" "command_change db l q q'"
        "db' = db\<lparr> xd_commands := put_row cr_id q' (xd_commands db) \<rparr>"
      by (auto simp: writes_def command_at_def)
    have "command_at db' i = (if i = cr_id q \<and> i \<in> cr_id ` set (xd_commands db) then Some q' else command_at db i)"
      using q(2,4) by (auto simp: command_at_def row_at_put)
    then show ?thesis using assms(2) q(1,3) by (auto split: if_splits)
  next
    case 3
    then show ?thesis using assms(2) by (auto simp: inserts_def command_at_def row_at_append)
  qed (simp add: assms(2))
qed

interpretation command_leases: leased_rows command_at command_holder "queue_step sq frepr" for sq frepr
proof
  fix a now s t k r w e
  assume st: "queue_step sq frepr (a, now) s t" and r: "command_at s k = Some r" and h: "command_holder r = Some (w, e)" "now < e" and a: "a \<noteq> Some w"
  from h have l: "cr_status r = ''LEASED''" "cr_lease_owner r = Some w" "cr_lease_expires_at r = Some e"
    by (auto simp: command_holder_def split: if_splits option.splits)
  have "\<not> command_change s (a, now) r r'" for r'
    using l h(2) a by (auto elim!: command_change.cases simp: eligible_def expired_def owns_lease_def)
  with queue_step_row [OF st r] show "command_at t k = Some r" by blast
qed

lemma change_attempt: "command_change db l r r' \<Longrightarrow> cr_attempt_count r < cr_attempt_count r' \<or>
    cr_attempt_count r = cr_attempt_count r' \<and> cr_lease_owner r' \<in> {None, cr_lease_owner r}"
  by (induction rule: command_change.induct) (auto simp: leased_row_def settled_row_def retried_row_def deferred_row_def)

interpretation command_deliveries: delivered_rows command_at cr_lease_owner cr_attempt_count "queue_step sq frepr" for sq frepr
  by unfold_locales (use queue_step_row change_attempt in blast)

section \<open>One live lease per run and lane\<close>

definition run_exclusive :: "int \<Rightarrow> exec_db \<Rightarrow> bool" where
  "run_exclusive now db \<longleftrightarrow> (\<forall>r \<in> set (xd_commands db). \<forall>x \<in> set (xd_commands db).
     cr_run_id x = cr_run_id r \<and> is_control x = is_control r \<and> live_lease now r \<and> live_lease now x \<longrightarrow> cr_id x = cr_id r)"

lemma run_exclusiveD: "run_exclusive now db \<Longrightarrow> r \<in> set (xd_commands db) \<Longrightarrow> x \<in> set (xd_commands db) \<Longrightarrow> cr_run_id x = cr_run_id r \<Longrightarrow>
    is_control x = is_control r \<Longrightarrow> live_lease now r \<Longrightarrow> live_lease now x \<Longrightarrow> cr_id x = cr_id r"
  unfolding run_exclusive_def by blast

text \<open>The queue among the other components, under a clock that does not go back: they change runs, events and
  the other tables, but not commands, and delete no run that has them.\<close>

inductive timed_step :: "bool \<Rightarrow> (rat \<Rightarrow> string) \<Rightarrow> int \<times> exec_db \<Rightarrow> int \<times> exec_db \<Rightarrow> bool" for sq frepr where
  queue: "command_step sq frepr (a, now) db db' \<Longrightarrow> t \<le> now \<Longrightarrow> timed_step sq frepr (t, db) (now, db')"
| environment: "xd_commands db' = xd_commands db \<Longrightarrow> (\<And>i. st_runs (xd_store db) i \<noteq> None \<Longrightarrow> st_runs (xd_store db') i \<noteq> None) \<Longrightarrow>
     t \<le> now \<Longrightarrow> timed_step sq frepr (t, db) (now, db')"

lemma live_lease_earlier: "live_lease now r \<Longrightarrow> t \<le> now \<Longrightarrow> live_lease t r"
  by (auto simp: live_lease_def split: option.splits)

lemma run_exclusive_later: "run_exclusive t db \<Longrightarrow> t \<le> now \<Longrightarrow> run_exclusive now db"
  unfolding run_exclusive_def using live_lease_earlier by blast

lemma unblocked_alone:
  assumes "unblocked lane now db r" and "x \<in> set (xd_commands db)" and "cr_run_id x = cr_run_id r" and "cr_id x \<noteq> cr_id r"
    and "live_lease now x"
  shows "lane = CONTROL \<and> \<not> is_control x"
proof -
  have "x \<in> set (others db r)" using assms(2-4) by (simp add: others_def)
  with assms(1,5) show ?thesis
    by (cases lane) (auto simp: unblocked_def claim_skips_def claim_blocked_def Let_def filter_empty_conv)
qed

lemma change_alone:
  assumes "command_change db (a, now) r r'" and "run_exclusive now db" and "r \<in> set (xd_commands db)"
    and "x \<in> set (xd_commands db)" and "cr_run_id x = cr_run_id r" and "is_control x = is_control r"
    and "live_lease now r'" and "live_lease now x"
  shows "cr_id x = cr_id r"
  using assms(1)
proof cases
  case (claimed lane e w)
  then have "is_control r = (lane = CONTROL)" by (cases lane) (auto simp: eligible_def in_lane_def)
  with unblocked_alone [OF claimed(4) assms(4,5) _ assms(8)] assms(6) show ?thesis by blast
next
  case (renewed w e)
  then have "live_lease now r" by (auto simp: owns_lease_def live_lease_def split: option.splits)
  from run_exclusiveD [OF assms(2-6) this assms(8)] show ?thesis .
qed (use assms(7) in \<open>auto simp: live_lease_def settled_row_def retried_row_def deferred_row_def\<close>)

lemma run_exclusive_step:
  assumes "command_step sq frepr (a, now) db db'" and inv: "command_inv sq db" and ex: "run_exclusive now db"
  shows "run_exclusive now db'"
proof -
  have d: "distinct (map cr_id (xd_commands db))" using inv by (simp add: command_inv_def)
  from command_step_effect [OF assms(1) d] consider "db' = db" | "writes sq db (a, now) db'" | "inserts sq db db'" by blast
  then show ?thesis
  proof cases
    case 2
    then obtain r r' where w: "r \<in> set (xd_commands db)" "command_change db (a, now) r r'"
        "db' = db\<lparr> xd_commands := put_row cr_id r' (xd_commands db) \<rparr>"
      by (auto simp: writes_def)
    note k = command_change_keeps [OF w(2)]
    then have c: "is_control r' = is_control r" by (simp add: is_control_def)
    show ?thesis unfolding run_exclusive_def
    proof (intro ballI impI)
      fix y x
      assume yx: "y \<in> set (xd_commands db')" "x \<in> set (xd_commands db')"
        and same: "cr_run_id x = cr_run_id y \<and> is_control x = is_control y \<and> live_lease now y \<and> live_lease now x"
      then have "y = r' \<or> y \<in> set (xd_commands db)" "x = r' \<or> x \<in> set (xd_commands db)"
        using w(3) in_put_row [of y cr_id r' "xd_commands db"] in_put_row [of x cr_id r' "xd_commands db"] by auto
      with same k c show "cr_id x = cr_id y"
        using change_alone [OF w(2) ex w(1), of x] change_alone [OF w(2) ex w(1), of y] run_exclusiveD [OF ex, of y x] by metis
    qed
  next
    case 3
    then obtain r where "cr_status r = ''PENDING''" and r: "xd_commands db' = xd_commands db @ [r]" by (auto simp: inserts_def)
    then have "\<not> live_lease now r" by (simp add: live_lease_def)
    then show ?thesis unfolding run_exclusive_def r by (auto intro!: run_exclusiveD [OF ex])
  qed (simp add: ex)
qed

lemma command_inv_environment:
  assumes "command_inv sq db" and "xd_commands db' = xd_commands db"
    and "\<And>i. st_runs (xd_store db) i \<noteq> None \<Longrightarrow> st_runs (xd_store db') i \<noteq> None"
  shows "command_inv sq db'"
  using assms(1) assms(3) unfolding command_inv_def assms(2) by blast

interpretation queue: invariant_machine "\<lambda>(t, db). xd_commands db = []" "timed_step sq frepr"
  "\<lambda>(t, db). command_inv sq db \<and> run_exclusive t db" for sq frepr
proof
  show "case s of (t, db) \<Rightarrow> command_inv sq db \<and> run_exclusive t db" if "case s of (t, db) \<Rightarrow> xd_commands db = []" for s
    using that by (auto simp: command_inv_def run_exclusive_def)
  show "case s' of (t, db) \<Rightarrow> command_inv sq db \<and> run_exclusive t db"
    if "timed_step sq frepr s s'" and "case s of (t, db) \<Rightarrow> command_inv sq db \<and> run_exclusive t db" for s s'
    using that
  proof (induction rule: timed_step.induct)
    case (queue a now db db' t)
    then have "command_inv sq db" "run_exclusive now db" by (auto intro: run_exclusive_later)
    then show ?case using command_inv_step [OF queue.hyps(1)] run_exclusive_step [OF queue.hyps(1)] by simp
  next
    case (environment db' db t now)
    then have i: "command_inv sq db" and x: "run_exclusive t db" by simp_all
    have "command_inv sq db'" by (rule command_inv_environment [OF i environment.hyps(1,2)])
    moreover have "run_exclusive now db'"
      using run_exclusive_later [OF x environment.hyps(3)] unfolding run_exclusive_def environment.hyps(1) .
    ultimately show ?case by simp
  qed
qed

text \<open>C4. In every history of the command queue under a clock that does not go back, whatever the other
  components do to their tables: identifiers and idempotency keys stay unique, every stored command
  satisfies the table constraints, decodes and belongs to a run, and a run has at most one live
  normal lease and at most one live control lease.\<close>

theorem command_leases_exclusive:
  assumes "(timed_step sq frepr)\<^sup>*\<^sup>* (t0, db0) (t, db)" and "xd_commands db0 = []"
  shows "distinct (map cr_id (xd_commands db)) \<and> distinct (map cr_idempotency_key (xd_commands db)) \<and>
     (\<forall>r \<in> set (xd_commands db). command_row_ok r \<and> (\<exists>c. command_from_record sq r = Inr c) \<and> st_runs (xd_store db) (cr_run_id r) \<noteq> None) \<and>
     (\<forall>r \<in> set (xd_commands db). \<forall>x \<in> set (xd_commands db). cr_run_id x = cr_run_id r \<and> is_control x = is_control r \<and>
        live_lease t r \<and> live_lease t x \<longrightarrow> x = r)"
proof -
  from queue.run_inv_from_init [of "(t0, db0)" sq frepr "(t, db)"] assms have inv: "command_inv sq db" and ex: "run_exclusive t db" by auto
  have "inj_on cr_id (set (xd_commands db))" using inv by (simp add: command_inv_def distinct_map)
  then have "x = r" if "r \<in> set (xd_commands db)" "x \<in> set (xd_commands db)" "cr_id x = cr_id r" for r x
    using that by (auto dest: inj_onD)
  with run_exclusiveD [OF ex] inv show ?thesis unfolding command_inv_def by blast
qed

text \<open>C15. The claim loop always returns: on a consistent queue it returns the first candidate, in the
  order of availability, creation and identifier, that nothing holds back, or nothing when all are
  held back, and it never meets a missing run.\<close>

definition claim_choice :: "command_lane \<Rightarrow> int \<Rightarrow> uuid list \<Rightarrow> exec_db \<Rightarrow> command_row option" where
  "claim_choice lane now locked db = find (\<lambda>r. case st_runs (xd_store db) (cr_run_id r) of None \<Rightarrow> False
     | Some run \<Rightarrow> \<not> claim_skips lane now db (rw_state run) r) (candidates lane now locked db [])"

lemma claim_first_find:
  assumes "\<forall>r \<in> set rows. st_runs (xd_store db) (cr_run_id r) \<noteq> None"
  shows "claim_first lane now db rows = Inr (find (\<lambda>r. case st_runs (xd_store db) (cr_run_id r) of None \<Rightarrow> False
     | Some run \<Rightarrow> \<not> claim_skips lane now db (rw_state run) r) rows)"
  using assms by (induction rows) (auto simp: claim_first_def)

lemma claim_loop_choice:
  assumes "command_inv sq db"
  shows "claim_loop lane now locked db [] = Some (Inr (claim_choice lane now locked db))"
proof -
  have "\<forall>r \<in> set (candidates lane now locked db []). st_runs (xd_store db) (cr_run_id r) \<noteq> None"
    using assms by (auto simp: set_candidates command_inv_def)
  then show ?thesis using assms by (simp add: claim_loop_exact claim_first_find claim_choice_def command_inv_def)
qed

theorem claim_loop_returns:
  assumes "command_inv sq db"
  shows "(\<exists>m. claim_next sq bd db now w secs lane locked = Some m) \<and>
     claim_loop lane now locked db [] = Some (Inr (claim_choice lane now locked db)) \<and>
     (\<forall>c db'. claim_next sq bd db now w secs lane locked = Some (Inr (Some c, db')) \<longrightarrow>
        (\<exists>r. claim_choice lane now locked db = Some r \<and> ce_id c = cr_id r \<and>
           command_at db' (cr_id r) = Some (leased_row w (now + seconds_us secs) r)))"
proof -
  note choice = claim_loop_choice [OF assms, of lane now locked]
  have "\<exists>m. claim_next sq bd db now w secs lane locked = Some m"
    by (auto simp: claim_next_def choice split: option.splits bool.splits)
  moreover have "\<exists>r. claim_choice lane now locked db = Some r \<and> ce_id c = cr_id r \<and>
      command_at db' (cr_id r) = Some (leased_row w (now + seconds_us secs) r)"
    if cl: "claim_next sq bd db now w secs lane locked = Some (Inr (Some c, db'))" for c db'
  proof -
    from cl obtain r where r: "claim_choice lane now locked db = Some r"
        "flush_command sq db (leased_row w (now + seconds_us secs) r) = Inr (c, db')"
      by (auto simp: claim_next_def choice ebind_Inr split: option.splits bool.splits)
    then have "r \<in> set (candidates lane now locked db [])" unfolding claim_choice_def find_Some_iff by auto
    then have "cr_id r \<in> cr_id ` set (xd_commands db)" by (simp add: set_candidates)
    with r show ?thesis
      using command_decoded by (fastforce simp: flush_command_Inr command_at_def row_at_put)
  qed
  ultimately show ?thesis using choice by blast
qed

text \<open>A live lease fences its command: while other workers, enqueuers and recovery act at times before
  its expiry, the row does not change in any column.\<close>

theorem live_lease_fences_command:
  assumes "path (queue_step sq frepr) ls db db'" and "command_at db i = Some r" and "command_holder r = Some (w, e)"
    and "\<forall>(a, now) \<in> set ls. a \<noteq> Some w \<and> now < e"
  shows "command_at db' i = Some r"
  using command_leases.lease_protects assms by blast

text \<open>C22. The delivery fence is sound: when \<open>assert_current_lease\<close> accepts a delivery, the command was leased to
  that delivery at every moment since it was claimed, however many leases were renewed, expired or
  reclaimed in between.\<close>

theorem delivery_fence_sound:
  assumes "path (queue_step sq frepr) ls s u" and "path (queue_step sq frepr) ms u t"
    and "command_at s (ce_id c) = Some r" and "command_from_record sq r = Inr c"
    and "assert_current_lease sq bd t now c wait locked = Inr c'"
  shows "\<exists>q. command_at u (ce_id c) = Some q \<and> cr_attempt_count q = ce_attempt c \<and> cr_lease_owner q = ce_lease_owner c"
proof -
  from assms(5) obtain w r' where w: "ce_lease_owner c = Some w" and r': "command_at t (ce_id c) = Some r'"
      "owns_lease r' w now" "cr_attempt_count r' = ce_attempt c"
    by (auto simp: assert_current_lease_def locked_command_def command_at_def ebind_Inr split: option.splits)
  have "cr_attempt_count r = ce_attempt c" using command_decoded [OF assms(4)] by simp
  with command_deliveries.same_attempt_same_delivery [OF assms(1-3) r'(1), of w] r'(2,3) w show ?thesis
    by (auto simp: owns_lease_def)
qed

section \<open>Replays\<close>

definition same_command :: "(rat \<Rightarrow> string) \<Rightarrow> enqueue_request \<Rightarrow> command_row \<Rightarrow> bool" where
  "same_command frepr q r \<longleftrightarrow> cr_run_id r = eq_run_id q \<and> cr_command_type r = eq_command_type q \<and>
     cr_expected_run_version r = eq_expected_run_version q \<and> cr_actor_id r = eq_actor_id q \<and>
     cr_payload_schema_version r = eq_payload_schema_version q \<and>
     dumps \<lparr> enc_ascii = True, enc_float = frepr \<rparr> (cr_payload r) = dumps \<lparr> enc_ascii = True, enc_float = frepr \<rparr> (PDict (eq_payload q)) \<and>
     (\<forall>t. eq_available_at q = Some t \<longrightarrow> t = Aware (cr_available_at r))"

lemma command_from_record_Inr: "command_from_record sq r = Inr c \<Longrightarrow> \<exists>p. cr_payload r = PDict p \<and> ce_payload c = freeze_dict p \<and>
    ce_run_id c = cr_run_id r \<and> ce_command_type c = cr_command_type r \<and> ce_expected_run_version c = cr_expected_run_version r \<and>
    ce_actor_id c = cr_actor_id r \<and> ce_payload_schema_version c = cr_payload_schema_version r \<and>
    ce_available_at c = Aware (cr_available_at r)"
  by (auto simp: command_from_record_def row_envelope_def command_envelope_make_def split: option.splits pyval.splits sum.splits)

lemma command_canonical_freeze: "command_canonical frepr (freeze_dict p) = dumps \<lparr> enc_ascii = True, enc_float = frepr \<rparr> (PDict p)"
  unfolding command_canonical_def freeze_dict_PDict thaw_freeze by (rule dumps_thaw)

lemma check_enqueue_match_None:
  assumes "command_envelope_make sq (enqueue_candidate new_id now q) = Inr candidate" and "command_from_record sq r = Inr actual"
  shows "check_enqueue_match frepr candidate actual (eq_available_at q \<noteq> None) = None \<longleftrightarrow> same_command frepr q r"
proof -
  from assms(1) have c: "candidate = (enqueue_candidate new_id now q)\<lparr> ce_payload := freeze_dict (eq_payload q) \<rparr>"
    by (auto simp: command_envelope_make_def enqueue_candidate_def)
  from command_from_record_Inr [OF assms(2)] obtain p where p: "cr_payload r = PDict p" "ce_payload actual = freeze_dict p"
    "ce_run_id actual = cr_run_id r" "ce_command_type actual = cr_command_type r" "ce_expected_run_version actual = cr_expected_run_version r"
    "ce_actor_id actual = cr_actor_id r" "ce_payload_schema_version actual = cr_payload_schema_version r"
    "ce_available_at actual = Aware (cr_available_at r)" by blast
  show ?thesis
    by (auto simp: check_enqueue_match_def same_command_def c p command_canonical_freeze enqueue_candidate_def split: option.splits)
qed

text \<open>Enqueueing is idempotent: while the key of a valid request is stored, whatever became of the command,
  enqueueing under a fresh identifier changes nothing, returns the stored command when the request is
  the same up to the order of payload keys (and its availability, when it names one), and raises an
  idempotency conflict otherwise.\<close>

theorem enqueue_replay_exact:
  assumes "command_inv sq db" and "r \<in> set (xd_commands db)" and "cr_idempotency_key r = eq_idempotency_key q"
    and "command_envelope_validate sq (enqueue_candidate new_id now q) = None" and "command_at db new_id = None"
  shows "enqueue sq frepr db now db_now new_id q =
     (if same_command frepr q r then ebind (command_from_record sq r) (\<lambda>c. Inr (c, db))
      else Inl (IdempotencyConflict (''command idempotency key '' @ py_repr (eq_idempotency_key q) @ '' has a different request'')))"
proof -
  obtain candidate where c: "command_envelope_make sq (enqueue_candidate new_id now q) = Inr candidate"
    using assms(4) by (simp add: command_envelope_make_def)
  have k: "ce_id candidate = new_id" "ce_idempotency_key candidate = eq_idempotency_key q"
    using c by (auto simp: command_envelope_make_def enqueue_candidate_def)
  have key: "row_at cr_idempotency_key (eq_idempotency_key q) (xd_commands db) = Some r"
    using row_at_in [of cr_idempotency_key] assms(1-3) by (metis command_inv_def)
  obtain actual where actual: "command_from_record sq r = Inr actual" using assms(1,2) by (auto simp: command_inv_def)
  show ?thesis
    using check_enqueue_match_None [OF c actual, of frepr] key assms(5) k actual
    by (auto simp: enqueue_def c enqueue_core_def command_at_def checked_def check_enqueue_match_def when_raise_def)
qed

section \<open>A sample queue\<close>

abbreviation no_floats :: "rat \<Rightarrow> string" where
  "no_floats \<equiv> \<lambda>_. []"

definition sample_exec :: exec_db where
  "sample_exec = \<lparr> xd_store = created_store, xd_commands = [], xd_intents = [], xd_barrier = Some False, xd_checkpoints = [],
     xd_executions = [], xd_steps = [], xd_tool_calls = [] \<rparr>"

definition sample_request :: "string \<Rightarrow> enqueue_request" where
  "sample_request key = \<lparr> eq_run_id = 1, eq_command_type = ''start_planning'', eq_idempotency_key = key, eq_payload = [],
     eq_expected_run_version = 0, eq_actor_id = None, eq_payload_schema_version = 1, eq_available_at = None \<rparr>"

definition queue_of :: "command_row list \<Rightarrow> exec_db" where
  "queue_of rows = sample_exec\<lparr> xd_commands := rows \<rparr>"

definition pending_row :: "uuid \<Rightarrow> string \<Rightarrow> int \<Rightarrow> command_row" where
  "pending_row i key t = \<lparr> cr_id = i, cr_run_id = 1, cr_idempotency_key = key, cr_command_type = ''start_planning'',
     cr_expected_run_version = 0, cr_actor_id = None, cr_payload_schema_version = 1, cr_payload = PDict [], cr_status = ''PENDING'',
     cr_available_at = t, cr_lease_owner = None, cr_lease_expires_at = None, cr_attempt_count = 0,
     cr_completed_at = None, cr_error_summary = None, cr_created_at = t \<rparr>"

abbreviation first_row :: command_row where
  "first_row \<equiv> leased_row ''w1'' 30000010 (pending_row 7 ''first'' 0)"

abbreviation second_row :: command_row where
  "second_row \<equiv> pending_row 8 ''second'' 20"

definition leaves :: "'e + ('c \<times> exec_db) \<Rightarrow> command_row list \<Rightarrow> bool" where
  "leaves m rows = (case m of Inr (c, db) \<Rightarrow> xd_commands db = rows | Inl _ \<Rightarrow> False)"

lemma step_commands_only: "command_step sq frepr l db db' \<Longrightarrow> distinct (map cr_id (xd_commands db)) \<Longrightarrow> db' = db\<lparr> xd_commands := xd_commands db' \<rparr>"
  by (drule (1) command_step_effect) (auto simp: writes_def inserts_def)

lemma leaves_queue:
  assumes "leaves m rows'" and "\<And>c db'. m = Inr (c, db') \<Longrightarrow> command_step sq frepr l (queue_of rows) db'" and "distinct (map cr_id rows)"
  shows "\<exists>c. m = Inr (c, queue_of rows')"
proof -
  from assms(1) obtain c db' where m: "m = Inr (c, db')" "xd_commands db' = rows'" by (auto simp: leaves_def split: sum.splits)
  have "db' = queue_of rows'"
    using step_commands_only [OF assms(2) [OF m(1)]] assms(3) m(2) by (simp add: queue_of_def)
  with m(1) show ?thesis by blast
qed

lemma sample_enqueues:
  "\<exists>c. enqueue True no_floats (queue_of []) 0 0 7 (sample_request ''first'') = Inr (c, queue_of [pending_row 7 ''first'' 0])"
  "\<exists>c. enqueue True no_floats (queue_of [first_row]) 20 20 8 (sample_request ''second'') = Inr (c, queue_of [first_row, second_row])"
  by (rule leaves_queue [OF _ step_enqueue], code_simp, assumption, code_simp)+

lemma some_leaves: "(case m of None \<Rightarrow> False | Some x \<Rightarrow> leaves x rows) \<Longrightarrow> \<exists>x. m = Some x \<and> leaves x rows"
  by (cases m) auto

lemma sample_claims:
  "\<exists>c. claim_next True Session_factory (queue_of [pending_row 7 ''first'' 0]) 10 ''w1'' (PInt 30) NORMAL [] = Some (Inr (c, queue_of [first_row]))"
  "\<exists>c. claim_next True Session_factory (queue_of [first_row, second_row]) 30000011 ''w2'' (PInt 30) NORMAL [7] =
     Some (Inr (c, queue_of [first_row, leased_row ''w2'' 60000011 second_row]))"
proof -
  let ?m = "claim_next True Session_factory (queue_of [pending_row 7 ''first'' 0]) 10 ''w1'' (PInt 30) NORMAL []"
  have "case ?m of None \<Rightarrow> False | Some x \<Rightarrow> leaves x [first_row]" by code_simp
  from some_leaves [OF this] obtain x where x: "?m = Some x" "leaves x [first_row]" by blast
  have "\<exists>c. x = Inr (c, queue_of [first_row])"
    by (rule leaves_queue [OF x(2)], rule step_claim, use x(1) in blast, code_simp)
  with x(1) show "\<exists>c. ?m = Some (Inr (c, queue_of [first_row]))" by blast
  let ?m = "claim_next True Session_factory (queue_of [first_row, second_row]) 30000011 ''w2'' (PInt 30) NORMAL [7]"
  let ?rows = "[first_row, leased_row ''w2'' 60000011 second_row]"
  have "case ?m of None \<Rightarrow> False | Some x \<Rightarrow> leaves x ?rows" by code_simp
  from some_leaves [OF this] obtain x where x: "?m = Some x" "leaves x ?rows" by blast
  have "\<exists>c. x = Inr (c, queue_of ?rows)"
    by (rule leaves_queue [OF x(2)], rule step_claim, use x(1) in blast, code_simp)
  with x(1) show "\<exists>c. ?m = Some (Inr (c, queue_of ?rows))" by blast
qed

lemma sample_steps: "command_step True no_floats (None, 0) (queue_of []) (queue_of [pending_row 7 ''first'' 0])"
    "command_step True no_floats (Some ''w1'', 10) (queue_of [pending_row 7 ''first'' 0]) (queue_of [first_row])"
    "command_step True no_floats (None, 20) (queue_of [first_row]) (queue_of [first_row, second_row])"
  using sample_enqueues sample_claims(1) by (auto intro: command_step.intros)

lemma sample_inv: "command_inv True (queue_of [])" "command_inv True (queue_of [pending_row 7 ''first'' 0])" "command_inv True (queue_of [first_row])"
proof -
  show e: "command_inv True (queue_of [])" by (simp add: command_inv_def queue_of_def)
  show q: "command_inv True (queue_of [pending_row 7 ''first'' 0])" by (rule command_inv_step [OF sample_steps(1) e])
  show "command_inv True (queue_of [first_row])" by (rule command_inv_step [OF sample_steps(2) q])
qed

lemma sample_rows: "command_at (queue_of [first_row]) 7 = Some first_row" "command_at (queue_of [first_row, second_row]) 7 = Some first_row"
  by (simp_all add: command_at_def row_at_def queue_of_def pending_row_def)

text \<open>What a call of the holder comes to.\<close>

lemma owned_calls:
  assumes "command_at db i = Some r" and "owns_lease r w now"
  shows "validate_worker_and_lease w secs = None \<Longrightarrow> renew sq Session_factory db now i w secs =
      flush_command sq db (r\<lparr> cr_lease_expires_at := Some (now + seconds_us secs) \<rparr>)"
    and "fail sq Session_factory db now i w error transient = flush_command sq db
      (if transient then retried_row now (bounded_error error) r else settled_row ''FAILED'' now (Some (bounded_error error)) r)"
    and "ce_lease_owner c = Some w \<Longrightarrow> ce_status c = Cmd_LEASED \<Longrightarrow> ce_id c = i \<Longrightarrow> ce_attempt c = cr_attempt_count r \<Longrightarrow>
      assert_current_lease sq Session db now c True locked = command_from_record sq r"
proof -
  have n: "require_owned_lease r w now = None" "cr_status r \<noteq> ''FAILED''" using assms(2) by (auto simp: owns_lease_def)
  have l: "locked_command db i = Inr r" using assms(1) by (simp add: locked_command_def command_at_def)
  show "renew sq Session_factory db now i w secs = flush_command sq db (r\<lparr> cr_lease_expires_at := Some (now + seconds_us secs) \<rparr>)"
    if "validate_worker_and_lease w secs = None"
    using that by (simp add: renew_def settle_def checked_def need_factory_def l n)
  show "fail sq Session_factory db now i w error transient = flush_command sq db
      (if transient then retried_row now (bounded_error error) r else settled_row ''FAILED'' now (Some (bounded_error error)) r)"
    by (simp add: fail_def Let_def settle_def checked_def need_factory_def l n)
  show "assert_current_lease sq Session db now c True locked = command_from_record sq r"
    if "ce_lease_owner c = Some w" "ce_status c = Cmd_LEASED" "ce_id c = i" "ce_attempt c = cr_attempt_count r"
    using that by (simp add: assert_current_lease_def checked_def need_session_def l n)
qed

lemma first_row_owned: "owns_lease first_row ''w1'' now \<longleftrightarrow> now < 30000010"
  by (simp add: owns_lease_def leased_row_def)

lemma sample_path: "path (queue_step True no_floats) [(None, 20)] (queue_of [first_row]) (queue_of [first_row, second_row])"
  using sample_steps(3) sample_inv(3) by (simp add: queue_step_def)

theorem command_leases_exclusive_witness:
  "(timed_step True no_floats)\<^sup>*\<^sup>* (0, queue_of []) (20, queue_of [first_row, second_row]) \<and> (\<exists>c. command_from_record True first_row = Inr c)"
proof -
  have "timed_step True no_floats (0, queue_of []) (0, queue_of [pending_row 7 ''first'' 0])"
    "timed_step True no_floats (0, queue_of [pending_row 7 ''first'' 0]) (10, queue_of [first_row])"
    "timed_step True no_floats (10, queue_of [first_row]) (20, queue_of [first_row, second_row])"
    using sample_steps by (auto intro: timed_step.queue)
  then have h: "(timed_step True no_floats)\<^sup>*\<^sup>* (0, queue_of []) (20, queue_of [first_row, second_row])"
    by (meson converse_rtranclp_into_rtranclp rtranclp.rtrancl_refl)
  from command_leases_exclusive [OF h] h show ?thesis by (simp add: queue_of_def)
qed

theorem claim_loop_returns_witness:
  "claim_loop NORMAL 10 [] (queue_of [pending_row 7 ''first'' 0]) [] = Some (Inr (Some (pending_row 7 ''first'' 0)))"
proof -
  have "claim_choice NORMAL 10 [] (queue_of [pending_row 7 ''first'' 0]) = Some (pending_row 7 ''first'' 0)" by code_simp
  with claim_loop_returns [OF sample_inv(2), of Session_factory 10 "''w1''" "PInt 30" NORMAL "[]"] show ?thesis by simp
qed

theorem live_lease_fences_command_witness:
  "command_holder first_row = Some (''w1'', 30000010) \<and> command_at (queue_of [first_row, second_row]) 7 = Some first_row"
proof -
  have h: "command_holder first_row = Some (''w1'', 30000010)" by (simp add: command_holder_def leased_row_def)
  from live_lease_fences_command [OF sample_path sample_rows(1) h] h show ?thesis by simp
qed

theorem delivery_fence_sound_witness:
  "\<exists>c q. command_from_record True first_row = Inr c \<and> command_at (queue_of [first_row]) (ce_id c) = Some q \<and> cr_attempt_count q = 1"
proof -
  have "(case command_from_record True first_row of Inl _ \<Rightarrow> False | Inr c \<Rightarrow> ce_status c = Cmd_LEASED)" by code_simp
  then obtain c where c1: "command_from_record True first_row = Inr c" "ce_status c = Cmd_LEASED" by (auto split: sum.splits)
  have d: "ce_id c = 7" "ce_attempt c = cr_attempt_count first_row" "ce_lease_owner c = Some ''w1''"
    using command_decoded [OF c1(1)] by (simp_all add: leased_row_def pending_row_def)
  have c: "command_from_record True first_row = Inr c" "assert_current_lease True Session (queue_of [first_row, second_row]) 25 c True [] = Inr c"
    using owned_calls(3) [OF sample_rows(2) _ d(3) c1(2) d(1,2), of 25 True "[]"] first_row_owned c1(1) by simp_all
  have p: "path (queue_step True no_floats) [] (queue_of [first_row]) (queue_of [first_row])" by simp
  have i: "ce_id c = 7" "ce_attempt c = 1" using command_decoded [OF c(1)] by (simp_all add: leased_row_def pending_row_def)
  with delivery_fence_sound [OF p sample_path _ c] sample_rows(1) c(1) show ?thesis by fastforce
qed

theorem enqueue_replay_exact_witness:
  "\<exists>c. enqueue True no_floats (queue_of [first_row]) 40 40 9 (sample_request ''first'') = Inr (c, queue_of [first_row])"
proof -
  have v: "first_row \<in> set (xd_commands (queue_of [first_row]))" "cr_idempotency_key first_row = eq_idempotency_key (sample_request ''first'')"
    "command_at (queue_of [first_row]) 9 = None" "same_command no_floats (sample_request ''first'') first_row"
    by (simp_all add: queue_of_def leased_row_def pending_row_def sample_request_def command_at_def row_at_def same_command_def)
  have "command_envelope_validate True (enqueue_candidate 9 40 (sample_request ''first'')) = None" by code_simp
  from enqueue_replay_exact [OF sample_inv(3) v(1,2) this v(3)] v(4) sample_inv(3) show ?thesis
    by (auto simp: command_inv_def queue_of_def)
qed

text \<open>C39. A renewal that read its clock before the lease expired can overlap a claim that read it after: the
  claim passes over the row the renewal has locked, finds no live lease of the run and leases the
  next command, the renewal then commits, and the run has two live normal leases.\<close>

theorem renewal_race_two_leases:
  "\<exists>c c' d d'. claim_next True Session_factory (queue_of [first_row, second_row]) 30000011 ''w2'' (PInt 30) NORMAL [7] = Some (Inr (c, d)) \<and>
     renew True Session_factory d 30000000 7 ''w1'' (PInt 30) = Inr (c', d') \<and>
     map cr_id (filter (\<lambda>r. live_lease 30000011 r \<and> \<not> is_control r) (xd_commands d')) = [7, 8]"
proof -
  let ?rows = "[first_row, leased_row ''w2'' 60000011 second_row]"
  let ?rows' = "[first_row\<lparr> cr_lease_expires_at := Some 60000000 \<rparr>, leased_row ''w2'' 60000011 second_row]"
  have "leaves (flush_command True (queue_of ?rows) (first_row\<lparr> cr_lease_expires_at := Some 60000000 \<rparr>)) ?rows'" by code_simp
  moreover have "command_at (queue_of ?rows) 7 = Some first_row" "validate_worker_and_lease ''w1'' (PInt 30) = None"
    by (simp_all add: command_at_def row_at_def queue_of_def pending_row_def validate_worker_and_lease_def validate_lease_seconds_def)
  ultimately have "leaves (renew True Session_factory (queue_of ?rows) 30000000 7 ''w1'' (PInt 30)) ?rows'"
    using owned_calls(1) [of "queue_of ?rows" 7 first_row "''w1''" 30000000 "PInt 30" True] by (simp add: first_row_owned seconds_us_def)
  moreover have "map cr_id (filter (\<lambda>r. live_lease 30000011 r \<and> \<not> is_control r) ?rows') = [7, 8]" by code_simp
  ultimately show ?thesis using sample_claims(2) by (auto simp: leaves_def split: sum.splits)
qed

lemma unclean_malformed:
  assumes "cr_error_summary r = Some s" and "contains_credential sq s" and "map_of command_statuses (cr_status r) = Some status"
    and "cr_payload r = PDict p"
  shows "command_from_record sq r = Inl (Command_data ''stored command is malformed'')"
proof -
  have "command_envelope_validate sq c \<noteq> None" if "ce_error_summary c = Some s" for c
    using that assms(2) by (simp add: command_envelope_validate_def validate_durable_error_def)
  then have "\<exists>e. command_envelope_make sq c = Inl e" if "ce_error_summary c = Some s" for c
    using that by (auto simp: command_envelope_make_def)
  moreover have "ce_error_summary (row_envelope r status p) = Some s" using assms(1) by (simp add: row_envelope_def)
  ultimately obtain e where "command_envelope_make sq (row_envelope r status p) = Inl e" by blast
  with assms(3,4) show ?thesis by (simp add: command_from_record_def)
qed


end
