(* ===== verification/Forge_Operation_Store.thy ===== *)
theory Forge_Operation_Store
  imports Forge_Command_Store
begin

text \<open>
  The log of durable operations: \<^verbatim>\<open>persistence/repositories/operations.py\<close> and its table in
  \<^verbatim>\<open>persistence/models/execution.py\<close>. An external effect is recorded as an intent, with an event, before
  it is attempted; whoever executes or reconciles it holds an execution lease; the outcome is
  written once. The last section composes the log with the command queue and the run repository
  over the same database.
\<close>

section \<open>Values\<close>

datatype intent_error =
    OperationError string
  | OperationNotFound uuid
  | OperationIdempotencyConflict string
  | OperationStateConflict string
  | OperationLeaseError string
  | Intent_data string
  | Intent_invalid py_exn
  | Intent_integrity
  | Intent_store store_error

definition operation_statuses :: "(string \<times> operation_status) list" where
  "operation_statuses = [(''PENDING'', Op_PENDING), (''SUCCEEDED'', Op_SUCCEEDED), (''FAILED'', Op_FAILED),
     (''NEEDS_RECONCILIATION'', Op_NEEDS_RECONCILIATION)]"

definition intent_shape :: "intent_row \<Rightarrow> operation_status \<Rightarrow> (string, pyval) dict \<Rightarrow> (string, pyval) dict option \<Rightarrow> operation_intent" where
  "intent_shape r status payload outcome = \<lparr> oi_id = ir_id r, oi_run_id = ir_run_id r, oi_kind = ir_operation_kind r,
     oi_idempotency_key = ir_idempotency_key r, oi_request_digest = ir_request_digest r, oi_request_payload = payload,
     oi_status = status, oi_remote_resource_id = ir_remote_resource_id r, oi_attempt = ir_attempt_count r,
     oi_created_at = Some (Aware (ir_created_at r)), oi_updated_at = Some (Aware (ir_updated_at r)),
     oi_started_at = map_option Aware (ir_started_at r), oi_completed_at = map_option Aware (ir_completed_at r), oi_outcome = outcome,
     oi_error = ir_last_error r, oi_request_schema_version = ir_request_schema_version r,
     oi_outcome_schema_version = ir_outcome_schema_version r, oi_execution_owner = ir_execution_owner r,
     oi_execution_lease_expires_at = map_option Aware (ir_execution_lease_expires_at r) \<rparr>"

fun object_of :: "pyval option \<Rightarrow> (string, pyval) dict option option" where
  "object_of None = Some None"
| "object_of (Some (PDict d)) = Some (Some d)"
| "object_of _ = None"

definition intent_from_record :: "bool \<Rightarrow> intent_row \<Rightarrow> intent_error + operation_intent" where
  "intent_from_record sq r = (case map_of operation_statuses (ir_status r) of
     None \<Rightarrow> Inl (Intent_data (''unknown stored operation status '' @ py_repr (ir_status r)))
   | Some status \<Rightarrow> (case ir_request_payload r of
       PDict payload \<Rightarrow> (case object_of (ir_outcome_payload r) of
           None \<Rightarrow> Inl (Intent_data ''stored operation outcome payload is not an object'')
         | Some outcome \<Rightarrow> (case operation_intent_make sq (intent_shape r status payload outcome) of
             Inl _ \<Rightarrow> Inl (Intent_data ''stored operation intent is malformed'')
           | Inr i \<Rightarrow> Inr i))
     | _ \<Rightarrow> Inl (Intent_data ''stored operation request payload is not an object'')))"

definition intent_checks :: "intent_row \<Rightarrow> sql_bool list" where
  "intent_checks r = [
     sql_in (Some (ir_status r)) [''PENDING'', ''SUCCEEDED'', ''FAILED'', ''NEEDS_RECONCILIATION''],
     Some (0 \<le> ir_attempt_count r), Some (1 \<le> ir_request_schema_version r), Some (is_digest64 (ir_request_digest r)),
     sql_or [sql_and [is_null (ir_outcome_payload r), is_null (ir_outcome_schema_version r)],
       sql_and [not_null (ir_outcome_payload r), sql_ge (ir_outcome_schema_version r) 1]]]"

definition status_shape :: "intent_row \<Rightarrow> sql_bool" where
  "status_shape r = sql_or [
     sql_and [sql_in (Some (ir_status r)) [''PENDING'', ''NEEDS_RECONCILIATION''], is_null (ir_completed_at r),
       is_null (ir_outcome_payload r), is_null (ir_outcome_schema_version r)],
     sql_and [sql_in (Some (ir_status r)) [''SUCCEEDED''], not_null (ir_completed_at r), not_null (ir_outcome_payload r),
       not_null (ir_outcome_schema_version r), sql_ge (ir_outcome_schema_version r) 1],
     sql_and [sql_in (Some (ir_status r)) [''FAILED''], not_null (ir_completed_at r), not_null (ir_last_error r),
       is_null (ir_outcome_payload r), is_null (ir_outcome_schema_version r)]]"

definition execution_lease_shape :: "intent_row \<Rightarrow> sql_bool" where
  "execution_lease_shape r = sql_or [
     sql_and [sql_in (Some (ir_status r)) [''PENDING'', ''NEEDS_RECONCILIATION''],
       sql_or [sql_and [is_null (ir_execution_owner r), is_null (ir_execution_lease_expires_at r)],
         sql_and [not_null (ir_execution_owner r), not_null (ir_execution_lease_expires_at r)]]],
     sql_and [sql_in (Some (ir_status r)) [''SUCCEEDED'', ''FAILED''], is_null (ir_execution_owner r),
       is_null (ir_execution_lease_expires_at r)]]"

definition intent_columns_fit :: "intent_row \<Rightarrow> bool" where
  "intent_columns_fit r = (varchar 96 (Some (ir_operation_kind r)) \<and> varchar 255 (Some (ir_idempotency_key r)) \<and>
     varchar 64 (Some (ir_request_digest r)) \<and> int32 (ir_request_schema_version r) \<and> varchar 24 (Some (ir_status r)) \<and>
     varchar 1024 (ir_remote_resource_id r) \<and> varchar 255 (ir_execution_owner r) \<and>
     (case ir_outcome_schema_version r of None \<Rightarrow> True | Some n \<Rightarrow> int32 n) \<and> int32 (ir_attempt_count r))"

definition intent_row_ok :: "intent_row \<Rightarrow> bool" where
  "intent_row_ok r = (intent_columns_fit r \<and> Some False \<notin> set (intent_checks r @ [status_shape r, execution_lease_shape r]))"

definition validate_execution_request :: "string option \<Rightarrow> pyval option \<Rightarrow> py_exn option" where
  "validate_execution_request owner_id lease_seconds = (case owner_id of
     None \<Rightarrow> when_raise (lease_seconds \<noteq> None) (ValueError ''an execution lease duration requires an owner'')
   | Some w \<Rightarrow> seq_raise [
       when_raise (w = [] \<or> 255 < length w) (ValueError ''operation execution owner must contain 1-255 characters''),
       (case lease_seconds of None \<Rightarrow> Some (ValueError ''an execution owner requires a lease duration'')
        | Some s \<Rightarrow> validate_lease_seconds s)])"

definition owns_execution :: "intent_row \<Rightarrow> string option \<Rightarrow> int \<Rightarrow> bool" where
  "owns_execution r owner_id now = (owner_id \<noteq> None \<and> ir_execution_owner r = owner_id \<and>
     (case ir_execution_lease_expires_at r of None \<Rightarrow> False | Some e \<Rightarrow> now < e))"

definition require_execution_owner :: "intent_row \<Rightarrow> string option \<Rightarrow> int \<Rightarrow> intent_error option" where
  "require_execution_owner r owner_id now = when_raise (\<not> owns_execution r owner_id now)
     (OperationLeaseError (''caller does not hold operation intent '' @ uuid_str (ir_id r)))"

definition check_begin_match :: "bool \<Rightarrow> (rat \<Rightarrow> string) \<Rightarrow> operation_intent \<Rightarrow> operation_intent \<Rightarrow> intent_error option" where
  "check_begin_match sq frepr expected actual = when_raise (
     oi_run_id expected \<noteq> oi_run_id actual \<or> oi_kind expected \<noteq> oi_kind actual \<or>
     oi_request_digest expected \<noteq> oi_request_digest actual \<or>
     oi_request_schema_version expected \<noteq> oi_request_schema_version actual \<or>
     canonical_payload sq frepr (oi_request_payload expected) \<noteq> canonical_payload sq frepr (oi_request_payload actual))
     (OperationIdempotencyConflict (''operation idempotency key '' @ py_repr (oi_idempotency_key expected) @ '' has a different request''))"

definition get_for_update :: "run_store \<Rightarrow> uuid \<Rightarrow> store_error + run_snapshot" where
  "get_for_update st run_id = (case st_runs st run_id of None \<Rightarrow> Inl (RunNotFound run_id) | Some row \<Rightarrow> snapshot_from_record row)"

definition in_store :: "store_error + 'a \<Rightarrow> intent_error + 'a" where
  "in_store m = (case m of Inl e \<Rightarrow> Inl (Intent_store e) | Inr x \<Rightarrow> Inr x)"

section \<open>Beginning\<close>

record begin_request =
  bo_run_id :: uuid
  bo_operation_type :: "string option"
  bo_kind :: "string option"
  bo_operation_kind :: "string option"
  bo_idempotency_key :: string
  bo_request_digest :: string
  bo_request_payload :: "(string, pyval) dict"
  bo_request_schema_version :: int
  bo_execution_owner :: "string option"
  bo_execution_lease_seconds :: "pyval option"
  bo_operation_id :: "uuid option"

definition resolved_kind :: "begin_request \<Rightarrow> string option" where
  "resolved_kind q = (if \<not> falsy (bo_operation_type q) then bo_operation_type q
     else if \<not> falsy (bo_kind q) then bo_kind q else bo_operation_kind q)"

definition intent_candidate :: "uuid \<Rightarrow> int \<Rightarrow> begin_request \<Rightarrow> operation_request \<Rightarrow> operation_intent" where
  "intent_candidate new_id now q request = \<lparr> oi_id = (case bo_operation_id q of None \<Rightarrow> new_id | Some i \<Rightarrow> i),
     oi_run_id = or_run_id request, oi_kind = or_kind request, oi_idempotency_key = or_idempotency_key request,
     oi_request_digest = or_request_digest request, oi_request_payload = or_request_payload request, oi_status = Op_PENDING,
     oi_remote_resource_id = None, oi_attempt = (if bo_execution_owner q \<noteq> None then 1 else 0),
     oi_created_at = Some (Aware now), oi_updated_at = Some (Aware now), oi_started_at = None, oi_completed_at = None, oi_outcome = None,
     oi_error = None, oi_request_schema_version = or_request_schema_version request, oi_outcome_schema_version = None,
     oi_execution_owner = bo_execution_owner q,
     oi_execution_lease_expires_at = (case (bo_execution_owner q, bo_execution_lease_seconds q) of
        (Some _, Some s) \<Rightarrow> Some (Aware (now + seconds_us s)) | _ \<Rightarrow> None) \<rparr>"

definition inserted_intent :: "int \<Rightarrow> operation_intent \<Rightarrow> intent_row" where
  "inserted_intent db_now i = \<lparr> ir_id = oi_id i, ir_run_id = oi_run_id i, ir_operation_kind = oi_kind i,
     ir_idempotency_key = oi_idempotency_key i, ir_request_digest = oi_request_digest i,
     ir_request_schema_version = oi_request_schema_version i, ir_request_payload = PDict (thaw_dict (oi_request_payload i)),
     ir_status = ''PENDING'', ir_remote_resource_id = None, ir_execution_owner = oi_execution_owner i,
     ir_execution_lease_expires_at = map_option instant (oi_execution_lease_expires_at i), ir_outcome_schema_version = None,
     ir_outcome_payload = None, ir_attempt_count = oi_attempt i, ir_last_error = None, ir_started_at = None, ir_completed_at = None,
     ir_created_at = db_now, ir_updated_at = db_now \<rparr>"

definition intent_created_event :: "uuid \<Rightarrow> int \<Rightarrow> int \<Rightarrow> operation_intent \<Rightarrow> run_event" where
  "intent_created_event event_id now version i = causal_event (oi_run_id i) version
     \<lparr> ea_event_id = event_id, ea_event_type = ''operation.intent_created'',
       ea_payload = [(''operation_intent_id'', PStr (uuid_str (oi_id i))), (''operation_kind'', PStr (oi_kind i)),
         (''request_digest'', PStr (oi_request_digest i)), (''request_schema_version'', PInt (oi_request_schema_version i))],
       ea_actor_class = ''system'', ea_actor_id = None, ea_payload_schema_version = 1, ea_occurred_at = Aware now \<rparr>"

text \<open>The result says whether the intent is new.\<close>

definition begin_core :: "bool \<Rightarrow> (rat \<Rightarrow> string) \<Rightarrow> event_context \<Rightarrow> exec_db \<Rightarrow> int \<Rightarrow> int \<Rightarrow> uuid \<Rightarrow> operation_intent \<Rightarrow>
    intent_error + ((bool \<times> operation_intent) \<times> exec_db)" where
  "begin_core sq frepr ctx db now db_now event_id candidate =
     ebind (in_store (get_for_update (xd_store db) (oi_run_id candidate))) (\<lambda>run.
       case row_at ir_idempotency_key (oi_idempotency_key candidate) (xd_intents db) of
         None \<Rightarrow> (let r = inserted_intent db_now candidate in
           if ir_id r \<in> set (map ir_id (xd_intents db)) \<or> \<not> intent_row_ok r then Inl Intent_integrity
           else case run_event_make (intent_created_event event_id now (rs_version run) candidate) of
               Inl e \<Rightarrow> Inl (Intent_store (Event e))
             | Inr event \<Rightarrow> ebind (in_store (event_append ctx (xd_store db) event)) (\<lambda>st.
                 ebind (intent_from_record sq r) (\<lambda>i.
                   Inr ((True, i), db\<lparr> xd_store := st, xd_intents := xd_intents db @ [r] \<rparr>))))
       | Some existing \<Rightarrow>
           (let r = (case row_at ir_id (oi_id candidate) (xd_intents db) of Some x \<Rightarrow> x | None \<Rightarrow> existing) in
            ebind (intent_from_record sq r) (\<lambda>actual.
              checked (check_begin_match sq frepr candidate actual) (Inr ((False, actual), db)))))"

definition begin_operation :: "bool \<Rightarrow> (rat \<Rightarrow> string) \<Rightarrow> event_context \<Rightarrow> exec_db \<Rightarrow> int \<Rightarrow> int \<Rightarrow> uuid \<Rightarrow> uuid \<Rightarrow> begin_request \<Rightarrow>
    intent_error + ((bool \<times> operation_intent) \<times> exec_db)" where
  "begin_operation sq frepr ctx db now db_now new_id event_id q =
     (if bo_operation_id q = Some 0 then Inl (Intent_invalid (ValueError ''operation identity must be a non-nil UUID''))
      else case resolved_kind q of
        None \<Rightarrow> Inl (Intent_invalid (ValueError ''operation type is required''))
      | Some kind \<Rightarrow> (case operation_request_make sq \<lparr> or_run_id = bo_run_id q, or_kind = kind,
            or_idempotency_key = bo_idempotency_key q, or_request_digest = bo_request_digest q,
            or_request_payload = bo_request_payload q, or_request_schema_version = bo_request_schema_version q \<rparr> of
          Inl e \<Rightarrow> Inl (Intent_invalid e)
        | Inr request \<Rightarrow> (case validate_execution_request (bo_execution_owner q) (bo_execution_lease_seconds q) of
            Some e \<Rightarrow> Inl (Intent_invalid e)
          | None \<Rightarrow> (case operation_intent_make sq (intent_candidate new_id now q request) of
              Inl e \<Rightarrow> Inl (Intent_invalid e)
            | Inr candidate \<Rightarrow> ebind (begin_core sq frepr ctx db now db_now event_id candidate) (\<lambda>((new, i), db').
                if bo_operation_id q \<noteq> None \<and> bo_operation_id q \<noteq> Some (oi_id i)
                then Inl (Intent_invalid (ValueError ''operation replay identity conflicts''))
                else Inr ((new, i), db'))))))"

section \<open>Executing and settling\<close>

definition locked_intent :: "exec_db \<Rightarrow> uuid \<Rightarrow> intent_error + intent_row" where
  "locked_intent db intent_id = (case row_at ir_id intent_id (xd_intents db) of
     None \<Rightarrow> Inl (OperationNotFound intent_id) | Some r \<Rightarrow> Inr r)"

definition flush_intent :: "bool \<Rightarrow> exec_db \<Rightarrow> int \<Rightarrow> intent_row \<Rightarrow> intent_error + (operation_intent \<times> exec_db)" where
  "flush_intent sq db db_now r = (let r' = r\<lparr> ir_updated_at := db_now \<rparr> in
     if \<not> intent_row_ok r' then Inl Intent_integrity
     else ebind (intent_from_record sq r') (\<lambda>i. Inr (i, db\<lparr> xd_intents := put_row ir_id r' (xd_intents db) \<rparr>)))"

definition started :: "int \<Rightarrow> intent_row \<Rightarrow> intent_row" where
  "started now r = (if ir_started_at r = None then r\<lparr> ir_started_at := Some now \<rparr> else r)"

definition claimed_intent :: "string \<Rightarrow> int \<Rightarrow> int \<Rightarrow> intent_row \<Rightarrow> intent_row" where
  "claimed_intent owner_id expiry now r = started now (r\<lparr> ir_execution_owner := Some owner_id,
     ir_execution_lease_expires_at := Some expiry, ir_attempt_count := ir_attempt_count r + 1 \<rparr>)"

definition claim_for_recovery :: "bool \<Rightarrow> exec_db \<Rightarrow> int \<Rightarrow> int \<Rightarrow> uuid \<Rightarrow> string \<Rightarrow> pyval \<Rightarrow>
    intent_error + ((operation_intent \<times> bool) \<times> exec_db)" where
  "claim_for_recovery sq db now db_now intent_id owner_id lease_seconds =
     checked (map_option Intent_invalid (validate_execution_request (Some owner_id) (Some lease_seconds)))
       (ebind (locked_intent db intent_id) (\<lambda>r. ebind (intent_from_record sq r) (\<lambda>current.
          if oi_status current \<notin> {Op_PENDING, Op_NEEDS_RECONCILIATION} then Inr ((current, False), db)
          else if owns_execution r (ir_execution_owner r) now then Inr ((current, False), db)
          else ebind (flush_intent sq db db_now (claimed_intent owner_id (now + seconds_us lease_seconds) now r))
            (\<lambda>(i, db'). Inr ((i, True), db')))))"

definition renew_execution :: "bool \<Rightarrow> exec_db \<Rightarrow> int \<Rightarrow> int \<Rightarrow> uuid \<Rightarrow> string \<Rightarrow> pyval \<Rightarrow> intent_error + (operation_intent \<times> exec_db)" where
  "renew_execution sq db now db_now intent_id owner_id lease_seconds =
     checked (map_option Intent_invalid (validate_execution_request (Some owner_id) (Some lease_seconds)))
       (ebind (locked_intent db intent_id) (\<lambda>r. checked (require_execution_owner r (Some owner_id) now)
          (flush_intent sq db db_now (r\<lparr> ir_execution_lease_expires_at := Some (now + seconds_us lease_seconds) \<rparr>))))"

definition succeeded_intent :: "int \<Rightarrow> operation_outcome \<Rightarrow> intent_row \<Rightarrow> intent_row" where
  "succeeded_intent now outcome r = started now (r\<lparr> ir_status := ''SUCCEEDED'', ir_remote_resource_id := oo_remote_resource_id outcome,
     ir_outcome_schema_version := Some (oo_outcome_schema_version outcome), ir_outcome_payload := Some (PDict (thaw_dict (oo_payload outcome))),
     ir_completed_at := Some now, ir_last_error := None, ir_execution_owner := None, ir_execution_lease_expires_at := None \<rparr>)"

text \<open>\<^verbatim>\<open>lease_now\<close> is the clock read by the owner check, \<^verbatim>\<open>now\<close> the one read after it.\<close>

definition complete_operation :: "bool \<Rightarrow> (rat \<Rightarrow> string) \<Rightarrow> exec_db \<Rightarrow> int \<Rightarrow> int \<Rightarrow> int \<Rightarrow> uuid \<Rightarrow> operation_outcome \<Rightarrow> string option \<Rightarrow>
    intent_error + (operation_intent \<times> exec_db)" where
  "complete_operation sq frepr db lease_now now db_now intent_id outcome owner_id =
     (if oo_status outcome \<noteq> Op_SUCCEEDED then Inl (Intent_invalid (ValueError ''complete requires a succeeded operation outcome''))
      else ebind (locked_intent db intent_id) (\<lambda>r.
        if ir_status r = ''SUCCEEDED'' then ebind (intent_from_record sq r) (\<lambda>existing.
          if oi_remote_resource_id existing \<noteq> oo_remote_resource_id outcome \<or>
             canonical_payload sq frepr (case oi_outcome existing of None \<Rightarrow> [] | Some p \<Rightarrow> p) \<noteq> canonical_payload sq frepr (oo_payload outcome)
          then Inl (OperationStateConflict (''operation intent '' @ uuid_str intent_id @ '' already has a different outcome''))
          else Inr (existing, db))
        else if ir_status r \<notin> {''PENDING'', ''NEEDS_RECONCILIATION''}
        then Inl (OperationStateConflict (''operation intent '' @ uuid_str intent_id @ '' is already terminal: '' @ ir_status r))
        else checked (require_execution_owner r owner_id lease_now) (flush_intent sq db db_now (succeeded_intent now outcome r))))"

definition failed_intent :: "int \<Rightarrow> string \<Rightarrow> bool \<Rightarrow> intent_row \<Rightarrow> intent_row" where
  "failed_intent now error needs_reconciliation r = started now (r\<lparr>
     ir_status := (if needs_reconciliation then ''NEEDS_RECONCILIATION'' else ''FAILED''), ir_last_error := Some error,
     ir_completed_at := (if needs_reconciliation then None else Some now), ir_outcome_payload := None, ir_outcome_schema_version := None,
     ir_remote_resource_id := None, ir_execution_owner := None, ir_execution_lease_expires_at := None \<rparr>)"

definition fail_operation :: "bool \<Rightarrow> exec_db \<Rightarrow> int \<Rightarrow> int \<Rightarrow> int \<Rightarrow> uuid \<Rightarrow> string \<Rightarrow> bool \<Rightarrow> string option \<Rightarrow>
    intent_error + (operation_intent \<times> exec_db)" where
  "fail_operation sq db lease_now now db_now intent_id error needs_reconciliation owner_id = (let bounded = bounded_error error in
     ebind (locked_intent db intent_id) (\<lambda>r.
       if ir_status r = ''FAILED'' \<and> \<not> needs_reconciliation then ebind (intent_from_record sq r) (\<lambda>existing.
         if oi_error existing = Some bounded then Inr (existing, db)
         else Inl (OperationStateConflict (''operation intent '' @ uuid_str intent_id @ '' already has a different failure'')))
       else if ir_status r = ''SUCCEEDED''
       then Inl (OperationStateConflict (''operation intent '' @ uuid_str intent_id @ '' already succeeded''))
       else checked (require_execution_owner r owner_id lease_now) (flush_intent sq db db_now (failed_intent now bounded needs_reconciliation r))))"

section \<open>Queries\<close>

definition get_operation :: "bool \<Rightarrow> exec_db \<Rightarrow> uuid \<Rightarrow> intent_error + operation_intent" where
  "get_operation sq db intent_id = ebind (locked_intent db intent_id) (intent_from_record sq)"

definition get_operation_by_key :: "bool \<Rightarrow> exec_db \<Rightarrow> string \<Rightarrow> intent_error + operation_intent option" where
  "get_operation_by_key sq db key = (if key = [] then Inl (Intent_invalid (ValueError ''operation idempotency key is invalid''))
     else case row_at ir_idempotency_key key (xd_intents db) of
       None \<Rightarrow> Inr None | Some r \<Rightarrow> ebind (intent_from_record sq r) (\<lambda>i. Inr (Some i)))"

definition list_unresolved :: "bool \<Rightarrow> exec_db \<Rightarrow> intent_error + operation_intent list" where
  "list_unresolved sq db = emap (intent_from_record sq) (sort_key (\<lambda>r. (ir_updated_at r, ir_created_at r, ir_id r))
     (filter (\<lambda>r. ir_status r \<in> {''PENDING'', ''NEEDS_RECONCILIATION''}) (xd_intents db)))"

section \<open>The log as a labelled step relation\<close>

text \<open>The label is the execution owner the caller names and the clock that decides about leases.\<close>

inductive operation_step :: "bool \<Rightarrow> (rat \<Rightarrow> string) \<Rightarrow> lease_label \<Rightarrow> exec_db \<Rightarrow> exec_db \<Rightarrow> bool" for sq frepr where
  step_begin: "begin_operation sq frepr ctx db now db_now new_id event_id q = Inr (x, db') \<Longrightarrow>
     operation_step sq frepr (bo_execution_owner q, now) db db'"
| step_take: "claim_for_recovery sq db now db_now i w secs = Inr (x, db') \<Longrightarrow> operation_step sq frepr (Some w, now) db db'"
| step_extend: "renew_execution sq db now db_now i w secs = Inr (x, db') \<Longrightarrow> operation_step sq frepr (Some w, now) db db'"
| step_succeed: "complete_operation sq frepr db now later db_now i outcome owner_id = Inr (x, db') \<Longrightarrow> operation_step sq frepr (owner_id, now) db db'"
| step_fail_operation: "fail_operation sq db now later db_now i error unsure owner_id = Inr (x, db') \<Longrightarrow> operation_step sq frepr (owner_id, now) db db'"

text \<open>What the operations do to one row.\<close>

definition intent_open :: "intent_row \<Rightarrow> bool" where
  "intent_open r = (ir_status r \<in> {''PENDING'', ''NEEDS_RECONCILIATION''})"

inductive intent_change :: "lease_label \<Rightarrow> intent_row \<Rightarrow> intent_row \<Rightarrow> bool" where
  taken: "intent_open r \<Longrightarrow> \<not> owns_execution r (ir_execution_owner r) now \<Longrightarrow> now < e \<Longrightarrow>
     intent_change (Some w, now) r ((claimed_intent w e now r)\<lparr> ir_updated_at := t \<rparr>)"
| extended: "owns_execution r (Some w) now \<Longrightarrow> now < e \<Longrightarrow>
     intent_change (Some w, now) r (r\<lparr> ir_execution_lease_expires_at := Some e, ir_updated_at := t \<rparr>)"
| succeeded: "owns_execution r owner_id now \<Longrightarrow> intent_change (owner_id, now) r ((succeeded_intent later outcome r)\<lparr> ir_updated_at := t \<rparr>)"
| failed: "owns_execution r owner_id now \<Longrightarrow> intent_change (owner_id, now) r ((failed_intent later error unsure r)\<lparr> ir_updated_at := t \<rparr>)"

definition intent_writes :: "bool \<Rightarrow> exec_db \<Rightarrow> lease_label \<Rightarrow> exec_db \<Rightarrow> bool" where
  "intent_writes sq db l db' \<longleftrightarrow> (\<exists>r r' c. row_at ir_id (ir_id r) (xd_intents db) = Some r \<and>
     intent_change l r r' \<and> intent_row_ok r' \<and> intent_from_record sq r' = Inr c \<and>
     db' = db\<lparr> xd_intents := put_row ir_id r' (xd_intents db) \<rparr>)"

definition intent_created :: "run_event \<Rightarrow> bool" where
  "intent_created e = (ev_event_type e = ''operation.intent_created'')"

definition intent_inserts :: "bool \<Rightarrow> exec_db \<Rightarrow> exec_db \<Rightarrow> bool" where
  "intent_inserts sq db db' \<longleftrightarrow> (\<exists>r c e. ir_id r \<notin> set (map ir_id (xd_intents db)) \<and>
     ir_idempotency_key r \<notin> set (map ir_idempotency_key (xd_intents db)) \<and> st_runs (xd_store db) (ir_run_id r) \<noteq> None \<and>
     intent_row_ok r \<and> intent_from_record sq r = Inr c \<and> intent_created e \<and> ev_run_id e = ir_run_id r \<and>
     ev_sequence e = Some (next_sequence (xd_store db) (ir_run_id r)) \<and>
     db' = db\<lparr> xd_store := (xd_store db)\<lparr> st_events := st_events (xd_store db) @ [e] \<rparr>, xd_intents := xd_intents db @ [r] \<rparr>)"

lemma require_execution_owner_None [simp]: "require_execution_owner r owner_id now = None \<longleftrightarrow> owns_execution r owner_id now"
  by (simp add: require_execution_owner_def)

lemma in_store_Inr [simp]: "in_store m = Inr x \<longleftrightarrow> m = Inr x"
  by (cases m) (simp_all add: in_store_def)

lemma intent_change_keeps: "intent_change l r r' \<Longrightarrow> ir_id r' = ir_id r \<and> ir_idempotency_key r' = ir_idempotency_key r \<and>
    ir_run_id r' = ir_run_id r \<and> ir_operation_kind r' = ir_operation_kind r \<and> ir_request_digest r' = ir_request_digest r \<and>
    ir_request_schema_version r' = ir_request_schema_version r \<and> ir_request_payload r' = ir_request_payload r"
  by (induction rule: intent_change.induct)
    (simp_all add: claimed_intent_def succeeded_intent_def failed_intent_def started_def)

lemma flush_intent_writes:
  assumes "flush_intent sq db db_now r' = Inr (c, db')" and "row_at ir_id i (xd_intents db) = Some r"
    and "intent_change l r (r'\<lparr> ir_updated_at := db_now \<rparr>)"
  shows "intent_writes sq db l db'"
proof -
  from row_at_Some [OF assms(2)] have i: "ir_id r = i" by simp
  from assms(1) have f: "intent_row_ok (r'\<lparr> ir_updated_at := db_now \<rparr>)" "intent_from_record sq (r'\<lparr> ir_updated_at := db_now \<rparr>) = Inr c"
      "db' = db\<lparr> xd_intents := put_row ir_id (r'\<lparr> ir_updated_at := db_now \<rparr>) (xd_intents db) \<rparr>"
    by (auto simp: flush_intent_def Let_def ebind_Inr split: if_splits)
  show ?thesis unfolding intent_writes_def using assms(2,3) i f by blast
qed

lemma execution_lease_positive: "validate_execution_request (Some w) (Some secs) = None \<Longrightarrow> now < now + seconds_us secs"
  using lease_positive by (auto simp: validate_execution_request_def)

lemma intent_settlement_effects:
  shows "claim_for_recovery sq db now db_now i w secs = Inr (x, db') \<Longrightarrow> db' = db \<or> intent_writes sq db (Some w, now) db'"
    and "renew_execution sq db now db_now i w secs = Inr (c, db') \<Longrightarrow> db' = db \<or> intent_writes sq db (Some w, now) db'"
    and "complete_operation sq frepr db now later db_now i outcome owner_id = Inr (c, db') \<Longrightarrow> db' = db \<or> intent_writes sq db (owner_id, now) db'"
    and "fail_operation sq db now later db_now i error unsure owner_id = Inr (c, db') \<Longrightarrow> db' = db \<or> intent_writes sq db (owner_id, now) db'"
proof -
  note locked = locked_intent_def ebind_Inr
  show "db' = db \<or> intent_writes sq db (Some w, now) db'" if m: "claim_for_recovery sq db now db_now i w secs = Inr (x, db')"
  proof (cases "db' = db")
    case False
    with m obtain r current y where r: "row_at ir_id i (xd_intents db) = Some r" "intent_from_record sq r = Inr current"
        "oi_status current \<in> {Op_PENDING, Op_NEEDS_RECONCILIATION}" "\<not> owns_execution r (ir_execution_owner r) now"
        "flush_intent sq db db_now (claimed_intent w (now + seconds_us secs) now r) = Inr (y, db')"
        and v: "validate_execution_request (Some w) (Some secs) = None"
      by (auto simp: claim_for_recovery_def locked split: option.splits if_splits)
    have "intent_open r" using r(2,3)
      by (auto simp: intent_open_def intent_from_record_def intent_shape_def operation_intent_make_def operation_statuses_def
          split: option.splits if_splits pyval.splits sum.splits)
    with r(4) execution_lease_positive [OF v] have "intent_change (Some w, now) r ((claimed_intent w (now + seconds_us secs) now r)\<lparr> ir_updated_at := db_now \<rparr>)"
      by (intro taken)
    from flush_intent_writes [OF r(5,1) this] show ?thesis ..
  qed simp
  show "db' = db \<or> intent_writes sq db (Some w, now) db'" if m: "renew_execution sq db now db_now i w secs = Inr (c, db')"
  proof -
    from m obtain r where r: "row_at ir_id i (xd_intents db) = Some r" "owns_execution r (Some w) now"
        "flush_intent sq db db_now (r\<lparr> ir_execution_lease_expires_at := Some (now + seconds_us secs) \<rparr>) = Inr (c, db')"
        and v: "validate_execution_request (Some w) (Some secs) = None"
      by (auto simp: renew_execution_def locked split: option.splits)
    from extended [OF r(2) execution_lease_positive [OF v]]
    have "intent_change (Some w, now) r (r\<lparr> ir_execution_lease_expires_at := Some (now + seconds_us secs) \<rparr>\<lparr> ir_updated_at := db_now \<rparr>)" .
    from flush_intent_writes [OF r(3,1) this] show ?thesis ..
  qed
  show "db' = db \<or> intent_writes sq db (owner_id, now) db'" if m: "complete_operation sq frepr db now later db_now i outcome owner_id = Inr (c, db')"
  proof (cases "db' = db")
    case False
    with m obtain r where r: "row_at ir_id i (xd_intents db) = Some r" "owns_execution r owner_id now"
        "flush_intent sq db db_now (succeeded_intent later outcome r) = Inr (c, db')"
      by (auto simp: complete_operation_def locked split: option.splits if_splits)
    from flush_intent_writes [OF r(3,1) succeeded [OF r(2)]] show ?thesis ..
  qed simp
  show "db' = db \<or> intent_writes sq db (owner_id, now) db'" if m: "fail_operation sq db now later db_now i error unsure owner_id = Inr (c, db')"
  proof (cases "db' = db")
    case False
    with m obtain r where r: "row_at ir_id i (xd_intents db) = Some r" "owns_execution r owner_id now"
        "flush_intent sq db db_now (failed_intent later (bounded_error error) unsure r) = Inr (c, db')"
      by (auto simp: fail_operation_def Let_def locked split: option.splits if_splits)
    from flush_intent_writes [OF r(3,1) failed [OF r(2)]] show ?thesis ..
  qed simp
qed

text \<open>Beginning either finds the intent of its key or appends one event and inserts a fresh intent.\<close>

lemma event_append_type: "event_append ctx st e = Inr st' \<Longrightarrow> \<exists>stored. st' = st\<lparr> st_events := st_events st @ [stored] \<rparr> \<and>
    ev_run_id stored = ev_run_id e \<and> ev_sequence stored = Some (next_sequence st (ev_run_id e)) \<and> ev_event_type stored = ev_event_type e"
  by (auto simp: event_append_def Let_def run_event_make_def split: if_splits sum.splits)

lemma begin_core_effect:
  assumes "begin_core sq frepr ctx db now db_now event_id candidate = Inr ((new, i), db')"
  shows "if new then intent_inserts sq db db' else db' = db"
proof (cases "row_at ir_idempotency_key (oi_idempotency_key candidate) (xd_intents db)")
  case None
  let ?r = "inserted_intent db_now candidate"
  let ?st = "xd_store db"
  from None assms obtain run event st where b: "get_for_update ?st (oi_run_id candidate) = Inr run"
      "ir_id ?r \<notin> set (map ir_id (xd_intents db))" "intent_row_ok ?r"
      "run_event_make (intent_created_event event_id now (rs_version run) candidate) = Inr event"
      "event_append ctx ?st event = Inr st" "intent_from_record sq ?r = Inr i" "new"
      "db' = db\<lparr> xd_store := st, xd_intents := xd_intents db @ [?r] \<rparr>"
    by (auto simp: begin_core_def Let_def ebind_Inr split: if_splits sum.splits)
  have ev: "ev_run_id event = oi_run_id candidate" "intent_created event"
    using b(4) by (auto simp: run_event_make_def intent_created_event_def causal_event_def intent_created_def split: if_splits)
  from event_append_type [OF b(5)] ev obtain e where e: "st = ?st\<lparr> st_events := st_events ?st @ [e] \<rparr>"
      "ev_run_id e = oi_run_id candidate" "ev_sequence e = Some (next_sequence ?st (oi_run_id candidate))" "intent_created e"
    by (auto simp: intent_created_def)
  have r: "ir_run_id ?r = oi_run_id candidate" "ir_idempotency_key ?r \<notin> set (map ir_idempotency_key (xd_intents db))"
    using None by (auto simp: inserted_intent_def row_at_None)
  have run: "st_runs ?st (oi_run_id candidate) \<noteq> None" using b(1) by (auto simp: get_for_update_def split: option.splits)
  have "intent_inserts sq db db'" unfolding intent_inserts_def
    by (rule exI [of _ ?r], rule exI [of _ i], rule exI [of _ e]) (use b e r run in simp)
  with b(7) show ?thesis by simp
next
  case (Some x)
  then show ?thesis using assms by (auto simp: begin_core_def Let_def ebind_Inr)
qed

lemma begin_effect:
  assumes "begin_operation sq frepr ctx db now db_now new_id event_id q = Inr ((new, i), db')"
  shows "if new then intent_inserts sq db db' else db' = db"
proof -
  from assms obtain candidate where "begin_core sq frepr ctx db now db_now event_id candidate = Inr ((new, i), db')"
    by (auto simp: begin_operation_def ebind_Inr split: if_splits option.splits sum.splits)
  then show ?thesis by (rule begin_core_effect)
qed

lemma operation_step_effect:
  assumes "operation_step sq frepr l db db'"
  shows "db' = db \<or> intent_writes sq db l db' \<or> intent_inserts sq db db'"
  using assms
proof cases
  case (step_begin ctx now db_now new_id event_id q x)
  obtain new i where x: "x = (new, i)" by (cases x)
  from begin_effect [OF step_begin(2) [unfolded x]] show ?thesis by (cases new) simp_all
qed (blast dest: intent_settlement_effects)+

section \<open>The execution store\<close>

text \<open>The repositories over one database: runs and their events, commands, operations; the last step stands for
  writers of the other tables.\<close>

inductive exec_step :: "bool \<Rightarrow> (rat \<Rightarrow> string) \<Rightarrow> lease_label \<Rightarrow> exec_db \<Rightarrow> exec_db \<Rightarrow> bool" for sq frepr where
  exec_run: "store_step (xd_store db) st \<Longrightarrow> exec_step sq frepr (None, now) db (db\<lparr> xd_store := st \<rparr>)"
| exec_command: "command_step sq frepr l db db' \<Longrightarrow> exec_step sq frepr l db db'"
| exec_operation: "operation_step sq frepr l db db' \<Longrightarrow> exec_step sq frepr l db db'"
| exec_other: "xd_store db' = xd_store db \<Longrightarrow> xd_commands db' = xd_commands db \<Longrightarrow> xd_intents db' = xd_intents db \<Longrightarrow>
     exec_step sq frepr (None, now) db db'"

definition intent_inv :: "bool \<Rightarrow> exec_db \<Rightarrow> bool" where
  "intent_inv sq db \<longleftrightarrow> distinct (map ir_id (xd_intents db)) \<and> distinct (map ir_idempotency_key (xd_intents db)) \<and>
     (\<forall>r \<in> set (xd_intents db). intent_row_ok r \<and> (\<exists>i. intent_from_record sq r = Inr i) \<and> st_runs (xd_store db) (ir_run_id r) \<noteq> None)"

definition numbered :: "run_store \<Rightarrow> uuid \<Rightarrow> bool" where
  "numbered st run_id \<longleftrightarrow> map event_sequence (run_events st run_id) = [1..int (length (run_events st run_id))]"

definition runs_sound :: "run_store \<Rightarrow> bool" where
  "runs_sound st \<longleftrightarrow> (\<forall>i. numbered st i \<and> (st_runs st i = None \<longrightarrow> run_events st i = []) \<and>
     (\<forall>row. st_runs st i = Some row \<longrightarrow> rw_id row = i \<and> store_accepts st row \<and> (\<exists>r. snapshot_from_record row = Inr r)))"

definition recorded :: "exec_db \<Rightarrow> uuid \<Rightarrow> bool" where
  "recorded db run_id \<longleftrightarrow> length (filter (\<lambda>r. ir_run_id r = run_id) (xd_intents db)) \<le>
     length (filter intent_created (run_events (xd_store db) run_id))"

definition exec_inv :: "bool \<Rightarrow> exec_db \<Rightarrow> bool" where
  "exec_inv sq db \<longleftrightarrow> command_inv sq db \<and> intent_inv sq db \<and> runs_sound (xd_store db) \<and> (\<forall>i. recorded db i)"

text \<open>An event that is appended under the next sequence number.\<close>

definition appends :: "run_store \<Rightarrow> run_event \<Rightarrow> run_store \<Rightarrow> bool" where
  "appends st e st' \<longleftrightarrow> st_events st' = st_events st @ [e] \<and> ev_sequence e = Some (next_sequence st (ev_run_id e))"

lemma next_sequence_numbered:
  assumes "numbered st run_id"
  shows "next_sequence st run_id = int (length (run_events st run_id)) + 1"
proof -
  have "foldr max [1..int n] 0 = int n" for n
  proof (induction n)
    case (Suc n)
    have "foldr max xs (int n + 1) = max (int n + 1) (foldr max xs 0)" for xs by (induction xs) auto
    with Suc show ?case by (simp add: upto_rec2 ac_simps)
  qed simp
  then show ?thesis using assms by (simp add: numbered_def next_sequence_def)
qed

lemma appends_numbered:
  assumes "appends st e st'" and "numbered st run_id"
  shows "numbered st' run_id"
proof (cases "ev_run_id e = run_id")
  case True
  let ?n = "int (length (run_events st run_id))"
  from True assms(1) have "run_events st' run_id = run_events st run_id @ [e]" by (simp add: appends_def run_events_def)
  moreover have "event_sequence e = ?n + 1"
    using True assms(1) next_sequence_numbered [OF assms(2)] by (simp add: appends_def event_sequence_def)
  moreover have "[1..?n + 1] = [1..?n] @ [?n + 1]" by (simp add: upto_rec2)
  ultimately show ?thesis using assms(2) by (simp add: numbered_def ac_simps)
next
  case False
  with assms show ?thesis by (simp add: numbered_def appends_def run_events_def)
qed

lemma store_step_frame:
  assumes "store_step st st'"
  obtains (event) i row row' e r where "st_runs st i = Some row" "st_runs st' = (st_runs st)(i \<mapsto> row')" "rw_id row' = rw_id row"
      "store_accepts st row'" "snapshot_from_record row' = Inr r" "appends st e st'" "ev_run_id e = i"
      "st_projects st' = st_projects st" "st_tasks st' = st_tasks st"
  | (silent) i row' r where "st_runs st' = (st_runs st)(i \<mapsto> row')" "rw_id row' = (case st_runs st i of None \<Rightarrow> i | Some row \<Rightarrow> rw_id row)"
      "store_accepts st row'" "snapshot_from_record row' = Inr r" "st_events st' = st_events st"
      "st_projects st' = st_projects st" "st_tasks st' = st_tasks st"
  using assms
proof cases
  case (step_op ctx run_id v args op r)
  from changes_result [OF repo_apply_changes [OF step_op]] obtain row row' q e where c: "st_runs st run_id = Some row"
      "st_runs st' = (st_runs st)(run_id \<mapsto> row')" "store_accepts st row'" "snapshot_from_record row' = Inr r" "rw_id row' = rw_id row"
      "st_events st' = st_events st @ [e]" "ev_run_id e = run_id" "ev_sequence e = Some (next_sequence st run_id)"
      "st_projects st' = st_projects st" "st_tasks st' = st_tasks st" by metis
  show thesis by (rule event [OF c(1,2,5,3,4) _ c(7,9,10)]) (use c in \<open>simp add: appends_def\<close>)
next
  case (step_workflow run_id v w r)
  then obtain row where "st_runs st run_id = Some row" "store_accepts st (row\<lparr> rw_workflow := workflow_column w \<rparr>)"
      "snapshot_from_record (row\<lparr> rw_workflow := workflow_column w \<rparr>) = Inr r"
      "st' = st\<lparr> st_runs := (st_runs st)(run_id \<mapsto> row\<lparr> rw_workflow := workflow_column w \<rparr>) \<rparr>"
    by (auto simp: update_workflow_def Let_def ebind_Inr split: option.splits if_splits)
  then show thesis by (intro silent [of run_id "row\<lparr> rw_workflow := workflow_column w \<rparr>" r]) auto
next
  case (step_create r)
  then obtain p where c: "validate_new_snapshot r = None" "st_runs st (rs_id r) = None" "store_accepts st (new_row r p)"
      "st' = st\<lparr> st_runs := (st_runs st)(rs_id r \<mapsto> new_row r p) \<rparr>"
    by (auto simp: create_def Let_def split: option.splits)
  have "\<exists>q. snapshot_from_record (new_row r p) = Inr q" using snapshot_roundtrip new_row_apply [OF c(1)] by metis
  with c show thesis by (auto simp: new_row_def intro: silent [of "rs_id r" "new_row r p"])
qed

lemma runs_sound_step:
  assumes "store_step st st'" and "runs_sound st"
  shows "runs_sound st' \<and> (\<forall>i. st_runs st i \<noteq> None \<longrightarrow> st_runs st' i \<noteq> None) \<and>
     (\<forall>i. length (filter intent_created (run_events st i)) \<le> length (filter intent_created (run_events st' i)))"
proof -
  have acc: "store_accepts st' row = store_accepts st row" if "st_projects st' = st_projects st" "st_tasks st' = st_tasks st" for row
    using that by (simp add: store_accepts_def)
  from assms(1) show ?thesis
  proof (cases rule: store_step_frame)
    case (event i row row' e r)
    have "numbered st' j" for j using appends_numbered [OF event(6)] assms(2) by (simp add: runs_sound_def)
    then show ?thesis using assms(2) event
      by (auto simp: runs_sound_def acc appends_def run_events_def)
  next
    case (silent i row' r)
    have "run_events st' j = run_events st j" for j using silent(5) by (simp add: run_events_def)
    then show ?thesis using assms(2) silent
      by (auto simp: runs_sound_def acc numbered_def split: option.splits)
  qed
qed

lemma intent_inv_environment:
  assumes "intent_inv sq db" and "xd_intents db' = xd_intents db"
    and "\<And>i. st_runs (xd_store db) i \<noteq> None \<Longrightarrow> st_runs (xd_store db') i \<noteq> None"
  shows "intent_inv sq db'"
  using assms(1,3) unfolding intent_inv_def assms(2) by blast

lemma exec_inv_writes:
  assumes "intent_writes sq db l db'" and "exec_inv sq db"
  shows "exec_inv sq db'"
proof -
  from assms(1) obtain r r' c where w: "row_at ir_id (ir_id r) (xd_intents db) = Some r" "intent_change l r r'" "intent_row_ok r'"
      "intent_from_record sq r' = Inr c" "db' = db\<lparr> xd_intents := put_row ir_id r' (xd_intents db) \<rparr>"
    by (auto simp: intent_writes_def)
  note k = intent_change_keeps [OF w(2)] and r = row_at_Some [OF w(1)]
  have inv: "command_inv sq db" "intent_inv sq db" "runs_sound (xd_store db)" "\<And>i. recorded db i" using assms(2) by (auto simp: exec_inv_def)
  have same: "x = r" if "x \<in> set (xd_intents db)" "ir_id x = ir_id r'" for x
    using inv(2) that r k by (auto simp: intent_inv_def distinct_map inj_on_def)
  have m: "map f (put_row ir_id r' (xd_intents db)) = map f (xd_intents db)" if "f r' = f r" for f :: "intent_row \<Rightarrow> 'z"
    by (rule map_put_row) (use same that in auto)
  have "intent_inv sq db'" using inv(2) w k r by (auto simp: intent_inv_def m dest!: in_put_row)
  moreover have "recorded db' i" for i
  proof -
    have "filter (\<lambda>x. x = i) (map ir_run_id (put_row ir_id r' (xd_intents db))) = filter (\<lambda>x. x = i) (map ir_run_id (xd_intents db))"
      by (simp add: m k)
    then have "length (filter (\<lambda>x. ir_run_id x = i) (put_row ir_id r' (xd_intents db))) = length (filter (\<lambda>x. ir_run_id x = i) (xd_intents db))"
      unfolding filter_map comp_def by (metis length_map)
    then show ?thesis using inv(4) [of i] w(5) by (simp add: recorded_def)
  qed
  moreover have "command_inv sq db'" by (rule command_inv_environment [OF inv(1)]) (simp_all add: w(5))
  ultimately show ?thesis using inv(3) w(5) by (simp add: exec_inv_def)
qed

lemma exec_inv_inserts:
  assumes "intent_inserts sq db db'" and "exec_inv sq db"
  shows "exec_inv sq db'"
proof -
  from assms(1) obtain r c e where w: "ir_id r \<notin> set (map ir_id (xd_intents db))"
      "ir_idempotency_key r \<notin> set (map ir_idempotency_key (xd_intents db))" "st_runs (xd_store db) (ir_run_id r) \<noteq> None"
      "intent_row_ok r" "intent_from_record sq r = Inr c" "intent_created e" "ev_run_id e = ir_run_id r"
      "ev_sequence e = Some (next_sequence (xd_store db) (ir_run_id r))"
      "db' = db\<lparr> xd_store := (xd_store db)\<lparr> st_events := st_events (xd_store db) @ [e] \<rparr>, xd_intents := xd_intents db @ [r] \<rparr>"
    unfolding intent_inserts_def by blast
  have inv: "command_inv sq db" "intent_inv sq db" "runs_sound (xd_store db)" "\<And>i. recorded db i" using assms(2) by (auto simp: exec_inv_def)
  have runs: "st_runs (xd_store db') = st_runs (xd_store db)" using w(9) by simp
  have ev: "run_events (xd_store db') i = run_events (xd_store db) i @ (if i = ir_run_id r then [e] else [])" for i
    using w(7,9) by (simp add: run_events_def)
  have ap: "appends (xd_store db) e (xd_store db')" using w(7,8,9) by (simp add: appends_def)
  have "numbered (xd_store db') i" for i using appends_numbered [OF ap] inv(3) by (simp add: runs_sound_def)
  moreover have "store_accepts (xd_store db') row = store_accepts (xd_store db) row" for row using w(9) by (simp add: store_accepts_def)
  ultimately have "runs_sound (xd_store db')" using inv(3) w(3) unfolding runs_sound_def runs ev by auto
  moreover have "recorded db' i" for i
    using inv(4) [of i] w(6,9) ev [of i] by (auto simp: recorded_def)
  moreover have "command_inv sq db'" by (rule command_inv_environment [OF inv(1)]) (simp_all add: w(9))
  moreover have "intent_inv sq db'" using inv(2) w by (auto simp: intent_inv_def)
  ultimately show ?thesis by (simp add: exec_inv_def)
qed

lemma exec_inv_frame:
  assumes "exec_inv sq db" and "xd_store db' = xd_store db" and "xd_intents db' = xd_intents db" and "command_inv sq db'"
  shows "exec_inv sq db'"
  using assms intent_inv_environment [of sq db db'] by (simp add: exec_inv_def recorded_def)

lemma exec_inv_step:
  assumes "exec_step sq frepr l db db'" and "exec_inv sq db"
  shows "exec_inv sq db'"
  using assms(1)
proof cases
  case (exec_run st now)
  have inv: "command_inv sq db" "intent_inv sq db" "runs_sound (xd_store db)" "\<And>i. recorded db i" using assms(2) by (auto simp: exec_inv_def)
  note s = runs_sound_step [OF exec_run(3) inv(3)]
  have "command_inv sq db'" "intent_inv sq db'"
    using command_inv_environment [OF inv(1), of db'] intent_inv_environment [OF inv(2), of db'] s exec_run(2) by auto
  moreover have "recorded db' i" for i using inv(4) [of i] s exec_run(2) by (auto simp: recorded_def intro: order_trans)
  ultimately show ?thesis using s exec_run(2) by (simp add: exec_inv_def)
next
  case exec_command
  have c: "command_inv sq db" using assms(2) by (simp add: exec_inv_def)
  then have "db' = db\<lparr> xd_commands := xd_commands db' \<rparr>" using step_commands_only [OF exec_command] by (simp add: command_inv_def)
  then have "xd_store db' = xd_store db" "xd_intents db' = xd_intents db" by (metis exec_db.ext_inject exec_db.surjective exec_db.update_convs(2))+
  then show ?thesis using exec_inv_frame [OF assms(2) _ _ command_inv_step [OF exec_command c]] by simp
next
  case exec_operation
  then show ?thesis using operation_step_effect exec_inv_writes exec_inv_inserts assms(2) by blast
next
  case (exec_other now)
  have "command_inv sq db'" by (rule command_inv_environment [of sq db]) (use assms(2) exec_other in \<open>simp_all add: exec_inv_def\<close>)
  with exec_other show ?thesis using exec_inv_frame [OF assms(2)] by simp
qed

interpretation execution: invariant_machine
  "\<lambda>db. st_runs (xd_store db) = Map.empty \<and> st_events (xd_store db) = [] \<and> xd_commands db = [] \<and> xd_intents db = []"
  "\<lambda>db db'. \<exists>l. exec_step sq frepr l db db'" "exec_inv sq" for sq frepr
proof
  show "exec_inv sq db" if "st_runs (xd_store db) = Map.empty \<and> st_events (xd_store db) = [] \<and> xd_commands db = [] \<and> xd_intents db = []" for db
    using that by (simp add: exec_inv_def command_inv_def intent_inv_def runs_sound_def numbered_def recorded_def run_events_def)
qed (blast intro: exec_inv_step)

section \<open>Execution leases\<close>

definition intent_at :: "exec_db \<Rightarrow> uuid \<Rightarrow> intent_row option" where
  "intent_at db i = row_at ir_id i (xd_intents db)"

definition intent_holder :: "intent_row \<Rightarrow> (string \<times> int) option" where
  "intent_holder r = (case (ir_execution_owner r, ir_execution_lease_expires_at r) of (Some w, Some e) \<Rightarrow> Some (w, e) | _ \<Rightarrow> None)"

definition log_step :: "bool \<Rightarrow> (rat \<Rightarrow> string) \<Rightarrow> lease_label \<Rightarrow> exec_db \<Rightarrow> exec_db \<Rightarrow> bool" where
  "log_step sq frepr l db db' \<longleftrightarrow> exec_inv sq db \<and> exec_step sq frepr l db db'"

lemma log_step_row:
  assumes "log_step sq frepr l db db'" and "intent_at db i = Some r"
  shows "intent_at db' i = Some r \<or> (\<exists>r'. intent_at db' i = Some r' \<and> intent_change l r r')"
proof -
  have inv: "command_inv sq db" and st: "exec_step sq frepr l db db'" using assms(1) by (auto simp: log_step_def exec_inv_def)
  have same: "intent_at db' i = Some r" if "xd_intents db' = xd_intents db" using that assms(2) by (simp add: intent_at_def)
  from st show ?thesis
  proof cases
    case exec_command
    then have "db' = db\<lparr> xd_commands := xd_commands db' \<rparr>" using step_commands_only inv by (simp add: command_inv_def)
    then have "xd_intents db' = xd_intents db" by (metis exec_db.ext_inject exec_db.surjective exec_db.update_convs(2))
    then show ?thesis using same by simp
  next
    case exec_operation
    from operation_step_effect [OF this] consider "db' = db" | "intent_writes sq db l db'" | "intent_inserts sq db db'" by blast
    then show ?thesis
    proof cases
      case 2
      then obtain q q' where q: "intent_at db (ir_id q) = Some q" "intent_change l q q'"
          "db' = db\<lparr> xd_intents := put_row ir_id q' (xd_intents db) \<rparr>" by (auto simp: intent_writes_def intent_at_def)
      have "intent_at db' i = (if i = ir_id q \<and> i \<in> ir_id ` set (xd_intents db) then Some q' else intent_at db i)"
        using q(3) intent_change_keeps [OF q(2)] by (auto simp: intent_at_def row_at_put)
      then show ?thesis using assms(2) q(1,2) by (auto split: if_splits)
    next
      case 3
      then show ?thesis using assms(2) by (auto simp: intent_inserts_def intent_at_def row_at_append)
    qed (simp add: assms(2))
  qed (use same in auto)
qed

interpretation intent_leases: leased_rows intent_at intent_holder "log_step sq frepr" for sq frepr
proof
  fix a now s t k r w e
  assume st: "log_step sq frepr (a, now) s t" and r: "intent_at s k = Some r" and h: "intent_holder r = Some (w, e)" "now < e" and a: "a \<noteq> Some w"
  from h have l: "ir_execution_owner r = Some w" "ir_execution_lease_expires_at r = Some e"
    by (auto simp: intent_holder_def split: option.splits)
  have "\<not> intent_change (a, now) r r'" for r'
    using l h(2) a by (auto elim!: intent_change.cases simp: owns_execution_def)
  with log_step_row [OF st r] show "intent_at t k = Some r" by blast
qed

lemma intent_attempt: "intent_change l r r' \<Longrightarrow> ir_attempt_count r < ir_attempt_count r' \<or>
    ir_attempt_count r = ir_attempt_count r' \<and> ir_execution_owner r' \<in> {None, ir_execution_owner r}"
  by (induction rule: intent_change.induct) (simp_all add: claimed_intent_def succeeded_intent_def failed_intent_def started_def)

interpretation intent_deliveries: delivered_rows intent_at ir_execution_owner ir_attempt_count "log_step sq frepr" for sq frepr
  by unfold_locales (use log_step_row intent_attempt in blast)

lemma intent_ok_open: "intent_row_ok r \<Longrightarrow> ir_execution_owner r \<noteq> None \<Longrightarrow> intent_open r"
  by (auto simp: intent_row_ok_def intent_checks_def execution_lease_shape_def intent_open_def sql_or_def sql_and_def sql_in_def
    is_null_def not_null_def split: if_splits)

lemma change_open: "intent_change l r r' \<Longrightarrow> intent_row_ok r \<Longrightarrow> intent_open r"
  by (induction rule: intent_change.induct) (auto intro!: intent_ok_open simp: owns_execution_def)

lemma exec_path_log:
  assumes "path (exec_step sq frepr) ls db db'" and "exec_inv sq db"
  shows "path (log_step sq frepr) ls db db' \<and> exec_inv sq db'"
  using assms
proof (induction ls arbitrary: db)
  case (Cons l ls)
  then obtain u where "exec_step sq frepr l db u" "path (exec_step sq frepr) ls u db'" by auto
  moreover from this(1) Cons.prems(2) have "exec_inv sq u" by (rule exec_inv_step)
  ultimately show ?case using Cons.IH Cons.prems(2) by (auto simp: log_step_def)
qed simp

text \<open>The columns of an intent that never change.\<close>

definition intent_identity where
  "intent_identity r = (ir_id r, ir_idempotency_key r, ir_run_id r, ir_operation_kind r, ir_request_digest r,
     ir_request_schema_version r, ir_request_payload r)"

lemma log_path_row:
  assumes "path (log_step sq frepr) ls db db'" and "intent_at db i = Some r"
  shows "\<exists>r'. intent_at db' i = Some r' \<and> intent_identity r' = intent_identity r \<and> (\<not> intent_open r \<longrightarrow> r' = r)"
  using assms
proof (induction ls arbitrary: db r)
  case (Cons l ls)
  then obtain u where u: "log_step sq frepr l db u" "path (log_step sq frepr) ls u db'" by auto
  have ok: "intent_row_ok r"
    using u(1) row_at_Some [OF Cons.prems(2) [unfolded intent_at_def]] by (auto simp: log_step_def exec_inv_def intent_inv_def)
  obtain q where q: "intent_at u i = Some q" "intent_identity q = intent_identity r" "\<not> intent_open r \<longrightarrow> q = r"
    using log_step_row [OF u(1) Cons.prems(2)] intent_change_keeps change_open ok by (fastforce simp: intent_identity_def)
  from Cons.IH [OF u(2) q(1)] q show ?case by auto
qed auto

section \<open>Properties\<close>

text \<open>C3. The execution store is consistent after any interleaving of run changes, command calls and operation calls:
  every run row satisfies its constraints and decodes, the events of a run are numbered from one without
  a gap although two repositories append them, every command and every intent satisfies its
  constraints, decodes and belongs to a run, identifiers and idempotency keys are unique, and a run has
  at least one creation event for each of its intents.\<close>

theorem execution_store_consistent:
  assumes "(\<lambda>db db'. \<exists>l. exec_step sq frepr l db db')\<^sup>*\<^sup>* db0 db" and "st_runs (xd_store db0) = Map.empty" and "st_events (xd_store db0) = []"
    and "xd_commands db0 = []" and "xd_intents db0 = []"
  shows "map event_sequence (run_events (xd_store db) i) = [1..int (length (run_events (xd_store db) i))] \<and>
     (\<forall>row. st_runs (xd_store db) i = Some row \<longrightarrow> row_ok row \<and> (\<exists>r. snapshot_from_record row = Inr r \<and> run_inv r)) \<and>
     distinct (map cr_id (xd_commands db)) \<and> distinct (map cr_idempotency_key (xd_commands db)) \<and>
     (\<forall>r \<in> set (xd_commands db). command_row_ok r \<and> (\<exists>c. command_from_record sq r = Inr c) \<and> st_runs (xd_store db) (cr_run_id r) \<noteq> None) \<and>
     distinct (map ir_id (xd_intents db)) \<and> distinct (map ir_idempotency_key (xd_intents db)) \<and>
     (\<forall>r \<in> set (xd_intents db). intent_row_ok r \<and> (\<exists>x. intent_from_record sq r = Inr x) \<and> st_runs (xd_store db) (ir_run_id r) \<noteq> None) \<and>
     length (filter (\<lambda>r. ir_run_id r = i) (xd_intents db)) \<le> length (filter intent_created (run_events (xd_store db) i))"
proof -
  from execution.run_inv_from_init [of db0 sq frepr db] assms have inv: "exec_inv sq db" by simp
  then have "numbered (xd_store db) i" "recorded db i" and r: "\<And>row. st_runs (xd_store db) i = Some row \<Longrightarrow>
      store_accepts (xd_store db) row \<and> (\<exists>r. snapshot_from_record row = Inr r)" by (auto simp: exec_inv_def runs_sound_def)
  moreover have "row_ok row \<and> (\<exists>r. snapshot_from_record row = Inr r \<and> run_inv r)" if "st_runs (xd_store db) i = Some row" for row
    using r [OF that] decoded_storable(1) by (auto simp: store_accepts_def storable_def)
  ultimately show ?thesis using inv by (simp add: exec_inv_def command_inv_def intent_inv_def numbered_def recorded_def)
qed

text \<open>The outcome of an operation is final: once an intent has succeeded or failed, no later step of any
  repository, by any owner and at any time, changes any column of it, and an open intent keeps its
  identity and its request.\<close>

theorem operation_outcome_final:
  assumes "path (exec_step sq frepr) ls db db'" and "exec_inv sq db" and "intent_at db i = Some r"
  shows "\<exists>r'. intent_at db' i = Some r' \<and> (ir_status r \<in> {''SUCCEEDED'', ''FAILED''} \<longrightarrow> r' = r) \<and>
     intent_identity r' = intent_identity r"
proof -
  from exec_path_log [OF assms(1,2)] have "path (log_step sq frepr) ls db db'" ..
  from log_path_row [OF this assms(3)] show ?thesis by (auto simp: intent_open_def)
qed

text \<open>An execution lease fences its intent: while callers that name another owner, or none, act at times
  before its expiry, no step of any repository changes the row.\<close>

theorem execution_lease_fences_intent:
  assumes "path (exec_step sq frepr) ls db db'" and "exec_inv sq db" and "intent_at db i = Some r" and "intent_holder r = Some (w, e)"
    and "\<forall>(a, now) \<in> set ls. a \<noteq> Some w \<and> now < e"
  shows "intent_at db' i = Some r"
  using intent_leases.lease_protects exec_path_log [OF assms(1,2)] assms(3-5) by blast

section \<open>Beginning once\<close>

lemma freeze_thaw_dict [simp]: "freeze_dict (thaw_dict p) = freeze_dict p"
proof -
  have "PDict (thaw_dict p) = thaw_payload (PDict p)" by (simp add: thaw_dict_def)
  then show ?thesis using freeze_thaw [of "PDict p"] by (metis freeze_dict_PDict pyval.inject(7))
qed

lemma begin_candidate_valid:
  assumes "operation_request_make sq q0 = Inr request" and "validate_execution_request (bo_execution_owner q) (bo_execution_lease_seconds q) = None"
  shows "operation_intent_validate sq (intent_candidate new_id now q request) = None"
proof -
  have r: "operation_request_validate sq request = None"
    using assms(1) by (auto simp: operation_request_make_def operation_request_validate_def)
  have "intent_request (intent_candidate new_id now q request) = request" by (simp add: intent_request_def intent_candidate_def)
  with r assms(2) show ?thesis
    by (auto simp: operation_intent_validate_def intent_candidate_def intent_lease_guards_def intent_outcome_guards_def
        intent_time_guards_def intent_status_guards_def validate_durable_error_def validate_execution_request_def aware_def
        split: option.splits)
qed

lemma canonical_freeze: "canonical_payload sq frepr (freeze_dict p) = canonical_payload sq frepr p"
  unfolding canonical_payload_def freeze_dict_PDict by (simp add: validate_freeze del: thaw_payload.simps freeze.simps)

text \<open>A request whose checks pass, and the stored intents it is a repetition of.\<close>

definition begin_ready :: "bool \<Rightarrow> begin_request \<Rightarrow> operation_request \<Rightarrow> bool" where
  "begin_ready sq q request \<longleftrightarrow> (\<exists>kind. resolved_kind q = Some kind \<and> operation_request_make sq \<lparr> or_run_id = bo_run_id q, or_kind = kind,
     or_idempotency_key = bo_idempotency_key q, or_request_digest = bo_request_digest q, or_request_payload = bo_request_payload q,
     or_request_schema_version = bo_request_schema_version q \<rparr> = Inr request) \<and>
     validate_execution_request (bo_execution_owner q) (bo_execution_lease_seconds q) = None"

definition same_operation :: "bool \<Rightarrow> (rat \<Rightarrow> string) \<Rightarrow> begin_request \<Rightarrow> intent_row \<Rightarrow> bool" where
  "same_operation sq frepr q r \<longleftrightarrow> ir_run_id r = bo_run_id q \<and> resolved_kind q = Some (ir_operation_kind r) \<and>
     ir_request_digest r = bo_request_digest q \<and> ir_request_schema_version r = bo_request_schema_version q \<and>
     (\<exists>p. ir_request_payload r = PDict p \<and> canonical_payload sq frepr p = canonical_payload sq frepr (bo_request_payload q))"

lemma begin_ready_request: "begin_ready sq q request \<Longrightarrow> resolved_kind q = Some (or_kind request) \<and> or_run_id request = bo_run_id q \<and>
    or_idempotency_key request = bo_idempotency_key q \<and> or_request_digest request = bo_request_digest q \<and>
    or_request_payload request = freeze_dict (bo_request_payload q) \<and> or_request_schema_version request = bo_request_schema_version q"
  by (auto simp: begin_ready_def operation_request_make_def)

lemma begin_operation_ready: "begin_operation sq frepr ctx db now db_now new_id event_id q = Inr x \<Longrightarrow> \<exists>request. begin_ready sq q request"
  by (auto simp: begin_operation_def begin_ready_def split: if_splits option.splits sum.splits)

lemma begin_operation_core:
  assumes "begin_ready sq q request" and "bo_operation_id q = None"
  obtains candidate where "candidate = intent_candidate new_id now q request"
    "begin_operation sq frepr ctx db now db_now new_id event_id q = begin_core sq frepr ctx db now db_now event_id candidate"
proof (rule that [OF refl])
  from assms obtain kind where k: "resolved_kind q = Some kind" "operation_request_make sq \<lparr> or_run_id = bo_run_id q, or_kind = kind,
     or_idempotency_key = bo_idempotency_key q, or_request_digest = bo_request_digest q, or_request_payload = bo_request_payload q,
     or_request_schema_version = bo_request_schema_version q \<rparr> = Inr request"
     and v: "validate_execution_request (bo_execution_owner q) (bo_execution_lease_seconds q) = None" by (auto simp: begin_ready_def)
  let ?c = "intent_candidate new_id now q request"
  have "?c\<lparr> oi_request_payload := freeze_dict (oi_request_payload ?c), oi_outcome := map_option freeze_dict (oi_outcome ?c) \<rparr> = ?c"
    using begin_ready_request [OF assms(1)] by (simp add: intent_candidate_def)
  then have "operation_intent_make sq ?c = Inr ?c"
    using begin_candidate_valid [OF k(2) v, of new_id now] by (simp add: operation_intent_make_def)
  then show "begin_operation sq frepr ctx db now db_now new_id event_id q = begin_core sq frepr ctx db now db_now event_id ?c"
    by (cases "begin_core sq frepr ctx db now db_now event_id ?c")
      (auto simp: begin_operation_def assms(2) k v ebind_def split: prod.splits)
qed

lemma intent_from_record_Inr: "intent_from_record sq r = Inr i \<Longrightarrow> \<exists>p. ir_request_payload r = PDict p \<and> oi_request_payload i = freeze_dict p \<and>
    oi_id i = ir_id r \<and> oi_run_id i = ir_run_id r \<and> oi_kind i = ir_operation_kind r \<and> oi_request_digest i = ir_request_digest r \<and>
    oi_request_schema_version i = ir_request_schema_version r"
  by (auto simp: intent_from_record_def intent_shape_def operation_intent_make_def split: option.splits pyval.splits sum.splits)

lemma check_begin_match_None:
  assumes "begin_ready sq q request" and "intent_from_record sq r = Inr i"
  shows "check_begin_match sq frepr (intent_candidate new_id now q request) i = None \<longleftrightarrow> same_operation sq frepr q r"
proof -
  from intent_from_record_Inr [OF assms(2)] obtain p where p: "ir_request_payload r = PDict p" "oi_request_payload i = freeze_dict p"
    "oi_run_id i = ir_run_id r" "oi_kind i = ir_operation_kind r" "oi_request_digest i = ir_request_digest r"
    "oi_request_schema_version i = ir_request_schema_version r" by blast
  show ?thesis using begin_ready_request [OF assms(1)]
    by (auto simp: check_begin_match_def same_operation_def intent_candidate_def p canonical_freeze)
qed

lemma begin_found:
  assumes b: "begin_operation sq frepr ctx db now db_now new_id event_id q = Inr ((new, i), db')" and op: "bo_operation_id q = None"
    and fresh: "intent_at db new_id = None"
  shows "\<exists>r. intent_from_record sq r = Inr i \<and> row_at ir_idempotency_key (bo_idempotency_key q) (xd_intents db') = Some r \<and> same_operation sq frepr q r"
proof -
  from begin_operation_ready [OF b] obtain request where r: "begin_ready sq q request" ..
  let ?c = "intent_candidate new_id now q request"
  note req = begin_ready_request [OF r]
  from begin_operation_core [OF r op] b have core: "begin_core sq frepr ctx db now db_now event_id ?c = Inr ((new, i), db')" by metis
  have k: "oi_idempotency_key ?c = bo_idempotency_key q" "oi_id ?c = new_id" using req op by (simp_all add: intent_candidate_def)
  show ?thesis
  proof (cases "row_at ir_idempotency_key (bo_idempotency_key q) (xd_intents db)")
    case None
    let ?r = "inserted_intent db_now ?c"
    from None core k obtain st where "intent_from_record sq ?r = Inr i" "db' = db\<lparr> xd_store := st, xd_intents := xd_intents db @ [?r] \<rparr>"
      by (auto simp: begin_core_def Let_def ebind_Inr split: if_splits sum.splits)
    moreover have "same_operation sq frepr q ?r" using req
      by (auto simp: same_operation_def inserted_intent_def intent_candidate_def) (metis canonical_freeze freeze_thaw_dict freeze_dict_idem)
    moreover have "ir_idempotency_key ?r = bo_idempotency_key q" using k by (simp add: inserted_intent_def)
    ultimately show ?thesis using None by (auto simp: row_at_append)
  next
    case (Some x)
    with core k fresh have "intent_from_record sq x = Inr i" "check_begin_match sq frepr ?c i = None" "db' = db"
      by (auto simp: begin_core_def Let_def ebind_Inr intent_at_def)
    with check_begin_match_None [OF r] Some show ?thesis by auto
  qed
qed

lemma begin_replays:
  assumes "exec_inv sq db" and "r \<in> set (xd_intents db)" and "ir_idempotency_key r = bo_idempotency_key q" and "begin_ready sq q request"
    and "bo_operation_id q = None" and "intent_at db new_id = None" and "st_runs (xd_store db) (bo_run_id q) \<noteq> None"
  shows "begin_operation sq frepr ctx db now db_now new_id event_id q = ebind (intent_from_record sq r) (\<lambda>i.
     if same_operation sq frepr q r then Inr ((False, i), db)
     else Inl (OperationIdempotencyConflict (''operation idempotency key '' @ py_repr (bo_idempotency_key q) @ '' has a different request'')))"
proof -
  let ?c = "intent_candidate new_id now q request"
  note req = begin_ready_request [OF assms(4)]
  from begin_operation_core [OF assms(4,5)] have b: "begin_operation sq frepr ctx db now db_now new_id event_id q =
    begin_core sq frepr ctx db now db_now event_id ?c" by metis
  have k: "oi_idempotency_key ?c = bo_idempotency_key q" "oi_id ?c = new_id" "oi_run_id ?c = bo_run_id q"
    using req assms(5) by (simp_all add: intent_candidate_def)
  have key: "row_at ir_idempotency_key (bo_idempotency_key q) (xd_intents db) = Some r"
    using row_at_in [of ir_idempotency_key "xd_intents db" r] assms(1-3) by (simp add: exec_inv_def intent_inv_def)
  have "\<exists>r. snapshot_from_record row = Inr r" if "st_runs (xd_store db) (bo_run_id q) = Some row" for row
    using assms(1) that by (simp add: exec_inv_def runs_sound_def)
  with assms(7) obtain run where run: "get_for_update (xd_store db) (bo_run_id q) = Inr run"
    by (auto simp: get_for_update_def split: option.splits)
  obtain i where i: "intent_from_record sq r = Inr i" using assms(1,2) by (auto simp: exec_inv_def intent_inv_def)
  from check_begin_match_None [OF assms(4) i, of frepr new_id now] show ?thesis
    using key assms(6) by (simp add: b begin_core_def k run in_store_def intent_at_def i checked_def split: option.splits)
      (auto simp: check_begin_match_def when_raise_def k split: if_splits)
qed

definition request_key where
  "request_key sq frepr q = (bo_run_id q, resolved_kind q, bo_request_digest q, bo_request_schema_version q,
     canonical_payload sq frepr (bo_request_payload q))"


section \<open>Completing once\<close>

definition records_outcome :: "bool \<Rightarrow> (rat \<Rightarrow> string) \<Rightarrow> operation_intent \<Rightarrow> operation_outcome \<Rightarrow> bool" where
  "records_outcome sq frepr i outcome \<longleftrightarrow> oi_remote_resource_id i = oo_remote_resource_id outcome \<and>
     canonical_payload sq frepr (case oi_outcome i of None \<Rightarrow> [] | Some p \<Rightarrow> p) = canonical_payload sq frepr (oo_payload outcome)"

lemma decoded_success:
  assumes "intent_from_record sq ((succeeded_intent now outcome r)\<lparr> ir_updated_at := t \<rparr>) = Inr i"
  shows "records_outcome sq frepr i outcome"
  using assms by (auto simp: intent_from_record_def intent_shape_def operation_intent_make_def records_outcome_def succeeded_intent_def
      started_def canonical_freeze split: option.splits pyval.splits sum.splits if_splits)

lemma complete_found:
  assumes "complete_operation sq frepr db lease_now now db_now k outcome owner_id = Inr (i, db1)"
  shows "oo_status outcome = Op_SUCCEEDED \<and> records_outcome sq frepr i outcome \<and>
     (\<exists>r. intent_at db1 k = Some r \<and> ir_status r = ''SUCCEEDED'' \<and> intent_from_record sq r = Inr i)"
proof -
  from assms obtain r where s: "oo_status outcome = Op_SUCCEEDED" and r: "row_at ir_id k (xd_intents db) = Some r"
    by (auto simp: complete_operation_def locked_intent_def ebind_Inr split: if_splits option.splits)
  show ?thesis
  proof (cases "ir_status r = ''SUCCEEDED''")
    case True
    with assms s r show ?thesis
      by (auto simp: complete_operation_def locked_intent_def ebind_Inr records_outcome_def intent_at_def split: if_splits)
  next
    case False
    let ?r = "(succeeded_intent now outcome r)\<lparr> ir_updated_at := db_now \<rparr>"
    from False assms s r have f: "intent_from_record sq ?r = Inr i" "db1 = db\<lparr> xd_intents := put_row ir_id ?r (xd_intents db) \<rparr>"
      by (auto simp: complete_operation_def locked_intent_def ebind_Inr flush_intent_def Let_def split: if_splits)
    have "ir_id ?r = k" "ir_status ?r = ''SUCCEEDED''" "k \<in> ir_id ` set (xd_intents db)"
      using row_at_Some [OF r] by (auto simp: succeeded_intent_def started_def)
    then show ?thesis using f s decoded_success [OF f(1)] by (auto simp: intent_at_def row_at_put)
  qed
qed


section \<open>A sample log\<close>

definition sample_begin :: begin_request where
  "sample_begin = \<lparr> bo_run_id = 1, bo_operation_type = Some ''git.push'', bo_kind = None, bo_operation_kind = None,
     bo_idempotency_key = ''push-1'', bo_request_digest = replicate 64 CHR ''a'', bo_request_payload = [(''branch'', PStr ''main'')],
     bo_request_schema_version = 1, bo_execution_owner = Some ''w1'', bo_execution_lease_seconds = Some (PInt 30), bo_operation_id = None \<rparr>"

definition begun_row :: intent_row where
  "begun_row = \<lparr> ir_id = 7, ir_run_id = 1, ir_operation_kind = ''git.push'', ir_idempotency_key = ''push-1'',
     ir_request_digest = replicate 64 CHR ''a'', ir_request_schema_version = 1, ir_request_payload = PDict [(''branch'', PStr ''main'')],
     ir_status = ''PENDING'', ir_remote_resource_id = None, ir_execution_owner = Some ''w1'',
     ir_execution_lease_expires_at = Some 30000000, ir_outcome_schema_version = None, ir_outcome_payload = None, ir_attempt_count = 1,
     ir_last_error = None, ir_started_at = None, ir_completed_at = None, ir_created_at = 0, ir_updated_at = 0 \<rparr>"

definition sample_outcome :: operation_outcome where
  "sample_outcome = \<lparr> oo_remote_resource_id = Some ''ref-1'', oo_payload = [], oo_status = Op_SUCCEEDED, oo_error = None,
     oo_outcome_schema_version = 1 \<rparr>"

lemma begin_operation_succeeds:
  assumes "begin_ready sq q request" and "bo_operation_id q = None" and "get_for_update (xd_store db) (bo_run_id q) = Inr run"
    and "row_at ir_idempotency_key (bo_idempotency_key q) (xd_intents db) = None" and "intent_at db new_id = None"
    and r: "inserted_intent db_now (intent_candidate new_id now q request) = r" "intent_row_ok r" "intent_from_record sq r = Inr i"
    and "event_id \<notin> set (map ev_event_id (st_events (xd_store db)))" and "0 \<le> rs_version run" and "numbered (xd_store db) (bo_run_id q)"
  shows "\<exists>st. begin_operation sq frepr sample_context db now db_now new_id event_id q =
     Inr ((True, i), db\<lparr> xd_store := st, xd_intents := xd_intents db @ [r] \<rparr>)"
proof -
  let ?c = "intent_candidate new_id now q request"
  note req = begin_ready_request [OF assms(1)]
  from begin_operation_core [OF assms(1,2)] have b: "begin_operation sq frepr sample_context db now db_now new_id event_id q =
    begin_core sq frepr sample_context db now db_now event_id ?c" by metis
  have k: "oi_idempotency_key ?c = bo_idempotency_key q" "oi_id ?c = new_id" "oi_run_id ?c = bo_run_id q" "ir_id r = new_id"
    using req assms(2) r(1) by (auto simp: intent_candidate_def inserted_intent_def)
  let ?e = "intent_created_event event_id now (rs_version run) ?c"
  have "run_event_make ?e = Inr (?e\<lparr> ev_payload := freeze_dict (ev_payload ?e) \<rparr>)"
    using assms(10) by (simp add: run_event_make_def intent_created_event_def causal_event_def ACTOR_CLASSES_def aware_def)
  then obtain e where e: "run_event_make ?e = Inr e" "ev_run_id e = bo_run_id q" "ev_event_id e = event_id" "ev_sequence e = None"
      "0 \<le> ev_run_version e" "ev_event_type e = ''operation.intent_created''" "ev_actor_class e = ''system''" "ev_payload_schema_version e = 1"
      "ev_occurred_at e = Aware now"
    using assms(10) k by (auto simp: intent_created_event_def causal_event_def)
  have runs: "st_runs (xd_store db) (bo_run_id q) \<noteq> None" using assms(3) by (auto simp: get_for_update_def split: option.splits)
  have "\<exists>st. event_append sample_context (xd_store db) e = Inr st"
    using e runs assms(9) next_sequence_numbered [OF assms(11)]
    by (simp add: event_append_def Let_def sample_context_def run_event_make_def ACTOR_CLASSES_def aware_def)
  moreover have "new_id \<notin> set (map ir_id (xd_intents db))" using assms(5) by (simp add: intent_at_def row_at_None)
  ultimately show ?thesis using assms(3,4,8) r k e(1) by (auto simp: b begin_core_def in_store_def Let_def)
qed

lemma sample_exec_inv: "exec_inv True sample_exec" and sample_exec_reached:
  "(\<lambda>db db'. \<exists>l. exec_step True no_floats l db db')\<^sup>*\<^sup>* (sample_exec\<lparr> xd_store := sample_store \<rparr>) sample_exec"
proof -
  let ?s = "sample_exec\<lparr> xd_store := sample_store \<rparr>"
  have "store_step (xd_store ?s) created_store" using sample_create by (auto intro: store_step.intros)
  then have "exec_step True no_floats (None, 0) ?s (?s\<lparr> xd_store := created_store \<rparr>)" by (rule exec_run)
  then show st: "(\<lambda>db db'. \<exists>l. exec_step True no_floats l db db')\<^sup>*\<^sup>* ?s sample_exec" by (auto simp: sample_exec_def)
  show "exec_inv True sample_exec"
    by (rule execution.run_inv_from_init [OF _ st]) (simp add: sample_exec_def sample_store_def)
qed

lemma sample_begins:
  obtains i db where "begin_operation True no_floats sample_context sample_exec 0 0 7 9 sample_begin = Inr ((True, i), db)"
    "xd_intents db = [begun_row]" "intent_from_record True begun_row = Inr i" "exec_inv True db"
    "exec_step True no_floats (Some ''w1'', 0) sample_exec db"
proof -
  let ?request = "\<lparr> or_run_id = 1, or_kind = ''git.push'', or_idempotency_key = ''push-1'', or_request_digest = replicate 64 CHR ''a'',
     or_request_payload = [(''branch'', PStr ''main'')], or_request_schema_version = 1 \<rparr>"
  have m: "operation_request_make True ?request = Inr ?request" by code_simp
  then have ready: "begin_ready True sample_begin ?request"
    by (simp add: begin_ready_def sample_begin_def resolved_kind_def validate_execution_request_def validate_lease_seconds_def)
  let ?q = "bound_to sample_row (new_run 1 2 3)"
  have q: "snapshot_from_record sample_row = Inr ?q" using snapshot_roundtrip sample_row_apply by metis
  have run: "get_for_update (xd_store sample_exec) (bo_run_id sample_begin) = Inr ?q"
    using q by (simp add: get_for_update_def sample_exec_def created_store_def sample_begin_def)
  have row: "inserted_intent 0 (intent_candidate 7 0 sample_begin ?request) = begun_row" by code_simp
  have ok: "intent_row_ok begun_row" by code_simp
  have "case intent_from_record True begun_row of Inl _ \<Rightarrow> False | Inr _ \<Rightarrow> True" by code_simp
  then obtain i where i: "intent_from_record True begun_row = Inr i" by (auto split: sum.splits)
  have fresh: "bo_operation_id sample_begin = None" "0 \<le> rs_version ?q"
      "row_at ir_idempotency_key (bo_idempotency_key sample_begin) (xd_intents sample_exec) = None" "intent_at sample_exec 7 = None"
      "9 \<notin> set (map ev_event_id (st_events (xd_store sample_exec)))" "numbered (xd_store sample_exec) (bo_run_id sample_begin)"
    by (simp_all add: sample_begin_def bound_to_def new_run_def row_at_def intent_at_def sample_exec_def created_store_def sample_store_def
      numbered_def run_events_def)
  then obtain st where "begin_operation True no_floats sample_context sample_exec 0 0 7 9 sample_begin =
     Inr ((True, i), sample_exec\<lparr> xd_store := st, xd_intents := xd_intents sample_exec @ [begun_row] \<rparr>)"
    using begin_operation_succeeds [OF ready fresh(1) run fresh(3,4) row ok i fresh(5,2,6)] by blast
  moreover from this have "exec_step True no_floats (Some ''w1'', 0) sample_exec (sample_exec\<lparr> xd_store := st, xd_intents := xd_intents sample_exec @ [begun_row] \<rparr>)"
    by (metis (lifting) begin_request.select_convs(9) exec_operation sample_begin_def step_begin)
  ultimately show thesis using exec_inv_step sample_exec_inv i
    by (intro that [of i "sample_exec\<lparr> xd_store := st, xd_intents := xd_intents sample_exec @ [begun_row] \<rparr>"]) (auto simp: sample_exec_def)
qed

lemma sample_completes:
  assumes "xd_intents db = [begun_row]"
  shows "\<exists>j db'. complete_operation True no_floats db 10 10 10 7 sample_outcome (Some ''w1'') = Inr (j, db') \<and>
     xd_intents db' = [(succeeded_intent 10 sample_outcome begun_row)\<lparr> ir_updated_at := 10 \<rparr>]"
proof -
  let ?r = "(succeeded_intent 10 sample_outcome begun_row)\<lparr> ir_updated_at := 10 \<rparr>"
  have "case intent_from_record True ?r of Inl _ \<Rightarrow> False | Inr _ \<Rightarrow> True" "intent_row_ok ?r" by code_simp+
  then obtain j where "intent_from_record True ?r = Inr j" "intent_row_ok ?r" by (auto split: sum.splits)
  moreover have "owns_execution begun_row (Some ''w1'') 10" "ir_status begun_row = ''PENDING''" "oo_status sample_outcome = Op_SUCCEEDED"
      "ir_id begun_row = 7" "ir_id ?r = 7" by code_simp+
  ultimately show ?thesis
    by (auto simp: complete_operation_def locked_intent_def assms row_at_def flush_intent_def Let_def put_row_def)
qed

lemma sample_refused:
  assumes "xd_intents db = [begun_row]" and "intent_from_record True begun_row = Inr i"
  shows "claim_for_recovery True db 20 20 7 ''w2'' (PInt 30) = Inr ((i, False), db)"
proof -
  have "validate_execution_request (Some ''w2'') (Some (PInt 30)) = None" "ir_id begun_row = 7"
      "owns_execution begun_row (ir_execution_owner begun_row) 20" by code_simp+
  with assms show ?thesis by (simp add: claim_for_recovery_def checked_def locked_intent_def row_at_def)
qed

theorem execution_store_consistent_witness:
  "\<exists>db. (\<lambda>db db'. \<exists>l. exec_step True no_floats l db db')\<^sup>*\<^sup>* (sample_exec\<lparr> xd_store := sample_store \<rparr>) db \<and> xd_intents db = [begun_row] \<and>
     intent_row_ok begun_row"
proof -
  obtain db where db: "xd_intents db = [begun_row]" "exec_step True no_floats (Some ''w1'', 0) sample_exec db" by (rule sample_begins)
  have h: "(\<lambda>db db'. \<exists>l. exec_step True no_floats l db db')\<^sup>*\<^sup>* (sample_exec\<lparr> xd_store := sample_store \<rparr>) db"
    by (rule rtranclp.rtrancl_into_rtrancl [OF sample_exec_reached]) (use db(2) in blast)
  have e: "st_runs (xd_store (sample_exec\<lparr> xd_store := sample_store \<rparr>)) = Map.empty" "st_events (xd_store (sample_exec\<lparr> xd_store := sample_store \<rparr>)) = []"
      "xd_commands (sample_exec\<lparr> xd_store := sample_store \<rparr>) = []" "xd_intents (sample_exec\<lparr> xd_store := sample_store \<rparr>) = []"
    by (simp_all add: sample_exec_def sample_store_def)
  from execution_store_consistent [OF h e, of 1] h db(1) show ?thesis by auto
qed

theorem operation_outcome_final_witness:
  "\<exists>db db'. exec_inv True db \<and> xd_intents db = [begun_row] \<and> path (exec_step True no_floats) [(Some ''w1'', 10)] db db' \<and>
     (\<exists>r'. intent_at db' 7 = Some r' \<and> intent_identity r' = intent_identity begun_row)"
proof -
  obtain db where db: "xd_intents db = [begun_row]" "exec_inv True db" by (rule sample_begins)
  from sample_completes [OF db(1)] obtain j db' where "complete_operation True no_floats db 10 10 10 7 sample_outcome (Some ''w1'') = Inr (j, db')" by blast
  then have p: "path (exec_step True no_floats) [(Some ''w1'', 10)] db db'" by (auto intro: exec_operation step_succeed)
  have r: "intent_at db 7 = Some begun_row" using db(1) by (simp add: intent_at_def row_at_def begun_row_def)
  from operation_outcome_final [OF p db(2) r] p db show ?thesis by blast
qed

theorem execution_lease_fences_intent_witness:
  "\<exists>db db'. path (exec_step True no_floats) [(Some ''w2'', 20)] db db' \<and> intent_at db' 7 = Some begun_row"
proof -
  obtain i db where db: "xd_intents db = [begun_row]" "intent_from_record True begun_row = Inr i" "exec_inv True db" by (rule sample_begins)
  have p: "path (exec_step True no_floats) [(Some ''w2'', 20)] db db"
    using step_take [OF sample_refused [OF db(1,2)]] by (auto intro: exec_operation)
  have r: "intent_at db 7 = Some begun_row" using db(1) by (simp add: intent_at_def row_at_def begun_row_def)
  have h: "intent_holder begun_row = Some (''w1'', 30000000)" by (simp add: intent_holder_def begun_row_def)
  from execution_lease_fences_intent [OF p db(3) r h] p show ?thesis by auto
qed



end
