(* ===== verification/Forge_Subscription.thy ===== *)
theory Forge_Subscription
  imports Forge_Operation
begin

text \<open>
  The authority half of \<^verbatim>\<open>domain/subscription.py\<close>: specialist purposes and the tools they may
  use, execution routes and their approved substitutions, operator profiles, the frozen execution
  envelope of a run and attempt telemetry. Each dataclass is a record
  and its \<^verbatim>\<open>__post_init__\<close> a check in source order; the checks that an argument has its declared
  type are the HOL types.
\<close>

section \<open>Shared checks\<close>

definition validate_non_nil_uuid :: "uuid \<Rightarrow> string \<Rightarrow> py_exn option" where
  "validate_non_nil_uuid v name = when_raise (v = 0) (ValueError (name @ '' must not be nil''))"

definition validate_text :: "nat \<Rightarrow> string \<Rightarrow> string \<Rightarrow> py_exn option" where
  "validate_text max_length v name = seq_raise [
     when_raise (v = [] \<or> blank v) (ValueError (name @ '' must not be blank'')),
     when_raise (max_length < length v)
       (ValueError (name @ '' exceeds maximum length of '' @ int_str (int max_length)))]"

abbreviation validate_non_blank_text :: "string \<Rightarrow> string \<Rightarrow> py_exn option" where
  "validate_non_blank_text \<equiv> validate_text 10000"

definition validate_sha256_digest :: "string \<Rightarrow> string \<Rightarrow> py_exn option" where
  "validate_sha256_digest v name =
     when_raise (\<not> is_digest64 v) (ValueError (name @ '' must be a canonical lowercase SHA-256 digest''))"

definition freeze_texts :: "nat \<Rightarrow> string list \<Rightarrow> string \<Rightarrow> py_exn option" where
  "freeze_texts maximum vs name = seq_raise [
     when_raise (maximum < length vs)
       (ValueError (name @ '' exceeds maximum item count of '' @ int_str (int maximum))),
     each_raise vs (\<lambda>v. validate_non_blank_text v name)]"

definition nonnegative :: "string \<Rightarrow> int \<Rightarrow> py_exn option" where
  "nonnegative name n = when_raise (n < 0) (ValueError (name @ '' must be a nonnegative integer''))"

definition nonnegative_opt :: "string \<Rightarrow> int option \<Rightarrow> py_exn option" where
  "nonnegative_opt name v = opt_raise v (\<lambda>n. when_raise (n < 0)
     (ValueError (name @ '' must be a nonnegative integer or None'')))"

lemma each_raise_Nil [simp]: "each_raise [] f = None"
  by (simp add: each_raise_def)

section \<open>Purposes, capabilities and tools\<close>

datatype specialist_purpose =
    PRIMARY | ROUTINE_IMPLEMENTATION | COMPLEX_IMPLEMENTATION | INDEPENDENT_REVIEW | PURPOSE_PLANNING
  | EXPLORATION | SECURITY | INTEGRATION | VERIFICATION

fun purpose_str :: "specialist_purpose \<Rightarrow> string" where
  "purpose_str PRIMARY = ''primary''"
| "purpose_str ROUTINE_IMPLEMENTATION = ''routine_implementation''"
| "purpose_str COMPLEX_IMPLEMENTATION = ''complex_implementation''"
| "purpose_str INDEPENDENT_REVIEW = ''independent_review''"
| "purpose_str PURPOSE_PLANNING = ''planning''"
| "purpose_str EXPLORATION = ''exploration''"
| "purpose_str SECURITY = ''security''"
| "purpose_str INTEGRATION = ''integration''"
| "purpose_str VERIFICATION = ''verification''"

datatype capability = Cap_DELEGATE | Cap_READ | Cap_WRITE | Cap_CHECK | Cap_COMMIT | Cap_REVIEW_READ

datatype effort = Effort_NONE | Effort_LOW | Effort_MEDIUM | Effort_HIGH | Effort_MAXIMUM

datatype auth_mode = Auth_SUBSCRIPTION | Auth_API_KEY

datatype billing_mode = ALLOWANCE_ONLY | PAID_OPT_IN

datatype quota_status = Quota_OK | Quota_EXHAUSTED | Quota_UNKNOWN

datatype failure_reason =
    QUOTA_EXHAUSTED | LOGIN_FAILED | UNSUPPORTED_MODEL | OUTAGE | BUDGET_EXHAUSTED
  | UNCERTAIN_TERMINATION | POLICY_DENIED | UNSUPPORTED_CAPABILITY

datatype tool_name =
    REPOSITORY_LIST_FILES | REPOSITORY_READ_FILE | REPOSITORY_SEARCH | REPOSITORY_SEARCH_SEMANTIC
  | REPOSITORY_READ_INSTRUCTIONS | REPOSITORY_WRITE_FILE | REPOSITORY_DELETE_FILE
  | REPOSITORY_RENAME_FILE | GIT_STATUS | GIT_DIFF | GIT_COMMIT | BUILD_RUN_NAMED_CHECK
  | VALIDATION_RESULTS_READ | REVIEW_ARTIFACTS_READ

fun tool_str :: "tool_name \<Rightarrow> string" where
  "tool_str REPOSITORY_LIST_FILES = ''repository.list_files''"
| "tool_str REPOSITORY_READ_FILE = ''repository.read_file''"
| "tool_str REPOSITORY_SEARCH = ''repository.search''"
| "tool_str REPOSITORY_SEARCH_SEMANTIC = ''repository.search_semantic''"
| "tool_str REPOSITORY_READ_INSTRUCTIONS = ''repository.read_instructions''"
| "tool_str REPOSITORY_WRITE_FILE = ''repository.write_file''"
| "tool_str REPOSITORY_DELETE_FILE = ''repository.delete_file''"
| "tool_str REPOSITORY_RENAME_FILE = ''repository.rename_file''"
| "tool_str GIT_STATUS = ''git.status''"
| "tool_str GIT_DIFF = ''git.diff''"
| "tool_str GIT_COMMIT = ''git.commit''"
| "tool_str BUILD_RUN_NAMED_CHECK = ''build.run_named_check''"
| "tool_str VALIDATION_RESULTS_READ = ''validation-results.read''"
| "tool_str REVIEW_ARTIFACTS_READ = ''review-artifacts.read''"

fun SPECIALIST_CAPABILITIES :: "specialist_purpose \<Rightarrow> capability list" where
  "SPECIALIST_CAPABILITIES PRIMARY = [Cap_DELEGATE, Cap_READ, Cap_WRITE, Cap_CHECK]"
| "SPECIALIST_CAPABILITIES ROUTINE_IMPLEMENTATION = [Cap_READ, Cap_WRITE, Cap_CHECK]"
| "SPECIALIST_CAPABILITIES COMPLEX_IMPLEMENTATION = [Cap_READ, Cap_WRITE, Cap_CHECK]"
| "SPECIALIST_CAPABILITIES INDEPENDENT_REVIEW = [Cap_READ, Cap_REVIEW_READ]"
| "SPECIALIST_CAPABILITIES PURPOSE_PLANNING = [Cap_READ]"
| "SPECIALIST_CAPABILITIES EXPLORATION = [Cap_READ, Cap_CHECK]"
| "SPECIALIST_CAPABILITIES SECURITY = [Cap_READ]"
| "SPECIALIST_CAPABILITIES INTEGRATION = [Cap_READ, Cap_WRITE, Cap_CHECK, Cap_COMMIT]"
| "SPECIALIST_CAPABILITIES VERIFICATION = [Cap_READ, Cap_CHECK]"

definition READ_TOOLS :: "tool_name list" where
  "READ_TOOLS = [REPOSITORY_LIST_FILES, REPOSITORY_READ_FILE, REPOSITORY_SEARCH, REPOSITORY_SEARCH_SEMANTIC,
     REPOSITORY_READ_INSTRUCTIONS, GIT_STATUS, GIT_DIFF]"

definition CANDIDATE_READ_TOOLS :: "tool_name list" where
  "CANDIDATE_READ_TOOLS = READ_TOOLS @ [VALIDATION_RESULTS_READ, REVIEW_ARTIFACTS_READ]"

definition MUTATION_TOOLS :: "tool_name list" where
  "MUTATION_TOOLS = [REPOSITORY_WRITE_FILE, REPOSITORY_DELETE_FILE, REPOSITORY_RENAME_FILE]"

fun SPECIALIST_ALLOWED_TOOLS :: "specialist_purpose \<Rightarrow> tool_name list" where
  "SPECIALIST_ALLOWED_TOOLS PRIMARY =
     READ_TOOLS @ MUTATION_TOOLS @ [GIT_COMMIT, BUILD_RUN_NAMED_CHECK, VALIDATION_RESULTS_READ, REVIEW_ARTIFACTS_READ]"
| "SPECIALIST_ALLOWED_TOOLS ROUTINE_IMPLEMENTATION = READ_TOOLS @ MUTATION_TOOLS @ [BUILD_RUN_NAMED_CHECK]"
| "SPECIALIST_ALLOWED_TOOLS COMPLEX_IMPLEMENTATION = READ_TOOLS @ MUTATION_TOOLS @ [BUILD_RUN_NAMED_CHECK]"
| "SPECIALIST_ALLOWED_TOOLS INDEPENDENT_REVIEW = CANDIDATE_READ_TOOLS"
| "SPECIALIST_ALLOWED_TOOLS PURPOSE_PLANNING = READ_TOOLS"
| "SPECIALIST_ALLOWED_TOOLS EXPLORATION = READ_TOOLS @ [BUILD_RUN_NAMED_CHECK]"
| "SPECIALIST_ALLOWED_TOOLS SECURITY = READ_TOOLS"
| "SPECIALIST_ALLOWED_TOOLS INTEGRATION = READ_TOOLS @ MUTATION_TOOLS @ [BUILD_RUN_NAMED_CHECK, GIT_COMMIT]"
| "SPECIALIST_ALLOWED_TOOLS VERIFICATION = READ_TOOLS @ [BUILD_RUN_NAMED_CHECK, VALIDATION_RESULTS_READ]"

definition can_delegate :: "specialist_purpose \<Rightarrow> bool" where
  "can_delegate purpose = (purpose = PRIMARY)"

definition is_read_only :: "specialist_purpose \<Rightarrow> bool" where
  "is_read_only purpose = (purpose \<in> {INDEPENDENT_REVIEW, PURPOSE_PLANNING, SECURITY})"

definition permits_fallback :: "failure_reason \<Rightarrow> bool" where
  "permits_fallback reason = (reason \<notin> {POLICY_DENIED, UNSUPPORTED_CAPABILITY})"

definition validate_tool_permission :: "specialist_purpose \<Rightarrow> tool_name \<Rightarrow> py_exn option" where
  "validate_tool_permission purpose tool = when_raise (tool \<notin> set (SPECIALIST_ALLOWED_TOOLS purpose))
     (ValueError (''tool '' @ tool_str tool @ '' is not permitted for role '' @ purpose_str purpose))"

section \<open>Routes\<close>

record route_spec =
  route_provider :: string
  route_client :: string
  route_model :: string
  route_effort :: effort
  route_auth_mode :: auth_mode
  route_billing_mode :: billing_mode

definition route_spec_validate :: "route_spec \<Rightarrow> py_exn option" where
  "route_spec_validate r = seq_raise [
     validate_text 96 (route_provider r) ''provider'',
     validate_text 96 (route_client r) ''client'',
     validate_text 255 (route_model r) ''model'']"

record model_mapping =
  mm_requested_model :: string
  mm_effective_model :: string
  mm_approved_by :: string
  mm_reason :: string

definition model_mapping_validate :: "model_mapping \<Rightarrow> py_exn option" where
  "model_mapping_validate m = seq_raise [
     validate_text 255 (mm_requested_model m) ''requested_model'',
     validate_text 255 (mm_effective_model m) ''effective_model'',
     validate_text 255 (mm_approved_by m) ''approved_by'',
     validate_text 1000 (mm_reason m) ''reason'']"

record route_mapping =
  rm_requested :: route_spec
  rm_effective :: route_spec
  rm_approved_by :: string
  rm_approval_id :: string
  rm_reason :: string

definition route_mapping_validate :: "route_mapping \<Rightarrow> py_exn option" where
  "route_mapping_validate m = seq_raise [
     validate_text 255 (rm_approved_by m) ''approved_by'',
     validate_text 255 (rm_approval_id m) ''approval_id'',
     validate_text 1000 (rm_reason m) ''reason'']"

record route_binding =
  rb_requested :: route_spec
  rb_effective :: route_spec
  rb_mapping_applied :: "route_mapping option"
  rb_is_primary :: bool

definition route_binding_validate :: "route_binding \<Rightarrow> py_exn option" where
  "route_binding_validate b = seq_raise [
     (if rb_requested b \<noteq> rb_effective b then (case rb_mapping_applied b of
          None \<Rightarrow> Some (ValueError ''differing requested and effective route requires explicit approved mapping'')
        | Some m \<Rightarrow> seq_raise [
            when_raise (rm_requested m \<noteq> rb_requested b) (ValueError ''mapping requested route does not match requested route''),
            when_raise (rm_effective m \<noteq> rb_effective b) (ValueError ''mapping effective route does not match effective route'')])
      else None),
     when_raise (rb_is_primary b \<and> rb_requested b \<noteq> rb_effective b) (ValueError ''primary route substitution is prohibited'')]"

record token_budget_defaults =
  tbd_max_input_tokens :: "int option"
  tbd_max_output_tokens :: "int option"

definition token_budget_defaults_validate :: "token_budget_defaults \<Rightarrow> py_exn option" where
  "token_budget_defaults_validate t = seq_raise [
     nonnegative_opt ''max_input_tokens'' (tbd_max_input_tokens t),
     nonnegative_opt ''max_output_tokens'' (tbd_max_output_tokens t)]"

record role_preference =
  rp_purpose :: specialist_purpose
  rp_preferred_route :: route_spec
  rp_fallback_routes :: "route_spec list"
  rp_token_budget :: "token_budget_defaults option"

definition role_preference_validate :: "role_preference \<Rightarrow> py_exn option" where
  "role_preference_validate p = seq_raise [
     each_raise (rp_fallback_routes p) (\<lambda>r. when_raise (r = rp_preferred_route p)
       (ValueError ''fallback route cannot duplicate preferred route'')),
     when_raise (\<not> distinct (rp_fallback_routes p)) (ValueError ''fallback routes must not contain duplicates''),
     when_raise (rp_purpose p = PRIMARY \<and> rp_fallback_routes p \<noteq> []) (ValueError ''primary fallback prohibited'')]"

record operator_profile =
  op_profile_id :: uuid
  op_version :: int
  op_preferences :: "role_preference list"
  op_approved_mappings :: "model_mapping list"
  op_default_billing_mode :: billing_mode
  op_jev :: "jev_policy option"

definition operator_profile_validate :: "operator_profile \<Rightarrow> py_exn option" where
  "operator_profile_validate p = seq_raise [
     validate_non_nil_uuid (op_profile_id p) ''profile_id'',
     when_raise (op_version p < 1) (ValueError ''profile version must be an integer >= 1''),
     when_raise (\<not> distinct (map rp_purpose (op_preferences p)))
       (ValueError ''operator profile contains duplicate preferences for a purpose''),
     when_raise (\<not> distinct (map (\<lambda>m. (mm_requested_model m, mm_effective_model m)) (op_approved_mappings p)))
       (ValueError ''operator profile contains duplicate approved mappings'')]"

fun find_preference :: "role_preference list \<Rightarrow> specialist_purpose \<Rightarrow> role_preference result" where
  "find_preference [] purpose = Inl (KeyError (''no preference configured for purpose '' @ purpose_str purpose))"
| "find_preference (p # ps) purpose = (if rp_purpose p = purpose then Inr p else find_preference ps purpose)"

definition preference_for :: "operator_profile \<Rightarrow> specialist_purpose \<Rightarrow> role_preference result" where
  "preference_for p purpose = find_preference (op_preferences p) purpose"

section \<open>The execution envelope\<close>

record execution_envelope =
  ee_run_id :: uuid
  ee_profile_id :: uuid
  ee_profile_version :: int
  ee_safety_policy_version :: int
  ee_routes :: "(specialist_purpose, route_binding) dict"
  ee_allowed_fallbacks :: "(specialist_purpose, route_spec list) dict"
  ee_role_token_budgets :: "(specialist_purpose, token_budget_defaults) dict"
  ee_billing_mode :: billing_mode
  ee_created_at :: "datetime option"

definition pays :: "route_spec \<Rightarrow> bool" where
  "pays r = (route_auth_mode r = Auth_API_KEY \<or> route_billing_mode r = PAID_OPT_IN)"

definition reject_paid :: "billing_mode \<Rightarrow> route_spec \<Rightarrow> py_exn option" where
  "reject_paid mode r = when_raise (mode = ALLOWANCE_ONLY \<and> pays r)
     (ValueError ''allowance-only envelope rejects api_key mode and paid overage'')"

fun bind_routes :: "billing_mode \<Rightarrow> (specialist_purpose \<times> route_binding) list \<Rightarrow>
    (specialist_purpose, route_binding) dict \<Rightarrow> (specialist_purpose, route_binding) dict result" where
  "bind_routes mode [] route_map = Inr route_map"
| "bind_routes mode ((purpose, binding) # items) route_map =
     (case seq_raise [
        when_raise (purpose \<in> set (map fst route_map))
          (ValueError (''duplicate route binding for purpose '' @ purpose_str purpose)),
        when_raise (purpose = PRIMARY \<and> rb_requested binding \<noteq> rb_effective binding)
          (ValueError ''primary route substitution is prohibited''),
        reject_paid mode (rb_effective binding)] of
        Some e \<Rightarrow> Inl e
      | None \<Rightarrow> bind_routes mode items (dict_set purpose binding route_map))"

definition fallback_guards :: "billing_mode \<Rightarrow> (specialist_purpose, route_spec list) dict \<Rightarrow> route_binding \<Rightarrow>
    specialist_purpose \<Rightarrow> route_spec list \<Rightarrow> py_exn option" where
  "fallback_guards mode fallback_map bound purpose fallbacks = seq_raise [
     when_raise (purpose \<in> set (map fst fallback_map))
       (ValueError (''duplicate fallback routes for purpose '' @ purpose_str purpose)),
     when_raise (16 < length fallbacks) (ValueError ''fallback routes exceed maximum item count of 16''),
     each_raise fallbacks (\<lambda>fallback. seq_raise [
       when_raise (fallback = rb_effective bound) (ValueError ''fallback route cannot duplicate bound effective route''),
       reject_paid mode fallback]),
     when_raise (purpose = PRIMARY \<and> fallbacks \<noteq> []) (ValueError ''primary fallback prohibited in execution envelope'')]"

fun bind_fallbacks :: "billing_mode \<Rightarrow> (specialist_purpose, route_binding) dict \<Rightarrow>
    (specialist_purpose \<times> route_spec list) list \<Rightarrow> (specialist_purpose, route_spec list) dict \<Rightarrow>
    (specialist_purpose, route_spec list) dict result" where
  "bind_fallbacks mode route_map [] fallback_map = Inr fallback_map"
| "bind_fallbacks mode route_map ((purpose, fallbacks) # items) fallback_map =
     (case map_of route_map purpose of
        None \<Rightarrow> Inl (ValueError ''fallback purpose must have a bound route'')
      | Some bound \<Rightarrow> (case fallback_guards mode fallback_map bound purpose fallbacks of
          Some e \<Rightarrow> Inl e
        | None \<Rightarrow> bind_fallbacks mode route_map items (dict_set purpose fallbacks fallback_map)))"

fun bind_budgets :: "(specialist_purpose, route_binding) dict \<Rightarrow> (specialist_purpose \<times> token_budget_defaults) list \<Rightarrow>
    (specialist_purpose, token_budget_defaults) dict \<Rightarrow> (specialist_purpose, token_budget_defaults) dict result" where
  "bind_budgets route_map [] budget_map = Inr budget_map"
| "bind_budgets route_map ((purpose, budget) # items) budget_map =
     (case seq_raise [
        when_raise (purpose \<notin> set (map fst route_map)) (ValueError ''token budget purpose must have a bound route''),
        when_raise (purpose \<in> set (map fst budget_map)) (ValueError ''duplicate token budget purpose'')] of
        Some e \<Rightarrow> Inl e
      | None \<Rightarrow> bind_budgets route_map items (dict_set purpose budget budget_map))"

definition execution_envelope_make :: "execution_envelope \<Rightarrow> execution_envelope result" where
  "execution_envelope_make e = (case seq_raise [
       validate_non_nil_uuid (ee_run_id e) ''run_id'',
       validate_non_nil_uuid (ee_profile_id e) ''profile_id'',
       when_raise (ee_profile_version e < 1) (ValueError ''profile_version must be an integer >= 1''),
       when_raise (ee_safety_policy_version e < 1) (ValueError ''safety_policy_version must be an integer >= 1'')] of
     Some x \<Rightarrow> Inl x
   | None \<Rightarrow>
       ebind (bind_routes (ee_billing_mode e) (ee_routes e) []) (\<lambda>route_map.
       ebind (bind_fallbacks (ee_billing_mode e) route_map (ee_allowed_fallbacks e) []) (\<lambda>fallback_map.
       ebind (bind_budgets route_map (ee_role_token_budgets e) []) (\<lambda>budget_map.
         Inr (e\<lparr> ee_routes := route_map, ee_allowed_fallbacks := fallback_map, ee_role_token_budgets := budget_map \<rparr>)))))"

definition token_budget_for :: "execution_envelope \<Rightarrow> specialist_purpose \<Rightarrow> token_budget_defaults option" where
  "token_budget_for e purpose = map_of (ee_role_token_budgets e) purpose"

definition route_for :: "execution_envelope \<Rightarrow> specialist_purpose \<Rightarrow> route_binding result" where
  "route_for e purpose = (case map_of (ee_routes e) purpose of
     Some b \<Rightarrow> Inr b | None \<Rightarrow> Inl (KeyError (''no route bound for '' @ purpose_str purpose)))"

definition fallbacks_for :: "execution_envelope \<Rightarrow> specialist_purpose \<Rightarrow> route_spec list" where
  "fallbacks_for e purpose = (case map_of (ee_allowed_fallbacks e) purpose of Some fs \<Rightarrow> fs | None \<Rightarrow> [])"

definition permits_route :: "execution_envelope \<Rightarrow> specialist_purpose \<Rightarrow> route_binding \<Rightarrow> bool" where
  "permits_route e purpose binding = (case route_for e purpose of
     Inl _ \<Rightarrow> False
   | Inr preferred \<Rightarrow> binding = preferred \<or>
       (\<not> rb_is_primary preferred \<and> \<not> rb_is_primary binding \<and> rb_requested binding = rb_requested preferred \<and>
        rb_effective binding \<in> set (fallbacks_for e purpose) \<and>
        route_auth_mode (rb_effective binding) = route_auth_mode (rb_effective preferred) \<and>
        route_billing_mode (rb_effective binding) = route_billing_mode (rb_effective preferred)))"

section \<open>Lineage and telemetry\<close>

record task_lineage =
  tn_task_id :: uuid
  tn_lineage_root_task_id :: uuid
  tn_parent_task_id :: "uuid option"
  tn_provider_session_id :: "string option"
  tn_fresh_conversation :: bool

definition task_lineage_validate :: "task_lineage \<Rightarrow> py_exn option" where
  "task_lineage_validate t = seq_raise [
     validate_non_nil_uuid (tn_task_id t) ''task_id'',
     validate_non_nil_uuid (tn_lineage_root_task_id t) ''lineage_root_task_id'',
     opt_raise (tn_parent_task_id t) (\<lambda>u. validate_non_nil_uuid u ''parent_task_id''),
     opt_raise (tn_provider_session_id t) (\<lambda>v. validate_non_blank_text v ''provider_session_id'')]"

record attempt_telemetry =
  at_input_tokens :: "int option"
  at_output_tokens :: "int option"
  at_cached_input_tokens :: "int option"
  at_duration_ms :: int
  at_tool_call_count :: int
  at_named_check_count :: int
  at_estimated_api_cost_minor :: "int option"
  at_currency :: "string option"
  at_subscription_allowance_charge :: "string option"
  at_quota_status :: quota_status
  at_unknown_telemetry_reasons :: "string list"

definition attempt_telemetry_validate :: "attempt_telemetry \<Rightarrow> py_exn option" where
  "attempt_telemetry_validate t = seq_raise [
     nonnegative_opt ''input_tokens'' (at_input_tokens t),
     nonnegative_opt ''output_tokens'' (at_output_tokens t),
     nonnegative_opt ''cached_input_tokens'' (at_cached_input_tokens t),
     nonnegative_opt ''estimated_api_cost_minor'' (at_estimated_api_cost_minor t),
     nonnegative ''duration_ms'' (at_duration_ms t),
     nonnegative ''tool_call_count'' (at_tool_call_count t),
     nonnegative ''named_check_count'' (at_named_check_count t),
     opt_raise (at_currency t) (\<lambda>v. validate_text 4096 v ''currency''),
     opt_raise (at_subscription_allowance_charge t) (\<lambda>v. validate_text 4096 v ''subscription_allowance_charge''),
     freeze_texts 64 (at_unknown_telemetry_reasons t) ''unknown_telemetry_reason'']"

definition is_token_telemetry_known :: "attempt_telemetry \<Rightarrow> bool" where
  "is_token_telemetry_known t = (at_input_tokens t \<noteq> None \<and> at_output_tokens t \<noteq> None)"

definition is_cost_known :: "attempt_telemetry \<Rightarrow> bool" where
  "is_cost_known t = (at_estimated_api_cost_minor t \<noteq> None)"

definition is_quota_known :: "attempt_telemetry \<Rightarrow> bool" where
  "is_quota_known t = (at_quota_status t \<noteq> Quota_UNKNOWN)"

record unknown_telemetry_policy =
  ut_allow_unknown_tokens :: bool
  ut_allow_unknown_cost :: bool
  ut_allow_unknown_quota :: bool
  ut_max_uncertain_attempts :: int

definition unknown_telemetry_policy_validate :: "unknown_telemetry_policy \<Rightarrow> py_exn option" where
  "unknown_telemetry_policy_validate p = nonnegative ''max_uncertain_attempts'' (ut_max_uncertain_attempts p)"

definition validate_telemetry :: "unknown_telemetry_policy \<Rightarrow> attempt_telemetry \<Rightarrow> billing_mode \<Rightarrow> py_exn option" where
  "validate_telemetry p t mode = seq_raise [
     when_raise (mode = PAID_OPT_IN \<and> at_estimated_api_cost_minor t = None)
       (ValueError ''paid opt-in billing mode requires explicit cost telemetry''),
     when_raise (\<not> ut_allow_unknown_tokens p \<and> \<not> is_token_telemetry_known t)
       (ValueError ''unknown token telemetry is disallowed by policy''),
     when_raise (\<not> ut_allow_unknown_cost p \<and> \<not> is_cost_known t)
       (ValueError ''unknown cost telemetry is disallowed by policy''),
     when_raise (\<not> ut_allow_unknown_quota p \<and> \<not> is_quota_known t)
       (ValueError ''unknown quota telemetry is disallowed by policy'')]"

section \<open>The envelope keeps what it was given\<close>

lemma bind_routes_Inr:
  "bind_routes mode items route_map = Inr r \<longleftrightarrow> r = route_map @ items \<and> distinct (map fst items) \<and>
     set (map fst items) \<inter> set (map fst route_map) = {} \<and>
     (\<forall>(p, b) \<in> set items. (p = PRIMARY \<longrightarrow> rb_requested b = rb_effective b) \<and> reject_paid mode (rb_effective b) = None)"
proof (induction mode items route_map rule: bind_routes.induct)
  case (2 mode purpose binding items route_map)
  show ?case
  proof (cases "purpose \<in> set (map fst route_map) \<or> (purpose = PRIMARY \<and> rb_requested binding \<noteq> rb_effective binding) \<or>
      reject_paid mode (rb_effective binding) \<noteq> None")
    case True
    then show ?thesis by (auto simp: seq_raise_Cons split: option.splits)
  next
    case False
    then have "seq_raise [
        when_raise (purpose \<in> set (map fst route_map))
          (ValueError (''duplicate route binding for purpose '' @ purpose_str purpose)),
        when_raise (purpose = PRIMARY \<and> rb_requested binding \<noteq> rb_effective binding)
          (ValueError ''primary route substitution is prohibited''),
        reject_paid mode (rb_effective binding)] = None" by simp
    with False "2.IH" show ?thesis by (auto simp: dict_set_fresh)
  qed
qed auto

lemma fallback_guards_None:
  "fallback_guards mode fallback_map bound purpose fallbacks = None \<longleftrightarrow>
     purpose \<notin> set (map fst fallback_map) \<and> length fallbacks \<le> 16 \<and> (purpose = PRIMARY \<longrightarrow> fallbacks = []) \<and>
     (\<forall>f \<in> set fallbacks. f \<noteq> rb_effective bound \<and> reject_paid mode f = None)"
  by (auto simp: fallback_guards_def)

lemma bind_fallbacks_Inr:
  "bind_fallbacks mode route_map items fallback_map = Inr r \<longleftrightarrow> r = fallback_map @ items \<and> distinct (map fst items) \<and>
     set (map fst items) \<inter> set (map fst fallback_map) = {} \<and>
     (\<forall>(p, fs) \<in> set items. \<exists>b. map_of route_map p = Some b \<and> length fs \<le> 16 \<and> (p = PRIMARY \<longrightarrow> fs = []) \<and>
        (\<forall>f \<in> set fs. f \<noteq> rb_effective b \<and> reject_paid mode f = None))"
proof (induction mode route_map items fallback_map rule: bind_fallbacks.induct)
  case (2 mode route_map purpose fallbacks items fallback_map)
  show ?case
  proof (cases "map_of route_map purpose")
    case None
    then show ?thesis by auto
  next
    case (Some b)
    show ?thesis
    proof (cases "fallback_guards mode fallback_map b purpose fallbacks")
      case None
      note ok = None [unfolded fallback_guards_None]
      with "2.IH" [OF Some None] None Some show ?thesis by (auto simp: dict_set_fresh)
    next
      case g: (Some e)
      then have "\<not> (purpose \<notin> set (map fst fallback_map) \<and> length fallbacks \<le> 16 \<and> (purpose = PRIMARY \<longrightarrow> fallbacks = []) \<and>
          (\<forall>f \<in> set fallbacks. f \<noteq> rb_effective b \<and> reject_paid mode f = None))"
        by (simp only: fallback_guards_None [symmetric]) simp
      with g Some show ?thesis by auto
    qed
  qed
qed auto

lemma bind_budgets_Inr:
  "bind_budgets route_map items budget_map = Inr r \<longleftrightarrow> r = budget_map @ items \<and> distinct (map fst items) \<and>
     set (map fst items) \<inter> set (map fst budget_map) = {} \<and> set (map fst items) \<subseteq> set (map fst route_map)"
proof (induction route_map items budget_map rule: bind_budgets.induct)
  case (2 route_map purpose budget items budget_map)
  show ?case
  proof (cases "purpose \<notin> set (map fst route_map) \<or> purpose \<in> set (map fst budget_map)")
    case True
    then show ?thesis by (auto simp: seq_raise_Cons when_raise_def)
  next
    case False
    with 2 show ?thesis by (auto simp: dict_set_fresh seq_raise_Cons when_raise_def)
  qed
qed auto

definition envelope_ok :: "execution_envelope \<Rightarrow> bool" where
  "envelope_ok e \<longleftrightarrow> distinct (map fst (ee_routes e)) \<and> distinct (map fst (ee_allowed_fallbacks e)) \<and>
     (\<forall>(p, b) \<in> set (ee_routes e). (p = PRIMARY \<longrightarrow> rb_requested b = rb_effective b) \<and>
        (ee_billing_mode e = ALLOWANCE_ONLY \<longrightarrow> \<not> pays (rb_effective b))) \<and>
     (\<forall>(p, fs) \<in> set (ee_allowed_fallbacks e). (p = PRIMARY \<longrightarrow> fs = []) \<and>
        (ee_billing_mode e = ALLOWANCE_ONLY \<longrightarrow> (\<forall>f \<in> set fs. \<not> pays f)))"

lemma envelope_make_ok:
  assumes "execution_envelope_make e = Inr e'"
  shows "e' = e \<and> envelope_ok e"
proof -
  from assms obtain rs fs bs where
    "bind_routes (ee_billing_mode e) (ee_routes e) [] = Inr rs"
    "bind_fallbacks (ee_billing_mode e) rs (ee_allowed_fallbacks e) [] = Inr fs"
    "bind_budgets rs (ee_role_token_budgets e) [] = Inr bs"
    "e' = e\<lparr> ee_routes := rs, ee_allowed_fallbacks := fs, ee_role_token_budgets := bs \<rparr>"
    by (auto simp: execution_envelope_make_def ebind_Inr split: option.splits)
  then show ?thesis
    by (force simp: bind_routes_Inr bind_fallbacks_Inr bind_budgets_Inr envelope_ok_def reject_paid_def)
qed

lemma permits_route_cases:
  assumes "envelope_ok e" and "permits_route e purpose b"
  shows "(purpose = PRIMARY \<longrightarrow> rb_requested b = rb_effective b) \<and> (ee_billing_mode e = ALLOWANCE_ONLY \<longrightarrow> \<not> pays (rb_effective b))"
proof -
  from assms(2) obtain pr where pr: "map_of (ee_routes e) purpose = Some pr" "b = pr \<or> rb_effective b \<in> set (fallbacks_for e purpose)"
    by (auto simp: permits_route_def route_for_def split: option.splits)
  from map_of_SomeD [OF pr(1)] assms(1) have r: "(purpose = PRIMARY \<longrightarrow> rb_requested pr = rb_effective pr) \<and>
      (ee_billing_mode e = ALLOWANCE_ONLY \<longrightarrow> \<not> pays (rb_effective pr))" by (auto simp: envelope_ok_def)
  show ?thesis
  proof (cases "b = pr")
    case True
    with r show ?thesis by simp
  next
    case False
    with pr(2) obtain fs where fs: "map_of (ee_allowed_fallbacks e) purpose = Some fs" "rb_effective b \<in> set fs"
      by (cases "map_of (ee_allowed_fallbacks e) purpose") (auto simp: fallbacks_for_def)
    with map_of_SomeD [OF fs(1)] assms(1) show ?thesis by (auto simp: envelope_ok_def)
  qed
qed

text \<open>A frozen envelope confines every route it permits: construction returns the envelope it was
  given, the primary purpose is never substituted, and an allowance-only envelope permits neither
  API-key authentication nor paid billing, on bound routes and on fallbacks alike.\<close>

theorem envelope_confines_routes:
  assumes "execution_envelope_make e = Inr e'" and "permits_route e' purpose b"
  shows "e' = e \<and> (purpose = PRIMARY \<longrightarrow> rb_requested b = rb_effective b) \<and>
     (ee_billing_mode e = ALLOWANCE_ONLY \<longrightarrow>
        route_auth_mode (rb_effective b) = Auth_SUBSCRIPTION \<and> route_billing_mode (rb_effective b) = ALLOWANCE_ONLY)"
proof -
  from envelope_make_ok [OF assms(1)] have e: "e' = e" "envelope_ok e" by auto
  from permits_route_cases [OF e(2)] assms(2) e(1) show ?thesis
    by (cases "route_auth_mode (rb_effective b)"; cases "route_billing_mode (rb_effective b)") (auto simp: pays_def)
qed

definition sample_route :: "string \<Rightarrow> route_spec" where
  "sample_route model = \<lparr> route_provider = ''p'', route_client = ''c'', route_model = model, route_effort = Effort_LOW,
     route_auth_mode = Auth_SUBSCRIPTION, route_billing_mode = ALLOWANCE_ONLY \<rparr>"

definition sample_binding :: "string \<Rightarrow> route_binding" where
  "sample_binding model = \<lparr> rb_requested = sample_route model, rb_effective = sample_route model,
     rb_mapping_applied = None, rb_is_primary = False \<rparr>"

definition sample_envelope :: execution_envelope where
  "sample_envelope = \<lparr> ee_run_id = 1, ee_profile_id = 2, ee_profile_version = 1, ee_safety_policy_version = 1,
     ee_routes = [(PRIMARY, sample_binding ''m''), (SECURITY, sample_binding ''m'')],
     ee_allowed_fallbacks = [(SECURITY, [sample_route ''f''])], ee_role_token_budgets = [],
     ee_billing_mode = ALLOWANCE_ONLY, ee_created_at = None \<rparr>"

theorem envelope_confines_routes_witness:
  "\<exists>e'. execution_envelope_make sample_envelope = Inr e' \<and>
     permits_route e' SECURITY ((sample_binding ''m'')\<lparr> rb_effective := sample_route ''f'' \<rparr>) \<and> e' = sample_envelope"
proof -
  have "exn_of (execution_envelope_make sample_envelope) = None" by code_simp
  then obtain e' where e': "execution_envelope_make sample_envelope = Inr e'" by auto
  moreover have p: "permits_route sample_envelope SECURITY ((sample_binding ''m'')\<lparr> rb_effective := sample_route ''f'' \<rparr>)" by code_simp
  moreover have "e' = sample_envelope" using envelope_make_ok [OF e'] by simp
  ultimately have "permits_route e' SECURITY ((sample_binding ''m'')\<lparr> rb_effective := sample_route ''f'' \<rparr>)" by simp
  from envelope_confines_routes [OF e' this] e' this show ?thesis by blast
qed

end
