(* ===== verification/Forge_Budget.thy ===== *)
theory Forge_Budget
  imports Forge_Subscription "HOL-Library.Multiset"
begin

text \<open>
  Task budgets and the budget pool of \<^verbatim>\<open>domain/subscription.py\<close> and the usage accounting of
  \<^verbatim>\<open>domain/subscription_budget.py\<close>. The pool is checked arithmetic on eight dimensions; its
  specification is a ledger, the multiset of the reservations that are held.
\<close>

section \<open>Budgets\<close>

record task_budget =
  tb_max_duration_seconds :: int
  tb_max_tool_calls :: int
  tb_max_named_checks :: int
  tb_max_provider_attempts :: int
  tb_max_repairs :: int
  tb_max_input_tokens :: "int option"
  tb_max_output_tokens :: "int option"
  tb_max_cost_minor :: "int option"
  tb_billing_mode :: billing_mode
  tb_unknown_telemetry_policy :: unknown_telemetry_policy

definition task_budget_validate :: "task_budget \<Rightarrow> py_exn option" where
  "task_budget_validate b = seq_raise [
     nonnegative ''max_duration_seconds'' (tb_max_duration_seconds b),
     nonnegative ''max_tool_calls'' (tb_max_tool_calls b),
     nonnegative ''max_named_checks'' (tb_max_named_checks b),
     nonnegative ''max_provider_attempts'' (tb_max_provider_attempts b),
     nonnegative ''max_repairs'' (tb_max_repairs b),
     nonnegative_opt ''max_input_tokens'' (tb_max_input_tokens b),
     nonnegative_opt ''max_output_tokens'' (tb_max_output_tokens b),
     nonnegative_opt ''max_cost_minor'' (tb_max_cost_minor b)]"

record budget_pool =
  bp_total_budget :: task_budget
  bp_reserved_duration_seconds :: int
  bp_reserved_tool_calls :: int
  bp_reserved_named_checks :: int
  bp_reserved_provider_attempts :: int
  bp_reserved_repairs :: int
  bp_reserved_input_tokens :: int
  bp_reserved_output_tokens :: int
  bp_reserved_cost_minor :: int

definition budget_pool_validate :: "budget_pool \<Rightarrow> py_exn option" where
  "budget_pool_validate p = seq_raise [
     nonnegative ''reserved_duration_seconds'' (bp_reserved_duration_seconds p),
     nonnegative ''reserved_tool_calls'' (bp_reserved_tool_calls p),
     nonnegative ''reserved_named_checks'' (bp_reserved_named_checks p),
     nonnegative ''reserved_provider_attempts'' (bp_reserved_provider_attempts p),
     nonnegative ''reserved_repairs'' (bp_reserved_repairs p),
     nonnegative ''reserved_input_tokens'' (bp_reserved_input_tokens p),
     nonnegative ''reserved_output_tokens'' (bp_reserved_output_tokens p),
     nonnegative ''reserved_cost_minor'' (bp_reserved_cost_minor p)]"

definition budget_pool_make :: "budget_pool \<Rightarrow> budget_pool result" where
  "budget_pool_make p = raising (budget_pool_validate p) p"

text \<open>One optional dimension of the reservation loop: an unlimited total skips, an unlimited request
  against a finite total fails.\<close>

definition limit_admits :: "int option \<Rightarrow> int \<Rightarrow> int option \<Rightarrow> bool" where
  "limit_admits whole reserved requested = (case whole of None \<Rightarrow> True
     | Some t \<Rightarrow> (case requested of None \<Rightarrow> False | Some n \<Rightarrow> reserved + n \<le> t))"

definition can_reserve :: "budget_pool \<Rightarrow> task_budget \<Rightarrow> bool" where
  "can_reserve p b = (let t = bp_total_budget p in
     bp_reserved_duration_seconds p + tb_max_duration_seconds b \<le> tb_max_duration_seconds t \<and>
     bp_reserved_tool_calls p + tb_max_tool_calls b \<le> tb_max_tool_calls t \<and>
     bp_reserved_named_checks p + tb_max_named_checks b \<le> tb_max_named_checks t \<and>
     bp_reserved_provider_attempts p + tb_max_provider_attempts b \<le> tb_max_provider_attempts t \<and>
     limit_admits (Some (tb_max_repairs t)) (bp_reserved_repairs p) (Some (tb_max_repairs b)) \<and>
     limit_admits (tb_max_input_tokens t) (bp_reserved_input_tokens p) (tb_max_input_tokens b) \<and>
     limit_admits (tb_max_output_tokens t) (bp_reserved_output_tokens p) (tb_max_output_tokens b) \<and>
     limit_admits (tb_max_cost_minor t) (bp_reserved_cost_minor p) (tb_max_cost_minor b))"

text \<open>\<^verbatim>\<open>value or 0\<close>\<close>

definition or_zero :: "int option \<Rightarrow> int" where
  "or_zero v = (case v of None \<Rightarrow> 0 | Some n \<Rightarrow> n)"

definition reserve :: "budget_pool \<Rightarrow> task_budget \<Rightarrow> budget_pool result" where
  "reserve p b = (if \<not> can_reserve p b then Inl (ValueError ''requested budget exceeds available capacity'')
     else budget_pool_make \<lparr> bp_total_budget = bp_total_budget p,
       bp_reserved_duration_seconds = bp_reserved_duration_seconds p + tb_max_duration_seconds b,
       bp_reserved_tool_calls = bp_reserved_tool_calls p + tb_max_tool_calls b,
       bp_reserved_named_checks = bp_reserved_named_checks p + tb_max_named_checks b,
       bp_reserved_provider_attempts = bp_reserved_provider_attempts p + tb_max_provider_attempts b,
       bp_reserved_repairs = bp_reserved_repairs p + tb_max_repairs b,
       bp_reserved_input_tokens = bp_reserved_input_tokens p + or_zero (tb_max_input_tokens b),
       bp_reserved_output_tokens = bp_reserved_output_tokens p + or_zero (tb_max_output_tokens b),
       bp_reserved_cost_minor = bp_reserved_cost_minor p + or_zero (tb_max_cost_minor b) \<rparr>)"

definition release :: "budget_pool \<Rightarrow> task_budget \<Rightarrow> budget_pool result" where
  "release p b = (if bp_reserved_duration_seconds p < tb_max_duration_seconds b \<or>
       bp_reserved_tool_calls p < tb_max_tool_calls b \<or> bp_reserved_named_checks p < tb_max_named_checks b \<or>
       bp_reserved_provider_attempts p < tb_max_provider_attempts b \<or> bp_reserved_repairs p < tb_max_repairs b \<or>
       bp_reserved_input_tokens p < or_zero (tb_max_input_tokens b) \<or>
       bp_reserved_output_tokens p < or_zero (tb_max_output_tokens b) \<or>
       bp_reserved_cost_minor p < or_zero (tb_max_cost_minor b)
     then Inl (ValueError ''cannot release an unreserved budget'')
     else budget_pool_make \<lparr> bp_total_budget = bp_total_budget p,
       bp_reserved_duration_seconds = bp_reserved_duration_seconds p - tb_max_duration_seconds b,
       bp_reserved_tool_calls = bp_reserved_tool_calls p - tb_max_tool_calls b,
       bp_reserved_named_checks = bp_reserved_named_checks p - tb_max_named_checks b,
       bp_reserved_provider_attempts = bp_reserved_provider_attempts p - tb_max_provider_attempts b,
       bp_reserved_repairs = bp_reserved_repairs p - tb_max_repairs b,
       bp_reserved_input_tokens = bp_reserved_input_tokens p - or_zero (tb_max_input_tokens b),
       bp_reserved_output_tokens = bp_reserved_output_tokens p - or_zero (tb_max_output_tokens b),
       bp_reserved_cost_minor = bp_reserved_cost_minor p - or_zero (tb_max_cost_minor b) \<rparr>)"

section \<open>Usage accounting\<close>

record usage_amounts =
  ua_duration_ms :: "int option"
  ua_tool_calls :: "int option"
  ua_named_checks :: "int option"
  ua_provider_attempts :: "int option"
  ua_repairs :: "int option"
  ua_input_tokens :: "int option"
  ua_output_tokens :: "int option"
  ua_cost_minor :: "int option"

definition usage_values :: "usage_amounts \<Rightarrow> (string, int option) dict" where
  "usage_values u = [
     (''duration_ms'', ua_duration_ms u), (''tool_calls'', ua_tool_calls u), (''named_checks'', ua_named_checks u),
     (''provider_attempts'', ua_provider_attempts u), (''repairs'', ua_repairs u), (''input_tokens'', ua_input_tokens u),
     (''output_tokens'', ua_output_tokens u), (''cost_minor'', ua_cost_minor u)]"

definition usage_validate :: "usage_amounts \<Rightarrow> py_exn option" where
  "usage_validate u = each_raise (usage_values u) (\<lambda>(name, v). opt_raise v (\<lambda>n. when_raise (n < 0)
     (ValueError (name @ '' must be a nonnegative integer or unknown''))))"

definition usage_make :: "usage_amounts \<Rightarrow> usage_amounts result" where
  "usage_make u = raising (usage_validate u) u"

definition add_known :: "int option \<Rightarrow> int option \<Rightarrow> int option" where
  "add_known a b = (case a of None \<Rightarrow> None | Some m \<Rightarrow> (case b of None \<Rightarrow> None | Some n \<Rightarrow> Some (m + n)))"

definition usage_zip :: "(int option \<Rightarrow> int option \<Rightarrow> int option) \<Rightarrow> usage_amounts \<Rightarrow> usage_amounts \<Rightarrow> usage_amounts" where
  "usage_zip f u v = \<lparr> ua_duration_ms = f (ua_duration_ms u) (ua_duration_ms v),
     ua_tool_calls = f (ua_tool_calls u) (ua_tool_calls v),
     ua_named_checks = f (ua_named_checks u) (ua_named_checks v),
     ua_provider_attempts = f (ua_provider_attempts u) (ua_provider_attempts v),
     ua_repairs = f (ua_repairs u) (ua_repairs v),
     ua_input_tokens = f (ua_input_tokens u) (ua_input_tokens v),
     ua_output_tokens = f (ua_output_tokens u) (ua_output_tokens v),
     ua_cost_minor = f (ua_cost_minor u) (ua_cost_minor v) \<rparr>"

definition usage_add :: "usage_amounts \<Rightarrow> usage_amounts \<Rightarrow> usage_amounts result" where
  "usage_add u v = usage_make (usage_zip add_known u v)"

definition budget_ceiling :: "task_budget \<Rightarrow> usage_amounts result" where
  "budget_ceiling b = usage_make \<lparr> ua_duration_ms = Some (tb_max_duration_seconds b * 1000),
     ua_tool_calls = Some (tb_max_tool_calls b), ua_named_checks = Some (tb_max_named_checks b),
     ua_provider_attempts = Some (tb_max_provider_attempts b), ua_repairs = Some (tb_max_repairs b),
     ua_input_tokens = tb_max_input_tokens b, ua_output_tokens = tb_max_output_tokens b,
     ua_cost_minor = tb_max_cost_minor b \<rparr>"

definition within_limit :: "int option \<Rightarrow> int option \<Rightarrow> bool" where
  "within_limit v limit = (case limit of None \<Rightarrow> True | Some l \<Rightarrow> (case v of None \<Rightarrow> False | Some n \<Rightarrow> n \<le> l))"

definition fits_within :: "usage_amounts \<Rightarrow> task_budget \<Rightarrow> bool result" where
  "fits_within u b = ebind (budget_ceiling b) (\<lambda>limits.
     Inr (list_all2 (\<lambda>(_, v) (_, limit). within_limit v limit) (usage_values u) (usage_values limits)))"

record attempt_charge =
  ac_observed :: usage_amounts
  ac_charged :: usage_amounts
  ac_unknown_fields :: "string list"
  ac_exceeded_fields :: "string list"

definition exceeds_limit :: "int option \<Rightarrow> int option \<Rightarrow> bool" where
  "exceeds_limit v limit = (case v of None \<Rightarrow> False | Some n \<Rightarrow> (case limit of None \<Rightarrow> False | Some l \<Rightarrow> l < n))"

definition project_attempt_charge :: "task_budget \<Rightarrow> attempt_telemetry option \<Rightarrow> bool \<Rightarrow> attempt_charge result" where
  "project_attempt_charge reservation telemetry repair =
     (if tb_max_provider_attempts reservation \<noteq> 1 \<or> tb_max_repairs reservation \<noteq> (if repair then 1 else 0)
      then Inl (ValueError ''an attempt reservation must bind one attempt and its repair unit'')
      else ebind (usage_make \<lparr>
         ua_duration_ms = map_option at_duration_ms telemetry,
         ua_tool_calls = map_option at_tool_call_count telemetry,
         ua_named_checks = map_option at_named_check_count telemetry,
         ua_provider_attempts = Some 1, ua_repairs = Some (if repair then 1 else 0),
         ua_input_tokens = Option.bind telemetry at_input_tokens,
         ua_output_tokens = Option.bind telemetry at_output_tokens,
         ua_cost_minor = Option.bind telemetry at_estimated_api_cost_minor \<rparr>) (\<lambda>observed.
       ebind (budget_ceiling reservation) (\<lambda>limits.
       ebind (usage_make (usage_zip (\<lambda>v limit. if v = None then limit else v) observed limits)) (\<lambda>charged.
         Inr \<lparr> ac_observed = observed, ac_charged = charged,
           ac_unknown_fields = map fst (filter (\<lambda>(_, v). v = None) (usage_values observed)),
           ac_exceeded_fields = map (fst \<circ> fst) (filter (\<lambda>((_, v), (_, limit)). exceeds_limit v limit)
             (zip (usage_values observed) (usage_values limits))) \<rparr>))))"

section \<open>The pool refines a ledger of reservations\<close>

definition valid_budget :: "task_budget \<Rightarrow> bool" where
  "valid_budget b \<longleftrightarrow> task_budget_validate b = None"

lemma or_zero_simps [simp]: "or_zero None = 0" "or_zero (Some n) = n"
  by (simp_all add: or_zero_def)

lemma nonnegative_None [simp]: "nonnegative name n = None \<longleftrightarrow> 0 \<le> n"
  by (auto simp: nonnegative_def)

lemma nonnegative_opt_None [simp]: "nonnegative_opt name v = None \<longleftrightarrow> (\<forall>n. v = Some n \<longrightarrow> 0 \<le> n)"
  by (auto simp: nonnegative_opt_def not_less)

text \<open>The eight dimensions of a budget, and what the pool has reserved in each.\<close>

definition amounts :: "task_budget \<Rightarrow> int list" where
  "amounts b = [tb_max_duration_seconds b, tb_max_tool_calls b, tb_max_named_checks b, tb_max_provider_attempts b,
     tb_max_repairs b, or_zero (tb_max_input_tokens b), or_zero (tb_max_output_tokens b), or_zero (tb_max_cost_minor b)]"

definition limits :: "task_budget \<Rightarrow> int option list" where
  "limits b = [Some (tb_max_duration_seconds b), Some (tb_max_tool_calls b), Some (tb_max_named_checks b),
     Some (tb_max_provider_attempts b), Some (tb_max_repairs b), tb_max_input_tokens b, tb_max_output_tokens b,
     tb_max_cost_minor b]"

definition reserved :: "budget_pool \<Rightarrow> int list" where
  "reserved p = [bp_reserved_duration_seconds p, bp_reserved_tool_calls p, bp_reserved_named_checks p,
     bp_reserved_provider_attempts p, bp_reserved_repairs p, bp_reserved_input_tokens p, bp_reserved_output_tokens p,
     bp_reserved_cost_minor p]"

definition held :: "nat \<Rightarrow> task_budget multiset \<Rightarrow> int" where
  "held i M = (\<Sum>b \<in># M. amounts b ! i)"

definition ledger :: "task_budget multiset \<Rightarrow> budget_pool \<Rightarrow> bool" where
  "ledger M p \<longleftrightarrow> (\<forall>b \<in># M. valid_budget b) \<and> reserved p = map (\<lambda>i. held i M) [0..<8]"

text \<open>The specification: in every dimension with a finite total, every held reservation is finite and
  their sum is within the total.\<close>

definition ledger_within :: "task_budget \<Rightarrow> task_budget multiset \<Rightarrow> bool" where
  "ledger_within whole M \<longleftrightarrow> (\<forall>i < 8. \<forall>t. limits whole ! i = Some t \<longrightarrow>
     (\<forall>b \<in># M. limits b ! i \<noteq> None) \<and> held i M \<le> t)"

lemma upt8: "[0..<8] = [0, 1, 2, 3, 4, 5, 6, 7 :: nat]"
  by (simp add: upt_rec)

lemma all_less8: "(\<forall>i < 8. P i) \<longleftrightarrow> P 0 \<and> P 1 \<and> P 2 \<and> P 3 \<and> P 4 \<and> P 5 \<and> P 6 \<and> P (7 :: nat)"
proof -
  have "(\<forall>i < 8. P i) \<longleftrightarrow> (\<forall>i \<in> set [0..<8]. P i)" by auto
  then show ?thesis unfolding upt8 by simp
qed

lemma amounts_nonneg: "valid_budget b \<Longrightarrow> i < 8 \<Longrightarrow> 0 \<le> amounts b ! i"
proof -
  assume "valid_budget b"
  then have "\<forall>i < 8. 0 \<le> amounts b ! i"
    unfolding all_less8 by (auto simp: valid_budget_def task_budget_validate_def amounts_def or_zero_def split: option.splits)
  then show "i < 8 \<Longrightarrow> 0 \<le> amounts b ! i" by blast
qed

lemma held_simps [simp]: "held i {#} = 0" "held i (add_mset b M) = amounts b ! i + held i M"
  by (simp_all add: held_def)

lemma held_nonneg: "\<forall>b \<in># M. valid_budget b \<Longrightarrow> i < 8 \<Longrightarrow> 0 \<le> held i M"
  by (induction M) (auto simp: amounts_nonneg)

lemma budget_pool_valid: "budget_pool_validate p = None \<longleftrightarrow> (\<forall>n \<in> set (reserved p). 0 \<le> n)"
  by (auto simp: budget_pool_validate_def reserved_def)

lemma pool_eqI: "bp_total_budget p = bp_total_budget q \<Longrightarrow> reserved p = reserved q \<Longrightarrow> p = (q :: budget_pool)"
  by (cases p; cases q) (simp add: reserved_def)

definition pool_with :: "budget_pool \<Rightarrow> int list \<Rightarrow> budget_pool" where
  "pool_with p ns = \<lparr> bp_total_budget = bp_total_budget p, bp_reserved_duration_seconds = ns ! 0, bp_reserved_tool_calls = ns ! 1,
     bp_reserved_named_checks = ns ! 2, bp_reserved_provider_attempts = ns ! 3, bp_reserved_repairs = ns ! 4,
     bp_reserved_input_tokens = ns ! 5, bp_reserved_output_tokens = ns ! 6, bp_reserved_cost_minor = ns ! 7 \<rparr>"

lemma reserved_pool_with: "length ns = 8 \<Longrightarrow> reserved (pool_with p ns) = ns"
proof -
  assume "length ns = 8"
  then have "ns = map ((!) ns) [0..<8]" by (metis map_nth)
  also have "\<dots> = reserved (pool_with p ns)" unfolding upt8 by (simp add: reserved_def pool_with_def)
  finally show ?thesis by simp
qed

lemma reserve_eq:
  "reserve p b = (if can_reserve p b then budget_pool_make (pool_with p (map2 (+) (reserved p) (amounts b)))
     else Inl (ValueError ''requested budget exceeds available capacity''))"
  by (simp add: reserve_def pool_with_def reserved_def amounts_def)

lemma release_eq:
  "release p b = (if list_all2 (\<le>) (amounts b) (reserved p) then budget_pool_make (pool_with p (map2 (-) (reserved p) (amounts b)))
     else Inl (ValueError ''cannot release an unreserved budget''))"
  by (simp add: release_def pool_with_def reserved_def amounts_def not_less)

lemma can_reserve_iff:
  "can_reserve p b \<longleftrightarrow> (\<forall>i < 8. \<forall>t. limits (bp_total_budget p) ! i = Some t \<longrightarrow>
     limits b ! i \<noteq> None \<and> reserved p ! i + amounts b ! i \<le> t)"
  unfolding all_less8
  by (auto simp: can_reserve_def Let_def limit_admits_def limits_def reserved_def amounts_def split: option.splits)

lemma ledger_reserve:
  assumes led: "ledger M p" and ok: "ledger_within (bp_total_budget p) M" and b: "valid_budget b"
  shows "if ledger_within (bp_total_budget p) (add_mset b M)
     then \<exists>q. reserve p b = Inr q \<and> ledger (add_mset b M) q \<and> bp_total_budget q = bp_total_budget p
     else \<exists>e. reserve p b = Inl e"
proof -
  have res: "reserved p = map (\<lambda>i. held i M) [0..<8]" using led by (simp add: ledger_def)
  have can: "can_reserve p b \<longleftrightarrow> ledger_within (bp_total_budget p) (add_mset b M)"
    using ok unfolding can_reserve_iff ledger_within_def by (auto simp: res add.commute)
  let ?ns = "map2 (+) (reserved p) (amounts b)"
  have ns: "?ns = map (\<lambda>i. held i (add_mset b M)) [0..<8]"
    unfolding res upt8 by (simp add: amounts_def)
  have "\<forall>n \<in> set ?ns. 0 \<le> n"
    using led b held_nonneg [of "add_mset b M"] unfolding ns by (auto simp: ledger_def)
  then have "budget_pool_make (pool_with p ?ns) = Inr (pool_with p ?ns)"
    by (simp add: budget_pool_make_def budget_pool_valid reserved_pool_with ns)
  moreover have "ledger (add_mset b M) (pool_with p ?ns)"
    unfolding ns using led b by (simp add: ledger_def reserved_pool_with)
  moreover have "bp_total_budget (pool_with p ?ns) = bp_total_budget p" by (simp add: pool_with_def)
  ultimately show ?thesis using can by (auto simp: reserve_eq)
qed

lemma ledger_release:
  assumes "ledger (add_mset b M) p"
  shows "\<exists>q. release p b = Inr q \<and> ledger M q \<and> bp_total_budget q = bp_total_budget p"
proof -
  have res: "reserved p = map (\<lambda>i. amounts b ! i + held i M) [0..<8]" and v: "\<forall>c \<in># M. valid_budget c"
    using assms by (simp_all add: ledger_def)
  have am: "amounts b = map (\<lambda>i. amounts b ! i) [0..<8]" unfolding upt8 by (simp add: amounts_def)
  let ?ns = "map2 (-) (reserved p) (amounts b)"
  have ns: "?ns = map (\<lambda>i. held i M) [0..<8]" unfolding res upt8 by (simp add: amounts_def)
  have pos: "\<forall>i < 8. 0 \<le> held i M" using v held_nonneg by blast
  then have "list_all2 (\<le>) (amounts b) (reserved p)"
    by (subst am) (simp add: res list_all2_conv_all_nth)
  moreover have "\<forall>n \<in> set ?ns. 0 \<le> n" using pos unfolding ns by auto
  ultimately have "release p b = Inr (pool_with p ?ns)"
    by (simp add: release_eq budget_pool_make_def budget_pool_valid reserved_pool_with ns)
  moreover have "ledger M (pool_with p ?ns)" using v by (simp add: ledger_def reserved_pool_with ns)
  moreover have "bp_total_budget (pool_with p ?ns) = bp_total_budget p" by (simp add: pool_with_def)
  ultimately show ?thesis by blast
qed

lemma ledger_within_release: "ledger_within whole (add_mset b M) \<Longrightarrow> valid_budget b \<Longrightarrow> ledger_within whole M"
  by (force simp: ledger_within_def dest: amounts_nonneg)

text \<open>The histories of a pool: reservations of valid budgets, and releases of what is held.\<close>

definition empty_pool :: "task_budget \<Rightarrow> budget_pool" where
  "empty_pool whole = \<lparr> bp_total_budget = whole, bp_reserved_duration_seconds = 0, bp_reserved_tool_calls = 0,
     bp_reserved_named_checks = 0, bp_reserved_provider_attempts = 0, bp_reserved_repairs = 0,
     bp_reserved_input_tokens = 0, bp_reserved_output_tokens = 0, bp_reserved_cost_minor = 0 \<rparr>"

inductive pool_run :: "task_budget \<Rightarrow> task_budget multiset \<Rightarrow> budget_pool \<Rightarrow> bool" for whole where
  start: "pool_run whole {#} (empty_pool whole)"
| step_reserve: "pool_run whole M p \<Longrightarrow> valid_budget b \<Longrightarrow> reserve p b = Inr q \<Longrightarrow> pool_run whole (add_mset b M) q"
| step_release: "pool_run whole (add_mset b M) p \<Longrightarrow> release p b = Inr q \<Longrightarrow> pool_run whole M q"

lemma pool_run_ledger:
  assumes "pool_run whole M p" and "valid_budget whole"
  shows "ledger M p \<and> ledger_within whole M \<and> bp_total_budget p = whole"
  using assms
proof (induction rule: pool_run.induct)
  case start
  then have "\<forall>i < 8. \<forall>t. limits whole ! i = Some t \<longrightarrow> 0 \<le> t"
    unfolding all_less8 by (auto simp: limits_def valid_budget_def task_budget_validate_def)
  then show ?case by (simp add: ledger_def ledger_within_def empty_pool_def reserved_def upt8)
next
  case (step_reserve M p b q)
  then show ?case using ledger_reserve [of M p b] by (auto split: if_splits)
next
  case (step_release b M p q)
  then show ?case using ledger_release [of b M p] ledger_within_release [of whole b M] by (auto simp: ledger_def)
qed

text \<open>C25. The budget pool implements the ledger of its reservations: in every history, each dimension holds
  exactly the sum of the reservations not yet released; a reservation succeeds precisely when every
  finite total still covers the sum with it, so the pool is never oversubscribed; and whatever is
  held can be released.\<close>

theorem pool_refines_ledger:
  assumes "pool_run whole M p" and "valid_budget whole" and "valid_budget b"
  shows "ledger M p \<and> ledger_within whole M \<and>
     ((\<exists>q. reserve p b = Inr q) \<longleftrightarrow> ledger_within whole (add_mset b M)) \<and>
     (\<forall>c \<in># M. \<exists>q. release p c = Inr q)"
proof -
  from pool_run_ledger [OF assms(1,2)] have l: "ledger M p" "ledger_within whole M" "bp_total_budget p = whole" by auto
  from ledger_reserve [OF l(1) _ assms(3)] l(2,3) have
    "(\<exists>q. reserve p b = Inr q) \<longleftrightarrow> ledger_within whole (add_mset b M)" by (auto split: if_splits)
  moreover have "\<exists>q. release p c = Inr q" if "c \<in># M" for c
    using multi_member_split [OF that] ledger_release l(1) by blast
  ultimately show ?thesis using l by blast
qed

definition sample_budget :: task_budget where
  "sample_budget = \<lparr> tb_max_duration_seconds = 1800, tb_max_tool_calls = 100, tb_max_named_checks = 10,
     tb_max_provider_attempts = 3, tb_max_repairs = 3, tb_max_input_tokens = None, tb_max_output_tokens = Some 50,
     tb_max_cost_minor = None, tb_billing_mode = ALLOWANCE_ONLY,
     tb_unknown_telemetry_policy = \<lparr> ut_allow_unknown_tokens = True, ut_allow_unknown_cost = True,
       ut_allow_unknown_quota = True, ut_max_uncertain_attempts = 1 \<rparr> \<rparr>"

theorem pool_refines_ledger_witness:
  "\<exists>q. reserve (empty_pool sample_budget) sample_budget = Inr q \<and>
     pool_run sample_budget {#sample_budget#} q \<and> \<not> (\<exists>r. reserve q sample_budget = Inr r)"
proof -
  have v: "valid_budget sample_budget" by code_simp
  have "exn_of (reserve (empty_pool sample_budget) sample_budget) = None" by code_simp
  then obtain q where q: "reserve (empty_pool sample_budget) sample_budget = Inr q" by auto
  with v have run: "pool_run sample_budget {#sample_budget#} q" by (auto intro: pool_run.intros)
  have "\<not> ledger_within sample_budget {#sample_budget, sample_budget#}"
    unfolding ledger_within_def all_less8 by (simp add: limits_def amounts_def sample_budget_def)
  with pool_refines_ledger [OF run v v] q run show ?thesis by blast
qed

section \<open>What an attempt is charged\<close>

lemma usage_valid_iff: "usage_validate u = None \<longleftrightarrow> (\<forall>(name, v) \<in> set (usage_values u). \<forall>n. v = Some n \<longrightarrow> 0 \<le> n)"
  by (auto simp: usage_validate_def not_less)

lemma usage_zip_values:
  "usage_values (usage_zip f u v) = map2 (\<lambda>(name, a) (_, b). (name, f a b)) (usage_values u) (usage_values v)"
  by (simp add: usage_values_def usage_zip_def)

lemma usage_zip_valid:
  assumes "usage_validate u = None" and "usage_validate v = None"
    and "\<And>a b n. (\<forall>m. a = Some m \<longrightarrow> 0 \<le> m) \<Longrightarrow> (\<forall>m. b = Some m \<longrightarrow> 0 \<le> m) \<Longrightarrow> f a b = Some n \<Longrightarrow> 0 \<le> n"
  shows "usage_validate (usage_zip f u v) = None"
  unfolding usage_valid_iff usage_zip_values
proof (intro ballI, clarify)
  fix name w n
  assume "(name, Some n) \<in> set (map2 (\<lambda>(name, a) (_, b). (name, f a b)) (usage_values u) (usage_values v))"
  then obtain a b name' where "((name, a), (name', b)) \<in> set (zip (usage_values u) (usage_values v))" and f: "f a b = Some n"
    by auto
  then have a: "(name, a) \<in> set (usage_values u)" and b: "(name', b) \<in> set (usage_values v)"
    by (auto dest: set_zip_leftD set_zip_rightD)
  have "\<forall>m. a = Some m \<longrightarrow> 0 \<le> m" using a assms(1) unfolding usage_valid_iff by auto
  moreover have "\<forall>m. b = Some m \<longrightarrow> 0 \<le> m" using b assms(2) unfolding usage_valid_iff by auto
  ultimately show "0 \<le> n" using f by (rule assms(3))
qed

lemma usage_names: "map fst (usage_values u) = map fst (usage_values v)"
  by (simp add: usage_values_def)

lemma usage_names_distinct: "distinct (map fst (usage_values u))"
  by (simp add: usage_values_def)

lemma map_of_map2:
  "map fst xs = map fst ys \<Longrightarrow> map_of (map2 (\<lambda>(name, a) (_, b). (name, f a b)) xs ys) k =
     (case map_of xs k of None \<Rightarrow> None | Some a \<Rightarrow> map_option (f a) (map_of ys k))"
proof (induction xs arbitrary: ys)
  case (Cons x xs)
  then obtain y ys' where "ys = y # ys'" by (cases ys) auto
  with Cons show ?case by (cases x; cases y) (auto split: option.split)
qed simp

lemma usage_zip_at:
  "map_of (usage_values (usage_zip f u v)) k =
     (case map_of (usage_values u) k of None \<Rightarrow> None | Some a \<Rightarrow> map_option (f a) (map_of (usage_values v) k))"
  unfolding usage_zip_values by (rule map_of_map2 [OF usage_names])

lemma usage_name_known: "map_of (usage_values u) k = Some a \<Longrightarrow> \<exists>b. map_of (usage_values v) k = Some b"
  using usage_names [of u v] by (metis map_of_eq_None_iff option.exhaust image_set option.distinct(1))

lemma budget_ceiling_valid:
  assumes "valid_budget b"
  shows "\<exists>caps. budget_ceiling b = Inr caps \<and> usage_validate caps = None"
  using assms by (auto simp: valid_budget_def task_budget_validate_def budget_ceiling_def usage_make_def usage_validate_def usage_values_def
    each_raise_def not_less)

lemma within_limit_charge: "within_limit (if v = None then limit else v) limit \<longleftrightarrow> \<not> exceeds_limit v limit"
  by (auto simp: within_limit_def exceeds_limit_def split: option.splits)

lemma fits_charged:
  assumes "budget_ceiling b = Inr caps"
  shows "fits_within (usage_zip (\<lambda>v limit. if v = None then limit else v) observed caps) b = Inr True \<longleftrightarrow>
    filter (\<lambda>((_, v), (_, limit)). exceeds_limit v limit) (zip (usage_values observed) (usage_values caps)) = []"
  unfolding fits_within_def assms
  by (simp add: usage_values_def usage_zip_def within_limit_charge)

text \<open>Charging an attempt is total and never loses a debit: for a valid one-attempt reservation every
  valid or missing telemetry is charged, each measured dimension at its measurement and each unknown
  dimension at the ceiling of the reservation, and a dimension is reported exceeded exactly when the
  charge does not fit the reservation.\<close>

theorem attempt_charge_exact:
  assumes "valid_budget r" and "tb_max_provider_attempts r = 1" and "tb_max_repairs r = (if repair then 1 else 0)"
    and "\<And>t. telemetry = Some t \<Longrightarrow> attempt_telemetry_validate t = None"
  shows "\<exists>c caps. project_attempt_charge r telemetry repair = Inr c \<and> budget_ceiling r = Inr caps \<and>
     (fits_within (ac_charged c) r = Inr True \<longleftrightarrow> ac_exceeded_fields c = []) \<and>
     (\<forall>name v. map_of (usage_values (ac_observed c)) name = Some v \<longrightarrow>
        map_of (usage_values (ac_charged c)) name = (if v = None then map_of (usage_values caps) name else Some v)) \<and>
     set (ac_unknown_fields c) = {name. map_of (usage_values (ac_observed c)) name = Some None}"
proof -
  from budget_ceiling_valid [OF assms(1)] obtain caps where
    l: "budget_ceiling r = Inr caps" "usage_validate caps = None" by blast
  let ?o = "\<lparr> ua_duration_ms = map_option at_duration_ms telemetry, ua_tool_calls = map_option at_tool_call_count telemetry,
      ua_named_checks = map_option at_named_check_count telemetry, ua_provider_attempts = Some 1,
      ua_repairs = Some (if repair then 1 else 0), ua_input_tokens = Option.bind telemetry at_input_tokens,
      ua_output_tokens = Option.bind telemetry at_output_tokens,
      ua_cost_minor = Option.bind telemetry at_estimated_api_cost_minor \<rparr>"
  let ?c = "usage_zip (\<lambda>v limit. if v = None then limit else v) ?o caps"
  have o: "usage_validate ?o = None"
    using assms(4) by (cases telemetry) (auto simp: usage_valid_iff usage_values_def attempt_telemetry_validate_def)
  have "usage_validate ?c = None"
    by (rule usage_zip_valid [OF o l(2)]) (auto split: if_splits)
  with o l assms(2,3) have p: "project_attempt_charge r telemetry repair = Inr \<lparr> ac_observed = ?o, ac_charged = ?c,
      ac_unknown_fields = map fst (filter (\<lambda>(_, v). v = None) (usage_values ?o)),
      ac_exceeded_fields = map (fst \<circ> fst) (filter (\<lambda>((_, v), (_, limit)). exceeds_limit v limit)
        (zip (usage_values ?o) (usage_values caps))) \<rparr>"
    by (simp add: project_attempt_charge_def usage_make_def)
  have "map_of (usage_values ?c) name = (if v = None then map_of (usage_values caps) name else Some v)"
    if "map_of (usage_values ?o) name = Some v" for name v
    using usage_name_known [OF that, of caps] by (auto simp: usage_zip_at that)
  moreover have "set (map fst (filter (\<lambda>(_, v). v = None) (usage_values ?o))) = {name. map_of (usage_values ?o) name = Some None}"
    using usage_names_distinct [of ?o] by (auto simp: map_of_eq_Some_iff image_iff)
  ultimately show ?thesis using p l(1) fits_charged [OF l(1), of ?o] by auto
qed

theorem attempt_charge_exact_witness:
  "\<exists>c. project_attempt_charge (sample_budget\<lparr> tb_max_provider_attempts := 1, tb_max_repairs := 0 \<rparr>) None False = Inr c \<and>
     ac_exceeded_fields c = [] \<and> ''tool_calls'' \<in> set (ac_unknown_fields c)"
proof -
  let ?r = "sample_budget\<lparr> tb_max_provider_attempts := 1, tb_max_repairs := 0 \<rparr>"
  have v: "valid_budget ?r" by code_simp
  from attempt_charge_exact [OF v, of False None] obtain c where
    c: "project_attempt_charge ?r None False = Inr c" "set (ac_unknown_fields c) = {name. map_of (usage_values (ac_observed c)) name = Some None}"
    by auto
  moreover have "project_attempt_charge ?r None False = Inr c \<Longrightarrow> ac_exceeded_fields c = [] \<and> ua_tool_calls (ac_observed c) = None"
    by (auto simp: project_attempt_charge_def ebind_Inr usage_make_def budget_ceiling_def usage_values_def exceeds_limit_def)
  ultimately show ?thesis by (auto simp: usage_values_def)
qed

end
