(* ===== verification/Forge_Task.thy ===== *)
theory Forge_Task
  imports Forge_Budget Forge_Graph
begin

text \<open>
  Logical task contracts and the task graph of a run, from \<^verbatim>\<open>domain/subscription.py\<close>. A run's
  tasks form a tree under one primary task with scopes that only shrink downwards, crossed by an
  acyclic dependency graph. The dictionaries of the topological count are built differently from the
  ones of the epic graphs, but meet the same interface.
\<close>

section \<open>Contracts\<close>

record acceptance_criterion =
  acr_criterion_id :: string
  acr_description :: string
  acr_required_check_names :: "string list"

definition command_name_fullmatch :: "string \<Rightarrow> bool" where
  "command_name_fullmatch s = (s \<noteq> [] \<and> list_all (\<lambda>c. is_alnum c \<or> c = CHR ''_'' \<or> c = CHR ''-'') s)"

definition has_shell_meta :: "string \<Rightarrow> bool" where
  "has_shell_meta s = (\<exists>c \<in> set s. is_shell_meta c)"

definition acceptance_criterion_validate :: "acceptance_criterion \<Rightarrow> py_exn option" where
  "acceptance_criterion_validate c = seq_raise [
     validate_text 96 (acr_criterion_id c) ''criterion_id'',
     validate_text 2000 (acr_description c) ''description'',
     freeze_texts 32 (acr_required_check_names c) ''required_check_name'',
     each_raise (acr_required_check_names c) (\<lambda>check. when_raise (\<not> command_name_fullmatch check)
       (ValueError (''required check '' @ py_repr check @ '' is invalid'')))]"

record logical_task_contract =
  lt_run_id :: uuid
  lt_task_id :: uuid
  lt_purpose :: specialist_purpose
  lt_route :: route_binding
  lt_budget :: task_budget
  lt_parent_task_id :: "uuid option"
  lt_dependency_task_ids :: "uuid list"
  lt_owned_paths :: "string list"
  lt_typed_acceptance :: "acceptance_criterion list"
  lt_named_checks :: "string list"
  lt_untrusted_context_refs :: "string list"
  lt_max_repairs :: int

definition task_identity_guards :: "logical_task_contract \<Rightarrow> py_exn option" where
  "task_identity_guards t = seq_raise [
     validate_non_nil_uuid (lt_run_id t) ''run_id'',
     validate_non_nil_uuid (lt_task_id t) ''task_id'',
     opt_raise (lt_parent_task_id t) (\<lambda>p. seq_raise [
       validate_non_nil_uuid p ''parent_task_id'',
       when_raise (p = lt_task_id t) (ValueError ''task cannot be its own parent'')]),
     when_raise (lt_purpose t = PRIMARY \<and> rb_requested (lt_route t) \<noteq> rb_effective (lt_route t))
       (ValueError ''primary route substitution is prohibited''),
     when_raise (lt_max_repairs t < 0) (ValueError ''max_repairs must be a nonnegative integer''),
     each_raise (lt_dependency_task_ids t) (\<lambda>dep. seq_raise [
       validate_non_nil_uuid dep ''dependency_task_id'',
       when_raise (dep = lt_task_id t) (ValueError ''task cannot depend on itself'')]),
     when_raise (\<not> distinct (lt_dependency_task_ids t)) (ValueError ''dependency_task_ids must not contain duplicates'')]"

definition task_content_guards :: "bool \<Rightarrow> logical_task_contract \<Rightarrow> py_exn option" where
  "task_content_guards sq t = seq_raise [
     when_raise (is_read_only (lt_purpose t) \<and> lt_owned_paths t \<noteq> [])
       (ValueError (''read-only specialist '' @ purpose_str (lt_purpose t) @ '' cannot own writable paths'')),
     each_raise (lt_named_checks t) (\<lambda>check. seq_raise [
       validate_non_blank_text check ''named_check'',
       when_raise (has_shell_meta check \<or> \<not> command_name_fullmatch check)
         (ValueError (''named check '' @ py_repr check @ '' is invalid''))]),
     validate_durable_payload sq (PList (map PStr (lt_untrusted_context_refs t))),
     when_raise (64 < length (lt_typed_acceptance t)) (ValueError ''typed_acceptance exceeds maximum item count of 64''),
     when_raise (\<not> distinct (map acr_criterion_id (lt_typed_acceptance t)))
       (ValueError ''typed_acceptance must not contain duplicate criterion IDs'')]"

definition logical_task_make :: "bool \<Rightarrow> bool \<Rightarrow> logical_task_contract \<Rightarrow> logical_task_contract result" where
  "logical_task_make nt sq t = (case task_identity_guards t of
     Some e \<Rightarrow> Inl e
   | None \<Rightarrow> ebind (normalize_policy_paths nt (lt_owned_paths t)) (\<lambda>paths.
       let t' = t\<lparr> lt_owned_paths := paths \<rparr> in raising (task_content_guards sq t') t'))"

section \<open>The task graph\<close>

text \<open>\<^verbatim>\<open>policy_path_key(child) == policy_path_key(parent) or ...startswith(policy_path_key(parent) + "/")\<close>\<close>

definition path_under :: "bool \<Rightarrow> string \<Rightarrow> string \<Rightarrow> bool" where
  "path_under nt parent child = (policy_path_key nt child = policy_path_key nt parent \<or>
     starts_with (policy_path_key nt child) (policy_path_key nt parent @ ''/''))"

fun collect_tasks :: "uuid \<Rightarrow> logical_task_contract list \<Rightarrow> (uuid, logical_task_contract) dict \<Rightarrow>
    (uuid, logical_task_contract) dict result" where
  "collect_tasks run_id [] task_map = Inr task_map"
| "collect_tasks run_id (t # ts) task_map =
     (if lt_task_id t \<in> set (map fst task_map) then Inl (ValueError (''duplicate task identifier '' @ uuid_str (lt_task_id t)))
      else if lt_run_id t \<noteq> run_id then Inl (ValueError ''tasks contain mismatched run identifiers (foreign lineage)'')
      else collect_tasks run_id ts (dict_set (lt_task_id t) t task_map))"

definition check_parent :: "bool \<Rightarrow> (uuid, logical_task_contract) dict \<Rightarrow> logical_task_contract \<Rightarrow> py_exn option" where
  "check_parent nt task_map t = opt_raise (lt_parent_task_id t) (\<lambda>p. case map_of task_map p of
     None \<Rightarrow> Some (ValueError (''task '' @ uuid_str (lt_task_id t) @ '' parent '' @ uuid_str p @ '' does not exist in run''))
   | Some parent \<Rightarrow> seq_raise [
       when_raise (\<not> can_delegate (lt_purpose parent))
         (ValueError (''parent task '' @ uuid_str (lt_task_id parent) @ '' with purpose '' @ purpose_str (lt_purpose parent) @ '' cannot delegate'')),
       each_raise (lt_owned_paths t) (\<lambda>child_path.
         when_raise (\<not> (\<exists>parent_path \<in> set (lt_owned_paths parent). path_under nt parent_path child_path))
           (ValueError (''child task '' @ uuid_str (lt_task_id t) @ '' escalates scope with path '' @ child_path)))])"

definition check_dependencies :: "(uuid, logical_task_contract) dict \<Rightarrow> logical_task_contract \<Rightarrow> py_exn option" where
  "check_dependencies task_map t = each_raise (lt_dependency_task_ids t) (\<lambda>dep.
     when_raise (dep \<notin> set (map fst task_map))
       (ValueError (''task '' @ uuid_str (lt_task_id t) @ '' depends on task '' @ uuid_str dep @ '' which does not exist in run'')))"

text \<open>\<^verbatim>\<open>while current.parent_task_id is not None: ...\<close>\<close>

function parent_walk :: "(uuid, logical_task_contract) dict \<Rightarrow> uuid \<Rightarrow> uuid list \<Rightarrow> logical_task_contract \<Rightarrow> py_exn option" where
  "parent_walk task_map task_id ancestors current = (case lt_parent_task_id current of
     None \<Rightarrow> None
   | Some p \<Rightarrow> if p \<in> set ancestors \<or> p = task_id then Some (ValueError ''task parents contain a cycle'')
       else (case map_of task_map p of
          None \<Rightarrow> Some (KeyError ''missing key'')
        | Some parent \<Rightarrow> parent_walk task_map task_id (p # ancestors) parent))"
  by pat_completeness auto

termination parent_walk
  by (relation "measure (\<lambda>(task_map, task_id, ancestors, current). card (dom (map_of task_map) - set ancestors))")
    (auto simp: search_shrinks)

declare parent_walk.simps [simp del]

fun dag_link_deps :: "uuid list \<Rightarrow> uuid \<Rightarrow> (uuid, uuid list) dict \<Rightarrow> (uuid, int) dict \<Rightarrow>
    ((uuid, uuid list) dict \<times> (uuid, int) dict) result" where
  "dag_link_deps [] n graph in_degree = Inr (graph, in_degree)"
| "dag_link_deps (d # ds) n graph in_degree =
     ebind (dict_at graph d) (\<lambda>l. ebind (dict_at in_degree n) (\<lambda>c.
       dag_link_deps ds n (dict_set d (l @ [n]) graph) (dict_set n (c + 1) in_degree)))"

fun dag_link :: "logical_task_contract list \<Rightarrow> (uuid, uuid list) dict \<Rightarrow> (uuid, int) dict \<Rightarrow>
    ((uuid, uuid list) dict \<times> (uuid, int) dict) result" where
  "dag_link [] graph in_degree = Inr (graph, in_degree)"
| "dag_link (t # ts) graph in_degree =
     ebind (dag_link_deps (lt_dependency_task_ids t) (lt_task_id t) graph in_degree) (\<lambda>(graph', in_degree').
       dag_link ts graph' in_degree')"

definition dag_tables :: "logical_task_contract list \<Rightarrow> ((uuid, uuid list) dict \<times> (uuid, int) dict) result" where
  "dag_tables ts = dag_link ts (dict_build lt_task_id (\<lambda>_. []) ts []) (dict_build lt_task_id (\<lambda>_. 0) ts [])"

definition validate_dag_order :: "logical_task_contract list \<Rightarrow> py_exn option" where
  "validate_dag_order ts = (case dag_tables ts of
       Inl e \<Rightarrow> Some e
     | Inr (graph, in_degree) \<Rightarrow>
         (case kahn_loop graph (zero_keys in_degree) in_degree 0 of
            Inl e \<Rightarrow> Some e
          | Inr visited \<Rightarrow> when_raise (visited \<noteq> length ts) (ValueError ''task dependencies contain a cycle'')))"

definition validate_roots :: "logical_task_contract list \<Rightarrow> py_exn option" where
  "validate_roots ts = (let roots = filter (\<lambda>t. lt_parent_task_id t = None) ts;
       primaries = filter (\<lambda>t. lt_purpose t = PRIMARY) roots in seq_raise [
     when_raise (length primaries \<noteq> 1) (ValueError ''run must contain exactly one primary root task''),
     when_raise (length roots \<noteq> 1) (ValueError ''run must not contain worker root tasks'')])"

definition validate_task_dag :: "bool \<Rightarrow> logical_task_contract list \<Rightarrow> py_exn option" where
  "validate_task_dag nt ts = (case ts of [] \<Rightarrow> None | t0 # _ \<Rightarrow>
     (case collect_tasks (lt_run_id t0) ts [] of
        Inl e \<Rightarrow> Some e
      | Inr task_map \<Rightarrow> seq_raise [
          each_raise ts (\<lambda>t. seq_raise [check_parent nt task_map t, check_dependencies task_map t]),
          each_raise ts (\<lambda>t. parent_walk task_map (lt_task_id t) [] t),
          validate_dag_order ts,
          validate_roots ts]))"

section \<open>The task graph meets the interface of the topological count\<close>

lemma dag_link_deps_result:
  assumes "set ds \<subseteq> dom (map_of graph)" and "map_of in_degree n = Some c"
  shows "\<exists>graph' in_degree'. dag_link_deps ds n graph in_degree = Inr (graph', in_degree') \<and> link_deps ds n graph = Inr graph' \<and>
     map fst in_degree' = map fst in_degree \<and> map_of in_degree' = (map_of in_degree)(n \<mapsto> c + int (length ds))"
  using assms
proof (induction ds arbitrary: graph in_degree c)
  case Nil
  then show ?case by (auto simp: fun_upd_idem)
next
  case (Cons d ds)
  then obtain l where l: "map_of graph d = Some l" by auto
  let ?g = "dict_set d (l @ [n]) graph" and ?r = "dict_set n (c + 1) in_degree"
  have "set ds \<subseteq> dom (map_of ?g)" using Cons.prems by (fastforce simp: update_conv')
  moreover have "map_of ?r n = Some (c + 1)" by (simp add: update_conv')
  ultimately obtain g' r' where r: "dag_link_deps ds n ?g ?r = Inr (g', r')" "link_deps ds n ?g = Inr g'"
    "map fst r' = map fst ?r" "map_of r' = (map_of ?r)(n \<mapsto> c + 1 + int (length ds))"
    using Cons.IH by blast
  have "map fst ?r = map fst in_degree"
    using Cons.prems(2) by (subst update_keys) (auto simp: dom_map_of_conv_image_fst [symmetric])
  with r l Cons.prems(2) show ?case by (auto simp: dict_at_def update_conv' algebra_simps)
qed

lemma dag_link_result:
  assumes "\<forall>t \<in> set ts. set (lt_dependency_task_ids t) \<subseteq> dom (map_of graph)" and "\<forall>t \<in> set ts. lt_task_id t \<in> dom (map_of in_degree)"
    and "distinct (map lt_task_id ts)"
  shows "\<exists>graph' in_degree'. dag_link ts graph in_degree = Inr (graph', in_degree') \<and>
     link_items lt_task_id lt_dependency_task_ids ts graph = Inr graph' \<and> map fst in_degree' = map fst in_degree \<and>
     (\<forall>t \<in> set ts. map_of in_degree' (lt_task_id t) =
        map_option (\<lambda>c. c + int (length (lt_dependency_task_ids t))) (map_of in_degree (lt_task_id t))) \<and>
     (\<forall>k. k \<notin> lt_task_id ` set ts \<longrightarrow> map_of in_degree' k = map_of in_degree k)"
  using assms
proof (induction ts arbitrary: graph in_degree)
  case Nil
  then show ?case by auto
next
  case (Cons t ts)
  from Cons.prems(2) obtain c where c: "map_of in_degree (lt_task_id t) = Some c" by auto
  from dag_link_deps_result [OF _ c, of "lt_dependency_task_ids t" graph] Cons.prems(1) obtain g1 r1 where
    s1: "dag_link_deps (lt_dependency_task_ids t) (lt_task_id t) graph in_degree = Inr (g1, r1)"
      "link_deps (lt_dependency_task_ids t) (lt_task_id t) graph = Inr g1" "map fst r1 = map fst in_degree"
      "map_of r1 = (map_of in_degree)(lt_task_id t \<mapsto> c + int (length (lt_dependency_task_ids t)))" by auto
  have "dom (map_of g1) = dom (map_of graph)"
    using link_deps_result [of "lt_dependency_task_ids t" graph "lt_task_id t"] Cons.prems(1) s1(2) by (auto simp: dom_def)
  then have "\<forall>u \<in> set ts. set (lt_dependency_task_ids u) \<subseteq> dom (map_of g1)" using Cons.prems(1) by simp
  moreover have "\<forall>u \<in> set ts. lt_task_id u \<in> dom (map_of r1)" using Cons.prems(2) s1(4) by auto
  moreover have "distinct (map lt_task_id ts)" using Cons.prems(3) by simp
  ultimately obtain g2 r2 where s2: "dag_link ts g1 r1 = Inr (g2, r2)"
      "link_items lt_task_id lt_dependency_task_ids ts g1 = Inr g2" "map fst r2 = map fst r1"
      "\<forall>u \<in> set ts. map_of r2 (lt_task_id u) =
         map_option (\<lambda>c. c + int (length (lt_dependency_task_ids u))) (map_of r1 (lt_task_id u))"
      "\<forall>k. k \<notin> lt_task_id ` set ts \<longrightarrow> map_of r2 k = map_of r1 k"
    using Cons.IH by blast
  have fresh: "lt_task_id t \<notin> lt_task_id ` set ts" using Cons.prems(3) by simp
  then have "\<forall>u \<in> set ts. lt_task_id u \<noteq> lt_task_id t" by (metis imageI)
  with s1 s2 c fresh show ?case by auto
qed

lemma map_of_const_build:
  "map_of (dict_build k (\<lambda>_. v) xs []) j = (if j \<in> k ` set xs then Some v else None)"
proof -
  have "map_of (dict_build k (\<lambda>_. v) xs d) j = (if j \<in> k ` set xs then Some v else map_of d j)" for d
    by (induction xs arbitrary: d) (auto simp: update_conv')
  then show ?thesis by simp
qed

lemma dag_tables_ok:
  assumes shape: "graph_shape lt_task_id lt_dependency_task_ids ts"
  shows "\<exists>dp rm. dag_tables ts = Inr (dp, rm) \<and> tables_ok (map lt_task_id ts) (deps_of lt_task_id lt_dependency_task_ids ts) dp rm"
proof -
  let ?g = "dict_build lt_task_id (\<lambda>_. []) ts [] :: (uuid, uuid list) dict"
  let ?r = "dict_build lt_task_id (\<lambda>_. 0) ts [] :: (uuid, int) dict"
  have dist: "distinct (map lt_task_id ts)" using shape by (simp add: graph_shape_def)
  have g: "map_of ?g k = (if k \<in> set (map lt_task_id ts) then Some [] else None)"
    and r: "map_of ?r k = (if k \<in> set (map lt_task_id ts) then Some 0 else None)" for k
    by (simp_all add: map_of_const_build)
  then have dg: "dom (map_of ?g) = set (map lt_task_id ts)" and dr: "dom (map_of ?r) = set (map lt_task_id ts)"
    by (auto simp: dom_def)
  from dag_link_result [of ts ?g ?r] shape dg dr dist obtain dp rm where
    l: "dag_link ts ?g ?r = Inr (dp, rm)" "link_items lt_task_id lt_dependency_task_ids ts ?g = Inr dp" "map fst rm = map fst ?r"
      "\<forall>t \<in> set ts. map_of rm (lt_task_id t) =
         map_option (\<lambda>c. c + int (length (lt_dependency_task_ids t))) (map_of ?r (lt_task_id t))"
    by (auto simp: graph_shape_def)
  have "tables_ok (map lt_task_id ts) (deps_of lt_task_id lt_dependency_task_ids ts) dp rm"
  proof (rule tables_from_links [OF shape])
    show "\<forall>k. map_of dp k = (if k \<in> set (map lt_task_id ts)
       then Some (concat (map (\<lambda>x. replicate (count_list (lt_dependency_task_ids x) k) (lt_task_id x)) ts)) else None)"
      using link_items_result [of ts lt_dependency_task_ids ?g lt_task_id] shape dg l(2) g by (auto simp: graph_shape_def)
    have "distinct (map fst ?r)" by (rule dict_build_distinct_keys) simp
    with l(3) show "distinct (map fst rm)" by simp
    have "dom (map_of rm) = set (map fst rm)" by (simp add: dom_map_of_conv_image_fst)
    also have "\<dots> = dom (map_of ?r)" using l(3) by (metis dom_map_of_conv_image_fst image_set)
    finally show "dom (map_of rm) = set (map lt_task_id ts)" using dr by simp
    show "\<forall>x \<in> set ts. map_of rm (lt_task_id x) = Some (int (length (lt_dependency_task_ids x)))"
      using l(4) r by simp
  qed
  with l(1) show ?thesis by (simp add: dag_tables_def)
qed

interpretation task_graph: dependency_graph lt_task_id lt_dependency_task_ids dag_tables
  by unfold_locales (rule dag_tables_ok)

section \<open>What the validation accepts\<close>

lemma collect_tasks_Inr:
  "collect_tasks run_id ts m = Inr r \<longleftrightarrow> r = m @ map (\<lambda>t. (lt_task_id t, t)) ts \<and> distinct (map lt_task_id ts) \<and>
     lt_task_id ` set ts \<inter> set (map fst m) = {} \<and> (\<forall>t \<in> set ts. lt_run_id t = run_id)"
proof (induction run_id ts m rule: collect_tasks.induct)
  case (2 run_id t ts m)
  show ?case
  proof (cases "lt_task_id t \<in> set (map fst m) \<or> lt_run_id t \<noteq> run_id")
    case True
    then show ?thesis by auto
  next
    case False
    with 2 show ?thesis by (auto simp: dict_set_fresh)
  qed
qed auto

definition task_map_of :: "logical_task_contract list \<Rightarrow> (uuid, logical_task_contract) dict" where
  "task_map_of ts = map (\<lambda>t. (lt_task_id t, t)) ts"

lemma map_of_task_map:
  assumes "distinct (map lt_task_id ts)"
  shows "map_of (task_map_of ts) k = Some t \<longleftrightarrow> t \<in> set ts \<and> lt_task_id t = k"
  using assms by (auto simp: task_map_of_def map_of_eq_Some_iff comp_def)

lemma task_map_keys: "set (map fst (task_map_of ts)) = lt_task_id ` set ts"
  by (simp add: task_map_of_def image_image)

definition parent_edges :: "logical_task_contract list \<Rightarrow> (uuid \<times> uuid) set" where
  "parent_edges ts = {(lt_task_id t, p) | t p. t \<in> set ts \<and> lt_parent_task_id t = Some p}"

lemma parent_edges_unique:
  assumes "distinct (map lt_task_id ts)" and "t \<in> set ts"
  shows "(lt_task_id t, p) \<in> parent_edges ts \<longleftrightarrow> lt_parent_task_id t = Some p"
  using assms by (auto simp: parent_edges_def distinct_map dest: inj_onD)

text \<open>Walking up from a task returns normally exactly when the walk meets no cycle through it.\<close>

lemma parent_walk_no_return:
  assumes "distinct (map lt_task_id ts)"
  shows "parent_walk (task_map_of ts) start ancestors current = None \<Longrightarrow> current \<in> set ts \<Longrightarrow>
    (lt_task_id current, start) \<notin> (parent_edges ts)\<^sup>+"
proof (induction "task_map_of ts" start ancestors current rule: parent_walk.induct)
  case (1 start ancestors current)
  show ?case
  proof (cases "lt_parent_task_id current")
    case None
    then show ?thesis using parent_edges_unique [OF assms 1(3)] by (metis option.distinct(1) tranclD)
  next
    case (Some p)
    from 1(2) Some obtain parent where p: "p \<noteq> start" "map_of (task_map_of ts) p = Some parent" "p \<notin> set ancestors"
      "parent_walk (task_map_of ts) start (p # ancestors) parent = None"
      by (subst (asm) parent_walk.simps) (auto split: if_splits option.splits)
    then have "parent \<in> set ts" "lt_task_id parent = p" using map_of_task_map [OF assms] by auto
    with 1(1) [OF Some _ p(2,4)] p have "(p, start) \<notin> (parent_edges ts)\<^sup>+" by simp
    with p(1) Some show ?thesis using parent_edges_unique [OF assms 1(3)] by (metis option.inject tranclD rtrancl_eq_or_trancl)
  qed
qed

lemma parent_walk_returns:
  assumes dist: "distinct (map lt_task_id ts)" and ac: "acyclic (parent_edges ts)"
    and closed: "\<forall>t \<in> set ts. \<forall>p. lt_parent_task_id t = Some p \<longrightarrow> p \<in> lt_task_id ` set ts"
  shows "current \<in> set ts \<Longrightarrow> \<forall>a \<in> insert start (set ancestors). (a, lt_task_id current) \<in> (parent_edges ts)\<^sup>* \<Longrightarrow>
    parent_walk (task_map_of ts) start ancestors current = None"
proof (induction "task_map_of ts" start ancestors current rule: parent_walk.induct)
  case (1 start ancestors current)
  show ?case
  proof (cases "lt_parent_task_id current")
    case None
    then show ?thesis by (subst parent_walk.simps) simp
  next
    case (Some p)
    then have e: "(lt_task_id current, p) \<in> parent_edges ts" using parent_edges_unique [OF dist 1(2)] by simp
    from closed 1(2) Some obtain parent where par: "parent \<in> set ts" "lt_task_id parent = p" by blast
    then have m: "map_of (task_map_of ts) p = Some parent" using map_of_task_map [OF dist] by simp
    have new: "\<not> (p \<in> set ancestors \<or> p = start)"
    proof
      assume "p \<in> set ancestors \<or> p = start"
      with 1(3) e have "(p, p) \<in> (parent_edges ts)\<^sup>+" by (metis insert_iff rtrancl_into_trancl1)
      with ac show False by (simp add: acyclic_def)
    qed
    have "\<forall>a \<in> insert start (set (p # ancestors)). (a, lt_task_id parent) \<in> (parent_edges ts)\<^sup>*"
      using 1(3) e par(2) by (auto intro: rtrancl_into_rtrancl)
    with 1(1) [OF Some new m par(1)] have "parent_walk (task_map_of ts) start (p # ancestors) parent = None" by simp
    with Some new m show ?thesis by (subst parent_walk.simps) simp
  qed
qed

lemma parent_walks_acyclic:
  assumes "distinct (map lt_task_id ts)"
    and "\<forall>t \<in> set ts. \<forall>p. lt_parent_task_id t = Some p \<longrightarrow> p \<in> lt_task_id ` set ts"
  shows "(\<forall>t \<in> set ts. parent_walk (task_map_of ts) (lt_task_id t) [] t = None) \<longleftrightarrow> acyclic (parent_edges ts)"
proof
  assume walks: "\<forall>t \<in> set ts. parent_walk (task_map_of ts) (lt_task_id t) [] t = None"
  show "acyclic (parent_edges ts)"
  proof (rule acyclicI, intro allI notI)
    fix x assume x: "(x, x) \<in> (parent_edges ts)\<^sup>+"
    then obtain t where "t \<in> set ts" "lt_task_id t = x" by (auto simp: parent_edges_def dest!: tranclD)
    with walks parent_walk_no_return [OF assms(1)] x show False by blast
  qed
next
  assume "acyclic (parent_edges ts)"
  then show "\<forall>t \<in> set ts. parent_walk (task_map_of ts) (lt_task_id t) [] t = None"
    using parent_walk_returns [OF assms(1) _ assms(2)] by auto
qed

text \<open>The specification of a run's task graph.\<close>

definition well_formed_dag :: "bool \<Rightarrow> logical_task_contract list \<Rightarrow> bool" where
  "well_formed_dag nt ts \<longleftrightarrow>
     graph_shape lt_task_id lt_dependency_task_ids ts \<and> (\<forall>t \<in> set ts. \<forall>u \<in> set ts. lt_run_id t = lt_run_id u) \<and>
     (\<forall>t \<in> set ts. \<forall>p. lt_parent_task_id t = Some p \<longrightarrow> (\<exists>u \<in> set ts. lt_task_id u = p \<and> lt_purpose u = PRIMARY \<and>
        (\<forall>c \<in> set (lt_owned_paths t). \<exists>q \<in> set (lt_owned_paths u). path_under nt q c))) \<and>
     acyclic (parent_edges ts) \<and> acyclic (item_edges lt_task_id lt_dependency_task_ids ts) \<and>
     (\<exists>root \<in> set ts. lt_purpose root = PRIMARY \<and> (\<forall>t \<in> set ts. lt_parent_task_id t = None \<longleftrightarrow> t = root))"

lemma check_parent_None:
  assumes "distinct (map lt_task_id ts)"
  shows "check_parent nt (task_map_of ts) t = None \<longleftrightarrow> (\<forall>p. lt_parent_task_id t = Some p \<longrightarrow>
     (\<exists>u \<in> set ts. lt_task_id u = p \<and> lt_purpose u = PRIMARY \<and>
        (\<forall>c \<in> set (lt_owned_paths t). \<exists>q \<in> set (lt_owned_paths u). path_under nt q c)))"
proof (cases "lt_parent_task_id t")
  case None
  then show ?thesis by (simp add: check_parent_def)
next
  case (Some p)
  show ?thesis
  proof (cases "map_of (task_map_of ts) p")
    case None
    then have "\<not> (\<exists>u \<in> set ts. lt_task_id u = p)" using map_of_task_map [OF assms] by (metis option.distinct(1))
    with Some None show ?thesis by (auto simp: check_parent_def)
  next
    case m: (Some u)
    then have u: "u \<in> set ts" "lt_task_id u = p" using map_of_task_map [OF assms] by auto
    have "v = u" if "v \<in> set ts" "lt_task_id v = p" for v
      using that u assms by (metis distinct_map inj_onD)
    with u have ex: "(\<exists>v \<in> set ts. lt_task_id v = p \<and> F v) \<longleftrightarrow> F u" for F by blast
    show ?thesis unfolding check_parent_def Some opt_raise_simps m option.case option.inject can_delegate_def
      by (simp add: ex)
  qed
qed

lemma check_dependencies_None:
  "check_dependencies (task_map_of ts) t = None \<longleftrightarrow> set (lt_dependency_task_ids t) \<subseteq> lt_task_id ` set ts"
  unfolding check_dependencies_def task_map_keys by auto

lemma validate_dag_order_None:
  "graph_shape lt_task_id lt_dependency_task_ids ts \<Longrightarrow>
   validate_dag_order ts = when_raise (\<not> acyclic (item_edges lt_task_id lt_dependency_task_ids ts))
     (ValueError ''task dependencies contain a cycle'')"
  using task_graph.topological_count [of ts] by (auto simp: validate_dag_order_def)

lemma singleton_filter:
  "distinct xs \<Longrightarrow> length (filter P xs) = 1 \<longleftrightarrow> (\<exists>r \<in> set xs. \<forall>t \<in> set xs. P t \<longleftrightarrow> t = r)"
proof (induction xs)
  case (Cons x xs)
  then show ?case by (cases "P x") (auto simp: filter_empty_conv)
qed simp

lemma validate_roots_None:
  assumes "distinct ts"
  shows "validate_roots ts = None \<longleftrightarrow>
    (\<exists>root \<in> set ts. lt_purpose root = PRIMARY \<and> (\<forall>t \<in> set ts. lt_parent_task_id t = None \<longleftrightarrow> t = root))"
proof -
  let ?P = "\<lambda>t. lt_parent_task_id t = None" and ?Q = "\<lambda>t. lt_purpose t = PRIMARY"
  have "validate_roots ts = None \<longleftrightarrow> length (filter ?Q (filter ?P ts)) = 1 \<and> length (filter ?P ts) = 1"
    by (simp add: validate_roots_def Let_def)
  also have "\<dots> \<longleftrightarrow> (\<exists>r \<in> set ts. ?Q r \<and> (\<forall>t \<in> set ts. ?P t \<longleftrightarrow> t = r))"
  proof
    assume l: "length (filter ?Q (filter ?P ts)) = 1 \<and> length (filter ?P ts) = 1"
    then obtain r where r: "filter ?P ts = [r]" by (auto simp: length_Suc_conv)
    with l have "?Q r" by (cases "?Q r") (auto simp del: filter_filter)
    moreover have "t \<in> set ts \<and> ?P t \<longleftrightarrow> t = r" for t
    proof -
      have "t \<in> set (filter ?P ts) \<longleftrightarrow> t = r" unfolding r by simp
      then show ?thesis by simp
    qed
    ultimately show "\<exists>r \<in> set ts. ?Q r \<and> (\<forall>t \<in> set ts. ?P t \<longleftrightarrow> t = r)" by blast
  next
    assume "\<exists>r \<in> set ts. ?Q r \<and> (\<forall>t \<in> set ts. ?P t \<longleftrightarrow> t = r)"
    then obtain r where r: "r \<in> set ts" "?Q r" "\<forall>t \<in> set ts. ?P t \<longleftrightarrow> t = r" by blast
    with singleton_filter [OF assms, of ?P] have "length (filter ?P ts) = 1" by blast
    then obtain r' where f: "filter ?P ts = [r']" by (auto simp: length_Suc_conv)
    then have "r' \<in> set (filter ?P ts)" by simp
    then have "r' \<in> set ts \<and> ?P r'" by simp
    with r have "r' = r" by blast
    with f r(2) show "length (filter ?Q (filter ?P ts)) = 1 \<and> length (filter ?P ts) = 1" by simp
  qed
  finally show ?thesis .
qed

lemma distinct_tasks: "distinct (map lt_task_id ts) \<Longrightarrow> distinct ts"
  by (simp add: distinct_map)

lemma collect_tasks_ok:
  assumes "ts = t0 # rest"
  shows "collect_tasks (lt_run_id t0) ts [] = Inr m \<longleftrightarrow> m = task_map_of ts \<and> distinct (map lt_task_id ts) \<and>
     (\<forall>t \<in> set ts. \<forall>u \<in> set ts. lt_run_id t = lt_run_id u)"
  unfolding collect_tasks_Inr task_map_of_def using assms by auto

lemma walk_error: "parent_walk m start ancestors current \<noteq> Some (KeyError k)"
  if "\<forall>t \<in> set (map snd m). \<forall>p. lt_parent_task_id t = Some p \<longrightarrow> p \<in> dom (map_of m)" "current \<in> set (map snd m)"
  using that
proof (induction m start ancestors current rule: parent_walk.induct)
  case (1 m start ancestors current)
  show ?case
  proof (cases "lt_parent_task_id current")
    case None
    then show ?thesis by (subst parent_walk.simps) simp
  next
    case (Some p)
    with 1(2,3) obtain parent where m: "map_of m p = Some parent" by fastforce
    then have "parent \<in> set (map snd m)" by (metis map_of_SomeD set_map snd_conv image_eqI)
    with 1(1) [OF Some _ m 1(2)] Some m show ?thesis by (subst parent_walk.simps) simp
  qed
qed

lemma collect_error: "collect_tasks run_id ts m \<noteq> Inl (KeyError k)"
  by (induction run_id ts m rule: collect_tasks.induct) auto

lemma check_task_error: "check_parent nt m t \<noteq> Some (KeyError k)" "check_dependencies m t \<noteq> Some (KeyError k)"
  by (auto simp: check_parent_def check_dependencies_def opt_raise_def when_raise_def seq_raise_pair
    dest!: each_raise_Some_in split: option.splits if_splits)

lemma validate_task_dag_result:
  assumes "ts \<noteq> []"
  shows "(validate_task_dag nt ts = None \<longleftrightarrow> well_formed_dag nt ts) \<and> validate_task_dag nt ts \<noteq> Some (KeyError k)"
proof -
  obtain t0 rest where ts: "ts = t0 # rest" using assms by (cases ts) auto
  show ?thesis
  proof (cases "collect_tasks (lt_run_id t0) ts []")
    case (Inl e)
    then have "\<not> well_formed_dag nt ts"
      using collect_tasks_ok [OF ts, of "task_map_of ts"] by (auto simp: well_formed_dag_def graph_shape_def)
    moreover have "validate_task_dag nt ts = Some e" using Inl ts by (simp add: validate_task_dag_def)
    ultimately show ?thesis using Inl collect_error by auto
  next
    case (Inr m)
    then have m: "m = task_map_of ts" and dist: "distinct (map lt_task_id ts)"
      and run: "\<forall>t \<in> set ts. \<forall>u \<in> set ts. lt_run_id t = lt_run_id u" using collect_tasks_ok [OF ts, of m] by blast+
    let ?each = "each_raise ts (\<lambda>t. seq_raise [check_parent nt m t, check_dependencies m t])"
    let ?walks = "each_raise ts (\<lambda>t. parent_walk m (lt_task_id t) [] t)"
    have v: "validate_task_dag nt ts = seq_raise [?each, ?walks, validate_dag_order ts, validate_roots ts]"
      using Inr ts by (simp add: validate_task_dag_def)
    show ?thesis
    proof (cases ?each)
      case None
      then have par: "\<forall>t \<in> set ts. \<forall>p. lt_parent_task_id t = Some p \<longrightarrow> (\<exists>u \<in> set ts. lt_task_id u = p \<and> lt_purpose u = PRIMARY \<and>
          (\<forall>c \<in> set (lt_owned_paths t). \<exists>q \<in> set (lt_owned_paths u). path_under nt q c))"
        and shape: "graph_shape lt_task_id lt_dependency_task_ids ts"
        using check_parent_None [OF dist] check_dependencies_None dist by (auto simp: m graph_shape_def)
      from par have closed: "\<forall>t \<in> set ts. \<forall>p. lt_parent_task_id t = Some p \<longrightarrow> p \<in> lt_task_id ` set ts" by blast
      have w: "?walks = None \<longleftrightarrow> acyclic (parent_edges ts)"
        using parent_walks_acyclic [OF dist closed] by (simp add: m)
      have wk: "?walks \<noteq> Some (KeyError k)"
      proof
        assume "?walks = Some (KeyError k)"
        then obtain t where t: "t \<in> set ts" "parent_walk m (lt_task_id t) [] t = Some (KeyError k)" by (auto dest: each_raise_Some_in)
        have "dom (map_of m) = lt_task_id ` set ts" by (simp add: m task_map_of_def dom_map_of_conv_image_fst image_image)
        moreover have "set (map snd m) = set ts" by (simp add: m task_map_of_def image_image)
        ultimately show False using walk_error [of m t] t closed by simp
      qed
      have rk: "validate_roots ts \<noteq> Some (KeyError k)" by (simp add: validate_roots_def Let_def seq_raise_pair when_raise_def)
      note order = validate_dag_order_None [OF shape]
      have "validate_task_dag nt ts = None \<longleftrightarrow> acyclic (parent_edges ts) \<and>
          acyclic (item_edges lt_task_id lt_dependency_task_ids ts) \<and> validate_roots ts = None"
        unfolding v None order seq_raise_Cons_None w by simp
      also have "\<dots> \<longleftrightarrow> well_formed_dag nt ts"
        unfolding well_formed_dag_def validate_roots_None [OF distinct_tasks [OF dist]] using par shape run by blast
      finally have iff: "validate_task_dag nt ts = None \<longleftrightarrow> well_formed_dag nt ts" .
      have "validate_task_dag nt ts \<noteq> Some (KeyError k)"
      proof
        assume "validate_task_dag nt ts = Some (KeyError k)"
        then have "Some (KeyError k) \<in> {?walks, validate_dag_order ts, validate_roots ts}"
          unfolding v None by (auto dest: seq_raise_Some_in)
        with wk rk show False unfolding order by (auto simp: when_raise_def split: if_splits)
      qed
      with iff show ?thesis by blast
    next
      case (Some e)
      then obtain t where t: "t \<in> set ts" "seq_raise [check_parent nt m t, check_dependencies m t] = Some e"
        by (auto dest: each_raise_Some_in)
      then have "\<not> (check_parent nt m t = None \<and> check_dependencies m t = None)" by (auto simp: seq_raise_pair)
      then have "\<not> well_formed_dag nt ts"
        using t(1) check_parent_None [OF dist, of nt t] check_dependencies_None [of ts t]
        unfolding m well_formed_dag_def graph_shape_def by (metis set_map)
      moreover have "e \<noteq> KeyError k" using t(2) check_task_error by (auto simp: seq_raise_pair split: option.splits)
      moreover have "validate_task_dag nt ts = Some e" unfolding v by (simp add: Some)
      ultimately show ?thesis by simp
    qed
  qed
qed



definition sample_task :: "uuid \<Rightarrow> specialist_purpose \<Rightarrow> uuid option \<Rightarrow> uuid list \<Rightarrow> string list \<Rightarrow> logical_task_contract" where
  "sample_task i purpose parent deps paths = \<lparr> lt_run_id = 9, lt_task_id = i, lt_purpose = purpose, lt_route = sample_binding ''m'',
     lt_budget = sample_budget, lt_parent_task_id = parent, lt_dependency_task_ids = deps, lt_owned_paths = paths,
     lt_typed_acceptance = [], lt_named_checks = [], lt_untrusted_context_refs = [], lt_max_repairs = 1 \<rparr>"

definition sample_dag :: "logical_task_contract list" where
  "sample_dag = [sample_task 1 PRIMARY None [] [''src''], sample_task 2 SECURITY (Some 1) [] [],
     sample_task 3 ROUTINE_IMPLEMENTATION (Some 1) [2] [''src/a'']]"

lemma sample_dag_valid: "validate_task_dag False sample_dag = None"
proof -
  have "validate_dag_order sample_dag = None"
    by (simp add: sample_dag_def sample_task_def validate_dag_order_def dag_tables_def dict_at_def zero_keys_def kahn_loop.simps)
  moreover have "validate_roots sample_dag = None"
    by (simp add: sample_dag_def sample_task_def validate_roots_def)
  moreover have "path_under False ''src'' ''src/a''" by code_simp
  ultimately show ?thesis
    by (simp add: validate_task_dag_def sample_dag_def sample_task_def check_parent_def check_dependencies_def can_delegate_def
      parent_walk.simps)
qed


section \<open>Authority only shrinks\<close>

lemma path_under_trans: "path_under nt a b \<Longrightarrow> path_under nt b c \<Longrightarrow> path_under nt a c"
  by (auto simp: path_under_def starts_with_iff)

lemma well_formed_ancestor:
  assumes wf: "well_formed_dag nt ts" and rt: "rt \<in> set ts" "lt_parent_task_id rt = None"
    and t: "t \<in> set ts"
  shows "\<forall>c \<in> set (lt_owned_paths t). \<exists>q \<in> set (lt_owned_paths rt). path_under nt q c"
proof -
  have one: "\<forall>u \<in> set ts. lt_parent_task_id u = None \<longrightarrow> u = rt"
    using wf rt unfolding well_formed_dag_def by metis
  have up: "\<exists>u \<in> set ts. lt_task_id u = p \<and> (\<forall>c \<in> set (lt_owned_paths v). \<exists>q \<in> set (lt_owned_paths u). path_under nt q c)"
    if "v \<in> set ts" "lt_parent_task_id v = Some p" for v p
    using wf that unfolding well_formed_dag_def by blast
  have "parent_edges ts \<subseteq> lt_task_id ` set ts \<times> lt_task_id ` set ts"
    using up by (auto simp: parent_edges_def)
  then have "finite ((parent_edges ts)\<inverse>)" by (auto intro: finite_subset)
  moreover have "acyclic ((parent_edges ts)\<inverse>)" using wf by (simp add: well_formed_dag_def)
  ultimately have "wf ((parent_edges ts)\<inverse>)" by (rule finite_acyclic_wf)
  then have "\<forall>v \<in> set ts. lt_task_id v = k \<longrightarrow>
      (\<forall>c \<in> set (lt_owned_paths v). \<exists>q \<in> set (lt_owned_paths rt). path_under nt q c)" for k
  proof (induction k rule: wf_induct_rule)
    case (less k)
    show ?case
    proof (intro ballI impI)
      fix v c assume v: "v \<in> set ts" "lt_task_id v = k" and c: "c \<in> set (lt_owned_paths v)"
      show "\<exists>q \<in> set (lt_owned_paths rt). path_under nt q c"
      proof (cases "lt_parent_task_id v")
        case None
        with one v(1) c show ?thesis by (auto simp: path_under_def)
      next
        case (Some p)
        with up [OF v(1)] c obtain u q where u: "u \<in> set ts" "lt_task_id u = p" "q \<in> set (lt_owned_paths u)" "path_under nt q c" by blast
        have "(p, k) \<in> (parent_edges ts)\<inverse>" using v Some by (auto simp: parent_edges_def)
        from less.IH [OF this] u path_under_trans show ?thesis by blast
      qed
    qed
  qed
  with t show ?thesis by blast
qed

text \<open>No delegation chain escapes the run's scope: in a validated task graph there is one root, it is
  primary, every other task has a primary parent, and every path owned by any task, however deep, is
  a path of the root or lies below one.\<close>

theorem task_scopes_within_root:
  assumes "validate_task_dag nt ts = None" and "t \<in> set ts"
  shows "\<exists>rt \<in> set ts. lt_purpose rt = PRIMARY \<and> lt_parent_task_id rt = None \<and>
     (t = rt \<or> (\<exists>p \<in> set ts. lt_parent_task_id t = Some (lt_task_id p) \<and> lt_purpose p = PRIMARY)) \<and>
     (\<forall>c \<in> set (lt_owned_paths t). \<exists>q \<in> set (lt_owned_paths rt). path_under nt q c)"
proof -
  have "ts \<noteq> []" using assms(2) by auto
  with assms(1) validate_task_dag_result have wf: "well_formed_dag nt ts" by blast
  then obtain rt where rt: "rt \<in> set ts" "lt_purpose rt = PRIMARY" "\<forall>u \<in> set ts. lt_parent_task_id u = None \<longleftrightarrow> u = rt"
    unfolding well_formed_dag_def by blast
  have "t = rt \<or> (\<exists>p \<in> set ts. lt_parent_task_id t = Some (lt_task_id p) \<and> lt_purpose p = PRIMARY)"
  proof (cases "lt_parent_task_id t")
    case None
    with rt(3) assms(2) show ?thesis by blast
  next
    case (Some p)
    with wf assms(2) show ?thesis unfolding well_formed_dag_def by blast
  qed
  moreover have "lt_parent_task_id rt = None" using rt by blast
  moreover from this have "\<forall>c \<in> set (lt_owned_paths t). \<exists>q \<in> set (lt_owned_paths rt). path_under nt q c"
    by (rule well_formed_ancestor [OF wf rt(1) _ assms(2)])
  ultimately show ?thesis using rt(1,2) by blast
qed

theorem task_scopes_within_root_witness:
  "\<exists>rt \<in> set sample_dag. \<exists>q \<in> set (lt_owned_paths rt). path_under False q ''src/a''"
proof -
  have "validate_task_dag False sample_dag = None" by (rule sample_dag_valid)
  moreover have "sample_task 3 ROUTINE_IMPLEMENTATION (Some 1) [2] [''src/a''] \<in> set sample_dag" by (simp add: sample_dag_def)
  ultimately show ?thesis using task_scopes_within_root [of False sample_dag] by (fastforce simp: sample_task_def)
qed

end
