(* ===== verification/Forge_Plan.thy ===== *)
theory Forge_Plan
  imports Forge_Task
begin

text \<open>
  \<^verbatim>\<open>domain/plan.py\<close>, the structured plan a planner produces, and
  \<^verbatim>\<open>domain/subscription_plan_contract.py\<close>, which turns an approved plan into the contract of the
  implementation task. The plan classes are a record and its extension; a plan is one or the other.
\<close>

section \<open>Plans\<close>

fun string_tuple_loop :: "string \<Rightarrow> bool \<Rightarrow> nat \<Rightarrow> nat \<Rightarrow> string list \<Rightarrow> string list \<Rightarrow> py_exn option" where
  "string_tuple_loop name unique max_length index seen [] = None"
| "string_tuple_loop name unique max_length index seen (v # vs) =
     (case validate_text max_length v (name @ ''['' @ int_str (int index) @ '']'') of
        Some e \<Rightarrow> Some e
      | None \<Rightarrow> if unique \<and> v \<in> set seen then Some (ValueError (name @ '' must not contain duplicate entries''))
          else string_tuple_loop name unique max_length (index + 1) (v # seen) vs)"

definition validate_string_tuple :: "string \<Rightarrow> bool \<Rightarrow> nat \<Rightarrow> nat \<Rightarrow> string list \<Rightarrow> py_exn option" where
  "validate_string_tuple name unique max_length max_items vs = seq_raise [
     when_raise (max_items < length vs) (ValueError (name @ '' exceeds maximum count of '' @ int_str (int max_items))),
     string_tuple_loop name unique max_length 0 [] vs]"

record plan_output =
  po_summary :: string
  po_assumptions :: "string list"
  po_affected_components :: "string list"
  po_steps :: "string list"
  po_required_checks :: "string list"
  po_risks :: "string list"
  po_security_considerations :: "string list"
  po_dependency_changes :: "string list"

record scoped_plan_output = plan_output +
  sc_owned_paths :: "string list"
  sc_material_questions :: "string list"

text \<open>\<^verbatim>\<open>min_length=1\<close> of a field and the validator's own emptiness test coincide.\<close>

definition plan_required_checks_guard :: "string list \<Rightarrow> py_exn option" where
  "plan_required_checks_guard vs = seq_raise [
     when_raise (vs = []) (ValueError ''required_checks''),
     validate_string_tuple ''required_checks'' True 5000 100 vs]"

definition plan_prose_guards :: "'a plan_output_scheme \<Rightarrow> py_exn option" where
  "plan_prose_guards p = seq_raise [
     when_raise (po_summary p = []) (ValueError ''summary''),
     validate_text 10000 (po_summary p) ''summary'',
     validate_string_tuple ''assumptions'' True 5000 100 (po_assumptions p),
     validate_string_tuple ''affected_components'' True 5000 100 (po_affected_components p),
     when_raise (po_steps p = []) (ValueError ''steps''),
     validate_string_tuple ''steps'' False 5000 100 (po_steps p)]"

definition plan_review_guards :: "'a plan_output_scheme \<Rightarrow> py_exn option" where
  "plan_review_guards p = seq_raise [
     when_raise (po_risks p = []) (ValueError ''risks''),
     validate_string_tuple ''risks'' True 5000 100 (po_risks p),
     validate_string_tuple ''security_considerations'' True 5000 100 (po_security_considerations p),
     validate_string_tuple ''dependency_changes'' True 5000 100 (po_dependency_changes p)]"

definition plan_output_validate :: "'a plan_output_scheme \<Rightarrow> py_exn option" where
  "plan_output_validate p = seq_raise [
     plan_prose_guards p, plan_required_checks_guard (po_required_checks p), plan_review_guards p]"

definition scoped_plan_validate :: "bool \<Rightarrow> scoped_plan_output \<Rightarrow> py_exn option" where
  "scoped_plan_validate nt p = seq_raise [
     plan_prose_guards p,
     plan_required_checks_guard (po_required_checks p),
     when_raise (\<exists>name \<in> set (po_required_checks p). \<not> command_name_fullmatch name)
       (ValueError ''scoped plan checks must be subscription command identifiers''),
     plan_review_guards p,
     when_raise (64 < length (sc_owned_paths p)) (ValueError ''owned_paths''),
     exn_of (normalize_policy_paths nt (sc_owned_paths p)),
     when_raise (20 < length (sc_material_questions p)) (ValueError ''material_questions''),
     validate_string_tuple ''material_questions'' True 5000 20 (sc_material_questions p)]"

datatype plan = Legacy_plan plan_output | Scoped_plan scoped_plan_output

fun material_questions :: "plan \<Rightarrow> string list" where
  "material_questions (Scoped_plan p) = sc_material_questions p"
| "material_questions (Legacy_plan p) = []"

section \<open>The approved contract\<close>

fun plan_checks :: "plan \<Rightarrow> string list" where
  "plan_checks (Legacy_plan p) = po_required_checks p"
| "plan_checks (Scoped_plan p) = po_required_checks p"

definition approved_criterion :: "string list \<Rightarrow> nat \<Rightarrow> acceptance_criterion" where
  "approved_criterion checks index = \<lparr>
     acr_criterion_id = (if index = 0 then ''approved-implementation'' else ''approved-implementation-'' @ int_str (int index + 1)),
     acr_description = ''Implement the approved plan outcomes within the approved scope and provide required validation evidence.'',
     acr_required_check_names = take 32 (drop (index * 32) checks) \<rparr>"

definition approved_criteria :: "string list \<Rightarrow> acceptance_criterion list" where
  "approved_criteria checks = map (approved_criterion checks) [0..<(length checks + 31) div 32]"

definition approved_context_ref :: "uuid \<Rightarrow> string \<Rightarrow> uuid \<Rightarrow> string" where
  "approved_context_ref plan_attempt_id plan_digest approval_id =
     ''approved-plan:'' @ uuid_str plan_attempt_id @ '':'' @ plan_digest @ '':'' @ uuid_str approval_id"

definition approved_implementation_contract ::
  "bool \<Rightarrow> bool \<Rightarrow> logical_task_contract \<Rightarrow> plan \<Rightarrow> uuid \<Rightarrow> string \<Rightarrow> uuid \<Rightarrow> logical_task_contract result" where
  "approved_implementation_contract nt sq original plan plan_attempt_id plan_digest approval_id =
     (let paths = (case plan of Scoped_plan p \<Rightarrow> sc_owned_paths p | Legacy_plan _ \<Rightarrow> lt_owned_paths original);
          criteria = approved_criteria (plan_checks plan) in
      (case each_raise criteria acceptance_criterion_validate of
         Some e \<Rightarrow> Inl e
       | None \<Rightarrow> logical_task_make nt sq (original\<lparr> lt_owned_paths := paths, lt_named_checks := plan_checks plan,
           lt_typed_acceptance := criteria,
           lt_untrusted_context_refs := lt_untrusted_context_refs original @
             [approved_context_ref plan_attempt_id plan_digest approval_id] \<rparr>)))"

section \<open>Lemmas\<close>

lemma validate_text_None: "validate_text n v name = None \<longleftrightarrow> \<not> blank v \<and> length v \<le> n"
  by (auto simp: validate_text_def blank_iff)

lemma string_tuple_loop_None:
  "string_tuple_loop name unique n i seen vs = None \<longleftrightarrow> (\<forall>v \<in> set vs. \<not> blank v \<and> length v \<le> n) \<and>
     (unique \<longrightarrow> distinct vs \<and> set vs \<inter> set seen = {})"
proof (induction vs arbitrary: i seen)
  case (Cons v vs)
  show ?case
  proof (cases "validate_text n v (name @ ''['' @ int_str (int i) @ '']'')")
    case None
    then have "\<not> blank v \<and> length v \<le> n" by (metis validate_text_None)
    with None Cons show ?thesis by auto
  next
    case (Some e)
    then have "\<not> (\<not> blank v \<and> length v \<le> n)" by (metis validate_text_None option.distinct(1))
    with Some show ?thesis by auto
  qed
qed simp

lemma validate_string_tuple_None:
  "validate_string_tuple name unique n m vs = None \<longleftrightarrow> length vs \<le> m \<and> (\<forall>v \<in> set vs. \<not> blank v \<and> length v \<le> n) \<and>
     (unique \<longrightarrow> distinct vs)"
  by (auto simp: validate_string_tuple_def string_tuple_loop_None)

lemma command_name_not_meta:
  assumes "command_name_fullmatch s"
  shows "\<not> has_shell_meta s"
proof
  assume "has_shell_meta s"
  then obtain c where c: "c \<in> set s" "is_shell_meta c" unfolding has_shell_meta_def by blast
  from assms c(1) have "is_alnum c \<or> c = CHR ''_'' \<or> c = CHR ''-''"
    unfolding command_name_fullmatch_def list_all_iff by blast
  moreover have "\<not> is_shell_meta (CHR ''_'')" "\<not> is_shell_meta (CHR ''-'')" by code_simp+
  ultimately show False using c(2) alnum_not_meta by blast
qed

lemma chunks_cover: "concat (map (\<lambda>i. take k (drop (i * k) xs)) [0..<n]) = take (n * k) xs"
proof (induction n)
  case (Suc n)
  then show ?case by (simp add: take_add [symmetric] add.commute)
qed simp

lemma approved_criteria_checks: "concat (map acr_required_check_names (approved_criteria checks)) = checks"
proof -
  have "length checks \<le> (length checks + 31) div 32 * 32" by presburger
  then show ?thesis using chunks_cover [of 32 checks "(length checks + 31) div 32"]
    by (simp add: approved_criteria_def approved_criterion_def comp_def)
qed

lemma approved_criteria_ids: "distinct (map acr_criterion_id (approved_criteria checks))"
proof -
  have "int_str (int i + 1) = int_str (int j + 1) \<Longrightarrow> i = j" for i j using int_str_inj by fastforce
  then have "inj (\<lambda>i. acr_criterion_id (approved_criterion checks i))"
    by (intro injI) (auto simp: approved_criterion_def split: if_splits)
  then show ?thesis unfolding approved_criteria_def
    by (auto simp: distinct_map comp_def inj_on_def inj_def)
qed

lemma nat_digits_short: "n < 10 \<Longrightarrow> length (nat_digits n) = 1"
  by (subst nat_digits.simps) simp

lemma approved_criteria_valid:
  assumes "length checks \<le> 100" and "\<forall>c \<in> set checks. command_name_fullmatch c \<and> \<not> blank c \<and> length c \<le> 5000"
  shows "length (approved_criteria checks) \<le> 4" and "each_raise (approved_criteria checks) acceptance_criterion_validate = None"
proof -
  show len: "length (approved_criteria checks) \<le> 4" using assms(1) by (simp add: approved_criteria_def)
  have "acceptance_criterion_validate (approved_criterion checks i) = None" if "i < 4" for i
  proof -
    have "set (take 32 (drop (i * 32) checks)) \<subseteq> set checks" by (meson dual_order.trans set_drop_subset set_take_subset)
    then have ok: "\<forall>c \<in> set (take 32 (drop (i * 32) checks)). command_name_fullmatch c \<and> \<not> blank c \<and> length c \<le> 10000"
      using assms(2) by fastforce
    have "length (int_str (int i + 1)) = 1" using that by (simp add: int_str_def nat_digits_short nat_add_distrib)
    moreover have "\<not> blank (''approved-implementation'' @ s)" for s by (auto simp: blank_iff is_py_space_def)
    moreover have "\<not> blank ''Implement the approved plan outcomes within the approved scope and provide required validation evidence.''"
      by code_simp
    ultimately show ?thesis using ok
      by (auto simp: acceptance_criterion_validate_def approved_criterion_def validate_text_None freeze_texts_def)
  qed
  with len show "each_raise (approved_criteria checks) acceptance_criterion_validate = None"
    by (auto simp: approved_criteria_def)
qed

lemma normalize_paths_same: "normalize_policy_paths nt vs = Inr ws \<Longrightarrow> ws = vs"
  by (simp add: normalize_policy_paths_def normalize_paths_loop_Inr)

lemma logical_task_valid:
  assumes "logical_task_make nt sq t = Inr t'"
  shows "t' = t \<and> task_identity_guards t = None \<and> task_content_guards sq t = None"
proof -
  from assms obtain ws where "task_identity_guards t = None" "normalize_policy_paths nt (lt_owned_paths t) = Inr ws"
    "task_content_guards sq (t\<lparr> lt_owned_paths := ws \<rparr>) = None" "t' = t\<lparr> lt_owned_paths := ws \<rparr>"
    by (auto simp: logical_task_make_def ebind_Inr Let_def split: option.splits)
  with normalize_paths_same [of nt "lt_owned_paths t" ws] show ?thesis by simp
qed

lemma logical_task_makeI:
  assumes "task_identity_guards t = None" and "normalize_policy_paths nt (lt_owned_paths t) = Inr (lt_owned_paths t)"
    and "task_content_guards sq t = None"
  shows "logical_task_make nt sq t = Inr t"
  using assms by (simp add: logical_task_make_def)

lemma scoped_plan_checks:
  assumes "scoped_plan_validate nt p = None"
  shows "length (po_required_checks p) \<le> 100"
    and "\<forall>c \<in> set (po_required_checks p). command_name_fullmatch c \<and> \<not> blank c \<and> length c \<le> 5000"
    and "normalize_policy_paths nt (sc_owned_paths p) = Inr (sc_owned_paths p)"
  using assms normalize_paths_same
  by (auto simp: scoped_plan_validate_def plan_required_checks_guard_def validate_string_tuple_None)

lemma approved_plan_contract:
  assumes "logical_task_make nt sq t = Inr original" and "\<not> is_read_only (lt_purpose original)"
    and "scoped_plan_validate nt p = None"
    and "validate_durable_payload sq (PStr (approved_context_ref attempt digest approval)) = None"
  shows "\<exists>c. approved_implementation_contract nt sq original (Scoped_plan p) attempt digest approval = Inr c \<and>
     lt_owned_paths c = sc_owned_paths p \<and> lt_named_checks c = po_required_checks p \<and>
     concat (map acr_required_check_names (lt_typed_acceptance c)) = po_required_checks p \<and>
     (\<forall>a \<in> set (lt_typed_acceptance c). length (acr_required_check_names a) \<le> 32) \<and>
     c = original\<lparr> lt_owned_paths := lt_owned_paths c, lt_named_checks := lt_named_checks c,
       lt_typed_acceptance := lt_typed_acceptance c, lt_untrusted_context_refs := lt_untrusted_context_refs c \<rparr>"
proof -
  let ?checks = "po_required_checks p"
  let ?c = "original\<lparr> lt_owned_paths := sc_owned_paths p, lt_named_checks := ?checks,
      lt_typed_acceptance := approved_criteria ?checks,
      lt_untrusted_context_refs := lt_untrusted_context_refs original @ [approved_context_ref attempt digest approval] \<rparr>"
  note checks = scoped_plan_checks [OF assms(3)]
  note criteria = approved_criteria_valid [OF checks(1,2)]
  from logical_task_valid [OF assms(1)] have o: "task_identity_guards original = None" "task_content_guards sq original = None" by auto
  have "task_identity_guards ?c = None" using o(1) by (simp add: task_identity_guards_def)
  moreover have "task_content_guards sq ?c = None"
    using o(2) assms(2,4) checks(2) criteria(1) approved_criteria_ids [of ?checks]
    by (fastforce simp: task_content_guards_def validate_text_None validate_durable_payload.simps dest: command_name_not_meta)
  ultimately have "logical_task_make nt sq ?c = Inr ?c" using checks(3) by (intro logical_task_makeI) simp_all
  then have "approved_implementation_contract nt sq original (Scoped_plan p) attempt digest approval = Inr ?c"
    by (simp add: approved_implementation_contract_def Let_def criteria(2))
  moreover have "\<forall>a \<in> set (approved_criteria ?checks). length (acr_required_check_names a) \<le> 32"
    by (auto simp: approved_criteria_def approved_criterion_def)
  ultimately show ?thesis using approved_criteria_checks [of ?checks] by (intro exI [of _ ?c]) simp
qed

definition sample_plan_output :: scoped_plan_output where
  "sample_plan_output = \<lparr> po_summary = ''s'', po_assumptions = [], po_affected_components = [], po_steps = [''do''],
     po_required_checks = [''tests'', ''lint''], po_risks = [''none''], po_security_considerations = [],
     po_dependency_changes = [], sc_owned_paths = [''src''], sc_material_questions = [] \<rparr>"

lemma sample_plan_premises:
  "logical_task_make False True (sample_task 1 PRIMARY None [] []) = Inr (sample_task 1 PRIMARY None [] [])"
  "\<not> is_read_only (lt_purpose (sample_task 1 PRIMARY None [] []))"
  "scoped_plan_validate False sample_plan_output = None"
  "validate_durable_payload True (PStr (approved_context_ref 0 [] 0)) = None"
proof -
  let ?t = "sample_task 1 PRIMARY None [] []"
  show "logical_task_make False True ?t = Inr ?t"
    by (simp add: logical_task_make_def sample_task_def sample_binding_def task_identity_guards_def task_content_guards_def
      validate_non_nil_uuid_def is_read_only_def normalize_policy_paths_def validate_durable_payload.simps)
  show "\<not> is_read_only (lt_purpose ?t)" by (simp add: sample_task_def is_read_only_def)
  show "scoped_plan_validate False sample_plan_output = None"
  proof -
    have "normalize_policy_paths False [''src''] = Inr [''src'']" "command_name_fullmatch ''tests''" "command_name_fullmatch ''lint''"
      "\<not> blank ''s''" "\<not> blank ''do''" "\<not> blank ''tests''" "\<not> blank ''lint''" "\<not> blank ''none''" by code_simp+
    then show ?thesis by (simp add: sample_plan_output_def scoped_plan_validate_def plan_prose_guards_def
      plan_required_checks_guard_def plan_review_guards_def validate_string_tuple_None validate_text_None)
  qed
  have ref: "approved_context_ref 0 [] 0 = ''approved-plan:00000000-0000-0000-0000-000000000000::00000000-0000-0000-0000-000000000000''"
    by (simp add: approved_context_ref_def uuid_str_def uuid_hex_def hex_digit_def upt_rec)
  show "validate_durable_payload True (PStr (approved_context_ref 0 [] 0)) = None"
    unfolding ref by code_simp
qed

text \<open>An approved scoped plan always becomes a contract: for a constructed, writable task and a valid plan
  the implementation contract passes its own validation, changes only the scope, the checks, the
  acceptance criteria and the context references, owns exactly the approved paths, and its criteria
  require exactly the approved checks, in order, at most thirty-two in each.\<close>

theorem approved_plan_builds_contract:
  assumes "logical_task_make nt sq t = Inr original" and "\<not> is_read_only (lt_purpose original)"
    and "scoped_plan_validate nt p = None"
    and "validate_durable_payload sq (PStr (approved_context_ref attempt digest approval)) = None"
  shows "\<exists>c. approved_implementation_contract nt sq original (Scoped_plan p) attempt digest approval = Inr c \<and>
     lt_owned_paths c = sc_owned_paths p \<and> lt_named_checks c = po_required_checks p \<and>
     concat (map acr_required_check_names (lt_typed_acceptance c)) = po_required_checks p \<and>
     (\<forall>a \<in> set (lt_typed_acceptance c). length (acr_required_check_names a) \<le> 32) \<and>
     c = original\<lparr> lt_owned_paths := lt_owned_paths c, lt_named_checks := lt_named_checks c,
       lt_typed_acceptance := lt_typed_acceptance c, lt_untrusted_context_refs := lt_untrusted_context_refs c \<rparr>"
  using assms by (rule approved_plan_contract)

theorem approved_plan_builds_contract_witness:
  "\<exists>c. approved_implementation_contract False True (sample_task 1 PRIMARY None [] []) (Scoped_plan sample_plan_output) 0 [] 0 = Inr c \<and>
     lt_owned_paths c = [''src''] \<and> lt_named_checks c = [''tests'', ''lint'']"
  using approved_plan_builds_contract [OF sample_plan_premises] by (auto simp: sample_plan_output_def)

end
