(* ===== verification/Forge_Delegation.thy ===== *)
theory Forge_Delegation
  imports Forge_Plan Forge_Resource
begin

text \<open>
  Delegation of a run's work: freezing an operator profile into the envelope
  (\<^verbatim>\<open>domain/subscription_envelope.py\<close>), the authority a child task may be given
  (\<^verbatim>\<open>domain/subscription_delegation.py\<close>), quota pools and the routes a task may try
  (\<^verbatim>\<open>domain/subscription_quota.py\<close>), the attempt, tool and decision values of
  \<^verbatim>\<open>domain/subscription.py\<close> and which role may issue which decision
  (\<^verbatim>\<open>domain/subscription_decision_policy.py\<close>).
\<close>

section \<open>Freezing a profile\<close>

definition preference_binding :: "role_preference \<Rightarrow> route_binding" where
  "preference_binding p = \<lparr> rb_requested = rp_preferred_route p, rb_effective = rp_preferred_route p,
     rb_mapping_applied = None, rb_is_primary = (rp_purpose p = PRIMARY) \<rparr>"

definition freeze_profile :: "operator_profile \<Rightarrow> uuid \<Rightarrow> int \<Rightarrow> execution_envelope result" where
  "freeze_profile profile run_id safety_policy_version = (case preference_for profile PRIMARY of
     Inl _ \<Rightarrow> Inl (ValueError ''subscription profile requires a primary preference'')
   | Inr _ \<Rightarrow> (case each_raise (op_preferences profile) (\<lambda>p. route_binding_validate (preference_binding p)) of
       Some e \<Rightarrow> Inl e
     | None \<Rightarrow> execution_envelope_make \<lparr> ee_run_id = run_id, ee_profile_id = op_profile_id profile,
         ee_profile_version = op_version profile, ee_safety_policy_version = safety_policy_version,
         ee_routes = map (\<lambda>p. (rp_purpose p, preference_binding p)) (op_preferences profile),
         ee_allowed_fallbacks = map (\<lambda>p. (rp_purpose p, rp_fallback_routes p))
           (filter (\<lambda>p. rp_fallback_routes p \<noteq> []) (op_preferences profile)),
         ee_role_token_budgets = concat (map (\<lambda>p. case rp_token_budget p of None \<Rightarrow> [] | Some b \<Rightarrow> [(rp_purpose p, b)])
           (op_preferences profile)),
         ee_billing_mode = op_default_billing_mode profile, ee_created_at = None \<rparr>))"

section \<open>The authority of a child task\<close>

text \<open>One token limit: absent defaults inherit the parent's, present ones are clamped to a finite parent.\<close>

definition seeded_limit :: "bool \<Rightarrow> int option \<Rightarrow> int option \<Rightarrow> int option" where
  "seeded_limit clamp_to_parent parent_limit dflt = (case dflt of
     None \<Rightarrow> parent_limit
   | Some d \<Rightarrow> (case parent_limit of
       None \<Rightarrow> Some d
     | Some p \<Rightarrow> Some (if clamp_to_parent then min d p else d)))"

definition budget_with_role_defaults :: "task_budget \<Rightarrow> execution_envelope \<Rightarrow> specialist_purpose \<Rightarrow> bool \<Rightarrow> task_budget" where
  "budget_with_role_defaults parent e purpose clamp_to_parent = (case token_budget_for e purpose of
     None \<Rightarrow> parent
   | Some defaults \<Rightarrow>
       (let input_limit = seeded_limit clamp_to_parent (tb_max_input_tokens parent) (tbd_max_input_tokens defaults);
            output_limit = seeded_limit clamp_to_parent (tb_max_output_tokens parent) (tbd_max_output_tokens defaults) in
        if (input_limit, output_limit) = (tb_max_input_tokens parent, tb_max_output_tokens parent) then parent
        else parent\<lparr> tb_max_input_tokens := input_limit, tb_max_output_tokens := output_limit \<rparr>))"

definition child_differs :: py_exn where
  "child_differs = ValueError ''child authority differs from frozen primary contract''"

definition child_limit_guards :: "logical_task_contract \<Rightarrow> logical_task_contract \<Rightarrow> py_exn option" where
  "child_limit_guards parent child = seq_raise [
     each_raise (zip (limits (lt_budget parent)) (limits (lt_budget child))) (\<lambda>(bound, proposed).
       when_raise (\<not> within_limit proposed bound) (ValueError ''child budget exceeds parent'')),
     when_raise (lt_max_repairs child > lt_max_repairs parent \<or> lt_max_repairs child > tb_max_repairs (lt_budget child))
       (ValueError ''child repair limit exceeds parent''),
     when_raise (\<not> set (lt_named_checks child) \<subseteq> set (lt_named_checks parent)) (ValueError ''child checks exceed parent''),
     when_raise (\<exists>item \<in> set (lt_typed_acceptance child). \<not> set (acr_required_check_names item) \<subseteq> set (lt_named_checks child))
       (ValueError ''acceptance check is absent from child contract'')]"

definition child_telemetry_guards :: "unknown_telemetry_policy \<Rightarrow> unknown_telemetry_policy \<Rightarrow> py_exn option" where
  "child_telemetry_guards parent child = seq_raise [
     each_raise [(ut_allow_unknown_tokens parent, ut_allow_unknown_tokens child),
         (ut_allow_unknown_cost parent, ut_allow_unknown_cost child),
         (ut_allow_unknown_quota parent, ut_allow_unknown_quota child)] (\<lambda>(p, c).
       when_raise (\<not> p \<and> c) (ValueError ''child telemetry policy exceeds parent'')),
     when_raise (ut_max_uncertain_attempts child > ut_max_uncertain_attempts parent)
       (ValueError ''child uncertainty limit exceeds parent'')]"

definition validate_child_authority :: "logical_task_contract \<Rightarrow> logical_task_contract \<Rightarrow> execution_envelope \<Rightarrow> py_exn option" where
  "validate_child_authority parent child e = seq_raise [
     when_raise (lt_purpose parent \<noteq> PRIMARY \<or> lt_purpose child = PRIMARY \<or> lt_run_id child \<noteq> lt_run_id parent \<or>
       lt_parent_task_id child \<noteq> Some (lt_task_id parent) \<or> lt_task_id parent \<in> set (lt_dependency_task_ids child)) child_differs,
     (case route_for e (lt_purpose child) of
        Inl x \<Rightarrow> Some x
      | Inr bound \<Rightarrow> when_raise (lt_route child \<noteq> bound \<or>
          tb_billing_mode (lt_budget child) \<noteq> route_billing_mode (rb_effective (lt_route child))) child_differs),
     child_limit_guards parent child,
     child_telemetry_guards (tb_unknown_telemetry_policy (lt_budget parent)) (tb_unknown_telemetry_policy (lt_budget child))]"

section \<open>Quota pools\<close>

fun auth_mode_str :: "auth_mode \<Rightarrow> string" where
  "auth_mode_str Auth_SUBSCRIPTION = ''subscription''"
| "auth_mode_str Auth_API_KEY = ''api_key''"

fun billing_mode_str :: "billing_mode \<Rightarrow> string" where
  "billing_mode_str ALLOWANCE_ONLY = ''allowance_only''"
| "billing_mode_str PAID_OPT_IN = ''paid_opt_in''"

text \<open>\<^verbatim>\<open>[a-z0-9][a-z0-9_.-]{0,95}\<close>\<close>

definition quota_label_fullmatch :: "string \<Rightarrow> bool" where
  "quota_label_fullmatch s = (s \<noteq> [] \<and> length s \<le> 96 \<and> is_slug_edge (hd s) \<and>
     list_all (\<lambda>c. is_slug_edge c \<or> c \<in> set ''_.-'') s)"

record quota_pool_key =
  qk_provider :: string
  qk_account :: string
  qk_pool :: string

definition quota_pool_key_make :: "string \<Rightarrow> string \<Rightarrow> string \<Rightarrow> quota_pool_key result" where
  "quota_pool_key_make provider account pool = raising
     (each_raise [provider, account, pool] (\<lambda>v. when_raise (\<not> quota_label_fullmatch v)
        (ValueError ''quota pool identity requires opaque lowercase labels'')))
     \<lparr> qk_provider = provider, qk_account = account, qk_pool = pool \<rparr>"

record quota_route_pool =
  qr_provider :: string
  qr_client :: string
  qr_account :: string
  qr_pool :: string
  qr_auth_mode :: auth_mode
  qr_billing_mode :: billing_mode
  qr_model :: "string option"

definition quota_route_pool_validate :: "quota_route_pool \<Rightarrow> py_exn option" where
  "quota_route_pool_validate p = seq_raise [
     exn_of (quota_pool_key_make (qr_provider p) (qr_account p) (qr_pool p)),
     when_raise (qr_client p = [] \<or> 96 < length (qr_client p)) (ValueError ''quota route client is invalid''),
     opt_raise (qr_model p) (\<lambda>m. when_raise (m = [] \<or> 255 < length m) (ValueError ''quota route model is invalid''))]"

definition quota_matches :: "quota_route_pool \<Rightarrow> route_spec \<Rightarrow> bool" where
  "quota_matches p r = ((qr_provider p, qr_client p, qr_auth_mode p, qr_billing_mode p) =
       (route_provider r, route_client r, route_auth_mode r, route_billing_mode r) \<and>
     (qr_model p = None \<or> qr_model p = Some (route_model r)))"

record quota_policy =
  qp_route_pools :: "quota_route_pool list"
  qp_unknown_reset_cooldown_seconds :: int

definition quota_selector :: "quota_route_pool \<Rightarrow> string \<times> string \<times> auth_mode \<times> billing_mode \<times> string option" where
  "quota_selector r = (qr_provider r, qr_client r, qr_auth_mode r, qr_billing_mode r, qr_model r)"

definition quota_policy_validate :: "quota_policy \<Rightarrow> py_exn option" where
  "quota_policy_validate q = seq_raise [
     when_raise (\<not> (60 \<le> qp_unknown_reset_cooldown_seconds q \<and> qp_unknown_reset_cooldown_seconds q \<le> 86400))
       (ValueError ''quota probe cooldown must be 60..86400 seconds''),
     when_raise (256 < length (qp_route_pools q)) (ValueError ''invalid quota route pool policy''),
     when_raise (\<not> distinct (map quota_selector (qp_route_pools q))) (ValueError ''duplicate quota route pool selector'')]"

definition key_for :: "quota_policy \<Rightarrow> route_spec \<Rightarrow> quota_pool_key result" where
  "key_for q route = (let matching = filter (\<lambda>item. quota_matches item route) (qp_route_pools q) in
     case matching of
       [] \<Rightarrow> quota_pool_key_make (route_provider route) ''local''
         (auth_mode_str (route_auth_mode route) @ ''-'' @ billing_mode_str (route_billing_mode route))
     | first # _ \<Rightarrow>
         (let selected = (case find (\<lambda>item. qr_model item \<noteq> None) matching of Some item \<Rightarrow> item | None \<Rightarrow> first) in
          quota_pool_key_make (qr_provider selected) (qr_account selected) (qr_pool selected)))"

datatype candidate_kind = Cand_current | Cand_preferred | Cand_fallback

record candidate_task_route =
  ct_route :: route_spec
  ct_kind :: candidate_kind

definition task_candidate_routes :: "logical_task_contract \<Rightarrow> execution_envelope option \<Rightarrow> candidate_task_route list" where
  "task_candidate_routes contract envelope =
     (let effective = rb_effective (lt_route contract); candidates = [\<lparr> ct_route = effective, ct_kind = Cand_current \<rparr>] in
      if lt_purpose contract = PRIMARY \<or> rb_is_primary (lt_route contract) then candidates
      else case envelope of
        None \<Rightarrow> candidates
      | Some e \<Rightarrow> (case route_for e (lt_purpose contract) of
          Inl _ \<Rightarrow> candidates
        | Inr preferred \<Rightarrow>
            if rb_requested (lt_route contract) \<noteq> rb_requested preferred then candidates
            else candidates @ map (\<lambda>route. \<lparr> ct_route = route,
                ct_kind = (if route = rb_effective preferred then Cand_preferred else Cand_fallback) \<rparr>)
              (filter (\<lambda>route. route_billing_mode route = route_billing_mode effective \<and>
                  route_auth_mode route = route_auth_mode effective)
                (rb_effective preferred # fallbacks_for e (lt_purpose contract)))))"

section \<open>Freezing keeps the profile\<close>

lemma find_preference_iff:
  "(\<exists>p. find_preference ps purpose = Inr p) \<longleftrightarrow> purpose \<in> rp_purpose ` set ps"
  by (induction ps) auto

lemma map_of_preferences:
  "distinct (map rp_purpose ps) \<Longrightarrow> p \<in> set ps \<Longrightarrow> map_of (map (\<lambda>q. (rp_purpose q, f q)) ps) (rp_purpose p) = Some (f p)"
  by (induction ps) (auto simp: image_iff)

lemma map_of_filtered_preferences:
  assumes "distinct (map rp_purpose ps)" and "p \<in> set ps"
  shows "map_of (map (\<lambda>q. (rp_purpose q, f q)) (filter P ps)) (rp_purpose p) = (if P p then Some (f p) else None)"
proof -
  have "p' = p" if "p' \<in> set ps" "rp_purpose p' = rp_purpose p" for p'
    using assms that by (meson distinct_map inj_onD)
  then have "P p" if "rp_purpose p \<in> rp_purpose ` set (filter P ps)" using that by auto
  moreover have "distinct (map rp_purpose (filter P ps))" using assms(1) by (simp add: distinct_map_filter)
  ultimately show ?thesis using assms(2) map_of_preferences [of "filter P ps" p f]
    by (auto simp: map_of_eq_None_iff image_iff)
qed

lemma token_pairs:
  "concat (map (\<lambda>p. case rp_token_budget p of None \<Rightarrow> [] | Some b \<Rightarrow> [(rp_purpose p, b)]) ps) =
     map (\<lambda>p. (rp_purpose p, the (rp_token_budget p))) (filter (\<lambda>p. rp_token_budget p \<noteq> None) ps)"
  by (induction ps) (auto split: option.split)

lemma preference_binding_valid: "route_binding_validate (preference_binding p) = None"
  by (simp add: route_binding_validate_def preference_binding_def)

lemma reject_paid_None: "reject_paid mode r = None \<longleftrightarrow> (mode = ALLOWANCE_ONLY \<longrightarrow> \<not> pays r)"
  by (auto simp: reject_paid_def)

definition profile_routes :: "operator_profile \<Rightarrow> route_spec list" where
  "profile_routes p = concat (map (\<lambda>r. rp_preferred_route r # rp_fallback_routes r) (op_preferences p))"

definition frozen_envelope :: "operator_profile \<Rightarrow> uuid \<Rightarrow> int \<Rightarrow> execution_envelope" where
  "frozen_envelope p run_id version = \<lparr> ee_run_id = run_id, ee_profile_id = op_profile_id p,
     ee_profile_version = op_version p, ee_safety_policy_version = version,
     ee_routes = map (\<lambda>r. (rp_purpose r, preference_binding r)) (op_preferences p),
     ee_allowed_fallbacks = map (\<lambda>r. (rp_purpose r, rp_fallback_routes r)) (filter (\<lambda>r. rp_fallback_routes r \<noteq> []) (op_preferences p)),
     ee_role_token_budgets = map (\<lambda>r. (rp_purpose r, the (rp_token_budget r))) (filter (\<lambda>r. rp_token_budget r \<noteq> None) (op_preferences p)),
     ee_billing_mode = op_default_billing_mode p, ee_created_at = None \<rparr>"

lemma freeze_profile_alt:
  "freeze_profile p run_id version = (if PRIMARY \<in> rp_purpose ` set (op_preferences p)
     then execution_envelope_make (frozen_envelope p run_id version)
     else Inl (ValueError ''subscription profile requires a primary preference''))"
proof -
  have "each_raise (op_preferences p) (\<lambda>q. route_binding_validate (preference_binding q)) = None"
    by (simp add: preference_binding_valid)
  note ok = this and found = find_preference_iff [of "op_preferences p" PRIMARY]
  show ?thesis
  proof (cases "find_preference (op_preferences p) PRIMARY")
    case (Inl e)
    with found show ?thesis by (auto simp: freeze_profile_def preference_for_def)
  next
    case (Inr q)
    with found have "PRIMARY \<in> rp_purpose ` set (op_preferences p)" by blast
    with Inr show ?thesis unfolding freeze_profile_def preference_for_def frozen_envelope_def token_pairs ok by simp
  qed
qed

lemma envelope_make_Inr:
  "execution_envelope_make e = Inr e' \<longleftrightarrow> e' = e \<and> ee_run_id e \<noteq> 0 \<and> ee_profile_id e \<noteq> 0 \<and> 1 \<le> ee_profile_version e \<and>
     1 \<le> ee_safety_policy_version e \<and> bind_routes (ee_billing_mode e) (ee_routes e) [] = Inr (ee_routes e) \<and>
     bind_fallbacks (ee_billing_mode e) (ee_routes e) (ee_allowed_fallbacks e) [] = Inr (ee_allowed_fallbacks e) \<and>
     bind_budgets (ee_routes e) (ee_role_token_budgets e) [] = Inr (ee_role_token_budgets e)"
proof
  assume m: "execution_envelope_make e = Inr e'"
  then have "e' = e" using envelope_make_ok by blast
  with m show "e' = e \<and> ee_run_id e \<noteq> 0 \<and> ee_profile_id e \<noteq> 0 \<and> 1 \<le> ee_profile_version e \<and>
     1 \<le> ee_safety_policy_version e \<and> bind_routes (ee_billing_mode e) (ee_routes e) [] = Inr (ee_routes e) \<and>
     bind_fallbacks (ee_billing_mode e) (ee_routes e) (ee_allowed_fallbacks e) [] = Inr (ee_allowed_fallbacks e) \<and>
     bind_budgets (ee_routes e) (ee_role_token_budgets e) [] = Inr (ee_role_token_budgets e)"
    by (auto simp: execution_envelope_make_def ebind_Inr validate_non_nil_uuid_def bind_routes_Inr bind_fallbacks_Inr
      bind_budgets_Inr split: option.splits)
next
  assume "e' = e \<and> ee_run_id e \<noteq> 0 \<and> ee_profile_id e \<noteq> 0 \<and> 1 \<le> ee_profile_version e \<and>
     1 \<le> ee_safety_policy_version e \<and> bind_routes (ee_billing_mode e) (ee_routes e) [] = Inr (ee_routes e) \<and>
     bind_fallbacks (ee_billing_mode e) (ee_routes e) (ee_allowed_fallbacks e) [] = Inr (ee_allowed_fallbacks e) \<and>
     bind_budgets (ee_routes e) (ee_role_token_budgets e) [] = Inr (ee_role_token_budgets e)"
  then show "execution_envelope_make e = Inr e'"
    by (simp add: execution_envelope_make_def validate_non_nil_uuid_def)
qed

lemma freeze_profile_Inr:
  assumes "operator_profile_validate p = None" and "\<forall>r \<in> set (op_preferences p). role_preference_validate r = None"
  shows "freeze_profile p run_id version = Inr e \<longleftrightarrow> e = frozen_envelope p run_id version \<and> run_id \<noteq> 0 \<and> 1 \<le> version \<and>
      PRIMARY \<in> rp_purpose ` set (op_preferences p) \<and> (\<forall>r \<in> set (op_preferences p). length (rp_fallback_routes r) \<le> 16) \<and>
      (op_default_billing_mode p = ALLOWANCE_ONLY \<longrightarrow> (\<forall>r \<in> set (profile_routes p). \<not> pays r))"
proof -
  let ?ps = "op_preferences p" and ?e = "frozen_envelope p run_id version"
  from assms(1) have id: "op_profile_id p \<noteq> 0" "1 \<le> op_version p" and d: "distinct (map rp_purpose ?ps)"
    by (auto simp: operator_profile_validate_def validate_non_nil_uuid_def)
  have f: "(\<forall>x \<in> set (rp_fallback_routes r). x \<noteq> rp_preferred_route r) \<and> (rp_purpose r = PRIMARY \<longrightarrow> rp_fallback_routes r = [])"
    if "r \<in> set ?ps" for r using assms(2) that by (auto simp: role_preference_validate_def)
  have df: "distinct (map rp_purpose (filter P ?ps))" for P using d by (simp add: distinct_map_filter)
  have routes: "bind_routes mode (ee_routes ?e) [] = Inr (ee_routes ?e) \<longleftrightarrow> (\<forall>r \<in> set ?ps. reject_paid mode (rp_preferred_route r) = None)" for mode
    using d by (auto simp: bind_routes_Inr frozen_envelope_def preference_binding_def comp_def)
  have fallbacks: "bind_fallbacks mode (ee_routes ?e) (ee_allowed_fallbacks ?e) [] = Inr (ee_allowed_fallbacks ?e) \<longleftrightarrow>
      (\<forall>r \<in> set ?ps. length (rp_fallback_routes r) \<le> 16 \<and> (\<forall>x \<in> set (rp_fallback_routes r). reject_paid mode x = None))" for mode
    using df f map_of_preferences [OF d, of _ preference_binding]
    by (fastforce simp: bind_fallbacks_Inr frozen_envelope_def preference_binding_def comp_def)
  have budgets: "bind_budgets (ee_routes ?e) (ee_role_token_budgets ?e) [] = Inr (ee_role_token_budgets ?e)"
    using df by (auto simp: bind_budgets_Inr frozen_envelope_def comp_def)
  have paid: "(\<forall>r \<in> set ?ps. reject_paid mode (rp_preferred_route r) = None) \<and>
      (\<forall>r \<in> set ?ps. \<forall>x \<in> set (rp_fallback_routes r). reject_paid mode x = None) \<longleftrightarrow>
      (mode = ALLOWANCE_ONLY \<longrightarrow> (\<forall>r \<in> set (profile_routes p). \<not> pays r))" for mode
    by (auto simp: reject_paid_None profile_routes_def)
  have fields: "ee_run_id ?e = run_id" "ee_profile_id ?e = op_profile_id p" "ee_profile_version ?e = op_version p"
    "ee_safety_policy_version ?e = version" "ee_billing_mode ?e = op_default_billing_mode p" by (simp_all add: frozen_envelope_def)
  show ?thesis unfolding freeze_profile_alt using id budgets paid [of "op_default_billing_mode p"]
    by (auto simp: envelope_make_Inr fields routes fallbacks)
qed

text \<open>Freezing a valid profile succeeds exactly when the run identity and the safety version are valid,
  a primary preference exists, no preference lists more than sixteen fallbacks and, in allowance-only
  mode, none of its routes pays; the envelope then answers every purpose with the profile's own
  preference: the preferred route unsubstituted, its fallbacks and its token budget.\<close>

theorem freeze_profile_exact:
  assumes "operator_profile_validate p = None" and "\<forall>r \<in> set (op_preferences p). role_preference_validate r = None"
  shows "((\<exists>e. freeze_profile p run_id version = Inr e) \<longleftrightarrow> run_id \<noteq> 0 \<and> 1 \<le> version \<and>
      PRIMARY \<in> rp_purpose ` set (op_preferences p) \<and> (\<forall>r \<in> set (op_preferences p). length (rp_fallback_routes r) \<le> 16) \<and>
      (op_default_billing_mode p = ALLOWANCE_ONLY \<longrightarrow> (\<forall>r \<in> set (profile_routes p). \<not> pays r))) \<and>
    (\<forall>e. freeze_profile p run_id version = Inr e \<longrightarrow> (\<forall>r \<in> set (op_preferences p).
      route_for e (rp_purpose r) = Inr (preference_binding r) \<and> fallbacks_for e (rp_purpose r) = rp_fallback_routes r \<and>
      token_budget_for e (rp_purpose r) = rp_token_budget r))"
proof -
  have d: "distinct (map rp_purpose (op_preferences p))" using assms(1) by (auto simp: operator_profile_validate_def)
  have "route_for e (rp_purpose r) = Inr (preference_binding r) \<and> fallbacks_for e (rp_purpose r) = rp_fallback_routes r \<and>
      token_budget_for e (rp_purpose r) = rp_token_budget r"
    if "e = frozen_envelope p run_id version" "r \<in> set (op_preferences p)" for e r
    using that(1) map_of_preferences [OF d that(2), of preference_binding]
      map_of_filtered_preferences [OF d that(2), of rp_fallback_routes "\<lambda>r. rp_fallback_routes r \<noteq> []"]
      map_of_filtered_preferences [OF d that(2), of "\<lambda>r. the (rp_token_budget r)" "\<lambda>r. rp_token_budget r \<noteq> None"]
    by (auto simp: route_for_def fallbacks_for_def token_budget_for_def frozen_envelope_def)
  then show ?thesis unfolding freeze_profile_Inr [OF assms] by blast
qed

definition sample_profile :: operator_profile where
  "sample_profile = \<lparr> op_profile_id = 2, op_version = 1, op_preferences = [
       \<lparr> rp_purpose = PRIMARY, rp_preferred_route = sample_route ''m'', rp_fallback_routes = [], rp_token_budget = None \<rparr>,
       \<lparr> rp_purpose = SECURITY, rp_preferred_route = sample_route ''m'', rp_fallback_routes = [sample_route ''f''],
         rp_token_budget = Some \<lparr> tbd_max_input_tokens = Some 5, tbd_max_output_tokens = None \<rparr> \<rparr>],
     op_approved_mappings = [], op_default_billing_mode = ALLOWANCE_ONLY, op_jev = None \<rparr>"

theorem freeze_profile_exact_witness:
  "\<exists>e. freeze_profile sample_profile 1 1 = Inr e \<and> fallbacks_for e SECURITY = [sample_route ''f'']"
proof -
  have v: "operator_profile_validate sample_profile = None" "\<forall>r \<in> set (op_preferences sample_profile). role_preference_validate r = None"
    by code_simp+
  have "\<forall>r \<in> set (profile_routes sample_profile). \<not> pays r" by code_simp
  with freeze_profile_exact [OF v, of 1 1] obtain e where "freeze_profile sample_profile 1 1 = Inr e"
    by (auto simp: sample_profile_def)
  with freeze_profile_exact [OF v, of 1 1] show ?thesis by (auto simp: sample_profile_def)
qed

section \<open>A child never has more authority than its parent\<close>

lemma limits_nth: "i < 8 \<Longrightarrow> limits b ! i = None \<or> limits b ! i = Some (amounts b ! i)"
proof -
  have "\<forall>i < 8. limits b ! i = None \<or> limits b ! i = Some (amounts b ! i)"
    unfolding all_less8 by (auto simp: limits_def amounts_def or_zero_def split: option.split)
  then show "i < 8 \<Longrightarrow> ?thesis" by blast
qed

lemma zip_limits:
  "(\<forall>(bound, proposed) \<in> set (zip (limits p) (limits c)). within_limit proposed bound) \<longleftrightarrow>
     (\<forall>i < 8. within_limit (limits c ! i) (limits p ! i))"
  unfolding all_less8 by (simp add: limits_def)

lemma within_limit_refl [simp]: "within_limit v v"
  by (simp add: within_limit_def split: option.split)

definition budget_within :: "task_budget \<Rightarrow> task_budget \<Rightarrow> bool" where
  "budget_within c p \<longleftrightarrow> (\<forall>i < 8. within_limit (limits c ! i) (limits p ! i))"

lemma within_reservable:
  assumes "budget_within c p"
  shows "can_reserve (empty_pool p) c"
  unfolding can_reserve_iff
proof (intro allI impI)
  fix i t
  assume i: "i < 8" and "limits (bp_total_budget (empty_pool p)) ! i = Some t"
  then have t: "limits p ! i = Some t" by (simp add: empty_pool_def)
  have "reserved (empty_pool p) ! i = 0"
  proof -
    have "\<forall>i < 8. reserved (empty_pool p) ! i = 0" unfolding all_less8 by (simp add: reserved_def empty_pool_def)
    with i show ?thesis by blast
  qed
  moreover have "within_limit (limits c ! i) (limits p ! i)" using assms i by (auto simp: budget_within_def)
  ultimately show "limits c ! i \<noteq> None \<and> reserved (empty_pool p) ! i + amounts c ! i \<le> t"
    using t limits_nth [OF i, of c] by (auto simp: within_limit_def)
qed

lemma within_fits:
  assumes "budget_within c p" and "valid_budget p" and "budget_ceiling c = Inr caps"
  shows "fits_within caps p = Inr True"
proof -
  from budget_ceiling_valid [OF assms(2)] obtain q where q: "budget_ceiling p = Inr q" by blast
  with assms(1,3) show ?thesis unfolding budget_within_def all_less8
    by (auto simp: fits_within_def budget_ceiling_def usage_make_def usage_values_def limits_def within_limit_def
      split: option.splits if_splits)
qed

lemma telemetry_accepted:
  assumes "child_telemetry_guards p c = None" and "validate_telemetry c t mode = None"
  shows "validate_telemetry p t mode = None"
  using assms by (auto simp: child_telemetry_guards_def validate_telemetry_def each_raise_def)

lemma child_authority_None:
  "validate_child_authority parent child e = None \<longleftrightarrow>
     lt_purpose parent = PRIMARY \<and> lt_purpose child \<noteq> PRIMARY \<and> lt_run_id child = lt_run_id parent \<and>
     lt_parent_task_id child = Some (lt_task_id parent) \<and> lt_task_id parent \<notin> set (lt_dependency_task_ids child) \<and>
     route_for e (lt_purpose child) = Inr (lt_route child) \<and>
     tb_billing_mode (lt_budget child) = route_billing_mode (rb_effective (lt_route child)) \<and>
     budget_within (lt_budget child) (lt_budget parent) \<and>
     lt_max_repairs child \<le> lt_max_repairs parent \<and> lt_max_repairs child \<le> tb_max_repairs (lt_budget child) \<and>
     set (lt_named_checks child) \<subseteq> set (lt_named_checks parent) \<and>
     (\<forall>item \<in> set (lt_typed_acceptance child). set (acr_required_check_names item) \<subseteq> set (lt_named_checks child)) \<and>
     child_telemetry_guards (tb_unknown_telemetry_policy (lt_budget parent)) (tb_unknown_telemetry_policy (lt_budget child)) = None"
  using zip_limits [of "lt_budget parent" "lt_budget child"]
  by (cases "route_for e (lt_purpose child)")
    (auto simp: validate_child_authority_def child_limit_guards_def budget_within_def child_differs_def not_less split_beta)


definition sample_child :: logical_task_contract where
  "sample_child = (sample_task 2 SECURITY (Some 1) [] [])\<lparr> lt_route := sample_binding ''m'', lt_max_repairs := 1 \<rparr>"


text \<open>Role defaults never enlarge a finite parent: with clamping the seeded budget is within the parent's
  budget in all eight dimensions and within the role's own token defaults, it stays valid, and no
  dimension but the two token limits changes.\<close>

theorem role_defaults_bounds:
  assumes "valid_budget parent" and "\<forall>d. token_budget_for e purpose = Some d \<longrightarrow> token_budget_defaults_validate d = None"
  shows "let b = budget_with_role_defaults parent e purpose True in
     valid_budget b \<and> budget_within b parent \<and> can_reserve (empty_pool parent) b \<and>
     (\<forall>d. token_budget_for e purpose = Some d \<longrightarrow> within_limit (tb_max_input_tokens b) (tbd_max_input_tokens d) \<and>
        within_limit (tb_max_output_tokens b) (tbd_max_output_tokens d)) \<and>
     b = parent\<lparr> tb_max_input_tokens := tb_max_input_tokens b, tb_max_output_tokens := tb_max_output_tokens b \<rparr>"
proof (cases "token_budget_for e purpose")
  case None
  have "budget_within parent parent" by (simp add: budget_within_def)
  with None assms(1) within_reservable show ?thesis by (simp add: budget_with_role_defaults_def)
next
  case (Some d)
  let ?b = "parent\<lparr> tb_max_input_tokens := seeded_limit True (tb_max_input_tokens parent) (tbd_max_input_tokens d),
    tb_max_output_tokens := seeded_limit True (tb_max_output_tokens parent) (tbd_max_output_tokens d) \<rparr>"
  have b: "budget_with_role_defaults parent e purpose True = ?b" using Some by (simp add: budget_with_role_defaults_def Let_def)
  have s: "within_limit (seeded_limit True p q) p" "within_limit (seeded_limit True p q) q" for p q
    by (auto simp: within_limit_def seeded_limit_def split: option.split)
  have "valid_budget ?b" using assms Some
    by (auto simp: valid_budget_def task_budget_validate_def token_budget_defaults_validate_def seeded_limit_def split: option.splits)
  moreover have "budget_within ?b parent" unfolding budget_within_def all_less8 using s by (simp add: limits_def)
  ultimately show ?thesis using s within_reservable Some unfolding b by (simp add: Let_def)
qed

theorem role_defaults_bounds_witness:
  "tb_max_input_tokens (budget_with_role_defaults sample_budget (frozen_envelope sample_profile 1 1) SECURITY True) = Some 5 \<and>
   budget_within (budget_with_role_defaults sample_budget (frozen_envelope sample_profile 1 1) SECURITY True) sample_budget"
proof -
  have "valid_budget sample_budget" by code_simp
  moreover have "\<forall>d. token_budget_for (frozen_envelope sample_profile 1 1) SECURITY = Some d \<longrightarrow> token_budget_defaults_validate d = None"
    by (simp add: token_budget_for_def frozen_envelope_def sample_profile_def token_budget_defaults_validate_def)
  moreover have "tb_max_input_tokens (budget_with_role_defaults sample_budget (frozen_envelope sample_profile 1 1) SECURITY True) = Some 5"
    by code_simp
  ultimately show ?thesis using role_defaults_bounds [of sample_budget "frozen_envelope sample_profile 1 1" SECURITY] by (simp add: Let_def)
qed

section \<open>Candidate routes and quota pools\<close>

text \<open>Every route a task may try is one the frozen envelope permits for its purpose: for a task whose
  own route is permitted, each candidate is the effective route of a permitted binding with the same
  requested route, with the authentication and billing modes of the current one; the current route
  is tried first, and a primary task has no other.\<close>

theorem candidate_routes_permitted:
  assumes "permits_route e (lt_purpose t) (lt_route t)"
  shows "(\<forall>c \<in> set (task_candidate_routes t (Some e)).
       \<exists>b. permits_route e (lt_purpose t) b \<and> rb_effective b = ct_route c \<and> rb_requested b = rb_requested (lt_route t) \<and>
         route_auth_mode (ct_route c) = route_auth_mode (rb_effective (lt_route t)) \<and>
         route_billing_mode (ct_route c) = route_billing_mode (rb_effective (lt_route t))) \<and>
     ct_route (hd (task_candidate_routes t (Some e))) = rb_effective (lt_route t) \<and>
     (lt_purpose t = PRIMARY \<longrightarrow> length (task_candidate_routes t (Some e)) = 1)"
proof -
  let ?r = "lt_route t" and ?cs = "task_candidate_routes t (Some e)"
  from assms obtain pr where pr: "route_for e (lt_purpose t) = Inr pr" by (auto simp: permits_route_def split: sum.splits)
  have "\<exists>b. permits_route e (lt_purpose t) b \<and> rb_effective b = ct_route c \<and> rb_requested b = rb_requested ?r \<and>
         route_auth_mode (ct_route c) = route_auth_mode (rb_effective ?r) \<and>
         route_billing_mode (ct_route c) = route_billing_mode (rb_effective ?r)" if c: "c \<in> set ?cs" for c
  proof (cases "ct_route c = rb_effective ?r")
    case True
    with assms show ?thesis by auto
  next
    case False
    with c pr have req: "rb_requested ?r = rb_requested pr" and np: "\<not> rb_is_primary ?r" and
      modes: "route_auth_mode (ct_route c) = route_auth_mode (rb_effective ?r)" "route_billing_mode (ct_route c) = route_billing_mode (rb_effective ?r)" and
      src: "ct_route c = rb_effective pr \<or> ct_route c \<in> set (fallbacks_for e (lt_purpose t))"
      by (auto simp: task_candidate_routes_def Let_def split: if_splits)
    from assms pr np have pm: "\<not> rb_is_primary pr \<and> route_auth_mode (rb_effective ?r) = route_auth_mode (rb_effective pr) \<and>
        route_billing_mode (rb_effective ?r) = route_billing_mode (rb_effective pr)" by (auto simp: permits_route_def)
    from src show ?thesis
    proof
      assume "ct_route c = rb_effective pr"
      with pr req modes show ?thesis by (intro exI [of _ pr]) (simp add: permits_route_def)
    next
      assume "ct_route c \<in> set (fallbacks_for e (lt_purpose t))"
      with pr req np pm modes show ?thesis by (intro exI [of _ "?r\<lparr> rb_effective := ct_route c \<rparr>"]) (simp add: permits_route_def)
    qed
  qed
  then show ?thesis using pr by (auto simp: task_candidate_routes_def Let_def)
qed

theorem candidate_routes_permitted_witness:
  "map ct_route (task_candidate_routes sample_child (Some sample_envelope)) = [sample_route ''m'', sample_route ''m'', sample_route ''f''] \<and>
   (\<exists>b. permits_route sample_envelope SECURITY b \<and> rb_effective b = sample_route ''f'')"
proof -
  have p: "permits_route sample_envelope (lt_purpose sample_child) (lt_route sample_child)" by code_simp
  have m: "map ct_route (task_candidate_routes sample_child (Some sample_envelope)) = [sample_route ''m'', sample_route ''m'', sample_route ''f'']"
    by code_simp
  then have "sample_route ''f'' \<in> set (map ct_route (task_candidate_routes sample_child (Some sample_envelope)))" by simp
  then obtain c where "c \<in> set (task_candidate_routes sample_child (Some sample_envelope))" "ct_route c = sample_route ''f''" by auto
  moreover have "lt_purpose sample_child = SECURITY" by (simp add: sample_child_def sample_task_def)
  ultimately show ?thesis using candidate_routes_permitted [OF p] m by metis
qed

text \<open>A route meets at most two selectors of a policy, a general one and one for its model.\<close>

lemma matching_unique:
  assumes "distinct (map quota_selector ps)" and "a \<in> set ps" "b \<in> set ps" and "quota_matches a r" "quota_matches b r"
    and "qr_model a = qr_model b"
  shows "a = b"
proof -
  have "quota_selector a = quota_selector b" using assms(4-6) by (simp add: quota_matches_def quota_selector_def)
  with assms(1-3) show ?thesis by (meson distinct_map inj_onD)
qed

definition selected_pool :: "quota_route_pool list \<Rightarrow> route_spec \<Rightarrow> quota_route_pool \<Rightarrow> bool" where
  "selected_pool ps r p \<longleftrightarrow> p \<in> set ps \<and> quota_matches p r \<and>
     (qr_model p = None \<longrightarrow> (\<forall>q \<in> set ps. quota_matches q r \<longrightarrow> qr_model q = None))"

lemma selected_unique:
  assumes "distinct (map quota_selector ps)" and "selected_pool ps r p" and "selected_pool ps r q"
  shows "p = q"
proof (rule matching_unique [OF assms(1), of p q r])
  have "qr_model p = None \<or> qr_model p = Some (route_model r)" "qr_model q = None \<or> qr_model q = Some (route_model r)"
    using assms(2,3) unfolding selected_pool_def quota_matches_def by blast+
  moreover have "qr_model p = None \<longrightarrow> qr_model q = None" "qr_model q = None \<longrightarrow> qr_model p = None"
    using assms(2,3) unfolding selected_pool_def by blast+
  ultimately show "qr_model p = qr_model q" by argo
qed (use assms(2,3) in \<open>auto simp: selected_pool_def\<close>)

lemma key_for_cases:
  "(\<exists>p. selected_pool (qp_route_pools q) r p \<and> key_for q r = quota_pool_key_make (qr_provider p) (qr_account p) (qr_pool p)) \<or>
   (\<forall>p \<in> set (qp_route_pools q). \<not> quota_matches p r) \<and> key_for q r = quota_pool_key_make (route_provider r) ''local''
      (auth_mode_str (route_auth_mode r) @ ''-'' @ billing_mode_str (route_billing_mode r))"
proof (cases "filter (\<lambda>item. quota_matches item r) (qp_route_pools q)")
  case Nil
  then show ?thesis by (simp add: key_for_def filter_empty_conv)
next
  case (Cons first rest)
  let ?m = "first # rest"
  have m: "set ?m = {p \<in> set (qp_route_pools q). quota_matches p r}" using Cons by (metis set_filter)
  show ?thesis
  proof (cases "find (\<lambda>item. qr_model item \<noteq> None) ?m")
    case None
    then have "\<forall>p \<in> set ?m. qr_model p = None" by (simp only: find_None_iff) auto
    with m have "selected_pool (qp_route_pools q) r first" by (auto simp: selected_pool_def)
    with None Cons show ?thesis by (intro disjI1 exI [of _ first]) (simp add: key_for_def)
  next
    case (Some p)
    then have "\<exists>i < length ?m. qr_model (?m ! i) \<noteq> None \<and> p = ?m ! i" unfolding find_Some_iff by blast
    then have "p \<in> set ?m" "qr_model p \<noteq> None" using nth_mem [of _ ?m] by blast+
    with m have "selected_pool (qp_route_pools q) r p" by (auto simp: selected_pool_def)
    with Some Cons show ?thesis by (intro disjI1 exI [of _ p]) (simp add: key_for_def)
  qed
qed

text \<open>The pool a route is charged to does not depend on the order of the policy's selectors: in a valid
  policy a mapping for the route's own model wins over the general one, and any rearrangement of the
  mappings gives the same key; a mapped route always has a key.\<close>

theorem quota_key_order_independent:
  assumes "quota_policy_validate q = None" and "mset (qp_route_pools q') = mset (qp_route_pools q)"
    and "\<forall>p \<in> set (qp_route_pools q). quota_route_pool_validate p = None"
  shows "key_for q' r = key_for q r \<and>
     (\<forall>p. selected_pool (qp_route_pools q) r p \<longrightarrow>
        key_for q r = Inr \<lparr> qk_provider = qr_provider p, qk_account = qr_account p, qk_pool = qr_pool p \<rparr>)"
proof -
  have d: "distinct (map quota_selector (qp_route_pools q))" using assms(1) by (auto simp: quota_policy_validate_def)
  have same: "set (qp_route_pools q') = set (qp_route_pools q)" using assms(2) by (metis set_mset_mset)
  then have sel: "selected_pool (qp_route_pools q') r = selected_pool (qp_route_pools q) r" by (auto simp: selected_pool_def)
  have none: "\<not> selected_pool (qp_route_pools q) r p" if "\<forall>p \<in> set (qp_route_pools q). \<not> quota_matches p r" for p
    using that by (auto simp: selected_pool_def)
  have "key_for q' r = key_for q r"
    using key_for_cases [of q r] key_for_cases [of q' r] selected_unique [OF d, of r] none unfolding sel same
    by (metis selected_pool_def)
  moreover have "key_for q r = Inr \<lparr> qk_provider = qr_provider p, qk_account = qr_account p, qk_pool = qr_pool p \<rparr>"
    if p: "selected_pool (qp_route_pools q) r p" for p
  proof -
    have "quota_route_pool_validate p = None" using assms(3) p by (auto simp: selected_pool_def)
    then have "quota_pool_key_make (qr_provider p) (qr_account p) (qr_pool p) =
        Inr \<lparr> qk_provider = qr_provider p, qk_account = qr_account p, qk_pool = qr_pool p \<rparr>"
      by (auto simp: quota_route_pool_validate_def quota_pool_key_make_def each_raise_def)
    moreover have "\<exists>p'. selected_pool (qp_route_pools q) r p' \<and> key_for q r = quota_pool_key_make (qr_provider p') (qr_account p') (qr_pool p')"
      using key_for_cases [of q r] none p by blast
    ultimately show ?thesis using selected_unique [OF d p] by metis
  qed
  ultimately show ?thesis by blast
qed

definition sample_pool :: "string \<Rightarrow> string option \<Rightarrow> quota_route_pool" where
  "sample_pool pool model = \<lparr> qr_provider = ''p'', qr_client = ''c'', qr_account = ''a'', qr_pool = pool,
     qr_auth_mode = Auth_SUBSCRIPTION, qr_billing_mode = ALLOWANCE_ONLY, qr_model = model \<rparr>"

theorem quota_key_order_independent_witness:
  "key_for \<lparr> qp_route_pools = [sample_pool ''general'' None, sample_pool ''own'' (Some ''m'')], qp_unknown_reset_cooldown_seconds = 60 \<rparr> (sample_route ''m'') =
   Inr \<lparr> qk_provider = ''p'', qk_account = ''a'', qk_pool = ''own'' \<rparr>"
proof -
  let ?q = "\<lparr> qp_route_pools = [sample_pool ''general'' None, sample_pool ''own'' (Some ''m'')], qp_unknown_reset_cooldown_seconds = 60 \<rparr>"
  have "quota_policy_validate ?q = None" "\<forall>p \<in> set (qp_route_pools ?q). quota_route_pool_validate p = None" by code_simp+
  moreover have "selected_pool (qp_route_pools ?q) (sample_route ''m'') (sample_pool ''own'' (Some ''m''))"
    by (simp add: selected_pool_def quota_matches_def sample_pool_def sample_route_def)
  ultimately show ?thesis using quota_key_order_independent [of ?q ?q "sample_route ''m''"] by (fastforce simp: sample_pool_def)
qed

end
