(* ===== verification/Forge_Decision.thy ===== *)
theory Forge_Decision
  imports Forge_Delegation Forge_Run
begin

text \<open>
  What an attempt may use and say: attempt identities, broker bindings, tool calls, check evidence,
  handoffs and the decisions of \<^verbatim>\<open>domain/subscription.py\<close>; which role may issue which decision
  (\<^verbatim>\<open>domain/subscription_decision_policy.py\<close>); operator task controls and feedback
  (\<^verbatim>\<open>domain/subscription_task_controls.py\<close>, \<^verbatim>\<open>domain/subscription_feedback.py\<close>); the terminal proof
  of a launch (\<^verbatim>\<open>domain/subscription_launch.py\<close>).
\<close>

section \<open>Attempts, tools and evidence\<close>

record attempt_identity =
  ai_run_id :: uuid
  ai_task_id :: uuid
  ai_attempt_id :: uuid
  ai_attempt_number :: int

definition attempt_identity_validate :: "attempt_identity \<Rightarrow> py_exn option" where
  "attempt_identity_validate a = seq_raise [
     validate_non_nil_uuid (ai_run_id a) ''run_id'',
     validate_non_nil_uuid (ai_task_id a) ''task_id'',
     validate_non_nil_uuid (ai_attempt_id a) ''attempt_id'',
     when_raise (ai_attempt_number a < 1) (ValueError ''attempt_number must be an integer >= 1'')]"

record broker_binding =
  bb_run_id :: uuid
  bb_task_id :: uuid
  bb_attempt_id :: uuid
  bb_worktree_id :: string
  bb_role :: specialist_purpose
  bb_policy_version :: int
  bb_permitted_tools :: "tool_name list"
  bb_broker_token :: string

text \<open>The permitted tools are the frozen set in its iteration order.\<close>

definition broker_binding_validate :: "broker_binding \<Rightarrow> py_exn option" where
  "broker_binding_validate b = seq_raise [
     validate_non_nil_uuid (bb_run_id b) ''run_id'',
     validate_non_nil_uuid (bb_task_id b) ''task_id'',
     validate_non_nil_uuid (bb_attempt_id b) ''attempt_id'',
     when_raise (\<not> worktree_name_fullmatch (bb_worktree_id b)) (ValueError ''invalid worktree_id''),
     when_raise (bb_policy_version b < 1) (ValueError ''policy_version must be an integer >= 1''),
     validate_non_blank_text (bb_broker_token b) ''broker_token'',
     each_raise (bb_permitted_tools b) (\<lambda>tool. when_raise (tool \<notin> set (SPECIALIST_ALLOWED_TOOLS (bb_role b)))
       (ValueError (''tool '' @ tool_str tool @ '' exceeds allowed tool permissions for '' @ purpose_str (bb_role b))))]"

record tool_call_binding =
  tc_attempt_id :: uuid
  tc_provider_call_key :: string
  tc_durable_operation_id :: uuid
  tc_tool_name :: tool_name
  tc_arguments_digest :: string
  tc_admitted_at :: "datetime option"
  tc_receipt_id :: "uuid option"

definition tool_call_binding_validate :: "tool_call_binding \<Rightarrow> py_exn option" where
  "tool_call_binding_validate b = seq_raise [
     validate_non_nil_uuid (tc_attempt_id b) ''attempt_id'',
     validate_non_blank_text (tc_provider_call_key b) ''provider_call_key'',
     validate_non_nil_uuid (tc_durable_operation_id b) ''durable_operation_id'',
     validate_sha256_digest (tc_arguments_digest b) ''arguments_digest'',
     opt_raise (tc_receipt_id b) (\<lambda>u. validate_non_nil_uuid u ''receipt_id'')]"

record check_result_evidence =
  cr_command_name :: string
  cr_exit_code :: int
  cr_passed :: bool
  cr_output_digest :: string
  cr_duration_ms :: int
  cr_receipt_id :: "string option"

definition check_result_evidence_validate :: "check_result_evidence \<Rightarrow> py_exn option" where
  "check_result_evidence_validate r = seq_raise [
     validate_non_blank_text (cr_command_name r) ''command_name'',
     when_raise (cr_passed r \<noteq> (cr_exit_code r = 0)) (ValueError ''passed must agree with exit_code''),
     validate_sha256_digest (cr_output_digest r) ''output_digest'',
     nonnegative ''duration_ms'' (cr_duration_ms r),
     opt_raise (cr_receipt_id r) (\<lambda>s. validate_non_blank_text s ''receipt_id'')]"

datatype handoff_status =
  Handoff_COMPLETED | Handoff_REPAIRS_EXHAUSTED | Handoff_SCOPE_EXPANSION_REQUESTED | Handoff_BLOCKED | Handoff_FAILED

record task_handoff =
  th_run_id :: uuid
  th_task_id :: uuid
  th_attempt_id :: uuid
  th_status :: handoff_status
  th_candidate_commit :: "string option"
  th_candidate_tree_digest :: string
  th_changed_paths :: "string list"
  th_check_results :: "check_result_evidence list"
  th_evidence_receipt_ids :: "string list"
  th_residual_concerns :: "string list"
  th_summary :: string
  th_scope_request_paths :: "string list"

definition validate_candidate_commit :: "string option \<Rightarrow> py_exn option" where
  "validate_candidate_commit c = opt_raise c (\<lambda>s. when_raise (\<not> is_sha40 s)
     (ValueError ''candidate_commit must be a 40-character hex commit SHA''))"

definition handoff_content_guards :: "task_handoff \<Rightarrow> py_exn option" where
  "handoff_content_guards h = seq_raise [
     when_raise (128 < length (th_check_results h)) (TypeError ''check_results must contain at most 128 CheckResultEvidence instances''),
     freeze_texts 64 (th_evidence_receipt_ids h) ''evidence_receipt_id'',
     freeze_texts 64 (th_residual_concerns h) ''residual_concern'',
     (if th_summary h \<noteq> [] then validate_non_blank_text (th_summary h) ''summary'' else None),
     (if th_status h = Handoff_COMPLETED then seq_raise [
        when_raise (th_candidate_tree_digest h = []) (ValueError ''completed handoff requires candidate_tree_digest''),
        validate_sha256_digest (th_candidate_tree_digest h) ''candidate_tree_digest'',
        when_raise (th_evidence_receipt_ids h = []) (ValueError ''completed handoff requires evidence_receipt_ids'')]
      else if th_candidate_tree_digest h \<noteq> [] then validate_sha256_digest (th_candidate_tree_digest h) ''candidate_tree_digest''
      else None)]"

definition task_handoff_make :: "bool \<Rightarrow> task_handoff \<Rightarrow> task_handoff result" where
  "task_handoff_make nt h = (case seq_raise [
       validate_non_nil_uuid (th_run_id h) ''run_id'',
       validate_non_nil_uuid (th_task_id h) ''task_id'',
       validate_non_nil_uuid (th_attempt_id h) ''attempt_id'',
       validate_candidate_commit (th_candidate_commit h)] of
     Some e \<Rightarrow> Inl e
   | None \<Rightarrow>
       ebind (normalize_policy_paths nt (th_changed_paths h)) (\<lambda>changed.
       ebind (if th_scope_request_paths h \<noteq> [] then normalize_policy_paths nt (th_scope_request_paths h) else Inr []) (\<lambda>scope.
         let h' = h\<lparr> th_changed_paths := changed, th_scope_request_paths := scope \<rparr> in
         raising (handoff_content_guards h') h')))"

section \<open>Decisions\<close>

record delegate_decision =
  dd_run_id :: uuid
  dd_parent_task_id :: uuid
  dd_child_tasks :: "logical_task_contract list"
  dd_rationale :: string

definition delegate_decision_validate :: "delegate_decision \<Rightarrow> py_exn option" where
  "delegate_decision_validate d = seq_raise [
     validate_non_nil_uuid (dd_run_id d) ''run_id'',
     validate_non_nil_uuid (dd_parent_task_id d) ''parent_task_id'',
     validate_non_blank_text (dd_rationale d) ''rationale'',
     when_raise (dd_child_tasks d = []) (ValueError ''child_tasks must not be empty''),
     each_raise (dd_child_tasks d) (\<lambda>child. seq_raise [
       when_raise (lt_parent_task_id child \<noteq> Some (dd_parent_task_id d))
         (ValueError ''child task parent_task_id must match decision parent_task_id''),
       when_raise (lt_run_id child \<noteq> dd_run_id d) (ValueError ''child task run_id must match decision run_id'')])]"

record wait_decision =
  wd_run_id :: uuid
  wd_task_id :: uuid
  wd_waiting_on_task_ids :: "uuid list"
  wd_reason :: string

definition wait_decision_validate :: "wait_decision \<Rightarrow> py_exn option" where
  "wait_decision_validate d = seq_raise [
     validate_non_nil_uuid (wd_run_id d) ''run_id'',
     validate_non_nil_uuid (wd_task_id d) ''task_id'',
     validate_non_blank_text (wd_reason d) ''reason'',
     when_raise (wd_waiting_on_task_ids d = []) (ValueError ''waiting_on_task_ids must not be empty''),
     each_raise (wd_waiting_on_task_ids d) (\<lambda>t. validate_non_nil_uuid t ''waiting_on_task_id''),
     when_raise (\<not> distinct (wd_waiting_on_task_ids d)) (ValueError ''waiting_on_task_ids must not contain duplicates'')]"

record scope_request_decision =
  sq_run_id :: uuid
  sq_task_id :: uuid
  sq_requested_paths :: "string list"
  sq_reason :: string

definition scope_request_make :: "bool \<Rightarrow> scope_request_decision \<Rightarrow> scope_request_decision result" where
  "scope_request_make nt d = (case seq_raise [
       validate_non_nil_uuid (sq_run_id d) ''run_id'',
       validate_non_nil_uuid (sq_task_id d) ''task_id'',
       validate_non_blank_text (sq_reason d) ''reason''] of
     Some e \<Rightarrow> Inl e
   | None \<Rightarrow> ebind (normalize_policy_paths nt (sq_requested_paths d)) (\<lambda>normalized.
       if normalized = [] then Inl (ValueError ''requested_paths must not be empty'')
       else Inr (d\<lparr> sq_requested_paths := normalized \<rparr>)))"

record scope_response_decision =
  ss_run_id :: uuid
  ss_task_id :: uuid
  ss_granted_paths :: "string list"
  ss_denied_paths :: "string list"
  ss_reason :: string

record bound_scope_response = scope_response_decision +
  ss_request_attempt_id :: uuid

definition scope_response_make :: "bool \<Rightarrow> 'a scope_response_decision_scheme \<Rightarrow> 'a scope_response_decision_scheme result" where
  "scope_response_make nt d = (case seq_raise [
       validate_non_nil_uuid (ss_run_id d) ''run_id'',
       validate_non_nil_uuid (ss_task_id d) ''task_id'',
       validate_non_blank_text (ss_reason d) ''reason''] of
     Some e \<Rightarrow> Inl e
   | None \<Rightarrow> ebind (normalize_policy_paths nt (ss_granted_paths d)) (\<lambda>granted.
       ebind (normalize_policy_paths nt (ss_denied_paths d)) (\<lambda>denied.
         Inr (d\<lparr> ss_granted_paths := granted, ss_denied_paths := denied \<rparr>))))"

definition bound_scope_response_make :: "bool \<Rightarrow> bound_scope_response \<Rightarrow> bound_scope_response result" where
  "bound_scope_response_make nt d = ebind (scope_response_make nt d) (\<lambda>d'. raising (seq_raise [
     validate_non_nil_uuid (ss_request_attempt_id d') ''request_attempt_id'',
     when_raise (ss_granted_paths d' = [] \<and> ss_denied_paths d' = []) (ValueError ''scope response must answer requested paths''),
     when_raise (set (map (policy_path_key nt) (ss_granted_paths d')) \<inter> set (map (policy_path_key nt) (ss_denied_paths d')) \<noteq> {})
       (ValueError ''scope response cannot grant and deny the same path'')]) d')"

record accept_decision =
  ad_run_id :: uuid
  ad_task_id :: uuid
  ad_candidate_commit :: "string option"
  ad_candidate_tree_digest :: string
  ad_evidence_receipt_ids :: "string list"
  ad_rationale :: string

definition accept_decision_validate :: "accept_decision \<Rightarrow> py_exn option" where
  "accept_decision_validate d = seq_raise [
     validate_non_nil_uuid (ad_run_id d) ''run_id'',
     validate_non_nil_uuid (ad_task_id d) ''task_id'',
     validate_sha256_digest (ad_candidate_tree_digest d) ''candidate_tree_digest'',
     validate_non_blank_text (ad_rationale d) ''rationale'',
     validate_candidate_commit (ad_candidate_commit d),
     when_raise (ad_evidence_receipt_ids d = []) (ValueError ''acceptance requires evidence_receipt_ids (no fabricated approval)''),
     each_raise (ad_evidence_receipt_ids d) (\<lambda>rid. validate_non_blank_text rid ''evidence_receipt_id'')]"

record reassign_decision =
  rd_run_id :: uuid
  rd_task_id :: uuid
  rd_new_route :: route_spec
  rd_reason :: string
  rd_preserve_partial_work :: bool

record bound_reassign_decision = reassign_decision +
  rd_source_attempt_id :: uuid
  rd_expected_task_version :: int

definition reassign_decision_validate :: "'a reassign_decision_scheme \<Rightarrow> py_exn option" where
  "reassign_decision_validate d = seq_raise [
     validate_non_nil_uuid (rd_run_id d) ''run_id'',
     validate_non_nil_uuid (rd_task_id d) ''task_id'',
     validate_non_blank_text (rd_reason d) ''reason'']"

definition bound_reassign_validate :: "bound_reassign_decision \<Rightarrow> py_exn option" where
  "bound_reassign_validate d = seq_raise [
     reassign_decision_validate d,
     validate_non_nil_uuid (rd_source_attempt_id d) ''source_attempt_id'',
     when_raise (rd_expected_task_version d < 0) (ValueError ''expected_task_version must be a non-negative integer'')]"

record forward_feedback_decision =
  ff_run_id :: uuid
  ff_task_id :: uuid
  ff_feedback_receipt_id :: uuid
  ff_feedback_digest :: string

definition forward_feedback_validate :: "forward_feedback_decision \<Rightarrow> py_exn option" where
  "forward_feedback_validate d = seq_raise [
     validate_non_nil_uuid (ff_run_id d) ''run_id'',
     validate_non_nil_uuid (ff_task_id d) ''task_id'',
     validate_non_nil_uuid (ff_feedback_receipt_id d) ''feedback_receipt_id'',
     validate_sha256_digest (ff_feedback_digest d) ''feedback_digest'']"

record review_selection =
  rsel_run_id :: uuid
  rsel_candidate_commit :: "string option"
  rsel_candidate_tree_digest :: string
  rsel_review_required :: bool
  rsel_no_review_reason :: "string option"
  rsel_reviewer_route :: "route_spec option"
  rsel_review_task_id :: "uuid option"
  rsel_complexity_reason :: "string option"
  rsel_exceptional_maximum_effort :: bool

definition review_required_guards :: "review_selection \<Rightarrow> py_exn option" where
  "review_required_guards s = (case rsel_reviewer_route s of
     None \<Rightarrow> Some (ValueError ''review_required requires reviewer_route'')
   | Some route \<Rightarrow> seq_raise [
       when_raise (rsel_no_review_reason s \<noteq> None) (ValueError ''review_required cannot specify no_review_reason''),
       opt_raise (rsel_review_task_id s) (\<lambda>t. validate_non_nil_uuid t ''review_task_id''),
       when_raise (route_effort route = Effort_HIGH \<and> rsel_complexity_reason s \<in> {None, Some []})
         (ValueError ''high-effort review requires complexity_reason''),
       when_raise (route_effort route = Effort_MAXIMUM \<and> \<not> rsel_exceptional_maximum_effort s)
         (ValueError ''maximum-effort review requires explicit exceptional opt-in'')])"

definition no_review_guards :: "review_selection \<Rightarrow> py_exn option" where
  "no_review_guards s = seq_raise [
     when_raise (case rsel_no_review_reason s of None \<Rightarrow> True | Some reason \<Rightarrow> reason = [] \<or> blank reason)
       (ValueError ''no-review selection requires an explicit no_review_reason''),
     when_raise (rsel_reviewer_route s \<noteq> None) (ValueError ''no-review selection cannot specify reviewer_route''),
     when_raise (rsel_review_task_id s \<noteq> None) (ValueError ''no-review selection cannot specify review_task_id''),
     when_raise (rsel_complexity_reason s \<noteq> None \<or> rsel_exceptional_maximum_effort s)
       (ValueError ''no-review selection cannot specify review effort details'')]"

definition review_selection_validate :: "review_selection \<Rightarrow> py_exn option" where
  "review_selection_validate s = seq_raise [
     validate_non_nil_uuid (rsel_run_id s) ''run_id'',
     validate_sha256_digest (rsel_candidate_tree_digest s) ''candidate_tree_digest'',
     validate_candidate_commit (rsel_candidate_commit s),
     (if rsel_review_required s then review_required_guards s else no_review_guards s)]"

section \<open>Who may decide what\<close>

datatype decision =
    Dec_plan plan | Dec_delegate delegate_decision | Dec_wait wait_decision | Dec_handoff task_handoff
  | Dec_scope_request scope_request_decision | Dec_scope_response scope_response_decision
  | Dec_bound_scope_response bound_scope_response | Dec_accept accept_decision | Dec_reassign reassign_decision
  | Dec_bound_reassign bound_reassign_decision | Dec_review_selection review_selection
  | Dec_forward_feedback forward_feedback_decision | Dec_other

definition PRIMARY_DECISIONS :: "string list" where
  "PRIMARY_DECISIONS = [''plan'', ''delegate'', ''wait'', ''scope_response'', ''accept'', ''reassign'',
     ''review_selection'', ''forward_feedback'']"

definition WORKER_DECISIONS :: "string list" where
  "WORKER_DECISIONS = [''handoff'', ''scope_request'']"

definition decision_allowed :: "string \<Rightarrow> specialist_purpose \<Rightarrow> run_state option \<Rightarrow> bool" where
  "decision_allowed kind purpose phase = (if purpose = PRIMARY then
       (if kind \<notin> set PRIMARY_DECISIONS then False
        else if phase = Some PLANNING then kind = ''plan'' else kind \<noteq> ''plan'')
     else if kind \<notin> set WORKER_DECISIONS then False
     else phase \<noteq> Some PLANNING)"

fun decision_kind :: "decision \<Rightarrow> string option" where
  "decision_kind (Dec_plan _) = Some ''plan''"
| "decision_kind (Dec_delegate _) = Some ''delegate''"
| "decision_kind (Dec_wait _) = Some ''wait''"
| "decision_kind (Dec_handoff _) = Some ''handoff''"
| "decision_kind (Dec_scope_request _) = Some ''scope_request''"
| "decision_kind (Dec_scope_response _) = Some ''scope_response''"
| "decision_kind (Dec_bound_scope_response _) = Some ''scope_response''"
| "decision_kind (Dec_accept _) = Some ''accept''"
| "decision_kind (Dec_reassign _) = Some ''reassign''"
| "decision_kind (Dec_bound_reassign _) = Some ''reassign''"
| "decision_kind (Dec_review_selection _) = Some ''review_selection''"
| "decision_kind (Dec_forward_feedback _) = Some ''forward_feedback''"
| "decision_kind Dec_other = None"

definition is_approved_plan_primary_contract :: "logical_task_contract \<Rightarrow> bool" where
  "is_approved_plan_primary_contract t = (lt_purpose t = PRIMARY \<and>
     (\<exists>item \<in> set (lt_typed_acceptance t). acr_criterion_id item = ''approved-plan''))"

section \<open>Operator controls and feedback\<close>

text \<open>A failing \<^verbatim>\<open>Field\<close> constraint is the error named after its field, the first in field order.\<close>

definition field_ge :: "int \<Rightarrow> int \<Rightarrow> string \<Rightarrow> py_exn option" where
  "field_ge bound v name = when_raise (v < bound) (ValueError name)"

definition field_length :: "nat \<Rightarrow> nat \<Rightarrow> string \<Rightarrow> string \<Rightarrow> py_exn option" where
  "field_length low high v name = when_raise (length v < low \<or> high < length v) (ValueError name)"

definition field_digest :: "string \<Rightarrow> string \<Rightarrow> py_exn option" where
  "field_digest v name = when_raise (\<not> is_digest64 v) (ValueError name)"

datatype task_control_action = Control_pause | Control_cancel | Control_resume

datatype task_control_status =
    Control_pause_requested | Control_cancel_requested | Control_paused | Control_cancelled
  | Control_queued | Control_blocked | Control_decision_pending

record task_control_request =
  tcq_action :: task_control_action
  tcq_expected_run_version :: int
  tcq_expected_task_version :: int
  tcq_reason :: string
  tcq_pause_receipt_id :: "uuid option"

definition task_control_request_validate :: "task_control_request \<Rightarrow> py_exn option" where
  "task_control_request_validate q = seq_raise [
     field_ge 0 (tcq_expected_run_version q) ''expected_run_version'',
     field_ge 0 (tcq_expected_task_version q) ''expected_task_version'',
     field_length 1 512 (tcq_reason q) ''reason'',
     when_raise (blank (tcq_reason q) \<or> 512 < utf8_length (tcq_reason q))
       (ValueError ''task control reason must be nonblank and bounded''),
     when_raise ((tcq_action q = Control_resume) \<noteq> (tcq_pause_receipt_id q \<noteq> None))
       (ValueError ''only resume requires a pause receipt''),
     when_raise (tcq_pause_receipt_id q = Some 0) (ValueError ''pause receipt identity is invalid'')]"

record task_control_receipt =
  tcr_receipt_id :: uuid
  tcr_run_id :: uuid
  tcr_task_id :: uuid
  tcr_action :: task_control_action
  tcr_status :: task_control_status
  tcr_run_version :: int
  tcr_task_version :: int
  tcr_observed_at :: datetime
  tcr_reason :: string
  tcr_pause_receipt_id :: "uuid option"

fun control_outcomes :: "task_control_action \<Rightarrow> task_control_status list" where
  "control_outcomes Control_pause = [Control_pause_requested, Control_paused]"
| "control_outcomes Control_cancel = [Control_cancel_requested, Control_cancelled]"
| "control_outcomes Control_resume = [Control_queued, Control_blocked, Control_decision_pending]"

definition task_control_receipt_validate :: "task_control_receipt \<Rightarrow> py_exn option" where
  "task_control_receipt_validate r = seq_raise [
     field_ge 0 (tcr_run_version r) ''run_version'',
     field_ge 1 (tcr_task_version r) ''task_version'',
     field_length 1 512 (tcr_reason r) ''reason'',
     when_raise (tcr_status r \<notin> set (control_outcomes (tcr_action r))) (ValueError ''task control outcome differs''),
     when_raise ((tcr_action r = Control_resume) \<noteq> (tcr_pause_receipt_id r \<noteq> None))
       (ValueError ''task control pause binding differs''),
     when_raise (\<not> is_aware (tcr_observed_at r)) (ValueError ''task control clock must be timezone-aware''),
     when_raise (0 \<in> {tcr_receipt_id r, tcr_run_id r, tcr_task_id r}) (ValueError ''task control receipt identity is invalid'')]"

datatype candidate_state = Candidate_open | Candidate_draining | Candidate_closed

record task_control_proof =
  tcp_task_digest :: string
  tcp_parent_digest :: string
  tcp_envelope_digest :: string
  tcp_scheduling_digest :: string
  tcp_run_state :: run_state
  tcp_candidate_epoch :: int
  tcp_candidate_state :: candidate_state

definition task_control_proof_validate :: "'a task_control_proof_scheme \<Rightarrow> py_exn option" where
  "task_control_proof_validate p = seq_raise [
     field_digest (tcp_task_digest p) ''task_digest'',
     field_digest (tcp_parent_digest p) ''parent_digest'',
     field_digest (tcp_envelope_digest p) ''envelope_digest'',
     field_digest (tcp_scheduling_digest p) ''scheduling_digest'',
     field_ge 0 (tcp_candidate_epoch p) ''candidate_epoch'']"

datatype source_kind = Source_active | Source_pending | Source_stale

record task_control_source =
  tcs_kind :: source_kind
  tcs_attempt_id :: uuid
  tcs_admission_version :: int
  tcs_task_version :: int
  tcs_lease_owner :: string
  tcs_lease_generation :: int
  tcs_result_digest :: "string option"
  tcs_previous_stop_receipt_id :: "uuid option"

definition task_control_source_validate :: "task_control_source \<Rightarrow> py_exn option" where
  "task_control_source_validate s = seq_raise [
     field_ge 1 (tcs_admission_version s) ''admission_version'',
     field_ge 1 (tcs_task_version s) ''task_version'',
     field_length 1 255 (tcs_lease_owner s) ''lease_owner'',
     field_ge 1 (tcs_lease_generation s) ''lease_generation'',
     opt_raise (tcs_result_digest s) (\<lambda>d. field_digest d ''result_digest''),
     when_raise ((tcs_kind s = Source_active) \<noteq> (tcs_result_digest s = None))
       (ValueError ''stopped task source result binding differs''),
     when_raise (tcs_attempt_id s = 0 \<or> tcs_task_version s < tcs_admission_version s)
       (ValueError ''stopped task source identity differs''),
     when_raise ((tcs_kind s = Source_active \<and> tcs_previous_stop_receipt_id s = None \<and> tcs_task_version s \<noteq> tcs_admission_version s) \<or>
         (tcs_kind s \<noteq> Source_active \<and> tcs_task_version s \<le> tcs_admission_version s))
       (ValueError ''stopped task source version differs''),
     when_raise (tcs_previous_stop_receipt_id s = Some 0) (ValueError ''previous task stop identity differs'')]"

record attempt_task_control_proof = task_control_proof +
  tcp_source :: task_control_source

datatype idle_state = Idle_queued | Idle_blocked

record idle_task_control_proof = task_control_proof +
  tcp_idle_state :: idle_state
  tcp_source_attempt_id :: uuid
  tcp_history_digest :: string

definition idle_task_control_proof_validate :: "idle_task_control_proof \<Rightarrow> py_exn option" where
  "idle_task_control_proof_validate p = seq_raise [
     task_control_proof_validate p,
     when_raise (tcp_source_attempt_id p = 0) (ValueError ''idle task source identity is invalid''),
     field_digest (tcp_history_digest p) ''history_digest'']"

definition MAX_FEEDBACK_BYTES :: nat where "MAX_FEEDBACK_BYTES = 4096"

definition validate_feedback_text :: "bool \<Rightarrow> string \<Rightarrow> py_exn option" where
  "validate_feedback_text sq v = seq_raise [
     when_raise (blank v \<or> CHR 0x00 \<in> set v) (ValueError ''task feedback must be nonblank text''),
     when_raise (MAX_FEEDBACK_BYTES < utf8_length v) (ValueError ''task feedback exceeds its byte bound''),
     when_raise (contains_credential sq v) (ValueError ''task feedback contains a raw credential'')]"

record feedback_request =
  fr_expected_run_version :: int
  fr_expected_task_version :: int
  fr_feedback :: string

text \<open>The worker and the primary request have the same fields and the same checks.\<close>

definition feedback_request_validate :: "bool \<Rightarrow> feedback_request \<Rightarrow> py_exn option" where
  "feedback_request_validate sq q = seq_raise [
     field_ge 0 (fr_expected_run_version q) ''expected_run_version'',
     field_ge 0 (fr_expected_task_version q) ''expected_task_version'',
     field_length 1 MAX_FEEDBACK_BYTES (fr_feedback q) ''feedback'',
     validate_feedback_text sq (fr_feedback q)]"

record feedback_receipt =
  fb_receipt_id :: uuid
  fb_operator_id :: uuid
  fb_run_id :: uuid
  fb_primary_task_id :: uuid
  fb_task_id :: uuid
  fb_run_version :: int
  fb_task_version :: int
  fb_feedback_digest :: string
  fb_binding_digest :: string
  fb_feedback_bytes :: int
  fb_observed_at :: datetime

definition feedback_receipt_fields :: "feedback_receipt \<Rightarrow> py_exn option" where
  "feedback_receipt_fields r = seq_raise [
     field_digest (fb_feedback_digest r) ''feedback_digest'',
     field_digest (fb_binding_digest r) ''binding_digest'',
     when_raise (fb_feedback_bytes r < 1 \<or> int MAX_FEEDBACK_BYTES < fb_feedback_bytes r) (ValueError ''feedback_bytes'')]"

datatype task_feedback_status = Feedback_pending_primary | Feedback_forwarded | Feedback_delivered | Feedback_closed

datatype primary_feedback_status = Primary_pending | Primary_delivered | Primary_closed

definition task_feedback_receipt_validate :: "feedback_receipt \<Rightarrow> task_feedback_status \<Rightarrow> int \<Rightarrow> py_exn option" where
  "task_feedback_receipt_validate r status primary_task_version = seq_raise [
     field_ge 0 (fb_run_version r) ''run_version'',
     field_ge 0 (fb_task_version r) ''task_version'',
     field_ge 0 primary_task_version ''primary_task_version'',
     feedback_receipt_fields r,
     when_raise (0 \<in> {fb_receipt_id r, fb_operator_id r, fb_run_id r, fb_primary_task_id r, fb_task_id r})
       (ValueError ''task feedback receipt identity is invalid''),
     when_raise (fb_primary_task_id r = fb_task_id r) (ValueError ''task feedback target must be a worker''),
     when_raise (\<not> is_aware (fb_observed_at r)) (ValueError ''task feedback clock must be timezone-aware'')]"

definition primary_feedback_receipt_validate :: "feedback_receipt \<Rightarrow> primary_feedback_status \<Rightarrow> py_exn option" where
  "primary_feedback_receipt_validate r status = seq_raise [
     field_ge 0 (fb_run_version r) ''run_version'',
     field_ge 0 (fb_task_version r) ''task_version'',
     feedback_receipt_fields r,
     when_raise (0 \<in> {fb_receipt_id r, fb_operator_id r, fb_run_id r, fb_primary_task_id r})
       (ValueError ''primary feedback receipt identity is invalid''),
     when_raise (fb_primary_task_id r \<noteq> fb_task_id r) (ValueError ''primary feedback target must be the root primary''),
     when_raise (\<not> is_aware (fb_observed_at r)) (ValueError ''primary feedback clock must be timezone-aware'')]"

section \<open>Launches\<close>

datatype launch_outcome =
  Launch_exited | Launch_completed | Launch_timeout | Launch_cancelled | Launch_protocol_error | Launch_stop_uncertain

record launch_terminal_proof =
  lp_launch_id :: string
  lp_pid :: int
  lp_process_identity :: string
  lp_outcome :: launch_outcome
  lp_return_code :: "int option"
  lp_stop_confirmed :: bool
  lp_stdout_bytes :: int
  lp_stderr_bytes :: int
  lp_stdout_truncated :: bool
  lp_stderr_truncated :: bool

definition launch_terminal_proof_validate :: "launch_terminal_proof \<Rightarrow> py_exn option" where
  "launch_terminal_proof_validate p = seq_raise [
     field_length 1 255 (lp_launch_id p) ''launch_id'',
     field_ge 1 (lp_pid p) ''pid'',
     field_length 1 255 (lp_process_identity p) ''process_identity'',
     field_ge 0 (lp_stdout_bytes p) ''stdout_bytes'',
     field_ge 0 (lp_stderr_bytes p) ''stderr_bytes'',
     when_raise (lp_stop_confirmed p \<and> (lp_return_code p = None \<or> lp_outcome p = Launch_stop_uncertain))
       (ValueError ''confirmed stop requires a terminal process result'')]"

definition permits_decision :: "launch_terminal_proof \<Rightarrow> bool" where
  "permits_decision p = (lp_stop_confirmed p \<and> lp_outcome p \<in> {Launch_exited, Launch_completed} \<and> \<not> lp_stdout_truncated p)"

section \<open>Properties\<close>

text \<open>No broker binding gives a role a tool beyond its purpose: a constructed binding of a read-only role
  holds reading tools only, commits are bound to the primary and to integration alone, and every tool
  bound is one the tool check lets that role use.\<close>

theorem broker_tools_confined:
  assumes "broker_binding_validate b = None" and "tool \<in> set (bb_permitted_tools b)"
  shows "validate_tool_permission (bb_role b) tool = None \<and>
     (is_read_only (bb_role b) \<longrightarrow> tool \<in> set CANDIDATE_READ_TOOLS) \<and>
     (tool = GIT_COMMIT \<longrightarrow> bb_role b \<in> {PRIMARY, INTEGRATION}) \<and>
     (tool \<in> set MUTATION_TOOLS \<longrightarrow> \<not> is_read_only (bb_role b))"
proof -
  have t: "tool \<in> set (SPECIALIST_ALLOWED_TOOLS (bb_role b))" using assms by (auto simp: broker_binding_validate_def)
  then show ?thesis
    by (cases "bb_role b") (auto simp: validate_tool_permission_def is_read_only_def CANDIDATE_READ_TOOLS_def READ_TOOLS_def MUTATION_TOOLS_def)
qed

definition sample_broker :: broker_binding where
  "sample_broker = \<lparr> bb_run_id = 1, bb_task_id = 2, bb_attempt_id = 3, bb_worktree_id = ''w1'', bb_role = SECURITY,
     bb_policy_version = 1, bb_permitted_tools = [GIT_DIFF], bb_broker_token = ''t'' \<rparr>"

theorem broker_tools_confined_witness:
  "broker_binding_validate sample_broker = None \<and> GIT_DIFF \<in> set CANDIDATE_READ_TOOLS"
proof -
  have "worktree_name_fullmatch ''w1''" "\<not> blank ''t''" by code_simp+
  then have "broker_binding_validate sample_broker = None"
    by (simp add: broker_binding_validate_def sample_broker_def validate_non_nil_uuid_def validate_text_None READ_TOOLS_def)
  moreover have "GIT_DIFF \<in> set (bb_permitted_tools sample_broker)" "is_read_only (bb_role sample_broker)" by code_simp+
  ultimately show ?thesis using broker_tools_confined [of sample_broker GIT_DIFF] by blast
qed

text \<open>An approved implementation contract is never taken for a planning contract: whatever the original
  task, no criterion of the contract built from an approved plan is the one by which the dispatcher
  recognises a primary task that has not left planning.\<close>

theorem implementation_contract_left_planning:
  assumes "approved_implementation_contract nt sq original p attempt digest approval = Inr c"
  shows "\<not> is_approved_plan_primary_contract c \<and> lt_purpose c = lt_purpose original \<and> lt_task_id c = lt_task_id original"
proof -
  obtain c0 where "logical_task_make nt sq c0 = Inr c" and c0: "lt_typed_acceptance c0 = approved_criteria (plan_checks p)"
      "lt_purpose c0 = lt_purpose original" "lt_task_id c0 = lt_task_id original"
    using assms by (auto simp: approved_implementation_contract_def Let_def split: option.splits)
  then have "c = c0" using logical_task_valid by blast
  moreover have "acr_criterion_id item \<noteq> ''approved-plan''" if "item \<in> set (approved_criteria (plan_checks p))" for item
    using that by (auto simp: approved_criteria_def approved_criterion_def split: if_splits)
  ultimately show ?thesis using c0 by (auto simp: is_approved_plan_primary_contract_def)
qed

theorem implementation_contract_left_planning_witness:
  "\<exists>c. approved_implementation_contract False True (sample_task 1 PRIMARY None [] []) (Scoped_plan sample_plan_output) 0 [] 0 = Inr c \<and>
     \<not> is_approved_plan_primary_contract c"
proof -
  from approved_plan_contract [OF sample_plan_premises] obtain c where
    c: "approved_implementation_contract False True (sample_task 1 PRIMARY None [] []) (Scoped_plan sample_plan_output) 0 [] 0 = Inr c" by blast
  with implementation_contract_left_planning [OF c] show ?thesis by blast
qed

end
