(* ===== verification/Forge_Schedule.thy ===== *)
theory Forge_Schedule
  imports Forge_Decision Forge_Delegation Forge_Run_Store Forge_Lease "HOL-Library.Option_ord"
begin

text \<open>
  The scheduler of subscription tasks: \<^verbatim>\<open>persistence/repositories/scheduling.py\<close> with its tables in
  \<^verbatim>\<open>persistence/models/scheduling.py\<close> and the choice of a route by
  \<^verbatim>\<open>persistence/repositories/subscription_quota.py\<close>. Workers claim queued tasks under leases, admit
  effects of a leased task on its worktree, and finish, defer or yield it; a candidate of a run is
  frozen by a barrier that drains the run first.

  The database is one record of tables and every repository call one atomic step on it, as in the
  command queue: a raise rolls back, so an error value carries no database. A payload column that
  holds an encoded subscription record is modelled by the record it decodes to, \<open>None\<close> when it decodes
  to none of the expected class. What a call reads from outside these tables is in the record
  \<open>sched_world\<close>: the clocks, the runs and rows that others hold locked, the quota state, the answers of
  the budget repositories and the physical proof that a paused client has stopped.
\<close>

section \<open>Tables\<close>

record sched_task =
  sk_id :: uuid
  sk_run_id :: uuid
  sk_task_id :: uuid
  sk_parent_task_id :: "uuid option"
  sk_worktree_id :: string
  sk_provider :: string
  sk_owned_paths :: "string list"
  sk_dependency_task_ids :: "uuid list"
  sk_read_only :: bool
  sk_max_repairs :: int
  sk_repairs :: int
  sk_state :: string
  sk_lease_owner :: "string option"
  sk_lease_generation :: int
  sk_lease_expires_at :: "int option"
  sk_pause_requested :: bool
  sk_cancel_requested :: bool
  sk_created_at :: int

record sched_run =
  sn_run_id :: uuid
  sn_admitted :: bool
  sn_candidate_epoch :: int
  sn_candidate_state :: string
  sn_capacity_policy_version :: int
  sn_effective_run_limit :: int
  sn_last_claimed_at :: "int option"

record sched_effect =
  sf_id :: uuid
  sf_run_id :: uuid
  sf_task_id :: uuid
  sf_lease_owner :: string
  sf_lease_generation :: int
  sf_candidate_epoch :: int
  sf_whole_worktree_exclusive :: bool
  sf_state :: string

record logical_row =
  lg_id :: uuid
  lg_run_id :: uuid
  lg_task_id :: uuid
  lg_parent_task_id :: "uuid option"
  lg_state :: string
  lg_pause_requested :: bool
  lg_cancel_requested :: bool
  lg_version :: int
  lg_contract :: "logical_task_contract option"

record attempt_row =
  sa_id :: uuid
  sa_run_id :: uuid
  sa_task_row_id :: uuid
  sa_attempt_number :: int
  sa_status :: string
  sa_lease_owner :: "string option"
  sa_lease_generation :: "int option"

record binding_row =
  sb_attempt_id :: uuid
  sb_provider_call_key :: string
  sb_durable_operation_id :: uuid
  sb_binding :: "tool_call_binding option"

record result_row =
  sr_attempt_id :: uuid
  sr_result_digest :: string
  sr_result_payload :: "(string, pyval) dict"
  sr_disposition :: string
  sr_accepted :: bool
  sr_application_digest :: "string option"
  sr_application_payload :: "(string, pyval) dict option"

record decision_row =
  dr_run_id :: uuid
  dr_task_row_id :: "uuid option"
  dr_attempt_id :: "uuid option"
  dr_record_type :: string
  dr_idempotency_key :: string
  dr_payload :: pyval
  dr_decision :: "decision option"

record feedback_row =
  fr_run_id :: uuid
  fr_primary_task_id :: uuid
  fr_task_id :: uuid
  fr_state :: string

text \<open>A run appears with its state and pending gate, a checkpoint with the kind and identifier of its subject
  and its state, a fence with its worktree and expiry; consumed are the attempts whose usage is
  recorded, enveloped the runs with an envelope.\<close>

record sched_db =
  sd_runs :: "uuid \<Rightarrow> (string \<times> string option) option"
  sd_tasks :: "sched_task list"
  sd_sched_runs :: "sched_run list"
  sd_effects :: "sched_effect list"
  sd_policies :: "scheduler_capacity_policy list"
  sd_cursor :: "uuid option"
  sd_logical :: "logical_row list"
  sd_attempts :: "attempt_row list"
  sd_consumed :: "uuid list"
  sd_bindings :: "binding_row list"
  sd_results :: "result_row list"
  sd_decisions :: "decision_row list"
  sd_feedback :: "feedback_row list"
  sd_fences :: "(string \<times> int) list"
  sd_checkpoints :: "(string \<times> uuid \<times> string) list"
  sd_envelopes :: "uuid \<Rightarrow> execution_envelope option"

record sched_world =
  sw_nt :: bool
  sw_sq :: bool
  sw_frepr :: "rat \<Rightarrow> string"
  sw_now :: int
  sw_later :: int
  sw_db_now :: int
  sw_locked_runs :: "uuid list"
  sw_locked_tasks :: "uuid list"
  sw_quota_eligible :: "route_spec \<Rightarrow> bool"
  sw_fit_reservation :: "uuid \<Rightarrow> uuid \<Rightarrow> task_budget \<Rightarrow> task_budget option"
  sw_epic_blockers :: "uuid \<Rightarrow> task_budget \<Rightarrow> string list"
  sw_epic_permit :: "uuid \<Rightarrow> bool"
  sw_stop_proved :: "sched_task \<Rightarrow> bool"

datatype sched_error =
    SchedulingConflict string
  | SchedulingLeaseRevoked string
  | UsageCheckpointLeaseRevoked string
  | SchedulingLeaseLost string
  | RecoveryConflict string
  | Sched_invalid py_exn

abbreviation conflict :: "string \<Rightarrow> sched_error + 'a" where
  "conflict m \<equiv> Inl (SchedulingConflict m)"

text \<open>Tables are read by primary key.\<close>

definition sched_task_at :: "sched_db \<Rightarrow> uuid \<Rightarrow> sched_task option" where
  "sched_task_at db i = row_at sk_id i (sd_tasks db)"

definition sched_run_at :: "sched_db \<Rightarrow> uuid \<Rightarrow> sched_run option" where
  "sched_run_at db i = row_at sn_run_id i (sd_sched_runs db)"

definition effect_at :: "sched_db \<Rightarrow> uuid \<Rightarrow> sched_effect option" where
  "effect_at db i = row_at sf_id i (sd_effects db)"

definition logical_at :: "sched_db \<Rightarrow> uuid \<Rightarrow> logical_row option" where
  "logical_at db i = row_at lg_id i (sd_logical db)"

definition put_task :: "sched_task \<Rightarrow> sched_db \<Rightarrow> sched_db" where
  "put_task r db = db\<lparr> sd_tasks := put_row sk_id r (sd_tasks db) \<rparr>"

definition put_sched_run :: "sched_run \<Rightarrow> sched_db \<Rightarrow> sched_db" where
  "put_sched_run r db = db\<lparr> sd_sched_runs := put_row sn_run_id r (sd_sched_runs db) \<rparr>"

definition put_effect :: "sched_effect \<Rightarrow> sched_db \<Rightarrow> sched_db" where
  "put_effect r db = db\<lparr> sd_effects := put_row sf_id r (sd_effects db) \<rparr>"

definition put_logical :: "logical_row \<Rightarrow> sched_db \<Rightarrow> sched_db" where
  "put_logical r db = db\<lparr> sd_logical := put_row lg_id r (sd_logical db) \<rparr>"

text \<open>The rows a task still occupies, and the effects that are not settled.\<close>

definition task_active :: "sched_task \<Rightarrow> bool" where
  "task_active r = (sk_state r \<in> {''leased'', ''reconciling''})"

definition effect_unsettled :: "sched_effect \<Rightarrow> bool" where
  "effect_unsettled e = (sf_state e \<in> {''admitted'', ''reconciling''})"

text \<open>Equality of Python values loaded from JSON: the order of keys does not count, \<^verbatim>\<open>True\<close> is 1.\<close>

fun py_norm :: "pyval \<Rightarrow> pyval" where
  "py_norm (PDict kvs) = PDict (sort_key fst (map (\<lambda>(k, v). (k, py_norm v)) kvs))"
| "py_norm (PList xs) = PList (map py_norm xs)"
| "py_norm (PTuple xs) = PTuple (map py_norm xs)"
| "py_norm (PFloat (Finite q)) = (if of_int \<lfloor>q\<rfloor> = q then PInt \<lfloor>q\<rfloor> else PFloat (Finite q))"
| "py_norm (PBool b) = PInt (if b then 1 else 0)"
| "py_norm v = v"

definition py_eq :: "pyval \<Rightarrow> pyval \<Rightarrow> bool" where
  "py_eq a b = (py_norm a = py_norm b)"

section \<open>Fences\<close>

definition lock_run :: "sched_db \<Rightarrow> uuid \<Rightarrow> sched_error option" where
  "lock_run db run_id = when_raise (sd_runs db run_id = None) (SchedulingConflict ''scheduled run not found'')"

definition usage_checkpoint_active :: "sched_db \<Rightarrow> uuid \<Rightarrow> bool" where
  "usage_checkpoint_active db run_id = (\<exists>(kind, subject, state) \<in> set (sd_checkpoints db).
     kind = ''run'' \<and> subject = run_id \<and> state \<in> {''checkpoint_requested'', ''pausing'', ''paused''})"

text \<open>The lease a caller presents. The source marks an expired row \<^verbatim>\<open>reconciling\<close> before it raises, which the
  rollback undoes.\<close>

definition leased_task :: "sched_world \<Rightarrow> sched_db \<Rightarrow> task_lease \<Rightarrow> sched_error + sched_task" where
  "leased_task w db lease = (case find (\<lambda>r. sk_run_id r = tl_run_id lease \<and> sk_task_id r = tl_task_id lease) (sd_tasks db) of
     None \<Rightarrow> Inl (SchedulingLeaseLost ''stale task lease'')
   | Some r \<Rightarrow>
       if sk_state r \<noteq> ''leased'' \<or> sk_lease_owner r \<noteq> Some (tl_owner lease) \<or> sk_lease_generation r \<noteq> tl_generation lease
       then Inl (SchedulingLeaseLost ''stale task lease'')
       else case sk_lease_expires_at r of
         None \<Rightarrow> Inl (SchedulingLeaseLost ''stale task lease'')
       | Some e \<Rightarrow> if e \<le> sw_now w then Inl (SchedulingLeaseLost ''task lease expired and requires reconciliation'') else Inr r)"

definition fenced_effect :: "sched_db \<Rightarrow> task_effect_lease \<Rightarrow> bool \<Rightarrow> sched_error + sched_effect" where
  "fenced_effect db effect admitted_only = (let lease = te_task_lease effect in
     case effect_at db (te_effect_id effect) of
       None \<Rightarrow> conflict ''stale or settled effect lease''
     | Some r \<Rightarrow>
         if (sf_run_id r, sf_task_id r, sf_lease_owner r, sf_lease_generation r, sf_candidate_epoch r) \<noteq>
              (tl_run_id lease, tl_task_id lease, tl_owner lease, tl_generation lease, te_candidate_epoch effect) \<or>
            sf_state r \<notin> {''admitted'', ''reconciling'', ''settled'', ''rejected''} \<or> admitted_only \<and> sf_state r \<noteq> ''admitted''
         then conflict ''stale or settled effect lease'' else Inr r)"

definition path_keys :: "bool \<Rightarrow> logical_task_contract \<Rightarrow> string list" where
  "path_keys nt c = map (policy_path_key nt) (lt_owned_paths c)"

definition is_coordinator :: "bool \<Rightarrow> sched_db \<Rightarrow> sched_task \<Rightarrow> bool" where
  "is_coordinator nt db r = (case logical_at db (sk_task_id r) of
     None \<Rightarrow> False
   | Some l \<Rightarrow> lg_parent_task_id l = None \<and> sk_parent_task_id r = None \<and> (case lg_contract l of
       None \<Rightarrow> False
     | Some c \<Rightarrow> lt_purpose c = PRIMARY \<and> lt_parent_task_id c = None \<and> rb_is_primary (lt_route c) \<and>
         lt_run_id c = lg_run_id l \<and> lg_run_id l = sk_run_id r \<and> lt_task_id c = lg_id l \<and> lg_id l = lg_task_id l \<and>
         lg_task_id l = sk_task_id r \<and> path_keys nt c = sk_owned_paths r \<and> \<not> sk_read_only r))"

definition can_read_candidate :: "bool \<Rightarrow> sched_db \<Rightarrow> sched_task \<Rightarrow> bool" where
  "can_read_candidate nt db r = (is_coordinator nt db r \<or> (case logical_at db (sk_task_id r) of
     None \<Rightarrow> False
   | Some l \<Rightarrow> sk_read_only r \<and> (case lg_contract l of
       None \<Rightarrow> False
     | Some c \<Rightarrow> is_read_only (lt_purpose c) \<and> lt_run_id c = lg_run_id l \<and> lg_run_id l = sk_run_id r \<and>
         lt_task_id c = lg_id l \<and> lg_id l = lg_task_id l \<and> lg_task_id l = sk_task_id r \<and>
         lt_parent_task_id c = lg_parent_task_id l \<and> lg_parent_task_id l = sk_parent_task_id r \<and>
         path_keys nt c = sk_owned_paths r)))"

definition snapshot_arguments :: "sched_world \<Rightarrow> string result" where
  "snapshot_arguments w = canonical_digest (sw_sq w) (sw_frepr w) [(''scope'', PStr ''snapshot'')]"

definition read_binding :: "sched_db \<Rightarrow> uuid \<Rightarrow> sched_task \<Rightarrow> string \<Rightarrow> int \<Rightarrow> tool_call_binding option" where
  "read_binding db effect_id owner lease_owner generation =
     (case [(b, a) \<leftarrow> List.product (sd_bindings db) (sd_attempts db). sa_id a = sb_attempt_id b \<and> sb_durable_operation_id b = effect_id] of
        [(record, attempt)] \<Rightarrow> (case sb_binding record of
          None \<Rightarrow> None
        | Some binding \<Rightarrow>
            if tc_attempt_id binding = sb_attempt_id record \<and> sb_attempt_id record = sa_id attempt \<and>
               tc_durable_operation_id binding = effect_id \<and> tc_provider_call_key binding = sb_provider_call_key record \<and>
               (sa_run_id attempt, sa_task_row_id attempt, sa_lease_owner attempt, sa_lease_generation attempt) =
                 (sk_run_id owner, sk_task_id owner, Some lease_owner, Some generation) \<and>
               tc_tool_name binding \<in> set CANDIDATE_READ_TOOLS
            then Some binding else None)
      | _ \<Rightarrow> None)"

definition is_bound_read :: "sched_world \<Rightarrow> sched_db \<Rightarrow> uuid \<Rightarrow> sched_task \<Rightarrow> string \<Rightarrow> int \<Rightarrow> bool \<Rightarrow> bool" where
  "is_bound_read w db effect_id owner lease_owner generation snapshot_only =
     (case read_binding db effect_id owner lease_owner generation of
        None \<Rightarrow> False
      | Some binding \<Rightarrow> \<not> snapshot_only \<or>
          tc_tool_name binding = GIT_DIFF \<and> Inr (tc_arguments_digest binding) = snapshot_arguments w)"

definition paths_overlap :: "string \<Rightarrow> string \<Rightarrow> bool" where
  "paths_overlap left right = (left = right \<or> starts_with left (right @ ''/'') \<or> starts_with right (left @ ''/''))"

definition scopes_overlap :: "sched_task \<Rightarrow> sched_task \<Rightarrow> bool" where
  "scopes_overlap r x = (\<exists>p \<in> set (sk_owned_paths r). \<exists>q \<in> set (sk_owned_paths x). paths_overlap p q)"

definition has_worktree_conflict :: "bool \<Rightarrow> sched_db \<Rightarrow> sched_task \<Rightarrow> bool" where
  "has_worktree_conflict nt db candidate = (\<not> (sk_read_only candidate \<or> sk_owned_paths candidate = [] \<or> is_coordinator nt db candidate) \<and>
     (\<exists>x \<in> set (sd_tasks db). sk_worktree_id x = sk_worktree_id candidate \<and> task_active x \<and> \<not> sk_read_only x \<and>
        \<not> is_coordinator nt db x \<and> scopes_overlap candidate x))"

definition effect_owner :: "sched_db \<Rightarrow> sched_effect \<Rightarrow> sched_task option" where
  "effect_owner db e = find (\<lambda>r. sk_run_id r = sf_run_id e \<and> sk_task_id r = sf_task_id e) (sd_tasks db)"

definition has_effect_conflict :: "bool \<Rightarrow> sched_db \<Rightarrow> sched_task \<Rightarrow> bool \<Rightarrow> bool" where
  "has_effect_conflict nt db candidate snapshot_read =
     ((\<exists>x \<in> set (sd_tasks db). sk_worktree_id x = sk_worktree_id candidate \<and> sk_id x \<noteq> sk_id candidate \<and> task_active x \<and>
         \<not> sk_read_only x \<and> \<not> is_coordinator nt db x \<and> (\<not> snapshot_read \<or> sk_state x = ''reconciling'')) \<or>
      (\<exists>e \<in> set (sd_effects db). effect_unsettled e \<and>
         (if snapshot_read then (case effect_owner db e of
            Some x \<Rightarrow> sk_worktree_id x = sk_worktree_id candidate | None \<Rightarrow> sf_run_id e = sk_run_id candidate)
          else sf_run_id e = sk_run_id candidate \<and> sf_task_id e = sk_task_id candidate)))"

definition has_exclusive_effect_barrier :: "sched_world \<Rightarrow> sched_db \<Rightarrow> sched_task \<Rightarrow> bool" where
  "has_exclusive_effect_barrier w db candidate =
     ((\<exists>(worktree, expires) \<in> set (sd_fences db). worktree = sk_worktree_id candidate \<and> sw_db_now w < expires) \<or>
      (\<exists>e \<in> set (sd_effects db). effect_unsettled e \<and> (case effect_owner db e of
         None \<Rightarrow> False
       | Some x \<Rightarrow> sk_worktree_id x = sk_worktree_id candidate \<and> (sf_whole_worktree_exclusive e \<or>
           is_coordinator (sw_nt w) db x \<and> \<not> is_bound_read w db (sf_id e) x (sf_lease_owner e) (sf_lease_generation e) False))))"

section \<open>Capacity\<close>

definition default_policy :: scheduler_capacity_policy where
  "default_policy = \<lparr> cap_version = 1, cap_global_limit = 3, cap_run_limit = 3, cap_provider_limit = 3 \<rparr>"

definition current_policy :: "sched_db \<Rightarrow> scheduler_capacity_policy" where
  "current_policy db = (case sort_key (\<lambda>p. - cap_version p) (sd_policies db) of [] \<Rightarrow> default_policy | p # _ \<Rightarrow> p)"

definition configure_capacity :: "sched_db \<Rightarrow> scheduler_capacity_policy \<Rightarrow> sched_error + sched_db" where
  "configure_capacity db policy = (case row_at cap_version (cap_version policy) (sd_policies db) of
     Some existing \<Rightarrow>
       if (cap_global_limit existing, cap_run_limit existing, cap_provider_limit existing) \<noteq>
          (cap_global_limit policy, cap_run_limit policy, cap_provider_limit policy)
       then conflict ''capacity policy version is immutable'' else Inr db
   | None \<Rightarrow> Inr (db\<lparr> sd_policies := sd_policies db @ [policy] \<rparr>))"

text \<open>The proof that the client of a paused task has stopped begins with the row's own columns; the rest of
  it is the argument \<open>sw_stop_proved\<close>.\<close>

definition paused_task_is_stopped :: "sched_world \<Rightarrow> sched_task \<Rightarrow> bool" where
  "paused_task_is_stopped w r = (sk_state r = ''reconciling'' \<and> sk_pause_requested r \<and> \<not> sk_cancel_requested r \<and> sw_stop_proved w r)"

definition active_count :: "sched_world \<Rightarrow> sched_db \<Rightarrow> (sched_task \<Rightarrow> bool) \<Rightarrow> int" where
  "active_count w db selected = (let rows = filter (\<lambda>r. task_active r \<and> selected r) (sd_tasks db) in
     int (length rows) - int (length (filter (paused_task_is_stopped w) rows)))"

definition admit_run :: "sched_db \<Rightarrow> uuid \<Rightarrow> sched_db" where
  "admit_run db run_id = (if sd_envelopes db run_id = None then db
     else let policy = current_policy db in case sched_run_at db run_id of
       Some r \<Rightarrow> put_sched_run (r\<lparr> sn_admitted := True \<rparr>) db
     | None \<Rightarrow> db\<lparr> sd_sched_runs := sd_sched_runs db @ [\<lparr> sn_run_id = run_id, sn_admitted = True, sn_candidate_epoch = 0,
         sn_candidate_state = ''open'', sn_capacity_policy_version = cap_version policy, sn_effective_run_limit = cap_run_limit policy,
         sn_last_claimed_at = None \<rparr>] \<rparr>)"

section \<open>Enqueueing\<close>

definition row_matches :: "sched_task \<Rightarrow> schedule_task \<Rightarrow> string \<Rightarrow> bool" where
  "row_matches r t provider = (sk_task_id r = st_task_id t \<and> sk_parent_task_id r = st_parent_task_id t \<and>
     sk_dependency_task_ids r = st_dependency_task_ids t \<and> sk_worktree_id r = st_worktree_id t \<and> sk_owned_paths r = st_owned_paths t \<and>
     sk_read_only r = st_read_only t \<and> sk_max_repairs r = st_max_repairs t \<and> sk_provider r = provider)"

definition authority_differs :: "sched_world \<Rightarrow> schedule_task \<Rightarrow> logical_task_contract \<Rightarrow> bool" where
  "authority_differs w t c = (st_parent_task_id t \<noteq> lt_parent_task_id c \<or> st_dependency_task_ids t \<noteq> lt_dependency_task_ids c \<or>
     st_owned_paths t \<noteq> path_keys (sw_nt w) c \<or> st_max_repairs t \<noteq> lt_max_repairs c \<or> st_read_only t \<noteq> is_read_only (lt_purpose c))"

definition queued_task :: "sched_world \<Rightarrow> schedule_task \<Rightarrow> string \<Rightarrow> sched_task" where
  "queued_task w t provider = \<lparr> sk_id = st_task_id t, sk_run_id = st_run_id t, sk_task_id = st_task_id t,
     sk_parent_task_id = st_parent_task_id t, sk_worktree_id = st_worktree_id t, sk_provider = provider, sk_owned_paths = st_owned_paths t,
     sk_dependency_task_ids = st_dependency_task_ids t, sk_read_only = st_read_only t, sk_max_repairs = st_max_repairs t, sk_repairs = 0,
     sk_state = ''queued'', sk_lease_owner = None, sk_lease_generation = 0, sk_lease_expires_at = None, sk_pause_requested = False,
     sk_cancel_requested = False, sk_created_at = sw_db_now w \<rparr>"

definition schedule_enqueue :: "sched_world \<Rightarrow> sched_db \<Rightarrow> schedule_task \<Rightarrow> sched_error + sched_db" where
  "schedule_enqueue w db t = (case lock_run db (st_run_id t) of
     Some e \<Rightarrow> Inl e
   | None \<Rightarrow> (case logical_at db (st_task_id t) of
       None \<Rightarrow> conflict ''scheduled task requires persisted logical contract''
     | Some l \<Rightarrow> if lg_run_id l \<noteq> st_run_id t then conflict ''scheduled task requires persisted logical contract''
         else case lg_contract l of
           None \<Rightarrow> conflict ''scheduled task authority differs from logical contract''
         | Some c \<Rightarrow>
             if authority_differs w t c then conflict ''scheduled task authority differs from logical contract''
             else if (case sched_run_at db (st_run_id t) of None \<Rightarrow> False | Some run \<Rightarrow> sn_candidate_state run \<noteq> ''open'' \<and>
                 \<not> (sn_candidate_state run = ''closed'' \<and> st_read_only t))
             then conflict ''candidate barrier denies new task admission''
             else let provider = route_provider (rb_effective (lt_route c)) in
               (case sched_task_at db (st_task_id t) of
                 Some r \<Rightarrow>
                   if sk_run_id r \<noteq> st_run_id t then conflict ''task identity belongs to another run''
                   else if \<not> row_matches r t provider then conflict ''scheduled task contract is immutable'' else Inr db
               | None \<Rightarrow> Inr (db\<lparr> sd_tasks := sd_tasks db @ [queued_task w t provider] \<rparr>))))"

section \<open>Choosing a route\<close>

definition fallback_binding :: "execution_envelope \<Rightarrow> logical_task_contract \<Rightarrow> bool \<Rightarrow> route_spec \<Rightarrow> route_binding result" where
  "fallback_binding e c current_available route =
     (let mapping = \<lparr> rm_requested = rb_requested (lt_route c), rm_effective = route, rm_approved_by = ''profile:'' @ uuid_str (ee_profile_id e),
        rm_approval_id = ''profile:'' @ uuid_str (ee_profile_id e) @ '':version:'' @ int_str (ee_profile_version e),
        rm_reason = (if current_available then ''Confirmed quota exhaustion; frozen specialist fallback''
          else ''Runtime route unavailable; frozen specialist fallback'') \<rparr> in
      case route_mapping_validate mapping of
        Some x \<Rightarrow> Inl x
      | None \<Rightarrow> (let b = (lt_route c)\<lparr> rb_effective := route, rb_mapping_applied := Some mapping \<rparr> in raising (route_binding_validate b) b))"

definition route_for_task :: "sched_world \<Rightarrow> sched_db \<Rightarrow> route_spec list option \<Rightarrow> logical_task_contract \<Rightarrow> route_binding option result" where
  "route_for_task w db eligible_routes c =
     (let permitted = (\<lambda>route. case eligible_routes of None \<Rightarrow> True | Some rs \<Rightarrow> route \<in> set rs);
          current = rb_effective (lt_route c); current_available = permitted current in
      if current_available \<and> sw_quota_eligible w current then Inr (Some (lt_route c))
      else if lt_purpose c = PRIMARY \<or> rb_is_primary (lt_route c) then Inr None
      else case sd_envelopes db (lt_run_id c) of
        None \<Rightarrow> Inr None
      | Some e \<Rightarrow> (case find (\<lambda>x. permitted (ct_route x) \<and> sw_quota_eligible w (ct_route x)) (tl (task_candidate_routes c (Some e))) of
          None \<Rightarrow> Inr None
        | Some x \<Rightarrow> if ct_kind x = Cand_preferred then ebind (route_for e (lt_purpose c)) (\<lambda>b. Inr (Some b))
            else ebind (fallback_binding e c current_available (ct_route x)) (\<lambda>b. Inr (Some b))))"

section \<open>Priority of feedback\<close>

text \<open>The search pops the last pending task. \<open>by_task\<close> holds the scheduled tasks of the run.\<close>

definition fence_fresh :: "sched_task list \<Rightarrow> uuid list \<Rightarrow> uuid list \<Rightarrow> uuid list" where
  "fence_fresh by_task protected deps = foldl (\<lambda>acc d. case row_at sk_task_id d by_task of
       None \<Rightarrow> acc
     | Some r \<Rightarrow> if sk_state r \<noteq> ''terminal'' \<and> d \<notin> set protected \<and> d \<notin> set acc then acc @ [d] else acc) [] deps"

lemma fence_fresh_props: "set (fence_fresh by_task protected deps) \<subseteq> set deps \<inter> sk_task_id ` set by_task - set protected"
proof -
  have "set (foldl (\<lambda>acc d. case row_at sk_task_id d by_task of None \<Rightarrow> acc
      | Some r \<Rightarrow> if sk_state r \<noteq> ''terminal'' \<and> d \<notin> set protected \<and> d \<notin> set acc then acc @ [d] else acc) acc deps)
      \<subseteq> set acc \<union> (set deps \<inter> sk_task_id ` set by_task - set protected)" for acc
    by (induction deps arbitrary: acc) (auto split: option.splits if_splits dest!: row_at_Some, fastforce+)
  from this [of "[]"] show ?thesis by (simp add: fence_fresh_def)
qed

function feedback_reach :: "sched_task list \<Rightarrow> uuid list \<Rightarrow> uuid list \<Rightarrow> uuid list" where
  "feedback_reach by_task protected pending = (if pending = [] then protected
     else case row_at sk_task_id (last pending) by_task of
       None \<Rightarrow> feedback_reach by_task protected (butlast pending)
     | Some r \<Rightarrow> let fresh = fence_fresh by_task protected (sk_dependency_task_ids r) in
         feedback_reach by_task (protected @ fresh) (butlast pending @ fresh))"
  by pat_completeness auto

termination feedback_reach
proof (relation "measures [\<lambda>(by_task, protected, pending). card (sk_task_id ` set by_task - set protected), \<lambda>(_, _, pending). length pending]")
  fix by_task protected fresh and pending :: "uuid list" and r
  assume p: "pending \<noteq> []" and f: "fresh = fence_fresh by_task protected (sk_dependency_task_ids r)"
  let ?ids = "sk_task_id ` set by_task"
  show "((by_task, protected @ fresh, butlast pending @ fresh), by_task, protected, pending)
      \<in> measures [\<lambda>(by_task, protected, pending). card (sk_task_id ` set by_task - set protected), \<lambda>(_, _, pending). length pending]"
  proof (cases "fresh = []")
    case False
    then have "hd fresh \<in> ?ids - set protected" "hd fresh \<in> set fresh" using fence_fresh_props f by (meson DiffD1 DiffD2 DiffI IntD2 hd_in_set subsetD)+
    then have "?ids - set (protected @ fresh) \<subset> ?ids - set protected" by auto
    then have "card (?ids - set (protected @ fresh)) < card (?ids - set protected)" by (intro psubset_card_mono) auto
    then show ?thesis by simp
  qed (use p in simp)
qed auto

declare feedback_reach.simps [simp del]

definition feedback_priority_fence :: "sched_db \<Rightarrow> uuid \<Rightarrow> uuid list" where
  "feedback_priority_fence db run_id =
     (let rows = filter (\<lambda>f. fr_run_id f = run_id) (sd_feedback db);
          pending_primary = remdups (map fr_primary_task_id (filter (\<lambda>f. fr_state f = ''pending_primary'') rows));
          forwarded = (if pending_primary = [] then remdups (map fr_task_id (filter (\<lambda>f. fr_state f = ''forwarded'') rows)) else []);
          protected = pending_primary @ forwarded in
      if protected = [] then []
      else feedback_reach (filter (\<lambda>r. sk_run_id r = run_id) (sd_tasks db)) protected protected)"

section \<open>Claiming\<close>

record claim_args =
  cl_owner :: string
  cl_lease_for :: int
  cl_fresh_attempt :: bool
  cl_eligible_routes :: "route_spec list option"
  cl_reservation_ceiling :: "task_budget option"
  cl_prepared_run_ids :: "uuid list option"

definition prepared :: "claim_args \<Rightarrow> sched_task \<Rightarrow> bool" where
  "prepared a r = (case cl_prepared_run_ids a of None \<Rightarrow> True | Some ids \<Rightarrow> sk_run_id r \<in> set ids)"

definition lease_expired :: "int \<Rightarrow> sched_task \<Rightarrow> bool" where
  "lease_expired now r = (sk_state r = ''leased'' \<and> (case sk_lease_expires_at r of None \<Rightarrow> False | Some e \<Rightarrow> e < now))"

definition mark_expired :: "sched_world \<Rightarrow> claim_args \<Rightarrow> sched_db \<Rightarrow> sched_db" where
  "mark_expired w a db =
     (let runs = remdups (map sk_run_id (filter (\<lambda>r. lease_expired (sw_now w) r \<and> prepared a r) (sd_tasks db)));
          free = filter (\<lambda>i. sd_runs db i \<noteq> None \<and> i \<notin> set (sw_locked_runs w)) runs in
      db\<lparr> sd_tasks := map (\<lambda>r. if sk_run_id r \<in> set free \<and> lease_expired (sw_now w) r then r\<lparr> sk_state := ''reconciling'' \<rparr> else r) (sd_tasks db) \<rparr>)"

definition claimable :: "sched_task \<Rightarrow> bool" where
  "claimable r = (sk_state r = ''queued'' \<and> \<not> sk_pause_requested r \<and> \<not> sk_cancel_requested r)"

definition claim_candidates :: "claim_args \<Rightarrow> sched_db \<Rightarrow> sched_task list" where
  "claim_candidates a db = sort_key (\<lambda>r. (case sched_run_at db (sk_run_id r) of None \<Rightarrow> None | Some run \<Rightarrow> sn_last_claimed_at run, sk_created_at r))
     (filter (\<lambda>r. claimable r \<and> prepared a r \<and> (case sched_run_at db (sk_run_id r) of None \<Rightarrow> False
        | Some run \<Rightarrow> sn_admitted run \<and> sn_candidate_state run \<in> {''open'', ''closed''})) (sd_tasks db))"

datatype admission = Adm_skip | Adm_block | Adm_task "route_binding option"

definition attempt_unsettled :: "sched_db \<Rightarrow> sched_task \<Rightarrow> bool" where
  "attempt_unsettled db r = (\<exists>x \<in> set (sd_attempts db). sa_task_row_id x = sk_task_id r \<and>
     (sa_status x \<noteq> ''terminal'' \<or> sa_lease_owner x = None \<or> sa_id x \<notin> set (sd_consumed db)))"

definition effect_pending :: "sched_db \<Rightarrow> sched_task \<Rightarrow> bool" where
  "effect_pending db r = (\<exists>e \<in> set (sd_effects db). sf_run_id e = sk_run_id r \<and> sf_task_id e = sk_task_id r \<and> effect_unsettled e)"

definition budget_admits :: "sched_world \<Rightarrow> claim_args \<Rightarrow> sched_task \<Rightarrow> bool" where
  "budget_admits w a r = (case cl_reservation_ceiling a of
     None \<Rightarrow> True
   | Some most \<Rightarrow> (case sw_fit_reservation w (sk_run_id r) (sk_task_id r) most of
       None \<Rightarrow> False
     | Some fitted \<Rightarrow> (let blockers = sw_epic_blockers w (sk_run_id r) fitted in
         \<not> (blockers \<noteq> [] \<and> (''execution_not_active'' \<in> set blockers \<or> \<not> sw_epic_permit w (sk_run_id r))))))"

text \<open>The source computes the feedback fence once per run of the loop; nothing in the loop changes it.\<close>

definition admit_attempt :: "sched_world \<Rightarrow> claim_args \<Rightarrow> sched_db \<Rightarrow> sched_task \<Rightarrow> sched_error + admission" where
  "admit_attempt w a db r = (case sd_runs db (sk_run_id r) of
     None \<Rightarrow> Inr Adm_skip
   | Some (state, gate) \<Rightarrow>
       if \<not> run_allows_subscription_attempt state gate then Inr Adm_skip
       else let fence = feedback_priority_fence db (sk_run_id r) in
         if fence \<noteq> [] \<and> sk_task_id r \<notin> set fence then Inr Adm_skip
         else case logical_at db (sk_task_id r) of
           None \<Rightarrow> Inr Adm_skip
         | Some l \<Rightarrow>
             if attempt_unsettled db r \<or> effect_pending db r \<or> lg_state l \<noteq> ''queued'' \<or> lg_pause_requested l \<or> lg_cancel_requested l
             then Inr Adm_skip
             else case lg_contract l of
               None \<Rightarrow> Inl (Sched_invalid (TypeError ''invalid quota task''))
             | Some c \<Rightarrow>
                 if is_approved_plan_primary_contract c \<and> state = ''IMPLEMENTING'' then Inr Adm_block
                 else (case route_for_task w db (cl_eligible_routes a) c of
                   Inl e \<Rightarrow> Inl (Sched_invalid e)
                 | Inr None \<Rightarrow> Inr Adm_skip
                 | Inr (Some route) \<Rightarrow> Inr (if budget_admits w a r then Adm_task (Some route) else Adm_skip)))"

definition latest_attempt :: "sched_db \<Rightarrow> uuid \<Rightarrow> attempt_row option" where
  "latest_attempt db task_id = (case sort_key (\<lambda>x. - sa_attempt_number x) (filter (\<lambda>x. sa_task_row_id x = task_id) (sd_attempts db)) of
     [] \<Rightarrow> None | x # _ \<Rightarrow> Some x)"

definition block_stale_queued_contract :: "sched_db \<Rightarrow> sched_task \<Rightarrow> sched_error + sched_db" where
  "block_stale_queued_contract db r = (case (latest_attempt db (sk_task_id r), logical_at db (sk_task_id r)) of
     (Some _, Some l) \<Rightarrow> Inr (if lg_state l \<noteq> ''blocked'' \<or> sk_state r \<noteq> ''blocked''
       then put_logical (l\<lparr> lg_state := ''blocked'', lg_version := lg_version l + 1 \<rparr>) (put_task (r\<lparr> sk_state := ''blocked'' \<rparr>) db) else db)
   | _ \<Rightarrow> Inl (RecoveryConflict ''approved planning source is unavailable''))"

definition within_capacity :: "sched_world \<Rightarrow> sched_db \<Rightarrow> int \<Rightarrow> sched_run \<Rightarrow> sched_task \<Rightarrow> route_binding option \<Rightarrow> bool" where
  "within_capacity w db global_active run r route =
     (let policy = current_policy db; provider = (case route of None \<Rightarrow> sk_provider r | Some b \<Rightarrow> route_provider (rb_effective b)) in
      global_active < cap_global_limit policy \<and>
      active_count w db (\<lambda>x. sk_run_id x = sk_run_id r) < sn_effective_run_limit run \<and>
      active_count w db (\<lambda>x. sk_provider x = provider) < cap_provider_limit policy)"

definition dependency_pending :: "sched_db \<Rightarrow> sched_task \<Rightarrow> bool" where
  "dependency_pending db r = (\<exists>x \<in> set (sd_tasks db). sk_run_id x = sk_run_id r \<and> sk_task_id x \<in> set (sk_dependency_task_ids r) \<and>
     sk_state x \<noteq> ''terminal'')"

definition claim_admits :: "sched_world \<Rightarrow> sched_db \<Rightarrow> int \<Rightarrow> sched_run \<Rightarrow> sched_task \<Rightarrow> route_binding option \<Rightarrow> bool" where
  "claim_admits w db global_active run r route = (within_capacity w db global_active run r route \<and>
     \<not> (\<not> sk_read_only r \<and> \<not> is_coordinator (sw_nt w) db r \<and> has_exclusive_effect_barrier w db r) \<and>
     \<not> dependency_pending db r \<and> \<not> has_worktree_conflict (sw_nt w) db r)"

definition claim_current :: "sched_world \<Rightarrow> sched_db \<Rightarrow> sched_task \<Rightarrow> (sched_run \<times> sched_task) option" where
  "claim_current w db candidate =
     (if sd_runs db (sk_run_id candidate) = None \<or> sk_run_id candidate \<in> set (sw_locked_runs w) \<or> usage_checkpoint_active db (sk_run_id candidate)
      then None
      else case (sched_run_at db (sk_run_id candidate), sched_task_at db (sk_id candidate)) of
        (Some run, Some r) \<Rightarrow>
          if claimable r \<and> sk_id r \<notin> set (sw_locked_tasks w) \<and> sn_admitted run \<and>
             (sn_candidate_state run = ''open'' \<or> sn_candidate_state run = ''closed'' \<and> can_read_candidate (sw_nt w) db r)
          then Some (run, r) else None
      | _ \<Rightarrow> None)"

fun claim_scan :: "sched_world \<Rightarrow> claim_args \<Rightarrow> int \<Rightarrow> sched_db \<Rightarrow> sched_task list \<Rightarrow>
    sched_error + ((sched_task \<times> route_binding option) option \<times> sched_db)" where
  "claim_scan w a global_active db [] = Inr (None, db)"
| "claim_scan w a global_active db (candidate # rest) = (case claim_current w db candidate of
     None \<Rightarrow> claim_scan w a global_active db rest
   | Some (run, r) \<Rightarrow> ebind (if cl_fresh_attempt a then admit_attempt w a db r else Inr (Adm_task None)) (\<lambda>admission. case admission of
       Adm_skip \<Rightarrow> claim_scan w a global_active db rest
     | Adm_block \<Rightarrow> ebind (block_stale_queued_contract db r) (\<lambda>db'. claim_scan w a global_active db' rest)
     | Adm_task route \<Rightarrow> if claim_admits w db global_active run r route then Inr (Some (r, route), db)
         else claim_scan w a global_active db rest))"

text \<open>Binding the chosen route rebuilds the contract, which validates it again.\<close>

definition bind_route :: "sched_world \<Rightarrow> sched_db \<Rightarrow> sched_task \<Rightarrow> route_binding option \<Rightarrow> sched_error + (sched_task \<times> sched_db)" where
  "bind_route w db r route = (case (route, logical_at db (sk_task_id r)) of
     (Some b, Some l) \<Rightarrow> (case lg_contract l of
         None \<Rightarrow> conflict ''invalid quota task contract''
       | Some c \<Rightarrow> if lt_route c = b then Inr (r, db)
           else (case logical_task_make (sw_nt w) (sw_sq w) (c\<lparr> lt_route := b \<rparr>) of
             Inl e \<Rightarrow> Inl (Sched_invalid e)
           | Inr c' \<Rightarrow> Inr (r\<lparr> sk_provider := route_provider (rb_effective b) \<rparr>,
               put_logical (l\<lparr> lg_contract := Some c', lg_version := lg_version l + 1 \<rparr>) db)))
   | _ \<Rightarrow> Inr (r, db))"

definition claimed_task :: "sched_world \<Rightarrow> claim_args \<Rightarrow> sched_task \<Rightarrow> sched_task" where
  "claimed_task w a r = r\<lparr> sk_state := ''leased'', sk_lease_owner := Some (cl_owner a), sk_lease_generation := sk_lease_generation r + 1,
     sk_lease_expires_at := Some (sw_now w + cl_lease_for a) \<rparr>"

definition deliver_claim :: "sched_world \<Rightarrow> claim_args \<Rightarrow> sched_db \<Rightarrow> sched_task \<Rightarrow> route_binding option \<Rightarrow> sched_error + (task_lease \<times> sched_db)" where
  "deliver_claim w a db r route = ebind (bind_route w db r route) (\<lambda>(r', db').
     let row = claimed_task w a r'; db1 = put_task row db';
         db2 = (case sched_run_at db1 (sk_run_id row) of None \<Rightarrow> db1 | Some run \<Rightarrow> put_sched_run (run\<lparr> sn_last_claimed_at := Some (sw_now w) \<rparr>) db1) in
     case task_lease_make \<lparr> tl_run_id = sk_run_id row, tl_task_id = sk_task_id row, tl_owner = cl_owner a,
         tl_generation = sk_lease_generation row, tl_expires_at = Aware (sw_now w + cl_lease_for a) \<rparr> of
       Inl e \<Rightarrow> Inl (Sched_invalid e)
     | Inr lease \<Rightarrow> Inr (lease, db2))"

definition claim_ready :: "sched_world \<Rightarrow> sched_db \<Rightarrow> claim_args \<Rightarrow> sched_error + (task_lease option \<times> sched_db)" where
  "claim_ready w db a =
     (if blank (cl_owner a) \<or> cl_lease_for a < 1000000 then Inl (Sched_invalid (ValueError ''valid owner and lease required''))
      else if cl_prepared_run_ids a = Some [] then Inr (None, db)
      else let db1 = mark_expired w a db in
        ebind (claim_scan w a (active_count w db1 (\<lambda>_. True)) db1 (claim_candidates a db1)) (\<lambda>(found, db2). case found of
          None \<Rightarrow> Inr (None, db2)
        | Some (r, route) \<Rightarrow> ebind (deliver_claim w a db2 r route) (\<lambda>(lease, db3). Inr (Some lease, db3))))"

text \<open>The bounded, rotating set of runs that a claim prepares.\<close>

definition eligible_runs :: "int \<Rightarrow> sched_db \<Rightarrow> uuid list" where
  "eligible_runs now db = sort (remdups (map sk_run_id (filter (\<lambda>r. sk_state r = ''queued'' \<or> lease_expired now r) (sd_tasks db))))"

definition prepare_epic_claim :: "sched_world \<Rightarrow> sched_db \<Rightarrow> uuid list \<times> sched_db" where
  "prepare_epic_claim w db =
     (let runs = eligible_runs (sw_now w) db;
          first = (case sd_cursor db of None \<Rightarrow> take 128 runs | Some i \<Rightarrow> take 128 (filter (\<lambda>x. i < x) runs));
          selected = (case sd_cursor db of
            Some i \<Rightarrow> if length first < 128 then first @ take (128 - length first) (filter (\<lambda>x. x \<le> i) runs) else first
          | None \<Rightarrow> first) in
      (selected, db\<lparr> sd_cursor := (if selected = [] then None else Some (last selected)) \<rparr>))"

section \<open>Waking parents\<close>

definition result_of :: "sched_db \<Rightarrow> uuid \<Rightarrow> result_row option" where
  "result_of db attempt_id = row_at sr_attempt_id attempt_id (sd_results db)"

definition digest_matches :: "sched_world \<Rightarrow> (string, pyval) dict \<Rightarrow> string \<Rightarrow> bool" where
  "digest_matches w payload digest = (canonical_digest (sw_sq w) (sw_frepr w) payload = Inr digest)"

definition scope_request_pending :: "sched_world \<Rightarrow> sched_db \<Rightarrow> sched_task \<Rightarrow> (uuid \<times> scope_request_decision) option" where
  "scope_request_pending w db child = (if sk_state child \<noteq> ''blocked'' then None
     else case latest_attempt (db\<lparr> sd_attempts := filter (\<lambda>x. sa_run_id x = sk_run_id child) (sd_attempts db) \<rparr>) (sk_task_id child) of
       None \<Rightarrow> None
     | Some attempt \<Rightarrow> if sa_status attempt \<noteq> ''terminal'' then None
         else (case (result_of db (sa_id attempt), find (\<lambda>d. dr_run_id d = sk_run_id child \<and> dr_task_row_id d = Some (sk_task_id child) \<and>
             dr_attempt_id d = Some (sa_id attempt) \<and> dr_idempotency_key d = ''scope-request:'' @ uuid_str (sa_id attempt)) (sd_decisions db)) of
           (Some result, Some record) \<Rightarrow>
             if \<not> sr_accepted result \<or> sr_disposition result \<noteq> ''scope_requested'' \<or> \<not> digest_matches w (sr_result_payload result) (sr_result_digest result) \<or>
                \<not> py_eq (dr_payload record) (json_at (sr_result_payload result) ''decision'')
             then None
             else (case dr_decision record of
               Some (Dec_scope_request d) \<Rightarrow>
                 if dr_record_type record = ''ScopeRequestDecision'' \<and> sq_run_id d = sk_run_id child \<and> sq_task_id d = sk_task_id child
                 then Some (sa_id attempt, d) else None
             | _ \<Rightarrow> None)
         | _ \<Rightarrow> None))"

definition has_scope_request :: "sched_world \<Rightarrow> sched_db \<Rightarrow> uuid \<Rightarrow> uuid list \<Rightarrow> bool" where
  "has_scope_request w db run_id task_ids = (\<exists>r \<in> set (sd_tasks db). sk_run_id r = run_id \<and> sk_task_id r \<in> set task_ids \<and>
     scope_request_pending w db r \<noteq> None)"

definition pending_scope_request :: "sched_world \<Rightarrow> sched_db \<Rightarrow> uuid \<Rightarrow> uuid \<Rightarrow> (uuid \<times> scope_request_decision) option" where
  "pending_scope_request w db run_id task_id = (case sched_task_at db task_id of
     None \<Rightarrow> None | Some child \<Rightarrow> if sk_run_id child \<noteq> run_id then None else scope_request_pending w db child)"

definition wake_prefixes :: "(string \<times> string) list" where
  "wake_prefixes = [(''waiting'', ''wait''), (''delegated'', ''delegation''), (''reassigned'', ''reassignment''), (''feedback_forwarded'', ''feedback-forward'')]"

definition receipt_matches :: "sched_world \<Rightarrow> result_row \<Rightarrow> (string \<times> pyval) list \<Rightarrow> bool" where
  "receipt_matches w result expected = (case sr_application_payload result of
     None \<Rightarrow> False
   | Some receipt \<Rightarrow> sr_application_digest result \<noteq> None \<and> digest_matches w receipt (the (sr_application_digest result)) \<and>
       (\<forall>(k, v) \<in> set expected. py_eq (json_at receipt k) v))"

text \<open>The tasks a parent waits for: \<open>None\<close> when its wake record is broken, \<open>Some None\<close> when the decision names
  none.\<close>

definition wake_target :: "sched_world \<Rightarrow> sched_task \<Rightarrow> result_row \<Rightarrow> decision_row option \<Rightarrow> uuid list option option" where
  "wake_target w parent result found = (case found of
     None \<Rightarrow> None
   | Some record \<Rightarrow>
       if \<not> digest_matches w (sr_result_payload result) (sr_result_digest result) \<or> \<not> py_eq (dr_payload record) (json_at (sr_result_payload result) ''decision'')
       then None
       else case dr_decision record of
         Some (Dec_bound_reassign d) \<Rightarrow>
           if sr_disposition result = ''reassigned'' \<and> rd_run_id d = sk_run_id parent \<and> dr_record_type record = ''BoundReassignDecision'' \<and>
              receipt_matches w result [(''kind'', PStr ''reassignment''), (''response_result_digest'', PStr (sr_result_digest result)),
                (''child_task_id'', PStr (uuid_str (rd_task_id d))), (''source_attempt_id'', PStr (uuid_str (rd_source_attempt_id d))),
                (''child_version'', PInt (rd_expected_task_version d))]
           then Some (Some [rd_task_id d]) else None
       | Some (Dec_forward_feedback d) \<Rightarrow>
           if sr_disposition result = ''feedback_forwarded'' \<and> ff_run_id d = sk_run_id parent \<and> dr_record_type record = ''ForwardFeedbackDecision'' \<and>
              receipt_matches w result [(''kind'', PStr ''feedback_forwarded''), (''result_digest'', PStr (sr_result_digest result)),
                (''target_task_id'', PStr (uuid_str (ff_task_id d))), (''feedback_receipt_id'', PStr (uuid_str (ff_feedback_receipt_id d))),
                (''feedback_digest'', PStr (ff_feedback_digest d))]
           then Some (Some [ff_task_id d]) else None
       | Some (Dec_wait d) \<Rightarrow>
           if sr_disposition result = ''waiting'' \<and> wd_task_id d = sk_task_id parent \<and> wd_run_id d = sk_run_id parent \<and>
              dr_record_type record = ''WaitDecision'' \<and> length (wd_waiting_on_task_ids d) \<le> 64
           then Some (Some (wd_waiting_on_task_ids d)) else None
       | Some (Dec_delegate d) \<Rightarrow>
           if sr_disposition result = ''delegated'' \<and> dd_parent_task_id d = sk_task_id parent \<and> dd_run_id d = sk_run_id parent \<and>
              dr_record_type record = ''DelegateDecision''
           then Some None else None
       | _ \<Rightarrow> None)"

definition children_of :: "sched_db \<Rightarrow> sched_task \<Rightarrow> sched_task list" where
  "children_of db parent = filter (\<lambda>r. sk_run_id r = sk_run_id parent \<and> sk_parent_task_id r = Some (sk_task_id parent)) (sd_tasks db)"

definition wakes_on :: "sched_db \<Rightarrow> sched_task \<Rightarrow> sched_task \<Rightarrow> bool \<Rightarrow> uuid list option \<Rightarrow> bool \<Rightarrow> bool" where
  "wakes_on db child parent scope_request selected delegated = (case selected of
     Some ids \<Rightarrow> (let rows = filter (\<lambda>r. sk_task_id r \<in> set ids) (children_of db parent) in
       length rows = length ids \<and> (if scope_request then sk_task_id child \<in> set ids else \<forall>r \<in> set rows. sk_state r = ''terminal''))
   | None \<Rightarrow> scope_request \<or> delegated \<or> (\<forall>r \<in> set (children_of db parent). sk_state r = ''terminal''))"

definition parent_wakes :: "sched_world \<Rightarrow> sched_db \<Rightarrow> sched_task \<Rightarrow> sched_task \<Rightarrow> bool \<Rightarrow> bool" where
  "parent_wakes w db child parent scope_request = (case latest_attempt db (sk_task_id parent) of
     None \<Rightarrow> wakes_on db child parent scope_request None False
   | Some latest \<Rightarrow> (case result_of db (sa_id latest) of
       None \<Rightarrow> wakes_on db child parent scope_request None False
     | Some result \<Rightarrow> (case map_of wake_prefixes (sr_disposition result) of
         None \<Rightarrow> False
       | Some prefix \<Rightarrow> sr_accepted result \<and> (case wake_target w parent result
           (find (\<lambda>d. dr_attempt_id d = Some (sa_id latest) \<and> dr_task_row_id d = Some (sk_task_id parent) \<and> dr_run_id d = sk_run_id parent \<and>
              dr_idempotency_key d = prefix @ '':'' @ uuid_str (sa_id latest)) (sd_decisions db)) of
             None \<Rightarrow> False
           | Some selected \<Rightarrow> wakes_on db child parent scope_request selected (sr_disposition result = ''delegated'')))))"

definition wake_parent :: "sched_task \<Rightarrow> sched_db \<Rightarrow> sched_db" where
  "wake_parent parent db = (let db1 = put_task (parent\<lparr> sk_state := ''queued'' \<rparr>) db in
     case logical_at db1 (sk_task_id parent) of
       None \<Rightarrow> db1
     | Some l \<Rightarrow> if lg_state l = ''blocked'' then put_logical (l\<lparr> lg_state := ''queued'', lg_version := lg_version l + 1 \<rparr>) db1 else db1)"

definition wake_ready_parents :: "sched_world \<Rightarrow> sched_db \<Rightarrow> sched_task \<Rightarrow> bool \<Rightarrow> sched_db" where
  "wake_ready_parents w db child scope_request = (case sk_parent_task_id child of
     None \<Rightarrow> db
   | Some p \<Rightarrow> foldl (\<lambda>db parent. if parent_wakes w db child parent scope_request then wake_parent parent db else db) db
       (filter (\<lambda>r. sk_run_id r = sk_run_id child \<and> sk_task_id r = p \<and> sk_state r = ''blocked'') (sd_tasks db)))"

definition wake_parent_for_scope_request :: "sched_world \<Rightarrow> sched_db \<Rightarrow> uuid \<Rightarrow> uuid \<Rightarrow> sched_error + sched_db" where
  "wake_parent_for_scope_request w db run_id task_id = (case lock_run db run_id of
     Some e \<Rightarrow> Inl e
   | None \<Rightarrow> (case pending_scope_request w db run_id task_id of
       None \<Rightarrow> conflict ''scope request wake source differs''
     | Some _ \<Rightarrow> (case sched_task_at db task_id of None \<Rightarrow> conflict ''scope request wake source differs''
         | Some child \<Rightarrow> Inr (wake_ready_parents w db child True))))"

section \<open>Holding and releasing a lease\<close>

definition release_task :: "sched_world \<Rightarrow> sched_db \<Rightarrow> sched_task \<Rightarrow> bool \<Rightarrow> sched_db" where
  "release_task w db r terminal =
     (let row = r\<lparr> sk_state := (if terminal then ''terminal'' else ''queued''), sk_lease_owner := None, sk_lease_expires_at := None \<rparr>;
          db1 = put_task row db in
      if terminal then wake_ready_parents w db1 row False else db1)"

definition schedule_renew :: "sched_world \<Rightarrow> sched_db \<Rightarrow> task_lease \<Rightarrow> int \<Rightarrow> sched_error + (task_lease \<times> sched_db)" where
  "schedule_renew w db lease lease_for =
     (if lease_for < 1000000 then Inl (Sched_invalid (ValueError ''valid renewal duration required''))
      else case sd_runs db (tl_run_id lease) of
        None \<Rightarrow> Inl (SchedulingLeaseLost ''scheduled run is absent'')
      | Some (state, gate) \<Rightarrow>
          if \<not> run_allows_subscription_attempt state gate then Inl (SchedulingLeaseRevoked ''task lease is fenced by run control'')
          else if usage_checkpoint_active db (tl_run_id lease) then Inl (UsageCheckpointLeaseRevoked ''task lease is fenced by usage checkpoint'')
          else ebind (leased_task w db lease) (\<lambda>r.
            if sk_pause_requested r \<or> sk_cancel_requested r \<or>
               (case logical_at db (tl_task_id lease) of None \<Rightarrow> False | Some l \<Rightarrow> lg_pause_requested l \<or> lg_cancel_requested l)
            then Inl (SchedulingLeaseRevoked ''task lease is revoked'')
            else let expiry = sw_later w + lease_for in
              Inr (lease\<lparr> tl_expires_at := Aware expiry \<rparr>, put_task (r\<lparr> sk_lease_expires_at := Some expiry \<rparr>) db)))"

definition finish :: "sched_world \<Rightarrow> sched_db \<Rightarrow> task_lease \<Rightarrow> bool \<Rightarrow> bool \<Rightarrow> sched_error + sched_db" where
  "finish w db lease successful allow_repair = (case lock_run db (tl_run_id lease) of
     Some e \<Rightarrow> Inl e
   | None \<Rightarrow> ebind (leased_task w db lease) (\<lambda>r.
       if sk_pause_requested r \<or> sk_cancel_requested r \<or> successful \<or> \<not> allow_repair \<or> sk_max_repairs r \<le> sk_repairs r
       then Inr (release_task w db r True)
       else Inr (release_task w db (r\<lparr> sk_repairs := sk_repairs r + 1 \<rparr>) False)))"

definition defer_quota :: "sched_world \<Rightarrow> sched_db \<Rightarrow> task_lease \<Rightarrow> sched_error + sched_db" where
  "defer_quota w db lease = (case lock_run db (tl_run_id lease) of
     Some e \<Rightarrow> Inl e
   | None \<Rightarrow> ebind (leased_task w db lease) (\<lambda>r.
       if sk_pause_requested r \<or> sk_cancel_requested r then Inl (SchedulingLeaseRevoked ''quota deferral lease is revoked'')
       else Inr (release_task w db r False)))"

primrec enqueue_children :: "sched_world \<Rightarrow> task_lease \<Rightarrow> sched_db \<Rightarrow> schedule_task list \<Rightarrow> sched_error + sched_db" where
  "enqueue_children w lease db [] = Inr db"
| "enqueue_children w lease db (child # rest) =
     (if st_run_id child \<noteq> tl_run_id lease \<or> st_parent_task_id child \<noteq> Some (tl_task_id lease)
      then conflict ''child lineage differs from yielding parent''
      else ebind (schedule_enqueue w db child) (\<lambda>db'. enqueue_children w lease db' rest))"

definition yield_to_children :: "sched_world \<Rightarrow> sched_db \<Rightarrow> task_lease \<Rightarrow> schedule_task list \<Rightarrow> sched_error + sched_db" where
  "yield_to_children w db lease children = ebind (leased_task w db lease) (\<lambda>parent.
     if children = [] then conflict ''parent yield requires children''
     else ebind (enqueue_children w lease db children) (\<lambda>db'.
       Inr (put_task (parent\<lparr> sk_state := ''blocked'', sk_lease_owner := None, sk_lease_expires_at := None \<rparr>) db')))"

definition reconcile_expired :: "sched_world \<Rightarrow> sched_db \<Rightarrow> uuid \<Rightarrow> uuid \<Rightarrow> bool \<Rightarrow> sched_error + sched_db" where
  "reconcile_expired w db run_id task_id retry = (case lock_run db run_id of
     Some e \<Rightarrow> Inl e
   | None \<Rightarrow> (case sched_task_at db task_id of
       None \<Rightarrow> conflict ''scheduled task not found''
     | Some r \<Rightarrow>
         if sk_run_id r \<noteq> run_id then conflict ''scheduled task not found''
         else if sk_state r \<noteq> ''reconciling'' then conflict ''task is not awaiting reconciliation''
         else if retry \<and> (\<exists>e \<in> set (sd_effects db). sf_run_id e = run_id \<and> sf_task_id e = task_id \<and>
             sf_lease_generation e = sk_lease_generation r \<and> effect_unsettled e)
         then conflict ''task effect requires reconciliation before retry''
         else Inr (release_task w db r (\<not> retry \<or> sk_cancel_requested r))))"

definition request_stop :: "sched_world \<Rightarrow> sched_db \<Rightarrow> uuid \<Rightarrow> uuid \<Rightarrow> bool \<Rightarrow> sched_error + sched_db" where
  "request_stop w db run_id task_id cancel = (case lock_run db run_id of
     Some e \<Rightarrow> Inl e
   | None \<Rightarrow> (case sched_task_at db task_id of
       None \<Rightarrow> conflict ''scheduled task not found''
     | Some r \<Rightarrow> if sk_run_id r \<noteq> run_id then conflict ''scheduled task not found''
         else let r' = (if cancel then r\<lparr> sk_cancel_requested := True \<rparr> else r\<lparr> sk_pause_requested := True \<rparr>) in
           Inr (if sk_state r \<in> {''queued'', ''blocked''} then release_task w db r' True else put_task r' db)))"

section \<open>Effects\<close>

definition paths_exceed :: "sched_world \<Rightarrow> sched_task \<Rightarrow> string list \<Rightarrow> bool" where
  "paths_exceed w r owned_paths = (\<exists>p \<in> set (map (policy_path_key (sw_nt w)) owned_paths).
     \<not> (\<exists>permitted \<in> set (sk_owned_paths r). p = permitted \<or> starts_with p (rstrip_by (\<lambda>c. c = CHR ''/'') permitted @ ''/'')))"

definition effect_read :: "sched_world \<Rightarrow> sched_db \<Rightarrow> task_lease \<Rightarrow> sched_task \<Rightarrow> uuid \<Rightarrow> bool" where
  "effect_read w db lease r effect_id = ((is_coordinator (sw_nt w) db r \<or> sk_read_only r) \<and>
     is_bound_read w db effect_id r (tl_owner lease) (tl_generation lease) False)"

text \<open>An earlier exclusive read keeps its stored mode; a new mutation of the coordinator is exclusive.\<close>

definition effect_exclusive :: "sched_world \<Rightarrow> sched_db \<Rightarrow> task_lease \<Rightarrow> sched_task \<Rightarrow> uuid \<Rightarrow> bool \<Rightarrow> bool" where
  "effect_exclusive w db lease r effect_id requested =
     (let existing = effect_at db effect_id; read_effect = effect_read w db lease r effect_id in
      requested \<or> read_effect \<and> (case existing of None \<Rightarrow> False | Some x \<Rightarrow> sf_whole_worktree_exclusive x) \<or>
      is_coordinator (sw_nt w) db r \<and> \<not> read_effect \<and> (case existing of None \<Rightarrow> True | Some x \<Rightarrow> sf_whole_worktree_exclusive x))"

definition effect_refused :: "sched_world \<Rightarrow> sched_db \<Rightarrow> task_lease \<Rightarrow> sched_task \<Rightarrow> sched_run \<Rightarrow> uuid \<Rightarrow> bool \<Rightarrow> string option" where
  "effect_refused w db lease r run effect_id exclusive =
     (let existing = effect_at db effect_id; read_effect = effect_read w db lease r effect_id;
          snapshot_read = (exclusive \<and> is_bound_read w db effect_id r (tl_owner lease) (tl_generation lease) True) in
      if (case existing of None \<Rightarrow> False | Some x \<Rightarrow>
          (sf_run_id x, sf_task_id x, sf_lease_owner x, sf_lease_generation x, sf_whole_worktree_exclusive x) \<noteq>
          (tl_run_id lease, tl_task_id lease, tl_owner lease, tl_generation lease, exclusive))
      then Some ''effect identity conflicts''
      else if (\<not> sk_read_only r \<and> \<not> read_effect \<or> exclusive) \<and> existing = None \<and> has_exclusive_effect_barrier w db r
      then Some ''worktree exclusive effect barrier is active''
      else if exclusive \<and> existing = None \<and> has_effect_conflict (sw_nt w) db r snapshot_read
      then Some ''worktree is not exclusively available''
      else if sn_candidate_state run \<noteq> ''open'' \<and> \<not> (sn_candidate_state run = ''closed'' \<and> read_effect)
      then Some ''candidate barrier denies task effect admission'' else None)"

definition admitted_effect :: "task_lease \<Rightarrow> sched_run \<Rightarrow> uuid \<Rightarrow> bool \<Rightarrow> sched_effect" where
  "admitted_effect lease run effect_id exclusive = \<lparr> sf_id = effect_id, sf_run_id = tl_run_id lease, sf_task_id = tl_task_id lease,
     sf_lease_owner = tl_owner lease, sf_lease_generation = tl_generation lease, sf_candidate_epoch = sn_candidate_epoch run,
     sf_whole_worktree_exclusive = exclusive, sf_state = ''admitted'' \<rparr>"

definition admit_effect :: "sched_world \<Rightarrow> sched_db \<Rightarrow> task_lease \<Rightarrow> uuid \<Rightarrow> string list \<Rightarrow> bool \<Rightarrow> int option \<Rightarrow>
    sched_error + (task_effect_lease \<times> sched_db)" where
  "admit_effect w db lease effect_id owned_paths requested_exclusive expected_epoch = (case lock_run db (tl_run_id lease) of
     Some e \<Rightarrow> Inl e
   | None \<Rightarrow> if usage_checkpoint_active db (tl_run_id lease) then conflict ''task effect admission is fenced by usage checkpoint''
     else ebind (leased_task w db lease) (\<lambda>r. case sched_run_at db (tl_run_id lease) of
       None \<Rightarrow> conflict ''task effect admission is revoked''
     | Some run \<Rightarrow>
         if sk_pause_requested r \<or> sk_cancel_requested r then conflict ''task effect admission is revoked''
         else if expected_epoch \<noteq> None \<and> expected_epoch \<noteq> Some (sn_candidate_epoch run) then conflict ''candidate epoch differs''
         else if paths_exceed w r owned_paths then conflict ''effect paths exceed persisted task ownership''
         else let exclusive = effect_exclusive w db lease r effect_id requested_exclusive in
           (case effect_refused w db lease r run effect_id exclusive of
              Some m \<Rightarrow> conflict m
            | None \<Rightarrow> let db' = (if effect_at db effect_id = None
                  then db\<lparr> sd_effects := sd_effects db @ [admitted_effect lease run effect_id exclusive] \<rparr> else db) in
                (case task_effect_lease_make \<lparr> te_effect_id = effect_id, te_task_lease = lease, te_candidate_epoch = sn_candidate_epoch run \<rparr> of
                   Inl e \<Rightarrow> Inl (Sched_invalid e) | Inr x \<Rightarrow> Inr (x, db')))))"

definition settle_effect :: "sched_world \<Rightarrow> sched_db \<Rightarrow> task_effect_lease \<Rightarrow> bool \<Rightarrow> sched_error + (bool \<times> sched_db)" where
  "settle_effect w db effect accepted = (let lease = te_task_lease effect;
       task = find (\<lambda>r. sk_run_id r = tl_run_id lease \<and> sk_task_id r = tl_task_id lease \<and> sk_lease_owner r = Some (tl_owner lease) \<and>
         sk_lease_generation r = tl_generation lease \<and> sk_state r = ''leased'' \<and>
         (case sk_lease_expires_at r of None \<Rightarrow> False | Some e \<Rightarrow> sw_now w < e)) (sd_tasks db) in
     ebind (fenced_effect db effect True) (\<lambda>x.
       let ok = (accepted \<and> (case task of None \<Rightarrow> False | Some r \<Rightarrow> \<not> sk_pause_requested r \<and> \<not> sk_cancel_requested r)) in
       Inr (ok, put_effect (x\<lparr> sf_state := (if ok then ''settled'' else ''rejected'') \<rparr>) db)))"

definition reconcile_effect :: "sched_db \<Rightarrow> task_effect_lease \<Rightarrow> sched_error + sched_db" where
  "reconcile_effect db effect = ebind (fenced_effect db effect False) (\<lambda>x.
     Inr (if sf_state x = ''admitted'' then put_effect (x\<lparr> sf_state := ''reconciling'' \<rparr>) db else db))"

section \<open>The candidate barrier\<close>

definition begin_candidate :: "sched_db \<Rightarrow> uuid \<Rightarrow> sched_error + (int \<times> sched_db)" where
  "begin_candidate db run_id = (case lock_run db run_id of
     Some e \<Rightarrow> Inl e
   | None \<Rightarrow> (case sched_run_at db run_id of
       None \<Rightarrow> conflict ''run is not admitted''
     | Some run \<Rightarrow> if \<not> sn_admitted run then conflict ''run is not admitted''
         else if sn_candidate_state run \<noteq> ''open'' then conflict ''candidate barrier already active''
         else Inr (sn_candidate_epoch run, put_sched_run (run\<lparr> sn_candidate_state := ''draining'' \<rparr>) db)))"

definition close_candidate :: "sched_db \<Rightarrow> uuid \<Rightarrow> int \<Rightarrow> sched_error + sched_db" where
  "close_candidate db run_id epoch = (case lock_run db run_id of
     Some e \<Rightarrow> Inl e
   | None \<Rightarrow> (case sched_run_at db run_id of
       None \<Rightarrow> conflict ''candidate epoch differs''
     | Some run \<Rightarrow>
         if sn_candidate_state run \<noteq> ''draining'' \<or> sn_candidate_epoch run \<noteq> epoch then conflict ''candidate epoch differs''
         else if (\<exists>r \<in> set (sd_tasks db). sk_run_id r = run_id \<and> task_active r) then conflict ''candidate barrier still draining effects''
         else if (\<exists>e \<in> set (sd_effects db). sf_run_id e = run_id \<and> effect_unsettled e) then conflict ''candidate barrier still draining effects''
         else Inr (put_sched_run (run\<lparr> sn_candidate_state := ''closed'', sn_candidate_epoch := sn_candidate_epoch run + 1 \<rparr>) db)))"

end
