(* ===== verification/Forge_Protocol.thy ===== *)
theory Forge_Protocol
  imports Forge_Schedule
begin

text \<open>
  The protocol of the scheduler: which changes its repository makes to the rows, as guarded moves, the
  invariant that the moves keep, and the proof that every call of
  \<^verbatim>\<open>persistence/repositories/scheduling.py\<close> is a sequence of moves.
\<close>

section \<open>What a row keeps\<close>

definition row_contract :: "sched_task \<Rightarrow>
    uuid \<times> uuid \<times> uuid \<times> uuid option \<times> string \<times> string list \<times> uuid list \<times> bool \<times> int \<times> int" where
  "row_contract r = (sk_id r, sk_run_id r, sk_task_id r, sk_parent_task_id r, sk_worktree_id r, sk_owned_paths r,
     sk_dependency_task_ids r, sk_read_only r, sk_max_repairs r, sk_created_at r)"

lemma row_contract_fields:
  assumes "row_contract r = row_contract x"
  shows "sk_id r = sk_id x" "sk_run_id r = sk_run_id x" "sk_task_id r = sk_task_id x" "sk_parent_task_id r = sk_parent_task_id x"
    "sk_worktree_id r = sk_worktree_id x" "sk_owned_paths r = sk_owned_paths x" "sk_read_only r = sk_read_only x"
  using assms by (simp_all add: row_contract_def)

lemma is_coordinator_contract:
  assumes "row_contract r = row_contract x" and "sd_logical db = sd_logical db'"
  shows "is_coordinator nt db r = is_coordinator nt db' x"
  unfolding is_coordinator_def logical_at_def row_contract_fields [OF assms(1)] assms(2) ..

definition bound_read :: "sched_db \<Rightarrow> sched_effect \<Rightarrow> sched_task \<Rightarrow> bool" where
  "bound_read db e x = (read_binding db (sf_id e) x (sf_lease_owner e) (sf_lease_generation e) \<noteq> None)"

lemma read_binding_contract:
  assumes "row_contract r = row_contract x" and "sd_bindings db = sd_bindings db'" and "sd_attempts db = sd_attempts db'"
  shows "read_binding db i r = read_binding db' i x"
  unfolding read_binding_def row_contract_fields [OF assms(1)] assms(2,3) ..

section \<open>The invariant\<close>

definition sched_ids :: "sched_db \<Rightarrow> bool" where
  "sched_ids db = (distinct (map sk_id (sd_tasks db)) \<and> distinct (map sf_id (sd_effects db)) \<and> (\<forall>r \<in> set (sd_tasks db). sk_task_id r = sk_id r))"

definition row_shape :: "sched_task \<Rightarrow> bool" where
  "row_shape r = (sk_state r \<in> {''queued'', ''leased'', ''reconciling'', ''blocked'', ''terminal''} \<and>
     (sk_lease_owner r \<noteq> None) = task_active r \<and> (sk_lease_expires_at r \<noteq> None) = task_active r)"

definition rows_shaped :: "sched_db \<Rightarrow> bool" where
  "rows_shaped db = (\<forall>r \<in> set (sd_tasks db). row_shape r)"

definition writer :: "bool \<Rightarrow> sched_db \<Rightarrow> sched_task \<Rightarrow> bool" where
  "writer nt db r = (task_active r \<and> \<not> sk_read_only r \<and> \<not> is_coordinator nt db r)"

definition writers_apart :: "bool \<Rightarrow> sched_db \<Rightarrow> bool" where
  "writers_apart nt db = (\<forall>r \<in> set (sd_tasks db). \<forall>x \<in> set (sd_tasks db). writer nt db r \<and> writer nt db x \<and> sk_id r \<noteq> sk_id x \<and>
     sk_worktree_id r = sk_worktree_id x \<longrightarrow> \<not> scopes_overlap r x)"

definition effect_worktree :: "sched_db \<Rightarrow> sched_effect \<Rightarrow> string option" where
  "effect_worktree db e = map_option sk_worktree_id (effect_owner db e)"

definition effect_quiet :: "bool \<Rightarrow> sched_db \<Rightarrow> sched_effect \<Rightarrow> bool" where
  "effect_quiet nt db e = (case effect_owner db e of None \<Rightarrow> False | Some x \<Rightarrow> sk_read_only x \<or> is_coordinator nt db x \<and> bound_read db e x)"

definition effect_reads :: "bool \<Rightarrow> sched_db \<Rightarrow> sched_effect \<Rightarrow> bool" where
  "effect_reads nt db e = (case effect_owner db e of None \<Rightarrow> False | Some x \<Rightarrow> (sk_read_only x \<or> is_coordinator nt db x) \<and> bound_read db e x)"

definition open_exclusive :: "sched_effect \<Rightarrow> bool" where
  "open_exclusive e = (effect_unsettled e \<and> sf_whole_worktree_exclusive e)"

definition exclusive_first :: "bool \<Rightarrow> sched_db \<Rightarrow> bool" where
  "exclusive_first nt db = sorted_wrt (\<lambda>e f. open_exclusive e \<and> effect_unsettled f \<and> effect_worktree db e = effect_worktree db f \<longrightarrow>
     \<not> sf_whole_worktree_exclusive f \<and> effect_quiet nt db f) (sd_effects db)"

definition candidate_closed :: "sched_db \<Rightarrow> uuid \<Rightarrow> bool" where
  "candidate_closed db i = (case sched_run_at db i of None \<Rightarrow> False | Some run \<Rightarrow> sn_candidate_state run = ''closed'')"

definition frozen :: "bool \<Rightarrow> sched_db \<Rightarrow> bool" where
  "frozen nt db = (\<forall>i. candidate_closed db i \<longrightarrow> (\<forall>r \<in> set (sd_tasks db). sk_run_id r = i \<longrightarrow> \<not> writer nt db r) \<and>
     (\<forall>e \<in> set (sd_effects db). sf_run_id e = i \<and> effect_unsettled e \<longrightarrow> effect_reads nt db e))"

definition effects_owned :: "sched_db \<Rightarrow> bool" where
  "effects_owned db = (\<forall>e \<in> set (sd_effects db). effect_owner db e \<noteq> None)"

definition sched_inv :: "bool \<Rightarrow> sched_db \<Rightarrow> bool" where
  "sched_inv nt db = (sched_ids db \<and> rows_shaped db \<and> writers_apart nt db \<and> effects_owned db \<and> exclusive_first nt db \<and> frozen nt db)"

section \<open>Rewriting task rows\<close>

definition rewriting :: "(sched_task \<Rightarrow> sched_task) \<Rightarrow> sched_db \<Rightarrow> sched_db \<Rightarrow> bool" where
  "rewriting f s t = (t = s\<lparr> sd_tasks := map f (sd_tasks s) \<rparr> \<and> (\<forall>r \<in> set (sd_tasks s). row_contract (f r) = row_contract r))"

lemma rewriting_fields:
  assumes "rewriting f s t" and "r \<in> set (sd_tasks s)"
  shows "sk_id (f r) = sk_id r" "sk_run_id (f r) = sk_run_id r" "sk_task_id (f r) = sk_task_id r" "sk_worktree_id (f r) = sk_worktree_id r"
    "sk_owned_paths (f r) = sk_owned_paths r" "sk_read_only (f r) = sk_read_only r"
  using assms row_contract_fields [of "f r" r] by (auto simp: rewriting_def)

lemma rewriting_tasks: "rewriting f s t \<Longrightarrow> sd_tasks t = map f (sd_tasks s)"
  by (simp add: rewriting_def)

lemma rewriting_owner:
  assumes "rewriting f s t"
  shows "effect_owner t e = map_option f (effect_owner s e)"
proof -
  have find: "find P (map f rs) = map_option f (find P rs)" if "\<forall>r \<in> set rs. P (f r) = P r" for P rs
    using that by (induction rs) auto
  show ?thesis unfolding effect_owner_def rewriting_tasks [OF assms] by (rule find) (simp add: rewriting_fields [OF assms])
qed

lemma owner_in: "effect_owner db e = Some x \<Longrightarrow> x \<in> set (sd_tasks db) \<and> sk_run_id x = sf_run_id e \<and> sk_task_id x = sf_task_id e"
  by (auto simp: effect_owner_def find_Some_iff)

lemma rewriting_coordinator: "rewriting f s t \<Longrightarrow> r \<in> set (sd_tasks s) \<Longrightarrow> is_coordinator nt t (f r) = is_coordinator nt s r"
  by (rule is_coordinator_contract) (auto simp: rewriting_def)

lemma rewriting_effects:
  assumes "rewriting f s t"
  shows "effect_worktree t e = effect_worktree s e" "effect_quiet nt t e = effect_quiet nt s e" "effect_reads nt t e = effect_reads nt s e"
proof -
  have *: "sk_worktree_id (f x) = sk_worktree_id x" "sk_read_only (f x) = sk_read_only x" "is_coordinator nt t (f x) = is_coordinator nt s x"
    "bound_read t e (f x) = bound_read s e x" if "effect_owner s e = Some x" for x
  proof -
    from that assms have c: "row_contract (f x) = row_contract x" and x: "x \<in> set (sd_tasks s)" by (auto simp: rewriting_def dest: owner_in)
    from assms have d: "sd_bindings t = sd_bindings s" "sd_attempts t = sd_attempts s" by (auto simp: rewriting_def)
    show "sk_worktree_id (f x) = sk_worktree_id x" "sk_read_only (f x) = sk_read_only x" using row_contract_fields [OF c] by auto
    show "is_coordinator nt t (f x) = is_coordinator nt s x" by (rule rewriting_coordinator [OF assms x])
    show "bound_read t e (f x) = bound_read s e x" using read_binding_contract [OF c d] by (simp add: bound_read_def)
  qed
  show "effect_worktree t e = effect_worktree s e" "effect_quiet nt t e = effect_quiet nt s e" "effect_reads nt t e = effect_reads nt s e"
    using * by (cases "effect_owner s e"; simp add: effect_worktree_def effect_quiet_def effect_reads_def rewriting_owner [OF assms])+
qed

lemma rewriting_tables:
  assumes "rewriting f s t"
  shows "sd_effects t = sd_effects s" "sched_run_at t i = sched_run_at s i" "candidate_closed t i = candidate_closed s i"
  using assms by (auto simp: rewriting_def sched_run_at_def candidate_closed_def)

lemma rewriting_keep:
  assumes "rewriting f s t"
  shows "sched_ids s \<Longrightarrow> sched_ids t" "effects_owned s \<Longrightarrow> effects_owned t" "exclusive_first nt s \<Longrightarrow> exclusive_first nt t"
proof -
  have ids: "map sk_id (sd_tasks t) = map sk_id (sd_tasks s)" by (simp add: rewriting_tasks [OF assms] rewriting_fields [OF assms])
  show "sched_ids s \<Longrightarrow> sched_ids t" unfolding sched_ids_def ids
    by (simp add: rewriting_tasks [OF assms] rewriting_tables [OF assms] rewriting_fields [OF assms])
  show "effects_owned s \<Longrightarrow> effects_owned t" by (simp add: effects_owned_def rewriting_owner [OF assms] rewriting_tables [OF assms])
  show "exclusive_first nt s \<Longrightarrow> exclusive_first nt t" by (simp add: exclusive_first_def rewriting_effects [OF assms] rewriting_tables [OF assms])
qed

lemma rewriting_writer: "rewriting f s t \<Longrightarrow> r \<in> set (sd_tasks s) \<Longrightarrow> writer nt t (f r) \<longleftrightarrow>
    task_active (f r) \<and> \<not> sk_read_only r \<and> \<not> is_coordinator nt s r"
  using row_contract_fields [of "f r" r] rewriting_coordinator [of f s t r] by (auto simp: writer_def rewriting_def)

text \<open>A rewriting that activates no row keeps the writers apart and the candidates frozen.\<close>

lemma rewriting_passive:
  assumes "rewriting f s t" and "\<forall>r \<in> set (sd_tasks s). task_active (f r) \<longrightarrow> task_active r"
  shows "writers_apart nt s \<Longrightarrow> writers_apart nt t" "frozen nt s \<Longrightarrow> frozen nt t"
proof -
  have w: "writer nt s r" if "r \<in> set (sd_tasks s)" "writer nt t (f r)" for r
    using that assms(2) rewriting_writer [OF assms(1)] by (auto simp: writer_def)
  note c = rewriting_fields [OF assms(1)]
  have tasks: "set (sd_tasks t) = f ` set (sd_tasks s)" by (simp add: rewriting_tasks [OF assms(1)])
  show "writers_apart nt t" if "writers_apart nt s"
    unfolding writers_apart_def tasks ball_simps
  proof (intro ballI impI)
    fix r x assume "r \<in> set (sd_tasks s)" "x \<in> set (sd_tasks s)" and "writer nt t (f r) \<and> writer nt t (f x) \<and> sk_id (f r) \<noteq> sk_id (f x) \<and>
      sk_worktree_id (f r) = sk_worktree_id (f x)"
    with that w c show "\<not> scopes_overlap (f r) (f x)" by (simp add: writers_apart_def scopes_overlap_def)
  qed
  show "frozen nt t" if "frozen nt s"
    using that w c unfolding frozen_def tasks ball_simps by (simp add: rewriting_effects [OF assms(1)] rewriting_tables [OF assms(1)]) blast
qed

section \<open>Moves\<close>

text \<open>One row changes under a label: the worker that acts, if any, and the time it reads.\<close>

definition holds_lease :: "string \<Rightarrow> int \<Rightarrow> sched_task \<Rightarrow> bool" where
  "holds_lease a now r = (sk_state r = ''leased'' \<and> sk_lease_owner r = Some a \<and> (case sk_lease_expires_at r of None \<Rightarrow> False | Some e \<Rightarrow> now < e))"

inductive task_change :: "lease_label \<Rightarrow> sched_task \<Rightarrow> sched_task \<Rightarrow> bool" where
  flag: "(sk_pause_requested r \<longrightarrow> p) \<Longrightarrow> (sk_cancel_requested r \<longrightarrow> c) \<Longrightarrow>
    task_change l r (r\<lparr> sk_pause_requested := p, sk_cancel_requested := c \<rparr>)"
| shift: "sk_state r \<in> {''queued'', ''blocked''} \<Longrightarrow> st \<in> {''queued'', ''blocked''} \<Longrightarrow> task_change l r (r\<lparr> sk_state := st \<rparr>)"
| retire: "sk_state r \<in> {''queued'', ''blocked''} \<Longrightarrow>
    task_change l r (r\<lparr> sk_state := ''terminal'', sk_lease_owner := None, sk_lease_expires_at := None \<rparr>)"
| recover: "sk_state r = ''reconciling'' \<Longrightarrow> st \<in> {''queued'', ''terminal''} \<Longrightarrow>
    task_change l r (r\<lparr> sk_state := st, sk_lease_owner := None, sk_lease_expires_at := None \<rparr>)"
| extend: "holds_lease a now r \<Longrightarrow> task_change (Some a, now) r (r\<lparr> sk_lease_expires_at := Some e \<rparr>)"
| repair: "holds_lease a now r \<Longrightarrow> sk_repairs r < sk_max_repairs r \<Longrightarrow>
    task_change (Some a, now) r (r\<lparr> sk_repairs := sk_repairs r + 1 \<rparr>)"
| give_up: "holds_lease a now r \<Longrightarrow> st \<in> {''queued'', ''blocked'', ''terminal''} \<Longrightarrow>
    task_change (Some a, now) r (r\<lparr> sk_state := st, sk_lease_owner := None, sk_lease_expires_at := None \<rparr>)"

definition run_admits :: "bool \<Rightarrow> sched_db \<Rightarrow> sched_task \<Rightarrow> bool" where
  "run_admits nt db r = (\<not> candidate_closed db (sk_run_id r) \<or> sk_read_only r \<or> is_coordinator nt db r)"

definition keeps :: "bool \<Rightarrow> sched_db \<Rightarrow> sched_db \<Rightarrow> bool" where
  "keeps nt s t = (sd_tasks t = sd_tasks s \<and> sd_effects t = sd_effects s \<and>
     (\<forall>r \<in> set (sd_tasks s). is_coordinator nt s r \<longrightarrow> is_coordinator nt t r) \<and>
     (\<forall>e \<in> set (sd_effects s). \<forall>x \<in> set (sd_tasks s). bound_read s e x \<longrightarrow> bound_read t e x) \<and>
     (\<forall>i. candidate_closed t i \<longrightarrow> candidate_closed s i))"

inductive move :: "bool \<Rightarrow> lease_label \<Rightarrow> sched_db \<Rightarrow> sched_db \<Rightarrow> bool" for nt where
  Row: "r \<in> set (sd_tasks s) \<Longrightarrow> task_change l r r' \<Longrightarrow> move nt l s (put_task r' s)"
| Expire: "\<forall>r. P r \<longrightarrow> lease_expired now r \<Longrightarrow>
    move nt (a, now) s (s\<lparr> sd_tasks := map (\<lambda>r. if P r then r\<lparr> sk_state := ''reconciling'' \<rparr> else r) (sd_tasks s) \<rparr>)"
| Enqueue: "sched_task_at s (sk_id r) = None \<Longrightarrow> sk_task_id r = sk_id r \<Longrightarrow> sk_state r = ''queued'' \<Longrightarrow> sk_lease_owner r = None \<Longrightarrow>
    sk_lease_expires_at r = None \<Longrightarrow> move nt l s (s\<lparr> sd_tasks := sd_tasks s @ [r] \<rparr>)"
| Grant: "r \<in> set (sd_tasks s) \<Longrightarrow> claimable r \<Longrightarrow> run_admits nt s r \<Longrightarrow> \<not> has_worktree_conflict nt s r \<Longrightarrow>
    move nt (Some a, now) s (put_task (r\<lparr> sk_provider := p, sk_state := ''leased'', sk_lease_owner := Some a,
      sk_lease_generation := sk_lease_generation r + 1, sk_lease_expires_at := Some e \<rparr>) s)"
| Admit: "effect_at s (sf_id e) = None \<Longrightarrow> effect_owner s e \<noteq> None \<Longrightarrow>
    \<forall>f \<in> set (sd_effects s). open_exclusive f \<longrightarrow> effect_worktree s f \<noteq> effect_worktree s e \<Longrightarrow>
    \<not> candidate_closed s (sf_run_id e) \<or> effect_reads nt s e \<Longrightarrow> move nt l s (s\<lparr> sd_effects := sd_effects s @ [e] \<rparr>)"
| Admit_quiet: "effect_at s (sf_id e) = None \<Longrightarrow> effect_owner s e \<noteq> None \<Longrightarrow> \<not> sf_whole_worktree_exclusive e \<Longrightarrow> effect_quiet nt s e \<Longrightarrow>
    \<not> candidate_closed s (sf_run_id e) \<or> effect_reads nt s e \<Longrightarrow> move nt l s (s\<lparr> sd_effects := sd_effects s @ [e] \<rparr>)"
| Settle: "e \<in> set (sd_effects s) \<Longrightarrow> effect_unsettled (e\<lparr> sf_state := st \<rparr>) \<longrightarrow> effect_unsettled e \<Longrightarrow>
    move nt l s (put_effect (e\<lparr> sf_state := st \<rparr>) s)"
| Close: "sched_run_at s i = Some run \<Longrightarrow> \<forall>r \<in> set (sd_tasks s). sk_run_id r = i \<longrightarrow> \<not> task_active r \<Longrightarrow>
    \<forall>e \<in> set (sd_effects s). sf_run_id e = i \<longrightarrow> \<not> effect_unsettled e \<Longrightarrow>
    move nt l s (put_sched_run (run\<lparr> sn_candidate_state := ''closed'', sn_candidate_epoch := sn_candidate_epoch run + 1 \<rparr>) s)"
| Other: "keeps nt s t \<Longrightarrow> move nt l s t"

inductive_cases move_cases: "move nt l s t"

lemma put_task_rewriting:
  assumes "sched_ids s" and "r \<in> set (sd_tasks s)" and "row_contract r' = row_contract r"
  shows "rewriting (\<lambda>x. if x = r then r' else x) s (put_task r' s)"
proof -
  from assms(3) have i: "sk_id r' = sk_id r" by (rule row_contract_fields)
  from assms(1,2) have "sk_id x = sk_id r \<longleftrightarrow> x = r" if "x \<in> set (sd_tasks s)" for x
    using that by (auto simp: sched_ids_def distinct_map inj_on_def)
  with assms(3) i show ?thesis by (auto simp: rewriting_def put_task_def put_row_def)
qed

lemma task_change_contract: "task_change l r r' \<Longrightarrow> row_contract r' = row_contract r"
  by (induction rule: task_change.induct) (simp_all add: row_contract_def)

lemma task_change_active: "task_change l r r' \<Longrightarrow> task_active r' \<Longrightarrow> task_active r"
  by (induction rule: task_change.induct) (auto simp: task_active_def holds_lease_def)

lemma row_shape_free: "sk_state r \<in> {''queued'', ''blocked'', ''terminal''} \<Longrightarrow> row_shape r \<longleftrightarrow> sk_lease_owner r = None \<and> sk_lease_expires_at r = None"
  by (elim insertE) (simp_all add: row_shape_def task_active_def)

lemma row_shape_held: "sk_state r \<in> {''leased'', ''reconciling''} \<Longrightarrow> row_shape r \<longleftrightarrow> sk_lease_owner r \<noteq> None \<and> sk_lease_expires_at r \<noteq> None"
  by (elim insertE) (simp_all add: row_shape_def task_active_def)

lemma task_change_shape: "task_change l r r' \<Longrightarrow> row_shape r \<Longrightarrow> row_shape r'"
proof (induction rule: task_change.induct)
  case (flag r p c l)
  then show ?case by (simp add: row_shape_def task_active_def)
next
  case (extend a now r e)
  then show ?case by (simp add: row_shape_held holds_lease_def)
next
  case (repair a now r)
  then show ?case by (simp add: row_shape_held holds_lease_def)
qed (auto simp: row_shape_free)

lemma rewriting_shape: "rewriting f s t \<Longrightarrow> rows_shaped s \<Longrightarrow> (\<And>r. r \<in> set (sd_tasks s) \<Longrightarrow> row_shape r \<Longrightarrow> row_shape (f r)) \<Longrightarrow> rows_shaped t"
  by (simp add: rows_shaped_def rewriting_tasks)

lemma passive_inv:
  assumes "sched_inv nt s" and "rewriting f s t" and "\<And>r. r \<in> set (sd_tasks s) \<Longrightarrow> row_shape r \<Longrightarrow> row_shape (f r)"
    and "\<forall>r \<in> set (sd_tasks s). task_active (f r) \<longrightarrow> task_active r"
  shows "sched_inv nt t"
  using assms rewriting_keep [OF assms(2)] rewriting_shape [OF assms(2)] rewriting_passive [OF assms(2,4)] by (simp add: sched_inv_def)

lemma row_inv:
  assumes "sched_inv nt s" and "r \<in> set (sd_tasks s)" and "task_change l r r'"
  shows "sched_inv nt (put_task r' s)"
proof (rule passive_inv [OF assms(1) put_task_rewriting [OF _ assms(2) task_change_contract [OF assms(3)]]])
  show "sched_ids s" using assms(1) by (simp add: sched_inv_def)
qed (use task_change_shape [OF assms(3)] task_change_active [OF assms(3)] in auto)

lemma expire_rewriting: "rewriting (\<lambda>r. if P r then r\<lparr> sk_state := ''reconciling'' \<rparr> else r) s
    (s\<lparr> sd_tasks := map (\<lambda>r. if P r then r\<lparr> sk_state := ''reconciling'' \<rparr> else r) (sd_tasks s) \<rparr>)"
  by (simp add: rewriting_def row_contract_def)

lemma expire_inv:
  assumes "sched_inv nt s" and "\<forall>r. P r \<longrightarrow> lease_expired now r"
  shows "sched_inv nt (s\<lparr> sd_tasks := map (\<lambda>r. if P r then r\<lparr> sk_state := ''reconciling'' \<rparr> else r) (sd_tasks s) \<rparr>)" (is "sched_inv nt ?t")
  by (rule passive_inv [OF assms(1) expire_rewriting])
    (use assms(2) in \<open>auto simp: row_shape_def task_active_def lease_expired_def split: option.splits\<close>)

lemma starts_with_sym_overlap: "paths_overlap p q = paths_overlap q p"
  by (auto simp: paths_overlap_def)

lemma scopes_overlap_sym: "scopes_overlap r x = scopes_overlap x r"
  unfolding scopes_overlap_def using starts_with_sym_overlap by blast

lemma grant_inv:
  assumes "sched_inv nt s" and r: "r \<in> set (sd_tasks s)" and c: "row_contract r' = row_contract r" "row_shape r'"
    and a: "run_admits nt s r" "\<not> has_worktree_conflict nt s r"
  shows "sched_inv nt (put_task r' s)"
proof -
  let ?f = "\<lambda>x. if x = r then r' else x" and ?t = "put_task r' s"
  from assms(1) have i: "sched_ids s" "rows_shaped s" "writers_apart nt s" "frozen nt s" by (auto simp: sched_inv_def)
  note rw = put_task_rewriting [OF i(1) r c(1)]
  have tasks: "set (sd_tasks ?t) = ?f ` set (sd_tasks s)" by (simp add: rewriting_tasks [OF rw])
  have w: "writer nt s x \<or> x = r" "writer nt ?t r' \<Longrightarrow> \<not> sk_read_only r \<and> \<not> is_coordinator nt s r"
    if "x \<in> set (sd_tasks s)" "writer nt ?t (?f x)" for x
    using that rewriting_writer [OF rw that(1)] rewriting_writer [OF rw r] by (auto simp: writer_def split: if_splits)
  have clear: "\<not> scopes_overlap r x" if "x \<in> set (sd_tasks s)" "writer nt s x" "sk_worktree_id x = sk_worktree_id r"
      "\<not> sk_read_only r" "\<not> is_coordinator nt s r" for x
    using a(2) that by (auto simp: has_worktree_conflict_def writer_def scopes_overlap_def)
  note fields = rewriting_fields [OF rw]
  have "writers_apart nt ?t" unfolding writers_apart_def tasks ball_simps
  proof (intro ballI impI)
    fix y x assume yx: "y \<in> set (sd_tasks s)" "x \<in> set (sd_tasks s)" and
      h: "writer nt ?t (?f y) \<and> writer nt ?t (?f x) \<and> sk_id (?f y) \<noteq> sk_id (?f x) \<and> sk_worktree_id (?f y) = sk_worktree_id (?f x)"
    then have h': "sk_id y \<noteq> sk_id x" "sk_worktree_id y = sk_worktree_id x" using fields by metis+
    have "\<not> scopes_overlap y x"
    proof (cases "writer nt s y \<and> writer nt s x")
      case True
      with h' yx i(3) show ?thesis by (simp add: writers_apart_def)
    next
      case False
      with w(1) [OF yx(1)] w(1) [OF yx(2)] h h'(1) consider "y = r" "writer nt s x" "writer nt ?t r'" | "x = r" "writer nt s y" "writer nt ?t r'"
        by (auto split: if_splits)
      then show ?thesis
      proof cases
        case 1
        with clear [OF yx(2)] w(2) [OF yx(1)] h h'(2) show ?thesis by simp
      next
        case 2
        with clear [OF yx(1)] w(2) [OF yx(2)] h h'(2) show ?thesis by (simp add: scopes_overlap_sym [of y])
      qed
    qed
    then show "\<not> scopes_overlap (?f y) (?f x)" using fields(5) yx by (simp add: scopes_overlap_def)
  qed
  moreover have "frozen nt ?t" unfolding frozen_def tasks ball_simps rewriting_tables [OF rw] rewriting_effects [OF rw]
  proof (intro allI impI conjI ballI)
    fix j x assume j: "candidate_closed s j" and x: "x \<in> set (sd_tasks s)" "sk_run_id (?f x) = j"
    then have "sk_run_id x = j" using fields by metis
    with j x i(4) have nw: "\<not> writer nt s x" by (simp add: frozen_def)
    show "\<not> writer nt ?t (?f x)"
    proof
      assume h: "writer nt ?t (?f x)"
      with w(1) [OF x(1)] nw have "x = r" by blast
      with w(2) [OF x(1) h] h \<open>sk_run_id x = j\<close> j a(1) show False by (simp add: run_admits_def)
    qed
  qed (use i(4) in \<open>auto simp: frozen_def\<close>)
  moreover have "rows_shaped ?t" by (rule rewriting_shape [OF rw i(2)]) (simp add: c(2))
  ultimately show ?thesis using assms(1) rewriting_keep [OF rw] by (simp add: sched_inv_def)
qed

lemma owner_append: "effect_owner s e \<noteq> None \<Longrightarrow> effect_owner (s\<lparr> sd_tasks := sd_tasks s @ [r] \<rparr>) e = effect_owner s e"
proof -
  have "find P rs \<noteq> None \<Longrightarrow> find P (rs @ [r]) = find P rs" for P rs by (induction rs) auto
  then show "effect_owner s e \<noteq> None \<Longrightarrow> effect_owner (s\<lparr> sd_tasks := sd_tasks s @ [r] \<rparr>) e = effect_owner s e"
    by (simp add: effect_owner_def)
qed

lemma coordinator_logical: "sd_logical t = sd_logical s \<Longrightarrow> is_coordinator nt t r = is_coordinator nt s r"
  by (rule is_coordinator_contract) auto

lemma bound_read_tables: "sd_bindings t = sd_bindings s \<Longrightarrow> sd_attempts t = sd_attempts s \<Longrightarrow> bound_read t e x = bound_read s e x"
  unfolding bound_read_def by (subst read_binding_contract [of x x t s]) auto

lemma effects_same_owner:
  assumes "effect_owner t e = effect_owner s e" and "sd_logical t = sd_logical s" and "sd_bindings t = sd_bindings s" and "sd_attempts t = sd_attempts s"
  shows "effect_worktree t e = effect_worktree s e" "effect_quiet nt t e = effect_quiet nt s e" "effect_reads nt t e = effect_reads nt s e"
  using coordinator_logical [OF assms(2)] bound_read_tables [OF assms(3,4)]
  by (cases "effect_owner s e"; simp add: effect_worktree_def effect_quiet_def effect_reads_def assms(1))+

lemma sorted_wrt_mono_in:
  assumes "sorted_wrt P xs" and "\<And>x y. x \<in> set xs \<Longrightarrow> y \<in> set xs \<Longrightarrow> P x y \<Longrightarrow> Q x y"
  shows "sorted_wrt Q xs"
  using assms by (induction xs) auto

lemma enqueue_inv:
  assumes "sched_inv nt s" and r: "sched_task_at s (sk_id r) = None" "sk_task_id r = sk_id r" "sk_state r = ''queued''"
    "sk_lease_owner r = None" "sk_lease_expires_at r = None"
  shows "sched_inv nt (s\<lparr> sd_tasks := sd_tasks s @ [r] \<rparr>)" (is "sched_inv nt ?t")
proof -
  from assms(1) have i: "sched_ids s" "rows_shaped s" "writers_apart nt s" "effects_owned s" "exclusive_first nt s" "frozen nt s"
    by (auto simp: sched_inv_def)
  have o: "effect_owner ?t e = effect_owner s e" if "e \<in> set (sd_effects s)" for e
    using that i(4) by (intro owner_append) (simp add: effects_owned_def)
  have k: "effect_worktree ?t e = effect_worktree s e" "effect_quiet nt ?t e = effect_quiet nt s e" "effect_reads nt ?t e = effect_reads nt s e"
    if "e \<in> set (sd_effects s)" for e using effects_same_owner [OF o [OF that]] by simp_all
  have n: "\<not> writer nt ?t r" using r(3) by (simp add: writer_def task_active_def)
  have w: "writer nt ?t x = writer nt s x" for x using coordinator_logical [of ?t s] by (simp add: writer_def)
  have "sched_ids ?t" using i(1) r(1,2) by (auto simp: sched_ids_def sched_task_at_def row_at_None)
  moreover have "rows_shaped ?t" using i(2) r by (simp add: rows_shaped_def row_shape_free)
  moreover have "writers_apart nt ?t" using i(3) n by (auto simp: writers_apart_def w)
  moreover have "effects_owned ?t" using i(4) o by (simp add: effects_owned_def)
  moreover have "exclusive_first nt ?t" unfolding exclusive_first_def
    using sorted_wrt_mono_in [OF i(5) [unfolded exclusive_first_def]] by (simp add: k)
  moreover have "frozen nt ?t"
  proof -
    have "candidate_closed ?t = candidate_closed s" by (simp add: candidate_closed_def sched_run_at_def fun_eq_iff)
    with i(6) n show ?thesis by (auto simp: frozen_def w k)
  qed
  ultimately show ?thesis by (simp add: sched_inv_def)
qed

text \<open>Changes that leave the tasks alone.\<close>

lemma same_tasks_owner: "sd_tasks t = sd_tasks s \<Longrightarrow> effect_owner t e = effect_owner s e"
  by (simp add: effect_owner_def)

lemma admit_inv:
  assumes "sched_inv nt s" and e: "effect_at s (sf_id e) = None" "effect_owner s e \<noteq> None"
    and x: "\<And>f. f \<in> set (sd_effects s) \<Longrightarrow> open_exclusive f \<Longrightarrow> effect_worktree s f = effect_worktree s e \<Longrightarrow>
      \<not> sf_whole_worktree_exclusive e \<and> effect_quiet nt s e"
    and c: "\<not> candidate_closed s (sf_run_id e) \<or> effect_reads nt s e"
  shows "sched_inv nt (s\<lparr> sd_effects := sd_effects s @ [e] \<rparr>)" (is "sched_inv nt ?t")
proof -
  from assms(1) have i: "sched_ids s" "rows_shaped s" "writers_apart nt s" "effects_owned s" "exclusive_first nt s" "frozen nt s"
    by (auto simp: sched_inv_def)
  have o: "effect_owner ?t f = effect_owner s f" for f by (rule same_tasks_owner) simp
  have k: "effect_worktree ?t f = effect_worktree s f" "effect_quiet nt ?t f = effect_quiet nt s f" "effect_reads nt ?t f = effect_reads nt s f"
    for f using effects_same_owner [OF o] by simp_all
  have w: "writer nt ?t r = writer nt s r" for r using coordinator_logical [of ?t s] by (simp add: writer_def)
  have cl: "candidate_closed ?t = candidate_closed s" by (simp add: candidate_closed_def sched_run_at_def fun_eq_iff)
  have "sched_ids ?t" using i(1) e(1) by (auto simp: sched_ids_def effect_at_def row_at_None)
  moreover have "exclusive_first nt ?t" using i(5) x by (auto simp: exclusive_first_def sorted_wrt_append k)
  moreover have "frozen nt ?t" using i(6) c by (auto simp: frozen_def w k cl)
  ultimately show ?thesis using i e(2) by (simp add: sched_inv_def rows_shaped_def writers_apart_def effects_owned_def w o)
qed

lemma settle_inv:
  assumes "sched_inv nt s" and e: "e \<in> set (sd_effects s)" "effect_unsettled (e\<lparr> sf_state := st \<rparr>) \<longrightarrow> effect_unsettled e"
  shows "sched_inv nt (put_effect (e\<lparr> sf_state := st \<rparr>) s)" (is "sched_inv nt ?t")
proof -
  let ?f = "\<lambda>x. if x = e then e\<lparr> sf_state := st \<rparr> else x"
  from assms(1) have i: "sched_ids s" "rows_shaped s" "writers_apart nt s" "effects_owned s" "exclusive_first nt s" "frozen nt s"
    by (auto simp: sched_inv_def)
  from i(1) e(1) have "sf_id x = sf_id e \<longleftrightarrow> x = e" if "x \<in> set (sd_effects s)" for x
    using that by (auto simp: sched_ids_def distinct_map inj_on_def)
  then have t: "sd_effects ?t = map ?f (sd_effects s)" by (simp add: put_effect_def put_row_def)
  have tables: "sd_tasks ?t = sd_tasks s" "sd_logical ?t = sd_logical s" "sd_bindings ?t = sd_bindings s" "sd_attempts ?t = sd_attempts s"
    "sd_sched_runs ?t = sd_sched_runs s" by (simp_all add: put_effect_def)
  have o: "effect_owner ?t (?f x) = effect_owner s x" for x by (simp add: effect_owner_def tables(1))
  have b: "bound_read ?t (?f x) y = bound_read s x y" for x y using bound_read_tables [OF tables(3,4)] by (simp add: bound_read_def)
  have k: "effect_worktree ?t (?f x) = effect_worktree s x" "effect_quiet nt ?t (?f x) = effect_quiet nt s x"
    "effect_reads nt ?t (?f x) = effect_reads nt s x" for x
    using coordinator_logical [OF tables(2)] by (simp_all only: effect_worktree_def effect_quiet_def effect_reads_def o b)
  have u: "effect_unsettled (?f x) \<Longrightarrow> effect_unsettled x" "sf_whole_worktree_exclusive (?f x) = sf_whole_worktree_exclusive x"
    "sf_run_id (?f x) = sf_run_id x" "sf_id (?f x) = sf_id x" for x using e(2) by (auto split: if_splits)
  have w: "writer nt ?t r = writer nt s r" for r using coordinator_logical [OF tables(2)] by (simp add: writer_def)
  have cl: "candidate_closed ?t = candidate_closed s" by (simp add: candidate_closed_def sched_run_at_def fun_eq_iff tables)
  have "map sf_id (sd_effects ?t) = map sf_id (sd_effects s)" by (simp add: t)
  then have "sched_ids ?t" using i(1) by (simp add: sched_ids_def tables)
  moreover have "exclusive_first nt ?t" unfolding exclusive_first_def t sorted_wrt_map k open_exclusive_def u(2)
    by (rule sorted_wrt_mono_in [OF i(5) [unfolded exclusive_first_def open_exclusive_def]]) (use u(1) in blast)
  moreover have "frozen nt ?t"
    unfolding frozen_def t tables cl w list.set_map ball_simps k u(3)
  proof (intro allI impI conjI ballI)
    fix j x assume "candidate_closed s j" "x \<in> set (sd_effects s)" "sf_run_id x = j \<and> effect_unsettled (?f x)"
    with u(1) [of x] i(6) show "effect_reads nt s x" by (simp add: frozen_def)
  qed (use i(6) in \<open>simp add: frozen_def\<close>)
  moreover have "effects_owned ?t" using i(4) unfolding effects_owned_def t list.set_map ball_simps o .
  ultimately show ?thesis using i by (simp add: sched_inv_def rows_shaped_def writers_apart_def w tables)
qed

lemma keeps_owner: "keeps nt s t \<Longrightarrow> effect_owner t e = effect_owner s e"
  by (rule same_tasks_owner) (simp add: keeps_def)

lemma keeps_effects:
  assumes "keeps nt s t" and "e \<in> set (sd_effects s)"
  shows "effect_worktree t e = effect_worktree s e" "effect_quiet nt s e \<Longrightarrow> effect_quiet nt t e" "effect_reads nt s e \<Longrightarrow> effect_reads nt t e"
  using assms owner_in [of s e]
  by (auto simp: effect_worktree_def effect_quiet_def effect_reads_def keeps_owner [OF assms(1)] keeps_def split: option.splits)

lemma other_inv:
  assumes "sched_inv nt s" and k: "keeps nt s t"
  shows "sched_inv nt t"
proof -
  from assms(1) have i: "sched_ids s" "rows_shaped s" "writers_apart nt s" "effects_owned s" "exclusive_first nt s" "frozen nt s"
    by (auto simp: sched_inv_def)
  from k have tables: "sd_tasks t = sd_tasks s" "sd_effects t = sd_effects s" by (auto simp: keeps_def)
  have w: "writer nt t r \<Longrightarrow> writer nt s r" if "r \<in> set (sd_tasks s)" for r using k that by (auto simp: keeps_def writer_def)
  have "exclusive_first nt t" unfolding exclusive_first_def tables
    by (rule sorted_wrt_mono_in [OF i(5) [unfolded exclusive_first_def]]) (simp add: keeps_effects [OF k])
  moreover have "writers_apart nt t" using i(3) w unfolding writers_apart_def tables by blast
  moreover have "frozen nt t" unfolding frozen_def tables
  proof (intro allI impI conjI ballI)
    fix j assume "candidate_closed t j"
    then have j: "candidate_closed s j" using k by (simp add: keeps_def)
    show "\<not> writer nt t r" if "r \<in> set (sd_tasks s)" "sk_run_id r = j" for r using that w i(6) j by (auto simp: frozen_def)
    show "effect_reads nt t e" if "e \<in> set (sd_effects s)" "sf_run_id e = j \<and> effect_unsettled e" for e
      by (rule keeps_effects(3) [OF k that(1)]) (use that i(6) j in \<open>simp add: frozen_def\<close>)
  qed
  ultimately show ?thesis using i by (simp add: sched_inv_def sched_ids_def rows_shaped_def effects_owned_def tables keeps_owner [OF k])
qed

lemma close_inv:
  assumes "sched_inv nt s" and i: "sched_run_at s i = Some run" "\<forall>r \<in> set (sd_tasks s). sk_run_id r = i \<longrightarrow> \<not> task_active r"
    "\<forall>e \<in> set (sd_effects s). sf_run_id e = i \<longrightarrow> \<not> effect_unsettled e" and "sn_run_id run' = sn_run_id run"
  shows "sched_inv nt (put_sched_run run' s)" (is "sched_inv nt ?t")
proof -
  have run: "sn_run_id run = i" using row_at_Some [OF i(1) [unfolded sched_run_at_def]] by simp
  have o: "effect_owner ?t f = effect_owner s f" for f by (rule same_tasks_owner) (simp add: put_sched_run_def)
  have k: "effect_worktree ?t f = effect_worktree s f" "effect_quiet nt ?t f = effect_quiet nt s f" "effect_reads nt ?t f = effect_reads nt s f"
    for f using effects_same_owner [OF o] by (simp_all add: put_sched_run_def)
  have w: "writer nt ?t r = writer nt s r" for r using coordinator_logical [of ?t s] by (simp add: writer_def put_sched_run_def)
  have cl: "candidate_closed ?t j = candidate_closed s j" if "j \<noteq> i" for j
    using that run assms(5) by (simp add: candidate_closed_def sched_run_at_def put_sched_run_def row_at_put)
  have "frozen nt ?t" unfolding frozen_def
  proof (intro allI impI)
    fix j assume j: "candidate_closed ?t j"
    show "(\<forall>r \<in> set (sd_tasks ?t). sk_run_id r = j \<longrightarrow> \<not> writer nt ?t r) \<and>
        (\<forall>e \<in> set (sd_effects ?t). sf_run_id e = j \<and> effect_unsettled e \<longrightarrow> effect_reads nt ?t e)"
    proof (cases "j = i")
      case True
      with i(2,3) show ?thesis by (auto simp: put_sched_run_def writer_def)
    next
      case False
      with cl j assms(1) show ?thesis by (simp add: sched_inv_def frozen_def w k) (simp add: put_sched_run_def)
    qed
  qed
  then show ?thesis using assms(1)
    by (simp add: sched_inv_def sched_ids_def rows_shaped_def writers_apart_def effects_owned_def exclusive_first_def w k o)
      (simp add: put_sched_run_def)
qed

theorem move_inv: "move nt l s t \<Longrightarrow> sched_inv nt s \<Longrightarrow> sched_inv nt t"
proof (induction rule: move.induct)
  case (Grant r s a now p e)
  then show ?case by (intro grant_inv) (simp_all add: row_contract_def row_shape_held)
next
  case (Admit s e l)
  then show ?case by (intro admit_inv) auto
next
  case (Admit_quiet s e l)
  then show ?case by (intro admit_inv) auto
next
  case (Close s i run l)
  then show ?case by (intro close_inv) auto
qed (auto intro: row_inv expire_inv enqueue_inv settle_inv other_inv)

section \<open>Leases under moves\<close>

text \<open>The lease of a task, whatever stop is requested of it.\<close>

definition unflagged :: "sched_task \<Rightarrow> sched_task" where
  "unflagged r = r\<lparr> sk_pause_requested := False, sk_cancel_requested := False \<rparr>"

definition task_row :: "sched_db \<Rightarrow> uuid \<Rightarrow> sched_task option" where
  "task_row db i = map_option unflagged (sched_task_at db i)"

definition task_holder :: "sched_task \<Rightarrow> (string \<times> int) option" where
  "task_holder r = (if sk_state r = ''leased'' then (case (sk_lease_owner r, sk_lease_expires_at r) of
     (Some a, Some e) \<Rightarrow> Some (a, e) | _ \<Rightarrow> None) else None)"

lemma task_at_put: "sched_task_at (put_task r' s) i = (if i = sk_id r' \<and> sched_task_at s i \<noteq> None then Some r' else sched_task_at s i)"
  by (auto simp: sched_task_at_def put_task_def row_at_put row_at_None)

lemma task_at_in: "sched_ids s \<Longrightarrow> r \<in> set (sd_tasks s) \<Longrightarrow> sched_task_at s (sk_id r) = Some r"
  by (simp add: sched_task_at_def sched_ids_def row_at_in)

lemma task_at_mem: "sched_task_at s i = Some r \<Longrightarrow> r \<in> set (sd_tasks s) \<and> sk_id r = i"
  unfolding sched_task_at_def by (rule row_at_Some)

lemma task_at_map: "(\<And>r. sk_id (f r) = sk_id r) \<Longrightarrow> sched_task_at (s\<lparr> sd_tasks := map f (sd_tasks s) \<rparr>) i = map_option f (sched_task_at s i)"
proof -
  assume a: "\<And>r. sk_id (f r) = sk_id r"
  have "row_at sk_id i (map f rs) = map_option f (row_at sk_id i rs)" for rs by (induction rs) (auto simp: row_at_def a)
  then show ?thesis by (simp add: sched_task_at_def)
qed

text \<open>What a move makes of one row.\<close>

inductive row_step :: "lease_label \<Rightarrow> sched_task \<Rightarrow> sched_task \<Rightarrow> bool" where
  stay: "row_step l r r"
| change: "task_change l r r' \<Longrightarrow> row_step l r r'"
| expire: "lease_expired now r \<Longrightarrow> row_step (a, now) r (r\<lparr> sk_state := ''reconciling'' \<rparr>)"
| grant: "claimable r \<Longrightarrow> row_step (Some a, now) r (r\<lparr> sk_provider := p, sk_state := ''leased'', sk_lease_owner := Some a,
      sk_lease_generation := sk_lease_generation r + 1, sk_lease_expires_at := Some e \<rparr>)"

lemma move_row_step: "move nt l s t \<Longrightarrow> sched_ids s \<Longrightarrow> sched_task_at s i = Some q \<Longrightarrow> \<exists>q'. sched_task_at t i = Some q' \<and> row_step l q q'"
proof (induction rule: move.induct)
  case (Row r s l r')
  then have "sk_id r' = sk_id r" using task_change_contract row_contract_fields by blast
  with Row task_at_in [of s r] show ?case by (auto simp: task_at_put intro: row_step.intros)
next
  case (Expire P now a s)
  then show ?case by (subst task_at_map) (auto intro: row_step.intros)
next
  case (Enqueue s r l)
  then show ?case by (auto simp: sched_task_at_def row_at_append intro: row_step.intros)
next
  case (Grant r s a now p e)
  with task_at_in [of s r] show ?case by (auto simp: task_at_put intro: row_step.intros)
next
  case (Other s t l)
  then show ?case by (auto simp: keeps_def sched_task_at_def intro: row_step.intros)
qed (auto simp: sched_task_at_def put_effect_def put_sched_run_def intro: row_step.intros)

lemma row_step_fence: "row_step l r r' \<Longrightarrow> task_holder r = Some (b, e) \<Longrightarrow> snd l < e \<Longrightarrow> fst l \<noteq> Some b \<Longrightarrow>
    unflagged r' = unflagged r"
proof (induction rule: row_step.induct)
  case (change l r r')
  then show ?case
  proof (induction rule: task_change.induct)
    case (flag r p c l)
    show ?case by (simp add: unflagged_def)
  qed (auto simp: task_holder_def holds_lease_def split: option.splits)
qed (auto simp: task_holder_def lease_expired_def claimable_def split: option.splits)

lemma row_step_generation: "row_step l r r' \<Longrightarrow> sk_lease_generation r < sk_lease_generation r' \<or>
    sk_lease_generation r' = sk_lease_generation r \<and> sk_lease_owner r' \<in> {None, sk_lease_owner r}"
  by (auto elim!: row_step.cases task_change.cases)

lemma row_step_terminal: "row_step l r r' \<Longrightarrow> sk_state r = ''terminal'' \<Longrightarrow>
    sk_state r' = ''terminal'' \<and> sk_lease_generation r' = sk_lease_generation r \<and> sk_repairs r' = sk_repairs r"
  by (auto elim!: row_step.cases task_change.cases simp: holds_lease_def lease_expired_def claimable_def)

section \<open>Calls are sequences of moves\<close>

abbreviation moves :: "bool \<Rightarrow> lease_label \<Rightarrow> sched_db \<Rightarrow> sched_db \<Rightarrow> bool" where
  "moves nt l \<equiv> (move nt l)\<^sup>*\<^sup>*"

lemma move_ids: "move nt l s t \<Longrightarrow> sched_ids s \<Longrightarrow> sched_ids t"
proof (induction rule: move.induct)
  case (Row r s l r')
  then show ?case using rewriting_keep(1) [OF put_task_rewriting [OF _ Row(1) task_change_contract [OF Row(2)]]] by blast
next
  case (Expire P now a s)
  show ?case by (rule rewriting_keep(1) [OF expire_rewriting Expire(2)])
next
  case (Enqueue s r l)
  then show ?case by (auto simp: sched_ids_def sched_task_at_def row_at_None)
next
  case (Grant r s a now p e)
  show ?case by (rule rewriting_keep(1) [OF put_task_rewriting [OF Grant(5,1)] Grant(5)]) (simp add: row_contract_def)
next
  case (Settle e s st l)
  have "map sf_id (put_row sf_id (e\<lparr> sf_state := st \<rparr>) (sd_effects s)) = map sf_id (sd_effects s)" by (rule map_put_row) simp
  with Settle show ?case by (simp add: sched_ids_def put_effect_def)
qed (auto simp: sched_ids_def effect_at_def row_at_None put_sched_run_def keeps_def)

lemma moves_ids: "moves nt l s t \<Longrightarrow> sched_ids s \<Longrightarrow> sched_ids t"
  by (induction rule: rtranclp_induct) (auto intro: move_ids)

lemma moves_row:
  assumes "moves nt l s t" and "r \<in> set (sd_tasks t)" and "task_change l r r'"
  shows "moves nt l s (put_task r' t)"
  by (rule rtranclp.rtrancl_into_rtrancl [OF assms(1) move.Row [OF assms(2,3)]])

lemma keeps_logical:
  assumes "logical_at s i = Some l" and "lg_id l' = lg_id l" "lg_run_id l' = lg_run_id l" "lg_task_id l' = lg_task_id l"
    "lg_parent_task_id l' = lg_parent_task_id l"
    and "\<And>c. lg_contract l = Some c \<Longrightarrow> lt_purpose c = PRIMARY \<Longrightarrow> lg_contract l' = lg_contract l"
  shows "keeps nt s (put_logical l' s)"
proof -
  have i: "lg_id l = i" "l \<in> set (sd_logical s)" using row_at_Some [OF assms(1) [unfolded logical_at_def]] by auto
  have at: "logical_at (put_logical l' s) j = (if j = i then Some l' else logical_at s j)" for j
    using i assms(2) by (auto simp: logical_at_def put_logical_def row_at_put)
  have "is_coordinator nt s r \<Longrightarrow> is_coordinator nt (put_logical l' s) r" for r
    using assms by (auto simp: is_coordinator_def at split: option.splits if_splits)
  then show ?thesis by (simp add: keeps_def) (simp add: put_logical_def bound_read_def read_binding_def candidate_closed_def sched_run_at_def)
qed

lemma keeps_refl: "keeps nt s s"
  by (simp add: keeps_def)

lemma keeps_run:
  assumes "sched_run_at s i = Some run" and "sn_run_id run' = sn_run_id run"
    and "sn_candidate_state run' = ''closed'' \<Longrightarrow> sn_candidate_state run = ''closed''"
  shows "keeps nt s (put_sched_run run' s)"
proof -
  have i: "sn_run_id run = i" using row_at_Some [OF assms(1) [unfolded sched_run_at_def]] by simp
  have "candidate_closed (put_sched_run run' s) j \<Longrightarrow> candidate_closed s j" for j
    using assms i by (auto simp: candidate_closed_def sched_run_at_def put_sched_run_def row_at_put split: if_splits)
  then show ?thesis by (simp add: keeps_def) (simp add: put_sched_run_def bound_read_def read_binding_def is_coordinator_def logical_at_def)
qed

lemma leased_task_holds:
  assumes "leased_task w db lease = Inr r"
  shows "r \<in> set (sd_tasks db)" "holds_lease (tl_owner lease) (sw_now w) r" "sk_run_id r = tl_run_id lease" "sk_task_id r = tl_task_id lease"
  using assms by (auto simp: leased_task_def holds_lease_def find_Some_iff split: option.splits if_splits)

lemma wake_parent_moves:
  assumes "parent \<in> set (sd_tasks db)" and "sk_state parent = ''blocked''"
  shows "moves nt l db (wake_parent parent db)"
proof -
  let ?db = "put_task (parent\<lparr> sk_state := ''queued'' \<rparr>) db"
  have m: "moves nt l db ?db" by (rule moves_row [OF rtranclp.rtrancl_refl assms(1) task_change.shift]) (use assms(2) in simp_all)
  have "keeps nt ?db (put_logical (r\<lparr> lg_state := ''queued'', lg_version := lg_version r + 1 \<rparr>) ?db)" if "logical_at ?db i = Some r" for i r
    by (rule keeps_logical [OF that]) simp_all
  then show ?thesis using m
    by (auto simp: wake_parent_def Let_def split: option.splits intro: rtranclp.rtrancl_into_rtrancl move.Other)
qed

lemma filter_key_single: "distinct (map key xs) \<Longrightarrow> (\<And>x. P x \<Longrightarrow> key x = k) \<Longrightarrow> filter P xs = [] \<or> (\<exists>x. filter P xs = [x])"
proof (induction xs)
  case (Cons y ys)
  have "filter P ys = []" if "P y" using Cons.prems that by (fastforce simp: filter_empty_conv)
  with Cons show ?case by auto
qed simp

lemma wake_ready_parents_moves:
  assumes "sched_ids db"
  shows "moves nt l db (wake_ready_parents w db child scope_request)"
proof (cases "sk_parent_task_id child")
  case (Some p)
  let ?P = "\<lambda>r. sk_run_id r = sk_run_id child \<and> sk_task_id r = p \<and> sk_state r = ''blocked''"
  have "distinct (map sk_task_id (sd_tasks db))" using assms by (simp add: sched_ids_def cong: map_cong)
  from filter_key_single [OF this, of ?P p] consider "filter ?P (sd_tasks db) = []" | x where "filter ?P (sd_tasks db) = [x]" by auto
  then show ?thesis
  proof cases
    case (2 x)
    then have "x \<in> set (sd_tasks db)" "sk_state x = ''blocked''" using filter_eq_Cons_iff [of ?P "sd_tasks db" x "[]"] by auto
    with wake_parent_moves [of x db nt l] 2 Some show ?thesis by (simp add: wake_ready_parents_def)
  qed (simp add: wake_ready_parents_def Some)
qed (simp add: wake_ready_parents_def)

lemma put_task_ids: "sched_ids db \<Longrightarrow> r \<in> set (sd_tasks db) \<Longrightarrow> task_change l r r' \<Longrightarrow> sched_ids (put_task r' db)"
  by (rule move_ids [OF move.Row])

lemma put_task_mem: "r \<in> set (sd_tasks db) \<Longrightarrow> sk_id r' = sk_id r \<Longrightarrow> r' \<in> set (sd_tasks (put_task r' db))"
  by (force simp: put_task_def put_row_def)

lemma put_task_twice: "sk_id r' = sk_id r \<Longrightarrow> put_task r' (put_task r db) = put_task r' db"
  by (auto simp: put_task_def put_row_def)

lemma release_put: "release_task w (put_task r db) r terminal = release_task w db r terminal"
  by (simp add: release_task_def put_task_twice)

lemma release_task_moves:
  assumes "sched_ids db" and "moves nt l s db" and "r \<in> set (sd_tasks db)"
    and "task_change l r (r\<lparr> sk_state := (if terminal then ''terminal'' else ''queued''), sk_lease_owner := None, sk_lease_expires_at := None \<rparr>)"
  shows "moves nt l s (release_task w db r terminal)"
  using moves_row [OF assms(2-4)] wake_ready_parents_moves [OF put_task_ids [OF assms(1,3,4)], where nt = nt and l = l]
  by (auto simp: release_task_def Let_def intro: rtranclp_trans)

lemma schedule_enqueue_moves: "schedule_enqueue w db t = Inr db' \<Longrightarrow> moves nt l db db'"
  by (auto simp: schedule_enqueue_def Let_def queued_task_def split: option.splits if_splits intro!: r_into_rtranclp move.Enqueue)

lemma enqueue_children_moves: "enqueue_children w lease db children = Inr db' \<Longrightarrow> moves nt l db db' \<and> set (sd_tasks db) \<subseteq> set (sd_tasks db')"
proof (induction children arbitrary: db)
  case (Cons child rest)
  then obtain db1 where db1: "schedule_enqueue w db child = Inr db1" "enqueue_children w lease db1 rest = Inr db'"
    by (auto simp: ebind_Inr split: if_splits)
  have "set (sd_tasks db) \<subseteq> set (sd_tasks db1)" using db1(1) by (auto simp: schedule_enqueue_def Let_def split: option.splits if_splits)
  with Cons.IH [OF db1(2)] schedule_enqueue_moves [OF db1(1)] show ?case by (meson order_trans rtranclp_trans)
qed simp

lemma yield_moves:
  assumes "sched_ids db" and "yield_to_children w db lease children = Inr db'"
  shows "moves nt (Some (tl_owner lease), sw_now w) db db'"
proof -
  from assms(2) obtain parent db1 where p: "leased_task w db lease = Inr parent" "enqueue_children w lease db children = Inr db1"
    "db' = put_task (parent\<lparr> sk_state := ''blocked'', sk_lease_owner := None, sk_lease_expires_at := None \<rparr>) db1"
    by (auto simp: yield_to_children_def ebind_Inr split: if_splits)
  from enqueue_children_moves [OF p(2)] leased_task_holds(1) [OF p(1)] show ?thesis
    unfolding p(3) by (intro moves_row [OF _ _ task_change.give_up [OF leased_task_holds(2) [OF p(1)]]]) auto
qed

lemma finish_moves:
  assumes "sched_ids db" and "finish w db lease successful allow_repair = Inr db'"
  shows "moves nt (Some (tl_owner lease), sw_now w) db db'" (is "moves nt ?l db db'")
proof -
  from assms(2) obtain r where r: "leased_task w db lease = Inr r" and
    db': "db' = release_task w db r True \<or> sk_repairs r < sk_max_repairs r \<and> db' = release_task w db (r\<lparr> sk_repairs := sk_repairs r + 1 \<rparr>) False"
    by (auto simp: finish_def ebind_Inr split: if_splits option.splits)
  note h = leased_task_holds(1,2) [OF r]
  from db' show ?thesis
  proof
    assume "db' = release_task w db r True"
    then show ?thesis by (simp add: release_task_moves [OF assms(1) rtranclp.rtrancl_refl h(1)] task_change.give_up [OF h(2)])
  next
    let ?r = "r\<lparr> sk_repairs := sk_repairs r + 1 \<rparr>"
    assume db': "sk_repairs r < sk_max_repairs r \<and> db' = release_task w db ?r False"
    then have c: "task_change ?l r ?r" by (intro task_change.repair h(2)) simp
    have h': "holds_lease (tl_owner lease) (sw_now w) ?r" using h(2) by (simp add: holds_lease_def)
    have "moves nt ?l db (release_task w (put_task ?r db) ?r False)"
      by (rule release_task_moves [OF put_task_ids [OF assms(1) h(1) c] moves_row [OF rtranclp.rtrancl_refl h(1) c] put_task_mem [OF h(1)]])
        (use task_change.give_up [OF h'] in simp_all)
    with db' show ?thesis by (simp add: release_put)
  qed
qed

lemma defer_quota_moves:
  assumes "sched_ids db" and "defer_quota w db lease = Inr db'"
  shows "moves nt (Some (tl_owner lease), sw_now w) db db'"
proof -
  from assms(2) obtain r where r: "leased_task w db lease = Inr r" "db' = release_task w db r False"
    by (auto simp: defer_quota_def ebind_Inr split: if_splits option.splits)
  from leased_task_holds(1,2) [OF r(1)] show ?thesis
    unfolding r(2) by (intro release_task_moves [OF assms(1)] rtranclp.rtrancl_refl) (simp_all add: task_change.give_up)
qed

lemma renew_moves:
  assumes "schedule_renew w db lease lease_for = Inr (lease', db')"
  shows "moves nt (Some (tl_owner lease), sw_now w) db db'"
proof -
  from assms obtain r e where r: "leased_task w db lease = Inr r" "db' = put_task (r\<lparr> sk_lease_expires_at := Some e \<rparr>) db"
    by (auto simp: schedule_renew_def Let_def ebind_Inr split: if_splits option.splits)
  show ?thesis
    unfolding r(2) by (rule moves_row [OF rtranclp.rtrancl_refl leased_task_holds(1) [OF r(1)] task_change.extend [OF leased_task_holds(2) [OF r(1)]]])
qed

lemma reconcile_expired_moves:
  assumes "sched_ids db" and "reconcile_expired w db run_id task_id retry = Inr db'"
  shows "moves nt l db db'"
proof -
  from assms(2) obtain r where r: "sched_task_at db task_id = Some r" "sk_state r = ''reconciling''" "db' = release_task w db r (\<not> retry \<or> sk_cancel_requested r)"
    by (auto simp: reconcile_expired_def split: if_splits option.splits)
  from task_at_mem [OF r(1)] r(2) show ?thesis
    unfolding r(3) by (intro release_task_moves [OF assms(1)] rtranclp.rtrancl_refl) (simp_all add: task_change.recover)
qed

lemma request_stop_moves:
  assumes "sched_ids db" and "request_stop w db run_id task_id cancel = Inr db'"
  shows "moves nt l db db'"
proof -
  from assms(2) obtain r r' where r: "sched_task_at db task_id = Some r" and
    r': "r' = (if cancel then r\<lparr> sk_cancel_requested := True \<rparr> else r\<lparr> sk_pause_requested := True \<rparr>)" and
    db': "db' = (if sk_state r \<in> {''queued'', ''blocked''} then release_task w db r' True else put_task r' db)"
    by (auto simp: request_stop_def Let_def split: if_splits option.splits)
  note m = task_at_mem [OF r, THEN conjunct1]
  have c: "task_change l r r'"
  proof (cases cancel)
    case True
    with task_change.flag [of r "sk_pause_requested r" True l] show ?thesis by (simp add: r')
  next
    case False
    with task_change.flag [of r True "sk_cancel_requested r" l] show ?thesis by (simp add: r')
  qed
  have "moves nt l db (release_task w (put_task r' db) r' True)" if "sk_state r \<in> {''queued'', ''blocked''}"
  proof (rule release_task_moves [OF put_task_ids [OF assms(1) m c] moves_row [OF rtranclp.rtrancl_refl m c] put_task_mem [OF m]])
    show "sk_id r' = sk_id r" by (simp add: r')
    from that have "sk_state r' \<in> {''queued'', ''blocked''}" by (simp add: r' split: if_splits)
    from task_change.retire [OF this] show "task_change l r' (r'\<lparr> sk_state := if True then ''terminal'' else ''queued'', sk_lease_owner := None,
      sk_lease_expires_at := None \<rparr>)" by simp
  qed
  then show ?thesis using moves_row [OF rtranclp.rtrancl_refl m c] db' by (auto simp: release_put split: if_splits)
qed

lemma wake_scope_moves: "sched_ids db \<Longrightarrow> wake_parent_for_scope_request w db run_id task_id = Inr db' \<Longrightarrow> moves nt l db db'"
  by (auto simp: wake_parent_for_scope_request_def wake_ready_parents_moves split: option.splits)

lemma barrier_clear:
  assumes "\<not> has_exclusive_effect_barrier w db r" and "f \<in> set (sd_effects db)" and "open_exclusive f"
  shows "effect_worktree db f \<noteq> Some (sk_worktree_id r)"
  using assms by (auto simp: has_exclusive_effect_barrier_def open_exclusive_def effect_worktree_def)

lemma is_bound_read_binding: "is_bound_read w db i r a g False \<longleftrightarrow> read_binding db i r a g \<noteq> None"
  by (simp add: is_bound_read_def split: option.splits)

lemma effect_read_binding: "effect_read w db lease r i \<longleftrightarrow> (is_coordinator (sw_nt w) db r \<or> sk_read_only r) \<and>
    bound_read db (admitted_effect lease run i ex) r"
  by (simp add: effect_read_def is_bound_read_binding bound_read_def admitted_effect_def)

lemma effect_refused_None:
  assumes "effect_refused w db lease r run i ex = None" and "effect_at db i = None"
  shows "\<not> sk_read_only r \<and> \<not> effect_read w db lease r i \<or> ex \<Longrightarrow> \<not> has_exclusive_effect_barrier w db r"
    "sn_candidate_state run = ''closed'' \<Longrightarrow> effect_read w db lease r i" "sn_candidate_state run \<in> {''open'', ''closed''}"
  using assms by (auto simp: effect_refused_def Let_def split: if_splits)

lemma admit_effect_success:
  assumes "admit_effect w db lease effect_id owned_paths requested_exclusive expected_epoch = Inr (x, db')"
  obtains r run ex where "leased_task w db lease = Inr r" "sched_run_at db (tl_run_id lease) = Some run"
    "effect_refused w db lease r run effect_id ex = None" "\<not> paths_exceed w r owned_paths"
    "db' = (if effect_at db effect_id = None then db\<lparr> sd_effects := sd_effects db @ [admitted_effect lease run effect_id ex] \<rparr> else db)"
proof -
  from assms obtain r where r: "leased_task w db lease = Inr r" by (auto simp: admit_effect_def ebind_Inr split: option.splits if_splits)
  with assms obtain run where run: "sched_run_at db (tl_run_id lease) = Some run" by (auto simp: admit_effect_def split: option.splits if_splits)
  let ?ex = "effect_exclusive w db lease r effect_id requested_exclusive"
  from assms have g: "effect_refused w db lease r run effect_id ?ex = None \<and> \<not> paths_exceed w r owned_paths"
    by (simp add: admit_effect_def r run Let_def split: option.splits if_splits)
  with assms have "db' = (if effect_at db effect_id = None then db\<lparr> sd_effects := sd_effects db @ [admitted_effect lease run effect_id ?ex] \<rparr> else db)"
    by (simp add: admit_effect_def r run Let_def split: option.splits if_splits sum.splits)
  with g r run that show ?thesis by blast
qed

lemma admit_effect_moves:
  assumes "admit_effect w db lease effect_id owned_paths requested_exclusive expected_epoch = Inr (x, db')"
  shows "moves (sw_nt w) l db db'"
proof -
  from assms obtain r run ex where r: "leased_task w db lease = Inr r" "sched_run_at db (tl_run_id lease) = Some run"
    "effect_refused w db lease r run effect_id ex = None"
    and db': "db' = (if effect_at db effect_id = None then db\<lparr> sd_effects := sd_effects db @ [admitted_effect lease run effect_id ex] \<rparr> else db)"
    by (rule admit_effect_success)
  show ?thesis
  proof (cases "effect_at db effect_id")
    case None
    let ?e = "admitted_effect lease run effect_id ex"
    have e: "effect_at db (sf_id ?e) = None" "db' = db\<lparr> sd_effects := sd_effects db @ [?e] \<rparr>" using None db' by (auto simp: admitted_effect_def)
    note g = effect_refused_None [OF r(3) None]
    have o: "effect_owner db ?e = Some r"
      using r(1) by (auto simp: effect_owner_def leased_task_def admitted_effect_def split: option.splits if_splits)
    have run: "candidate_closed db (sf_run_id ?e) \<longleftrightarrow> sn_candidate_state run = ''closed''"
      by (simp add: candidate_closed_def r(2) admitted_effect_def)
    have c: "\<not> candidate_closed db (sf_run_id ?e) \<or> effect_reads (sw_nt w) db ?e"
      using g(2) unfolding run effect_reads_def o effect_read_binding [of w db lease r effect_id run ex] by auto
    have "move (sw_nt w) l db db'"
    proof (cases "\<not> sk_read_only r \<and> \<not> effect_read w db lease r effect_id \<or> ex")
      case True
      show ?thesis unfolding e(2)
        by (rule move.Admit [OF e(1) _ _ c]) (use barrier_clear [OF g(1) [OF True]] o in \<open>auto simp: effect_worktree_def\<close>)
    next
      case False
      show ?thesis unfolding e(2)
      proof (rule move.Admit_quiet [OF e(1) _ _ _ c])
        show "effect_quiet (sw_nt w) db ?e"
          using False unfolding effect_quiet_def o effect_read_binding [of w db lease r effect_id run ex] by auto
      qed (use False o in \<open>auto simp: admitted_effect_def\<close>)
    qed
    then show ?thesis ..
  qed (use db' in simp)
qed

lemma fenced_effect_mem: "fenced_effect db effect b = Inr e \<Longrightarrow> e \<in> set (sd_effects db) \<and> (b \<longrightarrow> sf_state e = ''admitted'')"
  by (auto simp: fenced_effect_def Let_def effect_at_def dest: row_at_Some split: option.splits if_splits)

lemma settle_effect_moves: "settle_effect w db effect accepted = Inr (ok, db') \<Longrightarrow> moves nt l db db'"
  by (auto simp: settle_effect_def Let_def ebind_Inr effect_unsettled_def dest!: fenced_effect_mem intro!: r_into_rtranclp move.Settle)

lemma reconcile_effect_moves:
  assumes "reconcile_effect db effect = Inr db'"
  shows "moves nt l db db'"
proof -
  from assms obtain e where e: "fenced_effect db effect False = Inr e"
    and db': "db' = (if sf_state e = ''admitted'' then put_effect (e\<lparr> sf_state := ''reconciling'' \<rparr>) db else db)"
    by (auto simp: reconcile_effect_def ebind_Inr)
  have "move nt l db (put_effect (e\<lparr> sf_state := ''reconciling'' \<rparr>) db)" if "sf_state e = ''admitted''"
    by (rule move.Settle) (use that fenced_effect_mem [OF e] in \<open>simp_all add: effect_unsettled_def\<close>)
  then show ?thesis by (auto simp: db')
qed

lemma begin_candidate_moves: "begin_candidate db run_id = Inr (epoch, db') \<Longrightarrow> moves nt l db db'"
  by (auto simp: begin_candidate_def split: option.splits if_splits intro!: r_into_rtranclp move.Other keeps_run)

lemma close_candidate_moves: "close_candidate db run_id epoch = Inr db' \<Longrightarrow> moves nt l db db'"
  by (auto simp: close_candidate_def split: option.splits if_splits intro!: r_into_rtranclp move.Close)

section \<open>Claims\<close>

lemma mark_expired_moves: "moves nt (a, sw_now w) db (mark_expired w args db)"
  unfolding mark_expired_def Let_def by (intro r_into_rtranclp move.Expire) simp

lemma block_stale_moves:
  assumes "block_stale_queued_contract db r = Inr db'" and "r \<in> set (sd_tasks db)" and "sk_state r = ''queued''"
  shows "moves nt l db db'"
proof -
  from assms(1) obtain lg where lg: "logical_at db (sk_task_id r) = Some lg" and
    db': "db' = put_logical (lg\<lparr> lg_state := ''blocked'', lg_version := lg_version lg + 1 \<rparr>) (put_task (r\<lparr> sk_state := ''blocked'' \<rparr>) db)"
    using assms(3) by (auto simp: block_stale_queued_contract_def split: option.splits if_splits)
  let ?db = "put_task (r\<lparr> sk_state := ''blocked'' \<rparr>) db"
  have "moves nt l db ?db" by (rule moves_row [OF rtranclp.rtrancl_refl assms(2) task_change.shift]) (use assms(3) in simp_all)
  moreover have "move nt l ?db db'" unfolding db'
  proof (rule move.Other, rule keeps_logical)
    show "logical_at ?db (sk_task_id r) = Some lg" using lg by (simp add: logical_at_def put_task_def)
  qed simp_all
  ultimately show ?thesis by (rule rtranclp.rtrancl_into_rtrancl)
qed

lemma claim_current_Some:
  assumes "claim_current w db candidate = Some (run, r)"
  shows "r \<in> set (sd_tasks db)" "claimable r" "sched_run_at db (sk_run_id candidate) = Some run" "sk_id r = sk_id candidate"
    "sn_admitted run" "sn_candidate_state run = ''open'' \<or> sn_candidate_state run = ''closed'' \<and> can_read_candidate (sw_nt w) db r"
    "sd_runs db (sk_run_id candidate) \<noteq> None" "\<not> usage_checkpoint_active db (sk_run_id candidate)"
  using assms by (auto simp: claim_current_def dest: task_at_mem split: option.splits if_splits)

text \<open>What holds of the task that a scan selects, in the state in which it is selected.\<close>

definition selected :: "sched_world \<Rightarrow> claim_args \<Rightarrow> int \<Rightarrow> sched_db \<Rightarrow> sched_task \<Rightarrow> sched_task \<Rightarrow> route_binding option \<Rightarrow> bool" where
  "selected w a n db candidate r route = (\<exists>run. claim_current w db candidate = Some (run, r) \<and> claim_admits w db n run r route \<and>
     (if cl_fresh_attempt a then admit_attempt w a db r = Inr (Adm_task route) else route = None))"

lemma claim_scan_selects:
  assumes "claim_scan w a n db candidates = Inr (found, db')"
  shows "moves nt l db db' \<and> (case found of None \<Rightarrow> True | Some (r, route) \<Rightarrow> \<exists>candidate \<in> set candidates. selected w a n db' candidate r route)"
  using assms
proof (induction w a n db candidates rule: claim_scan.induct)
  case (2 w a n db candidate rest)
  show ?case
  proof (cases "claim_current w db candidate")
    case None
    with "2.IH"(1) "2.prems" show ?thesis by (auto split: option.splits)
  next
    case (Some x)
    then obtain run r where x: "claim_current w db candidate = Some (run, r)" by (cases x) simp
    with "2.prems" obtain admission where ad: "(if cl_fresh_attempt a then admit_attempt w a db r else Inr (Adm_task None)) = Inr admission"
      by (auto simp: ebind_Inr)
    show ?thesis
    proof (cases admission)
      case Adm_skip
      with "2.IH"(2) [OF x refl ad] "2.prems" x ad show ?thesis by (auto split: option.splits)
    next
      case Adm_block
      with "2.prems" x ad obtain db1 where b: "block_stale_queued_contract db r = Inr db1" "claim_scan w a n db1 rest = Inr (found, db')"
        by (auto simp: ebind_Inr)
      have "moves nt l db db1" by (rule block_stale_moves [OF b(1)]) (use claim_current_Some [OF x] in \<open>simp_all add: claimable_def\<close>)
      with "2.IH"(3) [OF x refl ad Adm_block b(1) b(2)] show ?thesis by (auto split: option.splits intro: rtranclp_trans)
    next
      case (Adm_task route)
      show ?thesis
      proof (cases "claim_admits w db n run r route")
        case True
        with "2.prems" x ad Adm_task have "found = Some (r, route)" "db' = db" by auto
        moreover have "selected w a n db candidate r route"
          using x ad Adm_task True by (auto simp: selected_def split: if_splits)
        ultimately show ?thesis by auto
      next
        case False
        with "2.IH"(4) [OF x refl ad Adm_task False] "2.prems" x ad Adm_task show ?thesis by (auto split: option.splits)
      qed
    qed
  qed
qed simp

lemma route_for_primary: "route_for_task w db routes c = Inr (Some b) \<Longrightarrow> lt_purpose c = PRIMARY \<Longrightarrow> b = lt_route c"
  by (auto simp: route_for_task_def Let_def split: if_splits)

lemma admit_attempt_route:
  assumes "admit_attempt w a db r = Inr (Adm_task route)"
  obtains l c b where "logical_at db (sk_task_id r) = Some l" "lg_contract l = Some c" "route = Some b"
    "route_for_task w db (cl_eligible_routes a) c = Inr (Some b)" "lg_state l = ''queued''" "\<not> attempt_unsettled db r" "\<not> effect_pending db r"
  using assms by (auto simp: admit_attempt_def Let_def split: option.splits if_splits sum.splits)

lemma bind_route_keeps:
  assumes "selected w a n db candidate r route" and "bind_route w db r route = Inr (r', db')"
  shows "keeps nt db db'" "r' = r\<lparr> sk_provider := (case route of None \<Rightarrow> sk_provider r | Some b \<Rightarrow> sk_provider r') \<rparr>"
proof -
  have "keeps nt db db' \<and> r' = r\<lparr> sk_provider := (case route of None \<Rightarrow> sk_provider r | Some b \<Rightarrow> sk_provider r') \<rparr>"
  proof (cases "cl_fresh_attempt a")
    case True
    with assms(1) have "admit_attempt w a db r = Inr (Adm_task route)" by (auto simp: selected_def)
    then obtain l c b where l: "logical_at db (sk_task_id r) = Some l" "lg_contract l = Some c" "route = Some b"
      "route_for_task w db (cl_eligible_routes a) c = Inr (Some b)" by (rule admit_attempt_route)
    show ?thesis
    proof (cases "lt_route c = b")
      case False
      with assms(2) l obtain c' where "r' = r\<lparr> sk_provider := route_provider (rb_effective b) \<rparr>"
        "db' = put_logical (l\<lparr> lg_contract := Some c', lg_version := lg_version l + 1 \<rparr>) db"
        by (auto simp: bind_route_def split: sum.splits)
      moreover from False l(4) have "lt_purpose c \<noteq> PRIMARY" using route_for_primary by blast
      ultimately show ?thesis using keeps_logical [OF l(1), where l' = "l\<lparr> lg_contract := Some c', lg_version := lg_version l + 1 \<rparr>"] l(2,3) by simp
    qed (use assms(2) l in \<open>simp add: bind_route_def keeps_refl\<close>)
  next
    case False
    with assms(1) have "route = None" by (auto simp: selected_def)
    with assms(2) show ?thesis by (simp add: bind_route_def keeps_refl split: option.splits)
  qed
  then show "keeps nt db db'" "r' = r\<lparr> sk_provider := (case route of None \<Rightarrow> sk_provider r | Some b \<Rightarrow> sk_provider r') \<rparr>" by blast+
qed

lemma deliver_claim_Inr:
  assumes "deliver_claim w a db r route = Inr (lease, db')"
  obtains r' db1 where "bind_route w db r route = Inr (r', db1)"
    "db' = (case sched_run_at (put_task (claimed_task w a r') db1) (sk_run_id r') of None \<Rightarrow> put_task (claimed_task w a r') db1
       | Some run \<Rightarrow> put_sched_run (run\<lparr> sn_last_claimed_at := Some (sw_now w) \<rparr>) (put_task (claimed_task w a r') db1))"
    "lease = \<lparr> tl_run_id = sk_run_id r', tl_task_id = sk_task_id r', tl_owner = cl_owner a,
       tl_generation = sk_lease_generation r' + 1, tl_expires_at = Aware (sw_now w + cl_lease_for a) \<rparr>"
proof -
  from assms obtain r' db1 where b: "bind_route w db r route = Inr (r', db1)" by (auto simp: deliver_claim_def ebind_Inr)
  show ?thesis by (rule that [OF b])
    (use assms in \<open>auto simp: deliver_claim_def b Let_def claimed_task_def task_lease_make_def raising_def split: sum.splits option.splits\<close>)
qed

lemma claim_ready_Inr:
  assumes "claim_ready w db a = Inr (found, db')"
  obtains "found = None" "db' = db"
  | "found = None" "claim_scan w a (active_count w (mark_expired w a db) (\<lambda>_. True)) (mark_expired w a db)
      (claim_candidates a (mark_expired w a db)) = Inr (None, db')"
  | lease r route db2 where "found = Some lease" "claim_scan w a (active_count w (mark_expired w a db) (\<lambda>_. True)) (mark_expired w a db)
      (claim_candidates a (mark_expired w a db)) = Inr (Some (r, route), db2)" "deliver_claim w a db2 r route = Inr (lease, db')"
  using assms by (auto simp: claim_ready_def Let_def ebind_Inr split: if_splits option.splits) (metis not_Some_eq surj_pair)

lemma moves_task_at:
  assumes "moves nt l s t" and "sched_ids s" and "sched_task_at s i = Some q"
  shows "\<exists>q'. sched_task_at t i = Some q' \<and> (row_step l)\<^sup>*\<^sup>* q q'"
  using assms(1)
proof (induction rule: rtranclp_induct)
  case (step u v)
  then obtain x where x: "sched_task_at u i = Some x" "(row_step l)\<^sup>*\<^sup>* q x" by blast
  from move_row_step [OF step.hyps(2) moves_ids [OF step.hyps(1) assms(2)] x(1)] x(2) show ?case by (meson rtranclp.rtrancl_into_rtrancl)
qed (use assms(3) in blast)

lemma row_step_contract: "row_step l r r' \<Longrightarrow> row_contract r' = row_contract r"
  by (induction rule: row_step.induct) (simp_all add: task_change_contract, simp_all add: row_contract_def)

lemma row_steps_contract: "(row_step l)\<^sup>*\<^sup>* r r' \<Longrightarrow> row_contract r' = row_contract r"
  by (induction rule: rtranclp_induct) (simp_all add: row_step_contract)

lemma claim_candidates_mem: "r \<in> set (claim_candidates a db) \<Longrightarrow> r \<in> set (sd_tasks db)"
  by (auto simp: claim_candidates_def)

lemma can_read_passive: "can_read_candidate nt db r \<Longrightarrow> sk_read_only r \<or> is_coordinator nt db r"
  by (auto simp: can_read_candidate_def split: option.splits)

lemma keeps_grant:
  assumes "keeps nt s t" and "r \<in> set (sd_tasks s)"
  shows "run_admits nt s r \<Longrightarrow> run_admits nt t r" "\<not> has_worktree_conflict nt s r \<Longrightarrow> \<not> has_worktree_conflict nt t r"
  using assms by (auto simp: keeps_def run_admits_def has_worktree_conflict_def)

lemma selected_run:
  assumes "sched_ids s" and "moves nt l s db" and "candidate \<in> set (sd_tasks s)" and "claim_current w db candidate = Some (run, r)"
  shows "sk_run_id r = sk_run_id candidate"
proof -
  from moves_task_at [OF assms(2,1) task_at_in [OF assms(1,3)]] obtain q where q: "sched_task_at db (sk_id candidate) = Some q"
    "(row_step l)\<^sup>*\<^sup>* candidate q" by blast
  have "sched_task_at db (sk_id candidate) = Some r" using assms(4) by (auto simp: claim_current_def split: option.splits if_splits)
  with q(1) have "q = r" by simp
  from row_contract_fields(2) [OF row_steps_contract [OF q(2)]] show ?thesis unfolding \<open>q = r\<close> .
qed

lemma claimed_task_grant:
  "r' = r\<lparr> sk_provider := p \<rparr> \<Longrightarrow> claimed_task w a r' = r\<lparr> sk_provider := p, sk_state := ''leased'', sk_lease_owner := Some (cl_owner a),
     sk_lease_generation := sk_lease_generation r + 1, sk_lease_expires_at := Some (sw_now w + cl_lease_for a) \<rparr>"
  by (simp add: claimed_task_def)

lemma deliver_claim_moves:
  assumes "selected w a n db candidate r route" and "sk_run_id r = sk_run_id candidate" and "deliver_claim w a db r route = Inr (lease, db')"
  shows "moves (sw_nt w) (Some (cl_owner a), sw_now w) db db'" (is "moves ?nt ?l db db'")
proof -
  from assms(3) obtain r' db1 where bind: "bind_route w db r route = Inr (r', db1)"
    and db': "db' = (case sched_run_at (put_task (claimed_task w a r') db1) (sk_run_id r') of None \<Rightarrow> put_task (claimed_task w a r') db1
       | Some run \<Rightarrow> put_sched_run (run\<lparr> sn_last_claimed_at := Some (sw_now w) \<rparr>) (put_task (claimed_task w a r') db1))"
    by (rule deliver_claim_Inr)
  from assms(1) obtain run where cur: "claim_current w db candidate = Some (run, r)" and adm: "claim_admits w db n run r route"
    by (auto simp: selected_def)
  note c = claim_current_Some [OF cur]
  note k = bind_route_keeps [OF assms(1) bind]
  have ra: "run_admits ?nt db r" using c(3,6) can_read_passive by (auto simp: run_admits_def candidate_closed_def assms(2))
  have nc: "\<not> has_worktree_conflict ?nt db r" using adm by (simp add: claim_admits_def)
  have r1: "r \<in> set (sd_tasks db1)" using c(1) k(1) by (simp add: keeps_def)
  have "move ?nt ?l db1 (put_task (claimed_task w a r') db1)"
    unfolding claimed_task_grant [OF k(2)] by (rule move.Grant [OF r1 c(2) keeps_grant(1) [OF k(1) c(1) ra] keeps_grant(2) [OF k(1) c(1) nc]])
  moreover have "keeps ?nt (put_task (claimed_task w a r') db1) db'"
    unfolding db' by (auto split: option.splits intro: keeps_run keeps_refl)
  ultimately have "moves ?nt ?l db1 db'" using move.Other by (meson r_into_rtranclp rtranclp_trans)
  with move.Other [OF k(1) [of ?nt], of ?l] show ?thesis by (rule converse_rtranclp_into_rtranclp)
qed

lemma claim_ready_moves:
  assumes "sched_ids db" and "claim_ready w db a = Inr (found, db')"
  shows "moves (sw_nt w) (Some (cl_owner a), sw_now w) db db'" (is "moves ?nt ?l db db'")
  using assms(2)
proof (cases rule: claim_ready_Inr)
  case 2
  from claim_scan_selects [OF 2(2)] mark_expired_moves show ?thesis by (meson rtranclp_trans)
next
  case (3 lease r route db2)
  let ?db1 = "mark_expired w a db"
  have m1: "moves ?nt ?l db ?db1" by (rule mark_expired_moves)
  from claim_scan_selects [OF 3(2), of ?nt ?l] obtain candidate where m2: "moves ?nt ?l ?db1 db2" and
    cand: "candidate \<in> set (claim_candidates a ?db1)" and sel: "selected w a (active_count w ?db1 (\<lambda>_. True)) db2 candidate r route" by auto
  from sel obtain run where cur: "claim_current w db2 candidate = Some (run, r)" by (auto simp: selected_def)
  have "sk_run_id r = sk_run_id candidate" by (rule selected_run [OF moves_ids [OF m1 assms(1)] m2 claim_candidates_mem [OF cand] cur])
  from deliver_claim_moves [OF sel this 3(3)] m1 m2 show ?thesis by (meson rtranclp_trans)
qed simp

lemma admit_run_moves: "moves nt l db (admit_run db i)"
proof -
  have "keeps nt db (admit_run db i)"
  proof (cases "sd_envelopes db i")
    case (Some e)
    show ?thesis
    proof (cases "sched_run_at db i")
      case None
      have k: "keeps nt db (db\<lparr> sd_sched_runs := sd_sched_runs db @ [run] \<rparr>)" if "sn_candidate_state run = ''open''" for run
        using that by (auto simp: keeps_def candidate_closed_def sched_run_at_def row_at_append bound_read_def read_binding_def
            is_coordinator_def logical_at_def split: option.splits if_splits)
      with None Some show ?thesis by (simp add: admit_run_def Let_def)
    next
      case (Some run)
      have "keeps nt db (put_sched_run (run\<lparr> sn_admitted := True \<rparr>) db)" by (rule keeps_run [OF Some]) simp_all
      with Some \<open>sd_envelopes db i = _\<close> show ?thesis by (simp add: admit_run_def Let_def)
    qed
  qed (simp add: admit_run_def keeps_refl)
  then show ?thesis by (intro r_into_rtranclp move.Other)
qed

lemma keeps_tables:
  assumes "sd_tasks t = sd_tasks s" "sd_effects t = sd_effects s" "sd_logical t = sd_logical s" "sd_bindings t = sd_bindings s"
    "sd_attempts t = sd_attempts s" "sd_sched_runs t = sd_sched_runs s"
  shows "keeps nt s t"
  using assms coordinator_logical [OF assms(3)] bound_read_tables [OF assms(4,5)] by (simp add: keeps_def candidate_closed_def sched_run_at_def)

lemma configure_capacity_moves: "configure_capacity db policy = Inr db' \<Longrightarrow> moves nt l db db'"
  by (auto simp: configure_capacity_def split: option.splits if_splits intro!: r_into_rtranclp move.Other keeps_tables)

lemma prepare_epic_claim_moves: "prepare_epic_claim w db = (runs, db') \<Longrightarrow> moves nt l db db'"
  by (auto simp: prepare_epic_claim_def Let_def intro!: r_into_rtranclp move.Other keeps_tables)

section \<open>Histories of the scheduler\<close>

text \<open>Any call of the repository that returns, and any change by others that leaves the scheduler's tasks and
  effects alone, withdraws no coordinator and no bound read, and closes no candidate.\<close>

inductive sched_step :: "bool \<Rightarrow> lease_label \<Rightarrow> sched_db \<Rightarrow> sched_db \<Rightarrow> bool" for nt where
  Call_enqueue: "schedule_enqueue w s task = Inr t \<Longrightarrow> sw_nt w = nt \<Longrightarrow> sched_step nt (None, sw_now w) s t"
| Call_admit_run: "sched_step nt (None, now) s (admit_run s run_id)"
| Call_configure: "configure_capacity s policy = Inr t \<Longrightarrow> sched_step nt (None, now) s t"
| Call_prepare: "prepare_epic_claim w s = (runs, t) \<Longrightarrow> sched_step nt (None, sw_now w) s t"
| Call_claim: "claim_ready w s a = Inr (found, t) \<Longrightarrow> sw_nt w = nt \<Longrightarrow> sched_step nt (Some (cl_owner a), sw_now w) s t"
| Call_renew: "schedule_renew w s lease n = Inr (lease', t) \<Longrightarrow> sw_nt w = nt \<Longrightarrow> sched_step nt (Some (tl_owner lease), sw_now w) s t"
| Call_finish: "finish w s lease ok repair = Inr t \<Longrightarrow> sw_nt w = nt \<Longrightarrow> sched_step nt (Some (tl_owner lease), sw_now w) s t"
| Call_defer: "defer_quota w s lease = Inr t \<Longrightarrow> sw_nt w = nt \<Longrightarrow> sched_step nt (Some (tl_owner lease), sw_now w) s t"
| Call_yield: "yield_to_children w s lease children = Inr t \<Longrightarrow> sw_nt w = nt \<Longrightarrow> sched_step nt (Some (tl_owner lease), sw_now w) s t"
| Call_admit_effect: "admit_effect w s lease i paths ex epoch = Inr (x, t) \<Longrightarrow> sw_nt w = nt \<Longrightarrow>
    sched_step nt (Some (tl_owner lease), sw_now w) s t"
| Call_settle: "settle_effect w s effect accepted = Inr (ok, t) \<Longrightarrow> sw_nt w = nt \<Longrightarrow>
    sched_step nt (Some (tl_owner (te_task_lease effect)), sw_now w) s t"
| Call_reconcile_effect: "reconcile_effect s effect = Inr t \<Longrightarrow> sched_step nt (None, now) s t"
| Call_reconcile_expired: "reconcile_expired w s run_id task_id retry = Inr t \<Longrightarrow> sw_nt w = nt \<Longrightarrow> sched_step nt (None, sw_now w) s t"
| Call_stop: "request_stop w s run_id task_id cancel = Inr t \<Longrightarrow> sw_nt w = nt \<Longrightarrow> sched_step nt (None, sw_now w) s t"
| Call_wake: "wake_parent_for_scope_request w s run_id task_id = Inr t \<Longrightarrow> sw_nt w = nt \<Longrightarrow> sched_step nt (None, sw_now w) s t"
| Call_begin: "begin_candidate s run_id = Inr (epoch, t) \<Longrightarrow> sched_step nt (None, now) s t"
| Call_close: "close_candidate s run_id epoch = Inr t \<Longrightarrow> sched_step nt (None, now) s t"
| Others: "keeps nt s t \<Longrightarrow> sched_step nt (None, now) s t"

lemmas call_moves = schedule_enqueue_moves admit_run_moves configure_capacity_moves prepare_epic_claim_moves claim_ready_moves renew_moves
  finish_moves defer_quota_moves yield_moves admit_effect_moves settle_effect_moves reconcile_effect_moves reconcile_expired_moves
  request_stop_moves wake_scope_moves begin_candidate_moves close_candidate_moves

lemma sched_step_moves: "sched_step nt l s t \<Longrightarrow> sched_ids s \<Longrightarrow> moves nt l s t"
  by (induction rule: sched_step.induct) (auto intro: call_moves move.Other)

lemma moves_inv: "moves nt l s t \<Longrightarrow> sched_inv nt s \<Longrightarrow> sched_inv nt t"
  by (induction rule: rtranclp_induct) (auto intro: move_inv)

lemma inv_ids: "sched_inv nt s \<Longrightarrow> sched_ids s"
  by (simp add: sched_inv_def)

lemma sched_step_inv: "sched_step nt l s t \<Longrightarrow> sched_inv nt s \<Longrightarrow> sched_inv nt t"
  using sched_step_moves moves_inv inv_ids by blast

lemma sched_path_inv: "path (sched_step nt) ls s t \<Longrightarrow> sched_inv nt s \<Longrightarrow> sched_inv nt t"
  by (induction ls arbitrary: s) (auto intro: sched_step_inv)

definition sched_fresh :: "sched_db \<Rightarrow> bool" where
  "sched_fresh db = (sd_tasks db = [] \<and> sd_effects db = [] \<and> sd_sched_runs db = [])"

lemma fresh_inv: "sched_fresh s \<Longrightarrow> sched_inv nt s"
  by (simp add: sched_fresh_def sched_inv_def sched_ids_def rows_shaped_def writers_apart_def effects_owned_def exclusive_first_def frozen_def
      candidate_closed_def sched_run_at_def row_at_def)

section \<open>Leases along histories\<close>

lemma unflagged_fields [simp]: "task_holder (unflagged r) = task_holder r" "sk_lease_owner (unflagged r) = sk_lease_owner r"
  "sk_lease_generation (unflagged r) = sk_lease_generation r"
  by (simp_all add: unflagged_def task_holder_def)

lemma unflagged_eq: "unflagged q = unflagged r \<Longrightarrow> q = r\<lparr> sk_pause_requested := sk_pause_requested q, sk_cancel_requested := sk_cancel_requested q \<rparr>"
  by (cases q; cases r) (simp add: unflagged_def)

lemma row_steps_fence:
  assumes "(row_step l)\<^sup>*\<^sup>* r r'" and "task_holder r = Some (b, e)" and "snd l < e" and "fst l \<noteq> Some b"
  shows "unflagged r' = unflagged r"
  using assms(1)
proof (induction rule: rtranclp_induct)
  case (step q q')
  then have "task_holder q = Some (b, e)" using assms(2) unflagged_fields(1) by metis
  from row_step_fence [OF step.hyps(2) this assms(3,4)] step.IH show ?case by simp
qed simp

lemma row_steps_generation:
  assumes "(row_step l)\<^sup>*\<^sup>* r r'"
  shows "sk_lease_generation r < sk_lease_generation r' \<or> sk_lease_generation r' = sk_lease_generation r \<and> sk_lease_owner r' \<in> {None, sk_lease_owner r}"
  using assms
proof (induction rule: rtranclp_induct)
  case (step q q')
  from row_step_generation [OF step.hyps(2)] step.IH show ?case by auto
qed simp

lemma row_steps_terminal:
  assumes "(row_step l)\<^sup>*\<^sup>* r r'" and "sk_state r = ''terminal''"
  shows "sk_state r' = ''terminal'' \<and> sk_lease_generation r' = sk_lease_generation r \<and> sk_repairs r' = sk_repairs r"
  using assms(1)
proof (induction rule: rtranclp_induct)
  case (step q q')
  with row_step_terminal [OF step.hyps(2)] show ?case by simp
qed (use assms(2) in simp)

definition ids_step :: "bool \<Rightarrow> lease_label \<Rightarrow> sched_db \<Rightarrow> sched_db \<Rightarrow> bool" where
  "ids_step nt l s t = (sched_ids s \<and> sched_step nt l s t)"

lemma ids_step_row:
  assumes "ids_step nt l s t" and "sched_task_at s k = Some r"
  shows "\<exists>r'. sched_task_at t k = Some r' \<and> (row_step l)\<^sup>*\<^sup>* r r'"
  using moves_task_at [OF sched_step_moves _ assms(2)] assms(1) unfolding ids_step_def by blast

lemma ids_path: "path (sched_step nt) ls s t \<Longrightarrow> sched_ids s \<Longrightarrow> path (ids_step nt) ls s t"
proof (induction ls arbitrary: s)
  case (Cons l ls)
  then obtain u where u: "sched_step nt l s u" "path (sched_step nt) ls u t" by auto
  with Cons.prems(2) have "sched_ids u" using moves_ids sched_step_moves by blast
  with Cons.IH [OF u(2)] u(1) Cons.prems(2) show ?case by (auto simp: ids_step_def)
qed simp

lemma sched_path_ids: "path (sched_step nt) ls s t \<Longrightarrow> sched_ids s \<Longrightarrow> sched_ids t"
  by (induction ls arbitrary: s) (auto intro: moves_ids sched_step_moves)

interpretation task_leases: leased_rows task_row task_holder "ids_step nt" for nt
proof
  fix a now s t k r w e
  assume h: "ids_step nt (a, now) s t" "task_row s k = Some r" "task_holder r = Some (w, e)" "now < e" "a \<noteq> Some w"
  then obtain q where q: "sched_task_at s k = Some q" "r = unflagged q" by (auto simp: task_row_def)
  from ids_step_row [OF h(1) q(1)] obtain q' where q': "sched_task_at t k = Some q'" "(row_step (a, now))\<^sup>*\<^sup>* q q'" by blast
  from row_steps_fence [OF q'(2)] h(3-5) q show "task_row t k = Some r" by (simp add: task_row_def q'(1))
qed

interpretation task_deliveries: delivered_rows sched_task_at sk_lease_owner sk_lease_generation "ids_step nt" for nt
proof
  fix l s t k r
  assume "ids_step nt l s t" "sched_task_at s k = Some r"
  from ids_step_row [OF this] row_steps_generation show "\<exists>r'. sched_task_at t k = Some r' \<and> (sk_lease_generation r < sk_lease_generation r' \<or>
    sk_lease_generation r = sk_lease_generation r' \<and> sk_lease_owner r' \<in> {None, sk_lease_owner r})" by metis
qed

lemma terminal_path:
  assumes "path (ids_step nt) ls s t" and "sched_task_at s k = Some r" and "sk_state r = ''terminal''"
  shows "\<exists>r'. sched_task_at t k = Some r' \<and> sk_state r' = ''terminal'' \<and> sk_lease_generation r' = sk_lease_generation r \<and> sk_repairs r' = sk_repairs r"
  using assms
proof (induction ls arbitrary: s r)
  case (Cons l ls)
  then obtain u where u: "ids_step nt l s u" "path (ids_step nt) ls u t" by auto
  from ids_step_row [OF u(1) Cons.prems(2)] obtain q where q: "sched_task_at u k = Some q" "(row_step l)\<^sup>*\<^sup>* r q" by blast
  from row_steps_terminal [OF q(2) Cons.prems(3)] Cons.IH [OF u(2) q(1)] show ?case by metis
qed simp

end
