(* ===== verification/Forge_Claim.thy ===== *)
theory Forge_Claim
  imports Forge_Protocol
begin

text \<open>
  What a claim grants: capacity limits, dependencies and the priority of feedback, and the rotation by
  which every run with work gets its turn.
\<close>

section \<open>Capacity\<close>

lemma active_count_length: "active_count w db sel =
    int (length (filter (\<lambda>r. task_active r \<and> sel r \<and> \<not> paused_task_is_stopped w r) (sd_tasks db)))"
proof -
  let ?rows = "filter (\<lambda>r. task_active r \<and> sel r) (sd_tasks db)"
  have "length ?rows = length (filter (paused_task_is_stopped w) ?rows) + length (filter (\<lambda>r. \<not> paused_task_is_stopped w r) ?rows)"
    using sum_length_filter_compl [of "paused_task_is_stopped w" ?rows] by simp
  then show ?thesis by (simp add: active_count_def Let_def conj_ac)
qed

lemma put_row_absent: "key r \<notin> key ` set xs \<Longrightarrow> put_row key r xs = xs"
  by (induction xs) (auto simp: put_row_def)

lemma length_filter_put_row: "distinct (map key xs) \<Longrightarrow> length (filter P (put_row key r xs)) \<le> Suc (length (filter P xs))"
proof (induction xs)
  case (Cons x xs)
  have put: "put_row key r (x # xs) = (if key x = key r then r else x) # put_row key r xs" by (simp add: put_row_def)
  show ?case
  proof (cases "key x = key r")
    case True
    with Cons.prems put_row_absent [of key r xs] show ?thesis by (simp add: put)
  qed (use Cons put in simp)
qed (simp add: put_row_def)

lemma length_filter_put_row_less: "\<not> P r \<Longrightarrow> length (filter P (put_row key r xs)) \<le> length (filter P xs)"
  by (induction xs) (auto simp: put_row_def)

lemma active_count_put:
  assumes "sched_ids db"
  shows "active_count w (put_task r db) sel \<le> active_count w db sel + 1"
proof -
  have "distinct (map sk_id (sd_tasks db))" using assms by (simp add: sched_ids_def)
  from length_filter_put_row [OF this, of "\<lambda>r. task_active r \<and> sel r \<and> \<not> paused_task_is_stopped w r" r]
  show ?thesis by (simp add: active_count_length put_task_def)
qed

lemma active_count_put_idle: "\<not> task_active r \<Longrightarrow> active_count w (put_task r db) sel \<le> active_count w db sel"
  using length_filter_put_row_less [of "\<lambda>r. task_active r \<and> sel r \<and> \<not> paused_task_is_stopped w r" r sk_id "sd_tasks db"]
  by (simp add: active_count_length put_task_def)

lemma active_count_tasks: "sd_tasks t = sd_tasks s \<Longrightarrow> active_count w t sel = active_count w s sel"
  by (simp add: active_count_def)

lemma active_count_logical: "active_count w (put_logical l db) sel = active_count w db sel"
  by (rule active_count_tasks) (simp add: put_logical_def)

lemma claim_scan_active:
  assumes "claim_scan w a n db candidates = Inr (found, db')"
  shows "active_count w db' sel \<le> active_count w db sel \<and> sd_policies db' = sd_policies db \<and> sd_sched_runs db' = sd_sched_runs db"
  using assms
proof (induction w a n db candidates rule: claim_scan.induct)
  case (2 w a n db candidate rest)
  show ?case
  proof (cases "claim_current w db candidate")
    case (Some x)
    then obtain run r where x: "claim_current w db candidate = Some (run, r)" by (cases x) simp
    with "2.prems" obtain admission where ad: "(if cl_fresh_attempt a then admit_attempt w a db r else Inr (Adm_task None)) = Inr admission"
      by (auto simp: ebind_Inr)
    show ?thesis
    proof (cases admission)
      case Adm_skip
      with "2.IH"(2) [OF x refl ad] "2.prems" x ad show ?thesis by auto
    next
      case Adm_block
      with "2.prems" x ad obtain db1 where b: "block_stale_queued_contract db r = Inr db1" "claim_scan w a n db1 rest = Inr (found, db')"
        by (auto simp: ebind_Inr)
      have "active_count w db1 sel \<le> active_count w db sel \<and> sd_policies db1 = sd_policies db \<and> sd_sched_runs db1 = sd_sched_runs db"
        using b(1) active_count_put_idle [of "r\<lparr> sk_state := ''blocked'' \<rparr>" w db sel]
        by (auto simp: block_stale_queued_contract_def task_active_def active_count_logical split: option.splits if_splits)
          (simp_all add: put_logical_def put_task_def)
      with "2.IH"(3) [OF x refl ad Adm_block b(1) b(2)] show ?thesis by auto
    next
      case (Adm_task route)
      with "2.IH"(4) [OF x refl ad Adm_task] "2.prems" x ad show ?thesis by (auto split: if_splits)
    qed
  qed (use "2.IH"(1) "2.prems" in auto)
qed simp

lemma mark_expired_tables: "sd_policies (mark_expired w a db) = sd_policies db" "sd_sched_runs (mark_expired w a db) = sd_sched_runs db"
  by (simp_all add: mark_expired_def Let_def)

text \<open>A claim that returns a lease: the state in which the task is selected, and what is written then.\<close>

lemma claim_ready_Some:
  assumes "sched_ids db" and "claim_ready w db a = Inr (Some lease, db')"
  obtains candidate r route r' db2 db3 run n where
    "moves (sw_nt w) (Some (cl_owner a), sw_now w) db db2" "sched_ids db2" "claim_current w db2 candidate = Some (run, r)"
    "selected w a n db2 candidate r route" "sk_run_id r = sk_run_id candidate" "active_count w db2 (\<lambda>_. True) \<le> n"
    "bind_route w db2 r route = Inr (r', db3)" "sd_tasks db' = sd_tasks (put_task (claimed_task w a r') db3)" "sd_policies db' = sd_policies db2"
    "sd_logical db' = sd_logical db3" "claim_admits w db2 n run r route" "sd_sched_runs db3 = sd_sched_runs db2"
    "db' = (case sched_run_at (put_task (claimed_task w a r') db3) (sk_run_id r') of None \<Rightarrow> put_task (claimed_task w a r') db3
       | Some run \<Rightarrow> put_sched_run (run\<lparr> sn_last_claimed_at := Some (sw_now w) \<rparr>) (put_task (claimed_task w a r') db3))"
    "lease = \<lparr> tl_run_id = sk_run_id r', tl_task_id = sk_task_id r', tl_owner = cl_owner a,
       tl_generation = sk_lease_generation r' + 1, tl_expires_at = Aware (sw_now w + cl_lease_for a) \<rparr>"
proof -
  let ?db1 = "mark_expired w a db" and ?l = "(Some (cl_owner a), sw_now w)"
  let ?n = "active_count w ?db1 (\<lambda>_. True)"
  from assms(2) obtain r route db2 where scan: "claim_scan w a ?n ?db1 (claim_candidates a ?db1) = Inr (Some (r, route), db2)"
    and deliver: "deliver_claim w a db2 r route = Inr (lease, db')" by (cases rule: claim_ready_Inr) auto
  have m1: "moves (sw_nt w) ?l db ?db1" by (rule mark_expired_moves)
  from claim_scan_selects [OF scan, of "sw_nt w" ?l] obtain candidate where m2: "moves (sw_nt w) ?l ?db1 db2" and
    cand: "candidate \<in> set (claim_candidates a ?db1)" and sel: "selected w a ?n db2 candidate r route" by auto
  from sel obtain run where cur: "claim_current w db2 candidate = Some (run, r)" and adm: "claim_admits w db2 ?n run r route" by (auto simp: selected_def)
  have m: "moves (sw_nt w) ?l db db2" using m1 m2 by (rule rtranclp_trans)
  have run_id: "sk_run_id r = sk_run_id candidate" by (rule selected_run [OF moves_ids [OF m1 assms(1)] m2 claim_candidates_mem [OF cand] cur])
  from deliver obtain r' db3 where d: "bind_route w db2 r route = Inr (r', db3)"
    "db' = (case sched_run_at (put_task (claimed_task w a r') db3) (sk_run_id r') of None \<Rightarrow> put_task (claimed_task w a r') db3
       | Some run \<Rightarrow> put_sched_run (run\<lparr> sn_last_claimed_at := Some (sw_now w) \<rparr>) (put_task (claimed_task w a r') db3))"
    "lease = \<lparr> tl_run_id = sk_run_id r', tl_task_id = sk_task_id r', tl_owner = cl_owner a,
       tl_generation = sk_lease_generation r' + 1, tl_expires_at = Aware (sw_now w + cl_lease_for a) \<rparr>" by (rule deliver_claim_Inr)
  have t: "sd_tasks db' = sd_tasks (put_task (claimed_task w a r') db3)" "sd_logical db' = sd_logical db3" "sd_policies db' = sd_policies db3"
    unfolding d(2) by (auto simp: put_sched_run_def put_task_def split: option.splits)
  have "sd_policies db3 = sd_policies db2" "sd_sched_runs db3 = sd_sched_runs db2"
    using d(1) by (auto simp: bind_route_def put_logical_def split: option.splits if_splits sum.splits)
  moreover have "active_count w db2 (\<lambda>_. True) \<le> ?n" using claim_scan_active [OF scan] by blast
  ultimately show ?thesis using m moves_ids [OF m assms(1)] cur sel run_id d t adm
    by (intro that [of db2 candidate run r ?n route r' db3]) simp_all
qed

lemma current_policy_policies: "sd_policies t = sd_policies s \<Longrightarrow> current_policy t = current_policy s"
  by (simp add: current_policy_def)

lemma sched_run_at_claimed:
  assumes "db' = (case sched_run_at db i of None \<Rightarrow> db | Some run \<Rightarrow> put_sched_run (run\<lparr> sn_last_claimed_at := x \<rparr>) db)"
    and "sched_run_at db i = Some run"
  shows "sched_run_at db' i = Some (run\<lparr> sn_last_claimed_at := x \<rparr>)"
  using assms row_at_Some [of sn_run_id i "sd_sched_runs db" run] by (auto simp: sched_run_at_def put_sched_run_def row_at_put)

text \<open>The provider whose limit a claim respects: that of the route the attempt is bound to, or of the task.\<close>

definition claim_provider :: "claim_args \<Rightarrow> sched_db \<Rightarrow> uuid \<Rightarrow> string option" where
  "claim_provider a db task_id = (if cl_fresh_attempt a
     then (case logical_at db task_id of None \<Rightarrow> None | Some l \<Rightarrow> map_option (\<lambda>c. route_provider (rb_effective (lt_route c))) (lg_contract l))
     else map_option sk_provider (sched_task_at db task_id))"

lemma claim_within_limits_aux:
  assumes "sched_ids db" and "claim_ready w db a = Inr (Some lease, db')"
  shows "active_count w db' (\<lambda>_. True) \<le> cap_global_limit (current_policy db')"
    and "\<exists>run. sched_run_at db' (tl_run_id lease) = Some run \<and> active_count w db' (\<lambda>r. sk_run_id r = tl_run_id lease) \<le> sn_effective_run_limit run"
proof -
  from assms obtain candidate r route r' db2 db3 run n where c:
    "sched_ids db2" "claim_current w db2 candidate = Some (run, r)" "selected w a n db2 candidate r route"
    "sk_run_id r = sk_run_id candidate" "active_count w db2 (\<lambda>_. True) \<le> n" "bind_route w db2 r route = Inr (r', db3)"
    "sd_tasks db' = sd_tasks (put_task (claimed_task w a r') db3)" "sd_policies db' = sd_policies db2"
    "claim_admits w db2 n run r route" "sd_sched_runs db3 = sd_sched_runs db2"
    "db' = (case sched_run_at (put_task (claimed_task w a r') db3) (sk_run_id r') of None \<Rightarrow> put_task (claimed_task w a r') db3
       | Some run \<Rightarrow> put_sched_run (run\<lparr> sn_last_claimed_at := Some (sw_now w) \<rparr>) (put_task (claimed_task w a r') db3))"
    "tl_run_id lease = sk_run_id r'" by (rule claim_ready_Some) auto
  note k = bind_route_keeps [OF c(3,6)]
  have i: "sk_run_id r' = sk_run_id r" using arg_cong [OF k(2), of sk_run_id] by simp
  have t3: "sd_tasks db3 = sd_tasks db2" using k(1) by (simp add: keeps_def)
  have grow: "active_count w db' sel \<le> active_count w db2 sel + 1" for sel
    using active_count_put [of db3 w "claimed_task w a r'" sel] c(1) k(1) active_count_tasks [OF c(7), of w sel] active_count_tasks [OF t3, of w sel]
    by (simp add: sched_ids_def keeps_def)
  have cap: "n < cap_global_limit (current_policy db2)" "active_count w db2 (\<lambda>x. sk_run_id x = sk_run_id r) < sn_effective_run_limit run"
    using c(9) by (auto simp: claim_admits_def within_capacity_def Let_def)
  show "active_count w db' (\<lambda>_. True) \<le> cap_global_limit (current_policy db')"
    using grow [of "\<lambda>_. True"] cap(1) c(5) current_policy_policies [OF c(8)] by simp
  have "sched_run_at (put_task (claimed_task w a r') db3) (sk_run_id r') = Some run"
    using claim_current_Some(3) [OF c(2)] by (simp add: sched_run_at_def put_task_def c(4,10) i)
  from sched_run_at_claimed [OF c(11) this] show "\<exists>run. sched_run_at db' (tl_run_id lease) = Some run \<and>
      active_count w db' (\<lambda>r. sk_run_id r = tl_run_id lease) \<le> sn_effective_run_limit run"
    using grow [of "\<lambda>x. sk_run_id x = sk_run_id r"] cap(2) by (auto simp: c(12) i)
qed

lemma logical_task_make_route: "logical_task_make nt sq c = Inr c' \<Longrightarrow> lt_route c' = lt_route c"
  by (auto simp: logical_task_make_def ebind_Inr Let_def raising_def split: option.splits)

lemma bound_route_provider:
  assumes "selected w a n db candidate r route" and "bind_route w db r route = Inr (r', db')" and "cl_fresh_attempt a"
    and "logical_at db' (sk_task_id r) = Some l" and "lg_contract l = Some c"
  shows "route = Some (lt_route c)"
proof -
  from assms(1,3) have "admit_attempt w a db r = Inr (Adm_task route)" by (auto simp: selected_def)
  then obtain l0 c0 b where l: "logical_at db (sk_task_id r) = Some l0" "lg_contract l0 = Some c0" "route = Some b" by (rule admit_attempt_route)
  show ?thesis
  proof (cases "lt_route c0 = b")
    case False
    with assms(2) l obtain c' where c': "logical_task_make (sw_nt w) (sw_sq w) (c0\<lparr> lt_route := b \<rparr>) = Inr c'"
      "db' = put_logical (l0\<lparr> lg_contract := Some c', lg_version := lg_version l0 + 1 \<rparr>) db"
      by (auto simp: bind_route_def split: sum.splits)
    have "lg_id l0 = sk_task_id r \<and> sk_task_id r \<in> lg_id ` set (sd_logical db)"
      using row_at_Some [OF l(1) [unfolded logical_at_def]] by force
    then have "logical_at db' (sk_task_id r) = Some (l0\<lparr> lg_contract := Some c', lg_version := lg_version l0 + 1 \<rparr>)"
      by (auto simp: c'(2) logical_at_def put_logical_def row_at_put)
    with assms(4,5) logical_task_make_route [OF c'(1)] l(3) show ?thesis by auto
  qed (use assms(2,4,5) l in \<open>simp add: bind_route_def\<close>)
qed

lemma claim_within_provider_limit:
  assumes "sched_ids db" and "claim_ready w db a = Inr (Some lease, db')" and "claim_provider a db' (tl_task_id lease) = Some p"
  shows "active_count w db' (\<lambda>r. sk_provider r = p) \<le> cap_provider_limit (current_policy db')"
proof -
  from assms(1,2) obtain candidate r route r' db2 db3 run n where c:
    "sched_ids db2" "claim_current w db2 candidate = Some (run, r)" "selected w a n db2 candidate r route"
    "bind_route w db2 r route = Inr (r', db3)"
    "sd_tasks db' = sd_tasks (put_task (claimed_task w a r') db3)" "sd_policies db' = sd_policies db2" "sd_logical db' = sd_logical db3"
    "claim_admits w db2 n run r route" "tl_task_id lease = sk_task_id r'" by (rule claim_ready_Some) auto
  note k = bind_route_keeps [OF c(3,4)]
  have i: "sk_task_id r' = sk_task_id r" "sk_id r' = sk_id r" using arg_cong [OF k(2), of sk_task_id] arg_cong [OF k(2), of sk_id] by simp_all
  have t3: "sd_tasks db3 = sd_tasks db2" using k(1) by (simp add: keeps_def)
  have r: "r \<in> set (sd_tasks db2)" by (rule claim_current_Some [OF c(2)])
  have p: "p = (case route of None \<Rightarrow> sk_provider r | Some b \<Rightarrow> route_provider (rb_effective b))"
  proof (cases "cl_fresh_attempt a")
    case True
    with assms(3) obtain l x where "logical_at db' (sk_task_id r) = Some l" "lg_contract l = Some x" "p = route_provider (rb_effective (lt_route x))"
      by (auto simp: claim_provider_def c(9) i split: option.splits)
    with bound_route_provider [OF c(3,4) True, of l x] show ?thesis by (simp add: logical_at_def c(7))
  next
    case False
    with c(3) have route: "route = None" by (auto simp: selected_def)
    with c(4) have "r' = r" by (auto simp: bind_route_def split: option.splits)
    moreover have "sk_task_id r = sk_id r" using c(1) r by (simp add: sched_ids_def)
    ultimately have "sched_task_at db' (tl_task_id lease) = Some (claimed_task w a r)"
      using task_at_put [of "claimed_task w a r" db3 "sk_id r"] task_at_in [of db2 r] c(1) r t3
      by (simp add: c(5,9) sched_task_at_def claimed_task_def)
    with False assms(3) route show ?thesis by (simp add: claim_provider_def claimed_task_def)
  qed
  have "active_count w db' (\<lambda>r. sk_provider r = p) \<le> active_count w db2 (\<lambda>r. sk_provider r = p) + 1"
    using active_count_put [of db3 w "claimed_task w a r'"] c(1) k(1) active_count_tasks [OF c(5), of w] active_count_tasks [OF t3, of w]
    by (simp add: sched_ids_def keeps_def)
  also have "\<dots> \<le> cap_provider_limit (current_policy db2)" using c(8) by (simp add: claim_admits_def within_capacity_def Let_def p)
  finally show ?thesis using current_policy_policies [OF c(6)] by simp
qed

text \<open>The claimed row, its dependencies and its run.\<close>

lemma claim_grants_ready:
  assumes "sched_ids db" and "claim_ready w db a = Inr (Some lease, db')"
  shows "\<exists>r run. sched_task_at db' (tl_task_id lease) = Some r \<and> sk_run_id r = tl_run_id lease \<and> sk_state r = ''leased'' \<and>
    sk_lease_owner r = Some (cl_owner a) \<and> sk_lease_generation r = tl_generation lease \<and>
    sk_lease_expires_at r = Some (sw_now w + cl_lease_for a) \<and> \<not> sk_pause_requested r \<and> \<not> sk_cancel_requested r \<and>
    \<not> dependency_pending db' r \<and> sched_run_at db' (sk_run_id r) = Some run \<and> sn_admitted run \<and> sn_candidate_state run \<in> {''open'', ''closed''}"
proof -
  from assms obtain candidate r route r' db2 db3 run n where c:
    "sched_ids db2" "claim_current w db2 candidate = Some (run, r)" "selected w a n db2 candidate r route" "sk_run_id r = sk_run_id candidate"
    "bind_route w db2 r route = Inr (r', db3)"
    "sd_tasks db' = sd_tasks (put_task (claimed_task w a r') db3)" "claim_admits w db2 n run r route" "sd_sched_runs db3 = sd_sched_runs db2"
    "db' = (case sched_run_at (put_task (claimed_task w a r') db3) (sk_run_id r') of None \<Rightarrow> put_task (claimed_task w a r') db3
       | Some run \<Rightarrow> put_sched_run (run\<lparr> sn_last_claimed_at := Some (sw_now w) \<rparr>) (put_task (claimed_task w a r') db3))"
    "lease = \<lparr> tl_run_id = sk_run_id r', tl_task_id = sk_task_id r', tl_owner = cl_owner a,
       tl_generation = sk_lease_generation r' + 1, tl_expires_at = Aware (sw_now w + cl_lease_for a) \<rparr>" by (rule claim_ready_Some) auto
  note k = bind_route_keeps [OF c(3,5)] and cur = claim_current_Some [OF c(2)]
  obtain p where p: "r' = r\<lparr> sk_provider := p \<rparr>" using k(2) by blast
  let ?q = "claimed_task w a r'"
  have t3: "sd_tasks db3 = sd_tasks db2" using k(1) by (simp add: keeps_def)
  have id: "sk_task_id r = sk_id r" using c(1) cur(1) by (simp add: sched_ids_def)
  have at: "sched_task_at db' (sk_task_id r) = Some ?q"
    using task_at_put [of ?q db3 "sk_id r"] task_at_in [OF c(1) cur(1)] by (simp add: c(6) sched_task_at_def claimed_task_def t3 p id)
  have "sched_run_at (put_task ?q db3) (sk_run_id r') = Some run" using cur(3) by (simp add: sched_run_at_def put_task_def c(4,8) p)
  note run = sched_run_at_claimed [OF c(9) this]
  have nd: "\<not> dependency_pending db2 r" using c(7) by (simp add: claim_admits_def)
  have "sk_task_id r \<notin> set (sk_dependency_task_ids r)" using nd cur(1,2) by (auto simp: dependency_pending_def claimable_def)
  then have "\<not> dependency_pending db' ?q"
    using nd unfolding dependency_pending_def c(6) by (auto simp: put_task_def t3 claimed_task_def p dest!: in_put_row)
  with at run cur(2,5,6) show ?thesis by (auto simp: c(10) p claimed_task_def claimable_def)
qed

section \<open>The feedback fence\<close>

text \<open>The dependencies that are scheduled and not terminal, as a relation on the tasks of a run.\<close>

definition fence_edges :: "sched_task list \<Rightarrow> (uuid \<times> uuid) set" where
  "fence_edges by_task = {(x, d). \<exists>r q. row_at sk_task_id x by_task = Some r \<and> d \<in> set (sk_dependency_task_ids r) \<and>
     row_at sk_task_id d by_task = Some q \<and> sk_state q \<noteq> ''terminal''}"

lemma fence_fresh_set: "set (fence_fresh by_task protected deps) =
    {d \<in> set deps. d \<notin> set protected \<and> (\<exists>q. row_at sk_task_id d by_task = Some q \<and> sk_state q \<noteq> ''terminal'')}"
proof -
  have "set (foldl (\<lambda>acc d. case row_at sk_task_id d by_task of None \<Rightarrow> acc
      | Some r \<Rightarrow> if sk_state r \<noteq> ''terminal'' \<and> d \<notin> set protected \<and> d \<notin> set acc then acc @ [d] else acc) acc deps)
      = set acc \<union> {d \<in> set deps. d \<notin> set protected \<and> (\<exists>q. row_at sk_task_id d by_task = Some q \<and> sk_state q \<noteq> ''terminal'')}" for acc
    by (induction deps arbitrary: acc) (auto split: option.splits if_splits)
  from this [of "[]"] show ?thesis by (simp add: fence_fresh_def)
qed

lemma closure_unique:
  assumes "S \<subseteq> T" and "T \<subseteq> E\<^sup>* `` S" and "\<And>x y. x \<in> T \<Longrightarrow> (x, y) \<in> E \<Longrightarrow> y \<in> T"
  shows "T = E\<^sup>* `` S"
proof -
  have "y \<in> T" if "(x, y) \<in> E\<^sup>*" "x \<in> S" for x y using that assms(1,3) by (induction rule: rtrancl_induct) auto
  with assms(2) show ?thesis by auto
qed

lemma feedback_reach_closure:
  assumes "set pending \<subseteq> set protected" and "\<And>x y. x \<in> set protected - set pending \<Longrightarrow> (x, y) \<in> fence_edges by_task \<Longrightarrow> y \<in> set protected"
  shows "set (feedback_reach by_task protected pending) = (fence_edges by_task)\<^sup>* `` set protected"
  using assms
proof (induction by_task protected pending rule: feedback_reach.induct)
  case (1 by_task protected pending)
  let ?E = "fence_edges by_task"
  show ?case
  proof (cases "pending = []")
    case True
    have "set protected = ?E\<^sup>* `` set protected" by (rule closure_unique) (use "1.prems" True in auto)
    with True show ?thesis by (simp add: feedback_reach.simps)
  next
    case ne: False
    let ?x = "last pending" and ?rest = "butlast pending"
    have split: "set pending = insert ?x (set ?rest)" using ne by (metis append_butlast_last_id list.set(1,2) set_append Un_insert_right sup_bot.right_neutral)
    show ?thesis
    proof (cases "row_at sk_task_id ?x by_task")
      case None
      then have "(?x, y) \<notin> ?E" for y by (simp add: fence_edges_def)
      then have p: "y \<in> set protected" if "x \<in> set protected - set ?rest" "(x, y) \<in> ?E" for x y
        by (intro "1.prems"(2) [OF _ that(2)]) (use that split in auto)
      have "set ?rest \<subseteq> set protected" using "1.prems"(1) split by blast
      note p = this p
      have "set (feedback_reach by_task protected ?rest) = ?E\<^sup>* `` set protected" by (rule "1.IH"(1) [OF ne None p])
      with ne None show ?thesis by (subst feedback_reach.simps) simp
    next
      case (Some r)
      let ?fresh = "fence_fresh by_task protected (sk_dependency_task_ids r)"
      have f: "set ?fresh = {y. (?x, y) \<in> ?E} - set protected" using Some by (auto simp: fence_fresh_set fence_edges_def)
      have x: "?x \<in> set protected" using "1.prems"(1) split by auto
      have IH: "set (feedback_reach by_task (protected @ ?fresh) (?rest @ ?fresh)) = ?E\<^sup>* `` set (protected @ ?fresh)"
      proof (rule "1.IH"(2) [OF ne Some refl])
        show "set (?rest @ ?fresh) \<subseteq> set (protected @ ?fresh)" using "1.prems"(1) split by auto
        fix z y assume z: "z \<in> set (protected @ ?fresh) - set (?rest @ ?fresh)" "(z, y) \<in> ?E"
        show "y \<in> set (protected @ ?fresh)"
        proof (cases "z = ?x")
          case True
          with z(2) f show ?thesis by auto
        next
          case False
          with z(1) split have "z \<in> set protected - set pending" by auto
          from "1.prems"(2) [OF this z(2)] show ?thesis by simp
        qed
      qed
      have "?E\<^sup>* `` set (protected @ ?fresh) = ?E\<^sup>* `` set protected"
        using x f by (auto intro: converse_rtrancl_into_rtrancl)
      with IH ne Some show ?thesis by (subst feedback_reach.simps) (simp add: Let_def)
    qed
  qed
qed

definition fence_roots :: "sched_db \<Rightarrow> uuid \<Rightarrow> uuid set" where
  "fence_roots db run_id = (let primaries = {fr_primary_task_id f | f. f \<in> set (sd_feedback db) \<and> fr_run_id f = run_id \<and> fr_state f = ''pending_primary''} in
     if primaries = {} then {fr_task_id f | f. f \<in> set (sd_feedback db) \<and> fr_run_id f = run_id \<and> fr_state f = ''forwarded''} else primaries)"

lemma feedback_fence_reachable: "set (feedback_priority_fence db run_id) =
    (fence_edges (filter (\<lambda>r. sk_run_id r = run_id) (sd_tasks db)))\<^sup>* `` fence_roots db run_id"
proof -
  let ?rows = "filter (\<lambda>f. fr_run_id f = run_id) (sd_feedback db)"
  let ?primary = "remdups (map fr_primary_task_id (filter (\<lambda>f. fr_state f = ''pending_primary'') ?rows))"
  let ?forwarded = "if ?primary = [] then remdups (map fr_task_id (filter (\<lambda>f. fr_state f = ''forwarded'') ?rows)) else []"
  have roots: "fence_roots db run_id = set (?primary @ ?forwarded)"
    by (auto simp: fence_roots_def Let_def filter_empty_conv)
  show ?thesis
  proof (cases "?primary @ ?forwarded = []")
    case True
    show ?thesis unfolding roots feedback_priority_fence_def Let_def True by simp
  next
    case False
    then show ?thesis unfolding roots feedback_priority_fence_def Let_def
      by (subst if_not_P, assumption) (rule feedback_reach_closure, simp_all)
  qed
qed

section \<open>The rotation of runs\<close>

definition cursor_offset :: "uuid list \<Rightarrow> uuid option \<Rightarrow> nat" where
  "cursor_offset runs cursor = (case cursor of None \<Rightarrow> 0 | Some i \<Rightarrow> length (filter (\<lambda>x. x \<le> i) runs))"

lemma eligible_sorted: "sorted (eligible_runs now db)" "distinct (eligible_runs now db)"
  by (simp_all add: eligible_runs_def)

lemma filter_sorted_split: "sorted xs \<Longrightarrow> filter (\<lambda>x. x \<le> i) xs @ filter (\<lambda>x. i < x) xs = (xs :: uuid list)"
proof (induction xs)
  case (Cons x xs)
  show ?case
  proof (cases "x \<le> i")
    case False
    with Cons.prems have "filter (\<lambda>x. x \<le> i) xs = []" "filter (\<lambda>x. i < x) xs = xs" by (auto simp: filter_empty_conv intro!: filter_True)
    with False show ?thesis by simp
  qed (use Cons in auto)
qed simp

lemma prepare_selects:
  assumes "runs = eligible_runs (sw_now w) db"
  shows "fst (prepare_epic_claim w db) = take 128 (rotate (cursor_offset runs (sd_cursor db)) runs)"
proof (cases "sd_cursor db")
  case (Some i)
  let ?A = "filter (\<lambda>x. i < x) runs" and ?B = "filter (\<lambda>x. x \<le> i) runs"
  have "rotate (length ?B) (?B @ ?A) = ?A @ ?B" by (rule rotate_append)
  then have "rotate (cursor_offset runs (sd_cursor db)) runs = ?A @ ?B"
    using filter_sorted_split [of runs i] eligible_sorted assms by (simp add: cursor_offset_def Some)
  then show ?thesis using assms by (auto simp: prepare_epic_claim_def Let_def Some min_def)
qed (simp add: prepare_epic_claim_def Let_def cursor_offset_def assms)

lemma prepare_next: "snd (prepare_epic_claim w db) = db\<lparr> sd_cursor := (let selected = fst (prepare_epic_claim w db) in
    if selected = [] then None else Some (last selected)) \<rparr>"
  by (simp add: prepare_epic_claim_def Let_def)

lemma offset_nth:
  fixes xs :: "uuid list"
  assumes "sorted xs" and "distinct xs" and "j < length xs"
  shows "length (filter (\<lambda>x. x \<le> xs ! j) xs) = Suc j"
proof -
  have "filter (\<lambda>x. x \<le> xs ! j) (take (Suc j) xs) = take (Suc j) xs"
    using assms sorted_nth_mono by (intro filter_True) (fastforce simp: in_set_conv_nth less_Suc_eq_le)
  moreover have "xs ! j < x" if "x \<in> set (drop (Suc j) xs)" for x
  proof -
    from that obtain k where k: "k < length xs - Suc j" "x = xs ! (Suc j + k)" by (auto simp: in_set_conv_nth)
    with assms have "xs ! j \<le> x" "xs ! j \<noteq> x" by (auto simp: sorted_nth_mono nth_eq_iff_index_eq)
    then show ?thesis by simp
  qed
  then have "filter (\<lambda>x. x \<le> xs ! j) (drop (Suc j) xs) = []" by (auto simp: filter_empty_conv not_le)
  ultimately have "filter (\<lambda>x. x \<le> xs ! j) (take (Suc j) xs @ drop (Suc j) xs) = take (Suc j) xs" by (simp only: filter_append append_Nil2)
  then show ?thesis using assms(3) by simp
qed

lemma prepare_advances:
  assumes runs: "runs = eligible_runs (sw_now w) db" and "128 \<le> length runs"
  shows "rotate (cursor_offset runs (sd_cursor (snd (prepare_epic_claim w db)))) runs = rotate (cursor_offset runs (sd_cursor db) + 128) runs"
proof -
  let ?k = "cursor_offset runs (sd_cursor db)" and ?n = "length runs"
  let ?sel = "take 128 (rotate ?k runs)"
  have len: "length ?sel = 128" and ne: "?sel \<noteq> []" using assms(2) by auto
  have last: "last ?sel = runs ! ((127 + ?k) mod ?n)" using ne len assms(2) by (simp add: last_conv_nth nth_rotate add.commute)
  have "cursor_offset runs (Some (last ?sel)) = Suc ((127 + ?k) mod ?n)"
  proof -
    have "sorted runs" "distinct runs" using eligible_sorted runs by auto
    moreover have "(127 + ?k) mod ?n < ?n" by (rule mod_less_divisor) (use assms(2) in linarith)
    ultimately have "length (filter (\<lambda>x. x \<le> runs ! ((127 + ?k) mod ?n)) runs) = Suc ((127 + ?k) mod ?n)" by (rule offset_nth)
    then show ?thesis unfolding last by (simp add: cursor_offset_def [of runs "Some _"])
  qed
  then have "cursor_offset runs (sd_cursor (snd (prepare_epic_claim w db))) mod ?n = (?k + 128) mod ?n"
    unfolding prepare_next prepare_selects [OF runs] Let_def using ne by (simp add: mod_Suc_eq add.commute)
  then show ?thesis by (metis rotate_conv_mod)
qed

lemma prepare_tasks: "sd_tasks (snd (prepare_epic_claim w db)) = sd_tasks db"
  by (simp add: prepare_next)

lemma prepare_round:
  assumes runs: "runs = eligible_runs (sw_now w) db" and "128 \<le> length runs"
  shows "fst (prepare_epic_claim w (((\<lambda>d. snd (prepare_epic_claim w d)) ^^ j) db)) = take 128 (rotate (cursor_offset runs (sd_cursor db) + 128 * j) runs)"
proof -
  let ?next = "\<lambda>d. snd (prepare_epic_claim w d)"
  have e: "eligible_runs (sw_now w) ((?next ^^ j) db) = runs" for j
    unfolding runs by (induction j) (simp_all add: eligible_runs_def prepare_tasks)
  have "rotate (cursor_offset runs (sd_cursor ((?next ^^ j) db))) runs = rotate (cursor_offset runs (sd_cursor db) + 128 * j) runs" for j
  proof (induction j)
    case (Suc j)
    have "rotate (cursor_offset runs (sd_cursor ((?next ^^ Suc j) db))) runs = rotate (cursor_offset runs (sd_cursor ((?next ^^ j) db)) + 128) runs"
      using prepare_advances [OF e [symmetric] assms(2), of j] by simp
    also have "\<dots> = rotate 128 (rotate (cursor_offset runs (sd_cursor ((?next ^^ j) db))) runs)" by (simp add: rotate_rotate add.commute)
    finally show ?case unfolding Suc by (simp add: rotate_rotate add.commute add.left_commute)
  qed simp
  then show ?thesis by (simp add: prepare_selects [OF e [symmetric]])
qed

lemma prepare_covers:
  assumes "run \<in> set (eligible_runs (sw_now w) db)"
  shows "\<exists>j. 128 * j < length (eligible_runs (sw_now w) db) \<and>
    run \<in> set (fst (prepare_epic_claim w (((\<lambda>d. snd (prepare_epic_claim w d)) ^^ j) db)))"
proof (cases "128 \<le> length (eligible_runs (sw_now w) db)")
  case True
  let ?runs = "eligible_runs (sw_now w) db"
  let ?k = "cursor_offset ?runs (sd_cursor db)" and ?n = "length ?runs"
  from assms have "run \<in> set (rotate ?k ?runs)" by simp
  then obtain p where p: "p < ?n" "run = rotate ?k ?runs ! p" by (metis in_set_conv_nth length_rotate)
  let ?j = "p div 128"
  have "p mod 128 \<le> p" by (rule mod_less_eq_dividend)
  with p(1) have q: "p mod 128 < ?n" "p mod 128 + (?k + 128 * ?j) = p + ?k" by (simp, simp add: mult_div_mod_eq [symmetric] add.commute)
  have "run = take 128 (rotate (?k + 128 * ?j) ?runs) ! (p mod 128)"
    using p q by (simp add: nth_rotate add.commute)
  moreover have "p mod 128 < length (take 128 (rotate (?k + 128 * ?j) ?runs))" using q(1) by simp
  ultimately have "run \<in> set (take 128 (rotate (?k + 128 * ?j) ?runs))" by (metis nth_mem)
  moreover have "128 * ?j < ?n" using p(1) by (metis le_less_trans times_div_less_eq_dividend)
  ultimately show ?thesis using prepare_round [OF refl True] by metis
next
  case False
  with assms show ?thesis by (intro exI [of _ 0]) (auto simp: prepare_selects [OF refl] length_pos_if_in_set)
qed

end
