(* ===== verification/Forge_Scheduler.thy ===== *)
theory Forge_Scheduler
  imports Forge_Claim
begin

text \<open>
  What the scheduler guarantees in every history of its repository, from a database in which nothing
  is scheduled yet: the properties of the moves carried over to the calls.
\<close>

section \<open>A sample history\<close>

definition demo_world :: sched_world where
  "demo_world = \<lparr> sw_nt = False, sw_sq = False, sw_frepr = (\<lambda>_. []), sw_now = 1, sw_later = 1, sw_db_now = 1, sw_locked_runs = [],
     sw_locked_tasks = [], sw_quota_eligible = (\<lambda>_. True), sw_fit_reservation = (\<lambda>_ _ _. None), sw_epic_blockers = (\<lambda>_ _. []),
     sw_epic_permit = (\<lambda>_. True), sw_stop_proved = (\<lambda>_. False) \<rparr>"

definition demo_contract :: "uuid \<Rightarrow> logical_task_contract" where
  "demo_contract i = (if i = 3 then sample_task 3 ROUTINE_IMPLEMENTATION (Some 1) [] [''src/a'']
     else if i = 4 then sample_task 4 ROUTINE_IMPLEMENTATION (Some 1) [] [''src/b''] else sample_task 5 SECURITY (Some 1) [] [])"

definition demo_logical :: "uuid \<Rightarrow> logical_row" where
  "demo_logical i = \<lparr> lg_id = i, lg_run_id = 9, lg_task_id = i, lg_parent_task_id = Some 1, lg_state = ''queued'',
     lg_pause_requested = False, lg_cancel_requested = False, lg_version = 1, lg_contract = Some (demo_contract i) \<rparr>"

definition demo_schedule :: "uuid \<Rightarrow> schedule_task" where
  "demo_schedule i = \<lparr> st_run_id = 9, st_task_id = i, st_worktree_id = ''tree'', st_owned_paths = lt_owned_paths (demo_contract i),
     st_parent_task_id = Some 1, st_dependency_task_ids = [], st_read_only = (i = 5), st_max_repairs = 1 \<rparr>"

definition demo_row :: "uuid \<Rightarrow> sched_task" where
  "demo_row i = queued_task demo_world (demo_schedule i) ''p''"

definition demo_held :: "uuid \<Rightarrow> string \<Rightarrow> sched_task" where
  "demo_held i owner = (demo_row i)\<lparr> sk_state := ''leased'', sk_lease_owner := Some owner, sk_lease_generation := 1,
     sk_lease_expires_at := Some 60000001 \<rparr>"

definition demo_lease :: "uuid \<Rightarrow> string \<Rightarrow> task_lease" where
  "demo_lease i owner = \<lparr> tl_run_id = 9, tl_task_id = i, tl_owner = owner, tl_generation = 1, tl_expires_at = Aware 60000001 \<rparr>"

definition demo_run :: "string \<Rightarrow> int \<Rightarrow> int option \<Rightarrow> sched_run" where
  "demo_run st epoch claimed = \<lparr> sn_run_id = 9, sn_admitted = True, sn_candidate_epoch = epoch, sn_candidate_state = st,
     sn_capacity_policy_version = 1, sn_effective_run_limit = 3, sn_last_claimed_at = claimed \<rparr>"

definition demo_claim :: "string \<Rightarrow> claim_args" where
  "demo_claim owner = \<lparr> cl_owner = owner, cl_lease_for = 60000000, cl_fresh_attempt = False, cl_eligible_routes = None,
     cl_reservation_ceiling = None, cl_prepared_run_ids = None \<rparr>"

text \<open>Task 5 has an attempt whose tool call, operation 22, is a read.\<close>

definition demo_attempt :: attempt_row where
  "demo_attempt = \<lparr> sa_id = 50, sa_run_id = 9, sa_task_row_id = 5, sa_attempt_number = 1, sa_status = ''running'', sa_lease_owner = Some ''w2'',
     sa_lease_generation = Some 1 \<rparr>"

definition demo_binding :: binding_row where
  "demo_binding = \<lparr> sb_attempt_id = 50, sb_provider_call_key = ''k'', sb_durable_operation_id = 22,
     sb_binding = Some \<lparr> tc_attempt_id = 50, tc_provider_call_key = ''k'', tc_durable_operation_id = 22, tc_tool_name = GIT_DIFF,
       tc_arguments_digest = [], tc_admitted_at = None, tc_receipt_id = None \<rparr> \<rparr>"

definition demo_db :: "sched_task list \<Rightarrow> sched_run list \<Rightarrow> sched_effect list \<Rightarrow> sched_db" where
  "demo_db tasks runs effects = \<lparr> sd_runs = (\<lambda>i. if i = 9 then Some (''IMPLEMENTING'', None) else None), sd_tasks = tasks, sd_sched_runs = runs,
     sd_effects = effects, sd_policies = [], sd_cursor = None, sd_logical = map demo_logical [3, 4, 5], sd_attempts = [demo_attempt], sd_consumed = [],
     sd_bindings = [demo_binding], sd_results = [], sd_decisions = [], sd_feedback = [], sd_fences = [], sd_checkpoints = [],
     sd_envelopes = (\<lambda>i. if i = 9 then Some sample_envelope else None) \<rparr>"

lemma demo_keys: "policy_path_key False ''src/a'' = ''src/a''" "policy_path_key False ''src/b'' = ''src/b''"
  by code_simp+

lemma demo_db_fields [simp]: "sd_tasks (demo_db ts rs es) = ts" "sd_sched_runs (demo_db ts rs es) = rs" "sd_effects (demo_db ts rs es) = es"
  "sd_logical (demo_db ts rs es) = map demo_logical [3, 4, 5]" "sd_policies (demo_db ts rs es) = []" "sd_checkpoints (demo_db ts rs es) = []"
  "sd_fences (demo_db ts rs es) = []" "sd_attempts (demo_db ts rs es) = [demo_attempt]" "sd_bindings (demo_db ts rs es) = [demo_binding]"
  "sd_runs (demo_db ts rs es) 9 = Some (''IMPLEMENTING'', None)" "sd_envelopes (demo_db ts rs es) 9 = Some sample_envelope"
  "(demo_db ts rs es)\<lparr> sd_tasks := ts' \<rparr> = demo_db ts' rs es" "(demo_db ts rs es)\<lparr> sd_sched_runs := rs' \<rparr> = demo_db ts rs' es"
  "(demo_db ts rs es)\<lparr> sd_effects := es' \<rparr> = demo_db ts rs es'"
  by (simp_all add: demo_db_def)

lemma demo_world_fields [simp]: "sw_nt demo_world = False" "sw_now demo_world = 1" "sw_db_now demo_world = 1" "sw_locked_runs demo_world = []"
  "sw_locked_tasks demo_world = []" "sw_stop_proved demo_world = (\<lambda>_. False)" "sw_later demo_world = 1"
  by (simp_all add: demo_world_def)

lemmas demo_defs = demo_row_def demo_held_def demo_schedule_def demo_contract_def demo_logical_def sample_task_def queued_task_def demo_lease_def
  demo_run_def demo_claim_def demo_keys sample_binding_def sample_route_def lock_run_def when_raise_def logical_at_def row_at_def put_task_def put_row_def put_sched_run_def
  sched_run_at_def sched_task_at_def effect_at_def path_keys_def is_read_only_def

lemmas demo_claim_defs = claim_ready_def mark_expired_def lease_expired_def prepared_def claim_candidates_def claim_current_def claimable_def
  usage_checkpoint_active_def claim_admits_def within_capacity_def active_count_def task_active_def paused_task_is_stopped_def dependency_pending_def
  has_worktree_conflict_def has_exclusive_effect_barrier_def scopes_overlap_def paths_overlap_def is_coordinator_def deliver_claim_def
  bind_route_def claimed_task_def task_lease_make_def current_policy_def default_policy_def can_read_candidate_def


lemma path_step: "sched_step nt l s u \<Longrightarrow> path (sched_step nt) ls u t \<Longrightarrow> path (sched_step nt) (l # ls) s t"
  by auto

lemma path_last: "sched_step nt l s t \<Longrightarrow> path (sched_step nt) [l] s t"
  by simp

lemma demo_enqueued:
  assumes "schedule_enqueue demo_world s (demo_schedule i) = Inr t"
  shows "sched_step False (None, 1) s t"
  using Call_enqueue [OF assms, of False] by simp

lemma demo_admitted: "sched_step False (None, 1) (demo_db ts [] es) (demo_db ts [demo_run ''open'' 0 None] es)"
  using Call_admit_run [of False 1 "demo_db ts [] es" 9] by (simp add: admit_run_def demo_defs current_policy_def default_policy_def)

lemma demo_claimed:
  assumes "claim_ready demo_world s (demo_claim owner) = Inr (found, t)"
  shows "sched_step False (Some owner, 1) s t"
  using Call_claim [OF assms, of False] by (simp add: demo_claim_def)

lemma demo_effected:
  assumes "\<exists>x. admit_effect demo_world s (demo_lease i owner) e [] exclusive None = Inr (x, t)"
  shows "sched_step False (Some owner, 1) s t"
proof -
  from assms obtain x where "admit_effect demo_world s (demo_lease i owner) e [] exclusive None = Inr (x, t)" by blast
  from Call_admit_effect [OF this, of False] show ?thesis by (simp add: demo_lease_def)
qed

lemma demo_owner: "\<not> blank ''w1''" "\<not> blank ''w2''" "run_allows_subscription_attempt ''IMPLEMENTING'' None"
  by code_simp+

lemmas demo_enqueue_defs = schedule_enqueue_def authority_differs_def

definition demo_a :: sched_db where "demo_a = demo_db [demo_row 3, demo_row 4] [demo_run ''open'' 0 None] []"
definition demo_b :: sched_db where "demo_b = demo_db [demo_held 3 ''w1'', demo_row 4] [demo_run ''open'' 0 (Some 1)] []"
definition demo_c :: sched_db where "demo_c = demo_db [demo_held 3 ''w1'', demo_held 4 ''w2''] [demo_run ''open'' 0 (Some 1)] []"
definition demo_done :: sched_task where
  "demo_done = (demo_row 4)\<lparr> sk_state := ''terminal'', sk_lease_generation := 1 \<rparr>"
definition demo_d :: sched_db where "demo_d = demo_db [demo_held 3 ''w1'', demo_done] [demo_run ''open'' 0 (Some 1)] []"

lemma demo_claim_1: "claim_ready demo_world demo_a (demo_claim ''w1'') = Inr (Some (demo_lease 3 ''w1''), demo_b)"
  by (simp add: demo_a_def demo_b_def demo_claim_defs demo_defs demo_owner)

lemma demo_claim_2: "claim_ready demo_world demo_b (demo_claim ''w2'') = Inr (Some (demo_lease 4 ''w2''), demo_c)"
  by (simp add: demo_b_def demo_c_def demo_claim_defs demo_defs demo_owner)

lemma demo_renewal: "schedule_renew demo_world demo_c (demo_lease 3 ''w1'') 60000000 = Inr (demo_lease 3 ''w1'', demo_c)"
  by (simp add: demo_c_def schedule_renew_def leased_task_def usage_checkpoint_active_def demo_owner demo_defs)

lemma demo_finish: "finish demo_world demo_c (demo_lease 4 ''w2'') True True = Inr demo_d"
  by (simp add: demo_c_def demo_d_def demo_done_def finish_def leased_task_def release_task_def wake_ready_parents_def demo_defs)

lemma demo_path_a: "path (sched_step False) [(None, 1), (None, 1), (None, 1)] (demo_db [] [] []) demo_a"
  unfolding demo_a_def
proof (rule path_step [OF demo_enqueued [where i = 3] path_step [OF demo_enqueued [where i = 4] path_last [OF demo_admitted]]])
  show "schedule_enqueue demo_world (demo_db [] [] []) (demo_schedule 3) = Inr (demo_db [demo_row 3] [] [])"
    "schedule_enqueue demo_world (demo_db [demo_row 3] [] []) (demo_schedule 4) = Inr (demo_db [demo_row 3, demo_row 4] [] [])"
    by (simp_all add: demo_enqueue_defs demo_defs)
qed

lemma demo_steps: "sched_step False (Some ''w1'', 1) demo_a demo_b" "sched_step False (Some ''w2'', 1) demo_b demo_c"
  "sched_step False (Some ''w1'', 1) demo_c demo_c" "sched_step False (Some ''w2'', 1) demo_c demo_d"
  using Call_claim [OF demo_claim_1, of False] Call_claim [OF demo_claim_2, of False] Call_renew [OF demo_renewal, of False]
    Call_finish [OF demo_finish, of False]
  by (simp_all add: demo_claim_def demo_lease_def)

lemma demo_path_c: "path (sched_step False) [(None, 1), (None, 1), (None, 1), (Some ''w1'', 1), (Some ''w2'', 1)] (demo_db [] [] []) demo_c"
  using path_append [of "sched_step False" "[(None, 1), (None, 1), (None, 1)]" "[(Some ''w1'', 1), (Some ''w2'', 1)]" "demo_db [] [] []" demo_c]
    demo_path_a demo_steps by auto

lemma demo_fresh: "sched_fresh (demo_db [] [] [])"
  by (simp add: sched_fresh_def)

lemma demo_ids: "sched_ids demo_a" "sched_ids demo_b" "sched_ids demo_c" "sched_ids demo_d"
  by (simp_all add: sched_ids_def demo_a_def demo_b_def demo_c_def demo_d_def demo_done_def demo_defs)

text \<open>An exclusive effect of task 3, beside which task 5 reads.\<close>

definition demo_effect :: "uuid \<Rightarrow> uuid \<Rightarrow> string \<Rightarrow> int \<Rightarrow> bool \<Rightarrow> sched_effect" where
  "demo_effect i task owner epoch exclusive = \<lparr> sf_id = i, sf_run_id = 9, sf_task_id = task, sf_lease_owner = owner, sf_lease_generation = 1,
     sf_candidate_epoch = epoch, sf_whole_worktree_exclusive = exclusive, sf_state = ''admitted'' \<rparr>"

lemmas demo_effect_defs = admit_effect_def effect_exclusive_def effect_refused_def effect_read_def is_bound_read_def read_binding_def
  has_effect_conflict_def has_exclusive_effect_barrier_def effect_unsettled_def effect_owner_def admitted_effect_def task_effect_lease_make_def
  leased_task_def usage_checkpoint_active_def paths_exceed_def is_coordinator_def task_active_def demo_attempt_def demo_binding_def
  CANDIDATE_READ_TOOLS_def READ_TOOLS_def demo_effect_def

definition demo_e :: sched_db where
  "demo_e = demo_db [demo_held 3 ''w1'', demo_held 5 ''w2''] [demo_run ''open'' 0 (Some 1)] [demo_effect 21 3 ''w1'' 0 True, demo_effect 22 5 ''w2'' 0 False]"

lemma demo_path_e: "path (sched_step False) [(None, 1), (None, 1), (None, 1), (Some ''w1'', 1), (Some ''w1'', 1), (Some ''w2'', 1), (Some ''w2'', 1)]
    (demo_db [] [] []) demo_e"
proof -
  let ?run = "demo_run ''open'' 0 (Some 1)" and ?e = "demo_effect 21 3 ''w1'' 0 True"
  have 1: "schedule_enqueue demo_world (demo_db [] [] []) (demo_schedule 3) = Inr (demo_db [demo_row 3] [] [])"
    "schedule_enqueue demo_world (demo_db [demo_row 3] [] []) (demo_schedule 5) = Inr (demo_db [demo_row 3, demo_row 5] [] [])"
    by (simp_all add: demo_enqueue_defs demo_defs)
  have 2: "claim_ready demo_world (demo_db [demo_row 3, demo_row 5] [demo_run ''open'' 0 None] []) (demo_claim ''w1'') =
      Inr (Some (demo_lease 3 ''w1''), demo_db [demo_held 3 ''w1'', demo_row 5] [?run] [])"
    by (simp add: demo_claim_defs demo_defs demo_owner)
  have 3: "\<exists>x. admit_effect demo_world (demo_db [demo_held 3 ''w1'', demo_row 5] [?run] []) (demo_lease 3 ''w1'') 21 [] True None =
      Inr (x, demo_db [demo_held 3 ''w1'', demo_row 5] [?run] [?e])"
    by (simp add: demo_effect_defs demo_defs)
  have 4: "claim_ready demo_world (demo_db [demo_held 3 ''w1'', demo_row 5] [?run] [?e]) (demo_claim ''w2'') =
      Inr (Some (demo_lease 5 ''w2''), demo_db [demo_held 3 ''w1'', demo_held 5 ''w2''] [?run] [?e])"
    by (simp add: demo_claim_defs demo_defs demo_owner)
  have 5: "\<exists>x. admit_effect demo_world (demo_db [demo_held 3 ''w1'', demo_held 5 ''w2''] [?run] [?e]) (demo_lease 5 ''w2'') 22 [] False None = Inr (x, demo_e)"
    by (simp add: demo_effect_defs demo_defs demo_e_def)
  show ?thesis
    by (rule path_step [OF demo_enqueued [OF 1(1)] path_step [OF demo_enqueued [OF 1(2)] path_step [OF demo_admitted
      path_step [OF demo_claimed [OF 2] path_step [OF demo_effected [OF 3] path_step [OF demo_claimed [OF 4] path_last [OF demo_effected [OF 5]]]]]]]])
qed

text \<open>A frozen candidate, which task 5 reads.\<close>

definition demo_f :: sched_db where
  "demo_f = demo_db [demo_held 5 ''w2''] [demo_run ''closed'' 1 (Some 1)] [demo_effect 22 5 ''w2'' 1 False]"

lemma demo_path_f: "path (sched_step False) [(None, 1), (None, 1), (None, 1), (None, 1), (Some ''w2'', 1), (Some ''w2'', 1)] (demo_db [] [] []) demo_f"
proof -
  have 1: "begin_candidate (demo_db [] [demo_run ''open'' 0 None] []) 9 = Inr (0, demo_db [] [demo_run ''draining'' 0 None] [])"
    by (simp add: begin_candidate_def demo_defs)
  have 2: "close_candidate (demo_db [] [demo_run ''draining'' 0 None] []) 9 0 = Inr (demo_db [] [demo_run ''closed'' 1 None] [])"
    by (simp add: close_candidate_def demo_defs)
  have 3: "schedule_enqueue demo_world (demo_db [] [demo_run ''closed'' 1 None] []) (demo_schedule 5) =
      Inr (demo_db [demo_row 5] [demo_run ''closed'' 1 None] [])"
    by (simp add: demo_enqueue_defs demo_defs)
  have 4: "claim_ready demo_world (demo_db [demo_row 5] [demo_run ''closed'' 1 None] []) (demo_claim ''w2'') =
      Inr (Some (demo_lease 5 ''w2''), demo_db [demo_held 5 ''w2''] [demo_run ''closed'' 1 (Some 1)] [])"
    by (simp add: demo_claim_defs demo_defs demo_owner)
  have 5: "\<exists>x. admit_effect demo_world (demo_db [demo_held 5 ''w2''] [demo_run ''closed'' 1 (Some 1)] []) (demo_lease 5 ''w2'') 22 [] False None = Inr (x, demo_f)"
    by (simp add: demo_effect_defs demo_defs demo_f_def)
  show ?thesis
    by (rule path_step [OF demo_admitted path_step [OF Call_begin [OF 1] path_step [OF Call_close [OF 2] path_step [OF demo_enqueued [OF 3]
      path_step [OF demo_claimed [OF 4] path_last [OF demo_effected [OF 5]]]]]]])
qed

section \<open>Properties\<close>

text \<open>C7. Writers stay apart. In every history of the scheduler's calls, from a database without scheduled
  tasks, two different tasks that hold a worktree and may write it (leased or awaiting reconciliation, not
  read-only, not the coordinator of their run) own no overlapping paths.\<close>

theorem writers_stay_apart:
  assumes "sched_fresh s" and "path (sched_step nt) ls s t" and "r \<in> set (sd_tasks t)" and "x \<in> set (sd_tasks t)"
    and "task_active r" "\<not> sk_read_only r" "\<not> is_coordinator nt t r" and "task_active x" "\<not> sk_read_only x" "\<not> is_coordinator nt t x"
    and "sk_id r \<noteq> sk_id x" "sk_worktree_id r = sk_worktree_id x" "p \<in> set (sk_owned_paths r)" "q \<in> set (sk_owned_paths x)"
  shows "\<not> paths_overlap p q"
proof -
  have "writers_apart nt t" using sched_path_inv [OF assms(2) fresh_inv [OF assms(1)]] by (simp add: sched_inv_def)
  with assms have "\<not> scopes_overlap r x" by (simp add: writers_apart_def writer_def)
  with assms(13,14) show ?thesis by (auto simp: scopes_overlap_def)
qed

theorem writers_stay_apart_witness: "\<not> paths_overlap ''src/a'' ''src/b''"
proof -
  have "\<not> is_coordinator False demo_c (demo_held 3 ''w1'')" "\<not> is_coordinator False demo_c (demo_held 4 ''w2'')"
    by (simp_all add: is_coordinator_def demo_c_def demo_defs)
  then show ?thesis
    by (intro writers_stay_apart [OF demo_fresh demo_path_c, of "demo_held 3 ''w1''" "demo_held 4 ''w2''"])
      (simp_all add: demo_c_def task_active_def demo_held_def demo_row_def queued_task_def demo_schedule_def demo_contract_def sample_task_def)
qed

text \<open>C16. An exclusive effect holds its worktree: in every history, an effect that was admitted after an exclusive
  effect of the same worktree, while both are unsettled, is not exclusive and belongs to a read-only task or
  is a bound read of the coordinator. So at most one exclusive effect of a worktree is unsettled and no later
  mutation runs beside it.\<close>

theorem exclusive_effects_serialised:
  assumes "sched_fresh s" and "path (sched_step nt) ls s t" and "i < j" "j < length (sd_effects t)"
    and "e = sd_effects t ! i" "f = sd_effects t ! j" and "effect_unsettled e" "sf_whole_worktree_exclusive e" "effect_unsettled f"
    and "effect_owner t e = Some r" "effect_owner t f = Some x" "sk_worktree_id r = sk_worktree_id x"
  shows "\<not> sf_whole_worktree_exclusive f \<and> (sk_read_only x \<or> is_coordinator nt t x \<and> bound_read t f x)"
proof -
  have "exclusive_first nt t" using sched_path_inv [OF assms(2) fresh_inv [OF assms(1)]] by (simp add: sched_inv_def)
  then have "open_exclusive e \<and> effect_unsettled f \<and> effect_worktree t e = effect_worktree t f \<longrightarrow> \<not> sf_whole_worktree_exclusive f \<and> effect_quiet nt t f"
    using assms(3-6) by (simp add: exclusive_first_def sorted_wrt_iff_nth_less)
  with assms(7-12) show ?thesis by (simp add: open_exclusive_def effect_worktree_def effect_quiet_def)
qed

theorem exclusive_effects_serialised_witness:
  "sd_effects demo_e ! 0 = demo_effect 21 3 ''w1'' 0 True \<and> \<not> sf_whole_worktree_exclusive (sd_effects demo_e ! 1)"
  using exclusive_effects_serialised [OF demo_fresh demo_path_e, of 0 1 "demo_effect 21 3 ''w1'' 0 True" "demo_effect 22 5 ''w2'' 0 False"
      "demo_held 3 ''w1''" "demo_held 5 ''w2''"]
  by (simp add: demo_e_def demo_effect_def effect_unsettled_def effect_owner_def demo_held_def demo_row_def queued_task_def demo_schedule_def)

text \<open>C8. A closed candidate is frozen: in every history, while the candidate of a run is closed, every task of the
  run that is leased or awaits reconciliation is read-only or the run's coordinator, and every unsettled
  effect of the run is a read bound to an attempt of such a task.\<close>

theorem closed_candidate_frozen:
  assumes "sched_fresh s" and "path (sched_step nt) ls s t" and "sched_run_at t i = Some run" "sn_candidate_state run = ''closed''"
  shows "(\<forall>r \<in> set (sd_tasks t). sk_run_id r = i \<and> task_active r \<longrightarrow> sk_read_only r \<or> is_coordinator nt t r) \<and>
    (\<forall>e \<in> set (sd_effects t). sf_run_id e = i \<and> effect_unsettled e \<longrightarrow>
       (\<exists>x. effect_owner t e = Some x \<and> (sk_read_only x \<or> is_coordinator nt t x) \<and> bound_read t e x))"
proof -
  have "frozen nt t" using sched_path_inv [OF assms(2) fresh_inv [OF assms(1)]] by (simp add: sched_inv_def)
  moreover have "candidate_closed t i" using assms(3,4) by (simp add: candidate_closed_def)
  moreover have "effect_reads nt t e \<longleftrightarrow> (\<exists>x. effect_owner t e = Some x \<and> (sk_read_only x \<or> is_coordinator nt t x) \<and> bound_read t e x)" for e
    by (cases "effect_owner t e") (simp_all add: effect_reads_def)
  ultimately show ?thesis by (auto simp: frozen_def writer_def)
qed

theorem closed_candidate_frozen_witness: "sk_read_only (demo_held 5 ''w2'') \<or> is_coordinator False demo_f (demo_held 5 ''w2'')"
  using closed_candidate_frozen [OF demo_fresh demo_path_f, of 9 "demo_run ''closed'' 1 (Some 1)"]
  by (simp add: demo_f_def sched_run_at_def row_at_def demo_run_def demo_held_def demo_row_def queued_task_def demo_schedule_def task_active_def)

text \<open>C21. A live task lease fences its task: while other workers, operators and recovery act at times before it
  expires, everything of the row but the requested stops is unchanged, whatever they call.\<close>

theorem live_lease_fences_task:
  assumes "sched_ids s" and "path (sched_step nt) ls s t" and "sched_task_at s k = Some r" and "sk_state r = ''leased''"
    and "sk_lease_owner r = Some a" "sk_lease_expires_at r = Some e" and "\<forall>(b, now) \<in> set ls. b \<noteq> Some a \<and> now < e"
  shows "\<exists>p c. sched_task_at t k = Some (r\<lparr> sk_pause_requested := p, sk_cancel_requested := c \<rparr>)"
proof -
  have "task_row s k = Some (unflagged r)" "task_holder (unflagged r) = Some (a, e)"
    using assms(3-6) by (simp_all add: task_row_def, simp add: task_holder_def)
  from task_leases.lease_protects [OF ids_path [OF assms(2,1)] this assms(7)]
  obtain q where "sched_task_at t k = Some q" "unflagged q = unflagged r" by (auto simp: task_row_def)
  then show ?thesis using unflagged_eq by metis
qed

theorem live_lease_fences_task_witness:
  "\<exists>p c. sched_task_at demo_c 3 = Some ((demo_held 3 ''w1'')\<lparr> sk_pause_requested := p, sk_cancel_requested := c \<rparr>)"
proof (rule live_lease_fences_task [OF demo_ids(2) path_last [OF demo_steps(2)]])
  show "sched_task_at demo_b 3 = Some (demo_held 3 ''w1'')" by (simp add: demo_b_def demo_defs)
qed (auto simp: demo_held_def)

text \<open>The lease generation identifies a delivery: when a task is leased with the generation it had at an earlier
  time, it was leased to the same worker with that generation at every time in between.\<close>

theorem task_generation_identifies_delivery:
  assumes "sched_ids s" and "path (sched_step nt) ls s u" and "path (sched_step nt) ms u t" and "sched_task_at s k = Some r"
    and "sched_task_at t k = Some r'" and "sk_lease_generation r' = sk_lease_generation r" and "sk_lease_owner r' = Some a"
  shows "\<exists>q. sched_task_at u k = Some q \<and> sk_lease_generation q = sk_lease_generation r \<and> sk_lease_owner q = Some a"
proof -
  have p: "path (ids_step nt) ls s u" by (rule ids_path [OF assms(2,1)])
  from sched_path_ids [OF assms(2,1)] have "path (ids_step nt) ms u t" by (rule ids_path [OF assms(3)])
  from task_deliveries.same_attempt_same_delivery [OF p this assms(4-7)] show ?thesis .
qed

theorem task_generation_identifies_delivery_witness:
  "\<exists>q. sched_task_at demo_c 3 = Some q \<and> sk_lease_generation q = 1 \<and> sk_lease_owner q = Some ''w1''"
proof -
  have at: "sched_task_at demo_b 3 = Some (demo_held 3 ''w1'')" "sched_task_at demo_c 3 = Some (demo_held 3 ''w1'')"
    by (simp_all add: demo_b_def demo_c_def demo_defs)
  from task_generation_identifies_delivery [OF demo_ids(2) path_last [OF demo_steps(2)] path_last [OF demo_steps(3)] at refl]
  show ?thesis by (simp add: demo_held_def)
qed

text \<open>C32. A task that is terminal stays terminal: no call of the scheduler revives it, delivers it again or charges
  it a repair.\<close>

theorem terminal_task_final:
  assumes "sched_ids s" and "path (sched_step nt) ls s t" and "sched_task_at s k = Some r" and "sk_state r = ''terminal''"
  shows "\<exists>r'. sched_task_at t k = Some r' \<and> sk_state r' = ''terminal'' \<and> sk_lease_generation r' = sk_lease_generation r \<and> sk_repairs r' = sk_repairs r"
  by (rule terminal_path [OF ids_path [OF assms(2,1)] assms(3,4)])

theorem terminal_task_final_witness:
  "\<exists>r'. sched_task_at (demo_db [demo_held 3 ''w1'', demo_done, demo_row 5] [demo_run ''open'' 0 (Some 1)] []) 4 = Some r' \<and> sk_state r' = ''terminal'' \<and>
     sk_lease_generation r' = 1"
proof -
  have "schedule_enqueue demo_world demo_d (demo_schedule 5) = Inr (demo_db [demo_held 3 ''w1'', demo_done, demo_row 5] [demo_run ''open'' 0 (Some 1)] [])"
    by (simp add: demo_d_def demo_done_def demo_enqueue_defs demo_defs)
  moreover have "sched_task_at demo_d 4 = Some demo_done" by (simp add: demo_d_def demo_done_def demo_defs)
  ultimately show ?thesis using terminal_task_final [OF demo_ids(4) path_last [OF demo_enqueued]] by (fastforce simp: demo_done_def)
qed

text \<open>C17. A claim respects every capacity limit: after a claim that returns a lease, the tasks that occupy an
  execution slot, stopped pauses apart, are within the global limit of the current policy, those of the claimed
  run within the limit the run was admitted with, and those of the provider of the chosen route (of the task,
  for a claim without a new attempt) within the provider limit.\<close>

theorem claim_within_limits:
  assumes "sched_ids db" and "claim_ready w db a = Inr (Some lease, db')"
  shows "active_count w db' (\<lambda>_. True) \<le> cap_global_limit (current_policy db') \<and>
    (\<exists>run. sched_run_at db' (tl_run_id lease) = Some run \<and> active_count w db' (\<lambda>r. sk_run_id r = tl_run_id lease) \<le> sn_effective_run_limit run) \<and>
    (\<forall>p. claim_provider a db' (tl_task_id lease) = Some p \<longrightarrow> active_count w db' (\<lambda>r. sk_provider r = p) \<le> cap_provider_limit (current_policy db'))"
  using claim_within_limits_aux [OF assms] claim_within_provider_limit [OF assms] by blast

theorem claim_within_limits_witness: "active_count demo_world demo_b (\<lambda>_. True) \<le> 3 \<and> active_count demo_world demo_b (\<lambda>_. True) = 1"
proof -
  have "current_policy demo_b = default_policy" by (simp add: current_policy_def demo_b_def)
  moreover have "active_count demo_world demo_b (\<lambda>_. True) = 1"
    by (simp add: active_count_def demo_b_def task_active_def paused_task_is_stopped_def demo_held_def demo_row_def queued_task_def)
  ultimately show ?thesis using claim_within_limits [OF demo_ids(1) demo_claim_1] by (simp add: default_policy_def)
qed

text \<open>A claim grants a ready task: the row it returns a lease for is leased to the claiming owner with the
  lease's generation and the requested time, no stop is requested of it, none of its dependencies is
  unfinished, and its run is admitted and not draining.\<close>

theorem claim_grants_ready_task:
  assumes "sched_ids db" and "claim_ready w db a = Inr (Some lease, db')"
  shows "\<exists>r run. sched_task_at db' (tl_task_id lease) = Some r \<and> sk_run_id r = tl_run_id lease \<and> sk_state r = ''leased'' \<and>
    sk_lease_owner r = Some (cl_owner a) \<and> sk_lease_generation r = tl_generation lease \<and>
    sk_lease_expires_at r = Some (sw_now w + cl_lease_for a) \<and> \<not> sk_pause_requested r \<and> \<not> sk_cancel_requested r \<and>
    \<not> dependency_pending db' r \<and> sched_run_at db' (sk_run_id r) = Some run \<and> sn_admitted run \<and> sn_candidate_state run \<in> {''open'', ''closed''}"
  by (rule claim_grants_ready [OF assms])

theorem claim_grants_ready_task_witness: "\<exists>r. sched_task_at demo_b 3 = Some r \<and> sk_lease_owner r = Some ''w1'' \<and> sk_lease_generation r = 1"
  using claim_grants_ready_task [OF demo_ids(1) demo_claim_1] by (auto simp: demo_lease_def demo_claim_def)

text \<open>C28. The feedback fence is exactly the set of tasks that accepted feedback waits for: the primaries with pending
  feedback, or else the tasks it was forwarded to, and everything they depend on, directly or not, through
  scheduled tasks that are not terminal. The search that computes it ends on cyclic dependencies too.\<close>

theorem feedback_fence_exact: "set (feedback_priority_fence db run_id) =
    (fence_edges (filter (\<lambda>r. sk_run_id r = run_id) (sd_tasks db)))\<^sup>* `` fence_roots db run_id"
  by (rule feedback_fence_reachable)

text \<open>C26. Every run with work is prepared: while the set of runs with queued tasks or expired leases does not
  change, n calls of the rotating preparation, n the number of runs over 128, rounded up, prepare each of them,
  wherever the cursor stands.\<close>

theorem every_run_prepared:
  assumes "run \<in> set (eligible_runs (sw_now w) db)"
  shows "\<exists>j. 128 * j < length (eligible_runs (sw_now w) db) \<and>
    run \<in> set (fst (prepare_epic_claim w (((\<lambda>d. snd (prepare_epic_claim w d)) ^^ j) db)))"
  by (rule prepare_covers [OF assms])

theorem every_run_prepared_witness: "9 \<in> set (fst (prepare_epic_claim demo_world demo_a))"
proof -
  have "eligible_runs (sw_now demo_world) demo_a = [9]" by (simp add: eligible_runs_def demo_a_def demo_row_def queued_task_def demo_schedule_def)
  with every_run_prepared [of 9 demo_world demo_a] show ?thesis by auto
qed

text \<open>C6. The repository implements the protocol: on a database with unique identifiers, every call that returns is
  a sequence of guarded moves of the worker that makes it (a row changes under its lease or its state, a
  queued row without conflict is granted, an effect is admitted behind its barriers, a drained candidate is
  closed), and every sequence of moves keeps the invariant of the tables.\<close>

theorem scheduler_refines_protocol:
  assumes "sched_step nt l s t" and "sched_ids s"
  shows "(move nt l)\<^sup>*\<^sup>* s t \<and> (\<forall>u v. (move nt l)\<^sup>*\<^sup>* u v \<and> sched_inv nt u \<longrightarrow> sched_inv nt v)"
  using sched_step_moves [OF assms] moves_inv by blast

theorem scheduler_refines_protocol_witness: "(move False (Some ''w1'', 1))\<^sup>*\<^sup>* demo_a demo_b"
  using scheduler_refines_protocol [OF demo_steps(1) demo_ids(1)] by blast

end
