(* ===== verification/Forge_Quota.thy ===== *)
theory Forge_Quota
  imports Forge_Schedule
begin

text \<open>
  The quota of provider accounts: \<^verbatim>\<open>persistence/repositories/subscription_quota.py\<close> with its tables in
  \<^verbatim>\<open>persistence/models/subscription_quota.py\<close>, the evidence of exhaustion in \<^verbatim>\<open>domain/provider_quota.py\<close>
  and the proof of stopped clients in \<^verbatim>\<open>persistence/repositories/subscription_launch.py\<close>. Routes are
  charged to pools. Evidence that a pool is exhausted blocks it until a horizon; after the horizon one
  attempt at a time may probe it, and only the success of a probe that no newer evidence has overtaken
  opens the pool again.

  The quota tables are one record; the tables of the scheduler, which these calls only read, and the
  launches of clients are part of the record \<open>quota_world\<close> that a call is given, with the policy, the
  readings of the clock in the order of the program, a fresh identifier and the runs that others hold
  locked. Instants are microseconds from the first day of year 1.
\<close>

section \<open>Evidence\<close>

record quota_exhaustion =
  qx_observed_at :: datetime
  qx_reason :: string
  qx_reset_at :: "datetime option"

fun aware_instant :: "datetime \<Rightarrow> int" where
  "aware_instant (Aware t) = t"
| "aware_instant (Naive t) = t"

definition quota_aware :: "datetime \<Rightarrow> string \<Rightarrow> py_exn option" where
  "quota_aware v name = when_raise (\<not> is_aware v) (ValueError (name @ '' must be timezone-aware''))"

definition quota_exhaustion_validate :: "quota_exhaustion \<Rightarrow> py_exn option" where
  "quota_exhaustion_validate x = seq_raise [
     quota_aware (qx_observed_at x) ''observed_at'',
     when_raise (qx_reason x = [] \<or> 128 < length (qx_reason x)) (ValueError ''quota reason must be a bounded stable classifier''),
     when_raise (\<not> list_all (\<lambda>c. c \<in> set ''abcdefghijklmnopqrstuvwxyz0123456789_:-'') (qx_reason x))
       (ValueError ''quota reason must be a stable classifier''),
     opt_raise (qx_reset_at x) (\<lambda>t. seq_raise [quota_aware t ''reset_at'',
       when_raise (aware_instant t \<le> aware_instant (qx_observed_at x)) (ValueError ''reset_at must be after observed_at'')])]"

text \<open>\<^verbatim>\<open>isoformat\<close> of an instant in UTC: the date of an ordinal day as the standard library finds it.\<close>

definition month_lengths :: "bool \<Rightarrow> int list" where
  "month_lengths leap = [31, if leap then 29 else 28, 31, 30, 31, 30, 31, 31, 30, 31, 30, 31]"

fun month_of_day :: "int list \<Rightarrow> int \<Rightarrow> int \<Rightarrow> int \<times> int" where
  "month_of_day [] m n = (m, n + 1)"
| "month_of_day (len # lens) m n = (if n < len then (m, n + 1) else month_of_day lens (m + 1) (n - len))"

definition civil_date :: "int \<Rightarrow> int \<times> int \<times> int" where
  "civil_date day =
     (let n400 = day div 146097; a = day mod 146097; n100 = a div 36524; b = a mod 36524; n4 = b div 1461; c = b mod 1461;
          n1 = c div 365; d = c mod 365; year = n400 * 400 + 1 + n100 * 100 + n4 * 4 + n1 in
      if n1 = 4 \<or> n100 = 4 then (year - 1, 12, 31)
      else (year, month_of_day (month_lengths (n1 = 3 \<and> (n4 \<noteq> 24 \<or> n100 = 3))) 1 d))"

definition zero_padded :: "nat \<Rightarrow> int \<Rightarrow> string" where
  "zero_padded width n = (let s = int_str n in replicate (width - length s) (CHR ''0'') @ s)"

definition utc_isoformat :: "int \<Rightarrow> string" where
  "utc_isoformat t =
     (let s = t div 1000000; us = t mod 1000000; (year, month, day) = civil_date (s div 86400); q = s mod 86400 in
      zero_padded 4 year @ ''-'' @ zero_padded 2 month @ ''-'' @ zero_padded 2 day @ ''T'' @ zero_padded 2 (q div 3600) @ '':'' @
      zero_padded 2 (q mod 3600 div 60) @ '':'' @ zero_padded 2 (q mod 60) @ (if us = 0 then '''' else ''.'' @ zero_padded 6 us) @ ''+00:00'')"

definition exhaustion_payload :: "quota_exhaustion \<Rightarrow> (string, pyval) dict" where
  "exhaustion_payload x = [(''observed_at'', PStr (utc_isoformat (aware_instant (qx_observed_at x)))), (''reason'', PStr (qx_reason x)),
     (''reset_at'', case qx_reset_at x of None \<Rightarrow> PNone | Some t \<Rightarrow> PStr (utc_isoformat (aware_instant t)))]"

section \<open>Stopped clients\<close>

text \<open>A launch row with the terminal proof its payload holds, \<open>None\<close> when that is not a valid proof.\<close>

record launch_row =
  la_attempt_id :: uuid
  la_launch_id :: string
  la_worker_identity :: string
  la_state :: string
  la_pid :: "int option"
  la_process_start_token :: "string option"
  la_terminal :: "launch_terminal_proof option"

fun launches_matched :: "launch_row list \<Rightarrow> launch_terminal_proof option \<Rightarrow> string \<Rightarrow> bool \<Rightarrow> bool" where
  "launches_matched [] expected worker matched = matched"
| "launches_matched (row # rows) expected worker matched = (case la_terminal row of
     None \<Rightarrow> False
   | Some proof \<Rightarrow>
       if la_state row \<noteq> ''terminal'' \<or> la_worker_identity row \<noteq> worker \<or> \<not> lp_stop_confirmed proof \<or>
          (la_launch_id row, la_pid row, la_process_start_token row) \<noteq>
            (lp_launch_id proof, Some (lp_pid proof), Some (lp_process_identity proof))
       then False
       else (case expected of
           None \<Rightarrow> launches_matched rows expected worker matched
         | Some e \<Rightarrow> if la_launch_id row = lp_launch_id e
             then (if proof \<noteq> e then False else launches_matched rows expected worker True)
             else launches_matched rows expected worker matched))"

definition launches_confirmed :: "launch_row list \<Rightarrow> launch_terminal_proof option \<Rightarrow> bool \<Rightarrow> string option \<Rightarrow> bool" where
  "launches_confirmed rows expected require_decision worker_identity = (case worker_identity of
     None \<Rightarrow> False
   | Some worker \<Rightarrow> worker \<noteq> [] \<and>
       \<not> (require_decision \<and> (case expected of None \<Rightarrow> True | Some e \<Rightarrow> \<not> permits_decision e)) \<and>
       launches_matched rows expected worker (expected = None))"

section \<open>Tables\<close>

record quota_pool =
  qo_key :: quota_pool_key
  qo_revision :: int
  qo_blocked :: bool
  qo_observed_at :: "int option"
  qo_reason :: "string option"
  qo_reset_at :: "int option"
  qo_next_eligible_at :: "int option"
  qo_retry_basis :: "string option"
  qo_probe_attempt_id :: "uuid option"
  qo_recovered_at :: "int option"

record quota_observation =
  ob_id :: uuid
  ob_key :: quota_pool_key
  ob_source_key :: string
  ob_source_attempt_id :: "uuid option"
  ob_actor_id :: "uuid option"
  ob_observed_at :: int
  ob_reason :: string
  ob_reset_at :: "int option"
  ob_next_eligible_at :: int
  ob_retry_basis :: string
  ob_evidence_digest :: string

record quota_admission =
  qa_attempt_id :: uuid
  qa_key :: quota_pool_key
  qa_revision :: int
  qa_admitted_at :: int
  qa_probe :: bool
  qa_finished_at :: "int option"

record quota_db =
  qd_pools :: "quota_pool list"
  qd_observations :: "quota_observation list"
  qd_admissions :: "quota_admission list"

datatype clock_read = Read_lease | Read_finish | Read_cooldown | Read_status | Read_admission | Read_recovered

record quota_world =
  qw_sq :: bool
  qw_frepr :: "rat \<Rightarrow> string"
  qw_policy :: quota_policy
  qw_clock :: "clock_read \<Rightarrow> int"
  qw_fresh_id :: uuid
  qw_sched :: sched_db
  qw_launches :: "launch_row list"
  qw_locked_runs :: "uuid list"

datatype quota_error = QuotaAdmissionDenied string | Quota_invalid py_exn

abbreviation quota_refused :: "string \<Rightarrow> quota_error + 'a" where
  "quota_refused m \<equiv> Inl (Quota_invalid (ValueError m))"

definition quota_lift :: "'a result \<Rightarrow> quota_error + 'a" where
  "quota_lift m = (case m of Inl e \<Rightarrow> Inl (Quota_invalid e) | Inr x \<Rightarrow> Inr x)"

definition pool_at :: "quota_db \<Rightarrow> quota_pool_key \<Rightarrow> quota_pool option" where
  "pool_at db k = row_at qo_key k (qd_pools db)"

definition admission_at :: "quota_db \<Rightarrow> uuid \<Rightarrow> quota_admission option" where
  "admission_at db i = row_at qa_attempt_id i (qd_admissions db)"

definition put_pool :: "quota_pool \<Rightarrow> quota_db \<Rightarrow> quota_db" where
  "put_pool r db = db\<lparr> qd_pools := put_row qo_key r (qd_pools db) \<rparr>"

definition put_admission :: "quota_admission \<Rightarrow> quota_db \<Rightarrow> quota_db" where
  "put_admission a db = db\<lparr> qd_admissions := put_row qa_attempt_id a (qd_admissions db) \<rparr>"

section \<open>Status\<close>

datatype pool_state = Pool_blocked | Pool_unknown | Pool_eligible

record pool_quota_status =
  pq_key :: quota_pool_key
  pq_revision :: int
  pq_status :: pool_state
  pq_observed_at :: "int option"
  pq_reason :: "string option"
  pq_reset_at :: "int option"
  pq_next_eligible_at :: "int option"
  pq_retry_basis :: "string option"
  pq_probe_attempt_id :: "uuid option"
  pq_recovered_at :: "int option"

definition allows_attempt :: "pool_quota_status \<Rightarrow> bool" where
  "allows_attempt s = (pq_status s \<noteq> Pool_blocked)"

definition pool_state_of :: "quota_world \<Rightarrow> quota_pool \<Rightarrow> pool_state" where
  "pool_state_of w row = (if \<not> qo_blocked row then Pool_unknown
     else if qo_probe_attempt_id row \<noteq> None \<or> (case qo_next_eligible_at row of None \<Rightarrow> True | Some e \<Rightarrow> qw_clock w Read_status < e)
     then Pool_blocked else Pool_eligible)"

definition status_of :: "quota_world \<Rightarrow> quota_pool_key \<Rightarrow> quota_pool option \<Rightarrow> pool_quota_status" where
  "status_of w key found = (case found of
     None \<Rightarrow> \<lparr> pq_key = key, pq_revision = 0, pq_status = Pool_unknown, pq_observed_at = None, pq_reason = None, pq_reset_at = None,
       pq_next_eligible_at = None, pq_retry_basis = None, pq_probe_attempt_id = None, pq_recovered_at = None \<rparr>
   | Some row \<Rightarrow> \<lparr> pq_key = key, pq_revision = qo_revision row, pq_status = pool_state_of w row, pq_observed_at = qo_observed_at row,
       pq_reason = qo_reason row, pq_reset_at = qo_reset_at row, pq_next_eligible_at = qo_next_eligible_at row,
       pq_retry_basis = qo_retry_basis row, pq_probe_attempt_id = qo_probe_attempt_id row, pq_recovered_at = qo_recovered_at row \<rparr>)"

definition pool_status :: "quota_world \<Rightarrow> quota_db \<Rightarrow> quota_pool_key \<Rightarrow> pool_quota_status" where
  "pool_status w db key = status_of w key (pool_at db key)"

definition new_pool :: "quota_pool_key \<Rightarrow> quota_pool" where
  "new_pool key = \<lparr> qo_key = key, qo_revision = 0, qo_blocked = False, qo_observed_at = None, qo_reason = None, qo_reset_at = None,
     qo_next_eligible_at = None, qo_retry_basis = None, qo_probe_attempt_id = None, qo_recovered_at = None \<rparr>"

definition lock_pool :: "quota_db \<Rightarrow> quota_pool_key \<Rightarrow> quota_pool \<times> quota_db" where
  "lock_pool db key = (case pool_at db key of
     Some row \<Rightarrow> (row, db)
   | None \<Rightarrow> (new_pool key, db\<lparr> qd_pools := qd_pools db @ [new_pool key] \<rparr>))"

section \<open>Reports of exhaustion\<close>

definition cooldown_us :: "quota_world \<Rightarrow> int" where
  "cooldown_us w = qp_unknown_reset_cooldown_seconds (qw_policy w) * 1000000"

definition evidence_horizon :: "quota_world \<Rightarrow> quota_exhaustion \<Rightarrow> int" where
  "evidence_horizon w x = (case qx_reset_at x of
     Some t \<Rightarrow> aware_instant t | None \<Rightarrow> aware_instant (qx_observed_at x) + cooldown_us w)"

definition evidence_basis :: "quota_exhaustion \<Rightarrow> string" where
  "evidence_basis x = (if qx_reset_at x = None then ''probe_cooldown'' else ''known_reset'')"

definition source_payload :: "quota_pool_key \<Rightarrow> uuid option \<Rightarrow> uuid option \<Rightarrow> string \<Rightarrow> (string, pyval) dict" where
  "source_payload key source_attempt_id actor_id idempotency_key =
     [(''provider'', PStr (qk_provider key)), (''account'', PStr (qk_account key)), (''pool'', PStr (qk_pool key)),
      (''attempt'', case source_attempt_id of None \<Rightarrow> PNone | Some u \<Rightarrow> PStr (uuid_str u)),
      (''actor'', case actor_id of None \<Rightarrow> PNone | Some u \<Rightarrow> PStr (uuid_str u)),
      (''key'', PStr idempotency_key)]"

definition report_sources :: "quota_db \<Rightarrow> quota_pool_key \<Rightarrow> string \<Rightarrow> uuid option \<Rightarrow> uuid option \<Rightarrow> py_exn option" where
  "report_sources db key idempotency_key source_attempt_id actor_id = seq_raise [
     when_raise ((source_attempt_id = None) = (actor_id = None)) (ValueError ''quota evidence requires exactly one source''),
     when_raise ((case source_attempt_id of Some u \<Rightarrow> Some u | None \<Rightarrow> actor_id) = Some 0 \<or> idempotency_key = [] \<or>
         255 < length idempotency_key) (ValueError ''quota evidence source is invalid''),
     opt_raise source_attempt_id (\<lambda>u. when_raise (map_option qa_key (admission_at db u) \<noteq> Some key)
       (ValueError ''quota evidence differs from admitted account''))]"

definition observed_pool :: "quota_world \<Rightarrow> quota_exhaustion \<Rightarrow> quota_pool \<Rightarrow> quota_pool" where
  "observed_pool w x row =
     (let e = evidence_horizon w x; seen = aware_instant (qx_observed_at x);
          row' = (if \<not> qo_blocked row \<or> (case qo_next_eligible_at row of None \<Rightarrow> True | Some n \<Rightarrow> n \<le> e)
            then row\<lparr> qo_next_eligible_at := Some e, qo_reset_at := map_option aware_instant (qx_reset_at x),
              qo_retry_basis := Some (evidence_basis x) \<rparr> else row);
          row'' = (if (case qo_observed_at row' of None \<Rightarrow> True | Some n \<Rightarrow> n \<le> seen)
            then row'\<lparr> qo_observed_at := Some seen, qo_reason := Some (qx_reason x) \<rparr> else row') in
      row''\<lparr> qo_revision := qo_revision row'' + 1, qo_blocked := True, qo_recovered_at := None \<rparr>)"

definition observation_row :: "quota_world \<Rightarrow> quota_pool_key \<Rightarrow> quota_exhaustion \<Rightarrow> uuid option \<Rightarrow> uuid option \<Rightarrow> string \<Rightarrow> string
    \<Rightarrow> quota_observation" where
  "observation_row w key x source_attempt_id actor_id source_key digest = \<lparr> ob_id = qw_fresh_id w, ob_key = key, ob_source_key = source_key,
     ob_source_attempt_id = source_attempt_id, ob_actor_id = actor_id, ob_observed_at = aware_instant (qx_observed_at x),
     ob_reason = qx_reason x, ob_reset_at = map_option aware_instant (qx_reset_at x), ob_next_eligible_at = evidence_horizon w x,
     ob_retry_basis = evidence_basis x, ob_evidence_digest = digest \<rparr>"

definition report_exhaustion :: "quota_world \<Rightarrow> quota_db \<Rightarrow> quota_pool_key \<Rightarrow> quota_exhaustion \<Rightarrow> string \<Rightarrow> uuid option \<Rightarrow> uuid option
    \<Rightarrow> quota_error + (pool_quota_status \<times> quota_db)" where
  "report_exhaustion w db key x idempotency_key source_attempt_id actor_id =
     (case report_sources db key idempotency_key source_attempt_id actor_id of
        Some e \<Rightarrow> Inl (Quota_invalid e)
      | None \<Rightarrow> (let (row, db1) = lock_pool db key in
          ebind (quota_lift (canonical_digest (qw_sq w) (qw_frepr w) (source_payload key source_attempt_id actor_id idempotency_key))) (\<lambda>source_key.
          ebind (quota_lift (canonical_digest (qw_sq w) (qw_frepr w) (exhaustion_payload x))) (\<lambda>digest.
            case find (\<lambda>ob. ob_source_key ob = source_key) (qd_observations db1) of
              Some prior \<Rightarrow> if ob_evidence_digest prior \<noteq> digest then quota_refused ''quota evidence replay conflicts''
                else Inr (status_of w key (Some row), db1)
            | None \<Rightarrow> (let row' = observed_pool w x row in
                Inr (status_of w key (Some row'), put_pool row' (db1\<lparr> qd_observations := qd_observations db1 @
                  [observation_row w key x source_attempt_id actor_id source_key digest] \<rparr>)))))))"

section \<open>Probes\<close>

definition cooldown :: "quota_world \<Rightarrow> quota_pool \<Rightarrow> quota_pool" where
  "cooldown w row = (let e = qw_clock w Read_cooldown + cooldown_us w;
     row' = (if (case qo_next_eligible_at row of None \<Rightarrow> True | Some n \<Rightarrow> n < e)
       then row\<lparr> qo_next_eligible_at := Some e, qo_reset_at := None, qo_retry_basis := Some ''probe_cooldown'' \<rparr> else row) in
     row'\<lparr> qo_blocked := True \<rparr>)"

text \<open>The lease of an attempt is live while the scheduled task of the attempt holds it; without a scheduled
  task nothing is known of it.\<close>

definition lease_may_live :: "quota_world \<Rightarrow> attempt_row \<Rightarrow> bool" where
  "lease_may_live w attempt =
     (case find (\<lambda>t. sk_run_id t = sa_run_id attempt \<and> sk_task_id t = sa_task_row_id attempt) (sd_tasks (qw_sched w)) of
        None \<Rightarrow> True
      | Some t \<Rightarrow> sk_lease_owner t = sa_lease_owner attempt \<and> Some (sk_lease_generation t) = sa_lease_generation attempt \<and>
          (case sk_lease_expires_at t of None \<Rightarrow> False | Some e \<Rightarrow> qw_clock w Read_lease < e))"

definition probe_proof :: "quota_world \<Rightarrow> quota_db \<Rightarrow> uuid \<Rightarrow> quota_admission option" where
  "probe_proof w db probe = (case row_at sa_id probe (sd_attempts (qw_sched w)) of
     None \<Rightarrow> None
   | Some attempt \<Rightarrow>
       if sd_runs (qw_sched w) (sa_run_id attempt) = None \<or> sa_run_id attempt \<in> set (qw_locked_runs w) then None
       else (case admission_at db probe of
           None \<Rightarrow> None
         | Some admission \<Rightarrow>
             if qa_finished_at admission = None \<and> lease_may_live w attempt then None
             else if \<not> launches_confirmed (filter (\<lambda>l. la_attempt_id l = sa_id attempt) (qw_launches w)) None False (sa_lease_owner attempt)
             then None else Some admission))"

definition recover_probe :: "quota_world \<Rightarrow> quota_pool \<times> quota_db \<Rightarrow> quota_pool \<times> quota_db" where
  "recover_probe w locked = (let (row, db) = locked in
     case qo_probe_attempt_id row of
       None \<Rightarrow> (row, db)
     | Some probe \<Rightarrow> (case probe_proof w db probe of
         None \<Rightarrow> (row, db)
       | Some admission \<Rightarrow>
           (let finished = (case qa_finished_at admission of Some t \<Rightarrow> t | None \<Rightarrow> qw_clock w Read_finish);
                row' = row\<lparr> qo_probe_attempt_id := None \<rparr>;
                row'' = (if qo_revision row' = qa_revision admission then cooldown w row' else row') in
            (row'', put_pool row'' (put_admission (admission\<lparr> qa_finished_at := Some finished \<rparr>) db)))))"

definition quota_eligible :: "quota_world \<Rightarrow> quota_db \<Rightarrow> route_spec \<Rightarrow> quota_error + (bool \<times> quota_db)" where
  "quota_eligible w db route = ebind (quota_lift (key_for (qw_policy w) route)) (\<lambda>key.
     let (row, db') = recover_probe w (lock_pool db key) in Inr (allows_attempt (status_of w key (Some row)), db'))"

section \<open>Admission and settlement\<close>

definition quota_admit :: "quota_world \<Rightarrow> quota_db \<Rightarrow> route_spec \<Rightarrow> uuid \<Rightarrow> quota_error + quota_db" where
  "quota_admit w db route attempt_id = ebind (quota_lift (key_for (qw_policy w) route)) (\<lambda>key.
     let (row, db1) = recover_probe w (lock_pool db key) in
     if \<not> allows_attempt (status_of w key (Some row)) then Inl (QuotaAdmissionDenied ''provider quota pool is blocked'')
     else if admission_at db1 attempt_id \<noteq> None then quota_refused ''quota admission cannot be issued twice''
     else let db2 = db1\<lparr> qd_admissions := qd_admissions db1 @ [\<lparr> qa_attempt_id = attempt_id, qa_key = key, qa_revision = qo_revision row,
         qa_admitted_at = qw_clock w Read_admission, qa_probe = qo_blocked row, qa_finished_at = None \<rparr>] \<rparr> in
       Inr (if qo_blocked row then put_pool (row\<lparr> qo_probe_attempt_id := Some attempt_id \<rparr>) db2 else db2))"

definition settled_pool :: "quota_world \<Rightarrow> quota_admission \<Rightarrow> quota_exhaustion option \<Rightarrow> bool \<Rightarrow> quota_pool \<Rightarrow> quota_pool" where
  "settled_pool w admission exhaustion succeeded row =
     (if qo_probe_attempt_id row = Some (qa_attempt_id admission) then
        (let row' = row\<lparr> qo_probe_attempt_id := None \<rparr> in
         if succeeded \<and> exhaustion = None \<and> qo_revision row' = qa_revision admission
         then row'\<lparr> qo_blocked := False, qo_recovered_at := Some (qw_clock w Read_recovered) \<rparr>
         else if exhaustion = None \<and> qo_revision row' = qa_revision admission then cooldown w row' else row')
      else row)"

definition quota_settle :: "quota_world \<Rightarrow> quota_db \<Rightarrow> uuid \<Rightarrow> quota_exhaustion option \<Rightarrow> bool \<Rightarrow> bool \<Rightarrow> quota_error + quota_db" where
  "quota_settle w db attempt_id exhaustion succeeded stopped = (case admission_at db attempt_id of
     None \<Rightarrow> Inr db
   | Some admission \<Rightarrow> (let key = qa_key admission; (row, db1) = lock_pool db key in
       ebind (case exhaustion of
           None \<Rightarrow> Inr (row, db1)
         | Some x \<Rightarrow> ebind (report_exhaustion w db1 key x ''provider-result'' (Some attempt_id) None) (\<lambda>(_, db2). Inr (lock_pool db2 key)))
         (\<lambda>(row, db2). if \<not> stopped then Inr db2
            else let db3 = put_admission (admission\<lparr> qa_finished_at := Some (qw_clock w Read_finish) \<rparr>) db2 in
              Inr (put_pool (settled_pool w admission exhaustion succeeded row) db3))))"

section \<open>The choice of a route over the quota tables\<close>

fun first_eligible :: "quota_world \<Rightarrow> (route_spec \<Rightarrow> bool) \<Rightarrow> candidate_task_route list \<Rightarrow> quota_db
    \<Rightarrow> quota_error + (candidate_task_route option \<times> quota_db)" where
  "first_eligible w permitted [] db = Inr (None, db)"
| "first_eligible w permitted (x # xs) db = (if \<not> permitted (ct_route x) then first_eligible w permitted xs db
     else ebind (quota_eligible w db (ct_route x)) (\<lambda>(ok, db'). if ok then Inr (Some x, db') else first_eligible w permitted xs db'))"

definition choose_route :: "quota_world \<Rightarrow> quota_db \<Rightarrow> route_spec list option \<Rightarrow> logical_task_contract
    \<Rightarrow> quota_error + (route_binding option \<times> quota_db)" where
  "choose_route w db eligible_routes c =
     (let permitted = (\<lambda>route. case eligible_routes of None \<Rightarrow> True | Some rs \<Rightarrow> route \<in> set rs);
          current = rb_effective (lt_route c); current_available = permitted current in
      ebind (if current_available then quota_eligible w db current else Inr (False, db)) (\<lambda>(ok, db1).
      if ok then Inr (Some (lt_route c), db1)
      else if lt_purpose c = PRIMARY \<or> rb_is_primary (lt_route c) then Inr (None, db1)
      else case sd_envelopes (qw_sched w) (lt_run_id c) of
        None \<Rightarrow> Inr (None, db1)
      | Some e \<Rightarrow> ebind (first_eligible w permitted (tl (task_candidate_routes c (Some e))) db1) (\<lambda>(found, db2).
          case found of
            None \<Rightarrow> Inr (None, db2)
          | Some x \<Rightarrow> ebind (quota_lift (if ct_kind x = Cand_preferred then route_for e (lt_purpose c)
              else fallback_binding e c current_available (ct_route x))) (\<lambda>b. Inr (Some b, db2)))))"

section \<open>The tables by key\<close>

definition observed_count :: "quota_db \<Rightarrow> quota_pool_key \<Rightarrow> nat" where
  "observed_count db k = length (filter (\<lambda>ob. ob_key ob = k) (qd_observations db))"

type_synonym quota_tables = "(quota_pool_key \<rightharpoonup> quota_pool) \<times> (uuid \<rightharpoonup> quota_admission) \<times> (quota_pool_key \<Rightarrow> nat)"

definition quota_view :: "quota_db \<Rightarrow> quota_tables" where
  "quota_view db = (pool_at db, admission_at db, observed_count db)"

lemma pool_at_put: "pool_at db (qo_key r) \<noteq> None \<Longrightarrow> pool_at (put_pool r db) = (pool_at db)(qo_key r \<mapsto> r)"
  by (rule ext) (auto simp: pool_at_def put_pool_def row_at_put row_at_None)

lemma admission_at_put: "admission_at db (qa_attempt_id a) \<noteq> None \<Longrightarrow> admission_at (put_admission a db) = (admission_at db)(qa_attempt_id a \<mapsto> a)"
  by (rule ext) (auto simp: admission_at_def put_admission_def row_at_put row_at_None)

lemma admission_at_append: "admission_at db (qa_attempt_id a) = None \<Longrightarrow>
    admission_at (db\<lparr> qd_admissions := qd_admissions db @ [a] \<rparr>) = (admission_at db)(qa_attempt_id a \<mapsto> a)"
  by (rule ext) (auto simp: admission_at_def row_at_append split: option.split)

lemma pool_at_append: "pool_at db (qo_key r) = None \<Longrightarrow> pool_at (db\<lparr> qd_pools := qd_pools db @ [r] \<rparr>) = (pool_at db)(qo_key r \<mapsto> r)"
  by (rule ext) (auto simp: pool_at_def row_at_append split: option.split)

lemma quota_frames [simp]:
  "pool_at (put_admission a db) = pool_at db" "pool_at (db\<lparr> qd_admissions := as \<rparr>) = pool_at db" "pool_at (db\<lparr> qd_observations := os \<rparr>) = pool_at db"
  "admission_at (put_pool r db) = admission_at db" "admission_at (db\<lparr> qd_pools := rs \<rparr>) = admission_at db"
  "admission_at (db\<lparr> qd_observations := os \<rparr>) = admission_at db"
  "observed_count (put_pool r db) = observed_count db" "observed_count (put_admission a db) = observed_count db"
  "observed_count (db\<lparr> qd_pools := rs \<rparr>) = observed_count db" "observed_count (db\<lparr> qd_admissions := as \<rparr>) = observed_count db"
  by (auto simp: pool_at_def admission_at_def put_pool_def put_admission_def observed_count_def fun_eq_iff)

lemma observed_count_append: "observed_count (db\<lparr> qd_observations := qd_observations db @ [ob] \<rparr>) =
    (observed_count db)(ob_key ob := Suc (observed_count db (ob_key ob)))"
  by (rule ext) (simp add: observed_count_def)

lemma pool_at_key: "pool_at db k = Some r \<Longrightarrow> qo_key r = k"
  unfolding pool_at_def by (drule row_at_Some) simp

lemma admission_at_key: "admission_at db i = Some a \<Longrightarrow> qa_attempt_id a = i"
  unfolding admission_at_def by (drule row_at_Some) simp

lemma key_kept [simp]: "qo_key (observed_pool w x r) = qo_key r" "qo_key (cooldown w r) = qo_key r" "qo_key (settled_pool w a y s r) = qo_key r"
    "qo_key (new_pool k) = k"
  by (simp_all add: observed_pool_def cooldown_def settled_pool_def new_pool_def Let_def)

section \<open>Moves\<close>

text \<open>What an attempt's rows must show before its probe is taken from it by another call: its run is locked, its
  lease is gone, and every client it launched has stopped.\<close>

definition probe_stopped :: "quota_world \<Rightarrow> uuid \<Rightarrow> bool" where
  "probe_stopped w i = (\<exists>attempt. row_at sa_id i (sd_attempts (qw_sched w)) = Some attempt \<and>
     sa_run_id attempt \<notin> set (qw_locked_runs w) \<and> \<not> lease_may_live w attempt \<and>
     (\<forall>l \<in> set (qw_launches w). la_attempt_id l = i \<longrightarrow> la_state l = ''terminal'' \<and> Some (la_worker_identity l) = sa_lease_owner attempt \<and>
        (\<exists>proof. la_terminal l = Some proof \<and> lp_stop_confirmed proof \<and> lp_launch_id proof = la_launch_id l)))"

definition released :: "quota_world \<Rightarrow> quota_admission \<Rightarrow> quota_pool \<Rightarrow> quota_pool" where
  "released w a r = (let r' = r\<lparr> qo_probe_attempt_id := None \<rparr> in if qo_revision r' = qa_revision a then cooldown w r' else r')"

inductive quota_move :: "quota_world \<Rightarrow> quota_tables \<Rightarrow> quota_tables \<Rightarrow> bool" for w where
  opened: "P k = None \<Longrightarrow> quota_move w (P, A, n) (P(k \<mapsto> new_pool k), A, n)"
| observed: "P k = Some r \<Longrightarrow> quota_move w (P, A, n) (P(k \<mapsto> observed_pool w x r), A, n(k := Suc (n k)))"
| reclaimed: "P k = Some r \<Longrightarrow> qo_probe_attempt_id r = Some i \<Longrightarrow> A i = Some a \<Longrightarrow> qa_finished_at a = None \<Longrightarrow> probe_stopped w i \<Longrightarrow>
    quota_move w (P, A, n) (P(k \<mapsto> released w a r), A(i \<mapsto> a\<lparr> qa_finished_at := Some t \<rparr>), n)"
| admitted: "P k = Some r \<Longrightarrow> \<not> qo_blocked r \<Longrightarrow> A i = None \<Longrightarrow>
    quota_move w (P, A, n) (P, A(i \<mapsto> \<lparr> qa_attempt_id = i, qa_key = k, qa_revision = qo_revision r, qa_admitted_at = t, qa_probe = False,
      qa_finished_at = None \<rparr>), n)"
| probed: "P k = Some r \<Longrightarrow> qo_blocked r \<Longrightarrow> qo_probe_attempt_id r = None \<Longrightarrow> qo_next_eligible_at r = Some e \<Longrightarrow>
    e \<le> qw_clock w Read_status \<Longrightarrow> A i = None \<Longrightarrow>
    quota_move w (P, A, n) (P(k \<mapsto> r\<lparr> qo_probe_attempt_id := Some i \<rparr>), A(i \<mapsto> \<lparr> qa_attempt_id = i, qa_key = k, qa_revision = qo_revision r,
      qa_admitted_at = t, qa_probe = True, qa_finished_at = None \<rparr>), n)"
| finished: "A i = Some a \<Longrightarrow> P (qa_key a) = Some r \<Longrightarrow> qo_probe_attempt_id r \<noteq> Some i \<Longrightarrow>
    quota_move w (P, A, n) (P, A(i \<mapsto> a\<lparr> qa_finished_at := Some t \<rparr>), n)"
| failed: "A i = Some a \<Longrightarrow> P (qa_key a) = Some r \<Longrightarrow> qo_probe_attempt_id r = Some i \<Longrightarrow> r' \<in> {released w a r, r\<lparr> qo_probe_attempt_id := None \<rparr>} \<Longrightarrow>
    quota_move w (P, A, n) (P(qa_key a \<mapsto> r'), A(i \<mapsto> a\<lparr> qa_finished_at := Some t \<rparr>), n)"
| succeeded: "A i = Some a \<Longrightarrow> P (qa_key a) = Some r \<Longrightarrow> qo_probe_attempt_id r = Some i \<Longrightarrow> qo_revision r = qa_revision a \<Longrightarrow>
    quota_move w (P, A, n) (P(qa_key a \<mapsto> r\<lparr> qo_probe_attempt_id := None, qo_blocked := False, qo_recovered_at := Some t \<rparr>),
      A(i \<mapsto> a\<lparr> qa_finished_at := Some t' \<rparr>), n)"

inductive_cases quota_moveE: "quota_move w s t"

lemma launches_matched_all:
  "launches_matched ls None worker True \<longleftrightarrow> (\<forall>l \<in> set ls. la_state l = ''terminal'' \<and> la_worker_identity l = worker \<and>
     (\<exists>proof. la_terminal l = Some proof \<and> lp_stop_confirmed proof \<and>
       (la_launch_id l, la_pid l, la_process_start_token l) = (lp_launch_id proof, Some (lp_pid proof), Some (lp_process_identity proof))))"
  by (induction ls) (auto split: option.split)

lemma probe_proof_stopped:
  assumes "probe_proof w db i = Some a" and "qa_finished_at a = None"
  shows "admission_at db i = Some a \<and> probe_stopped w i"
proof -
  obtain attempt where at: "row_at sa_id i (sd_attempts (qw_sched w)) = Some attempt" "admission_at db i = Some a"
      "sa_run_id attempt \<notin> set (qw_locked_runs w)" "\<not> lease_may_live w attempt"
      "launches_confirmed (filter (\<lambda>l. la_attempt_id l = sa_id attempt) (qw_launches w)) None False (sa_lease_owner attempt)"
    using assms by (auto simp: probe_proof_def split: option.splits if_splits)
  moreover have "sa_id attempt = i" using row_at_Some [OF at(1)] by simp
  ultimately show ?thesis
    by (auto simp: probe_stopped_def launches_confirmed_def launches_matched_all split: option.splits)
qed

section \<open>Every call is a sequence of moves\<close>

abbreviation quota_moves :: "quota_world \<Rightarrow> quota_db \<Rightarrow> quota_db \<Rightarrow> bool" where
  "quota_moves w db db' \<equiv> (quota_move w)\<^sup>*\<^sup>* (quota_view db) (quota_view db')"

lemma lock_pool_move: "lock_pool db k = (r, db') \<Longrightarrow> quota_moves w db db' \<and> pool_at db' k = Some r \<and> qo_key r = k \<and>
    admission_at db' = admission_at db \<and> qd_observations db' = qd_observations db"
  by (cases "pool_at db k") (auto simp: lock_pool_def quota_view_def pool_at_append pool_at_key intro!: opened)

text \<open>A probe is outstanding from its admission until its attempt is finished.\<close>

definition outstanding :: "quota_admission \<Rightarrow> bool" where
  "outstanding a = (qa_probe a \<and> qa_finished_at a = None)"

definition pool_ok :: "(uuid \<rightharpoonup> quota_admission) \<Rightarrow> quota_pool_key \<Rightarrow> quota_pool \<Rightarrow> bool" where
  "pool_ok A k r = (qo_key r = k \<and> (qo_blocked r \<longrightarrow> qo_next_eligible_at r \<noteq> None) \<and>
     (\<forall>i. qo_probe_attempt_id r = Some i \<longrightarrow> qo_blocked r \<and> (\<exists>a. A i = Some a \<and> qa_key a = k \<and> outstanding a)))"

definition admission_ok :: "(quota_pool_key \<rightharpoonup> quota_pool) \<Rightarrow> uuid \<Rightarrow> quota_admission \<Rightarrow> bool" where
  "admission_ok P i a = (qa_attempt_id a = i \<and> (\<exists>r. P (qa_key a) = Some r \<and> qa_revision a \<le> qo_revision r \<and>
     (outstanding a \<longrightarrow> qo_probe_attempt_id r = Some i)))"

fun view_ok :: "quota_tables \<Rightarrow> bool" where
  "view_ok (P, A, n) = ((\<forall>k r. P k = Some r \<longrightarrow> pool_ok A k r) \<and> (\<forall>i a. A i = Some a \<longrightarrow> admission_ok P i a) \<and>
     (\<forall>k. (case P k of None \<Rightarrow> 0 | Some r \<Rightarrow> qo_revision r) = int (n k)))"

definition quota_inv :: "quota_db \<Rightarrow> bool" where
  "quota_inv db = view_ok (quota_view db)"

text \<open>What the writers of a pool row do to the columns the protocol depends on.\<close>

lemma observed_pool_columns: "qo_revision (observed_pool w x r) = qo_revision r + 1" "qo_blocked (observed_pool w x r)"
    "qo_probe_attempt_id (observed_pool w x r) = qo_probe_attempt_id r"
    "\<exists>e. qo_next_eligible_at (observed_pool w x r) = Some e \<and> evidence_horizon w x \<le> e \<and>
       (\<forall>h. qo_blocked r \<longrightarrow> qo_next_eligible_at r = Some h \<longrightarrow> h \<le> e)"
  by (auto simp: observed_pool_def Let_def split: option.split)

lemma cooldown_columns: "qo_revision (cooldown w r) = qo_revision r" "qo_blocked (cooldown w r)"
    "qo_probe_attempt_id (cooldown w r) = qo_probe_attempt_id r"
    "\<exists>e. qo_next_eligible_at (cooldown w r) = Some e \<and> (\<forall>h. qo_next_eligible_at r = Some h \<longrightarrow> h \<le> e)"
  by (auto simp: cooldown_def Let_def split: option.split)

lemma released_columns: "qo_revision (released w a r) = qo_revision r" "qo_blocked r \<Longrightarrow> qo_blocked (released w a r)"
    "qo_probe_attempt_id (released w a r) = None" "qo_key (released w a r) = qo_key r"
    "qo_next_eligible_at r = Some h \<Longrightarrow> \<exists>e. qo_next_eligible_at (released w a r) = Some e \<and> h \<le> e"
  using cooldown_columns [of w "r\<lparr> qo_probe_attempt_id := None \<rparr>"] by (auto simp: released_def Let_def)

lemmas pool_columns = observed_pool_columns(1-3) released_columns(1-4)

section \<open>Invariant\<close>

lemma view_okI:
  assumes "\<And>k r. P k = Some r \<Longrightarrow> pool_ok A k r" and "\<And>i a. A i = Some a \<Longrightarrow> admission_ok P i a"
    and "\<And>k. (case P k of None \<Rightarrow> 0 | Some r \<Rightarrow> qo_revision r) = int (n k)"
  shows "view_ok (P, A, n)"
  using assms by auto

lemma view_okD:
  assumes "view_ok (P, A, n)"
  shows "P k = Some r \<Longrightarrow> pool_ok A k r" and "A i = Some a \<Longrightarrow> admission_ok P i a"
    and "(case P k of None \<Rightarrow> 0 | Some r \<Rightarrow> qo_revision r) = int (n k)"
  using assms by auto

declare view_ok.simps [simp del]

text \<open>A move that keeps the revision of a pool and ends its probe, or writes no pool at all.\<close>

lemma finish_ok:
  assumes ok: "view_ok (P, A, n)" and a: "A i = Some a" and r: "P (qa_key a) = Some r" and t: "qa_finished_at a' = Some t"
    and same: "qa_attempt_id a' = qa_attempt_id a" "qa_key a' = qa_key a" "qa_revision a' = qa_revision a"
    and r': "qo_key r' = qo_key r" "qo_revision r' = qo_revision r" "qo_probe_attempt_id r' = None"
      "qo_blocked r' \<Longrightarrow> qo_next_eligible_at r' \<noteq> None"
    and probe: "qo_probe_attempt_id r = Some i"
  shows "view_ok (P(qa_key a \<mapsto> r'), A(i \<mapsto> a'), n)"
proof (rule view_okI)
  fix k q assume q: "(P(qa_key a \<mapsto> r')) k = Some q"
  show "pool_ok (A(i \<mapsto> a')) k q"
  proof (cases "k = qa_key a")
    case True
    then show ?thesis using q r r' view_okD(1) [OF ok r] by (auto simp: pool_ok_def)
  next
    case False
    then have "pool_ok A k q" using q view_okD(1) [OF ok] by simp
    then show ?thesis using False a by (auto simp: pool_ok_def)
  qed
next
  fix j b assume b: "(A(i \<mapsto> a')) j = Some b"
  show "admission_ok (P(qa_key a \<mapsto> r')) j b"
  proof (cases "j = i")
    case True
    then show ?thesis using b r r' t same view_okD(2) [OF ok a] by (auto simp: admission_ok_def outstanding_def)
  next
    case False
    then have "admission_ok P j b" using b view_okD(2) [OF ok] by simp
    then show ?thesis using False r r' probe by (auto simp: admission_ok_def)
  qed
next
  fix k show "(case (P(qa_key a \<mapsto> r')) k of None \<Rightarrow> 0 | Some r \<Rightarrow> qo_revision r) = int (n k)"
    using view_okD(3) [OF ok, of k] r r'(2) by (auto split: if_splits)
qed

lemma write_finished_ok:
  assumes ok: "view_ok (P, A, n)" and a: "A i = Some a" and r: "P (qa_key a) = Some r" and probe: "qo_probe_attempt_id r \<noteq> Some i"
  shows "view_ok (P, A(i \<mapsto> a\<lparr> qa_finished_at := Some t \<rparr>), n)"
proof (rule view_okI)
  fix k q assume "P k = Some q"
  with view_okD(1) [OF ok this] a r probe show "pool_ok (A(i \<mapsto> a\<lparr> qa_finished_at := Some t \<rparr>)) k q" by (fastforce simp: pool_ok_def)
next
  fix j b assume "(A(i \<mapsto> a\<lparr> qa_finished_at := Some t \<rparr>)) j = Some b"
  then show "admission_ok P j b" using view_okD(2) [OF ok a] view_okD(2) [OF ok, of j b]
    by (auto simp: admission_ok_def outstanding_def split: if_splits)
next
  fix k show "(case P k of None \<Rightarrow> 0 | Some r \<Rightarrow> qo_revision r) = int (n k)" by (rule view_okD(3) [OF ok])
qed

lemma quota_move_ok:
  assumes "quota_move w s t" and "view_ok s"
  shows "view_ok t"
  using assms
proof cases
  case (opened P k A n)
  then have ok: "view_ok (P, A, n)" using assms(2) by simp
  show ?thesis unfolding opened
  proof (rule view_okI)
    fix k' r assume "(P(k \<mapsto> new_pool k)) k' = Some r"
    then show "pool_ok A k' r" using view_okD(1) [OF ok] by (auto simp: pool_ok_def new_pool_def split: if_splits)
  next
    fix i a assume "A i = Some a"
    from view_okD(2) [OF ok this] show "admission_ok (P(k \<mapsto> new_pool k)) i a" using opened(3) by (auto simp: admission_ok_def)
  next
    fix k' show "(case (P(k \<mapsto> new_pool k)) k' of None \<Rightarrow> 0 | Some r \<Rightarrow> qo_revision r) = int (n k')"
      using view_okD(3) [OF ok, of k'] opened(3) by (auto simp: new_pool_def)
  qed
next
  case (observed P k r A n x)
  then have ok: "view_ok (P, A, n)" using assms(2) by simp
  obtain e where e: "qo_next_eligible_at (observed_pool w x r) = Some e" using observed_pool_columns(4) by blast
  show ?thesis unfolding observed
  proof (rule view_okI)
    fix k' q assume "(P(k \<mapsto> observed_pool w x r)) k' = Some q"
    then show "pool_ok A k' q" using view_okD(1) [OF ok] observed(3) e by (auto simp: pool_ok_def pool_columns split: if_splits)
  next
    fix i a assume "A i = Some a"
    from view_okD(2) [OF ok this] show "admission_ok (P(k \<mapsto> observed_pool w x r)) i a" using observed(3)
      by (auto simp: admission_ok_def pool_columns)
  next
    fix k' show "(case (P(k \<mapsto> observed_pool w x r)) k' of None \<Rightarrow> 0 | Some r \<Rightarrow> qo_revision r) = int ((n(k := Suc (n k))) k')"
      using view_okD(3) [OF ok, of k'] observed(3) by (auto simp: pool_columns)
  qed
next
  case (reclaimed P k r i A a n t')
  then have ok: "view_ok (P, A, n)" using assms(2) by simp
  have k: "pool_ok A k r" by (rule view_okD(1) [OF ok reclaimed(3)])
  then have key: "qa_key a = k" using reclaimed(4,5) by (auto simp: pool_ok_def)
  have "\<exists>e. qo_next_eligible_at (released w a r) = Some e" using k reclaimed(4) released_columns(5) by (fastforce simp: pool_ok_def)
  moreover have "qo_key (released w a r) = qo_key r" by (simp add: pool_columns)
  ultimately show ?thesis unfolding reclaimed key [symmetric]
    by (intro finish_ok [OF ok reclaimed(5) reclaimed(3) [folded key], of _ t']) (auto simp: pool_columns reclaimed(4))
next
  case (admitted P k r A i n t')
  then have ok: "view_ok (P, A, n)" using assms(2) by simp
  show ?thesis unfolding admitted
  proof (rule view_okI)
    fix k' q assume "P k' = Some q"
    from view_okD(1) [OF ok this] show "pool_ok (A(i \<mapsto> \<lparr> qa_attempt_id = i, qa_key = k, qa_revision = qo_revision r, qa_admitted_at = t',
        qa_probe = False, qa_finished_at = None \<rparr>)) k' q" using admitted(5) by (auto simp: pool_ok_def)
  next
    fix j b assume "(A(i \<mapsto> \<lparr> qa_attempt_id = i, qa_key = k, qa_revision = qo_revision r, qa_admitted_at = t',
        qa_probe = False, qa_finished_at = None \<rparr>)) j = Some b"
    then show "admission_ok P j b" using view_okD(2) [OF ok] admitted(3) by (auto simp: admission_ok_def outstanding_def split: if_splits)
  next
    fix k' show "(case P k' of None \<Rightarrow> 0 | Some r \<Rightarrow> qo_revision r) = int (n k')" by (rule view_okD(3) [OF ok])
  qed
next
  case (probed P k r e A i n t')
  then have ok: "view_ok (P, A, n)" using assms(2) by simp
  show ?thesis unfolding probed
  proof (rule view_okI)
    fix k' q assume q: "(P(k \<mapsto> r\<lparr> qo_probe_attempt_id := Some i \<rparr>)) k' = Some q"
    show "pool_ok (A(i \<mapsto> \<lparr> qa_attempt_id = i, qa_key = k, qa_revision = qo_revision r, qa_admitted_at = t',
        qa_probe = True, qa_finished_at = None \<rparr>)) k' q"
      using q view_okD(1) [OF ok, of k' q] view_okD(1) [OF ok probed(3)] probed(4,6,8)
      by (auto simp: pool_ok_def outstanding_def split: if_splits)
  next
    fix j b assume b: "(A(i \<mapsto> \<lparr> qa_attempt_id = i, qa_key = k, qa_revision = qo_revision r, qa_admitted_at = t',
        qa_probe = True, qa_finished_at = None \<rparr>)) j = Some b"
    show "admission_ok (P(k \<mapsto> r\<lparr> qo_probe_attempt_id := Some i \<rparr>)) j b"
      using b view_okD(2) [OF ok, of j b] probed(3,5) by (auto simp: admission_ok_def outstanding_def split: if_splits)
  next
    fix k' show "(case (P(k \<mapsto> r\<lparr> qo_probe_attempt_id := Some i \<rparr>)) k' of None \<Rightarrow> 0 | Some r \<Rightarrow> qo_revision r) = int (n k')"
      using view_okD(3) [OF ok, of k'] probed(3) by (auto split: if_splits)
  qed
next
  case (finished A i a P r n t')
  then show ?thesis using assms(2) write_finished_ok by simp
next
  case (failed A i a P r r' n t')
  then have ok: "view_ok (P, A, n)" using assms(2) by simp
  have "pool_ok A (qa_key a) r" by (rule view_okD(1) [OF ok failed(4)])
  then have "\<exists>e. qo_next_eligible_at r' = Some e" using failed(5,6) released_columns(5) by (fastforce simp: pool_ok_def)
  then show ?thesis unfolding failed using failed(5,6)
    by (intro finish_ok [OF ok failed(3,4), of _ t']) (auto simp: pool_columns)
next
  case (succeeded A i a P r n t' t'')
  then have ok: "view_ok (P, A, n)" using assms(2) by simp
  then show ?thesis unfolding succeeded using succeeded(5)
    by (intro finish_ok [OF ok succeeded(3,4), of _ t'']) auto
qed

lemma quota_moves_ok: "(quota_move w)\<^sup>*\<^sup>* s t \<Longrightarrow> view_ok s \<Longrightarrow> view_ok t"
  by (induction rule: rtranclp_induct) (auto intro: quota_move_ok)

section \<open>Calls\<close>

lemma quota_inv_pool: "quota_inv db \<Longrightarrow> pool_at db k = Some r \<Longrightarrow> pool_ok (admission_at db) k r"
  by (auto simp: quota_inv_def quota_view_def dest: view_okD)

lemma quota_inv_admission: "quota_inv db \<Longrightarrow> admission_at db i = Some a \<Longrightarrow> admission_ok (pool_at db) i a"
  by (auto simp: quota_inv_def quota_view_def dest: view_okD)

lemma quota_moves_inv: "quota_moves w db db' \<Longrightarrow> quota_inv db \<Longrightarrow> quota_inv db'"
  unfolding quota_inv_def by (rule quota_moves_ok)

text \<open>What a reclaimed probe leaves behind.\<close>

lemma recover_probe_cases:
  assumes inv: "quota_inv db" and r: "pool_at db k = Some r" and rec: "recover_probe w (r, db) = (r', db')"
  obtains (kept) "r' = r" "db' = db" "qo_probe_attempt_id r = None \<or> (\<exists>i. qo_probe_attempt_id r = Some i \<and> probe_proof w db i = None)"
  | (taken) i a where "qo_probe_attempt_id r = Some i" "admission_at db i = Some a" "qa_key a = k" "outstanding a" "probe_stopped w i"
      "probe_proof w db i = Some a" "r' = released w a r" "pool_at db' = (pool_at db)(k \<mapsto> r')" "qd_observations db' = qd_observations db"
      "admission_at db' = (admission_at db)(i \<mapsto> a\<lparr> qa_finished_at := Some (qw_clock w Read_finish) \<rparr>)"
proof (cases "\<exists>i a. qo_probe_attempt_id r = Some i \<and> probe_proof w db i = Some a")
  case True
  then obtain i a where i: "qo_probe_attempt_id r = Some i" "probe_proof w db i = Some a" by blast
  have a: "admission_at db i = Some a" using i(2) by (auto simp: probe_proof_def split: option.splits if_splits)
  have o: "outstanding a" "qa_key a = k" using quota_inv_pool [OF inv r] i(1) a by (auto simp: pool_ok_def)
  then have n: "qa_finished_at a = None" by (simp add: outstanding_def)
  have eqs: "r' = released w a r" "db' = put_pool r' (put_admission (a\<lparr> qa_finished_at := Some (qw_clock w Read_finish) \<rparr>) db)"
    using rec i n by (auto simp: recover_probe_def released_def Let_def split: if_splits)
  have "qo_key r' = k" using pool_at_key [OF r] by (simp add: eqs(1) pool_columns)
  moreover have "qa_attempt_id a = i" by (rule admission_at_key [OF a])
  moreover have "qd_observations db' = qd_observations db" by (simp add: eqs(2) put_pool_def put_admission_def)
  ultimately show ?thesis using taken [OF i(1) a o(2,1) _ i(2) eqs(1)] probe_proof_stopped [OF i(2) n] r a
    by (simp add: eqs(2) pool_at_put admission_at_put)
next
  case False
  then show ?thesis using rec kept by (fastforce simp: recover_probe_def split: option.splits)
qed

lemma recover_probe_moves:
  assumes inv: "quota_inv db" and r: "pool_at db k = Some r" and rec: "recover_probe w (r, db) = (r', db')"
  shows "quota_moves w db db' \<and> pool_at db' k = Some r' \<and> qd_observations db' = qd_observations db"
  using inv r rec
proof (cases rule: recover_probe_cases)
  case (taken i a)
  have "observed_count db' = observed_count db" using taken(9) by (simp add: observed_count_def fun_eq_iff)
  then have "quota_move w (quota_view db) (quota_view db')"
    unfolding quota_view_def taken(8,10) taken(7)
    using reclaimed [where P = "pool_at db" and A = "admission_at db", OF r taken(1,2)] taken(4,5) by (simp add: outstanding_def)
  then show ?thesis using taken(8,9) by auto
qed (use r in auto)

lemma locked_moves:
  assumes "quota_inv db" and "recover_probe w (lock_pool db k) = (r', db')"
  shows "quota_moves w db db' \<and> pool_at db' k = Some r' \<and> qd_observations db' = qd_observations db"
proof -
  obtain r db1 where l: "lock_pool db k = (r, db1)" by fastforce
  note lock = lock_pool_move [OF l, of w]
  have "quota_inv db1" using lock assms(1) quota_moves_inv by blast
  from recover_probe_moves [OF this _ assms(2) [unfolded l], of k] lock show ?thesis by (auto intro: rtranclp_trans)
qed

text \<open>A report either replays evidence it has and changes nothing but the lock, or records it.\<close>

lemma report_cases:
  assumes "report_exhaustion w db k x ik src act = Inr (st, db')"
  obtains (replay) "lock_pool db k = (the (pool_at db' k), db')" "pool_at db' k \<noteq> None" "st = status_of w k (pool_at db' k)"
  | (fresh) r db1 where "lock_pool db k = (r, db1)" "pool_at db' = (pool_at db1)(k \<mapsto> observed_pool w x r)"
      "admission_at db' = admission_at db" "observed_count db' = (observed_count db)(k := Suc (observed_count db k))"
      "length (qd_observations db') = Suc (length (qd_observations db))" "st = status_of w k (Some (observed_pool w x r))"
proof -
  obtain r db1 where l: "lock_pool db k = (r, db1)" by fastforce
  note lock = lock_pool_move [OF l, of w]
  from assms l obtain sk d where
    c: "(case find (\<lambda>ob. ob_source_key ob = sk) (qd_observations db1) of
              Some prior \<Rightarrow> if ob_evidence_digest prior \<noteq> d then quota_refused ''quota evidence replay conflicts''
                else Inr (status_of w k (Some r), db1)
            | None \<Rightarrow> (let row' = observed_pool w x r in
                Inr (status_of w k (Some row'), put_pool row' (db1\<lparr> qd_observations := qd_observations db1 @
                  [observation_row w k x src act sk d] \<rparr>)))) = Inr (st, db')"
    by (auto simp: report_exhaustion_def ebind_Inr simp del: Let_def split: option.splits(2) [of _ _ _ "report_sources db k ik src act"])
  show ?thesis
  proof (cases "find (\<lambda>ob. ob_source_key ob = sk) (qd_observations db1)")
    case None
    have cnt: "observed_count db1 = observed_count db" using lock by (simp add: observed_count_def fun_eq_iff)
    from None c have db': "db' = put_pool (observed_pool w x r) (db1\<lparr> qd_observations := qd_observations db1 @ [observation_row w k x src act sk d] \<rparr>)"
      and st: "st = status_of w k (Some (observed_pool w x r))" by (auto simp: Let_def)
    have "ob_key (observation_row w k x src act sk d) = k" by (simp add: observation_row_def)
    then have "pool_at db' = (pool_at db1)(k \<mapsto> observed_pool w x r)" "admission_at db' = admission_at db"
      "observed_count db' = (observed_count db)(k := Suc (observed_count db k))" 
      using lock cnt observed_count_append [of db1 "observation_row w k x src act sk d"]
      by (simp_all add: db' pool_at_put del: fun_upd_apply)
    moreover have "length (qd_observations db') = Suc (length (qd_observations db))" using lock by (simp add: db' put_pool_def)
    ultimately show ?thesis using fresh [OF l] st by blast
  next
    case (Some prior)
    then show ?thesis using c l lock replay by (auto split: if_splits)
  qed
qed

lemma report_moves:
  assumes "report_exhaustion w db k x ik src act = Inr (st, db')"
  shows "quota_moves w db db' \<and> pool_at db' k \<noteq> None \<and> admission_at db' = admission_at db"
  using assms
proof (cases rule: report_cases)
  case replay
  then show ?thesis using lock_pool_move [of db k "the (pool_at db' k)" db' w] by auto
next
  case (fresh r db1)
  note lock = lock_pool_move [OF fresh(1), of w]
  have "observed_count db1 = observed_count db" using lock by (simp add: observed_count_def fun_eq_iff)
  then have "quota_move w (quota_view db1) (quota_view db')"
    using observed [of "pool_at db1" k r w "admission_at db1" "observed_count db1" x] lock fresh by (simp add: quota_view_def)
  then show ?thesis using lock fresh(2,3) by (auto intro: rtranclp.rtrancl_into_rtrancl)
qed

lemma quota_lift_Inr [simp]: "quota_lift m = Inr x \<longleftrightarrow> m = Inr x"
  by (cases m) (auto simp: quota_lift_def)

lemma eligible_Inr: "quota_eligible w db route = Inr (b, db') \<longleftrightarrow> (\<exists>k r. key_for (qw_policy w) route = Inr k \<and>
    recover_probe w (lock_pool db k) = (r, db') \<and> b = allows_attempt (status_of w k (Some r)))"
proof (cases "key_for (qw_policy w) route")
  case (Inr k)
  then show ?thesis by (cases "recover_probe w (lock_pool db k)") (auto simp: quota_eligible_def quota_lift_def)
qed (simp add: quota_eligible_def quota_lift_def)

lemma eligible_moves:
  assumes "quota_inv db" and "quota_eligible w db route = Inr (b, db')"
  shows "quota_moves w db db'"
  using assms(2) locked_moves [OF assms(1)] unfolding eligible_Inr by blast

lemma allows_iff: "allows_attempt (status_of w k (Some r)) \<longleftrightarrow> \<not> qo_blocked r \<or> qo_probe_attempt_id r = None \<and>
    (\<exists>e. qo_next_eligible_at r = Some e \<and> e \<le> qw_clock w Read_status)"
  by (auto simp: allows_attempt_def status_of_def pool_state_of_def split: option.splits)

lemma admit_cases:
  assumes "quota_admit w db route i = Inr db'"
  obtains k r db1 where "key_for (qw_policy w) route = Inr k" "recover_probe w (lock_pool db k) = (r, db1)" "admission_at db1 i = None"
    "allows_attempt (status_of w k (Some r))" "db' = (let db2 = db1\<lparr> qd_admissions := qd_admissions db1 @ [\<lparr> qa_attempt_id = i, qa_key = k,
       qa_revision = qo_revision r, qa_admitted_at = qw_clock w Read_admission, qa_probe = qo_blocked r, qa_finished_at = None \<rparr>] \<rparr> in
       if qo_blocked r then put_pool (r\<lparr> qo_probe_attempt_id := Some i \<rparr>) db2 else db2)"
proof -
  obtain k where k: "key_for (qw_policy w) route = Inr k" using assms by (auto simp: quota_admit_def ebind_Inr)
  obtain r db1 where r: "recover_probe w (lock_pool db k) = (r, db1)" by fastforce
  show ?thesis using assms that [OF k r] by (simp add: quota_admit_def quota_lift_def k r Let_def split: if_splits)
qed

lemma admit_moves:
  assumes inv: "quota_inv db" and adm: "quota_admit w db route i = Inr db'"
  shows "quota_moves w db db'"
  using adm
proof (rule admit_cases)
  fix k and r :: quota_pool and db1
  let ?a = "\<lparr> qa_attempt_id = i, qa_key = k, qa_revision = qo_revision r, qa_admitted_at = qw_clock w Read_admission, qa_probe = qo_blocked r,
    qa_finished_at = None \<rparr>"
  assume r: "recover_probe w (lock_pool db k) = (r, db1)" and i: "admission_at db1 i = None" and ok: "allows_attempt (status_of w k (Some r))"
    and db': "db' = (let db2 = db1\<lparr> qd_admissions := qd_admissions db1 @ [?a] \<rparr> in
       if qo_blocked r then put_pool (r\<lparr> qo_probe_attempt_id := Some i \<rparr>) db2 else db2)"
  note l = locked_moves [OF inv r]
  have k: "qo_key r = k" using l pool_at_key by blast
  have a: "admission_at (db1\<lparr> qd_admissions := qd_admissions db1 @ [?a] \<rparr>) = (admission_at db1)(i \<mapsto> ?a)"
    using admission_at_append [of db1 ?a] i by simp
  have "quota_move w (quota_view db1) (quota_view db')"
  proof (cases "qo_blocked r")
    case True
    then obtain e where "qo_probe_attempt_id r = None" "qo_next_eligible_at r = Some e" "e \<le> qw_clock w Read_status"
      using ok by (auto simp: allows_iff)
    then show ?thesis using True probed [of "pool_at db1" k r e w "admission_at db1" i "observed_count db1"] l i k a
      by (simp add: db' Let_def quota_view_def pool_at_put)
  next
    case False
    then show ?thesis using admitted [of "pool_at db1" k r "admission_at db1" i w "observed_count db1"] l i a
      by (simp add: db' Let_def quota_view_def)
  qed
  then show ?thesis using l by (auto intro: rtranclp.rtrancl_into_rtrancl)
qed

lemma settle_cases:
  assumes "quota_settle w db i x ok stopped = Inr db'"
  obtains (unknown) "admission_at db i = None" "db' = db"
  | (known) a r db1 where "admission_at db i = Some a" "quota_moves w db db1" "pool_at db1 (qa_key a) = Some r" "admission_at db1 = admission_at db"
      "x = None \<Longrightarrow> lock_pool db (qa_key a) = (r, db1)"
      "x \<noteq> None \<Longrightarrow> \<exists>st. report_exhaustion w (snd (lock_pool db (qa_key a))) (qa_key a) (the x) ''provider-result'' (Some i) None = Inr (st, db1)"
      "db' = (if stopped then put_pool (settled_pool w a x ok r) (put_admission (a\<lparr> qa_finished_at := Some (qw_clock w Read_finish) \<rparr>) db1) else db1)"
proof (cases "admission_at db i")
  case None
  then have "db' = db" using assms by (simp add: quota_settle_def)
  with None show ?thesis by (rule unknown)
next
  case (Some a)
  obtain r db1 where l: "lock_pool db (qa_key a) = (r, db1)" by fastforce
  note lock = lock_pool_move [OF l, of w]
  show ?thesis
  proof (cases x)
    case None
    then show ?thesis using known [OF Some, of db1 r] assms Some l lock by (auto simp: quota_settle_def Let_def split: if_splits)
  next
    case x: (Some e)
    then obtain st db2 where rep: "report_exhaustion w db1 (qa_key a) e ''provider-result'' (Some i) None = Inr (st, db2)"
      using assms Some l by (auto simp: quota_settle_def Let_def ebind_Inr)
    note m = report_moves [OF rep]
    then obtain r2 where r2: "pool_at db2 (qa_key a) = Some r2" by auto
    then have l2: "lock_pool db2 (qa_key a) = (r2, db2)" by (simp add: lock_pool_def)
    have "quota_moves w db db2" using lock m by auto
    then show ?thesis using known [OF Some, of db2 r2] assms Some l l2 rep x lock m r2 by (auto simp: quota_settle_def Let_def split: if_splits)
  qed
qed

lemma settle_moves:
  assumes "quota_settle w db i x ok stopped = Inr db'"
  shows "quota_moves w db db'"
  using assms
proof (cases rule: settle_cases)
  case (known a r db1)
  let ?t = "qw_clock w Read_finish"
  let ?A = "(admission_at db1)(i \<mapsto> a\<lparr> qa_finished_at := Some ?t \<rparr>)"
  have i: "qa_attempt_id a = i" by (rule admission_at_key [OF known(1)])
  have k: "qo_key (settled_pool w a x ok r) = qa_key a" using pool_at_key [OF known(3)] by simp
  have A: "admission_at db1 i = Some a" using known(1,4) by simp
  have view: "quota_view db' = ((pool_at db1)(qa_key a \<mapsto> settled_pool w a x ok r), ?A, observed_count db1)" if stopped
    using that known(3,7) k i A by (simp add: quota_view_def pool_at_put admission_at_put)
  have "quota_move w (pool_at db1, admission_at db1, observed_count db1) ((pool_at db1)(qa_key a \<mapsto> settled_pool w a x ok r), ?A, observed_count db1)"
  proof (cases "qo_probe_attempt_id r = Some i")
    case True
    note failed [where P = "pool_at db1" and A = "admission_at db1", OF A known(3) True, of _ w "observed_count db1" ?t] 
      succeeded [where P = "pool_at db1" and A = "admission_at db1", OF A known(3) True, of w "observed_count db1" "qw_clock w Read_recovered" ?t]
    with True i show ?thesis by (auto simp: settled_pool_def released_def Let_def)
  next
    case False
    then have "settled_pool w a x ok r = r" using i by (simp add: settled_pool_def)
    with finished [where P = "pool_at db1" and A = "admission_at db1", OF A known(3) False, of w "observed_count db1" ?t] known(3) show ?thesis by (simp add: fun_upd_idem)
  qed
  then show ?thesis using known(2,7) view by (cases stopped) (auto simp: quota_view_def intro: rtranclp.rtrancl_into_rtrancl)
qed simp

end
