(* ===== verification/Forge_Probe.thy ===== *)
theory Forge_Probe
  imports Forge_Quota
begin

text \<open>
  Histories of the quota tables: every call of the repository is a step, in any order and with any state
  of the scheduler's tables between them. Exhausted pools stay shut until their horizon, have at most one
  probe, and open again only on a success that no newer evidence has overtaken; and the choice of a route
  that the scheduler relies on is the one these tables give.
\<close>

section \<open>Histories\<close>

inductive quota_step :: "quota_world \<Rightarrow> quota_db \<Rightarrow> quota_db \<Rightarrow> bool" for w db where
  step_report: "report_exhaustion w db k x ik src act = Inr (st, db') \<Longrightarrow> quota_step w db db'"
| step_eligible: "quota_eligible w db route = Inr (b, db') \<Longrightarrow> quota_step w db db'"
| step_admit: "quota_admit w db route i = Inr db' \<Longrightarrow> quota_step w db db'"
| step_settle: "quota_settle w db i y ok stopped = Inr db' \<Longrightarrow> quota_step w db db'"

definition quota_empty :: quota_db where
  "quota_empty = \<lparr> qd_pools = [], qd_observations = [], qd_admissions = [] \<rparr>"

lemma quota_inv_empty: "quota_inv quota_empty"
  by (simp add: quota_inv_def quota_view_def quota_empty_def pool_at_def admission_at_def observed_count_def row_at_def view_ok.simps)

lemma quota_step_moves: "quota_step w db db' \<Longrightarrow> quota_inv db \<Longrightarrow> quota_moves w db db'"
  by (induction rule: quota_step.induct) (blast intro: eligible_moves admit_moves settle_moves dest: report_moves)+

lemma quota_step_inv: "quota_step w db db' \<Longrightarrow> quota_inv db \<Longrightarrow> quota_inv db'"
  by (blast intro: quota_moves_inv quota_step_moves)

lemma quota_path_inv: "path quota_step ws db db' \<Longrightarrow> quota_inv db \<Longrightarrow> quota_inv db'"
  by (induction ws arbitrary: db) (auto intro: quota_step_inv)

lemmas quota_reachable_inv = quota_path_inv [OF _ quota_inv_empty]

section \<open>The horizon\<close>

text \<open>A pool is held until an instant: it is blocked at least that long, and what was admitted to it was
  admitted before its last evidence.\<close>

fun shut_until :: "quota_pool_key \<Rightarrow> int \<Rightarrow> (uuid \<rightharpoonup> quota_admission) \<Rightarrow> quota_tables \<Rightarrow> bool" where
  "shut_until k h A0 (P, A, n) = ((\<exists>r e. P k = Some r \<and> qo_blocked r \<and> qo_next_eligible_at r = Some e \<and> h \<le> e \<and>
     (\<forall>i a. A i = Some a \<longrightarrow> qa_key a = k \<longrightarrow> qa_revision a < qo_revision r)) \<and>
     (\<forall>i a. A i = Some a \<longrightarrow> qa_key a = k \<longrightarrow> A0 i \<noteq> None))"

lemma heldI:
  assumes "P k = Some r" and "qo_blocked r" and "qo_next_eligible_at r = Some e" and "h \<le> e"
    and "\<And>i a. A i = Some a \<Longrightarrow> qa_key a = k \<Longrightarrow> qa_revision a < qo_revision r \<and> A0 i \<noteq> None"
  shows "shut_until k h A0 (P, A, n)"
  using assms by auto

lemma heldE:
  assumes "shut_until k h A0 (P, A, n)"
  obtains r e where "P k = Some r" "qo_blocked r" "qo_next_eligible_at r = Some e" "h \<le> e"
    "\<And>i a. A i = Some a \<Longrightarrow> qa_key a = k \<Longrightarrow> qa_revision a < qo_revision r \<and> A0 i \<noteq> None"
  using assms by auto

text \<open>A pool that is rewritten stays held when it stays blocked, moves neither its revision nor its horizon back,
  and every admission to it was there before.\<close>

lemma held_write:
  assumes "shut_until k h A0 (P, A, n)" and "P k' = Some r" and "qo_blocked r \<Longrightarrow> qo_blocked r'" and "qo_revision r \<le> qo_revision r'"
    and "\<And>e. qo_blocked r \<Longrightarrow> qo_next_eligible_at r = Some e \<Longrightarrow> \<exists>e'. qo_next_eligible_at r' = Some e' \<and> e \<le> e'"
    and "\<And>i a. A' i = Some a \<Longrightarrow> qa_key a = k \<Longrightarrow> \<exists>b. A i = Some b \<and> qa_key b = k \<and> qa_revision b = qa_revision a"
  shows "shut_until k h A0 (P(k' \<mapsto> r'), A', n')"
  using assms(1)
proof (rule heldE)
  fix q e assume q: "P k = Some q" "qo_blocked q" "qo_next_eligible_at q = Some e" "h \<le> e"
    "\<And>i a. A i = Some a \<Longrightarrow> qa_key a = k \<Longrightarrow> qa_revision a < qo_revision q \<and> A0 i \<noteq> None"
  have old: "qa_revision a < qo_revision q \<and> A0 i \<noteq> None" if "A' i = Some a" "qa_key a = k" for i a
    using assms(6) [OF that] q(5) by metis
  show ?thesis
  proof (cases "k' = k")
    case True
    with q(1) assms(2) have qr: "q = r" by simp
    obtain e' where e': "qo_next_eligible_at r' = Some e'" "e \<le> e'" using assms(5) q(2,3) qr by auto
    show ?thesis
    proof (rule heldI [OF _ _ e'(1)])
      show "(P(k' \<mapsto> r')) k = Some r'" "qo_blocked r'" "h \<le> e'" using True assms(3) q(2,4) qr e'(2) by auto
      show "qa_revision a < qo_revision r' \<and> A0 i \<noteq> None" if "A' i = Some a" "qa_key a = k" for i a
        using old [OF that] assms(4) qr by auto
    qed
  qed (use q old in \<open>auto intro!: heldI\<close>)
qed

lemma held_move:
  assumes "quota_move w s t" and "shut_until k h A0 s" and "qw_clock w Read_status < h"
  shows "shut_until k h A0 t"
  using assms(1)
proof cases
  case (opened P k' A n)
  then have "k' \<noteq> k" "shut_until k h A0 (P, A, n)" using assms(2) by auto
  then show ?thesis unfolding opened by (auto elim!: heldE intro!: heldI)
next
  case (observed P k' r A n x)
  then show ?thesis using assms(2) observed_pool_columns(4) [of w x r] by (auto intro!: held_write simp: pool_columns simp del: shut_until.simps)
next
  case (reclaimed P k' r i A a n t')
  then show ?thesis using assms(2) released_columns(5) [of r _ w a]
    by (auto intro!: held_write simp: pool_columns simp del: shut_until.simps split: if_splits)
next
  case (admitted P k' r A i n t')
  then show ?thesis using assms(2) by (auto elim!: heldE intro!: heldI simp del: shut_until.simps split: if_splits)
next
  case (probed P k' r e A i n t')
  then have "k' \<noteq> k" using assms(2,3) by (auto elim!: heldE simp del: shut_until.simps)
  then show ?thesis using probed assms(2) by (auto elim!: heldE intro!: heldI simp del: shut_until.simps split: if_splits)
next
  case (finished A i a P r n t')
  then show ?thesis using assms(2) by (auto elim!: heldE intro!: heldI simp del: shut_until.simps split: if_splits)
next
  case (failed A i a P r r' n t')
  then show ?thesis using assms(2) released_columns(5) [of r _ w a]
    by (auto intro!: held_write simp: pool_columns simp del: shut_until.simps split: if_splits)
next
  case (succeeded A i a P r n t' t'')
  then have "qa_key a \<noteq> k" using assms(2) by (force elim!: heldE simp del: shut_until.simps)
  then show ?thesis using succeeded assms(2) by (auto elim!: heldE intro!: heldI simp del: shut_until.simps split: if_splits)
qed

declare shut_until.simps [simp del]

lemma held_moves: "(quota_move w)\<^sup>*\<^sup>* s t \<Longrightarrow> shut_until k h A0 s \<Longrightarrow> qw_clock w Read_status < h \<Longrightarrow> shut_until k h A0 t"
  by (induction rule: rtranclp_induct) (auto intro: held_move)

lemma held_path:
  "path quota_step ws db db' \<Longrightarrow> quota_inv db \<Longrightarrow> shut_until k h A0 (quota_view db) \<Longrightarrow> \<forall>v \<in> set ws. qw_clock v Read_status < h \<Longrightarrow>
    shut_until k h A0 (quota_view db')"
  by (induction ws arbitrary: db) (auto intro: quota_step_inv dest: quota_step_moves held_moves)

lemma held_report:
  assumes inv: "quota_inv db" and rep: "report_exhaustion w db k x ik src act = Inr (st, db')"
    and new: "length (qd_observations db) < length (qd_observations db')"
  shows "shut_until k (evidence_horizon w x) (admission_at db') (quota_view db')"
  using rep
proof (cases rule: report_cases)
  case replay
  then show ?thesis using new lock_pool_move by fastforce
next
  case (fresh r db1)
  note lock = lock_pool_move [OF fresh(1), of w]
  obtain e where e: "qo_next_eligible_at (observed_pool w x r) = Some e" "evidence_horizon w x \<le> e" using observed_pool_columns(4) by blast
  have "quota_inv db1" using lock inv quota_moves_inv by blast
  have old: "qa_revision a \<le> qo_revision r" if "admission_at db' i = Some a" "qa_key a = k" for i a
    using quota_inv_admission [OF \<open>quota_inv db1\<close>, of i a] that lock fresh(3) by (auto simp: admission_ok_def)
  then show ?thesis unfolding quota_view_def fresh(2)
    by (intro heldI [OF _ _ e]) (auto simp: pool_columns dest: old)
qed

lemma blocked_denies:
  assumes "pool_at db k = Some r" and "qo_blocked r" and "qo_probe_attempt_id r = None \<Longrightarrow> qo_next_eligible_at r = Some e \<and> qw_clock w Read_status < e"
    and "\<And>i. qo_probe_attempt_id r = Some i \<Longrightarrow> probe_proof w db i = None"
    and "key_for (qw_policy w) route = Inr k"
  shows "quota_admit w db route j = Inl (QuotaAdmissionDenied ''provider quota pool is blocked'')"
proof -
  have "lock_pool db k = (r, db)" using assms(1) by (simp add: lock_pool_def)
  moreover have "recover_probe w (r, db) = (r, db)" using assms(4) by (auto simp: recover_probe_def split: option.split)
  moreover have "\<not> allows_attempt (status_of w k (Some r))" using assms(2,3) by (auto simp: allows_iff)
  ultimately show ?thesis using assms(5) by (simp add: quota_admit_def quota_lift_def)
qed

lemma held_denies:
  assumes inv: "quota_inv db" and held: "shut_until k h A0 (quota_view db)" and t: "qw_clock w Read_status < h"
    and key: "key_for (qw_policy w) route = Inr k"
  shows "quota_admit w db route j = Inl (QuotaAdmissionDenied ''provider quota pool is blocked'')"
proof (cases "quota_admit w db route j")
  case (Inr db')
  then show ?thesis
  proof (rule admit_cases)
    fix k' and r :: quota_pool and db1 assume k': "key_for (qw_policy w) route = Inr k'"
      and r: "recover_probe w (lock_pool db k') = (r, db1)" and ok: "allows_attempt (status_of w k' (Some r))"
    have "shut_until k h A0 (quota_view db1)" "pool_at db1 k = Some r" using locked_moves [OF inv r] held_moves [OF _ held t] k' key by auto
    then show ?thesis using ok t by (auto simp: quota_view_def allows_iff elim!: heldE)
  qed
next
  case (Inl e)
  obtain r db1 where r: "recover_probe w (lock_pool db k) = (r, db1)" by fastforce
  have "shut_until k h A0 (quota_view db1)" "pool_at db1 k = Some r" using locked_moves [OF inv r] held_moves [OF _ held t] by auto
  then have "\<not> allows_attempt (status_of w k (Some r))" using t by (auto simp: quota_view_def allows_iff elim!: heldE)
  then show ?thesis by (simp add: quota_admit_def quota_lift_def key r)
qed

section \<open>Ends of probes\<close>

lemma settle_other:
  assumes "quota_settle w db j x ok stopped = Inr db'" and "i \<noteq> j \<or> \<not> stopped"
  shows "admission_at db' i = admission_at db i"
  using assms(1)
proof (cases rule: settle_cases)
  case (known a r db1)
  have "qa_attempt_id (a\<lparr> qa_finished_at := Some (qw_clock w Read_finish) \<rparr>) = j" using admission_at_key [OF known(1)] by simp
  then have "admission_at (put_admission (a\<lparr> qa_finished_at := Some (qw_clock w Read_finish) \<rparr>) db1) i = admission_at db1 i" if "i \<noteq> j"
    using that admission_at_put [of db1 "a\<lparr> qa_finished_at := Some (qw_clock w Read_finish) \<rparr>"] known(1,4) by simp
  then show ?thesis using assms(2) known(4,7) by auto
qed simp

lemma locked_admission:
  assumes inv: "quota_inv db" and rec: "recover_probe w (lock_pool db k) = (r', db')" and a: "admission_at db i = Some a"
  shows "admission_at db' i = Some a \<or> outstanding a \<and> probe_stopped w i \<and> qa_key a = k"
proof -
  obtain r db1 where l: "lock_pool db k = (r, db1)" by fastforce
  note lock = lock_pool_move [OF l, of w]
  have inv1: "quota_inv db1" using lock inv quota_moves_inv by blast
  have r: "pool_at db1 k = Some r" using lock by blast
  from inv1 r rec [unfolded l] show ?thesis by (cases rule: recover_probe_cases) (use a lock in auto)
qed

lemma probe_end:
  assumes step: "quota_step w db db'" and inv: "quota_inv db" and a: "admission_at db i = Some a" "outstanding a"
    and a': "admission_at db' i \<noteq> Some a"
  shows "probe_stopped w i \<or> (\<exists>y ok. quota_settle w db i y ok True = Inr db')"
  using step
proof cases
  case (step_report k x ik src act st)
  then show ?thesis using report_moves a a' by metis
next
  case (step_eligible route b)
  then show ?thesis using locked_admission [OF inv _ a(1)] a' unfolding eligible_Inr by blast
next
  case (step_admit route j)
  then show ?thesis
  proof (rule admit_cases)
    fix k and r :: quota_pool and db1
    let ?b = "\<lparr> qa_attempt_id = j, qa_key = k, qa_revision = qo_revision r, qa_admitted_at = qw_clock w Read_admission, qa_probe = qo_blocked r,
      qa_finished_at = None \<rparr>"
    assume r: "recover_probe w (lock_pool db k) = (r, db1)" and j: "admission_at db1 j = None"
      and db': "db' = (let db2 = db1\<lparr> qd_admissions := qd_admissions db1 @ [?b] \<rparr> in
        if qo_blocked r then put_pool (r\<lparr> qo_probe_attempt_id := Some j \<rparr>) db2 else db2)"
    have "admission_at db' i = (if i = j then Some ?b else admission_at db1 i)" using admission_at_append [of db1 ?b] j
      by (cases "qo_blocked r") (simp_all add: db' Let_def)
    then show ?thesis using locked_admission [OF inv r a(1)] a' j by (auto split: if_splits)
  qed
next
  case (step_settle j y ok stopped)
  then have "i = j" stopped using settle_other [OF step_settle] a(1) a' by metis+
  then show ?thesis using step_settle by auto
qed

section \<open>Openings of pools\<close>

lemma released_still_blocked: "quota_inv db \<Longrightarrow> pool_at db k = Some r \<Longrightarrow> qo_blocked r \<Longrightarrow> recover_probe w (lock_pool db k') = (r', db') \<Longrightarrow>
    \<exists>q. pool_at db' k = Some q \<and> qo_blocked q"
proof -
  assume inv: "quota_inv db" and r: "pool_at db k = Some r" "qo_blocked r" and rec: "recover_probe w (lock_pool db k') = (r', db')"
  obtain q db1 where l: "lock_pool db k' = (q, db1)" by fastforce
  note lock = lock_pool_move [OF l, of w]
  have inv1: "quota_inv db1" using lock inv quota_moves_inv by blast
  have q: "pool_at db1 k' = Some q" using lock by blast
  have p: "pool_at db1 k = Some r" using l r(1) by (auto simp: lock_pool_def pool_at_append split: option.splits)
  from inv1 q rec [unfolded l] show ?thesis by (cases rule: recover_probe_cases) (use p q r(2) in \<open>auto simp: pool_columns\<close>)
qed

lemma report_still_blocked:
  assumes "report_exhaustion w db k' x ik src act = Inr (st, db')" and "pool_at db k = Some r" and "qo_blocked r"
  shows "\<exists>q. pool_at db' k = Some q \<and> qo_blocked q"
proof -
  have kept: "pool_at db1 k = Some r" if "lock_pool db k' = (q, db1)" for q db1
    using that assms(2) by (auto simp: lock_pool_def pool_at_append split: option.splits)
  from assms(1) show ?thesis by (cases rule: report_cases) (use kept assms(3) in \<open>auto simp: pool_columns\<close>)
qed

lemma settled_pool_opens:
  "qo_blocked r \<Longrightarrow> \<not> qo_blocked (settled_pool w a x ok r) \<Longrightarrow>
    qo_probe_attempt_id r = Some (qa_attempt_id a) \<and> ok \<and> x = None \<and> qo_revision r = qa_revision a"
  by (auto simp: settled_pool_def Let_def cooldown_columns split: if_splits)

lemma pool_opening:
  assumes step: "quota_step w db db'" and inv: "quota_inv db" and r: "pool_at db k = Some r" "qo_blocked r"
    and r': "pool_at db' k = Some r'" "\<not> qo_blocked r'"
  shows "\<exists>i a. quota_settle w db i None True True = Inr db' \<and> qo_probe_attempt_id r = Some i \<and> admission_at db i = Some a \<and> qa_key a = k \<and>
    qa_revision a = qo_revision r"
  using step
proof cases
  case (step_report k x ik src act st)
  then show ?thesis using report_still_blocked [OF step_report r] r' by auto
next
  case (step_eligible route b)
  then show ?thesis using released_still_blocked [OF inv r] r' unfolding eligible_Inr by fastforce
next
  case (step_admit route j)
  then show ?thesis
  proof (rule admit_cases)
    fix k' and q :: quota_pool and db1
    let ?b = "\<lparr> qa_attempt_id = j, qa_key = k', qa_revision = qo_revision q, qa_admitted_at = qw_clock w Read_admission, qa_probe = qo_blocked q,
      qa_finished_at = None \<rparr>"
    assume q: "recover_probe w (lock_pool db k') = (q, db1)"
      and db': "db' = (let db2 = db1\<lparr> qd_admissions := qd_admissions db1 @ [?b] \<rparr> in
        if qo_blocked q then put_pool (q\<lparr> qo_probe_attempt_id := Some j \<rparr>) db2 else db2)"
    have "pool_at db1 k' = Some q" "qo_key q = k'" using locked_moves [OF inv q] pool_at_key by blast+
    then show ?thesis using released_still_blocked [OF inv r q] r' by (auto simp: db' Let_def pool_at_put split: if_splits)
  qed
next
  case (step_settle j y ok stopped)
  from step_settle show ?thesis
  proof (cases rule: settle_cases)
    case unknown
    then show ?thesis using r r' by simp
  next
    case (known a q db1)
    have kept: "pool_at db0 k = Some r" if "lock_pool db (qa_key a) = (q0, db0)" for q0 db0
      using that r(1) by (auto simp: lock_pool_def pool_at_append split: option.splits)
    have still: "\<exists>p. pool_at db1 k = Some p \<and> qo_blocked p \<and> (y = None \<longrightarrow> p = r)"
    proof (cases y)
      case None
      then show ?thesis using kept known(5) r(2) by auto
    next
      case (Some x)
      obtain q0 db0 where l: "lock_pool db (qa_key a) = (q0, db0)" by fastforce
      then show ?thesis using Some known(6) report_still_blocked [OF _ kept [OF l] r(2)] by auto
    qed
    have j: "qa_attempt_id a = j" by (rule admission_at_key [OF known(1)])
    have key: "qo_key (settled_pool w a y ok q) = qa_key a" using pool_at_key [OF known(3)] by simp
    have stopped using still r' known(7) by (auto split: if_splits)
    then have at: "pool_at db' = (pool_at db1)(qa_key a \<mapsto> settled_pool w a y ok q)" using key known(3,7) by (simp add: pool_at_put)
    then have k: "k = qa_key a" using still r' by (auto split: if_splits)
    then have "qo_blocked q" "y = None \<longrightarrow> q = r" "\<not> qo_blocked (settled_pool w a y ok q)" using at still r' known(3) by auto
    from settled_pool_opens [OF this(1,3)] this(2) j have "y = None" ok "qo_probe_attempt_id r = Some j" "qo_revision r = qa_revision a" by auto
    then show ?thesis using step_settle \<open>stopped\<close> known(1) k by (intro exI [of _ j] exI [of _ a]) simp
  qed
qed

section \<open>Eligibility is a property of the state\<close>

text \<open>A check of one pool creates its row or reclaims its probe, which changes the answer for no pool.\<close>

definition row_after :: "quota_world \<Rightarrow> quota_db \<Rightarrow> quota_pool_key \<Rightarrow> quota_pool" where
  "row_after w db k = fst (recover_probe w (lock_pool db k))"

definition allowed :: "quota_world \<Rightarrow> quota_db \<Rightarrow> route_spec \<Rightarrow> bool" where
  "allowed w db route = (case key_for (qw_policy w) route of Inl _ \<Rightarrow> False | Inr k \<Rightarrow> allows_attempt (status_of w k (Some (row_after w db k))))"

lemma probe_proof_cong:
  assumes "admission_at db i = admission_at db' i"
  shows "probe_proof w db i = probe_proof w db' i"
  unfolding probe_proof_def assms ..

lemma row_after_cong:
  assumes "pool_at db' k = pool_at db k"
    and "\<And>r i. pool_at db k = Some r \<Longrightarrow> qo_probe_attempt_id r = Some i \<Longrightarrow> admission_at db' i = admission_at db i"
  shows "row_after w db' k = row_after w db k"
proof (cases "pool_at db k")
  case None
  then show ?thesis using assms(1) by (simp add: row_after_def lock_pool_def recover_probe_def new_pool_def)
next
  case (Some r)
  then have "qo_probe_attempt_id r = Some i \<Longrightarrow> probe_proof w db' i = probe_proof w db i" for i
    using assms(2) probe_proof_cong by metis
  then show ?thesis using Some assms(1) by (auto simp: row_after_def lock_pool_def recover_probe_def Let_def split: option.split)
qed

lemma row_after_check:
  assumes inv: "quota_inv db" and rec: "recover_probe w (lock_pool db k') = (r', db')"
  shows "row_after w db' k = row_after w db k"
proof -
  obtain q db1 where l: "lock_pool db k' = (q, db1)" by fastforce
  note lock = lock_pool_move [OF l, of w]
  have inv1: "quota_inv db1" using lock inv quota_moves_inv by blast
  have q: "pool_at db1 k' = Some q" using lock by blast
  have lk: "lock_pool db1 k' = (q, db1)" using q by (simp add: lock_pool_def)
  have "row_after w db1 k = row_after w db k"
  proof (cases "k = k'")
    case True
    then show ?thesis using l lk by (simp add: row_after_def)
  next
    case False
    then have "pool_at db1 k = pool_at db k" using l by (auto simp: lock_pool_def pool_at_append split: option.splits)
    then show ?thesis using lock by (intro row_after_cong) auto
  qed
  moreover have "row_after w db' k = row_after w db1 k"
    using inv1 q rec [unfolded l]
  proof (cases rule: recover_probe_cases)
    case kept
    then show ?thesis by simp
  next
    case (taken i a)
    show ?thesis
    proof (cases "k = k'")
      case True
      have "lock_pool db' k' = (r', db')" using taken(8) by (simp add: lock_pool_def)
      then show ?thesis using True rec lk l taken(7) by (simp add: row_after_def recover_probe_def pool_columns)
    next
      case False
      have "admission_at db' j = admission_at db1 j" if "pool_at db1 k = Some p" "qo_probe_attempt_id p = Some j" for p j
        using quota_inv_pool [OF inv1 that(1)] that(2) False taken(2,3,10) by (auto simp: pool_ok_def)
      then show ?thesis using False taken(8) by (intro row_after_cong) auto
    qed
  qed
  ultimately show ?thesis by simp
qed

lemma eligible_exact:
  assumes "quota_inv db" and "key_for (qw_policy w) route = Inr k"
  shows "\<exists>db'. quota_eligible w db route = Inr (allowed w db route, db') \<and> quota_inv db' \<and> (\<forall>other. allowed w db' other = allowed w db other)"
proof -
  obtain r db' where r: "recover_probe w (lock_pool db k) = (r, db')" by fastforce
  have "quota_inv db'" using locked_moves [OF assms(1) r] assms(1) quota_moves_inv by blast
  moreover have "allowed w db' other = allowed w db other" for other
    using row_after_check [OF assms(1) r] by (simp add: allowed_def split: sum.split)
  moreover have "quota_eligible w db route = Inr (allowed w db route, db')"
    using r assms(2) by (auto simp: eligible_Inr allowed_def row_after_def)
  ultimately show ?thesis by blast
qed

lemma first_eligible_find:
  assumes "quota_inv db" and "\<And>x. x \<in> set xs \<Longrightarrow> \<exists>k. key_for (qw_policy w) (ct_route x) = Inr k"
  shows "\<exists>db'. first_eligible w permitted xs db = Inr (find (\<lambda>x. permitted (ct_route x) \<and> allowed w db (ct_route x)) xs, db')"
  using assms
proof (induction xs arbitrary: db)
  case (Cons x xs)
  show ?case
  proof (cases "permitted (ct_route x)")
    case True
    obtain k where "key_for (qw_policy w) (ct_route x) = Inr k" using Cons.prems(2) by auto
    from eligible_exact [OF Cons.prems(1) this] obtain db' where
      db': "quota_eligible w db (ct_route x) = Inr (allowed w db (ct_route x), db')" "quota_inv db'" "\<forall>other. allowed w db' other = allowed w db other"
      by blast
    show ?thesis using True db'(1,3) Cons.IH [OF db'(2)] Cons.prems(2) by simp
  qed (use Cons in simp)
qed simp

lemma choose_route_exact:
  assumes inv: "quota_inv db" and keys: "\<forall>x \<in> set (task_candidate_routes c (sd_envelopes (qw_sched w) (lt_run_id c))). \<exists>k. key_for (qw_policy w) (ct_route x) = Inr k"
    and sw: "sw_quota_eligible sw = allowed w db"
  shows "\<exists>db'. choose_route w db routes c = (case route_for_task sw (qw_sched w) routes c of Inl e \<Rightarrow> Inl (Quota_invalid e) | Inr b \<Rightarrow> Inr (b, db'))"
proof -
  let ?permitted = "\<lambda>route. case routes of None \<Rightarrow> True | Some rs \<Rightarrow> route \<in> set rs" and ?current = "rb_effective (lt_route c)"
  let ?e = "sd_envelopes (qw_sched w) (lt_run_id c)"
  have cand: "task_candidate_routes c ?e \<noteq> []" "ct_route (hd (task_candidate_routes c ?e)) = ?current"
    by (auto simp: task_candidate_routes_def Let_def split: option.splits sum.splits)
  then obtain k where k: "key_for (qw_policy w) ?current = Inr k" using keys by (metis list.set_sel(1))
  obtain db1 where db1: "(if ?permitted ?current then quota_eligible w db ?current else Inr (False, db)) = Inr (?permitted ?current \<and> allowed w db ?current, db1)"
    "quota_inv db1" "\<And>other. allowed w db1 other = allowed w db other"
    using eligible_exact [OF inv k] inv by (cases "?permitted ?current") auto
  show ?thesis
  proof (cases ?e)
    case None
    then show ?thesis using db1(1) sw by (auto simp: choose_route_def route_for_task_def Let_def)
  next
    case (Some e)
    have "\<exists>k. key_for (qw_policy w) (ct_route x) = Inr k" if "x \<in> set (tl (task_candidate_routes c (Some e)))" for x
      using keys that Some by (metis list.set_sel(2) cand(1))
    from first_eligible_find [OF db1(2) this, of "tl (task_candidate_routes c (Some e))" ?permitted] obtain db2 where
      "first_eligible w ?permitted (tl (task_candidate_routes c (Some e))) db1 =
        Inr (find (\<lambda>x. ?permitted (ct_route x) \<and> allowed w db (ct_route x)) (tl (task_candidate_routes c (Some e))), db2)"
      unfolding db1(3) by blast
    then show ?thesis using db1(1) Some sw
      by (auto simp: choose_route_def route_for_task_def Let_def quota_lift_def ebind_def split: option.split sum.split)
  qed
qed

section \<open>Recovery\<close>

lemma admit_probe:
  assumes "pool_at db k = Some r" and "qo_blocked r" and "qo_probe_attempt_id r = None" and "qo_next_eligible_at r = Some e"
    and "e \<le> qw_clock w Read_status" and "key_for (qw_policy w) route = Inr k" and "admission_at db i = None"
  shows "\<exists>db'. quota_admit w db route i = Inr db' \<and> pool_at db' = (pool_at db)(k \<mapsto> r\<lparr> qo_probe_attempt_id := Some i \<rparr>) \<and>
    admission_at db' = (admission_at db)(i \<mapsto> \<lparr> qa_attempt_id = i, qa_key = k, qa_revision = qo_revision r,
      qa_admitted_at = qw_clock w Read_admission, qa_probe = True, qa_finished_at = None \<rparr>)"
proof -
  let ?a = "\<lparr> qa_attempt_id = i, qa_key = k, qa_revision = qo_revision r, qa_admitted_at = qw_clock w Read_admission, qa_probe = True, qa_finished_at = None \<rparr>"
  have "recover_probe w (lock_pool db k) = (r, db)" using assms(1,3) by (simp add: lock_pool_def recover_probe_def)
  moreover have "allows_attempt (status_of w k (Some r))" using assms(3-5) by (simp add: allows_iff)
  ultimately have "quota_admit w db route i = Inr (put_pool (r\<lparr> qo_probe_attempt_id := Some i \<rparr>) (db\<lparr> qd_admissions := qd_admissions db @ [?a] \<rparr>))"
    using assms(2,6,7) by (simp add: quota_admit_def quota_lift_def)
  moreover have "qo_key r = k" by (rule pool_at_key [OF assms(1)])
  ultimately show ?thesis using admission_at_append [of db ?a] assms(1,7) by (simp add: pool_at_put)
qed

lemma settle_success:
  assumes "pool_at db k = Some r" and "qo_probe_attempt_id r = Some i" and "admission_at db i = Some a" and "qa_key a = k"
    and "qo_revision r = qa_revision a"
  shows "\<exists>db'. quota_settle w db i None True True = Inr db' \<and>
    pool_at db' = (pool_at db)(k \<mapsto> r\<lparr> qo_probe_attempt_id := None, qo_blocked := False, qo_recovered_at := Some (qw_clock w Read_recovered) \<rparr>) \<and>
    admission_at db' = (admission_at db)(i \<mapsto> a\<lparr> qa_finished_at := Some (qw_clock w Read_finish) \<rparr>)"
proof -
  have keys: "qo_key r = k" "qa_attempt_id a = i" using assms(1,3) by (auto dest: pool_at_key admission_at_key)
  have "settled_pool w a None True r = r\<lparr> qo_probe_attempt_id := None, qo_blocked := False, qo_recovered_at := Some (qw_clock w Read_recovered) \<rparr>"
    using assms(2,5) keys by (simp add: settled_pool_def)
  then show ?thesis using assms(1,3,4) keys by (simp add: quota_settle_def lock_pool_def pool_at_put admission_at_put)
qed

section \<open>Evidence is kept\<close>

lemma find_append: "find p (xs @ ys) = (case find p xs of Some x \<Rightarrow> Some x | None \<Rightarrow> find p ys)"
  by (induction xs) auto

lemma report_recorded:
  assumes "report_exhaustion w db k x ik src act = Inr (st, db')"
  obtains sk d ob os where "canonical_digest (qw_sq w) (qw_frepr w) (source_payload k src act ik) = Inr sk"
    "canonical_digest (qw_sq w) (qw_frepr w) (exhaustion_payload x) = Inr d" "report_sources db k ik src act = None"
    "find (\<lambda>ob. ob_source_key ob = sk) (qd_observations db') = Some ob" "ob_evidence_digest ob = d" "qd_observations db' = qd_observations db @ os"
proof -
  obtain r db1 where l: "lock_pool db k = (r, db1)" by fastforce
  have o: "qd_observations db1 = qd_observations db" using lock_pool_move [OF l] by blast
  from assms obtain sk where sk: "canonical_digest (qw_sq w) (qw_frepr w) (source_payload k src act ik) = Inr sk"
      and src: "report_sources db k ik src act = None" by (auto simp: report_exhaustion_def l ebind_Inr split: option.splits)
  from assms sk src obtain d where d: "canonical_digest (qw_sq w) (qw_frepr w) (exhaustion_payload x) = Inr d"
    by (auto simp: report_exhaustion_def l ebind_Inr split: option.splits)
  show ?thesis
  proof (cases "find (\<lambda>ob. ob_source_key ob = sk) (qd_observations db1)")
    case None
    then have "qd_observations db' = qd_observations db @ [observation_row w k x src act sk d]"
      using assms by (auto simp: report_exhaustion_def l sk d src quota_lift_def Let_def put_pool_def o)
    moreover have "find (\<lambda>ob. ob_source_key ob = sk) (qd_observations db @ [observation_row w k x src act sk d]) = Some (observation_row w k x src act sk d)"
      using None unfolding o by (simp add: find_append observation_row_def)
    ultimately show ?thesis using that [OF sk d src] by (auto simp: observation_row_def)
  next
    case (Some prior)
    then have "db' = db1" "ob_evidence_digest prior = d"
      using assms by (auto simp: report_exhaustion_def l sk d src quota_lift_def split: if_splits)
    then show ?thesis using that [OF sk d src, of prior "[]"] Some o by auto
  qed
qed

lemma step_observations:
  assumes "quota_step w db db'" and "quota_inv db"
  shows "\<exists>os. qd_observations db' = qd_observations db @ os"
  using assms(1)
proof cases
  case (step_report k x ik src act st)
  then show ?thesis by (rule report_recorded) blast
next
  case (step_eligible route b)
  then show ?thesis using locked_moves [OF assms(2)] unfolding eligible_Inr by fastforce
next
  case (step_admit route i)
  then show ?thesis by (rule admit_cases) (use locked_moves [OF assms(2)] in \<open>auto simp: Let_def put_pool_def\<close>)
next
  case (step_settle i y ok stopped)
  from step_settle show ?thesis
  proof (cases rule: settle_cases)
    case (known a r db1)
    obtain q db0 where l: "lock_pool db (qa_key a) = (q, db0)" by fastforce
    have o: "qd_observations db0 = qd_observations db" using lock_pool_move [OF l] by blast
    have "\<exists>os. qd_observations db1 = qd_observations db @ os"
    proof (cases y)
      case None
      then show ?thesis using known(5) l o by auto
    next
      case (Some x)
      with known(6) l obtain st where "report_exhaustion w db0 (qa_key a) x ''provider-result'' (Some i) None = Inr (st, db1)" by auto
      then show ?thesis by (rule report_recorded) (use o in auto)
    qed
    moreover have "qd_observations db' = qd_observations db1" using known(7) by (simp add: put_pool_def put_admission_def)
    ultimately show ?thesis by simp
  qed simp
qed

text \<open>Rows are never deleted, and an admission keeps its pool.\<close>

fun rows_kept :: "quota_tables \<Rightarrow> quota_tables \<Rightarrow> bool" where
  "rows_kept (P, A, n) (P', A', n') = ((\<forall>k. P k \<noteq> None \<longrightarrow> P' k \<noteq> None) \<and>
     (\<forall>i a. A i = Some a \<longrightarrow> (\<exists>a'. A' i = Some a' \<and> qa_key a' = qa_key a)))"

lemma rows_kept_trans: "rows_kept s t \<Longrightarrow> rows_kept t u \<Longrightarrow> rows_kept s u"
  by (cases s; cases t; cases u) fastforce

lemma move_rows_kept: "quota_move w s t \<Longrightarrow> rows_kept s t"
  by (induction rule: quota_move.induct) auto

lemma moves_rows_kept: "(quota_move w)\<^sup>*\<^sup>* s t \<Longrightarrow> rows_kept s t"
proof (induction rule: rtranclp_induct)
  case base
  show ?case by (cases s) auto
qed (blast intro: rows_kept_trans move_rows_kept)

lemma path_kept:
  assumes "path quota_step ws db db'" and "quota_inv db"
  shows "rows_kept (quota_view db) (quota_view db') \<and> (\<exists>os. qd_observations db' = qd_observations db @ os)"
  using assms
proof (induction ws arbitrary: db)
  case Nil
  then show ?case by (auto simp: quota_view_def)
next
  case (Cons w ws)
  then obtain u where u: "quota_step w db u" "path quota_step ws u db'" by auto
  from Cons.IH [OF u(2) quota_step_inv [OF u(1) Cons.prems(2)]] step_observations [OF u(1) Cons.prems(2)]
    moves_rows_kept [OF quota_step_moves [OF u(1) Cons.prems(2)]] show ?case by (auto intro: rows_kept_trans)
qed

lemma report_replay:
  assumes rep: "report_exhaustion w db k x ik src act = Inr (st, db1)" and inv: "quota_inv db" and path: "path quota_step ws db1 db2"
    and same: "qw_sq v = qw_sq w" "qw_frepr v = qw_frepr w" and d': "canonical_digest (qw_sq w) (qw_frepr w) (exhaustion_payload x') = Inr d'"
  shows "report_exhaustion v db2 k x' ik src act = (if canonical_digest (qw_sq w) (qw_frepr w) (exhaustion_payload x) = Inr d'
    then Inr (pool_status v db2 k, db2) else quota_refused ''quota evidence replay conflicts'')"
  using rep
proof (rule report_recorded)
  fix sk d os and ob :: quota_observation
  assume sk: "canonical_digest (qw_sq w) (qw_frepr w) (source_payload k src act ik) = Inr sk" and d: "canonical_digest (qw_sq w) (qw_frepr w) (exhaustion_payload x) = Inr d"
    and src: "report_sources db k ik src act = None" and ob: "find (\<lambda>ob. ob_source_key ob = sk) (qd_observations db1) = Some ob" "ob_evidence_digest ob = d"
  note m = report_moves [OF rep]
  have kept: "rows_kept (quota_view db1) (quota_view db2)" "\<exists>os. qd_observations db2 = qd_observations db1 @ os"
    using path_kept [OF path] m inv quota_moves_inv by blast+
  have "admission_at db1 = admission_at db" "pool_at db1 k \<noteq> None" using m by auto
  then obtain r where r: "pool_at db2 k = Some r" using kept(1) by (auto simp: quota_view_def)
  have "report_sources db2 k ik src act = None" using src kept(1) \<open>admission_at db1 = _\<close>
    by (cases src) (auto simp: report_sources_def quota_view_def split: if_splits)
  moreover have "lock_pool db2 k = (r, db2)" using r by (simp add: lock_pool_def)
  moreover have "find (\<lambda>ob. ob_source_key ob = sk) (qd_observations db2) = Some ob" using ob(1) kept(2) by (auto simp: find_append)
  ultimately show ?thesis using d d' sk ob(2) same r by (simp add: report_exhaustion_def quota_lift_def pool_status_def)
qed

section \<open>A history\<close>

text \<open>An operator reports at instant 0 that a pool is exhausted, with no reset known; the cooldown is an hour.\<close>

definition quota_sched :: sched_db where
  "quota_sched = \<lparr> sd_runs = (\<lambda>_. None), sd_tasks = [], sd_sched_runs = [], sd_effects = [], sd_policies = [], sd_cursor = None, sd_logical = [],
     sd_attempts = [], sd_consumed = [], sd_bindings = [], sd_results = [], sd_decisions = [], sd_feedback = [], sd_fences = [], sd_checkpoints = [],
     sd_envelopes = (\<lambda>_. Some sample_envelope) \<rparr>"

definition demo_quota :: "int \<Rightarrow> quota_world" where
  "demo_quota t = \<lparr> qw_sq = True, qw_frepr = (\<lambda>_. []), qw_policy = \<lparr> qp_route_pools =
       [\<lparr> qr_provider = ''p'', qr_client = ''c'', qr_account = ''a'', qr_pool = ''general'', qr_auth_mode = Auth_SUBSCRIPTION,
          qr_billing_mode = ALLOWANCE_ONLY, qr_model = None \<rparr>,
        \<lparr> qr_provider = ''p'', qr_client = ''c'', qr_account = ''a'', qr_pool = ''spare'', qr_auth_mode = Auth_SUBSCRIPTION,
          qr_billing_mode = ALLOWANCE_ONLY, qr_model = Some ''f'' \<rparr>], qp_unknown_reset_cooldown_seconds = 3600 \<rparr>,
     qw_clock = (\<lambda>_. t), qw_fresh_id = 11, qw_sched = quota_sched, qw_launches = [], qw_locked_runs = [] \<rparr>"

definition demo_exhaustion :: quota_exhaustion where
  "demo_exhaustion = \<lparr> qx_observed_at = Aware 0, qx_reason = ''usage'', qx_reset_at = None \<rparr>"

definition demo_key :: quota_pool_key where
  "demo_key = \<lparr> qk_provider = ''p'', qk_account = ''a'', qk_pool = ''general'' \<rparr>"

definition spare_key :: quota_pool_key where
  "spare_key = \<lparr> qk_provider = ''p'', qk_account = ''a'', qk_pool = ''spare'' \<rparr>"

lemma quota_demo_keys: "key_for (qw_policy (demo_quota t)) (sample_route ''m'') = Inr demo_key"
    "key_for (qw_policy (demo_quota t)) (sample_route ''f'') = Inr spare_key"
  by code_simp+

definition demo_pool :: quota_pool where
  "demo_pool = observed_pool (demo_quota 0) demo_exhaustion (new_pool demo_key)"

lemma demo_pool_columns: "qo_blocked demo_pool" "qo_probe_attempt_id demo_pool = None" "qo_next_eligible_at demo_pool = Some 3600000000"
    "qo_revision demo_pool = 1" "evidence_horizon (demo_quota 0) demo_exhaustion = 3600000000"
  by (simp_all add: demo_pool_def observed_pool_def new_pool_def demo_exhaustion_def evidence_horizon_def cooldown_us_def demo_quota_def)

lemma demo_report: "\<exists>st db. report_exhaustion (demo_quota 0) quota_empty demo_key demo_exhaustion ''report-1'' None (Some 7) = Inr (st, db) \<and>
    length (qd_observations db) = 1 \<and> pool_at db = [demo_key \<mapsto> demo_pool] \<and> admission_at db = Map.empty"
proof -
  have u: "uuid_str 7 = ''00000000-0000-0000-0000-000000000007''" by (simp add: uuid_str_def uuid_hex_def hex_digit_def upt_rec)
  have "validate_durable_payload True (PDict (source_payload demo_key None (Some 7) ''report-1'')) = None"
    unfolding source_payload_def option.case u by code_simp
  moreover have "validate_durable_payload True (PDict (exhaustion_payload demo_exhaustion)) = None" by code_simp
  ultimately obtain sk d where d: "canonical_digest (qw_sq (demo_quota 0)) (qw_frepr (demo_quota 0)) (source_payload demo_key None (Some 7) ''report-1'') = Inr sk"
    "canonical_digest (qw_sq (demo_quota 0)) (qw_frepr (demo_quota 0)) (exhaustion_payload demo_exhaustion) = Inr d"
    by (auto simp: canonical_digest_def canonical_payload_def demo_quota_def)
  have src: "report_sources quota_empty demo_key ''report-1'' None (Some 7) = None" by code_simp
  have none: "pool_at quota_empty = Map.empty" "admission_at quota_empty = Map.empty" "qd_observations quota_empty = []"
    by (simp_all add: quota_empty_def pool_at_def admission_at_def row_at_def fun_eq_iff)
  have l: "lock_pool quota_empty demo_key = (new_pool demo_key, quota_empty\<lparr> qd_pools := [new_pool demo_key] \<rparr>)"
    unfolding lock_pool_def none by (simp add: quota_empty_def)
  have p: "pool_at (quota_empty\<lparr> qd_pools := [new_pool demo_key] \<rparr>) = [demo_key \<mapsto> new_pool demo_key]"
    by (auto simp: pool_at_def row_at_def fun_eq_iff)
  have "qo_key demo_pool = demo_key" by (simp add: demo_pool_def)
  then show ?thesis using d src l p none
    by (simp add: report_exhaustion_def quota_lift_def demo_pool_def [symmetric] pool_at_put) (simp add: put_pool_def quota_empty_def)
qed

lemma demo_probe: "\<exists>db db'. path quota_step [demo_quota 0] quota_empty db \<and> quota_admit (demo_quota 3600000000) db (sample_route ''m'') 5 = Inr db' \<and>
    pool_at db' demo_key = Some (demo_pool\<lparr> qo_probe_attempt_id := Some 5 \<rparr>) \<and> (\<exists>a. admission_at db' 5 = Some a \<and> outstanding a \<and>
      qa_key a = demo_key \<and> qa_revision a = 1)"
proof -
  obtain st db where db: "report_exhaustion (demo_quota 0) quota_empty demo_key demo_exhaustion ''report-1'' None (Some 7) = Inr (st, db)"
    "pool_at db = [demo_key \<mapsto> demo_pool]" "admission_at db = Map.empty" using demo_report by blast
  have "path quota_step [demo_quota 0] quota_empty db" using db(1) step_report by fastforce
  moreover have "qw_clock (demo_quota 3600000000) Read_status = 3600000000" by (simp add: demo_quota_def)
  ultimately show ?thesis
    using admit_probe [of db demo_key demo_pool 3600000000 "demo_quota 3600000000" "sample_route ''m''" 5] db demo_pool_columns quota_demo_keys
    by (fastforce simp: outstanding_def)
qed

section \<open>Properties\<close>

text \<open>C9. An exhausted pool stays shut until the horizon of its evidence. After new evidence is recorded for a pool, no order of
  later calls that all read the clock before the reset it names (or the end of the cooldown, when it names none)
  admits an attempt to the pool, late successes and shorter evidence included; the pool stays blocked at
  least until then and every further admission is refused.\<close>

theorem exhaustion_blocks_until_horizon:
  assumes "path quota_step vs quota_empty db" and "report_exhaustion w db k x ik src act = Inr (st, db1)"
    and "length (qd_observations db) < length (qd_observations db1)"
    and "path quota_step ws db1 db2" and "\<forall>v \<in> set ws. qw_clock v Read_status < evidence_horizon w x"
  shows "(\<forall>i a. admission_at db2 i = Some a \<longrightarrow> qa_key a = k \<longrightarrow> admission_at db1 i \<noteq> None) \<and>
    (\<exists>r e. pool_at db2 k = Some r \<and> qo_blocked r \<and> qo_next_eligible_at r = Some e \<and> evidence_horizon w x \<le> e) \<and>
    (\<forall>v route i. key_for (qw_policy v) route = Inr k \<longrightarrow> qw_clock v Read_status < evidence_horizon w x \<longrightarrow>
      quota_admit v db2 route i = Inl (QuotaAdmissionDenied ''provider quota pool is blocked''))"
proof -
  have inv: "quota_inv db" by (rule quota_reachable_inv [OF assms(1)])
  have inv1: "quota_inv db1" using report_moves [OF assms(2)] inv quota_moves_inv by blast
  have inv2: "quota_inv db2" by (rule quota_path_inv [OF assms(4) inv1])
  have held: "shut_until k (evidence_horizon w x) (admission_at db1) (quota_view db2)"
    by (rule held_path [OF assms(4) inv1 held_report [OF inv assms(2,3)] assms(5)])
  show ?thesis using held held_denies [OF inv2 held] by (auto simp: quota_view_def elim!: heldE)
qed

theorem exhaustion_blocks_until_horizon_witness:
  "\<exists>st db1 db2. report_exhaustion (demo_quota 0) quota_empty demo_key demo_exhaustion ''report-1'' None (Some 7) = Inr (st, db1) \<and>
     quota_step (demo_quota 3599999999) db1 db2 \<and>
     quota_admit (demo_quota 3599999999) db2 (sample_route ''m'') 5 = Inl (QuotaAdmissionDenied ''provider quota pool is blocked'')"
proof -
  obtain st db1 where r: "report_exhaustion (demo_quota 0) quota_empty demo_key demo_exhaustion ''report-1'' None (Some 7) = Inr (st, db1)"
    "length (qd_observations db1) = 1" using demo_report by blast
  have n: "length (qd_observations quota_empty) < length (qd_observations db1)" using r(2) by (simp add: quota_empty_def)
  have "quota_inv db1" using report_moves [OF r(1)] quota_inv_empty quota_moves_inv by blast
  from eligible_exact [OF this quota_demo_keys(1) [of 3599999999]] obtain db2 where s: "quota_step (demo_quota 3599999999) db1 db2"
    by (auto intro: step_eligible)
  have c: "qw_clock (demo_quota 3599999999) Read_status < evidence_horizon (demo_quota 0) demo_exhaustion"
    unfolding demo_pool_columns(5) by (simp add: demo_quota_def)
  have "quota_admit (demo_quota 3599999999) db2 (sample_route ''m'') 5 = Inl (QuotaAdmissionDenied ''provider quota pool is blocked'')"
    using exhaustion_blocks_until_horizon [OF _ r(1) n, of "[]" "[demo_quota 3599999999]" db2] s c quota_demo_keys by simp
  with r s show ?thesis by blast
qed

text \<open>C10. A blocked pool has one probe at most. In every reachable state an unfinished probe is the one its pool names, the pool is
  blocked, and no attempt is admitted to the pool while the rows do not prove that the probe has
  stopped.\<close>

theorem single_probe_per_pool:
  assumes "path quota_step vs quota_empty db" and "admission_at db i = Some a" and "outstanding a"
  shows "(\<exists>r. pool_at db (qa_key a) = Some r \<and> qo_blocked r \<and> qo_probe_attempt_id r = Some i) \<and>
    (\<forall>j b. admission_at db j = Some b \<longrightarrow> outstanding b \<longrightarrow> qa_key b = qa_key a \<longrightarrow> j = i) \<and>
    (\<forall>w route j. key_for (qw_policy w) route = Inr (qa_key a) \<longrightarrow> \<not> probe_stopped w i \<longrightarrow>
      quota_admit w db route j = Inl (QuotaAdmissionDenied ''provider quota pool is blocked''))"
proof -
  have inv: "quota_inv db" by (rule quota_reachable_inv [OF assms(1)])
  obtain r where r: "pool_at db (qa_key a) = Some r" "qo_probe_attempt_id r = Some i"
    using quota_inv_admission [OF inv assms(2)] assms(3) by (auto simp: admission_ok_def)
  have b: "qo_blocked r" using quota_inv_pool [OF inv r(1)] r(2) by (auto simp: pool_ok_def)
  have one: "j = i" if "admission_at db j = Some b" "outstanding b" "qa_key b = qa_key a" for j b
    using quota_inv_admission [OF inv that(1)] that(2,3) r by (auto simp: admission_ok_def)
  have "probe_proof w db i = None" if "\<not> probe_stopped w i" for w
  proof (cases "probe_proof w db i")
    case (Some a')
    then have "admission_at db i = Some a'" by (auto simp: probe_proof_def split: option.splits if_splits)
    then show ?thesis using probe_proof_stopped [OF Some] that assms(2,3) by (auto simp: outstanding_def)
  qed
  then have deny: "quota_admit w db route j = Inl (QuotaAdmissionDenied ''provider quota pool is blocked'')"
    if "key_for (qw_policy w) route = Inr (qa_key a)" "\<not> probe_stopped w i" for w route j
    using blocked_denies [OF r(1) b _ _ that(1)] that(2) r(2) by auto
  show ?thesis using r b one deny by blast
qed

theorem single_probe_per_pool_witness:
  "\<exists>vs db. path quota_step vs quota_empty db \<and> admission_at db 5 \<noteq> None \<and>
     quota_admit (demo_quota 9000000000) db (sample_route ''m'') 6 = Inl (QuotaAdmissionDenied ''provider quota pool is blocked'')"
proof -
  obtain db db' a where p: "path quota_step [demo_quota 0] quota_empty db" "quota_admit (demo_quota 3600000000) db (sample_route ''m'') 5 = Inr db'"
    and a: "admission_at db' 5 = Some a" "outstanding a" "qa_key a = demo_key" using demo_probe by blast
  have h: "path quota_step [demo_quota 0, demo_quota 3600000000] quota_empty db'" using p step_admit by fastforce
  moreover have "\<not> probe_stopped (demo_quota 9000000000) 5" by (simp add: probe_stopped_def demo_quota_def quota_sched_def row_at_def)
  moreover have "key_for (qw_policy (demo_quota 9000000000)) (sample_route ''m'') = Inr (qa_key a)" using quota_demo_keys a(3) by simp
  ultimately have "quota_admit (demo_quota 9000000000) db' (sample_route ''m'') 6 = Inl (QuotaAdmissionDenied ''provider quota pool is blocked'')"
    using single_probe_per_pool [OF _ a(1,2)] by blast
  with h a(1) show ?thesis by blast
qed

text \<open>C20. A probe ends only with its attempt. A call that changes the admission of an unfinished probe is the settlement of that
  very attempt once its client has stopped, or the rows prove that the probe can do nothing more: its run is not locked by
  anyone, its lease is gone or has passed to another, and every client it launched has stopped under the
  worker that held it.\<close>

theorem probe_ends_stopped:
  assumes "path quota_step vs quota_empty db" and "quota_step w db db'" and "admission_at db i = Some a" and "outstanding a"
    and "admission_at db' i \<noteq> Some a"
  shows "(\<exists>y ok. quota_settle w db i y ok True = Inr db') \<or> probe_stopped w i"
  using probe_end [OF assms(2) quota_reachable_inv [OF assms(1)] assms(3-5)] by blast

theorem probe_ends_stopped_witness:
  "\<exists>vs db db'. path quota_step vs quota_empty db \<and> quota_settle (demo_quota 3600000001) db 5 None True True = Inr db' \<and>
     admission_at db' 5 \<noteq> admission_at db 5 \<and>
     ((\<exists>y ok. quota_settle (demo_quota 3600000001) db 5 y ok True = Inr db') \<or> probe_stopped (demo_quota 3600000001) 5)"
proof -
  obtain d db a where p: "path quota_step [demo_quota 0] quota_empty d" "quota_admit (demo_quota 3600000000) d (sample_route ''m'') 5 = Inr db"
    and r: "pool_at db demo_key = Some (demo_pool\<lparr> qo_probe_attempt_id := Some 5 \<rparr>)"
    and a: "admission_at db 5 = Some a" "outstanding a" "qa_key a = demo_key" "qa_revision a = 1" using demo_probe by blast
  have h: "path quota_step [demo_quota 0, demo_quota 3600000000] quota_empty db" using p step_admit by fastforce
  obtain db' where db': "quota_settle (demo_quota 3600000001) db 5 None True True = Inr db'"
    "admission_at db' 5 = Some (a\<lparr> qa_finished_at := Some 3600000001 \<rparr>)"
    using settle_success [OF r _ a(1,3), of "demo_quota 3600000001"] a(4) demo_pool_columns(4) by (auto simp: demo_quota_def)
  have n: "admission_at db' 5 \<noteq> Some a" using db'(2) a(2) by (auto simp: outstanding_def dest: arg_cong [of _ _ qa_finished_at])
  from probe_ends_stopped [OF h step_settle [OF db'(1)] a(1,2) n] show ?thesis using h db'(1) n a(1) by metis
qed

text \<open>C19. A blocked pool opens only on current evidence. A call that unblocks a pool settles the success of the probe the pool
  names, without new exhaustion, and no evidence about the pool has been recorded since that probe was
  admitted: a success that newer evidence has overtaken never opens the pool.\<close>

theorem pool_opens_on_current_success:
  assumes "path quota_step vs quota_empty db" and "quota_step w db db'" and "pool_at db k = Some r" and "qo_blocked r"
    and "pool_at db' k = Some r'" and "\<not> qo_blocked r'"
  shows "\<exists>i a. quota_settle w db i None True True = Inr db' \<and> qo_probe_attempt_id r = Some i \<and> admission_at db i = Some a \<and>
    qa_key a = k \<and> qa_revision a = int (observed_count db k)"
proof -
  have inv: "quota_inv db" by (rule quota_reachable_inv [OF assms(1)])
  then have "qo_revision r = int (observed_count db k)" using assms(3) view_okD(3) [of "pool_at db" "admission_at db" "observed_count db" k]
    by (simp add: quota_inv_def quota_view_def)
  then show ?thesis using pool_opening [OF assms(2) inv assms(3-6)] by auto
qed

theorem pool_opens_on_current_success_witness:
  "\<exists>vs db db' i a. path quota_step vs quota_empty db \<and> quota_settle (demo_quota 3600000001) db i None True True = Inr db' \<and>
     admission_at db i = Some a \<and> qa_revision a = int (observed_count db demo_key)"
proof -
  obtain d db a where p: "path quota_step [demo_quota 0] quota_empty d" "quota_admit (demo_quota 3600000000) d (sample_route ''m'') 5 = Inr db"
    and r: "pool_at db demo_key = Some (demo_pool\<lparr> qo_probe_attempt_id := Some 5 \<rparr>)"
    and a: "admission_at db 5 = Some a" "qa_key a = demo_key" "qa_revision a = 1" using demo_probe by blast
  have h: "path quota_step [demo_quota 0, demo_quota 3600000000] quota_empty db" using p step_admit by fastforce
  obtain db' r' where db': "quota_settle (demo_quota 3600000001) db 5 None True True = Inr db'" "pool_at db' demo_key = Some r'" "\<not> qo_blocked r'"
    using settle_success [OF r _ a(1,2), of "demo_quota 3600000001"] a(3) demo_pool_columns(4) by auto
  have "qo_blocked (demo_pool\<lparr> qo_probe_attempt_id := Some 5 \<rparr>)" using demo_pool_columns(1) by simp
  from pool_opens_on_current_success [OF h step_settle [OF db'(1)] r this db'(2,3)] show ?thesis using h by blast
qed


definition demo_chooser :: "quota_db \<Rightarrow> sched_world" where
  "demo_chooser db = \<lparr> sw_nt = False, sw_sq = True, sw_frepr = (\<lambda>_. []), sw_now = 1, sw_later = 1, sw_db_now = 1, sw_locked_runs = [],
     sw_locked_tasks = [], sw_quota_eligible = (\<lambda>route. \<exists>db'. quota_eligible (demo_quota 1) db route = Inr (True, db')),
     sw_fit_reservation = (\<lambda>_ _ b. Some b), sw_epic_blockers = (\<lambda>_ _. []), sw_epic_permit = (\<lambda>_. True), sw_stop_proved = (\<lambda>_. False) \<rparr>"


text \<open>C27. An exhausted pool opens again. Once the horizon has passed and no probe is out, a new attempt on the pool is admitted as its
  probe, and when that attempt succeeds with no newer evidence the pool is open to every attempt.\<close>

theorem exhausted_pool_reopens:
  assumes "pool_at db k = Some r" and "qo_blocked r" and "qo_probe_attempt_id r = None" and "qo_next_eligible_at r = Some e"
    and "e \<le> qw_clock w Read_status" and "key_for (qw_policy w) route = Inr k" and "admission_at db i = None"
  shows "\<exists>db1 db2. quota_admit w db route i = Inr db1 \<and> quota_settle v db1 i None True True = Inr db2 \<and>
    (\<exists>r2. pool_at db2 k = Some r2 \<and> \<not> qo_blocked r2) \<and>
    (\<forall>u other j. key_for (qw_policy u) other = Inr k \<longrightarrow> admission_at db2 j = None \<longrightarrow> (\<exists>db3. quota_admit u db2 other j = Inr db3))"
proof -
  let ?r = "r\<lparr> qo_probe_attempt_id := Some i \<rparr>"
  let ?r2 = "?r\<lparr> qo_probe_attempt_id := None, qo_blocked := False, qo_recovered_at := Some (qw_clock v Read_recovered) \<rparr>"
  from admit_probe [OF assms] obtain db1 where db1: "quota_admit w db route i = Inr db1" "pool_at db1 = (pool_at db)(k \<mapsto> ?r)"
    "admission_at db1 = (admission_at db)(i \<mapsto> \<lparr> qa_attempt_id = i, qa_key = k, qa_revision = qo_revision r,
      qa_admitted_at = qw_clock w Read_admission, qa_probe = True, qa_finished_at = None \<rparr>)" by blast
  obtain db2 where db2: "quota_settle v db1 i None True True = Inr db2" "pool_at db2 k = Some ?r2"
    using settle_success [of db1 k ?r i _ v] db1(2,3) by fastforce
  have "lock_pool db2 k = (?r2, db2)" using db2(2) by (simp add: lock_pool_def)
  moreover have "recover_probe u (?r2, db2) = (?r2, db2)" for u by (simp add: recover_probe_def)
  moreover have "allows_attempt (status_of u k (Some ?r2))" for u by (simp add: allows_iff)
  ultimately have "\<exists>db3. quota_admit u db2 other j = Inr db3" if "key_for (qw_policy u) other = Inr k" "admission_at db2 j = None" for u other j
    using that by (simp add: quota_admit_def quota_lift_def)
  then show ?thesis using db1(1) db2 by (intro exI [of _ db1] exI [of _ db2]) auto
qed

theorem exhausted_pool_reopens_witness:
  "\<exists>st db db1 db2. report_exhaustion (demo_quota 0) quota_empty demo_key demo_exhaustion ''report-1'' None (Some 7) = Inr (st, db) \<and>
     quota_admit (demo_quota 3600000000) db (sample_route ''m'') 5 = Inr db1 \<and> quota_settle (demo_quota 3600000001) db1 5 None True True = Inr db2 \<and>
     (\<exists>r2. pool_at db2 demo_key = Some r2 \<and> \<not> qo_blocked r2)"
proof -
  obtain st db where db: "report_exhaustion (demo_quota 0) quota_empty demo_key demo_exhaustion ''report-1'' None (Some 7) = Inr (st, db)"
    "pool_at db = [demo_key \<mapsto> demo_pool]" "admission_at db = Map.empty" using demo_report by blast
  have "qw_clock (demo_quota 3600000000) Read_status = 3600000000" by (simp add: demo_quota_def)
  with exhausted_pool_reopens [of db demo_key demo_pool 3600000000 "demo_quota 3600000000" "sample_route ''m''" 5 "demo_quota 3600000001"]
  show ?thesis using db demo_pool_columns quota_demo_keys by fastforce
qed

text \<open>Evidence counts once. After a report, whatever is done in between, the same source and key repeat the same evidence without any
  change and learn the present status, and with evidence of another digest they are refused.\<close>

theorem evidence_counts_once:
  assumes "path quota_step vs quota_empty db" and "report_exhaustion w db k x ik src act = Inr (st, db1)" and "path quota_step ws db1 db2"
    and "qw_sq v = qw_sq w" and "qw_frepr v = qw_frepr w" and "canonical_digest (qw_sq w) (qw_frepr w) (exhaustion_payload x') = Inr d'"
  shows "report_exhaustion v db2 k x' ik src act = (if canonical_digest (qw_sq w) (qw_frepr w) (exhaustion_payload x) = Inr d'
    then Inr (pool_status v db2 k, db2) else Inl (Quota_invalid (ValueError ''quota evidence replay conflicts'')))"
  by (rule report_replay [OF assms(2) quota_reachable_inv [OF assms(1)] assms(3-6)])

theorem evidence_counts_once_witness:
  "\<exists>st db. report_exhaustion (demo_quota 0) quota_empty demo_key demo_exhaustion ''report-1'' None (Some 7) = Inr (st, db) \<and>
     report_exhaustion (demo_quota 5) db demo_key demo_exhaustion ''report-1'' None (Some 7) = Inr (pool_status (demo_quota 5) db demo_key, db)"
proof -
  obtain st db where db: "report_exhaustion (demo_quota 0) quota_empty demo_key demo_exhaustion ''report-1'' None (Some 7) = Inr (st, db)"
    using demo_report by blast
  from db obtain d where d: "canonical_digest (qw_sq (demo_quota 0)) (qw_frepr (demo_quota 0)) (exhaustion_payload demo_exhaustion) = Inr d"
    by (rule report_recorded)
  from evidence_counts_once [of "[]" quota_empty, OF _ db _ _ _ d, of "[]" db "demo_quota 5"] d db show ?thesis by (simp add: demo_quota_def)
qed

end
