(* ===== verification/Forge_Usage.thy ===== *)
theory Forge_Usage
  imports Forge_Schedule
begin

text \<open>
  The accounting of attempts: \<^verbatim>\<open>persistence/repositories/subscription_budget.py\<close> with its tables in
  \<^verbatim>\<open>persistence/models/subscription_usage.py\<close>. An attempt reserves a budget before its client starts and is
  charged when it is settled, a repair holds a slot for the attempt that follows it, and every admission
  is checked against the frozen budgets of its task and of its run.

  The accounting tables stand beside the tables of the scheduler, which these calls only read; every call
  holds the lock of its run and is one step. A payload column is the record it decodes to, \<open>None\<close> when it
  decodes to none of the expected class. After a debit the source also closes exhausted feedback, which
  touches no table of this theory.
\<close>

section \<open>Tables\<close>

record budget_pool_row =
  bo_run_id :: uuid
  bo_task_row_id :: "uuid option"
  bo_pool :: "budget_pool option"

record reservation_row =
  rv_attempt_id :: uuid
  rv_run_id :: uuid
  rv_task_id :: uuid
  rv_idempotency_key :: string
  rv_budget :: "task_budget option"

record consumption_row =
  cn_attempt_id :: uuid
  cn_telemetry :: "attempt_telemetry option"
  cn_observed :: usage_amounts
  cn_charged :: usage_amounts
  cn_unknown_fields :: "string list"
  cn_exceeded_fields :: "string list"
  cn_policy_violations :: "string list"
  cn_uncertain :: bool

record repair_row =
  de_attempt_id :: uuid
  de_next_attempt_id :: "uuid option"

text \<open>Of the reservations of the earlier accounting only run and status count.\<close>

record usage_db =
  us_sched :: sched_db
  us_pools :: "budget_pool_row list"
  us_legacy :: "(uuid \<times> string) list"
  us_reservations :: "reservation_row list"
  us_consumptions :: "consumption_row list"
  us_debits :: "repair_row list"

record subscription_usage =
  su_consumed :: usage_amounts
  su_outstanding :: usage_amounts
  su_uncertain_attempts :: int
  su_policy_violations :: "string list"

record usage_receipt =
  ur_attempt_id :: uuid
  ur_telemetry :: "attempt_telemetry option"
  ur_charge :: attempt_charge

datatype budget_error = SubscriptionBudgetConflict string | Budget_invalid py_exn

abbreviation budget_conflict :: "string \<Rightarrow> budget_error + 'a" where
  "budget_conflict m \<equiv> Inl (SubscriptionBudgetConflict m)"

definition budget_lift :: "'a result \<Rightarrow> budget_error + 'a" where
  "budget_lift m = (case m of Inl e \<Rightarrow> Inl (Budget_invalid e) | Inr x \<Rightarrow> Inr x)"

definition decoded :: "'a option \<Rightarrow> budget_error + 'a" where
  "decoded payload = (case payload of None \<Rightarrow> budget_conflict ''stored budget record type conflicts'' | Some x \<Rightarrow> Inr x)"

definition budget_attempt :: "usage_db \<Rightarrow> uuid \<Rightarrow> attempt_row option" where
  "budget_attempt db i = row_at sa_id i (sd_attempts (us_sched db))"

definition reservation_at :: "usage_db \<Rightarrow> uuid \<Rightarrow> reservation_row option" where
  "reservation_at db i = row_at rv_attempt_id i (us_reservations db)"

definition consumption_at :: "usage_db \<Rightarrow> uuid \<Rightarrow> consumption_row option" where
  "consumption_at db i = row_at cn_attempt_id i (us_consumptions db)"

section \<open>Contracts and scopes\<close>

definition budget_contracts :: "usage_db \<Rightarrow> uuid \<Rightarrow> uuid \<Rightarrow> budget_error + (logical_task_contract \<times> logical_task_contract \<times> logical_row)" where
  "budget_contracts db run_id task_id =
     (if sd_runs (us_sched db) run_id = None then budget_conflict ''run does not exist''
      else case logical_at (us_sched db) task_id of
        None \<Rightarrow> budget_conflict ''task budget lineage conflicts''
      | Some task \<Rightarrow>
          if lg_run_id task \<noteq> run_id then budget_conflict ''task budget lineage conflicts''
          else ebind (decoded (lg_contract task)) (\<lambda>contract.
            ebind (emap (\<lambda>row. decoded (lg_contract row)) (filter (\<lambda>row. lg_run_id row = run_id \<and> lg_parent_task_id row = None)
              (sd_logical (us_sched db)))) (\<lambda>roots.
            case filter (\<lambda>c. lt_purpose c = PRIMARY) roots of
              [primary] \<Rightarrow> if lt_run_id contract \<noteq> run_id \<or> lt_task_id contract \<noteq> task_id
                then budget_conflict ''task budget identity conflicts'' else Inr (contract, primary, task)
            | _ \<Rightarrow> budget_conflict ''one frozen primary budget is required'')))"

definition attempt_contracts :: "usage_db \<Rightarrow> uuid \<Rightarrow> uuid \<Rightarrow> uuid
    \<Rightarrow> budget_error + (logical_task_contract \<times> logical_task_contract \<times> logical_row \<times> attempt_row)" where
  "attempt_contracts db run_id task_id attempt_id = ebind (budget_contracts db run_id task_id) (\<lambda>(contract, primary, task).
     case budget_attempt db attempt_id of
       None \<Rightarrow> budget_conflict ''attempt budget lineage conflicts''
     | Some attempt \<Rightarrow> if sa_run_id attempt \<noteq> run_id \<or> sa_task_row_id attempt \<noteq> task_id
         then budget_conflict ''attempt budget lineage conflicts'' else Inr (contract, primary, task, attempt))"

type_synonym budget_scope = "uuid option \<times> string \<times> task_budget"

fun pool_scopes :: "uuid \<Rightarrow> budget_pool_row list \<Rightarrow> budget_scope list \<Rightarrow> task_budget \<Rightarrow> budget_error + budget_scope list" where
  "pool_scopes task_id [] scopes run_budget = Inr (scopes @ [(None, ''run'', run_budget)])"
| "pool_scopes task_id (pool # pools) scopes run_budget = (case bo_task_row_id pool of
     None \<Rightarrow> ebind (decoded (bo_pool pool)) (\<lambda>p. pool_scopes task_id pools scopes (bp_total_budget p))
   | Some t \<Rightarrow> if t = task_id
       then ebind (decoded (bo_pool pool)) (\<lambda>p. pool_scopes task_id pools (scopes @ [(Some task_id, ''task_pool'', bp_total_budget p)]) run_budget)
       else pool_scopes task_id pools scopes run_budget)"

definition budget_scopes :: "usage_db \<Rightarrow> uuid \<Rightarrow> uuid \<Rightarrow> logical_task_contract \<Rightarrow> logical_task_contract \<Rightarrow> budget_error + budget_scope list" where
  "budget_scopes db run_id task_id contract primary = pool_scopes task_id (filter (\<lambda>p. bo_run_id p = run_id) (us_pools db))
     [(Some task_id, ''task'', lt_budget contract)] (lt_budget primary)"

section \<open>Usage\<close>

definition no_usage :: usage_amounts where
  "no_usage = \<lparr> ua_duration_ms = Some 0, ua_tool_calls = Some 0, ua_named_checks = Some 0, ua_provider_attempts = Some 0, ua_repairs = Some 0,
     ua_input_tokens = Some 0, ua_output_tokens = Some 0, ua_cost_minor = Some 0 \<rparr>"

definition in_scope :: "uuid \<Rightarrow> uuid option \<Rightarrow> uuid \<Rightarrow> uuid \<Rightarrow> bool" where
  "in_scope run_id scope r t = (r = run_id \<and> (case scope of None \<Rightarrow> True | Some task_id \<Rightarrow> t = task_id))"

definition scope_reservations :: "usage_db \<Rightarrow> uuid \<Rightarrow> uuid option \<Rightarrow> reservation_row list" where
  "scope_reservations db run_id scope = filter (\<lambda>r. in_scope run_id scope (rv_run_id r) (rv_task_id r)) (us_reservations db)"

definition scope_debits :: "usage_db \<Rightarrow> uuid \<Rightarrow> uuid option \<Rightarrow> repair_row list" where
  "scope_debits db run_id scope = filter (\<lambda>d. case budget_attempt db (de_attempt_id d) of
     None \<Rightarrow> False | Some a \<Rightarrow> in_scope run_id scope (sa_run_id a) (sa_task_row_id a)) (us_debits db)"

fun usage_rows :: "usage_db \<Rightarrow> reservation_row list \<Rightarrow> usage_amounts \<Rightarrow> usage_amounts \<Rightarrow> int \<Rightarrow> string list
    \<Rightarrow> budget_error + (usage_amounts \<times> usage_amounts \<times> int \<times> string list)" where
  "usage_rows db [] consumed outstanding uncertain violations = Inr (consumed, outstanding, uncertain, violations)"
| "usage_rows db (r # rs) consumed outstanding uncertain violations = (case consumption_at db (rv_attempt_id r) of
     None \<Rightarrow> ebind (decoded (rv_budget r)) (\<lambda>b. ebind (budget_lift (budget_ceiling b)) (\<lambda>c. ebind (budget_lift (usage_add outstanding c)) (\<lambda>outstanding'.
       usage_rows db rs consumed outstanding' uncertain violations)))
   | Some c \<Rightarrow> ebind (budget_lift (usage_add consumed (cn_charged c))) (\<lambda>consumed'.
       usage_rows db rs consumed' outstanding (uncertain + (if cn_uncertain c then 1 else 0)) (violations @ cn_policy_violations c)))"

definition scope_usage :: "usage_db \<Rightarrow> uuid \<Rightarrow> uuid option \<Rightarrow> budget_error + subscription_usage" where
  "scope_usage db run_id scope =
     ebind (usage_rows db (scope_reservations db run_id scope) no_usage no_usage 0 []) (\<lambda>(consumed, outstanding, uncertain, violations).
     let debits = scope_debits db run_id scope in
     ebind (budget_lift (usage_add consumed (no_usage\<lparr> ua_repairs := Some (int (length debits)) \<rparr>))) (\<lambda>consumed'.
     ebind (budget_lift (usage_add outstanding (no_usage\<lparr> ua_provider_attempts :=
         Some (int (length (filter (\<lambda>d. de_next_attempt_id d = None) debits))) \<rparr>))) (\<lambda>outstanding'.
       Inr \<lparr> su_consumed = consumed', su_outstanding = outstanding', su_uncertain_attempts = uncertain,
         su_policy_violations = sort (remdups violations) \<rparr>)))"

definition usage_of :: "usage_db \<Rightarrow> uuid \<Rightarrow> uuid option \<Rightarrow> budget_error + subscription_usage" where
  "usage_of db run_id task_id =
     (if sd_runs (us_sched db) run_id = None then budget_conflict ''run does not exist''
      else if (case task_id of None \<Rightarrow> False | Some t \<Rightarrow> map_option lg_run_id (logical_at (us_sched db) t) \<noteq> Some run_id)
      then budget_conflict ''task usage lineage conflicts'' else scope_usage db run_id task_id)"

definition recovery_scopes :: "usage_db \<Rightarrow> uuid \<Rightarrow> uuid \<Rightarrow> budget_error + (string \<times> task_budget \<times> subscription_usage) list" where
  "recovery_scopes db run_id task_id = ebind (budget_contracts db run_id task_id) (\<lambda>(contract, primary, _).
     ebind (budget_scopes db run_id task_id contract primary) (emap (\<lambda>(scope, name, budget).
       ebind (scope_usage db run_id scope) (\<lambda>current. Inr (name, budget, current)))))"

definition reserved_budget :: "usage_db \<Rightarrow> uuid \<Rightarrow> uuid \<Rightarrow> uuid \<Rightarrow> budget_error + task_budget" where
  "reserved_budget db run_id task_id attempt_id = (case reservation_at db attempt_id of
     None \<Rightarrow> budget_conflict ''attempt has no matching reservation''
   | Some row \<Rightarrow>
       if rv_run_id row \<noteq> run_id \<or> rv_task_id row \<noteq> task_id then budget_conflict ''attempt has no matching reservation''
       else if consumption_at db attempt_id \<noteq> None then budget_conflict ''attempt reservation is already settled''
       else ebind (decoded (rv_budget row)) (\<lambda>budget. if tb_max_provider_attempts budget \<noteq> 1 \<or> tb_max_repairs budget \<noteq> 0
         then budget_conflict ''attempt reservation units differ'' else Inr budget))"

section \<open>Fitting a reservation\<close>

definition pending_repairs :: "usage_db \<Rightarrow> uuid \<Rightarrow> uuid \<Rightarrow> repair_row list" where
  "pending_repairs db run_id task_id = filter (\<lambda>d. de_next_attempt_id d = None) (scope_debits db run_id (Some task_id))"

definition legacy_unresolved :: "usage_db \<Rightarrow> uuid \<Rightarrow> bool" where
  "legacy_unresolved db run_id = (\<exists>(r, status) \<in> set (us_legacy db). r = run_id \<and> status \<noteq> ''released'')"

definition scope_stopped :: "task_budget \<Rightarrow> subscription_usage \<Rightarrow> bool" where
  "scope_stopped budget current = (su_policy_violations current \<noteq> [] \<or>
     su_uncertain_attempts current \<noteq> 0 \<and> ut_max_uncertain_attempts (tb_unknown_telemetry_policy budget) \<le> su_uncertain_attempts current)"

definition scope_denies :: "billing_mode \<Rightarrow> task_budget \<Rightarrow> subscription_usage \<Rightarrow> bool" where
  "scope_denies mode budget current = (mode \<noteq> tb_billing_mode budget \<or> scope_stopped budget current)"

definition narrowed_policy :: "unknown_telemetry_policy \<Rightarrow> unknown_telemetry_policy \<Rightarrow> unknown_telemetry_policy" where
  "narrowed_policy unknown policy = \<lparr> ut_allow_unknown_tokens = (ut_allow_unknown_tokens unknown \<and> ut_allow_unknown_tokens policy),
     ut_allow_unknown_cost = (ut_allow_unknown_cost unknown \<and> ut_allow_unknown_cost policy),
     ut_allow_unknown_quota = (ut_allow_unknown_quota unknown \<and> ut_allow_unknown_quota policy),
     ut_max_uncertain_attempts = min (ut_max_uncertain_attempts unknown) (ut_max_uncertain_attempts policy) \<rparr>"

text \<open>One scope of the loop over limits: \<open>None\<close> is the early return.\<close>

fun fit_limits :: "(string, int option) dict \<Rightarrow> (string, int option) dict \<Rightarrow> (string, int option) dict \<Rightarrow> (string, int option) dict option" where
  "fit_limits ((name, limit) # ls) ((_, amount) # used) ((_, prior) # proposed) = (case limit of
     None \<Rightarrow> map_option ((#) (name, prior)) (fit_limits ls used proposed)
   | Some l \<Rightarrow> (case amount of
       None \<Rightarrow> None
     | Some n \<Rightarrow> if l < n then None
         else map_option ((#) (name, Some (case prior of None \<Rightarrow> l - n | Some p \<Rightarrow> min p (l - n)))) (fit_limits ls used proposed)))"
| "fit_limits _ _ _ = Some []"

fun fit_scopes :: "usage_db \<Rightarrow> uuid \<Rightarrow> int \<Rightarrow> billing_mode \<Rightarrow> budget_scope list \<Rightarrow> (string, int option) dict \<Rightarrow> unknown_telemetry_policy
    \<Rightarrow> budget_error + ((string, int option) dict \<times> unknown_telemetry_policy) option" where
  "fit_scopes db run_id pending mode [] proposed unknown = Inr (Some (proposed, unknown))"
| "fit_scopes db run_id pending mode ((scope, _, budget) # scopes) proposed unknown = ebind (scope_usage db run_id scope) (\<lambda>current.
     if scope_denies mode budget current then Inr None
     else ebind (budget_lift (usage_add (su_consumed current) (su_outstanding current))) (\<lambda>used. case ua_provider_attempts used of
       None \<Rightarrow> budget_conflict ''pending repair accounting conflicts''
     | Some attempts \<Rightarrow>
         if attempts < pending then budget_conflict ''pending repair accounting conflicts''
         else ebind (budget_lift (budget_ceiling budget)) (\<lambda>limits.
           case fit_limits (usage_values limits) (usage_values (used\<lparr> ua_provider_attempts := Some (attempts - pending) \<rparr>)) proposed of
             None \<Rightarrow> Inr None
           | Some proposed' \<Rightarrow> fit_scopes db run_id pending mode scopes proposed'
               (narrowed_policy unknown (tb_unknown_telemetry_policy budget)))))"

definition proposed_at :: "(string, int option) dict \<Rightarrow> string \<Rightarrow> int option" where
  "proposed_at d name = (case map_of d name of None \<Rightarrow> None | Some v \<Rightarrow> v)"

definition fitted_budget :: "task_budget \<Rightarrow> (string, int option) dict \<Rightarrow> int \<Rightarrow> unknown_telemetry_policy \<Rightarrow> task_budget" where
  "fitted_budget request p duration unknown = request\<lparr> tb_max_duration_seconds := duration div 1000,
     tb_max_tool_calls := or_zero (proposed_at p ''tool_calls''), tb_max_named_checks := or_zero (proposed_at p ''named_checks''),
     tb_max_input_tokens := proposed_at p ''input_tokens'', tb_max_output_tokens := proposed_at p ''output_tokens'',
     tb_max_cost_minor := proposed_at p ''cost_minor'', tb_unknown_telemetry_policy := unknown \<rparr>"

definition fit_reservation :: "usage_db \<Rightarrow> uuid \<Rightarrow> uuid \<Rightarrow> task_budget \<Rightarrow> budget_error + task_budget option" where
  "fit_reservation db run_id task_id request =
     (if tb_max_provider_attempts request \<noteq> 1 \<or> tb_max_repairs request \<noteq> 0 then budget_conflict ''fit one attempt and no repair unit''
      else ebind (budget_contracts db run_id task_id) (\<lambda>(contract, primary, _).
        if legacy_unresolved db run_id then Inr None
        else let pending = int (length (pending_repairs db run_id task_id)) in
          if pending \<notin> {0, 1} then budget_conflict ''ambiguous pending repair slot''
          else ebind (budget_lift (budget_ceiling request)) (\<lambda>proposed.
            ebind (budget_scopes db run_id task_id contract primary) (\<lambda>scopes.
            ebind (fit_scopes db run_id pending (tb_billing_mode request) scopes (usage_values proposed) (tb_unknown_telemetry_policy request)) (\<lambda>fit.
              case fit of
                None \<Rightarrow> Inr None
              | Some (p, unknown) \<Rightarrow> (case proposed_at p ''duration_ms'' of
                  None \<Rightarrow> Inr None
                | Some duration \<Rightarrow>
                    if duration < 1000 \<or> proposed_at p ''provider_attempts'' \<noteq> Some 1 then Inr None
                    else (let b = fitted_budget request p duration unknown in budget_lift (raising (task_budget_validate b) (Some b)))))))))"

section \<open>Reservation\<close>

fun scopes_admit :: "usage_db \<Rightarrow> uuid \<Rightarrow> (task_budget \<Rightarrow> subscription_usage \<Rightarrow> bool) \<Rightarrow> usage_amounts \<Rightarrow> budget_scope list \<Rightarrow> budget_error + bool" where
  "scopes_admit db run_id denies extra [] = Inr True"
| "scopes_admit db run_id denies extra ((scope, _, budget) # scopes) = ebind (scope_usage db run_id scope) (\<lambda>current.
     if denies budget current then Inr False
     else ebind (budget_lift (usage_add (su_consumed current) (su_outstanding current))) (\<lambda>used.
       ebind (budget_lift (usage_add used extra)) (\<lambda>total.
       ebind (budget_lift (fits_within total budget)) (\<lambda>ok. if ok then scopes_admit db run_id denies extra scopes else Inr False))))"

definition attempt_admissible :: "usage_db \<Rightarrow> uuid \<Rightarrow> uuid \<Rightarrow> logical_row \<Rightarrow> attempt_row \<Rightarrow> string \<Rightarrow> budget_error option" where
  "attempt_admissible db run_id task_id task attempt idempotency_key = seq_raise [
     when_raise (case sd_runs (us_sched db) run_id of None \<Rightarrow> True | Some (state, gate) \<Rightarrow> \<not> run_allows_subscription_attempt state gate)
       (SubscriptionBudgetConflict ''run is not eligible for attempt admission''),
     when_raise (Max (set (map sa_attempt_number (filter (\<lambda>a. sa_run_id a = run_id \<and> sa_task_row_id a = task_id)
         (sd_attempts (us_sched db))))) \<noteq> sa_attempt_number attempt) (SubscriptionBudgetConflict ''attempt was superseded''),
     when_raise (lg_pause_requested task \<or> lg_cancel_requested task \<or> lg_state task \<notin> {''queued'', ''running''} \<or>
         sa_status attempt \<notin> {''queued'', ''running''}) (SubscriptionBudgetConflict ''attempt is not eligible for admission''),
     when_raise ((\<exists>r \<in> set (us_reservations db). rv_run_id r = run_id \<and> rv_idempotency_key r = idempotency_key) \<or> legacy_unresolved db run_id)
       (SubscriptionBudgetConflict ''reservation key or unresolved legacy accounting conflicts'')]"

definition transfer_slot :: "usage_db \<Rightarrow> uuid \<Rightarrow> uuid \<Rightarrow> attempt_row \<Rightarrow> budget_error + usage_db" where
  "transfer_slot db run_id task_id attempt = (case pending_repairs db run_id task_id of
     [] \<Rightarrow> Inr db
   | [d] \<Rightarrow> (case budget_attempt db (de_attempt_id d) of
       None \<Rightarrow> budget_conflict ''repair attempt lineage conflicts''
     | Some parent \<Rightarrow> if sa_attempt_number parent + 1 \<noteq> sa_attempt_number attempt then budget_conflict ''repair attempt lineage conflicts''
         else Inr (db\<lparr> us_debits := put_row de_attempt_id (d\<lparr> de_next_attempt_id := Some (sa_id attempt) \<rparr>) (us_debits db) \<rparr>))
   | _ \<Rightarrow> budget_conflict ''ambiguous pending repair slot'')"

definition reserve_attempt :: "usage_db \<Rightarrow> uuid \<Rightarrow> uuid \<Rightarrow> uuid \<Rightarrow> task_budget \<Rightarrow> string \<Rightarrow> budget_error + usage_db" where
  "reserve_attempt db run_id task_id attempt_id reservation idempotency_key =
     (if tb_max_provider_attempts reservation \<noteq> 1 \<or> tb_max_repairs reservation \<noteq> 0
      then budget_conflict ''reserve one attempt; repairs are debited at scheduling''
      else if idempotency_key = [] \<or> 255 < length idempotency_key then budget_conflict ''invalid reservation key''
      else ebind (attempt_contracts db run_id task_id attempt_id) (\<lambda>(contract, primary, task, attempt).
        case reservation_at db attempt_id of
          Some existing \<Rightarrow>
            if rv_run_id existing \<noteq> run_id \<or> rv_task_id existing \<noteq> task_id \<or> rv_idempotency_key existing \<noteq> idempotency_key \<or>
               rv_budget existing \<noteq> Some reservation
            then budget_conflict ''attempt reservation replay conflicts'' else Inr db
        | None \<Rightarrow> (case attempt_admissible db run_id task_id task attempt idempotency_key of
            Some e \<Rightarrow> Inl e
          | None \<Rightarrow> ebind (transfer_slot db run_id task_id attempt) (\<lambda>db1.
              ebind (budget_scopes db1 run_id task_id contract primary) (\<lambda>scopes.
              ebind (budget_lift (budget_ceiling reservation)) (\<lambda>extra.
              ebind (scopes_admit db1 run_id (scope_denies (tb_billing_mode reservation)) extra scopes) (\<lambda>ok.
                if \<not> ok then budget_conflict ''aggregate attempt budget exhausted''
                else Inr (db1\<lparr> us_reservations := us_reservations db1 @ [\<lparr> rv_attempt_id = attempt_id, rv_run_id = run_id, rv_task_id = task_id,
                  rv_idempotency_key = idempotency_key, rv_budget = Some reservation \<rparr>] \<rparr>))))))))"

section \<open>Settlement\<close>

definition receipt :: "consumption_row \<Rightarrow> usage_receipt" where
  "receipt row = \<lparr> ur_attempt_id = cn_attempt_id row, ur_telemetry = cn_telemetry row, ur_charge = \<lparr> ac_observed = cn_observed row,
     ac_charged = cn_charged row, ac_unknown_fields = cn_unknown_fields row, ac_exceeded_fields = cn_exceeded_fields row \<rparr> \<rparr>"

definition unmeasured :: attempt_telemetry where
  "unmeasured = \<lparr> at_input_tokens = None, at_output_tokens = None, at_cached_input_tokens = None, at_duration_ms = 0, at_tool_call_count = 0,
     at_named_check_count = 0, at_estimated_api_cost_minor = None, at_currency = None, at_subscription_allowance_charge = None,
     at_quota_status = Quota_UNKNOWN, at_unknown_telemetry_reasons = [] \<rparr>"

definition scope_violations :: "attempt_telemetry option \<Rightarrow> budget_scope list \<Rightarrow> string list" where
  "scope_violations telemetry scopes = map (\<lambda>(_, scope, _). scope @ '':unknown_telemetry'')
     (filter (\<lambda>(_, _, budget). validate_telemetry (tb_unknown_telemetry_policy budget)
        (case telemetry of None \<Rightarrow> unmeasured | Some t \<Rightarrow> t) (tb_billing_mode budget) \<noteq> None) scopes)"

definition consumption_of :: "uuid \<Rightarrow> attempt_telemetry option \<Rightarrow> attempt_charge \<Rightarrow> string list \<Rightarrow> consumption_row" where
  "consumption_of attempt_id telemetry charge violations = \<lparr> cn_attempt_id = attempt_id, cn_telemetry = telemetry, cn_observed = ac_observed charge,
     cn_charged = ac_charged charge, cn_unknown_fields = ac_unknown_fields charge, cn_exceeded_fields = ac_exceeded_fields charge,
     cn_policy_violations = violations, cn_uncertain = (case telemetry of None \<Rightarrow> True
       | Some t \<Rightarrow> \<not> (is_token_telemetry_known t \<and> is_cost_known t \<and> is_quota_known t)) \<rparr>"

definition settle_attempt :: "usage_db \<Rightarrow> uuid \<Rightarrow> uuid \<Rightarrow> uuid \<Rightarrow> attempt_telemetry option \<Rightarrow> budget_error + (usage_receipt \<times> usage_db)" where
  "settle_attempt db run_id task_id attempt_id telemetry = ebind (attempt_contracts db run_id task_id attempt_id) (\<lambda>(contract, primary, _, _).
     case reservation_at db attempt_id of
       None \<Rightarrow> budget_conflict ''attempt has no matching reservation''
     | Some reservation \<Rightarrow>
         if rv_run_id reservation \<noteq> run_id \<or> rv_task_id reservation \<noteq> task_id then budget_conflict ''attempt has no matching reservation''
         else (case consumption_at db attempt_id of
           Some existing \<Rightarrow> if cn_telemetry existing \<noteq> telemetry then budget_conflict ''attempt consumption replay conflicts''
             else Inr (receipt existing, db)
         | None \<Rightarrow> ebind (decoded (rv_budget reservation)) (\<lambda>budget.
             ebind (budget_lift (project_attempt_charge budget telemetry False)) (\<lambda>charge.
             ebind (budget_scopes db run_id task_id contract primary) (\<lambda>scopes.
               let row = consumption_of attempt_id telemetry charge (scope_violations telemetry scopes) in
               Inr (receipt row, db\<lparr> us_consumptions := us_consumptions db @ [row] \<rparr>))))))"

section \<open>Repairs\<close>

definition debit_at :: "usage_db \<Rightarrow> uuid \<Rightarrow> repair_row option" where
  "debit_at db i = row_at de_attempt_id i (us_debits db)"

definition repair_units :: usage_amounts where
  "repair_units = no_usage\<lparr> ua_repairs := Some 1, ua_provider_attempts := Some 1 \<rparr>"

definition can_debit_repair :: "usage_db \<Rightarrow> uuid \<Rightarrow> uuid \<Rightarrow> uuid \<Rightarrow> budget_error + bool" where
  "can_debit_repair db run_id task_id attempt_id = ebind (attempt_contracts db run_id task_id attempt_id) (\<lambda>(contract, primary, _, _).
     if debit_at db attempt_id \<noteq> None then Inr True
     else if consumption_at db attempt_id = None then budget_conflict ''repair requires settled attempt usage''
     else ebind (budget_scopes db run_id task_id contract primary) (scopes_admit db run_id scope_stopped repair_units))"

definition try_debit_repair :: "usage_db \<Rightarrow> uuid \<Rightarrow> uuid \<Rightarrow> uuid \<Rightarrow> budget_error + (bool \<times> usage_db)" where
  "try_debit_repair db run_id task_id attempt_id = ebind (can_debit_repair db run_id task_id attempt_id) (\<lambda>ok.
     if \<not> ok then Inr (False, db)
     else if debit_at db attempt_id \<noteq> None then Inr (True, db)
     else Inr (True, db\<lparr> us_debits := us_debits db @ [\<lparr> de_attempt_id = attempt_id, de_next_attempt_id = None \<rparr>] \<rparr>))"

section \<open>Amounts as an ordered monoid\<close>

text \<open>An unknown amount absorbs every sum and lies above every known one, which is how the source compares: an unknown usage
  fits no finite limit and an absent limit admits everything.\<close>

abbreviation usage_plus :: "usage_amounts \<Rightarrow> usage_amounts \<Rightarrow> usage_amounts" where
  "usage_plus \<equiv> usage_zip add_known"

definition usage_le :: "usage_amounts \<Rightarrow> usage_amounts \<Rightarrow> bool" where
  "usage_le u v = list_all2 (\<lambda>(_, a) (_, b). within_limit a b) (usage_values u) (usage_values v)"

lemma usage_le_iff: "usage_le u v \<longleftrightarrow> within_limit (ua_duration_ms u) (ua_duration_ms v) \<and> within_limit (ua_tool_calls u) (ua_tool_calls v) \<and>
    within_limit (ua_named_checks u) (ua_named_checks v) \<and> within_limit (ua_provider_attempts u) (ua_provider_attempts v) \<and>
    within_limit (ua_repairs u) (ua_repairs v) \<and> within_limit (ua_input_tokens u) (ua_input_tokens v) \<and>
    within_limit (ua_output_tokens u) (ua_output_tokens v) \<and> within_limit (ua_cost_minor u) (ua_cost_minor v)"
  by (simp add: usage_le_def usage_values_def)

lemma within_refl [simp]: "within_limit a a"
  by (simp add: within_limit_def split: option.split)

lemma within_trans: "within_limit a b \<Longrightarrow> within_limit b c \<Longrightarrow> within_limit a c"
  by (auto simp: within_limit_def split: option.splits)

lemma within_add: "within_limit a b \<Longrightarrow> within_limit c d \<Longrightarrow> within_limit (add_known a c) (add_known b d)"
  by (auto simp: within_limit_def add_known_def split: option.splits)

lemma usage_le_refl [simp]: "usage_le u u"
  by (simp add: usage_le_iff)

lemma usage_le_trans: "usage_le u v \<Longrightarrow> usage_le v x \<Longrightarrow> usage_le u x"
  unfolding usage_le_iff using within_trans by meson

lemma usage_plus_mono: "usage_le u v \<Longrightarrow> usage_le x y \<Longrightarrow> usage_le (usage_plus u x) (usage_plus v y)"
  unfolding usage_le_iff by (simp add: usage_zip_def within_add)

lemma add_known_monoid: "add_known (add_known a b) c = add_known a (add_known b c)" "add_known a b = add_known b a" "add_known a (Some 0) = a"
    "add_known (Some 0) a = a" "add_known b (add_known a c) = add_known a (add_known b c)"
  by (auto simp: add_known_def split: option.splits)

lemma usage_plus_monoid: "usage_plus (usage_plus u v) x = usage_plus u (usage_plus v x)" "usage_plus u v = usage_plus v u"
    "usage_plus v (usage_plus u x) = usage_plus u (usage_plus v x)"
  by (simp_all add: usage_zip_def add_known_monoid)

lemma usage_plus_zero [simp]: "usage_plus u no_usage = u" "usage_plus no_usage u = u"
  by (simp_all add: usage_zip_def no_usage_def add_known_monoid)

definition usage_sum :: "usage_amounts list \<Rightarrow> usage_amounts" where
  "usage_sum us = foldr usage_plus us no_usage"

lemma usage_sum_simps [simp]: "usage_sum [] = no_usage" "usage_sum (u # us) = usage_plus u (usage_sum us)"
  by (simp_all add: usage_sum_def)

lemma usage_sum_append [simp]: "usage_sum (us @ vs) = usage_plus (usage_sum us) (usage_sum vs)"
  by (induction us) (simp_all add: usage_plus_monoid(1))

lemma usage_sum_mono: "(\<And>x. x \<in> set xs \<Longrightarrow> usage_le (f x) (g x)) \<Longrightarrow> usage_le (usage_sum (map f xs)) (usage_sum (map g xs))"
  by (induction xs) (auto intro: usage_plus_mono)

section \<open>Totals\<close>

definition valid_usage :: "usage_amounts \<Rightarrow> bool" where
  "valid_usage u = (usage_validate u = None)"

lemma zero_within: "within_limit (Some 0) v \<longleftrightarrow> (\<forall>n. v = Some n \<longrightarrow> \<not> n < 0)"
  by (cases v) (auto simp: within_limit_def)

lemma valid_usage_iff: "valid_usage u \<longleftrightarrow> usage_le no_usage u"
  by (simp add: valid_usage_def usage_validate_def usage_values_def usage_le_iff no_usage_def zero_within)

lemma valid_plus: "valid_usage u \<Longrightarrow> valid_usage v \<Longrightarrow> valid_usage (usage_plus u v)"
  unfolding valid_usage_iff using usage_plus_mono [of no_usage u no_usage v] by simp

lemma valid_none [simp]: "valid_usage no_usage"
  by (simp add: valid_usage_iff)

lemma usage_add_valid: "valid_usage u \<Longrightarrow> valid_usage v \<Longrightarrow> usage_add u v = Inr (usage_plus u v)"
  using valid_plus [of u v] by (simp add: usage_add_def usage_make_def valid_usage_def)

text \<open>The limits of a budget as amounts.\<close>

definition budget_limits :: "task_budget \<Rightarrow> usage_amounts" where
  "budget_limits b = \<lparr> ua_duration_ms = Some (tb_max_duration_seconds b * 1000), ua_tool_calls = Some (tb_max_tool_calls b),
     ua_named_checks = Some (tb_max_named_checks b), ua_provider_attempts = Some (tb_max_provider_attempts b),
     ua_repairs = Some (tb_max_repairs b), ua_input_tokens = tb_max_input_tokens b, ua_output_tokens = tb_max_output_tokens b,
     ua_cost_minor = tb_max_cost_minor b \<rparr>"

lemma valid_limits: "valid_budget b \<Longrightarrow> valid_usage (budget_limits b)"
  by (auto simp: valid_usage_iff usage_le_iff no_usage_def budget_limits_def within_limit_def valid_budget_def task_budget_validate_def split: option.splits)

lemma ceiling_is_limits: "valid_budget b \<Longrightarrow> budget_ceiling b = Inr (budget_limits b)"
  using valid_limits [of b] by (simp add: budget_ceiling_def budget_limits_def usage_make_def valid_usage_def)

lemma fits_within_valid: "valid_budget b \<Longrightarrow> fits_within u b = Inr (usage_le u (budget_limits b))"
  by (simp add: fits_within_def ceiling_is_limits usage_le_def)

definition row_cost :: "usage_db \<Rightarrow> reservation_row \<Rightarrow> usage_amounts" where
  "row_cost db r = (case consumption_at db (rv_attempt_id r) of
     None \<Rightarrow> (case rv_budget r of None \<Rightarrow> no_usage | Some b \<Rightarrow> budget_limits b) | Some c \<Rightarrow> cn_charged c)"

definition debit_cost :: "repair_row \<Rightarrow> usage_amounts" where
  "debit_cost d = no_usage\<lparr> ua_repairs := Some 1, ua_provider_attempts := Some (if de_next_attempt_id d = None then 1 else 0) \<rparr>"

definition scope_total :: "usage_db \<Rightarrow> uuid \<Rightarrow> uuid option \<Rightarrow> usage_amounts" where
  "scope_total db run_id scope = usage_plus (usage_sum (map (row_cost db) (scope_reservations db run_id scope)))
     (usage_sum (map debit_cost (scope_debits db run_id scope)))"

definition accounts_ok :: "usage_db \<Rightarrow> bool" where
  "accounts_ok db = ((\<forall>r \<in> set (us_reservations db). \<exists>b. rv_budget r = Some b \<and> valid_budget b \<and> tb_max_provider_attempts b = 1 \<and> tb_max_repairs b = 0) \<and>
     (\<forall>c \<in> set (us_consumptions db). valid_usage (cn_charged c) \<and> reservation_at db (cn_attempt_id c) \<noteq> None))"

lemma row_cost_valid: "accounts_ok db \<Longrightarrow> r \<in> set (us_reservations db) \<Longrightarrow> valid_usage (row_cost db r)"
proof (cases "consumption_at db (rv_attempt_id r)")
  case (Some c)
  then have "c \<in> set (us_consumptions db)" unfolding consumption_at_def by (blast dest: row_at_Some)
  then show "accounts_ok db \<Longrightarrow> ?thesis" using Some by (simp add: accounts_ok_def row_cost_def)
qed (fastforce simp: accounts_ok_def row_cost_def intro: valid_limits)

lemma usage_rows_total:
  assumes ok: "accounts_ok db" and rs: "set rs \<subseteq> set (us_reservations db)" and v: "valid_usage consumed" "valid_usage outstanding"
  shows "\<exists>c p n vs. usage_rows db rs consumed outstanding uncertain violations = Inr (c, p, n, vs) \<and> valid_usage c \<and> valid_usage p \<and>
    usage_plus c p = usage_plus (usage_plus consumed outstanding) (usage_sum (map (row_cost db) rs))"
  using rs v
proof (induction rs arbitrary: consumed outstanding uncertain violations)
  case (Cons r rs)
  have r: "r \<in> set (us_reservations db)" using Cons.prems(1) by simp
  then obtain b where b: "rv_budget r = Some b" "valid_budget b" using ok by (auto simp: accounts_ok_def)
  have vr: "valid_usage (row_cost db r)" by (rule row_cost_valid [OF ok r])
  show ?case
  proof (cases "consumption_at db (rv_attempt_id r)")
    case None
    then have cost: "row_cost db r = budget_limits b" using b by (simp add: row_cost_def)
    have v: "valid_usage (usage_plus outstanding (budget_limits b))" using valid_plus Cons.prems(3) vr cost by simp
    from Cons.IH [OF _ Cons.prems(2) v] Cons.prems(1) None b cost show ?thesis
      by (simp add: decoded_def budget_lift_def ceiling_is_limits usage_add_valid Cons.prems(3) vr [unfolded cost] usage_plus_monoid)
  next
    case (Some c)
    then have cost: "row_cost db r = cn_charged c" by (simp add: row_cost_def)
    have v: "valid_usage (usage_plus consumed (cn_charged c))" using valid_plus Cons.prems(2) vr cost by simp
    from Cons.IH [OF _ v Cons.prems(3)] Cons.prems(1) Some cost show ?thesis
      by (simp add: budget_lift_def usage_add_valid Cons.prems(2) vr [unfolded cost] usage_plus_monoid)
  qed
qed simp

lemma debit_sum: "usage_sum (map debit_cost ds) = no_usage\<lparr> ua_repairs := Some (int (length ds)),
    ua_provider_attempts := Some (int (length (filter (\<lambda>d. de_next_attempt_id d = None) ds))) \<rparr>"
  by (induction ds) (simp_all add: usage_zip_def no_usage_def debit_cost_def add_known_def)

lemma scope_usage_total:
  assumes "accounts_ok db"
  shows "\<exists>u. scope_usage db run_id scope = Inr u \<and> valid_usage (su_consumed u) \<and> valid_usage (su_outstanding u) \<and>
    usage_plus (su_consumed u) (su_outstanding u) = scope_total db run_id scope"
proof -
  have sub: "set (scope_reservations db run_id scope) \<subseteq> set (us_reservations db)" by (auto simp: scope_reservations_def)
  from usage_rows_total [OF assms sub valid_none valid_none, of 0 "[]"] obtain c p n vs where
    u: "usage_rows db (scope_reservations db run_id scope) no_usage no_usage 0 [] = Inr (c, p, n, vs)" "valid_usage c" "valid_usage p"
       "usage_plus c p = usage_sum (map (row_cost db) (scope_reservations db run_id scope))" by auto
  let ?d = "scope_debits db run_id scope"
  let ?r = "no_usage\<lparr> ua_repairs := Some (int (length ?d)) \<rparr>"
  let ?a = "no_usage\<lparr> ua_provider_attempts := Some (int (length (filter (\<lambda>d. de_next_attempt_id d = None) ?d))) \<rparr>"
  have v: "valid_usage ?r" "valid_usage ?a" by (simp_all add: valid_usage_iff usage_le_iff no_usage_def within_limit_def)
  have "usage_plus ?r ?a = usage_sum (map debit_cost ?d)" unfolding debit_sum by (simp add: usage_zip_def no_usage_def add_known_def)
  then have "usage_plus (usage_plus c ?r) (usage_plus p ?a) = scope_total db run_id scope"
    using u(4) by (metis scope_total_def usage_plus_monoid(1,3))
  then show ?thesis using u v valid_plus by (simp add: scope_usage_def Let_def budget_lift_def usage_add_valid)
qed

lemma scopes_admit_exact:
  assumes ok: "accounts_ok db" and v: "valid_usage extra" and b: "\<And>x. x \<in> set scopes \<Longrightarrow> valid_budget (snd (snd x))"
  shows "\<exists>a. scopes_admit db run_id denies extra scopes = Inr a \<and> (a \<longleftrightarrow> (\<forall>(scope, _, budget) \<in> set scopes.
    (\<exists>u. scope_usage db run_id scope = Inr u \<and> \<not> denies budget u) \<and> usage_le (usage_plus (scope_total db run_id scope) extra) (budget_limits budget)))"
  using b
proof (induction scopes)
  case (Cons x scopes)
  obtain scope name budget where x: "x = (scope, name, budget)" by (cases x) auto
  from scope_usage_total [OF ok] obtain u where u: "scope_usage db run_id scope = Inr u" "valid_usage (su_consumed u)" "valid_usage (su_outstanding u)"
    "usage_plus (su_consumed u) (su_outstanding u) = scope_total db run_id scope" by blast
  have vt: "valid_usage (scope_total db run_id scope)" using valid_plus [OF u(2,3)] u(4) by simp
  have vb: "valid_budget budget" using Cons.prems [of x] x by simp
  have IH: "\<exists>a. scopes_admit db run_id denies extra scopes = Inr a \<and> (a \<longleftrightarrow> (\<forall>(scope, _, budget) \<in> set scopes.
      (\<exists>u. scope_usage db run_id scope = Inr u \<and> \<not> denies budget u) \<and> usage_le (usage_plus (scope_total db run_id scope) extra) (budget_limits budget)))"
    by (rule Cons.IH) (simp add: Cons.prems)
  show ?case
  proof (cases "denies budget u")
    case True
    then show ?thesis using u(1) x by auto
  next
    case False
    have "scopes_admit db run_id denies extra (x # scopes) = (if usage_le (usage_plus (scope_total db run_id scope) extra) (budget_limits budget)
        then scopes_admit db run_id denies extra scopes else Inr False)"
      using False u vt v vb by (simp add: x budget_lift_def usage_add_valid fits_within_valid)
    then show ?thesis using IH False u(1) x by auto
  qed
qed (intro exI [of _ True], simp)

section \<open>Scopes of a task\<close>

definition run_budget_of :: "budget_pool_row list \<Rightarrow> task_budget \<Rightarrow> task_budget" where
  "run_budget_of pools b = fold (\<lambda>pool b. if bo_task_row_id pool = None then (case bo_pool pool of Some p \<Rightarrow> bp_total_budget p | None \<Rightarrow> b) else b) pools b"

lemma pool_scopes_shape:
  "pool_scopes t pools scopes b = Inr out \<Longrightarrow> \<exists>ps. out = scopes @ ps @ [(None, ''run'', run_budget_of pools b)] \<and>
     (\<forall>x \<in> set ps. \<exists>pool p. pool \<in> set pools \<and> bo_pool pool = Some p \<and> x = (Some t, ''task_pool'', bp_total_budget p))"
proof (induction t pools scopes b arbitrary: out rule: pool_scopes.induct)
  case (2 t pool pools scopes b)
  consider (run) p where "bo_task_row_id pool = None" "bo_pool pool = Some p"
    | (task) p where "bo_task_row_id pool = Some t" "bo_pool pool = Some p"
    | (other) u where "bo_task_row_id pool = Some u" "u \<noteq> t"
    using "2.prems" by (cases "bo_task_row_id pool"; cases "bo_pool pool") (auto simp: decoded_def split: if_splits)
  then show ?case
  proof cases
    case run
    then show ?thesis using "2.IH"(1) [of p out] "2.prems" by (fastforce simp: decoded_def run_budget_of_def)
  next
    case task
    then have "pool_scopes t pools (scopes @ [(Some t, ''task_pool'', bp_total_budget p)]) b = Inr out" using "2.prems" by (simp add: decoded_def)
    from "2.IH"(2) [OF task(1) refl _ this] task(2) obtain ps where ps: "out = (scopes @ [(Some t, ''task_pool'', bp_total_budget p)]) @ ps @ [(None, ''run'', run_budget_of pools b)]"
      "\<forall>x \<in> set ps. \<exists>pool p. pool \<in> set pools \<and> bo_pool pool = Some p \<and> x = (Some t, ''task_pool'', bp_total_budget p)" by (auto simp: decoded_def)
    then show ?thesis using task by (intro exI [of _ "(Some t, ''task_pool'', bp_total_budget p) # ps"] conjI) (simp add: run_budget_of_def, fastforce)
  next
    case other
    then show ?thesis using "2.IH"(3) [of u out] "2.prems" by (fastforce simp: run_budget_of_def)
  qed
qed (simp add: run_budget_of_def)

lemma budget_scopes_shape:
  assumes "budget_scopes db run_id t contract primary = Inr scopes"
  shows "(None, ''run'', run_budget_of (filter (\<lambda>p. bo_run_id p = run_id) (us_pools db)) (lt_budget primary)) \<in> set scopes \<and>
    (\<forall>(scope, name, budget) \<in> set scopes. scope = Some t \<or>
       scope = None \<and> budget = run_budget_of (filter (\<lambda>p. bo_run_id p = run_id) (us_pools db)) (lt_budget primary) \<and> name = ''run'')"
  using pool_scopes_shape [OF assms [unfolded budget_scopes_def]] by auto

definition budgets_valid :: "usage_db \<Rightarrow> bool" where
  "budgets_valid db = ((\<forall>l \<in> set (sd_logical (us_sched db)). \<forall>c. lg_contract l = Some c \<longrightarrow> valid_budget (lt_budget c)) \<and>
     (\<forall>pool \<in> set (us_pools db). \<forall>p. bo_pool pool = Some p \<longrightarrow> valid_budget (bp_total_budget p)))"

lemma run_budget_valid:
  "valid_budget b \<Longrightarrow> (\<And>pool p. pool \<in> set pools \<Longrightarrow> bo_pool pool = Some p \<Longrightarrow> valid_budget (bp_total_budget p)) \<Longrightarrow> valid_budget (run_budget_of pools b)"
  unfolding run_budget_of_def by (induction pools arbitrary: b) (auto split: option.split)

lemma emap_decoded: "emap (\<lambda>row. decoded (f row)) xs = Inr ys \<Longrightarrow> map f xs = map Some ys"
  by (induction xs arbitrary: ys) (auto simp: ebind_Inr decoded_def split: option.splits)

lemma decoded_Some [simp]: "decoded (Some x) = Inr x"
  by (simp add: decoded_def)

lemma case_single_Inr: "(case xs of [p] \<Rightarrow> f p | _ \<Rightarrow> Inl e) = Inr y \<longleftrightarrow> (\<exists>p. xs = [p] \<and> f p = Inr y)"
  by (auto split: list.split)

lemma budget_contracts_Inr:
  assumes "budget_contracts db run_id t = Inr (contract, primary, task)"
  shows "logical_at (us_sched db) t = Some task \<and> lg_run_id task = run_id \<and> lg_contract task = Some contract \<and> sd_runs (us_sched db) run_id \<noteq> None \<and>
    (\<exists>roots. map lg_contract (filter (\<lambda>row. lg_run_id row = run_id \<and> lg_parent_task_id row = None) (sd_logical (us_sched db))) = map Some roots \<and>
      filter (\<lambda>c. lt_purpose c = PRIMARY) roots = [primary])"
proof -
  let ?rows = "filter (\<lambda>row. lg_run_id row = run_id \<and> lg_parent_task_id row = None) (sd_logical (us_sched db))"
  from assms have t: "logical_at (us_sched db) t = Some task" "lg_run_id task = run_id" "lg_contract task = Some contract"
      "sd_runs (us_sched db) run_id \<noteq> None"
    unfolding budget_contracts_def decoded_def by (auto simp: ebind_Inr case_single_Inr split: if_splits option.splits)
  then have "ebind (emap (\<lambda>row. decoded (lg_contract row)) ?rows) (\<lambda>roots.
      case filter (\<lambda>c. lt_purpose c = PRIMARY) roots of
        [p] \<Rightarrow> if lt_run_id contract \<noteq> run_id \<or> lt_task_id contract \<noteq> t then budget_conflict ''task budget identity conflicts'' else Inr (contract, p, task)
      | _ \<Rightarrow> budget_conflict ''one frozen primary budget is required'') = Inr (contract, primary, task)"
    using assms by (auto simp: budget_contracts_def)
  then obtain roots where roots: "emap (\<lambda>row. decoded (lg_contract row)) ?rows = Inr roots" "filter (\<lambda>c. lt_purpose c = PRIMARY) roots = [primary]"
    unfolding ebind_Inr case_single_Inr by (auto split: if_splits)
  show ?thesis using t emap_decoded [OF roots(1)] roots(2) by blast
qed

end
