(* ===== verification/Forge_Spending.thy ===== *)
theory Forge_Spending
  imports Forge_Usage
begin

text \<open>
  Histories of the accounting tables: reservations, settlements and repair debits of any attempts in any
  order, between changes by other repositories that keep the frozen budgets and the lineage of attempts.
  As long as no attempt has measured more than it had reserved, what every scope has consumed and promised
  stays within each of its budgets; and a budget that was fitted to a task is a budget its next attempt
  can reserve.
\<close>

section \<open>Lineage and totals\<close>

definition lineage :: "usage_db \<Rightarrow> uuid \<Rightarrow> (uuid \<times> uuid) option" where
  "lineage db i = map_option (\<lambda>a. (sa_run_id a, sa_task_row_id a)) (budget_attempt db i)"

definition debit_in :: "usage_db \<Rightarrow> uuid \<Rightarrow> uuid option \<Rightarrow> uuid \<Rightarrow> bool" where
  "debit_in db run_id scope i = (case lineage db i of None \<Rightarrow> False | Some (r, t) \<Rightarrow> in_scope run_id scope r t)"

lemma scope_debits_lineage: "scope_debits db run_id scope = filter (\<lambda>d. debit_in db run_id scope (de_attempt_id d)) (us_debits db)"
  by (auto simp: scope_debits_def debit_in_def lineage_def split: option.split intro!: filter_cong)

lemma scope_total_cong:
  assumes "us_reservations db' = us_reservations db" and "us_consumptions db' = us_consumptions db" and "us_debits db' = us_debits db"
    and "\<And>d. d \<in> set (us_debits db) \<Longrightarrow> lineage db' (de_attempt_id d) = lineage db (de_attempt_id d)"
  shows "scope_total db' run_id scope = scope_total db run_id scope"
proof -
  have "row_cost db' = row_cost db" using assms(2) by (simp add: row_cost_def consumption_at_def fun_eq_iff)
  moreover have "scope_reservations db' run_id scope = scope_reservations db run_id scope" using assms(1) by (simp add: scope_reservations_def)
  moreover have "scope_debits db' run_id scope = scope_debits db run_id scope"
    unfolding scope_debits_lineage assms(3) using assms(4) by (auto simp: debit_in_def intro!: filter_cong)
  ultimately show ?thesis by (simp add: scope_total_def)
qed

section \<open>Steps\<close>

text \<open>What the other repositories leave alone: the run and the contract of a task, the roots of a run that has tasks, the run and
  the task of an attempt. Tasks and attempts may be added, with valid budgets.\<close>

definition root_contracts :: "sched_db \<Rightarrow> uuid \<Rightarrow> logical_task_contract option list" where
  "root_contracts s run_id = map lg_contract (filter (\<lambda>row. lg_run_id row = run_id \<and> lg_parent_task_id row = None) (sd_logical s))"

definition budgets_frozen :: "sched_db \<Rightarrow> sched_db \<Rightarrow> bool" where
  "budgets_frozen s s' \<longleftrightarrow>
     (\<forall>t l. logical_at s t = Some l \<longrightarrow> (\<exists>l'. logical_at s' t = Some l' \<and> lg_run_id l' = lg_run_id l \<and> lg_contract l' = lg_contract l)) \<and>
     (\<forall>run_id. (\<exists>t l. logical_at s t = Some l \<and> lg_run_id l = run_id) \<longrightarrow> root_contracts s' run_id = root_contracts s run_id \<and>
        (sd_runs s' run_id = None \<longleftrightarrow> sd_runs s run_id = None)) \<and>
     (\<forall>i a. row_at sa_id i (sd_attempts s) = Some a \<longrightarrow> (\<exists>a'. row_at sa_id i (sd_attempts s') = Some a' \<and> sa_run_id a' = sa_run_id a \<and>
        sa_task_row_id a' = sa_task_row_id a)) \<and>
     (\<forall>l \<in> set (sd_logical s'). \<forall>c. lg_contract l = Some c \<longrightarrow> valid_budget (lt_budget c))"

inductive usage_step :: "usage_db \<Rightarrow> usage_db \<Rightarrow> bool" for db where
  step_reserve: "reserve_attempt db run_id task_id attempt_id b key = Inr db' \<Longrightarrow> valid_budget b \<Longrightarrow> usage_step db db'"
| step_settled: "settle_attempt db run_id task_id attempt_id telemetry = Inr (rc, db') \<Longrightarrow> usage_step db db'"
| step_debit: "try_debit_repair db run_id task_id attempt_id = Inr (ok, db') \<Longrightarrow> usage_step db db'"
| step_other: "budgets_frozen (us_sched db) s' \<Longrightarrow> usage_step db (db\<lparr> us_sched := s' \<rparr>)"

definition accountable :: "usage_db \<Rightarrow> uuid \<Rightarrow> uuid \<Rightarrow> bool" where
  "accountable db run_id t \<longleftrightarrow> (\<exists>contract primary task scopes. budget_contracts db run_id t = Inr (contract, primary, task) \<and>
     budget_scopes db run_id t contract primary = Inr scopes)"

definition usage_inv :: "usage_db \<Rightarrow> bool" where
  "usage_inv db \<longleftrightarrow> accounts_ok db \<and> budgets_valid db \<and> distinct (map rv_attempt_id (us_reservations db)) \<and>
     (\<forall>r \<in> set (us_reservations db). accountable db (rv_run_id r) (rv_task_id r)) \<and>
     (\<forall>d \<in> set (us_debits db). \<exists>r t. lineage db (de_attempt_id d) = Some (r, t) \<and> accountable db r t)"

text \<open>Every budget a task is bound by, with the scope it is a budget of.\<close>

definition binding :: "usage_db \<Rightarrow> uuid \<Rightarrow> uuid option \<Rightarrow> task_budget \<Rightarrow> bool" where
  "binding db run_id scope budget \<longleftrightarrow> (\<exists>t contract primary task scopes name. budget_contracts db run_id t = Inr (contract, primary, task) \<and>
     budget_scopes db run_id t contract primary = Inr scopes \<and> (scope, name, budget) \<in> set scopes)"

definition spend_ok :: "usage_db \<Rightarrow> bool" where
  "spend_ok db \<longleftrightarrow> (\<forall>run_id scope budget. binding db run_id scope budget \<longrightarrow> usage_le (scope_total db run_id scope) (budget_limits budget))"

definition no_overage :: "usage_db \<Rightarrow> bool" where
  "no_overage db \<longleftrightarrow> (\<forall>c \<in> set (us_consumptions db). cn_exceeded_fields c = [])"

section \<open>Scopes\<close>

lemma scopes_valid:
  assumes "budgets_valid db" and "budget_contracts db run_id t = Inr (contract, primary, task)"
    and "budget_scopes db run_id t contract primary = Inr scopes" and "x \<in> set scopes"
  shows "valid_budget (snd (snd x))"
proof -
  note c = budget_contracts_Inr [OF assms(2)]
  from c obtain roots where roots: "map lg_contract (filter (\<lambda>row. lg_run_id row = run_id \<and> lg_parent_task_id row = None) (sd_logical (us_sched db))) = map Some roots"
    "filter (\<lambda>c. lt_purpose c = PRIMARY) roots = [primary]" by blast
  have "primary \<in> set (filter (\<lambda>c. lt_purpose c = PRIMARY) roots)" unfolding roots(2) by simp
  then have "Some primary \<in> set (map Some roots)" by simp
  then obtain l where l: "l \<in> set (sd_logical (us_sched db))" "lg_contract l = Some primary" unfolding roots(1) [symmetric] by auto
  have "task \<in> set (sd_logical (us_sched db))" using c unfolding logical_at_def by (blast dest: row_at_Some)
  then have v: "valid_budget (lt_budget contract)" "valid_budget (lt_budget primary)" using assms(1) c l by (auto simp: budgets_valid_def)
  have p: "valid_budget (bp_total_budget p)" if "pool \<in> set (us_pools db)" "bo_pool pool = Some p" for pool p
    using assms(1) that by (auto simp: budgets_valid_def)
  from pool_scopes_shape [OF assms(3) [unfolded budget_scopes_def]] assms(4) show ?thesis
    using v p by (auto intro!: run_budget_valid) (metis snd_conv)
qed

lemma binding_valid: "budgets_valid db \<Longrightarrow> binding db run_id scope budget \<Longrightarrow> valid_budget budget"
  unfolding binding_def using scopes_valid by fastforce

text \<open>What binds a scope of a task that has just been checked was checked with it.\<close>

lemma binding_checked:
  assumes c: "budget_contracts db run_id t = Inr (contract, primary, task)" and s: "budget_scopes db run_id t contract primary = Inr scopes"
    and b: "binding db run_id scope budget" and scope: "scope = None \<or> scope = Some t"
  shows "\<exists>name. (scope, name, budget) \<in> set scopes"
proof -
  from b obtain t' contract' primary' task' scopes' name where
    b': "budget_contracts db run_id t' = Inr (contract', primary', task')" "budget_scopes db run_id t' contract' primary' = Inr scopes'"
      "(scope, name, budget) \<in> set scopes'" unfolding binding_def by blast
  have "primary' = primary" using budget_contracts_Inr [OF c] budget_contracts_Inr [OF b'(1)]
    by (metis list.inject map_injective inj_Some)
  then show ?thesis
    using budget_scopes_shape [OF s] budget_scopes_shape [OF b'(2)] b' scope c s by fastforce
qed

section \<open>Settlement\<close>

lemma not_exceeded: "\<not> exceeds_limit v l \<Longrightarrow> within_limit (if v = None then l else v) l"
  by (auto simp: exceeds_limit_def within_limit_def split: option.splits)

lemma charge_within:
  assumes "project_attempt_charge b telemetry False = Inr charge" and "valid_budget b"
  shows "valid_usage (ac_charged charge) \<and> (ac_exceeded_fields charge = [] \<longrightarrow> usage_le (ac_charged charge) (budget_limits b))"
proof -
  from assms obtain observed where o: "ac_charged charge = usage_zip (\<lambda>v limit. if v = None then limit else v) observed (budget_limits b)"
      "usage_validate (ac_charged charge) = None"
      "ac_exceeded_fields charge = map (fst \<circ> fst) (filter (\<lambda>((_, v), (_, limit)). exceeds_limit v limit) (zip (usage_values observed) (usage_values (budget_limits b))))"
    by (auto simp: project_attempt_charge_def ebind_Inr ceiling_is_limits usage_make_def split: if_splits)
  have "usage_le (ac_charged charge) (budget_limits b)" if "ac_exceeded_fields charge = []"
  proof -
    have "\<forall>((_, v), (_, limit)) \<in> set (zip (usage_values observed) (usage_values (budget_limits b))). \<not> exceeds_limit v limit"
      using that unfolding o(3) by (auto simp: filter_empty_conv)
    then show ?thesis unfolding o(1) usage_le_iff by (simp add: usage_zip_def usage_values_def not_exceeded)
  qed
  then show ?thesis using o(2) by (simp add: valid_usage_def)
qed

lemma attempt_contracts_Inr: "attempt_contracts db run_id t i = Inr (contract, primary, task, attempt) \<Longrightarrow>
    budget_contracts db run_id t = Inr (contract, primary, task) \<and> budget_attempt db i = Some attempt \<and> lineage db i = Some (run_id, t)"
  by (auto simp: attempt_contracts_def ebind_Inr lineage_def split: option.splits if_splits)

lemma settlement_cases:
  assumes "settle_attempt db run_id t i telemetry = Inr (rc, db')"
  obtains (replay) "db' = db"
  | (charged) r b charge vs where "reservation_at db i = Some r" "rv_budget r = Some b" "consumption_at db i = None"
      "project_attempt_charge b telemetry False = Inr charge"
      "db' = db\<lparr> us_consumptions := us_consumptions db @ [consumption_of i telemetry charge vs] \<rparr>"
proof -
  obtain contract primary task attempt where a: "attempt_contracts db run_id t i = Inr (contract, primary, task, attempt)"
    using assms by (cases "attempt_contracts db run_id t i") (auto simp: settle_attempt_def)
  obtain r where r: "reservation_at db i = Some r" using assms by (cases "reservation_at db i") (simp_all add: settle_attempt_def a)
  have lin: "rv_run_id r = run_id" "rv_task_id r = t" using assms by (simp_all add: settle_attempt_def a r split: if_splits)
  show ?thesis
  proof (cases "consumption_at db i")
    case None
    obtain b where b: "rv_budget r = Some b" using assms by (cases "rv_budget r") (simp_all add: settle_attempt_def a r lin None decoded_def)
    obtain charge where c: "project_attempt_charge b telemetry False = Inr charge"
      using assms by (cases "project_attempt_charge b telemetry False") (simp_all add: settle_attempt_def a r lin None b budget_lift_def)
    show ?thesis using assms charged [OF r b None c]
      by (cases "budget_scopes db run_id t contract primary") (auto simp: settle_attempt_def a r lin None b c budget_lift_def Let_def)
  next
    case (Some c)
    then show ?thesis using assms replay by (auto simp: settle_attempt_def a r lin split: if_splits)
  qed
qed

lemma lineage_frame [simp]: "lineage (db\<lparr> us_consumptions := cs \<rparr>) = lineage db" "lineage (db\<lparr> us_reservations := rs \<rparr>) = lineage db"
    "lineage (db\<lparr> us_debits := ds \<rparr>) = lineage db"
  by (simp_all add: lineage_def budget_attempt_def fun_eq_iff)

lemma contracts_frame:
  assumes "us_sched db' = us_sched db" and "us_pools db' = us_pools db"
  shows "budget_contracts db' = budget_contracts db" "budget_scopes db' = budget_scopes db" "binding db' = binding db"
proof -
  show "budget_contracts db' = budget_contracts db" "budget_scopes db' = budget_scopes db"
    unfolding fun_eq_iff budget_contracts_def budget_scopes_def assms by simp_all
  then show "binding db' = binding db" by (simp add: binding_def fun_eq_iff)
qed

lemma settle_total:
  assumes inv: "usage_inv db" and r: "reservation_at db i = Some r" "rv_budget r = Some b" and none: "consumption_at db i = None"
    and ch: "usage_le (cn_charged c) (budget_limits b)" and i: "cn_attempt_id c = i"
  shows "usage_le (scope_total (db\<lparr> us_consumptions := us_consumptions db @ [c] \<rparr>) run_id scope) (scope_total db run_id scope)"
proof -
  let ?db = "db\<lparr> us_consumptions := us_consumptions db @ [c] \<rparr>"
  have "usage_le (row_cost ?db q) (row_cost db q)" if q: "q \<in> set (us_reservations db)" for q
  proof (cases "rv_attempt_id q = i")
    case True
    then have "q = r" using row_at_in [of rv_attempt_id "us_reservations db" q] inv q r(1) by (simp add: usage_inv_def reservation_at_def)
    then show ?thesis using True none r ch i by (simp add: row_cost_def consumption_at_def row_at_append)
  next
    case False
    then show ?thesis using i by (simp add: row_cost_def consumption_at_def row_at_append split: option.split)
  qed
  then have "usage_le (usage_sum (map (row_cost ?db) (scope_reservations db run_id scope))) (usage_sum (map (row_cost db) (scope_reservations db run_id scope)))"
    by (intro usage_sum_mono) (auto simp: scope_reservations_def)
  moreover have "scope_reservations ?db = scope_reservations db" "scope_debits ?db = scope_debits db"
    by (simp_all add: scope_reservations_def scope_debits_lineage debit_in_def fun_eq_iff)
  ultimately show ?thesis by (simp add: scope_total_def usage_plus_mono)
qed

section \<open>Reservation and debit\<close>

definition same_tables :: "usage_db \<Rightarrow> usage_db \<Rightarrow> bool" where
  "same_tables db db' \<longleftrightarrow> us_sched db' = us_sched db \<and> us_pools db' = us_pools db \<and> us_legacy db' = us_legacy db \<and>
     us_reservations db' = us_reservations db \<and> us_consumptions db' = us_consumptions db"

lemma debit_cost_spent: "de_next_attempt_id d \<noteq> None \<Longrightarrow> usage_le (debit_cost d) (debit_cost d')"
  by (auto simp: debit_cost_def usage_le_iff no_usage_def within_limit_def)

lemma transfer_cases:
  assumes "transfer_slot db run_id t attempt = Inr db1"
  obtains (none) "pending_repairs db run_id t = []" "db1 = db"
  | (slot) d where "pending_repairs db run_id t = [d]"
      "db1 = db\<lparr> us_debits := put_row de_attempt_id (d\<lparr> de_next_attempt_id := Some (sa_id attempt) \<rparr>) (us_debits db) \<rparr>"
proof (cases "pending_repairs db run_id t")
  case Nil
  then have "db1 = db" using assms by (simp add: transfer_slot_def)
  with Nil show ?thesis by (rule none)
next
  case (Cons d ds)
  then have ds: "pending_repairs db run_id t = [d]" using assms by (cases ds) (simp_all add: transfer_slot_def)
  then obtain parent where "budget_attempt db (de_attempt_id d) = Some parent"
    using assms by (cases "budget_attempt db (de_attempt_id d)") (simp_all add: transfer_slot_def)
  then have "db1 = db\<lparr> us_debits := put_row de_attempt_id (d\<lparr> de_next_attempt_id := Some (sa_id attempt) \<rparr>) (us_debits db) \<rparr>"
    using assms ds by (simp add: transfer_slot_def split: if_splits)
  with ds show ?thesis by (rule slot)
qed

lemma scope_debits_put: "scope_debits (db\<lparr> us_debits := put_row de_attempt_id d (us_debits db) \<rparr>) run_id scope =
    put_row de_attempt_id d (scope_debits db run_id scope)"
proof -
  have "filter (\<lambda>x. q (de_attempt_id x)) (put_row de_attempt_id d ds) = put_row de_attempt_id d (filter (\<lambda>x. q (de_attempt_id x)) ds)" for q ds
    unfolding put_row_def by (induction ds) auto
  moreover have "debit_in (db\<lparr> us_debits := ds \<rparr>) = debit_in db" for ds by (simp add: debit_in_def fun_eq_iff)
  ultimately show ?thesis unfolding scope_debits_lineage by simp
qed

lemma put_debits_le: "de_next_attempt_id d \<noteq> None \<Longrightarrow> usage_le (usage_sum (map debit_cost (put_row de_attempt_id d ds))) (usage_sum (map debit_cost ds))"
  unfolding put_row_def map_map by (rule usage_sum_mono) (simp add: debit_cost_spent)

lemma transfer_frame:
  assumes "transfer_slot db run_id t attempt = Inr db1"
  shows "same_tables db db1 \<and> de_attempt_id ` set (us_debits db1) \<subseteq> de_attempt_id ` set (us_debits db) \<and> lineage db1 = lineage db \<and>
    usage_le (scope_total db1 run' scope) (scope_total db run' scope)"
  using assms
proof (cases rule: transfer_cases)
  case (slot d)
  let ?d = "d\<lparr> de_next_attempt_id := Some (sa_id attempt) \<rparr>"
  have "d \<in> set (us_debits db)" using slot(1) unfolding pending_repairs_def scope_debits_def by (auto dest!: arg_cong [of _ _ set])
  then have "de_attempt_id ` set (us_debits db1) \<subseteq> de_attempt_id ` set (us_debits db)"
    unfolding slot(2) by (force simp: put_row_def)
  moreover have "row_cost db1 = row_cost db" "scope_reservations db1 = scope_reservations db"
    by (simp_all add: slot(2) row_cost_def consumption_at_def scope_reservations_def fun_eq_iff)
  ultimately show ?thesis using put_debits_le [of ?d] unfolding scope_total_def
    by (simp add: slot(2) same_tables_def scope_debits_put usage_plus_mono)
qed (simp add: same_tables_def)

lemma reserve_cases:
  assumes "reserve_attempt db run_id t i b key = Inr db'"
  obtains (replay) "db' = db"
  | (new) contract primary task attempt db1 scopes extra where "attempt_contracts db run_id t i = Inr (contract, primary, task, attempt)"
      "reservation_at db i = None" "tb_max_provider_attempts b = 1" "tb_max_repairs b = 0" "transfer_slot db run_id t attempt = Inr db1"
      "budget_scopes db1 run_id t contract primary = Inr scopes" "budget_ceiling b = Inr extra"
      "scopes_admit db1 run_id (scope_denies (tb_billing_mode b)) extra scopes = Inr True"
      "db' = db1\<lparr> us_reservations := us_reservations db1 @ [\<lparr> rv_attempt_id = i, rv_run_id = run_id, rv_task_id = t, rv_idempotency_key = key,
         rv_budget = Some b \<rparr>] \<rparr>"
proof -
  have u: "tb_max_provider_attempts b = 1" "tb_max_repairs b = 0" and k: "key \<noteq> []" "\<not> 255 < length key"
    using assms by (auto simp: reserve_attempt_def split: if_splits)
  obtain contract primary task attempt where a: "attempt_contracts db run_id t i = Inr (contract, primary, task, attempt)"
    using assms by (cases "attempt_contracts db run_id t i") (auto simp: reserve_attempt_def u k)
  show ?thesis
  proof (cases "reservation_at db i")
    case (Some r)
    then show ?thesis using assms replay by (auto simp: reserve_attempt_def u k a split: if_splits)
  next
    case None
    have ad: "attempt_admissible db run_id t task attempt key = None"
      using assms by (cases "attempt_admissible db run_id t task attempt key") (simp_all add: reserve_attempt_def u k a None)
    obtain db1 where t: "transfer_slot db run_id t attempt = Inr db1"
      using assms by (cases "transfer_slot db run_id t attempt") (simp_all add: reserve_attempt_def u k a None ad)
    obtain scopes where s: "budget_scopes db1 run_id t contract primary = Inr scopes"
      using assms by (cases "budget_scopes db1 run_id t contract primary") (simp_all add: reserve_attempt_def u k a None ad t)
    obtain extra where e: "budget_ceiling b = Inr extra"
      using assms by (cases "budget_ceiling b") (simp_all add: reserve_attempt_def u k a None ad t s budget_lift_def)
    show ?thesis using assms new [OF a None u t s e]
      by (cases "scopes_admit db1 run_id (scope_denies (tb_billing_mode b)) extra scopes")
        (auto simp: reserve_attempt_def u k a None ad t s e budget_lift_def split: if_splits)
  qed
qed

lemma debit_cases:
  assumes "try_debit_repair db run_id t i = Inr (ok, db')"
  obtains (kept) "db' = db"
  | (new) contract primary task attempt scopes where "attempt_contracts db run_id t i = Inr (contract, primary, task, attempt)"
      "budget_scopes db run_id t contract primary = Inr scopes" "scopes_admit db run_id scope_stopped repair_units scopes = Inr True"
      "db' = db\<lparr> us_debits := us_debits db @ [\<lparr> de_attempt_id = i, de_next_attempt_id = None \<rparr>] \<rparr>"
proof -
  obtain contract primary task attempt where a: "attempt_contracts db run_id t i = Inr (contract, primary, task, attempt)"
    using assms by (cases "attempt_contracts db run_id t i") (auto simp: try_debit_repair_def can_debit_repair_def)
  show ?thesis
  proof (cases "debit_at db i = None")
    case False
    then show ?thesis using assms kept by (auto simp: try_debit_repair_def can_debit_repair_def a)
  next
    case True
    have c: "consumption_at db i \<noteq> None" using assms True by (auto simp: try_debit_repair_def can_debit_repair_def a split: if_splits)
    obtain scopes where s: "budget_scopes db run_id t contract primary = Inr scopes"
      using assms c True by (cases "budget_scopes db run_id t contract primary") (auto simp: try_debit_repair_def can_debit_repair_def a)
    show ?thesis using assms c True new [OF a s] kept
      by (cases "scopes_admit db run_id scope_stopped repair_units scopes")
        (auto simp: try_debit_repair_def can_debit_repair_def a s split: if_splits)
  qed
qed

section \<open>Totals of a step\<close>

lemma append_reservation_total:
  "scope_total (db\<lparr> us_reservations := us_reservations db @ [r] \<rparr>) run_id scope =
     (if in_scope run_id scope (rv_run_id r) (rv_task_id r) then usage_plus (scope_total db run_id scope) (row_cost db r) else scope_total db run_id scope)"
proof -
  let ?db = "db\<lparr> us_reservations := us_reservations db @ [r] \<rparr>"
  have "row_cost ?db = row_cost db" "scope_debits ?db run_id scope = scope_debits db run_id scope"
    by (simp_all add: row_cost_def consumption_at_def scope_debits_lineage debit_in_def fun_eq_iff)
  then show ?thesis by (simp add: scope_total_def scope_reservations_def usage_plus_monoid)
qed

lemma append_debit_total:
  "scope_total (db\<lparr> us_debits := us_debits db @ [d] \<rparr>) run_id scope =
     (if debit_in db run_id scope (de_attempt_id d) then usage_plus (scope_total db run_id scope) (debit_cost d) else scope_total db run_id scope)"
proof -
  let ?db = "db\<lparr> us_debits := us_debits db @ [d] \<rparr>"
  have "row_cost ?db = row_cost db" "scope_reservations ?db run_id scope = scope_reservations db run_id scope" "debit_in ?db = debit_in db"
    by (simp_all add: row_cost_def consumption_at_def scope_reservations_def debit_in_def fun_eq_iff)
  then show ?thesis by (simp add: scope_total_def scope_debits_lineage usage_plus_monoid)
qed

lemma no_rows_total:
  assumes "\<And>r. r \<in> set (us_reservations db) \<Longrightarrow> \<not> in_scope run_id scope (rv_run_id r) (rv_task_id r)"
    and "\<And>d. d \<in> set (us_debits db) \<Longrightarrow> \<not> debit_in db run_id scope (de_attempt_id d)"
  shows "scope_total db run_id scope = no_usage"
  using assms by (simp add: scope_total_def scope_reservations_def scope_debits_lineage filter_False)

lemma unsettled: "usage_inv db \<Longrightarrow> reservation_at db i = None \<Longrightarrow> consumption_at db i = None"
proof (rule ccontr)
  assume inv: "usage_inv db" and r: "reservation_at db i = None" and "consumption_at db i \<noteq> None"
  then obtain c where "c \<in> set (us_consumptions db)" "cn_attempt_id c = i" unfolding consumption_at_def by (auto dest: row_at_Some)
  with inv r show False by (auto simp: usage_inv_def accounts_ok_def)
qed

lemma spend_okD: "spend_ok db \<Longrightarrow> binding db run_id scope budget \<Longrightarrow> usage_le (scope_total db run_id scope) (budget_limits budget)"
  by (simp add: spend_ok_def)

lemma spend_okI: "(\<And>run_id scope budget. binding db run_id scope budget \<Longrightarrow> usage_le (scope_total db run_id scope) (budget_limits budget)) \<Longrightarrow> spend_ok db"
  by (simp add: spend_ok_def)

text \<open>A reservation and a debit add an amount to the scopes of one task, which the call has checked.\<close>

lemma checked_spend:
  assumes ok: "spend_ok db" and c: "budget_contracts db run0 t0 = Inr (contract, primary, task)" and s: "budget_scopes db run0 t0 contract primary = Inr scopes"
    and frame: "us_sched db' = us_sched db" "us_pools db' = us_pools db"
    and le: "\<And>run_id scope. \<not> in_scope run_id scope run0 t0 \<Longrightarrow> usage_le (scope_total db' run_id scope) (scope_total db run_id scope)"
    and checked: "\<And>scope name budget. (scope, name, budget) \<in> set scopes \<Longrightarrow> usage_le (scope_total db' run0 scope) (budget_limits budget)"
  shows "spend_ok db'"
proof (rule spend_okI)
  fix run_id scope budget assume "binding db' run_id scope budget"
  then have b: "binding db run_id scope budget" using contracts_frame(3) [OF frame] by simp
  show "usage_le (scope_total db' run_id scope) (budget_limits budget)"
  proof (cases "in_scope run_id scope run0 t0")
    case False
    then show ?thesis using usage_le_trans [OF le spend_okD [OF ok b]] by blast
  next
    case True
    then have r: "run_id = run0" and sc: "scope = None \<or> scope = Some t0" by (auto simp: in_scope_def split: option.splits)
    from binding_checked [OF c s b [unfolded r] sc] checked r show ?thesis by blast
  qed
qed

section \<open>The invariant is kept\<close>

lemma accountable_frame:
  assumes "us_sched db' = us_sched db" and "us_pools db' = us_pools db"
  shows "accountable db' = accountable db"
  unfolding fun_eq_iff accountable_def contracts_frame(1,2) [OF assms] by simp

lemma reservation_at_append: "reservation_at (db\<lparr> us_reservations := us_reservations db @ [r] \<rparr>) i =
    (case reservation_at db i of Some x \<Rightarrow> Some x | None \<Rightarrow> if rv_attempt_id r = i then Some r else None)"
  by (simp add: reservation_at_def row_at_append)

lemma reserve_keeps:
  assumes step: "reserve_attempt db run_id t i b key = Inr db'" and b: "valid_budget b" and inv: "usage_inv db"
  shows "usage_inv db' \<and> (spend_ok db \<longrightarrow> spend_ok db')"
  using step
proof (cases rule: reserve_cases)
  case (new contract primary task attempt db1 scopes extra)
  let ?r = "\<lparr> rv_attempt_id = i, rv_run_id = run_id, rv_task_id = t, rv_idempotency_key = key, rv_budget = Some b \<rparr>"
  note fr = transfer_frame [OF new(5), of run_id None]
  have tables: "us_sched db1 = us_sched db" "us_pools db1 = us_pools db" "us_reservations db1 = us_reservations db" "us_consumptions db1 = us_consumptions db"
    and lin: "lineage db1 = lineage db" using fr by (auto simp: same_tables_def)
  have c: "budget_contracts db run_id t = Inr (contract, primary, task)" using attempt_contracts_Inr [OF new(1)] by blast
  have s: "budget_scopes db run_id t contract primary = Inr scopes" using new(6) contracts_frame(2) [OF tables(1,2)] by simp
  have acc: "accountable db run_id t" using c s by (auto simp: accountable_def)
  have i: "i \<notin> rv_attempt_id ` set (us_reservations db)" using new(2) by (simp add: reservation_at_def row_at_None)
  have ok1: "accounts_ok db1" using inv tables by (simp add: usage_inv_def accounts_ok_def reservation_at_def)
  have ok': "accounts_ok db'" using ok1 b new(3,4) unfolding new(9) by (auto simp: accounts_ok_def reservation_at_append split: option.split)
  have v1: "budgets_valid db1" using inv tables by (simp add: usage_inv_def budgets_valid_def)
  have inv': "usage_inv db'" unfolding usage_inv_def
  proof (intro conjI ballI)
    show "accounts_ok db'" by (rule ok')
    show "budgets_valid db'" using v1 by (simp add: new(9) budgets_valid_def)
    show "distinct (map rv_attempt_id (us_reservations db'))" using inv i by (auto simp: new(9) tables usage_inv_def)
    have a: "accountable db' = accountable db" by (rule accountable_frame) (simp_all add: new(9) tables)
    show "accountable db' (rv_run_id r) (rv_task_id r)" if "r \<in> set (us_reservations db')" for r
      using that inv acc unfolding a by (auto simp: new(9) tables usage_inv_def)
    show "\<exists>r t. lineage db' (de_attempt_id d) = Some (r, t) \<and> accountable db' r t" if "d \<in> set (us_debits db')" for d
    proof -
      have "de_attempt_id d \<in> de_attempt_id ` set (us_debits db)" using that fr unfolding new(9) by auto
      then show ?thesis using inv unfolding a by (auto simp: new(9) lin usage_inv_def)
    qed
  qed
  have "spend_ok db'" if ok: "spend_ok db"
  proof (rule checked_spend [OF ok c s])
    show "us_sched db' = us_sched db" "us_pools db' = us_pools db" by (simp_all add: new(9) tables)
    show "usage_le (scope_total db' run' scope) (scope_total db run' scope)" if "\<not> in_scope run' scope run_id t" for run' scope
      using that transfer_frame [OF new(5)] by (simp add: new(9) append_reservation_total)
    have ceil: "extra = budget_limits b" using new(7) ceiling_is_limits [OF b] by simp
    have cost: "row_cost db1 ?r = extra"
      using unsettled [OF inv new(2)] by (simp add: row_cost_def consumption_at_def tables ceil)
    have vb: "valid_budget (snd (snd x))" if "x \<in> set scopes" for x using scopes_valid [OF _ c s that] inv by (simp add: usage_inv_def)
    show "usage_le (scope_total db' run_id scope) (budget_limits budget)" if x: "(scope, name, budget) \<in> set scopes" for scope name budget
    proof -
      have "scope = None \<or> scope = Some t" using budget_scopes_shape [OF s] x by auto
      then have "scope_total db' run_id scope = usage_plus (scope_total db1 run_id scope) extra"
        using cost by (auto simp: new(9) append_reservation_total in_scope_def)
      moreover have "usage_le (usage_plus (scope_total db1 run_id scope) extra) (budget_limits budget)"
        using scopes_admit_exact [OF ok1 _ vb, of extra scopes run_id "scope_denies (tb_billing_mode b)"] new(8) x valid_limits [OF b] ceil by fastforce
      ultimately show ?thesis by simp
    qed
  qed
  then show ?thesis using inv' by blast
qed (use inv in simp)

lemma debit_keeps:
  assumes step: "try_debit_repair db run_id t i = Inr (done, db')" and inv: "usage_inv db"
  shows "usage_inv db' \<and> (spend_ok db \<longrightarrow> spend_ok db')"
  using step
proof (cases rule: debit_cases)
  case (new contract primary task attempt scopes)
  let ?d = "\<lparr> de_attempt_id = i, de_next_attempt_id = None \<rparr>"
  have c: "budget_contracts db run_id t = Inr (contract, primary, task)" and lin: "lineage db i = Some (run_id, t)"
    using attempt_contracts_Inr [OF new(1)] by blast+
  have acc: "accountable db run_id t" using c new(2) by (auto simp: accountable_def)
  have a: "accountable db' = accountable db" by (rule accountable_frame) (simp_all add: new(4))
  have inv': "usage_inv db'" using inv acc lin unfolding usage_inv_def a
    by (auto simp: new(4) accounts_ok_def budgets_valid_def reservation_at_def)
  have "spend_ok db'" if ok: "spend_ok db"
  proof (rule checked_spend [OF ok c new(2)])
    show "us_sched db' = us_sched db" "us_pools db' = us_pools db" by (simp_all add: new(4))
    have din: "debit_in db run' scope i = in_scope run' scope run_id t" for run' scope using lin by (simp add: debit_in_def)
    show "usage_le (scope_total db' run' scope) (scope_total db run' scope)" if "\<not> in_scope run' scope run_id t" for run' scope
      using that by (simp add: new(4) append_debit_total din)
    have cost: "debit_cost ?d = repair_units" by (simp add: debit_cost_def repair_units_def)
    have v: "valid_usage repair_units" by (simp add: valid_usage_iff usage_le_iff repair_units_def no_usage_def within_limit_def)
    have vb: "valid_budget (snd (snd x))" if "x \<in> set scopes" for x using scopes_valid [OF _ c new(2) that] inv by (simp add: usage_inv_def)
    have ok1: "accounts_ok db" using inv by (simp add: usage_inv_def)
    show "usage_le (scope_total db' run_id scope) (budget_limits budget)" if x: "(scope, name, budget) \<in> set scopes" for scope name budget
    proof -
      have "scope = None \<or> scope = Some t" using budget_scopes_shape [OF new(2)] x by auto
      then have "scope_total db' run_id scope = usage_plus (scope_total db run_id scope) repair_units"
        using cost by (auto simp: new(4) append_debit_total din in_scope_def)
      moreover have "usage_le (usage_plus (scope_total db run_id scope) repair_units) (budget_limits budget)"
        using scopes_admit_exact [OF ok1 v vb, of scopes run_id scope_stopped] new(3) x by fastforce
      ultimately show ?thesis by simp
    qed
  qed
  then show ?thesis using inv' by blast
qed (use inv in simp)

lemma settle_keeps:
  assumes step: "settle_attempt db run_id t i telemetry = Inr (rc, db')" and inv: "usage_inv db"
  shows "usage_inv db' \<and> (spend_ok db \<longrightarrow> no_overage db' \<longrightarrow> spend_ok db')"
  using step
proof (cases rule: settlement_cases)
  case (charged r b charge vs)
  let ?c = "consumption_of i telemetry charge vs"
  have "r \<in> set (us_reservations db)" using charged(1) unfolding reservation_at_def by (blast dest: row_at_Some)
  then have b: "valid_budget b" using inv charged(2) by (auto simp: usage_inv_def accounts_ok_def)
  note ch = charge_within [OF charged(4) b]
  have a: "accountable db' = accountable db" by (rule accountable_frame) (simp_all add: charged(5))
  have inv': "usage_inv db'" using inv ch charged(1) unfolding usage_inv_def a
    by (auto simp: charged(5) accounts_ok_def budgets_valid_def reservation_at_def consumption_of_def)
  have "spend_ok db'" if ok: "spend_ok db" and n: "no_overage db'"
  proof (rule spend_okI)
    fix run' scope budget assume "binding db' run' scope budget"
    moreover have "binding db' = binding db" by (rule contracts_frame) (simp_all add: charged(5))
    ultimately have le: "usage_le (scope_total db run' scope) (budget_limits budget)" using spend_okD [OF ok] by simp
    have "usage_le (cn_charged ?c) (budget_limits b)" using n ch by (simp add: no_overage_def charged(5) consumption_of_def)
    from settle_total [OF inv charged(1-3) this] le show "usage_le (scope_total db' run' scope) (budget_limits budget)"
      unfolding charged(5) using usage_le_trans by (simp add: consumption_of_def) blast
  qed
  then show ?thesis using inv' by blast
qed (use inv in simp)

lemma contracts_exact:
  "budget_contracts db run_id t = Inr (contract, primary, task) \<longleftrightarrow> sd_runs (us_sched db) run_id \<noteq> None \<and> logical_at (us_sched db) t = Some task \<and>
     lg_run_id task = run_id \<and> lg_contract task = Some contract \<and> lt_run_id contract = run_id \<and> lt_task_id contract = t \<and>
     (\<exists>roots. root_contracts (us_sched db) run_id = map Some roots \<and> filter (\<lambda>c. lt_purpose c = PRIMARY) roots = [primary])" (is "?l \<longleftrightarrow> ?r")
proof
  assume ?l
  note c = budget_contracts_Inr [OF this]
  then have "lt_run_id contract = run_id \<and> lt_task_id contract = t"
    using \<open>?l\<close> by (auto simp: budget_contracts_def ebind_Inr case_single_Inr split: if_splits)
  then show ?r using c by (simp add: root_contracts_def)
next
  assume r: ?r
  then obtain roots where roots: "root_contracts (us_sched db) run_id = map Some roots" "filter (\<lambda>c. lt_purpose c = PRIMARY) roots = [primary]" by blast
  have "map f xs = map Some ys \<Longrightarrow> emap (\<lambda>row. decoded (f row)) xs = Inr ys" for f :: "logical_row \<Rightarrow> logical_task_contract option" and xs ys
    by (induction xs arbitrary: ys) (auto simp: Cons_eq_map_conv)
  from this [OF roots(1) [unfolded root_contracts_def]] show ?l using r roots(2) by (auto simp: budget_contracts_def)
qed

lemma frozen_contracts:
  assumes f: "budgets_frozen (us_sched db) s'" and c: "budget_contracts db run_id t = Inr (contract, primary, task)"
  shows "\<exists>task'. budget_contracts (db\<lparr> us_sched := s' \<rparr>) run_id t = Inr (contract, primary, task')"
proof -
  have l: "logical_at (us_sched db) t = Some task" "lg_run_id task = run_id" using c by (auto simp: contracts_exact)
  then obtain task' where t': "logical_at s' t = Some task'" "lg_run_id task' = run_id" "lg_contract task' = lg_contract task"
    using f unfolding budgets_frozen_def by metis
  have "root_contracts s' run_id = root_contracts (us_sched db) run_id \<and> (sd_runs s' run_id = None \<longleftrightarrow> sd_runs (us_sched db) run_id = None)"
    using f l unfolding budgets_frozen_def by metis
  then show ?thesis using c t' by (auto simp: contracts_exact)
qed

lemma frozen_lineage: "budgets_frozen (us_sched db) s' \<Longrightarrow> lineage db i = Some x \<Longrightarrow> lineage (db\<lparr> us_sched := s' \<rparr>) i = Some x"
  by (fastforce simp: budgets_frozen_def lineage_def budget_attempt_def)

lemma frozen_accountable: "budgets_frozen (us_sched db) s' \<Longrightarrow> accountable db r t \<Longrightarrow> accountable (db\<lparr> us_sched := s' \<rparr>) r t"
  unfolding accountable_def using frozen_contracts by (fastforce simp: budget_scopes_def)

lemma other_usage_inv:
  assumes f: "budgets_frozen (us_sched db) s'" and inv: "usage_inv db"
  shows "usage_inv (db\<lparr> us_sched := s' \<rparr>)"
  unfolding usage_inv_def
proof (intro conjI ballI)
  let ?db = "db\<lparr> us_sched := s' \<rparr>"
  show "accounts_ok ?db" "distinct (map rv_attempt_id (us_reservations ?db))" using inv by (simp_all add: usage_inv_def accounts_ok_def reservation_at_def)
  show "budgets_valid ?db" using inv f by (simp add: usage_inv_def budgets_valid_def budgets_frozen_def)
  show "accountable ?db (rv_run_id r) (rv_task_id r)" if "r \<in> set (us_reservations ?db)" for r
    using that inv frozen_accountable [OF f] by (simp add: usage_inv_def)
  show "\<exists>r t. lineage ?db (de_attempt_id d) = Some (r, t) \<and> accountable ?db r t" if d: "d \<in> set (us_debits ?db)" for d
  proof -
    obtain r t where "lineage db (de_attempt_id d) = Some (r, t)" "accountable db r t" using d inv by (auto simp: usage_inv_def)
    then show ?thesis using frozen_lineage [OF f] frozen_accountable [OF f] by blast
  qed
qed

text \<open>A scope that has rows has an accountable task, whose binding budgets the change keeps; a scope without rows has used nothing.\<close>

lemma other_spend:
  assumes f: "budgets_frozen (us_sched db) s'" and inv: "usage_inv db" and ok: "spend_ok db"
  shows "spend_ok (db\<lparr> us_sched := s' \<rparr>)"
proof (rule spend_okI)
  let ?db = "db\<lparr> us_sched := s' \<rparr>"
  fix run_id scope budget assume b: "binding ?db run_id scope budget"
  from b obtain t contract primary task scopes name where n: "budget_contracts ?db run_id t = Inr (contract, primary, task)"
    "budget_scopes ?db run_id t contract primary = Inr scopes" "(scope, name, budget) \<in> set scopes" unfolding binding_def by blast
  have tot: "scope_total ?db run_id scope = scope_total db run_id scope"
  proof (rule scope_total_cong)
    show "lineage ?db (de_attempt_id d) = lineage db (de_attempt_id d)" if "d \<in> set (us_debits db)" for d
      using that inv frozen_lineage [OF f] by (fastforce simp: usage_inv_def)
  qed simp_all
  have v: "usage_le no_usage (budget_limits budget)"
    using binding_valid [OF _ b] other_usage_inv [OF f inv] valid_limits by (simp add: usage_inv_def valid_usage_iff)
  show "usage_le (scope_total ?db run_id scope) (budget_limits budget)"
  proof (cases "\<exists>r0 t0. in_scope run_id scope r0 t0 \<and> accountable db r0 t0")
    case True
    then obtain t0 where t0: "accountable db run_id t0" "scope = None \<or> scope = Some t0" by (cases scope) (auto simp: in_scope_def)
    then obtain contract0 primary0 task0 scopes0 where c0: "budget_contracts db run_id t0 = Inr (contract0, primary0, task0)"
      "budget_scopes db run_id t0 contract0 primary0 = Inr scopes0" by (auto simp: accountable_def)
    from frozen_contracts [OF f c0(1)] obtain task1 where c1: "budget_contracts ?db run_id t0 = Inr (contract0, primary0, task1)" by blast
    have c2: "budget_scopes ?db run_id t0 contract0 primary0 = Inr scopes0" using c0(2) by (simp add: budget_scopes_def)
    from binding_checked [OF c1 c2 b t0(2)] have "binding db run_id scope budget" using c0 unfolding binding_def by blast
    then show ?thesis using spend_okD [OF ok] tot by simp
  next
    case False
    have "scope_total db run_id scope = no_usage"
    proof (rule no_rows_total)
      show "\<not> in_scope run_id scope (rv_run_id r) (rv_task_id r)" if "r \<in> set (us_reservations db)" for r
        using that False inv by (auto simp: usage_inv_def)
      show "\<not> debit_in db run_id scope (de_attempt_id d)" if "d \<in> set (us_debits db)" for d
        using that False inv by (fastforce simp: usage_inv_def debit_in_def)
    qed
    then show ?thesis using tot v by simp
  qed
qed

lemma step_keeps:
  assumes "usage_step db db'" and "usage_inv db"
  shows "usage_inv db' \<and> (spend_ok db \<longrightarrow> no_overage db' \<longrightarrow> spend_ok db')"
  using assms(1)
proof cases
  case (step_reserve run_id t i b key)
  then show ?thesis using reserve_keeps assms(2) by blast
next
  case (step_settled run_id t i telemetry rc)
  then show ?thesis using settle_keeps assms(2) by blast
next
  case (step_debit run_id t i ok)
  then show ?thesis using debit_keeps assms(2) by blast
next
  case (step_other s')
  then show ?thesis using other_usage_inv other_spend assms(2) by simp
qed

lemma step_consumptions:
  assumes "usage_step db db'"
  shows "set (us_consumptions db) \<subseteq> set (us_consumptions db')"
  using assms
proof cases
  case (step_reserve run_id t i b key)
  from step_reserve(1) show ?thesis by (cases rule: reserve_cases) (auto simp: same_tables_def dest: transfer_frame)
next
  case (step_settled run_id t i telemetry rc)
  from step_settled show ?thesis by (cases rule: settlement_cases) auto
next
  case (step_debit run_id t i ok)
  from step_debit show ?thesis by (cases rule: debit_cases) auto
qed simp

lemma path_spend:
  "usage_step\<^sup>*\<^sup>* db db' \<Longrightarrow> usage_inv db \<Longrightarrow> usage_inv db' \<and> (spend_ok db \<longrightarrow> no_overage db' \<longrightarrow> spend_ok db')"
proof (induction rule: rtranclp_induct)
  case (step u v)
  then show ?case using step_keeps step_consumptions [OF step(2)] by (auto simp: no_overage_def)
qed simp

section \<open>Fitted budgets\<close>

text \<open>What the loop over the limits of one scope leaves: the proposal shrinks, and with what is used it stays within the limits.\<close>

definition fit_dim :: "int option \<Rightarrow> int option \<Rightarrow> int option \<Rightarrow> int option option" where
  "fit_dim limit amount prior = (case limit of None \<Rightarrow> Some prior | Some l \<Rightarrow> (case amount of None \<Rightarrow> None | Some n \<Rightarrow>
     if l < n then None else Some (Some (case prior of None \<Rightarrow> l - n | Some p \<Rightarrow> min p (l - n)))))"

lemma fit_limits_Cons: "fit_limits ((name, l) # ls) ((n1, n) # us) ((n2, p) # ps) = Some d \<longleftrightarrow>
    (\<exists>q d'. d = (name, q) # d' \<and> fit_dim l n p = Some q \<and> fit_limits ls us ps = Some d')"
  by (auto simp: fit_dim_def split: option.splits)

lemma fit_dim_amount: "fit_dim l n p = Some q \<Longrightarrow> within_limit q p \<and> within_limit (add_known n q) l \<and> (within_limit (Some 0) p \<longrightarrow> within_limit (Some 0) q)"
  by (auto simp: fit_dim_def within_limit_def add_known_def split: option.splits if_splits)

lemma fit_limits_amounts:
  assumes "fit_limits (usage_values cap) (usage_values used) (usage_values p) = Some d"
  shows "\<exists>q. d = usage_values q \<and> usage_le q p \<and> usage_le (usage_plus used q) cap \<and> (valid_usage p \<longrightarrow> valid_usage q)"
proof -
  have nil: "fit_limits [] [] [] = Some d' \<longleftrightarrow> d' = []" for d' by auto
  from assms obtain q0 q1 q2 q3 q4 q5 q6 q7 where d: "d = [(''duration_ms'', q0), (''tool_calls'', q1), (''named_checks'', q2), (''provider_attempts'', q3),
      (''repairs'', q4), (''input_tokens'', q5), (''output_tokens'', q6), (''cost_minor'', q7)]" and
    q: "fit_dim (ua_duration_ms cap) (ua_duration_ms used) (ua_duration_ms p) = Some q0" "fit_dim (ua_tool_calls cap) (ua_tool_calls used) (ua_tool_calls p) = Some q1"
      "fit_dim (ua_named_checks cap) (ua_named_checks used) (ua_named_checks p) = Some q2"
      "fit_dim (ua_provider_attempts cap) (ua_provider_attempts used) (ua_provider_attempts p) = Some q3"
      "fit_dim (ua_repairs cap) (ua_repairs used) (ua_repairs p) = Some q4" "fit_dim (ua_input_tokens cap) (ua_input_tokens used) (ua_input_tokens p) = Some q5"
      "fit_dim (ua_output_tokens cap) (ua_output_tokens used) (ua_output_tokens p) = Some q6"
      "fit_dim (ua_cost_minor cap) (ua_cost_minor used) (ua_cost_minor p) = Some q7"
    unfolding usage_values_def fit_limits_Cons nil by blast
  let ?q = "\<lparr> ua_duration_ms = q0, ua_tool_calls = q1, ua_named_checks = q2, ua_provider_attempts = q3, ua_repairs = q4, ua_input_tokens = q5,
    ua_output_tokens = q6, ua_cost_minor = q7 \<rparr>"
  have "d = usage_values ?q" by (simp add: d usage_values_def)
  moreover have "usage_le ?q p" "usage_le (usage_plus used ?q) cap" "valid_usage p \<longrightarrow> valid_usage ?q"
    using q [THEN fit_dim_amount] by (simp_all add: usage_le_iff usage_zip_def valid_usage_iff no_usage_def)
  ultimately show ?thesis by blast
qed

definition without_slots :: "int \<Rightarrow> usage_amounts \<Rightarrow> usage_amounts" where
  "without_slots n u = u\<lparr> ua_provider_attempts := map_option (\<lambda>a. a - n) (ua_provider_attempts u) \<rparr>"

lemma fit_scopes_amounts:
  assumes ok: "accounts_ok db" and b: "\<And>x. x \<in> set scopes \<Longrightarrow> valid_budget (snd (snd x))"
    and fit: "fit_scopes db run_id n mode scopes (usage_values p) unknown = Inr (Some (d, unknown'))" and p: "valid_usage p"
  shows "\<exists>q. d = usage_values q \<and> usage_le q p \<and> valid_usage q \<and> (\<forall>(scope, _, budget) \<in> set scopes. (\<exists>u. scope_usage db run_id scope = Inr u \<and>
    \<not> scope_denies mode budget u) \<and> usage_le (usage_plus (without_slots n (scope_total db run_id scope)) q) (budget_limits budget))"
  using b fit p
proof (induction scopes arbitrary: p unknown)
  case Nil
  then show ?case by auto
next
  case (Cons x scopes)
  obtain scope name budget where x: "x = (scope, name, budget)" by (cases x) auto
  from scope_usage_total [OF ok] obtain u where u: "scope_usage db run_id scope = Inr u" "valid_usage (su_consumed u)" "valid_usage (su_outstanding u)"
    "usage_plus (su_consumed u) (su_outstanding u) = scope_total db run_id scope" by blast
  let ?T = "scope_total db run_id scope"
  have vb: "valid_budget budget" using Cons.prems(1) [of x] x by simp
  have nd: "\<not> scope_denies mode budget u" using Cons.prems(2) u(1) x by auto
  have add: "usage_add (su_consumed u) (su_outstanding u) = Inr ?T" using usage_add_valid [OF u(2,3)] u(4) by simp
  obtain a where a: "ua_provider_attempts ?T = Some a" "n \<le> a"
    using Cons.prems(2) u(1) x nd add by (auto simp: budget_lift_def split: option.splits if_splits)
  have w: "?T\<lparr> ua_provider_attempts := Some (a - n) \<rparr> = without_slots n ?T" using a(1) by (simp add: without_slots_def)
  obtain d1 where d1: "fit_limits (usage_values (budget_limits budget)) (usage_values (without_slots n ?T)) (usage_values p) = Some d1"
    and rest: "fit_scopes db run_id n mode scopes d1 (narrowed_policy unknown (tb_unknown_telemetry_policy budget)) = Inr (Some (d, unknown'))"
    using Cons.prems(2) u(1) x nd add a by (auto simp: budget_lift_def ceiling_is_limits [OF vb] w split: option.splits)
  from fit_limits_amounts [OF d1] Cons.prems(3) obtain q1 where q1: "d1 = usage_values q1" "usage_le q1 p"
    "usage_le (usage_plus (without_slots n ?T) q1) (budget_limits budget)" "valid_usage q1" by blast
  have vs: "valid_budget (snd (snd y))" if "y \<in> set scopes" for y using Cons.prems(1) that by simp
  from Cons.IH [OF vs rest [unfolded q1(1)] q1(4)] obtain q where q: "d = usage_values q" "usage_le q q1" "valid_usage q"
    "\<forall>(scope, _, budget) \<in> set scopes. (\<exists>u. scope_usage db run_id scope = Inr u \<and> \<not> scope_denies mode budget u) \<and>
      usage_le (usage_plus (without_slots n (scope_total db run_id scope)) q) (budget_limits budget)" by blast
  have "usage_le (usage_plus (without_slots n ?T) q) (budget_limits budget)" using usage_le_trans [OF usage_plus_mono [OF usage_le_refl q(2)] q1(3)] .
  moreover have "usage_le q p" by (rule usage_le_trans [OF q(2) q1(2)])
  ultimately show ?case using q u(1) nd x by (intro exI [of _ q]) auto
qed

lemma usage_rows_cong:
  assumes "us_consumptions db' = us_consumptions db"
  shows "usage_rows db' rs c p n vs = usage_rows db rs c p n vs"
proof -
  have "consumption_at db' = consumption_at db" using assms by (simp add: consumption_at_def fun_eq_iff)
  then show ?thesis by (induction rs arbitrary: c p n vs) (simp_all split: option.split)
qed

text \<open>Moving a repair slot to its attempt frees it in the scopes of its task and changes no flag of a scope.\<close>

lemma transfer_flags:
  assumes t: "same_tables db db1" and ok: "accounts_ok db" "accounts_ok db1" and u: "scope_usage db run_id scope = Inr u"
  shows "\<exists>u1. scope_usage db1 run_id scope = Inr u1 \<and> su_policy_violations u1 = su_policy_violations u \<and> su_uncertain_attempts u1 = su_uncertain_attempts u"
proof -
  obtain u1 where u1: "scope_usage db1 run_id scope = Inr u1" using scope_usage_total [OF ok(2)] by blast
  have "usage_rows db1 (scope_reservations db1 run_id scope) no_usage no_usage 0 [] = usage_rows db (scope_reservations db run_id scope) no_usage no_usage 0 []"
    using t usage_rows_cong [of db1 db] by (simp add: same_tables_def scope_reservations_def)
  then show ?thesis using u u1 by (auto simp: scope_usage_def ebind_Inr Let_def)
qed

lemma transfer_total:
  assumes t: "transfer_slot db run_id t attempt = Inr db1" and scope: "in_scope run_id scope run_id t"
  shows "usage_le (scope_total db1 run_id scope) (without_slots (int (length (pending_repairs db run_id t))) (scope_total db run_id scope))"
  using t
proof (cases rule: transfer_cases)
  case none
  then show ?thesis by (cases "scope_total db run_id scope") (simp add: without_slots_def option.map_ident)
next
  case (slot d)
  let ?d = "d\<lparr> de_next_attempt_id := Some (sa_id attempt) \<rparr>" and ?free = "\<lambda>d :: repair_row. de_next_attempt_id d = None"
  let ?D = "scope_debits db run_id scope" and ?D1 = "scope_debits db1 run_id scope"
  have "d \<in> set (filter ?free (scope_debits db run_id (Some t)))" using slot(1) unfolding pending_repairs_def by simp
  then have d: "d \<in> set ?D" "?free d" using scope by (auto simp: scope_debits_lineage debit_in_def in_scope_def split: option.splits)
  have D1: "?D1 = put_row de_attempt_id ?d ?D" unfolding slot(2) by (rule scope_debits_put)
  have "length (filter ?free (put_row de_attempt_id ?d ds)) < length (filter ?free ds)" if "d \<in> set ds" for ds
  proof -
    have le: "length (filter ?free (put_row de_attempt_id ?d es)) \<le> length (filter ?free es)" for es by (induction es) (auto simp: put_row_def)
    show ?thesis using that d(2)
    proof (induction ds)
      case (Cons e es)
      then show ?case using le [of es] by (cases "e = d") (auto simp: put_row_def)
    qed simp
  qed
  then have free: "int (length (filter ?free ?D1)) \<le> int (length (filter ?free ?D)) - 1" using d(1) D1 by fastforce
  have len: "length ?D1 = length ?D" by (simp add: D1 put_row_def)
  have same: "row_cost db1 = row_cost db" "scope_reservations db1 = scope_reservations db"
    by (simp_all add: slot(2) row_cost_def consumption_at_def scope_reservations_def fun_eq_iff)
  show ?thesis unfolding slot(1) scope_total_def debit_sum same len
    using free by (auto simp: usage_le_iff without_slots_def usage_zip_def no_usage_def within_limit_def add_known_def split: option.splits)
qed

lemma fit_reservation_amounts:
  assumes fit: "fit_reservation db run_id t request = Inr (Some b)" and c: "budget_contracts db run_id t = Inr (contract, primary, task)"
    and inv: "usage_inv db" and req: "valid_budget request"
  shows "\<exists>scopes. budget_scopes db run_id t contract primary = Inr scopes \<and> valid_budget b \<and> tb_max_provider_attempts b = 1 \<and> tb_max_repairs b = 0 \<and>
    tb_billing_mode b = tb_billing_mode request \<and> usage_le (budget_limits b) (budget_limits request) \<and>
    (\<forall>(scope, _, budget) \<in> set scopes. (\<exists>u. scope_usage db run_id scope = Inr u \<and> \<not> scope_denies (tb_billing_mode b) budget u) \<and>
      usage_le (usage_plus (without_slots (int (length (pending_repairs db run_id t))) (scope_total db run_id scope)) (budget_limits b)) (budget_limits budget))"
proof -
  let ?n = "int (length (pending_repairs db run_id t))"
  have u: "tb_max_provider_attempts request = 1" "tb_max_repairs request = 0" using fit by (auto simp: fit_reservation_def split: if_splits)
  have l: "\<not> legacy_unresolved db run_id" "?n \<in> {0, 1}" using fit by (auto simp: fit_reservation_def u c Let_def split: if_splits)
  obtain scopes where s: "budget_scopes db run_id t contract primary = Inr scopes"
    using fit l by (cases "budget_scopes db run_id t contract primary") (auto simp: fit_reservation_def u c Let_def budget_lift_def ceiling_is_limits [OF req])
  obtain d unknown dur where d: "fit_scopes db run_id ?n (tb_billing_mode request) scopes (usage_values (budget_limits request))
        (tb_unknown_telemetry_policy request) = Inr (Some (d, unknown))"
      "proposed_at d ''duration_ms'' = Some dur" "1000 \<le> dur" "proposed_at d ''provider_attempts'' = Some 1"
      "b = fitted_budget request d dur unknown" "task_budget_validate b = None"
  proof -
    let ?fit = "fit_scopes db run_id ?n (tb_billing_mode request) scopes (usage_values (budget_limits request)) (tb_unknown_telemetry_policy request)"
    have cond: "(?n \<notin> {0, 1}) = False" "(1 \<noteq> (1 :: int) \<or> 0 \<noteq> (0 :: int)) = False" "legacy_unresolved db run_id = False" using l by auto
    have E: "ebind ?fit (\<lambda>fit. case fit of None \<Rightarrow> Inr None | Some (p, unknown) \<Rightarrow> (case proposed_at p ''duration_ms'' of
        None \<Rightarrow> Inr None | Some duration \<Rightarrow> if duration < 1000 \<or> proposed_at p ''provider_attempts'' \<noteq> Some 1 then Inr None
          else (let b = fitted_budget request p duration unknown in budget_lift (raising (task_budget_validate b) (Some b))))) = Inr (Some b)"
      using fit unfolding fit_reservation_def u c Let_def cond if_False ebind_simps prod.case ceiling_is_limits [OF req] s
      unfolding budget_lift_def sum.case ebind_simps .
    obtain d unknown where f: "?fit = Inr (Some (d, unknown))" using E by (cases ?fit) (auto split: option.splits)
    obtain dur where dur: "proposed_at d ''duration_ms'' = Some dur" using E by (cases "proposed_at d ''duration_ms''") (simp_all add: f)
    have g: "1000 \<le> dur" "proposed_at d ''provider_attempts'' = Some 1" using E by (auto simp: f dur split: if_splits)
    have "raising (task_budget_validate (fitted_budget request d dur unknown)) (Some (fitted_budget request d dur unknown)) = Inr (Some b)"
      using E g by (auto simp: f dur Let_def budget_lift_def split: sum.splits)
    then show ?thesis using that [OF f dur g] by (auto simp: raising_def split: option.splits)
  qed
  have vs: "valid_budget (snd (snd x))" if "x \<in> set scopes" for x using scopes_valid [OF _ c s that] inv by (simp add: usage_inv_def)
  have ok: "accounts_ok db" using inv by (simp add: usage_inv_def)
  from fit_scopes_amounts [OF ok vs d(1) valid_limits [OF req]] obtain q where q: "d = usage_values q" "usage_le q (budget_limits request)" "valid_usage q"
    "\<forall>(scope, _, budget) \<in> set scopes. (\<exists>u. scope_usage db run_id scope = Inr u \<and> \<not> scope_denies (tb_billing_mode request) budget u) \<and>
      usage_le (usage_plus (without_slots ?n (scope_total db run_id scope)) q) (budget_limits budget)" by blast
  have at: "ua_duration_ms q = Some dur" "ua_provider_attempts q = Some 1" using d(2,4) by (simp_all add: q(1) proposed_at_def usage_values_def)
  have b: "b = request\<lparr> tb_max_duration_seconds := dur div 1000, tb_max_tool_calls := or_zero (ua_tool_calls q), tb_max_named_checks := or_zero (ua_named_checks q),
      tb_max_input_tokens := ua_input_tokens q, tb_max_output_tokens := ua_output_tokens q, tb_max_cost_minor := ua_cost_minor q,
      tb_unknown_telemetry_policy := unknown \<rparr>"
    by (simp add: d(5) fitted_budget_def q(1) proposed_at_def usage_values_def)
  have "dur div 1000 * 1000 \<le> dur" using d(3) by simp
  then have le: "usage_le (budget_limits b) q" using q(2,3) at u
    by (auto simp: b usage_le_iff budget_limits_def valid_usage_iff no_usage_def within_limit_def or_zero_def split: option.splits)
  have "usage_le (usage_plus T (budget_limits b)) x" if "usage_le (usage_plus T q) x" for T x
    using usage_le_trans [OF usage_plus_mono [OF usage_le_refl le] that] .
  moreover have "usage_le (budget_limits b) (budget_limits request)" by (rule usage_le_trans [OF le q(2)])
  moreover have "valid_budget b" using d(6) by (simp add: valid_budget_def)
  ultimately show ?thesis using s q(4) u by (intro exI [of _ scopes]) (auto simp: b)
qed

section \<open>Properties\<close>

text \<open>A run with one primary task and its first attempt, before any accounting.\<close>

definition spending_sched :: sched_db where
  "spending_sched = \<lparr> sd_runs = (\<lambda>i. if i = 9 then Some (''IMPLEMENTING'', None) else None), sd_tasks = [], sd_sched_runs = [], sd_effects = [],
     sd_policies = [], sd_cursor = None,
     sd_logical = [\<lparr> lg_id = 1, lg_run_id = 9, lg_task_id = 1, lg_parent_task_id = None, lg_state = ''running'', lg_pause_requested = False,
       lg_cancel_requested = False, lg_version = 1, lg_contract = Some (sample_task 1 PRIMARY None [] []) \<rparr>],
     sd_attempts = [\<lparr> sa_id = 4, sa_run_id = 9, sa_task_row_id = 1, sa_attempt_number = 1, sa_status = ''running'', sa_lease_owner = Some ''w'',
       sa_lease_generation = Some 1 \<rparr>],
     sd_consumed = [], sd_bindings = [], sd_results = [], sd_decisions = [], sd_feedback = [], sd_fences = [], sd_checkpoints = [],
     sd_envelopes = (\<lambda>_. None) \<rparr>"

definition spending_start :: usage_db where
  "spending_start = \<lparr> us_sched = spending_sched, us_pools = [], us_legacy = [], us_reservations = [], us_consumptions = [], us_debits = [] \<rparr>"

definition spending_request :: task_budget where
  "spending_request = sample_budget\<lparr> tb_max_provider_attempts := 1, tb_max_repairs := 0 \<rparr>"

lemma spending_evaluated:
  "case fit_reservation spending_start 9 1 spending_request of Inr (Some b) \<Rightarrow> b = spending_request | _ \<Rightarrow> False"
  "case reserve_attempt spending_start 9 1 4 spending_request ''k'' of Inl _ \<Rightarrow> False | Inr db \<Rightarrow> us_consumptions db = []"
  "case attempt_contracts spending_start 9 1 4 of Inl _ \<Rightarrow> False | Inr (c, p, task, attempt) \<Rightarrow>
     attempt_admissible spending_start 9 1 task attempt ''k'' = None \<and> sa_attempt_number attempt = 1"
  "valid_budget spending_request" "pending_repairs spending_start 9 1 = []"
  by code_simp+

lemma spending_valid: "budgets_valid spending_start" "us_reservations spending_start = []" "us_consumptions spending_start = []" "us_debits spending_start = []"
proof -
  have "valid_budget sample_budget" by code_simp
  then show "budgets_valid spending_start" by (simp add: budgets_valid_def spending_start_def spending_sched_def sample_task_def)
qed (simp_all add: spending_start_def)

text \<open>C11. Frozen budgets are not overspent. In every history of reservations, settlements and repair debits, with tasks and attempts added and
  controlled by other repositories in between, and as long as no settled attempt measured more than it had reserved, the
  usage of every scope that binds a task (the task, its pool, its run) can be computed, and what is consumed
  and what is promised to running attempts and pending repairs together fit its budget.\<close>

theorem spending_within_budgets:
  assumes "budgets_valid db0" and "us_reservations db0 = []" and "us_consumptions db0 = []" and "us_debits db0 = []"
    and "usage_step\<^sup>*\<^sup>* db0 db" and "no_overage db" and "budget_contracts db run_id t = Inr (contract, primary, task)"
    and "budget_scopes db run_id t contract primary = Inr scopes" and "(scope, name, budget) \<in> set scopes"
  shows "\<exists>u total. scope_usage db run_id scope = Inr u \<and> usage_add (su_consumed u) (su_outstanding u) = Inr total \<and> fits_within total budget = Inr True"
proof -
  have inv0: "usage_inv db0" using assms(1-4) by (simp add: usage_inv_def accounts_ok_def)
  have "scope_total db0 r s = no_usage" for r s by (rule no_rows_total) (simp_all add: assms(2,4))
  then have "spend_ok db0" using binding_valid [OF assms(1)] valid_limits by (simp add: spend_ok_def valid_usage_iff)
  with path_spend [OF assms(5) inv0] assms(6) have inv: "usage_inv db" and ok: "spend_ok db" by blast+
  have "binding db run_id scope budget" using assms(7-9) unfolding binding_def by blast
  then have le: "usage_le (scope_total db run_id scope) (budget_limits budget)" and v: "valid_budget budget"
    using spend_okD [OF ok] binding_valid inv by (auto simp: usage_inv_def)
  obtain u where u: "scope_usage db run_id scope = Inr u" "valid_usage (su_consumed u)" "valid_usage (su_outstanding u)"
    "usage_plus (su_consumed u) (su_outstanding u) = scope_total db run_id scope" using scope_usage_total inv by (meson usage_inv_def)
  then show ?thesis using le fits_within_valid [OF v] usage_add_valid [OF u(2,3)] by simp
qed

theorem spending_within_budgets_witness:
  "\<exists>db contract primary task scopes. reserve_attempt spending_start 9 1 4 spending_request ''k'' = Inr db \<and>
     budget_contracts db 9 1 = Inr (contract, primary, task) \<and> budget_scopes db 9 1 contract primary = Inr scopes \<and>
     (\<forall>(scope, name, budget) \<in> set scopes. \<exists>u total. scope_usage db 9 scope = Inr u \<and>
        usage_add (su_consumed u) (su_outstanding u) = Inr total \<and> fits_within total budget = Inr True)"
proof -
  obtain db where db: "reserve_attempt spending_start 9 1 4 spending_request ''k'' = Inr db" "us_consumptions db = []"
    using spending_evaluated(2) by (auto split: sum.splits)
  then have step: "usage_step\<^sup>*\<^sup>* spending_start db" using step_reserve spending_evaluated(4) by blast
  obtain contract primary task attempt where c: "attempt_contracts spending_start 9 1 4 = Inr (contract, primary, task, attempt)"
    using spending_evaluated(3) by (auto split: sum.splits)
  from db(1) have "us_sched db = us_sched spending_start \<and> us_pools db = us_pools spending_start"
    by (cases rule: reserve_cases) (auto simp: same_tables_def dest: transfer_frame)
  then have f: "budget_contracts db = budget_contracts spending_start" "budget_scopes db = budget_scopes spending_start"
    using contracts_frame(1,2) [of db spending_start] by blast+
  have s: "budget_scopes spending_start 9 1 contract primary = Inr [(Some 1, ''task'', lt_budget contract), (None, ''run'', lt_budget primary)]"
    by (simp add: budget_scopes_def spending_start_def)
  have c': "budget_contracts db 9 1 = Inr (contract, primary, task)" using attempt_contracts_Inr [OF c] f by simp
  note s' = s [folded f(2)]
  have "no_overage db" by (simp add: no_overage_def db(2))
  from spending_within_budgets [OF spending_valid step this c' s'] show ?thesis using db(1) c' s' by fastforce
qed

text \<open>C12. A fitted budget can be reserved. When the accounting fits a requested ceiling to what is left of every budget that binds a task, the budget it
  returns is at most the request in every amount, and the next attempt of the task, if the run admits it and the pending repair slot (if
  there is one) is its own, reserves that budget: the checks at admission never refuse what the fit has promised.\<close>

theorem fitted_budget_reservable:
  assumes "budgets_valid db0" and "us_reservations db0 = []" and "us_consumptions db0 = []" and "us_debits db0 = []"
    and "usage_step\<^sup>*\<^sup>* db0 db" and "valid_budget request" and "fit_reservation db run_id t request = Inr (Some b)"
    and "attempt_contracts db run_id t i = Inr (contract, primary, task, attempt)" and "reservation_at db i = None"
    and "attempt_admissible db run_id t task attempt key = None" and "key \<noteq> []" and "length key \<le> 255"
    and "\<forall>d \<in> set (pending_repairs db run_id t). \<exists>parent. budget_attempt db (de_attempt_id d) = Some parent \<and>
      sa_attempt_number parent + 1 = sa_attempt_number attempt"
  shows "usage_le (budget_limits b) (budget_limits request) \<and> (\<exists>db'. reserve_attempt db run_id t i b key = Inr db' \<and>
    map rv_budget (us_reservations db') = map rv_budget (us_reservations db) @ [Some b])"
proof -
  have "usage_inv db0" using assms(1-4) by (simp add: usage_inv_def accounts_ok_def)
  then have inv: "usage_inv db" using path_spend [OF assms(5)] by blast
  have c: "budget_contracts db run_id t = Inr (contract, primary, task)" using attempt_contracts_Inr [OF assms(8)] by blast
  let ?n = "int (length (pending_repairs db run_id t))"
  from fit_reservation_amounts [OF assms(7) c inv assms(6)] obtain scopes where s: "budget_scopes db run_id t contract primary = Inr scopes"
    and b: "valid_budget b" "tb_max_provider_attempts b = 1" "tb_max_repairs b = 0" "usage_le (budget_limits b) (budget_limits request)"
    and fits: "\<forall>(scope, _, budget) \<in> set scopes. (\<exists>u. scope_usage db run_id scope = Inr u \<and> \<not> scope_denies (tb_billing_mode b) budget u) \<and>
      usage_le (usage_plus (without_slots ?n (scope_total db run_id scope)) (budget_limits b)) (budget_limits budget)" by blast
  have "?n \<in> {0, 1}" using assms(7) c by (auto simp: fit_reservation_def Let_def split: if_splits)
  then have "length (pending_repairs db run_id t) \<le> 1" by auto
  then obtain db1 where t: "transfer_slot db run_id t attempt = Inr db1"
    using assms(13) by (cases "pending_repairs db run_id t" rule: remdups_adj.cases) (auto simp: transfer_slot_def)
  note fr = transfer_frame [OF t, of run_id None]
  then have tab: "same_tables db db1" by blast
  then have s1: "budget_scopes db1 run_id t contract primary = Inr scopes" and rv: "us_reservations db1 = us_reservations db"
    using s contracts_frame(2) [of db1 db] by (auto simp: same_tables_def)
  have ok: "accounts_ok db" "accounts_ok db1" using inv tab by (simp_all add: usage_inv_def accounts_ok_def same_tables_def reservation_at_def)
  have vb: "valid_budget (snd (snd x))" if "x \<in> set scopes" for x using scopes_valid [OF _ c s that] inv by (simp add: usage_inv_def)
  have "(\<exists>u. scope_usage db1 run_id scope = Inr u \<and> \<not> scope_denies (tb_billing_mode b) budget u) \<and>
      usage_le (usage_plus (scope_total db1 run_id scope) (budget_limits b)) (budget_limits budget)" if x: "(scope, name, budget) \<in> set scopes" for scope name budget
  proof -
    have "in_scope run_id scope run_id t" using budget_scopes_shape [OF s] x by (auto simp: in_scope_def)
    from usage_le_trans [OF usage_plus_mono [OF transfer_total [OF t this] usage_le_refl]] fits x
    have "usage_le (usage_plus (scope_total db1 run_id scope) (budget_limits b)) (budget_limits budget)" by fastforce
    moreover obtain u where u: "scope_usage db run_id scope = Inr u" "\<not> scope_denies (tb_billing_mode b) budget u" using fits x by fastforce
    ultimately show ?thesis using transfer_flags [OF tab ok u(1)] u(2) by (auto simp: scope_denies_def scope_stopped_def)
  qed
  then have "scopes_admit db1 run_id (scope_denies (tb_billing_mode b)) (budget_limits b) scopes = Inr True"
    using scopes_admit_exact [OF ok(2) valid_limits [OF b(1)] vb, of scopes run_id "scope_denies (tb_billing_mode b)"] by fastforce
  then have "reserve_attempt db run_id t i b key = Inr (db1\<lparr> us_reservations := us_reservations db1 @ [\<lparr> rv_attempt_id = i, rv_run_id = run_id, rv_task_id = t,
      rv_idempotency_key = key, rv_budget = Some b \<rparr>] \<rparr>)"
    using assms(8-12) b t s1 by (simp add: reserve_attempt_def budget_lift_def ceiling_is_limits not_less)
  then show ?thesis using b(4) rv by simp
qed

theorem fitted_budget_reservable_witness:
  "fit_reservation spending_start 9 1 spending_request = Inr (Some spending_request) \<and>
   (\<exists>db. reserve_attempt spending_start 9 1 4 spending_request ''k'' = Inr db \<and> map rv_budget (us_reservations db) = [Some spending_request])"
proof -
  have fit: "fit_reservation spending_start 9 1 spending_request = Inr (Some spending_request)"
    using spending_evaluated(1) by (auto split: sum.splits option.splits)
  obtain contract primary task attempt where c: "attempt_contracts spending_start 9 1 4 = Inr (contract, primary, task, attempt)"
    and ad: "attempt_admissible spending_start 9 1 task attempt ''k'' = None" using spending_evaluated(3) by (auto split: sum.splits)
  have r: "reservation_at spending_start 4 = None" by (simp add: reservation_at_def row_at_def spending_valid(2))
  from fitted_budget_reservable [OF spending_valid rtranclp.rtrancl_refl spending_evaluated(4) fit c r ad] fit spending_evaluated(5) show ?thesis
    by (simp add: spending_valid(2))
qed

end
