(* ===== verification/Spec2Isabelle.thy ===== *)
theory Spec2Isabelle
  imports Forge_Epic Forge_Operation_Store Forge_Scheduler Forge_Probe Forge_Spending
begin

text \<open>
  A verification development for Parallel Forge, an orchestrator that drives coding runs through
  planning, development, review, publication and merge with human approval gates. The Python sources
  are under \<^verbatim>\<open>src/apps/orchestrator/src/forge\<close>; file names below are relative to that directory.

  \<^bold>\<open>The program.\<close> The domain layer (\<^verbatim>\<open>domain/\<close>) holds immutable values that validate
  themselves on construction. The state engine (\<^verbatim>\<open>application/services/state_engine.py\<close>) computes the
  next run snapshot for every operation, and the run repository (\<^verbatim>\<open>persistence/repositories/runs.py\<close>)
  applies it to a locked row under an optimistic version and appends one causal event. Work on a run is
  delivered through a durable queue of commands (\<^verbatim>\<open>commands.py\<close>), which workers claim under leases, and
  every external effect is first recorded as an operation intent (\<^verbatim>\<open>operations.py\<close>). Under a run,
  a frozen execution envelope says which routes, budgets and tools each specialist may use; a primary
  task delegates child tasks within it, and attempts hand off evidence and decisions. Services,
  handlers, the worker and the other repositories move those values between a database, git,
  containers and model providers. Its tasks share worktrees under the leases of a scheduler
  (\<^verbatim>\<open>scheduling.py\<close>), which also freezes the candidate of a run. The development models the domain layer,
  the engine, the run store, the command queue, the operation log, the scheduler and the quota pools, where the program
  decides what is legal, what is approved, what may be stored and who may act.

  \<^bold>\<open>The theories.\<close>
  \<^item> \<open>Forge_Prelude\<close>: exceptions as values, guards in source order, the Python strings, dictionaries,
    UUIDs and times the domain uses. \<open>Forge_Json\<close>: Python values and \<^verbatim>\<open>json.dumps\<close>, with the
    injectivity of the canonical text. \<open>Forge_Sha256\<close>: UTF-8 and SHA-256 on words.
    \<open>Forge_Regex\<close>: backtracking regular expressions with \<^verbatim>\<open>search\<close>, \<^verbatim>\<open>finditer\<close> and \<^verbatim>\<open>sub\<close>.
  \<^item> \<open>Forge_Resource\<close> (\<^verbatim>\<open>domain/resource.py\<close>): worktree and database identities. They are total on
    valid branch names, valid, and separate runs from developer worktrees.
  \<^item> \<open>Forge_Paths\<close> (\<^verbatim>\<open>domain/paths.py\<close>): repository paths; accepted ones stay below any root.
  \<^item> \<open>Forge_Policy\<close> (\<^verbatim>\<open>domain/policy.py\<close>, \<^verbatim>\<open>review.py\<close>, \<^verbatim>\<open>reasoning.py\<close>, \<^verbatim>\<open>validation.py\<close>): commands,
    path scopes, model and project policies, runner images.
  \<^item> \<open>Forge_Approval\<close> (\<^verbatim>\<open>domain/approval.py\<close>): the evidence shown at the approval gates, its canonical
    bytes and digest, and approval records. Equal digests mean equal evidence or a SHA-256 collision.
  \<^item> \<open>Forge_Run\<close> (\<^verbatim>\<open>domain/run.py\<close>, \<^verbatim>\<open>workflow.py\<close>) and \<open>Forge_Engine\<close>
    (\<^verbatim>\<open>application/services/state_engine.py\<close>): the run snapshot and every method of the engine, which are
    also the labels of a step relation with reachable states and histories. The invariant of reachable
    runs, exact acceptance, pause and resume, the approval gates, finality and version fencing are
    proved through the locales of invariants and versions that the engine interprets.
  \<^item> \<open>Forge_Payload\<close> (\<^verbatim>\<open>domain/payload.py\<close>): the credential scanner, redaction, capture cuts and payload
    validation. The iteration order of the set of redaction markers is an argument.
  \<^item> \<open>Forge_Operation\<close> (\<^verbatim>\<open>domain/event.py\<close>, \<^verbatim>\<open>command.py\<close>, \<^verbatim>\<open>operation.py\<close>, \<^verbatim>\<open>lease.py\<close>, \<^verbatim>\<open>scheduling.py\<close>):
    the durable values of the execution layer and their life cycles.
  \<^item> \<open>Forge_Graph\<close> and \<open>Forge_Epic\<close> (\<^verbatim>\<open>domain/epic_items.py\<close>): the topological count and the transitive
    search as loops over dictionaries, the interface between a caller and the count as the locale
    \<open>dependency_graph\<close>, and the work-item graphs of an epic that interpret it.
  \<^item> \<open>Forge_Run_Store\<close> (\<^verbatim>\<open>persistence/repositories/runs.py\<close>, \<^verbatim>\<open>events.py\<close>, \<^verbatim>\<open>persistence/models/run.py\<close>,
    \<^verbatim>\<open>domain/subscription_execution.py\<close>): the row of a run and its codec, the check constraints under
    the three-valued logic of SQL, every repository operation that changes a run, and the event log.
    Rows and engine runs correspond exactly, every history keeps the store consistent with a
    gap-free log, and an operation refines the engine behind its version fence.
  \<^item> \<open>Forge_Lease\<close>: tables as lists of rows, and two interfaces as locales, rows protected by a lease
    (\<open>leased_rows\<close>) and rows whose attempt counts deliveries (\<open>delivered_rows\<close>); the queue and the log
    interpret both.
  \<^item> \<open>Forge_Command_Store\<close> (\<^verbatim>\<open>persistence/repositories/commands.py\<close>, \<^verbatim>\<open>persistence/queries/recovery.py\<close>, the
    table of commands in \<^verbatim>\<open>persistence/models/execution.py\<close>): every call of the queue as a step labelled
    with its worker and clock. At most one live normal and one live control lease per run under a
    monotone clock, the choice and termination of the claim loop, the lease and delivery fences,
    exact replays, and two races and failures in which the code does not do what it is for.
  \<^item> \<open>Forge_Operation_Store\<close> (\<^verbatim>\<open>persistence/repositories/operations.py\<close>): the log of intents, and the
    composition of runs, queue and log over one database (\<open>exec_step\<close>) with its invariant: gap-free event
    numbers under two writers, consistent rows, intents begun and completed once, final outcomes.
  \<^item> \<open>Forge_Schedule\<close> (\<^verbatim>\<open>persistence/repositories/scheduling.py\<close>, \<^verbatim>\<open>persistence/models/scheduling.py\<close>, the choice of a
    route in \<^verbatim>\<open>subscription_quota.py\<close>): the tables of the scheduler of subscription tasks and every call on
    them. \<open>Forge_Protocol\<close>: the guarded moves of the protocol behind the calls, their invariant, the proof
    that each call is a sequence of moves, and the interpretations of the lease interfaces for tasks.
    \<open>Forge_Claim\<close>: capacity, dependencies, the feedback fence as reachability, the rotation of runs.
    \<open>Forge_Scheduler\<close>: the guarantees in every history of calls: writers of a worktree own disjoint
    paths, exclusive effects are serialised, a closed candidate is frozen, live leases fence their
    tasks, terminal tasks stay so, and a claim respects every limit.
  \<^item> \<open>Forge_Quota\<close> (\<^verbatim>\<open>persistence/repositories/subscription_quota.py\<close>, \<^verbatim>\<open>subscription_launch.py\<close>,
    \<^verbatim>\<open>persistence/models/subscription_quota.py\<close>, the evidence of \<^verbatim>\<open>domain/provider_quota.py\<close>): the pools that provider
    allowances are charged to, every call on them as a sequence of moves, and their invariant.
    \<open>Forge_Probe\<close>: in every history of calls an exhausted pool stays shut until the horizon of its
    evidence, has one probe at most, loses it only to a proof that its client has stopped, and opens
    only on a success no newer evidence has overtaken; evidence counts once, and the route the
    scheduler chooses is the one these tables give.
  \<^item> \<open>Forge_Usage\<close> (\<^verbatim>\<open>persistence/repositories/subscription_budget.py\<close>, \<^verbatim>\<open>persistence/models/subscription_usage.py\<close>,
    \<^verbatim>\<open>application/ports/subscription_budget.py\<close>): fitting, reserving and settling the budget of an attempt and
    debiting a repair, with usage amounts as an ordered monoid in which an unknown amount lies above
    every known one. \<open>Forge_Spending\<close>: in every history of these calls, while no attempt has measured
    more than it reserved, what a task or a run has consumed and promised fits each of its budgets, and
    a budget that was fitted to a task can be reserved by its next attempt.
  \<^item> \<open>Forge_Subscription\<close> and \<open>Forge_Budget\<close> (the first half of \<^verbatim>\<open>domain/subscription.py\<close>,
    \<^verbatim>\<open>subscription_budget.py\<close>): purposes, tools, routes, profiles, envelopes and telemetry; budgets, the
    pool of reservations as a refinement of a multiset of grants, and the charge of an attempt.
  \<^item> \<open>Forge_Task\<close> (\<^verbatim>\<open>domain/subscription.py\<close>: task contracts and \<^verbatim>\<open>validate_task_dag\<close>): the second
    interpretation of \<open>dependency_graph\<close>; the validator decides exactly the well-formed task graphs,
    and every accepted scope lies inside the scope of the root.
  \<^item> \<open>Forge_Plan\<close> (\<^verbatim>\<open>domain/plan.py\<close>, \<^verbatim>\<open>subscription_plan_contract.py\<close>): plan outputs and the contract
    an approved plan builds. \<open>Forge_Delegation\<close> (\<^verbatim>\<open>subscription_envelope.py\<close>, \<^verbatim>\<open>subscription_delegation.py\<close>,
    \<^verbatim>\<open>subscription_quota.py\<close>): freezing a profile, the authority of a child task, seeded limits, route
    candidates and quota pools.
  \<^item> \<open>Forge_Decision\<close> (the second half of \<^verbatim>\<open>domain/subscription.py\<close>, \<^verbatim>\<open>subscription_decision_policy.py\<close>,
    \<^verbatim>\<open>subscription_task_controls.py\<close>, \<^verbatim>\<open>subscription_feedback.py\<close>, \<^verbatim>\<open>subscription_launch.py\<close>): attempts, broker
    bindings, handoffs and decisions, operator controls, feedback and launch proofs.

  \<^bold>\<open>Conventions.\<close> A constructor with validation is a function to \<^typ>\<open>'a result\<close>, a check that may
  raise is a \<^typ>\<open>py_exn option\<close>, guards stand in source order and keep the message of the source; a
  failed pydantic field constraint is \<open>ValueError\<close> with the name of the field. Fields of different
  records are kept apart by a prefix. Characters are the code points below 256, so text beyond
  Latin-1 is outside the model; \<^verbatim>\<open>os.name\<close> is the argument \<open>nt\<close>. The
  text of a float in JSON is a parameter of the encoder, since \<^verbatim>\<open>float.__repr__\<close> is not in the sources.
  A failed database statement or a raise inside a repository operation is an error value that carries
  no store, which is what the rollback of the source leaves; the row lock makes an operation one step.
  The rows that other transactions hold locked, which \<^verbatim>\<open>SKIP LOCKED\<close> passes over, are an argument, and the
  label of a step carries the clock the call read, which may be older than its place in the history.
  The scheduler shares its tables with other repositories; its histories contain any change by them
  that leaves its tasks and effects alone, withdraws no coordinator and no bound read, and closes no
  candidate. The eligibility of a route, which \<open>Forge_Probe\<close> reads from the quota pools, the fit of a
  budget, which \<open>Forge_Usage\<close> defines, and the proof that a paused client has stopped are arguments of
  the scheduler, and a payload column is the record it decodes to.
  The clock, generated identifiers, the event redactor and the correlation context of a request are
  arguments. A JSONB object is a dictionary whose key order is never read. A frozen set is a list in
  its iteration order.

  \<^bold>\<open>Termination.\<close> No definition uses fuel. The claim loop of the queue, whose end depends on the table,
  is a partial function and proved to return a value. The loops of the capture cuts, the topological count, the
  transitive search, the walk over parent tasks and the search for the feedback fence are proved to
  terminate by measures on the cuts, on the positive counts, on the keys not yet seen, on the parents
  not yet visited and on the tasks not yet protected.

  \<^bold>\<open>Not modelled.\<close> Of the modelled files: the decoding of JSON text by pydantic, the record codec
  and the embedded review output of \<^verbatim>\<open>domain/subscription.py\<close>, tool requests and results of
  \<^verbatim>\<open>domain/tool.py\<close>, the proof of quiescence and the listing queries of the run repository, the paged
  listing of quota status, the classification of provider error messages, and the closing of exhausted feedback after
  a repair is debited. Steps, agent executions, tool calls and usage checkpoints appear only with
  the columns the recovery predicates and the scheduler read. Of the other writers of scheduled tasks
  (recovery, resumption, reassignment, run end) nothing is modelled. Database sessions and the other repositories, HTTP, the command line,
  subprocesses, git, containers, model gateways and file storage, whose behaviour is in other systems.
\<close>

end
